(* ===== verification/PolicyDecision.thy ===== *)
theory PolicyDecision
  imports Main
begin

text \<open>
  The contract every policy evaluator of the platform promises, AWS's evaluation logic: an explicit
  Deny wins, else an Allow grants, else the request is denied. Clients use the consequences proved
  here once; each evaluator of the development is an interpretation.
\<close>

locale deny_overrides =
  fixes applies :: "'s \<Rightarrow> 'r \<Rightarrow> bool" and allow :: "'s \<Rightarrow> bool"
    and decide :: "'s list \<Rightarrow> 'r \<Rightarrow> bool"
  assumes decide_iff:
    "decide p r \<longleftrightarrow> (\<exists>s \<in> set p. applies s r \<and> allow s) \<and> (\<forall>s \<in> set p. applies s r \<longrightarrow> allow s)"
begin

lemma default_deny: "\<forall>s \<in> set p. \<not> applies s r \<Longrightarrow> \<not> decide p r"
  by (auto simp: decide_iff)

lemma explicit_deny: "s \<in> set p \<Longrightarrow> applies s r \<Longrightarrow> \<not> allow s \<Longrightarrow> \<not> decide p r"
  by (auto simp: decide_iff)

lemma grant_needs_allow: "decide p r \<Longrightarrow> \<exists>s \<in> set p. applies s r \<and> allow s"
  by (simp add: decide_iff)

lemma order_irrelevant: "set p = set p' \<Longrightarrow> decide p r = decide p' r"
  by (simp add: decide_iff)

lemma deny_only_narrows: "\<not> allow d \<Longrightarrow> decide (d # p) r \<Longrightarrow> decide p r"
  by (auto simp: decide_iff)

lemma union_grants: "decide (p @ q) r \<Longrightarrow> decide p r \<or> decide q r"
  by (auto simp: decide_iff)

end

end
