(* ===== verification/Prelude.thy ===== *)
theory Prelude
  imports
    Main
    "HOL-Library.Char_ord"
    "HOL-Library.List_Lexorder"
begin

text \<open>
  Shared vocabulary of the development.

  A Go \<^verbatim>\<open>string\<close> is a list of bytes, here a HOL \<^typ>\<open>string\<close>; bytewise comparison
  (\<^verbatim>\<open>sort.Strings\<close>, \<^verbatim>\<open>strings.Compare\<close>) is the lexicographic order of
  \<^verbatim>\<open>List_Lexorder\<close> over \<^verbatim>\<open>Char_ord\<close>. A Go \<^verbatim>\<open>(T, error)\<close> result is a sum
  with the error on the left, \<^verbatim>\<open>*T\<close> and \<^verbatim>\<open>(T, bool)\<close> are options. A Go
  \<^verbatim>\<open>map[string]T\<close> is an association list in the order in which an iteration happens to
  visit it: theorems hold for every list, hence for every iteration order.

  The functions below are the parts of Go's \<^verbatim>\<open>strings\<close>, \<^verbatim>\<open>strconv\<close> and
  \<^verbatim>\<open>sort\<close> packages the modelled code calls. Case mapping and white space are those of
  ASCII, which is what ARNs, action names, Kubernetes names and IP addresses are made of.
\<close>

named_theorems go_simps \<open>characterisations of the library functions of Go\<close>

type_synonym ('e, 'a) result = "'e + 'a"
type_synonym 'a strmap = "(string \<times> 'a) list"

subsection \<open>Results\<close>

definition rbind :: "'e + 'a \<Rightarrow> ('a \<Rightarrow> 'e + 'b) \<Rightarrow> 'e + 'b" where
  "rbind m f = (case m of Inl e \<Rightarrow> Inl e | Inr a \<Rightarrow> f a)"

lemma rbind_simps [simp]:
  "rbind (Inl e) f = Inl e"
  "rbind (Inr a) f = f a"
  by (simp_all add: rbind_def)

lemma rbind_eq_Inr [simp]: "rbind m f = Inr b \<longleftrightarrow> (\<exists>a. m = Inr a \<and> f a = Inr b)"
  by (cases m) auto

lemma rbind_eq_Inl: "rbind m f = Inl e \<longleftrightarrow> m = Inl e \<or> (\<exists>a. m = Inr a \<and> f a = Inl e)"
  by (cases m) auto

lemma rbind_cong [fundef_cong]:
  "m = m' \<Longrightarrow> (\<And>a. m' = Inr a \<Longrightarrow> f a = g a) \<Longrightarrow> rbind m f = rbind m' g"
  by (cases m') auto

text \<open>A loop that stops at the first error and collects the results otherwise.\<close>

fun rmap :: "('a \<Rightarrow> 'e + 'b) \<Rightarrow> 'a list \<Rightarrow> 'e + 'b list" where
  "rmap f [] = Inr []"
| "rmap f (x # xs) = rbind (f x) (\<lambda>y. rbind (rmap f xs) (\<lambda>ys. Inr (y # ys)))"

lemma rmap_cong [fundef_cong]:
  "xs = ys \<Longrightarrow> (\<And>x. x \<in> set ys \<Longrightarrow> f x = g x) \<Longrightarrow> rmap f xs = rmap g ys"
  by (induction ys arbitrary: xs) auto

lemma rmap_Inr: "rmap f xs = Inr ys \<longleftrightarrow> list_all2 (\<lambda>x y. f x = Inr y) xs ys"
  by (induction xs arbitrary: ys) (auto simp: list_all2_Cons1)

lemma rmap_elem: "rmap f xs = Inr ys \<Longrightarrow> y \<in> set ys \<Longrightarrow> \<exists>x \<in> set xs. f x = Inr y"
  by (induction xs arbitrary: ys) auto

lemma rmap_length: "rmap f xs = Inr ys \<Longrightarrow> length ys = length xs"
  by (induction xs arbitrary: ys) auto

lemma rmap_Inl: "rmap f xs = Inl e \<Longrightarrow> \<exists>x \<in> set xs. f x = Inl e"
  by (induction xs) (auto simp: rbind_eq_Inl)

text \<open>A loop over an accumulator that stops at the first error.\<close>

fun rfold :: "('b \<Rightarrow> 'a \<Rightarrow> 'e + 'b) \<Rightarrow> 'b \<Rightarrow> 'a list \<Rightarrow> 'e + 'b" where
  "rfold f b [] = Inr b"
| "rfold f b (x # xs) = rbind (f b x) (\<lambda>b'. rfold f b' xs)"

lemma rfold_keeps:
  "rfold f b xs = Inr b' \<Longrightarrow> (\<And>b x b'. x \<in> set xs \<Longrightarrow> P b \<Longrightarrow> f b x = Inr b' \<Longrightarrow> P b') \<Longrightarrow> P b \<Longrightarrow> P b'"
  by (induction xs arbitrary: b) auto

subsection \<open>Strings\<close>

definition has_prefix :: "string \<Rightarrow> string \<Rightarrow> bool" where
  "has_prefix s p \<longleftrightarrow> take (length p) s = p"

definition has_suffix :: "string \<Rightarrow> string \<Rightarrow> bool" where
  "has_suffix s p \<longleftrightarrow> length p \<le> length s \<and> drop (length s - length p) s = p"

definition trim_prefix :: "string \<Rightarrow> string \<Rightarrow> string" where
  "trim_prefix s p = (if has_prefix s p then drop (length p) s else s)"

definition trim_suffix :: "string \<Rightarrow> string \<Rightarrow> string" where
  "trim_suffix s p = (if has_suffix s p then take (length s - length p) s else s)"

lemma has_prefix_iff [go_simps]: "has_prefix s p \<longleftrightarrow> (\<exists>r. s = p @ r)"
  by (metis append_eq_conv_conj append_take_drop_id has_prefix_def)

lemma has_suffix_iff [go_simps]: "has_suffix s p \<longleftrightarrow> (\<exists>r. s = r @ p)"
  by (metis append_take_drop_id append_eq_conv_conj diff_le_self has_suffix_def
      le_add2 length_append diff_add_inverse2)

definition is_space :: "char \<Rightarrow> bool" where
  "is_space c \<longleftrightarrow> c \<in> {CHR '' '', CHR 0x09, CHR 0x0A, CHR 0x0B, CHR 0x0C, CHR 0x0D}"

definition trim_space :: "string \<Rightarrow> string" where
  "trim_space s = rev (dropWhile is_space (rev (dropWhile is_space s)))"

definition lower_char :: "char \<Rightarrow> char" where
  "lower_char c = (let n = of_char c :: nat
     in if 65 \<le> n \<and> n \<le> 90 then char_of (n + 32) else c)"

definition to_lower :: "string \<Rightarrow> string" where
  "to_lower s = map lower_char s"

definition is_digit :: "char \<Rightarrow> bool" where
  "is_digit c \<longleftrightarrow> (let n = of_char c :: nat in 48 \<le> n \<and> n \<le> 57)"

text \<open>\<^verbatim>\<open>strings.Split\<close> by one byte and its inverse \<^verbatim>\<open>strings.Join\<close>.\<close>

fun split_on :: "char \<Rightarrow> string \<Rightarrow> string list" where
  "split_on c [] = [[]]"
| "split_on c (x # xs) =
     (if x = c then [] # split_on c xs
      else case split_on c xs of [] \<Rightarrow> [[x]] | w # ws \<Rightarrow> (x # w) # ws)"

fun join :: "string \<Rightarrow> string list \<Rightarrow> string" where
  "join sep [] = []"
| "join sep [w] = w"
| "join sep (w # v # ws) = w @ sep @ join sep (v # ws)"

lemma split_on_nonempty [simp]: "split_on c s \<noteq> []"
  by (induction s) (auto split: list.splits)

lemma join_split_on: "join [c] (split_on c s) = s"
proof (induction s)
  case (Cons x xs)
  then show ?case
    by (cases "split_on c xs"; cases "tl (split_on c xs)") auto
qed simp

lemma split_on_no_sep: "c \<notin> set s \<Longrightarrow> split_on c s = [s]"
  by (induction s) auto

lemma split_on_parts: "w \<in> set (split_on c s) \<Longrightarrow> c \<notin> set w"
proof (induction s arbitrary: w)
  case (Cons x xs)
  then show ?case
    by (cases "split_on c xs") (auto split: if_splits)
qed simp

text \<open>\<^verbatim>\<open>strings.SplitN\<close>: at most \<open>n\<close> fields, the last one keeps later separators.\<close>

fun split_n :: "nat \<Rightarrow> char \<Rightarrow> string \<Rightarrow> string list" where
  "split_n 0 c s = []"
| "split_n (Suc 0) c s = [s]"
| "split_n (Suc (Suc n)) c s =
     (let w = takeWhile (\<lambda>x. x \<noteq> c) s; r = dropWhile (\<lambda>x. x \<noteq> c) s
      in case r of [] \<Rightarrow> [w] | _ # r' \<Rightarrow> w # split_n (Suc n) c r')"

lemma length_split_n: "length (split_n n c s) \<le> n"
  by (induction n c s rule: split_n.induct) (auto simp: Let_def split: list.splits)

subsection \<open>Decimal numerals\<close>

definition digit_char :: "nat \<Rightarrow> char" where
  "digit_char d = char_of (48 + d)"

fun nat_digits :: "nat \<Rightarrow> string" where
  "nat_digits n = (if n < 10 then [digit_char n] else nat_digits (n div 10) @ [digit_char (n mod 10)])"

declare nat_digits.simps [simp del]

text \<open>\<^verbatim>\<open>strconv.Itoa\<close> and the verb \<^verbatim>\<open>%d\<close>.\<close>

definition itoa :: "int \<Rightarrow> string" where
  "itoa i = (if i < 0 then CHR ''-'' # nat_digits (nat (- i)) else nat_digits (nat i))"

lemma of_char_digit: "d < 10 \<Longrightarrow> of_char (digit_char d) = 48 + d"
  by (simp add: digit_char_def of_char_of)

lemma digit_char_eval:
  "digit_char 0 = CHR ''0''" "digit_char (Suc 0) = CHR ''1''" "digit_char 1 = CHR ''1''"
  "digit_char 2 = CHR ''2''" "digit_char 3 = CHR ''3''" "digit_char 4 = CHR ''4''"
  "digit_char 5 = CHR ''5''" "digit_char 6 = CHR ''6''" "digit_char 7 = CHR ''7''"
  "digit_char 8 = CHR ''8''" "digit_char 9 = CHR ''9''"
  by code_simp+

lemma is_digit_digit_char: "d < 10 \<Longrightarrow> is_digit (digit_char d)"
  by (simp add: is_digit_def of_char_digit Let_def)

lemma digit_char_inj: "d < 10 \<Longrightarrow> e < 10 \<Longrightarrow> digit_char d = digit_char e \<longleftrightarrow> d = e"
  using of_char_digit by (metis add_left_cancel)

lemma nat_digits_digits: "c \<in> set (nat_digits n) \<Longrightarrow> is_digit c"
proof (induction n rule: nat_digits.induct)
  case (1 n)
  then show ?case
    by (cases "n < 10") (auto simp: nat_digits.simps [of n] is_digit_digit_char)
qed

lemma nat_digits_nonempty [simp]: "nat_digits n \<noteq> []"
  by (subst nat_digits.simps) auto

lemma length_nat_digits: "n < 10 ^ k \<Longrightarrow> 0 < k \<Longrightarrow> length (nat_digits n) \<le> k"
proof (induction k arbitrary: n)
  case (Suc k)
  show ?case
  proof (cases "n < 10")
    case True
    then show ?thesis by (simp add: nat_digits.simps [of n])
  next
    case False
    then have "0 < k" using Suc.prems by (cases k) auto
    moreover have "n div 10 < 10 ^ k" using Suc.prems(1) by (simp add: less_mult_imp_div_less mult.commute)
    ultimately show ?thesis using Suc.IH False by (simp add: nat_digits.simps [of n])
  qed
qed simp

text \<open>Reading the digits back.\<close>

definition digits_value :: "string \<Rightarrow> nat" where
  "digits_value s = foldl (\<lambda>n c. n * 10 + (of_char c - 48)) 0 s"

lemma digits_value_nat_digits: "digits_value (nat_digits n) = n"
proof (induction n rule: nat_digits.induct)
  case (1 n)
  show ?case
  proof (cases "n < 10")
    case True
    then show ?thesis by (simp add: nat_digits.simps [of n] digits_value_def of_char_digit)
  next
    case False
    then have "digits_value (nat_digits n) = digits_value (nat_digits (n div 10)) * 10 + n mod 10"
      by (simp add: nat_digits.simps [of n] digits_value_def of_char_digit)
    with 1 False show ?thesis by simp
  qed
qed

lemma nat_digits_hd: "9 < n \<Longrightarrow> hd (nat_digits n) \<noteq> CHR ''0''"
proof (induction n rule: nat_digits.induct)
  case (1 n)
  show ?case
  proof (cases "n div 10 < 10")
    case True
    moreover have "n div 10 \<noteq> 0" using "1.prems" by auto
    moreover have "digit_char (n div 10) = digit_char 0 \<longleftrightarrow> n div 10 = 0"
      using True by (intro digit_char_inj) simp_all
    ultimately show ?thesis
      using "1.prems" by (simp add: nat_digits.simps [of n] nat_digits.simps [of "n div 10"] digit_char_eval)
  next
    case False
    with 1 show ?thesis by (simp add: nat_digits.simps [of n])
  qed
qed

text \<open>The digits determine the number.\<close>

lemma nat_digits_inj: "nat_digits m = nat_digits n \<Longrightarrow> m = n"
proof (induction m arbitrary: n rule: nat_digits.induct)
  case (1 m)
  note eq = "1.prems"
  show ?case
  proof (cases "m < 10 \<or> n < 10")
    case True
    with eq show ?thesis
      by (auto simp: nat_digits.simps [of m] nat_digits.simps [of n] digit_char_inj split: if_splits
          dest: sym [of "[]"])
  next
    case False
    with eq have "nat_digits (m div 10) = nat_digits (n div 10)"
      and last: "digit_char (m mod 10) = digit_char (n mod 10)"
      by (simp_all add: nat_digits.simps [of m] nat_digits.simps [of n])
    with "1.IH" False have "m div 10 = n div 10" by simp
    moreover from last have "m mod 10 = n mod 10" by (simp add: digit_char_inj)
    ultimately show ?thesis by (metis div_mult_mod_eq)
  qed
qed

lemma minus_not_digit: "\<not> is_digit (CHR ''-'')" and newline_not_digit: "\<not> is_digit (CHR 0x0A)"
  by (simp_all add: is_digit_def)

lemma itoa_chars: "c \<in> set (itoa i) \<Longrightarrow> is_digit c \<or> c = CHR ''-''"
  by (auto simp: itoa_def nat_digits_digits split: if_splits)

lemma itoa_no_newline: "CHR 0x0A \<notin> set (itoa i)"
  using itoa_chars newline_not_digit by fastforce

lemma itoa_inj: "itoa i = itoa j \<longleftrightarrow> i = j"
proof
  have minus: "nat_digits m \<noteq> CHR ''-'' # r" for m r
    using nat_digits_digits [of "CHR ''-''" m] minus_not_digit by auto
  assume "itoa i = itoa j"
  with minus show "i = j"
    by (auto simp: itoa_def split: if_splits dest!: nat_digits_inj)
       (metis minus)+
qed simp

subsection \<open>Association lists as Go maps\<close>

definition lookup :: "'a strmap \<Rightarrow> string \<Rightarrow> 'a option" where
  "lookup m k = map_of m k"

fun put :: "string \<Rightarrow> 'a \<Rightarrow> 'a strmap \<Rightarrow> 'a strmap" where
  "put k v [] = [(k, v)]"
| "put k v ((k', v') # m) = (if k = k' then (k, v) # m else (k', v') # put k v m)"

lemma lookup_put [simp]: "lookup (put k v m) k' = (if k' = k then Some v else lookup m k')"
  by (induction k v m rule: put.induct) (auto simp: lookup_def)

lemma lookup_Nil [simp]: "lookup [] k = None"
  by (simp add: lookup_def)

lemma lookup_Cons [simp]: "lookup ((k, v) # m) k' = (if k' = k then Some v else lookup m k')"
  by (simp add: lookup_def)

lemma keys_put: "fst ` set (put k v m) = insert k (fst ` set m)"
  by (induction k v m rule: put.induct) auto

lemma distinct_put: "distinct (map fst m) \<Longrightarrow> distinct (map fst (put k v m))"
proof (induction k v m rule: put.induct)
  case (2 k v k' v' m)
  then show ?case using keys_put [of k v m] by auto
qed simp

lemma lookup_in_set: "lookup m k = Some v \<Longrightarrow> (k, v) \<in> set m"
  by (simp add: lookup_def map_of_SomeD)

text \<open>\<^verbatim>\<open>delete(m, k)\<close>\<close>

definition del :: "string \<Rightarrow> 'a strmap \<Rightarrow> 'a strmap" where
  "del k m = filter (\<lambda>e. fst e \<noteq> k) m"

lemma lookup_del [simp]: "lookup (del k m) k' = (if k' = k then None else lookup m k')"
  by (induction m) (auto simp: del_def lookup_def)

lemma lookup_None_iff: "lookup m k = None \<longleftrightarrow> k \<notin> fst ` set m"
  by (simp add: lookup_def map_of_eq_None_iff)

lemma lookup_Some_key: "lookup m k = Some v \<Longrightarrow> k \<in> fst ` set m"
  by (metis lookup_None_iff option.distinct(1))

lemma distinct_del: "distinct (map fst m) \<Longrightarrow> distinct (map fst (del k m))"
  by (induction m) (auto simp: del_def)

text \<open>\<^verbatim>\<open>m[k]\<close> of a map to slices: nil when the key is absent.\<close>

definition slice_at :: "'a list strmap \<Rightarrow> string \<Rightarrow> 'a list" where
  "slice_at m k = (case lookup m k of None \<Rightarrow> [] | Some l \<Rightarrow> l)"

lemma slice_at_put [simp]: "slice_at (put k v m) k' = (if k' = k then v else slice_at m k')"
  by (simp add: slice_at_def)

lemma slice_at_del [simp]: "slice_at (del k m) k' = (if k' = k then [] else slice_at m k')"
  by (simp add: slice_at_def)

subsection \<open>Slices\<close>

text \<open>The first of each group of equal elements.\<close>

definition dedupe :: "'a list \<Rightarrow> 'a list" where
  "dedupe xs = foldl (\<lambda>out x. if x \<in> set out then out else out @ [x]) [] xs"

lemma dedupe_from:
  "set (foldl (\<lambda>out x. if x \<in> set out then out else out @ [x]) ys xs) = set ys \<union> set xs"
  "distinct (foldl (\<lambda>out x. if x \<in> set out then out else out @ [x]) ys xs) = distinct ys"
  by (induction xs arbitrary: ys) auto

lemma set_dedupe [simp]: "set (dedupe xs) = set xs" and distinct_dedupe [simp]: "distinct (dedupe xs)"
  by (simp_all add: dedupe_def dedupe_from)

definition opt_list :: "'a option \<Rightarrow> 'a list" where
  "opt_list x = (case x of None \<Rightarrow> [] | Some y \<Rightarrow> [y])"

lemma opt_list_simps [simp]: "opt_list None = []" "opt_list (Some y) = [y]"
  by (simp_all add: opt_list_def)

subsection \<open>Loops\<close>

text \<open>A loop that keeps a property has it in the end when some round establishes it.\<close>

lemma foldl_keeps: "(\<And>t x. P t \<Longrightarrow> P (f t x)) \<Longrightarrow> P t \<Longrightarrow> P (foldl f t xs)"
  by (induction xs arbitrary: t) simp_all

lemma foldl_reaches:
  assumes "\<And>t x. P t \<Longrightarrow> P (f t x)" "x \<in> set xs" "\<And>t. P (f t x)"
  shows "P (foldl f t xs)"
  using assms(2)
proof (induction xs arbitrary: t)
  case (Cons y xs)
  then show ?case using assms(3) foldl_keeps [of P f, OF assms(1)] by auto
qed simp

lemma foldl_from:
  assumes "\<And>t x. P (f t x) \<Longrightarrow> P t \<or> Q x" "P (foldl f t xs)"
  shows "P t \<or> (\<exists>x \<in> set xs. Q x)"
  using assms(2) by (induction xs arbitrary: t) (auto dest: assms(1))

subsection \<open>Integers of 64 bits\<close>

text \<open>Arithmetic on \<^verbatim>\<open>int\<close> and \<^verbatim>\<open>int64\<close> is exact modulo \<open>2 ^ 64\<close>.\<close>

definition wrap64 :: "int \<Rightarrow> int" where
  "wrap64 x = (x + 2 ^ 63) mod 2 ^ 64 - 2 ^ 63"

lemma wrap64_id: "- (2 ^ 63) \<le> x \<Longrightarrow> x < 2 ^ 63 \<Longrightarrow> wrap64 x = x"
  by (simp add: wrap64_def)

lemma wrap64_range: "- (2 ^ 63) \<le> wrap64 x" "wrap64 x < 2 ^ 63"
  by (simp_all add: wrap64_def)

lemma wrap64_eq: "wrap64 x = wrap64 y \<longleftrightarrow> x mod 2 ^ 64 = y mod 2 ^ 64"
proof -
  have "wrap64 x = wrap64 y \<longleftrightarrow> (x + 2 ^ 63) mod 2 ^ 64 = (y + 2 ^ 63) mod 2 ^ 64" by (simp add: wrap64_def)
  also have "\<dots> \<longleftrightarrow> x mod 2 ^ 64 = y mod 2 ^ 64" unfolding mod_eq_dvd_iff by simp
  finally show ?thesis .
qed

lemma wrap64_mod: "wrap64 x mod 2 ^ 64 = x mod 2 ^ 64"
  unfolding wrap64_def mod_diff_left_eq by simp

lemma wrap64_add: "wrap64 (wrap64 x + wrap64 y) = wrap64 (x + y)"
  unfolding wrap64_eq by (metis mod_add_eq wrap64_mod)

lemma wrap64_mult: "wrap64 (wrap64 x * wrap64 y) = wrap64 (x * y)"
  unfolding wrap64_eq by (metis mod_mult_eq wrap64_mod)

lemma wrap64_wrap64 [simp]: "wrap64 (wrap64 x) = wrap64 x"
  unfolding wrap64_eq by (rule wrap64_mod)

end
