(* ===== verification/Json.thy ===== *)
theory Json
  imports Prelude Complex_Main
begin

text \<open>
  JSON documents as Go's \<^verbatim>\<open>encoding/json\<close> hands them to the program: a value of type
  \<^verbatim>\<open>any\<close> after \<^verbatim>\<open>json.Unmarshal\<close>. A JSON number is the exact rational value of the
  \<^verbatim>\<open>float64\<close> it was read into (always finite in a decoded document), and an object is an
  association list (a \<^verbatim>\<open>map[string]any\<close>, in the order an iteration visits it). Go's
  \<^verbatim>\<open>nil\<close> of type \<^verbatim>\<open>any\<close> is \<open>JNull\<close>; reading an absent key of a map gives it too.
\<close>

datatype json =
    JNull
  | JBool bool
  | JNum rat
  | JStr string
  | JArr "json list"
  | JObj "(string \<times> json) list"

text \<open>\<^verbatim>\<open>m[k]\<close> as an expression of type \<^verbatim>\<open>any\<close>: nil when the key is absent.\<close>

definition field :: "json strmap \<Rightarrow> string \<Rightarrow> json" where
  "field m k = (case lookup m k of None \<Rightarrow> JNull | Some v \<Rightarrow> v)"

text \<open>\<^verbatim>\<open>s, _ := v.(string)\<close>: the empty string when \<open>v\<close> is not a string.\<close>

fun str_or_empty :: "json \<Rightarrow> string" where
  "str_or_empty (JStr s) = s"
| "str_or_empty _ = []"

fun is_str :: "json \<Rightarrow> bool" where
  "is_str (JStr s) = True"
| "is_str _ = False"

text \<open>\<^verbatim>\<open>for _, k := range sortedKeys(m)\<close>: the entries in the order of their keys.\<close>

definition sorted_entries :: "'a strmap \<Rightarrow> 'a strmap" where
  "sorted_entries m = sort_key fst m"

lemma set_sorted_entries [simp]: "set (sorted_entries m) = set m"
  by (simp add: sorted_entries_def)

text \<open>Keys of an object are unique, at every level: what a decoded document guarantees.\<close>

fun wf_json :: "json \<Rightarrow> bool" where
  "wf_json (JArr vs) = (\<forall>v \<in> set vs. wf_json v)"
| "wf_json (JObj m) = (distinct (map fst m) \<and> (\<forall>v \<in> snd ` set m. wf_json v))"
| "wf_json _ = True"

lemma json_size_field: "v \<in> set vs \<Longrightarrow> size v < Suc (size_list size vs)"
  by (simp add: less_Suc_eq_le size_list_estimation')

lemma json_size_entry: "(k, v) \<in> set m \<Longrightarrow> size v < Suc (size_list (size_prod (\<lambda>_. 0) size) m)"
  by (induction m) auto

end
