(* ===== verification/Wildcards.thy ===== *)
theory Wildcards
  imports Prelude
begin

text \<open>
  The two wildcard matchers of the authorization code.

  \<^item> \<open>Glob\<close> is \<^verbatim>\<open>Glob\<close> of \<^verbatim>\<open>cfn/resourcepolicy/resourcepolicy.go\<close>: an index loop
    with one saved backtracking point, wildcards \<^verbatim>\<open>*\<close> and \<^verbatim>\<open>?\<close>.
  \<^item> \<open>glob\<close> is \<^verbatim>\<open>glob\<close> of \<^verbatim>\<open>console-api/internal/iamcompile/match.go\<close>: the pattern is
    split at \<^verbatim>\<open>*\<close> and the pieces are searched from left to right; \<^verbatim>\<open>?\<close> is literal.

  Both are compared with one reference, \<open>wmatch\<close>, which tries every way a \<^verbatim>\<open>*\<close> can be
  expanded. The contract that the policy code relies on is the locale \<open>matcher\<close>.
\<close>

subsection \<open>The reference matcher\<close>

text \<open>\<open>wmatch q p s\<close>: \<open>s\<close> matches \<open>p\<close>; with \<open>q\<close> a \<^verbatim>\<open>?\<close> stands for one character.\<close>

fun wmatch :: "bool \<Rightarrow> string \<Rightarrow> string \<Rightarrow> bool" where
  "wmatch q [] s = (s = [])"
| "wmatch q (a # p) s =
     (if a = CHR ''*'' then wmatch q p s \<or> (case s of [] \<Rightarrow> False | _ # cs \<Rightarrow> wmatch q (a # p) cs)
      else case s of [] \<Rightarrow> False | c # cs \<Rightarrow> (a = c \<or> q \<and> a = CHR ''?'') \<and> wmatch q p cs)"

declare wmatch.simps(2) [simp del]

lemma wmatch_star_iff: "wmatch q (CHR ''*'' # p) s \<longleftrightarrow> (\<exists>u v. s = u @ v \<and> wmatch q p v)"
proof (induction s)
  case Nil
  then show ?case by (simp add: wmatch.simps(2))
next
  case (Cons c cs)
  then show ?case
    by (subst wmatch.simps(2)) (auto simp: Cons_eq_append_conv)
qed

lemma wmatch_char_iff:
  "a \<noteq> CHR ''*'' \<Longrightarrow>
   wmatch q (a # p) s \<longleftrightarrow> (\<exists>c cs. s = c # cs \<and> (a = c \<or> q \<and> a = CHR ''?'') \<and> wmatch q p cs)"
  by (cases s) (auto simp: wmatch.simps(2))

lemma wmatch_star_suffix: "wmatch q (CHR ''*'' # p) v \<Longrightarrow> wmatch q (CHR ''*'' # p) (u @ v)"
  by (auto simp: wmatch_star_iff) (metis append_assoc)

text \<open>A star-free prefix of the pattern matches exactly as many characters as it has.\<close>

lemma wmatch_append_starfree:
  "CHR ''*'' \<notin> set u \<Longrightarrow> wmatch q (u @ p) s \<Longrightarrow>
   \<exists>w v. s = w @ v \<and> length w = length u \<and> wmatch q p v"
proof (induction u arbitrary: s)
  case Nil
  then show ?case by simp
next
  case (Cons a u)
  then obtain c cs where s: "s = c # cs" and "wmatch q (u @ p) cs"
    by (auto simp: wmatch_char_iff)
  moreover have "CHR ''*'' \<notin> set u" using Cons.prems by simp
  ultimately obtain w v where "cs = w @ v" "length w = length u" "wmatch q p v"
    using Cons.IH by blast
  with s have "s = (c # w) @ v \<and> length (c # w) = length (a # u) \<and> wmatch q p v" by simp
  then show ?case by blast
qed

lemma wmatch_literal:
  assumes "CHR ''*'' \<notin> set p" and "q \<longrightarrow> CHR ''?'' \<notin> set p"
  shows "wmatch q (p @ r) s \<longleftrightarrow> (\<exists>v. s = p @ v \<and> wmatch q r v)"
  using assms
proof (induction p arbitrary: s)
  case (Cons a p)
  then show ?case by (auto simp: wmatch_char_iff)
qed simp

lemma wmatch_append:
  "wmatch False (p @ q) s \<longleftrightarrow> (\<exists>u v. s = u @ v \<and> wmatch False p u \<and> wmatch False q v)"
proof (induction p arbitrary: s)
  case (Cons a p)
  show ?case
  proof (cases "a = CHR ''*''")
    case True
    have "wmatch False (a # p @ q) s \<longleftrightarrow> (\<exists>x y z. s = x @ y @ z \<and> wmatch False p y \<and> wmatch False q z)"
      using Cons.IH by (auto simp: True wmatch_star_iff)
    then show ?thesis by (auto simp: True wmatch_star_iff) (metis append_assoc)
  next
    case False
    have "wmatch False (a # p @ q) s \<longleftrightarrow> (\<exists>u v. s = (a # u) @ v \<and> wmatch False p u \<and> wmatch False q v)"
      unfolding wmatch_char_iff [OF False] Cons.IH by auto
    also have "\<dots> \<longleftrightarrow> (\<exists>u v. s = u @ v \<and> wmatch False (a # p) u \<and> wmatch False q v)"
      unfolding wmatch_char_iff [OF False] by blast
    finally show ?thesis by simp
  qed
qed auto

text \<open>A pattern that matches the text of another pattern matches what that matches.\<close>

lemma wmatch_trans: "wmatch False p q \<Longrightarrow> wmatch False q r \<Longrightarrow> wmatch False p r"
proof (induction p arbitrary: q r)
  case (Cons a p)
  show ?case
  proof (cases "a = CHR ''*''")
    case True
    then obtain u v where "q = u @ v" "wmatch False p v" using Cons.prems(1) by (auto simp: wmatch_star_iff)
    then obtain x y where "r = x @ y" "wmatch False v y" using Cons.prems(2) by (auto simp: wmatch_append)
    then show ?thesis using Cons.IH [OF \<open>wmatch False p v\<close>] True by (auto simp: wmatch_star_iff)
  next
    case False
    then show ?thesis using Cons.prems Cons.IH by (auto simp: wmatch_char_iff)
  qed
qed simp

lemma wmatch_starfree: "CHR ''*'' \<notin> set p \<Longrightarrow> wmatch False p s \<longleftrightarrow> s = p"
  using wmatch_literal [of p False "[]" s] by auto

lemma wmatch_around:
  assumes "CHR ''*'' \<notin> set u" "CHR ''*'' \<notin> set v"
  shows "wmatch False (u @ p @ v) (u @ s @ v) \<longleftrightarrow> wmatch False p s"
  using assms by (auto simp: wmatch_append wmatch_starfree)

subsection \<open>The index loop of resourcepolicy\<close>

text \<open>\<^verbatim>\<open>for p < len(pattern) && pattern[p] == '*' { p++ }; return p == len(pattern)\<close>\<close>

function glob_tail :: "string \<Rightarrow> nat \<Rightarrow> bool" where
  "glob_tail pat p =
     (if p < length pat \<and> pat ! p = CHR ''*'' then glob_tail pat (p + 1) else p = length pat)"
  by pat_completeness auto
termination
  by (relation "measure (\<lambda>(pat, p). length pat - p)") auto

declare glob_tail.simps [simp del]

definition stars :: "string \<Rightarrow> nat" where
  "stars p = length (filter (\<lambda>c. c = CHR ''*'') p)"

lemma stars_drop_le: "stars (drop (Suc p) pat) \<le> stars (drop p pat)"
  by (cases "p < length pat") (simp_all add: Cons_nth_drop_Suc [symmetric] stars_def)

lemma stars_drop_star: "p < length pat \<Longrightarrow> pat ! p = CHR ''*'' \<Longrightarrow>
    stars (drop p pat) = Suc (stars (drop (Suc p) pat))"
  by (simp add: Cons_nth_drop_Suc [symmetric] stars_def)

text \<open>
  The main loop. \<open>star = None\<close> is the source's \<^verbatim>\<open>star = -1\<close>. The loop ends because a new
  backtracking point leaves fewer stars ahead, a backtrack moves \<open>mark\<close> on, and every other
  step consumes pattern.
\<close>

function glob_loop :: "string \<Rightarrow> string \<Rightarrow> nat \<Rightarrow> nat \<Rightarrow> nat option \<Rightarrow> nat \<Rightarrow> bool" where
  "glob_loop pat s p x star mark =
     (if x < length s then
        (if p < length pat \<and> (pat ! p = CHR ''?'' \<or> pat ! p = s ! x) then
           glob_loop pat s (p + 1) (x + 1) star mark
         else if p < length pat \<and> pat ! p = CHR ''*'' then
           glob_loop pat s (p + 1) x (Some p) x
         else case star of
             Some q \<Rightarrow> glob_loop pat s (q + 1) (mark + 1) star (mark + 1)
           | None \<Rightarrow> False)
      else glob_tail pat p)"
  by pat_completeness auto
termination
proof (relation "measures
    [\<lambda>(pat, s, p, x, star, mark).
       max (stars (drop p pat)) (case star of None \<Rightarrow> 0 | Some q \<Rightarrow> stars (drop (Suc q) pat)),
     \<lambda>(pat, s, p, x, star, mark). (length s - mark) + (if x < length s then 1 else 0),
     \<lambda>(pat, s, p, x, star, mark). length pat - p]", goal_cases)
  case (2 pat s p x star mark)
  then show ?case using stars_drop_le [of p pat] by (auto split: option.splits)
next
  case (3 pat s p x star mark)
  then show ?case by (auto simp: stars_drop_star split: option.splits)
next
  case (4 pat s p x star mark q)
  then show ?case by auto
qed simp

declare glob_loop.simps [simp del]

definition Glob :: "string \<Rightarrow> string \<Rightarrow> bool" where
  "Glob pattern s = glob_loop pattern s 0 0 None 0"

subsubsection \<open>Correctness of the loop\<close>

text \<open>The same loop on the remaining pattern and text instead of indices.\<close>

lemma glob_tail_wmatch: "p \<le> length pat \<Longrightarrow> glob_tail pat p \<longleftrightarrow> wmatch q (drop p pat) []"
proof (induction pat p rule: glob_tail.induct)
  case (1 pat p)
  show ?case
  proof (cases "p < length pat")
    case True
    with 1 show ?thesis
      by (simp add: glob_tail.simps [of pat p] Cons_nth_drop_Suc [symmetric] wmatch.simps(2))
  next
    case False
    with 1 have "p = length pat" by simp
    then show ?thesis by (simp add: glob_tail.simps [of pat "length pat"])
  qed
qed

text \<open>
  The invariant of the saved point: between \<open>star\<close> and \<open>p\<close> the pattern has no further star, and
  it has consumed one character per pattern character since \<open>mark\<close>.
\<close>

definition glob_inv :: "string \<Rightarrow> string \<Rightarrow> nat \<Rightarrow> nat \<Rightarrow> nat option \<Rightarrow> nat \<Rightarrow> bool" where
  "glob_inv pat s p x star mark \<longleftrightarrow> p \<le> length pat \<and> x \<le> length s \<and>
     (case star of None \<Rightarrow> True
      | Some q \<Rightarrow> q < p \<and> mark \<le> x \<and> p - Suc q = x - mark \<and>
          CHR ''*'' \<notin> set (take (p - Suc q) (drop (Suc q) pat)))"

text \<open>What the loop still has to find: a match from here, or one after moving the saved point.\<close>

definition glob_goal :: "string \<Rightarrow> string \<Rightarrow> nat \<Rightarrow> nat \<Rightarrow> nat option \<Rightarrow> nat \<Rightarrow> bool" where
  "glob_goal pat s p x star mark \<longleftrightarrow> wmatch True (drop p pat) (drop x s) \<or>
     (case star of None \<Rightarrow> False
      | Some q \<Rightarrow> mark < length s \<and> wmatch True (CHR ''*'' # drop (Suc q) pat) (drop (Suc mark) s))"

lemma glob_inv_split:
  assumes "glob_inv pat s p x (Some q) mark"
  obtains u where "drop (Suc q) pat = u @ drop p pat" "length u = x - mark" "CHR ''*'' \<notin> set u"
    "mark \<le> x" "x \<le> length s"
proof
  let ?u = "take (p - Suc q) (drop (Suc q) pat)"
  have "drop (p - Suc q) (drop (Suc q) pat) = drop p pat"
    using assms by (auto simp: glob_inv_def intro: arg_cong [of _ _ "\<lambda>n. drop n pat"])
  then show "drop (Suc q) pat = ?u @ drop p pat"
    by (metis append_take_drop_id)
qed (use assms in \<open>auto simp: glob_inv_def\<close>)

lemma glob_inv_char:
  assumes inv: "glob_inv pat s p x star mark" and x: "x < length s" and p: "p < length pat"
    and ne: "pat ! p \<noteq> CHR ''*''"
  shows "glob_inv pat s (Suc p) (Suc x) star mark"
proof (cases star)
  case (Some q)
  with inv have q: "q < p" by (simp add: glob_inv_def)
  then have "take (Suc (p - Suc q)) (drop (Suc q) pat) = take (p - Suc q) (drop (Suc q) pat) @ [pat ! p]"
    using p by (subst take_Suc_conv_app_nth) auto
  with inv Some q x p ne show ?thesis
    by (auto simp: glob_inv_def Suc_diff_Suc [symmetric] simp del: take_Suc)
qed (use inv x p in \<open>auto simp: glob_inv_def\<close>)

text \<open>At the end of the text no later position of the saved point can help.\<close>

lemma glob_goal_end:
  assumes inv: "glob_inv pat s p (length s) star mark"
  shows "glob_goal pat s p (length s) star mark \<longleftrightarrow> wmatch True (drop p pat) []"
proof -
  have False if "star = Some q" "mark < length s"
    and m: "wmatch True (CHR ''*'' # drop (Suc q) pat) (drop (Suc mark) s)" for q
  proof -
    from glob_inv_split inv that(1) obtain u where
      u: "drop (Suc q) pat = u @ drop p pat" "length u = length s - mark" "CHR ''*'' \<notin> set u"
      by metis
    from m obtain a b where ab: "drop (Suc mark) s = a @ b" "wmatch True (u @ drop p pat) b"
      by (auto simp: wmatch_star_iff u(1))
    then obtain w v where "b = w @ v" "length w = length u"
      using wmatch_append_starfree [OF u(3)] by blast
    with u(2) arg_cong [OF ab(1), of length] that(2) show False by simp
  qed
  then show ?thesis by (auto simp: glob_goal_def split: option.splits)
qed

lemma glob_goal_new_star:
  assumes inv: "glob_inv pat s p x star mark" and star: "p < length pat" "pat ! p = CHR ''*''"
    and x: "x < length s"
  shows "glob_goal pat s p x star mark \<longleftrightarrow> glob_goal pat s (Suc p) x (Some p) x"
proof -
  have drop_p: "drop p pat = CHR ''*'' # drop (Suc p) pat"
    using star by (simp add: Cons_nth_drop_Suc [symmetric])
  have old: "wmatch True (drop p pat) (drop x s)"
    if "star = Some q" and m: "wmatch True (CHR ''*'' # drop (Suc q) pat) (drop (Suc mark) s)" for q
  proof -
    from glob_inv_split inv that(1) obtain u where
      u: "drop (Suc q) pat = u @ drop p pat" "length u = x - mark" "CHR ''*'' \<notin> set u" "mark \<le> x"
      by metis
    from m obtain a b where ab: "drop (Suc mark) s = a @ b" "wmatch True (u @ drop p pat) b"
      by (auto simp: wmatch_star_iff u(1))
    from wmatch_append_starfree [OF u(3) ab(2)] obtain w v where
      wv: "b = w @ v" "length w = length u" "wmatch True (drop p pat) v" by blast
    have "drop (Suc x + length a) s = drop (length a + (x - mark)) (drop (Suc mark) s)"
      using u(4) by (simp add: add.commute)
    also have "\<dots> = v" using ab(1) wv u(2) by simp
    finally have "drop x s = take (Suc (length a)) (drop x s) @ v"
      by (metis add.commute add_Suc append_take_drop_id drop_drop)
    with wv(3) drop_p show ?thesis by (metis wmatch_star_suffix)
  qed
  have "drop x s = s ! x # drop (Suc x) s" using x by (simp add: Cons_nth_drop_Suc)
  then have "wmatch True (drop p pat) (drop x s) \<longleftrightarrow> glob_goal pat s (Suc p) x (Some p) x"
    using x drop_p by (simp add: glob_goal_def wmatch.simps(2))
  with old show ?thesis by (auto simp: glob_goal_def split: option.splits)
qed

lemma glob_goal_backtrack:
  assumes "mark < length s"
  shows "glob_goal pat s (Suc q) (Suc mark) (Some q) (Suc mark) \<longleftrightarrow>
    wmatch True (CHR ''*'' # drop (Suc q) pat) (drop (Suc mark) s)"
proof (cases "Suc mark < length s")
  case True
  then have "drop (Suc mark) s = s ! Suc mark # drop (Suc (Suc mark)) s"
    by (simp add: Cons_nth_drop_Suc)
  with True show ?thesis by (simp add: glob_goal_def wmatch.simps(2))
qed (simp add: glob_goal_def wmatch.simps(2))

lemma glob_loop_correct:
  "CHR ''*'' \<notin> set s \<Longrightarrow> glob_inv pat s p x star mark \<Longrightarrow>
   glob_loop pat s p x star mark \<longleftrightarrow> glob_goal pat s p x star mark"
proof (induction pat s p x star mark rule: glob_loop.induct)
  case (1 pat s p x star mark)
  note inv = "1.prems"(2) and unfold = glob_loop.simps [of pat s p x star mark]
  show ?case
  proof (cases "x < length s")
    case False
    with inv have x: "x = length s" and p: "p \<le> length pat" by (auto simp: glob_inv_def)
    with inv show ?thesis
      using glob_loop.simps [of pat s p "length s" star mark]
      by (simp add: glob_tail_wmatch [OF p, of True] glob_goal_end)
  next
    case x: True
    have dropx: "drop x s = s ! x # drop (Suc x) s" using x by (simp add: Cons_nth_drop_Suc)
    have sx: "s ! x \<noteq> CHR ''*''" using x "1.prems"(1) nth_mem by metis
    consider (char) "p < length pat" "pat ! p = CHR ''?'' \<or> pat ! p = s ! x"
      | (star) "p < length pat" "pat ! p = CHR ''*''"
      | (fail) "p < length pat \<longrightarrow> pat ! p \<noteq> CHR ''?'' \<and> pat ! p \<noteq> s ! x \<and> pat ! p \<noteq> CHR ''*''"
      by blast
    then show ?thesis
    proof cases
      case char
      then have ne: "pat ! p \<noteq> CHR ''*''" using sx by auto
      have "glob_inv pat s (p + 1) (x + 1) star mark"
        using glob_inv_char [OF inv x char(1) ne] by simp
      with "1.IH"(1) [OF x] char "1.prems" have
        "glob_loop pat s p x star mark \<longleftrightarrow> glob_goal pat s (p + 1) (x + 1) star mark"
        using x by (auto simp: unfold)
      moreover have "wmatch True (drop p pat) (drop x s) \<longleftrightarrow> wmatch True (drop (Suc p) pat) (drop (Suc x) s)"
        using char ne dropx by (auto simp: Cons_nth_drop_Suc [symmetric] wmatch.simps(2))
      ultimately show ?thesis by (simp add: glob_goal_def)
    next
      case star
      then have "\<not> (pat ! p = CHR ''?'' \<or> pat ! p = s ! x)" using sx by auto
      moreover have "glob_inv pat s (p + 1) x (Some p) x" using inv star by (simp add: glob_inv_def)
      ultimately have "glob_loop pat s p x star mark \<longleftrightarrow> glob_goal pat s (p + 1) x (Some p) x"
        using "1.IH"(2) [OF x] star x "1.prems" by (auto simp: unfold)
      then show ?thesis using glob_goal_new_star [OF inv star x] by simp
    next
      case fail
      have here: "\<not> wmatch True (drop p pat) (drop x s)"
        using fail dropx inv
        by (cases "p < length pat") (auto simp: glob_inv_def Cons_nth_drop_Suc [symmetric] wmatch.simps(2))
      show ?thesis
      proof (cases star)
        case None
        with fail x have "\<not> glob_loop pat s p x star mark" by (subst unfold) auto
        with here None show ?thesis by (simp add: glob_goal_def)
      next
        case (Some q)
        with inv have q: "q < p" "p \<le> length pat" "mark \<le> x" by (auto simp: glob_inv_def)
        then have "glob_inv pat s (q + 1) (mark + 1) (Some q) (mark + 1)"
          using x by (auto simp: glob_inv_def)
        then have "glob_loop pat s (q + 1) (mark + 1) star (mark + 1) \<longleftrightarrow>
            glob_goal pat s (q + 1) (mark + 1) (Some q) (mark + 1)"
          using "1.IH"(3) [OF x _ _ Some] fail Some "1.prems" by auto
        moreover have "glob_loop pat s p x star mark = glob_loop pat s (q + 1) (mark + 1) star (mark + 1)"
          using fail x Some by (subst unfold) auto
        ultimately have "glob_loop pat s p x star mark \<longleftrightarrow>
            glob_goal pat s (q + 1) (mark + 1) (Some q) (mark + 1)" by simp
        also have "\<dots> \<longleftrightarrow> wmatch True (CHR ''*'' # drop (Suc q) pat) (drop (Suc mark) s)"
          using glob_goal_backtrack [of mark s pat q] q x by simp
        finally show ?thesis using here Some q x by (simp add: glob_goal_def)
      qed
    qed
  qed
qed

lemma Glob_wmatch: "CHR ''*'' \<notin> set s \<Longrightarrow> Glob p s \<longleftrightarrow> wmatch True p s"
  by (simp add: Glob_def glob_loop_correct glob_inv_def glob_goal_def)

subsection \<open>The split matcher of iamcompile\<close>

text \<open>\<^verbatim>\<open>strings.Index\<close>: the first position at which \<open>sub\<close> occurs.\<close>

fun index_of :: "string \<Rightarrow> string \<Rightarrow> nat option" where
  "index_of [] sub = (if sub = [] then Some 0 else None)"
| "index_of (c # s) sub =
     (if has_prefix (c # s) sub then Some 0 else map_option Suc (index_of s sub))"

text \<open>The loop over \<^verbatim>\<open>parts[1:]\<close>: the middle pieces in order, then the last as a suffix.\<close>

fun glob_mids :: "string list \<Rightarrow> string \<Rightarrow> bool" where
  "glob_mids [] s = True"
| "glob_mids [suf] s = has_suffix s suf"
| "glob_mids (mid # p # parts) s =
     (case index_of s mid of None \<Rightarrow> False | Some i \<Rightarrow> glob_mids (p # parts) (drop (i + length mid) s))"

definition glob :: "string \<Rightarrow> string \<Rightarrow> bool" where
  "glob p s =
     (if CHR ''*'' \<notin> set p then p = s
      else let parts = split_on (CHR ''*'') p
           in has_prefix s (hd parts) \<and> glob_mids (tl parts) (drop (length (hd parts)) s))"

lemma index_of_Some: "index_of s sub = Some i \<Longrightarrow> \<exists>u v. s = u @ sub @ v \<and> length u = i"
proof (induction s arbitrary: i)
  case (Cons c s)
  show ?case
  proof (cases "has_prefix (c # s) sub")
    case True
    with Cons.prems show ?thesis by (auto simp: has_prefix_iff)
  next
    case False
    with Cons obtain j u v where "i = Suc j" "s = u @ sub @ v" "length u = j" by fastforce
    then have "c # s = (c # u) @ sub @ v \<and> length (c # u) = i" by simp
    then show ?thesis by blast
  qed
qed (auto split: if_splits)

lemma index_of_least:
  "s = u @ sub @ v \<Longrightarrow> \<exists>i. index_of s sub = Some i \<and> i \<le> length u"
proof (induction u arbitrary: s)
  case Nil
  then have "has_prefix s sub" by (simp add: has_prefix_iff)
  then have "index_of s sub = Some 0"
    by (cases s) (simp_all add: has_prefix_def)
  then show ?case by simp
next
  case (Cons c u)
  then show ?case by fastforce
qed

text \<open>What the pieces mean: a pattern \<open>*p1*...*pn\<close>.\<close>

definition star_join :: "string list \<Rightarrow> string" where
  "star_join ps = concat (map ((#) (CHR ''*'')) ps)"

lemma split_on_star_join: "hd (split_on (CHR ''*'') p) @ star_join (tl (split_on (CHR ''*'') p)) = p"
proof (induction p)
  case (Cons c p)
  then show ?case
    by (cases "split_on (CHR ''*'') p") (auto simp: star_join_def)
qed (simp add: star_join_def)

lemma glob_mids_wmatch:
  assumes "ps \<noteq> []" and "\<forall>p \<in> set ps. CHR ''*'' \<notin> set p"
  shows "glob_mids ps s \<longleftrightarrow> wmatch False (star_join ps) s"
  using assms
proof (induction ps s rule: glob_mids.induct)
  case (2 suf s)
  then show ?case
    using wmatch_literal [of suf False "[]"]
    by (auto simp: star_join_def wmatch_star_iff has_suffix_iff)
next
  case (3 mid p parts s)
  let ?ps = "p # parts"
  have join: "star_join (mid # ?ps) = CHR ''*'' # mid @ star_join ?ps"
    by (simp add: star_join_def)
  have lit: "wmatch False (mid @ star_join ?ps) v \<longleftrightarrow> (\<exists>r. v = mid @ r \<and> wmatch False (star_join ?ps) r)" for v
    using wmatch_literal [of mid False] "3.prems" by simp
  have spec: "wmatch False (star_join (mid # ?ps)) s \<longleftrightarrow>
      (\<exists>u r. s = u @ mid @ r \<and> wmatch False (star_join ?ps) r)"
    by (auto simp: join wmatch_star_iff lit)
  show ?case
  proof (cases "index_of s mid")
    case None
    with spec index_of_least show ?thesis by fastforce
  next
    case (Some i)
    with index_of_Some obtain u v where s: "s = u @ mid @ v" "length u = i" by blast
    have IH: "glob_mids ?ps v \<longleftrightarrow> wmatch False (star_join ?ps) v"
      using "3.IH" [OF Some] "3.prems" s by simp
    have "wmatch False (star_join ?ps) v"
      if "s = u' @ mid @ r" "wmatch False (star_join ?ps) r" for u' r
    proof -
      have "length u \<le> length u'" using index_of_least [OF that(1)] Some s(2) by auto
      moreover have "v = drop (length u + length mid) s" using s by simp
      ultimately have "v = drop (length u + length mid) (u' @ mid) @ r"
        using that(1) by simp
      then show ?thesis
        using that(2) wmatch_star_suffix by (metis star_join_def concat.simps(2) append_Cons list.simps(9))
    qed
    with spec s Some IH show ?thesis by auto
  qed
qed simp

lemma glob_wmatch: "glob p s \<longleftrightarrow> wmatch False p s"
proof (cases "CHR ''*'' \<in> set p")
  case False
  then show ?thesis using wmatch_literal [of p False "[]" s] by (auto simp: glob_def)
next
  case True
  let ?parts = "split_on (CHR ''*'') p"
  obtain h t where parts: "?parts = h # t" by (cases ?parts) auto
  have starfree: "\<forall>w \<in> set (h # t). CHR ''*'' \<notin> set w"
    using split_on_parts parts by metis
  have p: "p = h @ star_join t" using split_on_star_join [of p] parts by simp
  with True starfree have "t \<noteq> []" by (auto simp: star_join_def)
  with starfree have "glob_mids t r \<longleftrightarrow> wmatch False (star_join t) r" for r
    by (simp add: glob_mids_wmatch)
  then show ?thesis
    using True parts p starfree wmatch_literal [of h False "star_join t" s]
    by (auto simp: glob_def has_prefix_iff)
qed

subsection \<open>The contract of a matcher\<close>

text \<open>
  What the policy code assumes of a matcher, on the texts \<open>dom\<close> it is given: it decides the
  reference relation. \<open>qmark\<close> says whether \<^verbatim>\<open>?\<close> is a wildcard.
\<close>

locale matcher =
  fixes m :: "string \<Rightarrow> string \<Rightarrow> bool" and qmark :: bool and dom :: "string \<Rightarrow> bool"
  assumes decides: "dom s \<Longrightarrow> m p s \<longleftrightarrow> wmatch qmark p s"
begin

lemma star_matches_all: "dom s \<Longrightarrow> m ''*'' s"
  by (simp add: decides wmatch_star_iff)

lemma literal_matches_itself:
  "dom s \<Longrightarrow> CHR ''*'' \<notin> set p \<Longrightarrow> qmark \<longrightarrow> CHR ''?'' \<notin> set p \<Longrightarrow> m p s \<longleftrightarrow> s = p"
  using wmatch_literal [of p qmark "[]" s] by (simp add: decides)

lemma prefix_pattern:
  "dom s \<Longrightarrow> CHR ''*'' \<notin> set p \<Longrightarrow> qmark \<longrightarrow> CHR ''?'' \<notin> set p \<Longrightarrow>
   m (p @ ''*'') s \<longleftrightarrow> has_prefix s p"
  using wmatch_literal [of p qmark "''*''" s] by (auto simp: decides has_prefix_iff wmatch_star_iff)

end

interpretation rp: matcher Glob True "\<lambda>s. CHR ''*'' \<notin> set s"
  by unfold_locales (rule Glob_wmatch)

interpretation ic: matcher glob False "\<lambda>_. True"
  by unfold_locales (rule glob_wmatch)

subsection \<open>Properties\<close>

text \<open>
  Both matchers decide the reference relation that tries every expansion of each wildcard:
  \<open>glob\<close> on every text, \<open>Glob\<close> (whose single backtracking point is enough) on every text that
  contains no literal asterisk.
\<close>

theorem matchers_decide_reference:
  "glob p s = wmatch False p s \<and> (CHR ''*'' \<notin> set s \<longrightarrow> Glob p s = wmatch True p s)"
  using ic.decides rp.decides by blast

theorem matchers_decide_reference_witness:
  "glob ''sqs:*Message'' ''sqs:SendMessage'' = wmatch False ''sqs:*Message'' ''sqs:SendMessage'' \<and>
   Glob ''sqs:*Mess?ge'' ''sqs:SendMessage'' = wmatch True ''sqs:*Mess?ge'' ''sqs:SendMessage''"
  using matchers_decide_reference [of "''sqs:*Message''" "''sqs:SendMessage''"]
    matchers_decide_reference [of "''sqs:*Mess?ge''" "''sqs:SendMessage''"] by simp

text \<open>
  The restriction to texts without an asterisk is needed: the loop of \<open>Glob\<close> compares the
  pattern character with the text before it looks for a wildcard, so an asterisk in the text uses
  up a \<^verbatim>\<open>*\<close> of the pattern without opening a backtracking point.
\<close>

theorem Glob_asterisk_in_text:
  "\<not> Glob ''jobs-*'' ''jobs-*-old'' \<and> wmatch True ''jobs-*'' ''jobs-*-old''"
  by (simp add: Glob_def glob_loop.simps glob_tail.simps wmatch_star_iff wmatch_char_iff)

end
