(* ===== verification/ResourcePolicy.thy ===== *)
theory ResourcePolicy
  imports Json Wildcards PolicyDecision
begin

text \<open>
  Queue and topic policies: \<^verbatim>\<open>cfn/resourcepolicy/resourcepolicy.go\<close>.

  \<open>Parse\<close> reads a policy document of an SQS queue or SNS topic and refuses the whole document
  when a part of it cannot be honoured; \<open>Allows\<close> decides a delivery against the parsed policy.
  \<^verbatim>\<open>json.Unmarshal\<close> is the parameter \<open>unmarshal\<close> (\<open>None\<close> for a syntax error). Error texts
  are represented by one constructor per return statement of the source.
\<close>

subsection \<open>Data\<close>

record condition =
  cKey :: string
  cLike :: bool
  cValues :: "string list"

record statement =
  sSid :: string
  sAllow :: bool
  sAny :: bool
  sServices :: "string list"
  sActions :: "string list"
  sConditions :: "condition list"

type_synonym policy = "statement list"

record request =
  rService :: string
  rAction :: string
  rSourceArn :: string
  rSourceAccount :: string

datatype label = LIndex nat | LSid string

datatype rp_error =
    NotQueueOrTopic string
  | EmptyDocument
  | NotAnObject
  | NoStatement
  | MalformedStatement
  | InStatement label rp_error
  | NoStatementForResource string
  | NotHonored string
  | BadEffect
  | BadAction
  | ForeignAction string
  | BadResource
  | ForeignResource string
  | NoPrincipal
  | PrincipalString string
  | BadPrincipalList string
  | IamPrincipal string
  | PrincipalKind string
  | BadPrincipal
  | RootWithOthers
  | DenyAccount
  | PublicGrant
  | BadCondition
  | BadConditionKeys string
  | ConditionNotHonored string string
  | BadConditionValue string string

subsection \<open>ARNs\<close>

definition arnPart :: "string \<Rightarrow> nat \<Rightarrow> string" where
  "arnPart arn i =
     (let f = split_n 6 (CHR '':'') arn
      in if length f \<noteq> 6 \<or> f ! 0 \<noteq> ''arn'' \<or> i \<ge> length f then [] else f ! i)"

definition contains_any :: "string \<Rightarrow> string \<Rightarrow> bool" where
  "contains_any s chars = (\<exists>c \<in> set s. c \<in> set chars)"

definition SameResource :: "string \<Rightarrow> string \<Rightarrow> bool" where
  "SameResource a b =
     (let sa = arnPart a 2; sb = arnPart b 2
      in sa \<noteq> [] \<and> sa = sb \<and> arnPart a 5 \<noteq> [] \<and> arnPart a 5 = arnPart b 5 \<and> \<not> contains_any a ''*?'')"

subsection \<open>Parsing\<close>

fun strList :: "json \<Rightarrow> string list option" where
  "strList (JStr t) = Some [t]"
| "strList (JArr vs) =
     (if \<forall>v \<in> set vs. is_str v then Some (map str_or_empty vs) else None)"
| "strList _ = None"

fun action_of :: "string \<Rightarrow> string \<Rightarrow> rp_error + string" where
  "action_of svc a =
     (let l = to_lower (trim_space a)
      in if l = ''*'' then Inr (svc @ '':*'')
         else if has_prefix l (svc @ '':'') then Inr l
         else Inl (ForeignAction a))"

definition actions :: "json \<Rightarrow> string \<Rightarrow> rp_error + string list" where
  "actions v svc =
     (case strList v of
        None \<Rightarrow> Inl BadAction
      | Some raw \<Rightarrow> if raw = [] then Inl BadAction else rmap (action_of svc) raw)"

text \<open>The loop of \<^verbatim>\<open>checkResource\<close> over the entries, \<open>applies\<close> being its accumulator.\<close>

fun checkResource_loop :: "string list \<Rightarrow> string \<Rightarrow> bool \<Rightarrow> rp_error + bool" where
  "checkResource_loop [] arn applies = Inr applies"
| "checkResource_loop (r # rs) arn applies =
     (if r = ''*'' \<or> SameResource r arn \<or> contains_any r ''*?'' \<and> Glob r arn
      then checkResource_loop rs arn True
      else if arnPart r 2 \<noteq> [] \<and> arnPart r 2 = arnPart arn 2 \<and> arnPart r 5 \<noteq> []
      then checkResource_loop rs arn applies
      else Inl (ForeignResource r))"

definition checkResource :: "json \<Rightarrow> string \<Rightarrow> rp_error + bool" where
  "checkResource v arn =
     (if v = JNull then Inr True
      else case strList v of
        None \<Rightarrow> Inl BadResource
      | Some res \<Rightarrow> checkResource_loop res arn False)"

definition isAccount :: "string \<Rightarrow> bool" where
  "isAccount p =
     (if has_prefix p ''arn:'' then arnPart p 2 = ''iam'' \<and> arnPart p 5 = ''root''
      else if length p \<noteq> 12 then False
      else (\<forall>c \<in> set p. is_digit c))"

text \<open>The values of an \<^verbatim>\<open>AWS\<close> principal: every principal, accounts, or an error.\<close>

fun aws_principals :: "string list \<Rightarrow> bool \<times> string list \<Rightarrow> rp_error + bool \<times> string list" where
  "aws_principals [] acc = Inr acc"
| "aws_principals (a # as) (everyone, accounts) =
     (if a = ''*'' then aws_principals as (True, accounts)
      else if isAccount a then aws_principals as (everyone, accounts @ [a])
      else Inl (IamPrincipal a))"

text \<open>One pass over the keys of the principal object; the accumulator is the result so far.\<close>

fun principal_keys ::
  "json strmap \<Rightarrow> bool \<times> string list \<times> string list \<Rightarrow> rp_error + bool \<times> string list \<times> string list" where
  "principal_keys [] acc = Inr acc"
| "principal_keys ((k, v) # m) (everyone, services, accounts) =
     (case strList v of
        None \<Rightarrow> Inl (BadPrincipalList k)
      | Some vals \<Rightarrow>
          if vals = [] then Inl (BadPrincipalList k)
          else if k = ''Service'' then
            principal_keys m (everyone, services @ map (\<lambda>s. to_lower (trim_space s)) vals, accounts)
          else if k = ''AWS'' then
            rbind (aws_principals vals (everyone, accounts))
              (\<lambda>(ev, acs). principal_keys m (ev, services, acs))
          else Inl (PrincipalKind k))"

fun principals :: "json \<Rightarrow> rp_error + bool \<times> string list \<times> string list" where
  "principals JNull = Inl NoPrincipal"
| "principals (JStr t) = (if t = ''*'' then Inr (True, [], []) else Inl (PrincipalString t))"
| "principals (JObj m) = principal_keys (sorted_entries m) (False, [], [])"
| "principals _ = Inl BadPrincipal"

text \<open>One condition: its key, whether it is a pattern match, or not honoured.\<close>

definition condition_kind :: "string \<Rightarrow> string \<Rightarrow> (string \<times> bool) option" where
  "condition_kind op k =
     (let l = to_lower k; key = (if l = ''aws:sourceowner'' then ''aws:sourceaccount'' else l)
      in if key = ''aws:sourcearn'' \<and> (op = ''ArnEquals'' \<or> op = ''StringEquals'') then Some (key, False)
         else if key = ''aws:sourcearn'' \<and> (op = ''ArnLike'' \<or> op = ''StringLike'') then Some (key, True)
         else if key = ''aws:sourceaccount'' \<and> op = ''StringEquals'' then Some (key, False)
         else if key = ''aws:sourceaccount'' \<and> op = ''StringLike'' then Some (key, True)
         else None)"

definition condition_of :: "string \<Rightarrow> string \<times> json \<Rightarrow> rp_error + condition" where
  "condition_of op kv =
     (case condition_kind op (fst kv) of
        None \<Rightarrow> Inl (ConditionNotHonored op (fst kv))
      | Some (key, like) \<Rightarrow>
          (case strList (snd kv) of
             None \<Rightarrow> Inl (BadConditionValue op (fst kv))
           | Some vals \<Rightarrow>
               if vals = [] then Inl (BadConditionValue op (fst kv))
               else Inr \<lparr>cKey = key, cLike = like, cValues = vals\<rparr>))"

definition condition_op :: "string \<times> json \<Rightarrow> rp_error + condition list" where
  "condition_op e =
     (case snd e of
        JObj keys \<Rightarrow> rmap (condition_of (fst e)) (sorted_entries keys)
      | _ \<Rightarrow> Inl (BadConditionKeys (fst e)))"

fun conditions :: "json \<Rightarrow> rp_error + condition list" where
  "conditions JNull = Inr []"
| "conditions (JObj m) = rbind (rmap condition_op (sorted_entries m)) (\<lambda>css. Inr (concat css))"
| "conditions _ = Inl BadCondition"

fun effect_of :: "json \<Rightarrow> bool option" where
  "effect_of (JStr e) = (if e = ''Allow'' then Some True else if e = ''Deny'' then Some False else None)"
| "effect_of _ = None"

text \<open>
  \<^verbatim>\<open>parseStatement\<close>: the statement and whether it is skipped (the delegate-to-IAM default, or
  a statement for another resource).
\<close>

definition parseStatement :: "json strmap \<Rightarrow> string \<Rightarrow> string \<Rightarrow> rp_error + statement \<times> bool" where
  "parseStatement st svc arn =
     (let sid = str_or_empty (field st ''Sid'') in
      case filter (\<lambda>k. lookup st k \<noteq> None) [''NotPrincipal'', ''NotAction'', ''NotResource''] of
        k # _ \<Rightarrow> Inl (NotHonored k)
      | [] \<Rightarrow>
      (case effect_of (field st ''Effect'') of
         None \<Rightarrow> Inl BadEffect
       | Some allow \<Rightarrow>
         rbind (actions (field st ''Action'') svc) (\<lambda>acts.
         rbind (checkResource (field st ''Resource'') arn) (\<lambda>applies.
         rbind (conditions (field st ''Condition'')) (\<lambda>conds.
         rbind (principals (field st ''Principal'')) (\<lambda>(everyone, services, accounts).
           if accounts \<noteq> [] then
             (if services \<noteq> [] \<or> everyone then Inl RootWithOthers
              else if \<not> allow then Inl DenyAccount
              else Inr (\<lparr>sSid = sid, sAllow = allow, sAny = False, sServices = [], sActions = acts,
                         sConditions = conds\<rparr>, True))
           else if everyone \<and> conds = [] then Inl PublicGrant
           else Inr (\<lparr>sSid = sid, sAllow = allow, sAny = everyone, sServices = services,
                      sActions = acts, sConditions = conds\<rparr>, \<not> applies)))))))"

text \<open>\<^verbatim>\<open>statements\<close>: a statement object, or a list of them; a JSON null in the list is an
  empty (nil) object.\<close>

fun statement_object :: "json \<Rightarrow> rp_error + json strmap" where
  "statement_object (JObj m) = Inr m"
| "statement_object JNull = Inr []"
| "statement_object _ = Inl MalformedStatement"

fun statements :: "json \<Rightarrow> rp_error + json strmap list" where
  "statements JNull = Inl NoStatement"
| "statements (JObj m) = Inr [m]"
| "statements (JArr vs) =
     rbind (rmap statement_object vs) (\<lambda>many. if many = [] then Inl NoStatement else Inr many)"
| "statements _ = Inl MalformedStatement"

definition stmt_label :: "nat \<Rightarrow> json strmap \<Rightarrow> label" where
  "stmt_label i st = (let sid = str_or_empty (field st ''Sid'') in if sid \<noteq> [] then LSid sid else LIndex i)"

text \<open>The loop of \<^verbatim>\<open>Parse\<close>: the honoured statements and how many were for another resource.\<close>

fun parse_loop ::
  "nat \<Rightarrow> json strmap list \<Rightarrow> string \<Rightarrow> string \<Rightarrow> policy \<times> nat \<Rightarrow> rp_error + policy \<times> nat" where
  "parse_loop i [] svc arn acc = Inr acc"
| "parse_loop i (st # sts) svc arn (p, elsewhere) =
     (case parseStatement st svc arn of
        Inl e \<Rightarrow> Inl (InStatement (stmt_label i st) e)
      | Inr (s, skip) \<Rightarrow>
          if \<not> skip then parse_loop (Suc i) sts svc arn (p @ [s], elsewhere)
          else if checkResource (field st ''Resource'') arn \<noteq> Inr True
          then parse_loop (Suc i) sts svc arn (p, elsewhere + 1)
          else parse_loop (Suc i) sts svc arn (p, elsewhere))"

text \<open>\<^verbatim>\<open>var d map[string]json.RawMessage\<close>: a JSON null leaves \<^verbatim>\<open>d\<close> a nil map.\<close>

fun document_object :: "json option \<Rightarrow> rp_error + json strmap" where
  "document_object (Some (JObj d)) = Inr d"
| "document_object (Some JNull) = Inr []"
| "document_object _ = Inl NotAnObject"

definition Parse :: "(string \<Rightarrow> json option) \<Rightarrow> string \<Rightarrow> string \<Rightarrow> rp_error + policy" where
  "Parse unmarshal doc arn =
     (let svc = arnPart arn 2 in
      if svc \<noteq> ''sqs'' \<and> svc \<noteq> ''sns'' then Inl (NotQueueOrTopic arn)
      else if trim_space doc = [] then Inl EmptyDocument
      else rbind (document_object (unmarshal doc)) (\<lambda>d.
           rbind (statements (field d ''Statement'')) (\<lambda>stmts.
           rbind (parse_loop 0 stmts svc arn ([], 0)) (\<lambda>(p, elsewhere).
             if p = [] \<and> elsewhere > 0 then Inl (NoStatementForResource arn) else Inr p))))"

subsection \<open>Deciding a delivery\<close>

definition cond_holds :: "condition \<Rightarrow> request \<Rightarrow> bool" where
  "cond_holds c req =
     (let have = (if cKey c = ''aws:sourcearn'' then rSourceArn req else rSourceAccount req)
      in have \<noteq> [] \<and>
         (\<exists>v \<in> set (cValues c).
            cLike c \<and> Glob v have \<or>
            \<not> cLike c \<and> cKey c = ''aws:sourcearn'' \<and> (v = have \<or> SameResource v have) \<or>
            \<not> cLike c \<and> cKey c = ''aws:sourceaccount'' \<and> v = have))"

definition stmt_matches :: "statement \<Rightarrow> request \<Rightarrow> bool" where
  "stmt_matches s req \<longleftrightarrow>
     (sAny s \<or> (\<exists>x \<in> set (sServices s). x = to_lower (rService req))) \<and>
     (\<exists>a \<in> set (sActions s). Glob a (to_lower (rAction req))) \<and>
     (\<forall>c \<in> set (sConditions s). cond_holds c req)"

fun allows_loop :: "policy \<Rightarrow> request \<Rightarrow> bool \<Rightarrow> bool" where
  "allows_loop [] req allowed = allowed"
| "allows_loop (s # ss) req allowed =
     (if \<not> stmt_matches s req then allows_loop ss req allowed
      else if \<not> sAllow s then False
      else allows_loop ss req True)"

definition Allows :: "policy \<Rightarrow> request \<Rightarrow> bool" where
  "Allows p req = allows_loop p req False"

subsection \<open>The decision\<close>

lemma allows_loop_iff:
  "allows_loop p req allowed \<longleftrightarrow>
     (allowed \<or> (\<exists>s \<in> set p. stmt_matches s req \<and> sAllow s)) \<and>
     (\<forall>s \<in> set p. stmt_matches s req \<longrightarrow> sAllow s)"
  by (induction p req allowed rule: allows_loop.induct) auto

interpretation rpd: deny_overrides stmt_matches sAllow Allows
  by unfold_locales (simp add: Allows_def allows_loop_iff)

subsection \<open>What a parsed policy is\<close>

definition wf_condition :: "condition \<Rightarrow> bool" where
  "wf_condition c \<longleftrightarrow> cKey c \<in> {''aws:sourcearn'', ''aws:sourceaccount''} \<and> cValues c \<noteq> []"

text \<open>
  An honoured statement: actions of the resource's own service only, source conditions only, and
  a source condition wherever every principal is named.
\<close>

definition wf_statement :: "string \<Rightarrow> statement \<Rightarrow> bool" where
  "wf_statement svc s \<longleftrightarrow>
     sActions s \<noteq> [] \<and> (\<forall>a \<in> set (sActions s). has_prefix a (svc @ '':'')) \<and>
     (\<forall>c \<in> set (sConditions s). wf_condition c) \<and>
     (sAny s \<longrightarrow> sConditions s \<noteq> [])"

lemma action_of_prefix: "action_of svc a = Inr l \<Longrightarrow> has_prefix l (svc @ '':'')"
  by (auto simp: Let_def has_prefix_def split: if_splits)

lemma actions_wf:
  assumes "actions v svc = Inr acts"
  shows "acts \<noteq> [] \<and> (\<forall>a \<in> set acts. has_prefix a (svc @ '':''))"
proof -
  from assms obtain raw where "raw \<noteq> []" and raw: "rmap (action_of svc) raw = Inr acts"
    by (auto simp: actions_def split: option.splits if_splits)
  moreover have "has_prefix a (svc @ '':'')" if "a \<in> set acts" for a
    using rmap_elem [OF raw that] action_of_prefix by blast
  ultimately show ?thesis using rmap_length [OF raw] by auto
qed

lemma condition_kind_key:
  "condition_kind op k = Some (key, like) \<Longrightarrow> key = ''aws:sourcearn'' \<or> key = ''aws:sourceaccount''"
  unfolding condition_kind_def Let_def by (simp only: if_splits(2) split: if_split_asm) blast+

lemma condition_of_wf: "condition_of op kv = Inr c \<Longrightarrow> wf_condition c"
  using condition_kind_key
  by (fastforce simp: condition_of_def wf_condition_def split: option.splits if_splits)

lemma condition_op_wf: "condition_op e = Inr cs \<Longrightarrow> c \<in> set cs \<Longrightarrow> wf_condition c"
  by (auto simp: condition_op_def split: json.splits dest!: rmap_elem intro: condition_of_wf)

lemma conditions_wf: "conditions v = Inr cs \<Longrightarrow> c \<in> set cs \<Longrightarrow> wf_condition c"
proof (cases v)
  case (JObj m)
  assume "conditions v = Inr cs" "c \<in> set cs"
  with JObj obtain css cs' where "rmap condition_op (sorted_entries m) = Inr css" "cs' \<in> set css" "c \<in> set cs'"
    by auto
  then show ?thesis using rmap_elem [of condition_op _ css cs'] condition_op_wf by blast
qed auto

lemma parseStatement_wf:
  "parseStatement st svc arn = Inr (s, skip) \<Longrightarrow> wf_statement svc s"
  by (auto simp: parseStatement_def wf_statement_def Let_def dest: actions_wf
      split: list.splits option.splits if_splits intro: conditions_wf)

lemma parse_loop_statements:
  "parse_loop i sts svc arn (p, n) = Inr (p', n') \<Longrightarrow> s \<in> set p' \<Longrightarrow>
   s \<in> set p \<or> (\<exists>st \<in> set sts. parseStatement st svc arn = Inr (s, False))"
proof (induction i sts svc arn "(p, n)" arbitrary: p n rule: parse_loop.induct)
  case (2 i st sts svc arn p elsewhere)
  then show ?case by (auto split: sum.splits prod.splits if_splits)
qed simp

lemma Parse_wf:
  assumes "Parse unmarshal doc arn = Inr p" and "s \<in> set p"
  shows "wf_statement (arnPart arn 2) s"
proof -
  from assms obtain sts n where "parse_loop 0 sts (arnPart arn 2) arn ([], 0) = Inr (p, n)"
    by (auto simp: Parse_def Let_def split: if_splits)
  with assms(2) parse_loop_statements have "\<exists>st. parseStatement st (arnPart arn 2) arn = Inr (s, False)"
    by fastforce
  then show ?thesis using parseStatement_wf by blast
qed

text \<open>Every statement of the document was readable, when the document was accepted.\<close>

lemma parse_loop_all_parse:
  "parse_loop i sts svc arn acc = Inr acc' \<Longrightarrow> st \<in> set sts \<Longrightarrow> \<exists>r. parseStatement st svc arn = Inr r"
proof (induction i sts svc arn acc rule: parse_loop.induct)
  case (2 i st' sts svc arn p elsewhere)
  then show ?case by (auto split: sum.splits prod.splits if_splits)
qed simp

lemma lower_char_star: "lower_char c = CHR ''*'' \<Longrightarrow> c = CHR ''*''"
proof -
  assume eq: "lower_char c = CHR ''*''"
  show ?thesis
  proof (cases "65 \<le> (of_char c :: nat) \<and> (of_char c :: nat) \<le> 90")
    case True
    then have "(of_char (lower_char c) :: nat) = of_char c + 32"
      by (simp add: lower_char_def Let_def)
    with eq True show ?thesis by simp
  next
    case False
    then have "lower_char c = c" by (simp only: lower_char_def Let_def if_False)
    with eq show ?thesis by simp
  qed
qed

lemma to_lower_no_star: "CHR ''*'' \<notin> set s \<Longrightarrow> CHR ''*'' \<notin> set (to_lower s)"
  using lower_char_star by (auto simp: to_lower_def) metis

text \<open>A pattern that starts with literal text only matches texts that start with it.\<close>

lemma Glob_literal_prefix:
  assumes "has_prefix a p" and "CHR ''*'' \<notin> set p" and "CHR ''?'' \<notin> set p"
    and "CHR ''*'' \<notin> set s" and "Glob a s"
  shows "has_prefix s p"
  using assms wmatch_literal [of p True] by (auto simp: has_prefix_iff Glob_wmatch)

lemma Parse_service: "Parse unmarshal doc arn = Inr p \<Longrightarrow> arnPart arn 2 \<in> {''sqs'', ''sns''}"
  by (auto simp: Parse_def Let_def split: if_splits)

subsection \<open>A sample policy\<close>

definition sample_arn :: string where
  "sample_arn = ''arn:aws:sqs:us-east-1:000000000000:jobs''"

definition sample_statement :: "json strmap" where
  "sample_statement = [(''Effect'', JStr ''Allow''), (''Action'', JStr ''sqs:SendMessage''),
      (''Principal'', JObj [(''Service'', JStr ''sns.amazonaws.com'')])]"

definition sample_document :: json where
  "sample_document = JObj [(''Statement'', JObj sample_statement)]"

definition sample_request :: request where
  "sample_request = \<lparr>rService = ''sns.amazonaws.com'', rAction = ''sqs:SendMessage'',
     rSourceArn = [], rSourceAccount = []\<rparr>"

definition sample_policy :: policy where
  "sample_policy = [\<lparr>sSid = [], sAllow = True, sAny = False, sServices = [''sns.amazonaws.com''],
     sActions = [''sqs:sendmessage''], sConditions = []\<rparr>]"

lemma sample_parses: "Parse (\<lambda>_. Some sample_document) ''{}'' sample_arn = Inr sample_policy"
  by code_simp

lemma sample_allowed: "Allows sample_policy sample_request"
  by code_simp

subsection \<open>Properties\<close>

text \<open>
  Deliveries are decided as AWS decides them: an applicable Deny refuses, else an applicable
  Allow grants, else the delivery is refused, whatever the order of the statements.
\<close>

theorem Allows_iff:
  "Allows p req \<longleftrightarrow>
     (\<exists>s \<in> set p. stmt_matches s req \<and> sAllow s) \<and> (\<nexists>s. s \<in> set p \<and> stmt_matches s req \<and> \<not> sAllow s)"
  using rpd.decide_iff [of p req] by blast

text \<open>
  A policy accepted for a queue (topic) only ever allows actions of SQS (SNS): whatever the
  document said, an allowed request's action starts with the service of the resource's ARN.
\<close>

theorem accepted_policy_confined:
  assumes "Parse unmarshal doc arn = Inr p" and "CHR ''*'' \<notin> set (rAction req)" and "Allows p req"
  shows "has_prefix (to_lower (rAction req)) (arnPart arn 2 @ '':'')"
proof -
  from rpd.grant_needs_allow [OF assms(3)] obtain s where s: "s \<in> set p" "stmt_matches s req" by blast
  then obtain a where a: "a \<in> set (sActions s)" "Glob a (to_lower (rAction req))"
    by (auto simp: stmt_matches_def)
  have "has_prefix a (arnPart arn 2 @ '':'')"
    using Parse_wf [OF assms(1) s(1)] a(1) by (simp add: wf_statement_def)
  then show ?thesis
    using Glob_literal_prefix [OF _ _ _ to_lower_no_star [OF assms(2)] a(2)] Parse_service [OF assms(1)]
    by auto
qed

theorem accepted_policy_confined_witness:
  "has_prefix (to_lower (rAction sample_request)) (arnPart sample_arn 2 @ '':'')"
  using accepted_policy_confined [OF sample_parses _ sample_allowed]
  by (simp add: sample_request_def)



text \<open>
  A policy is accepted as a whole or not at all: when \<open>Parse\<close> succeeds, no statement of the
  document carries a NotPrincipal, NotAction or NotResource, and the effect, actions, resource,
  conditions and principal of each one, including those that are skipped, could all be honoured.
\<close>

theorem Parse_all_or_nothing:
  assumes "Parse unmarshal doc arn = Inr p" and "unmarshal doc = Some (JObj d)"
    and "statements (field d ''Statement'') = Inr sts" and "st \<in> set sts"
  shows "lookup st ''NotPrincipal'' = None \<and> lookup st ''NotAction'' = None \<and>
    lookup st ''NotResource'' = None \<and> effect_of (field st ''Effect'') \<noteq> None \<and>
    (\<exists>acts. actions (field st ''Action'') (arnPart arn 2) = Inr acts) \<and>
    (\<exists>b. checkResource (field st ''Resource'') arn = Inr b) \<and>
    (\<exists>cs. conditions (field st ''Condition'') = Inr cs) \<and>
    (\<exists>pr. principals (field st ''Principal'') = Inr pr)"
proof -
  from assms obtain acc where "parse_loop 0 sts (arnPart arn 2) arn ([], 0) = Inr acc"
    by (auto simp: Parse_def Let_def split: if_splits)
  then obtain r where "parseStatement st (arnPart arn 2) arn = Inr r"
    using parse_loop_all_parse assms(4) by blast
  then show ?thesis
    by (auto simp: parseStatement_def Let_def split: list.splits option.splits if_splits)
qed

theorem Parse_all_or_nothing_witness:
  "lookup sample_statement ''NotAction'' = None \<and> effect_of (field sample_statement ''Effect'') \<noteq> None"
proof -
  have "sample_document = JObj [(''Statement'', JObj sample_statement)]"
    by (simp add: sample_document_def)
  with Parse_all_or_nothing [OF sample_parses, of "[(''Statement'', JObj sample_statement)]"
      "[sample_statement]" sample_statement]
  show ?thesis by (simp add: field_def)
qed

end
