(* ===== verification/DepGraph.thy ===== *)
theory DepGraph
  imports Prelude "HOL-Library.Multiset"
begin

text \<open>
  Dependency ordering of a CloudFormation template: \<^verbatim>\<open>cfn/graph.go\<close>.

  \<open>order\<close> is Kahn's algorithm over the resources in template order. The maps \<^verbatim>\<open>pos\<close>,
  \<^verbatim>\<open>indeg\<close> and \<^verbatim>\<open>dependents\<close> are association lists; \<open>deps\<close> gives the dependency list of
  a resource (\<^verbatim>\<open>deps[id]\<close>). \<^verbatim>\<open>sort.Slice\<close> by position is \<open>sort_key\<close> (positions of
  different resources differ, so stability does not matter) and \<^verbatim>\<open>sort.Search\<close> is its
  documented result, the first index at which the monotone test holds.
\<close>

definition get0 :: "int strmap \<Rightarrow> string \<Rightarrow> int" where
  "get0 m k = (case lookup m k of None \<Rightarrow> 0 | Some n \<Rightarrow> n)"

definition get_list :: "string list strmap \<Rightarrow> string \<Rightarrow> string list" where
  "get_list m k = (case lookup m k of None \<Rightarrow> [] | Some l \<Rightarrow> l)"

text \<open>\<^verbatim>\<open>for i, id := range rawOrder { pos[id] = i }\<close>\<close>

fun pos_map :: "int \<Rightarrow> string list \<Rightarrow> int strmap \<Rightarrow> int strmap" where
  "pos_map i [] m = m"
| "pos_map i (x # xs) m = pos_map (i + 1) xs (put x i m)"

text \<open>\<^verbatim>\<open>for _, id := range rawOrder { indeg[id] = 0 }\<close>\<close>

fun zero_map :: "string list \<Rightarrow> int strmap \<Rightarrow> int strmap" where
  "zero_map [] m = m"
| "zero_map (x # xs) m = zero_map xs (put x 0 m)"

type_synonym edges = "int strmap \<times> string list strmap"

text \<open>The inner loop over \<^verbatim>\<open>deps[id]\<close>, \<open>seen\<close> being the names already counted.\<close>

fun add_deps :: "string \<Rightarrow> string list \<Rightarrow> string list \<Rightarrow> edges \<Rightarrow> edges" where
  "add_deps i [] seen e = e"
| "add_deps i (d # ds) seen (indeg, dependents) =
     (if d = i \<or> d \<in> set seen then add_deps i ds seen (indeg, dependents)
      else if lookup indeg d = None then add_deps i ds seen (indeg, dependents)
      else add_deps i ds (d # seen)
             (put i (get0 indeg i + 1) indeg, put d (get_list dependents d @ [i]) dependents))"

fun build_edges :: "string list \<Rightarrow> (string \<Rightarrow> string list) \<Rightarrow> edges \<Rightarrow> edges" where
  "build_edges [] deps e = e"
| "build_edges (i # ids) deps e = build_edges ids deps (add_deps i (deps i) [] e)"

definition sortByPos :: "string list \<Rightarrow> int strmap \<Rightarrow> string list" where
  "sortByPos ids pos = sort_key (get0 pos) ids"

definition insertByPos :: "string list \<Rightarrow> string \<Rightarrow> int strmap \<Rightarrow> string list" where
  "insertByPos ready i pos =
     (let n = length (takeWhile (\<lambda>r. \<not> get0 pos r > get0 pos i) ready)
      in take n ready @ [i] @ drop n ready)"

text \<open>\<^verbatim>\<open>for _, d := range next { indeg[d]--; if indeg[d] == 0 {...} }\<close>\<close>

fun release :: "string list \<Rightarrow> int strmap \<Rightarrow> int strmap \<Rightarrow> string list \<Rightarrow> int strmap \<times> string list" where
  "release [] pos indeg ready = (indeg, ready)"
| "release (d # ds) pos indeg ready =
     (let indeg' = put d (get0 indeg d - 1) indeg
      in release ds pos indeg' (if get0 indeg' d = 0 then insertByPos ready d pos else ready))"

subsection \<open>The main loop ends\<close>

text \<open>Resources still waiting: entries of \<^verbatim>\<open>indeg\<close> above zero.\<close>

definition waiting :: "int strmap \<Rightarrow> nat" where
  "waiting m = length (filter (\<lambda>kv. snd kv > 0) m)"

lemma waiting_put: "waiting (put k (get0 m k - 1) m) + (if get0 m k - 1 = 0 then 1 else 0) \<le> waiting m"
proof (induction m)
  case (Cons kv m)
  then show ?case by (cases kv) (auto simp: waiting_def get0_def split: option.splits)
qed (simp add: waiting_def get0_def)

lemma length_insertByPos [simp]: "length (insertByPos ready i pos) = Suc (length ready)"
  by (simp add: insertByPos_def Let_def)

lemma release_measure:
  "release ds pos indeg ready = (indeg', ready') \<Longrightarrow>
   waiting indeg' + length ready' \<le> waiting indeg + length ready"
proof (induction ds pos indeg ready arbitrary: indeg' ready' rule: release.induct)
  case (2 d ds pos indeg ready)
  have "waiting indeg' + length ready' \<le> waiting (put d (get0 indeg d - 1) indeg) +
      length (if get0 (put d (get0 indeg d - 1) indeg) d = 0 then insertByPos ready d pos else ready)"
    using "2.IH" [OF refl] "2.prems" by (simp add: Let_def)
  then show ?case
    using waiting_put [of d indeg] by (simp add: get0_def split: if_splits)
qed simp

function kahn_loop ::
  "string list strmap \<Rightarrow> int strmap \<Rightarrow> int strmap \<Rightarrow> string list \<Rightarrow> string list \<Rightarrow> int strmap \<times> string list" where
  "kahn_loop dependents pos indeg [] out = (indeg, out)"
| "kahn_loop dependents pos indeg (i # ready) out =
     (let (indeg', ready') = release (sortByPos (get_list dependents i) pos) pos indeg ready
      in kahn_loop dependents pos indeg' ready' (out @ [i]))"
  by pat_completeness auto
termination
proof (relation "measure (\<lambda>(dependents, pos, indeg, ready, out). waiting indeg + length ready)", goal_cases)
  case (2 dependents pos indeg i ready out x indeg' ready')
  then show ?case
    using release_measure [of "sortByPos (get_list dependents i) pos" pos indeg ready indeg' ready']
    by auto
qed simp

text \<open>The error carries the resources still tangled.\<close>

definition order :: "string list \<Rightarrow> (string \<Rightarrow> string list) \<Rightarrow> string list + string list" where
  "order rawOrder deps =
     (let pos = pos_map 0 rawOrder [];
          (indeg, dependents) = build_edges rawOrder deps (zero_map rawOrder [], []);
          ready = sortByPos (filter (\<lambda>i. get0 indeg i = 0) rawOrder) pos;
          (indeg', out) = kahn_loop dependents pos indeg ready []
      in if length out \<noteq> length rawOrder
         then Inl (sortByPos (filter (\<lambda>i. get0 indeg' i > 0) rawOrder) pos)
         else Inr out)"

subsection \<open>The edges\<close>

text \<open>The dependencies that count: other resources of the template.\<close>

definition needs :: "string list \<Rightarrow> (string \<Rightarrow> string list) \<Rightarrow> string \<Rightarrow> string set" where
  "needs raw deps i = {d \<in> set (deps i). d \<noteq> i \<and> d \<in> set raw}"

lemma finite_needs [simp]: "finite (needs raw deps i)"
  by (simp add: needs_def)

lemma lookup_zero_map: "lookup (zero_map xs m) k = (if k \<in> set xs then Some 0 else lookup m k)"
  by (induction xs m rule: zero_map.induct) auto

text \<open>One inner loop adds the new dependencies of \<open>i\<close> and nothing else.\<close>

lemma add_deps_spec:
  assumes "add_deps i ds seen (indeg, dependents) = (indeg', dependents')"
    and "lookup indeg i \<noteq> None"
  defines "new \<equiv> {d \<in> set ds. d \<noteq> i \<and> d \<notin> set seen \<and> lookup indeg d \<noteq> None}"
  shows "get0 indeg' i = get0 indeg i + int (card new) \<and>
    (\<forall>k. k \<noteq> i \<longrightarrow> get0 indeg' k = get0 indeg k) \<and>
    (\<forall>k. lookup indeg' k = None \<longleftrightarrow> lookup indeg k = None) \<and>
    (\<forall>d. get_list dependents' d = get_list dependents d @ (if d \<in> new then [i] else []))"
  using assms(1,2) unfolding new_def
proof (induction i ds seen "(indeg, dependents)" arbitrary: indeg dependents rule: add_deps.induct)
  case (1 i seen)
  then show ?case by simp
next
  case (2 i d ds seen indeg dependents)
  show ?case
  proof (cases "d = i \<or> d \<in> set seen \<or> lookup indeg d = None")
    case True
    then have "{x \<in> set (d # ds). x \<noteq> i \<and> x \<notin> set seen \<and> lookup indeg x \<noteq> None} =
        {x \<in> set ds. x \<noteq> i \<and> x \<notin> set seen \<and> lookup indeg x \<noteq> None}" by auto
    then show ?thesis using 2 True by (auto split: if_splits)
  next
    case False
    let ?indeg = "put i (get0 indeg i + 1) indeg"
    let ?dep = "put d (get_list dependents d @ [i]) dependents"
    let ?old = "{x \<in> set ds. x \<noteq> i \<and> x \<notin> set (d # seen) \<and> lookup indeg x \<noteq> None}"
    have new: "{x \<in> set (d # ds). x \<noteq> i \<and> x \<notin> set seen \<and> lookup indeg x \<noteq> None} = insert d ?old"
      using False by auto
    have dom: "lookup ?indeg x = None \<longleftrightarrow> lookup indeg x = None" for x
      using "2.prems"(2) by auto
    have "add_deps i ds (d # seen) (?indeg, ?dep) = (indeg', dependents')"
      using "2.prems"(1) False by (auto split: if_splits)
    from "2.hyps"(3) [OF _ _ this] False
    have "get0 indeg' i = get0 ?indeg i +
        int (card {x \<in> set ds. x \<noteq> i \<and> x \<notin> set (d # seen) \<and> lookup ?indeg x \<noteq> None}) \<and>
      (\<forall>k. k \<noteq> i \<longrightarrow> get0 indeg' k = get0 ?indeg k) \<and>
      (\<forall>k. lookup indeg' k = None \<longleftrightarrow> lookup ?indeg k = None) \<and>
      (\<forall>x. get_list dependents' x = get_list ?dep x @
        (if x \<in> {x \<in> set ds. x \<noteq> i \<and> x \<notin> set (d # seen) \<and> lookup ?indeg x \<noteq> None} then [i] else []))"
      by (simp del: not_None_eq)
    note IH = this [unfolded dom]
    have card: "card (insert d ?old) = Suc (card ?old)" by simp
    show ?thesis
      unfolding new card using IH False by (auto simp: get0_def get_list_def dom)
  qed
qed

lemma build_edges_spec:
  assumes "build_edges ids deps (indeg, dependents) = (indeg', dependents')"
    and "distinct ids" and "\<forall>i \<in> set ids. lookup indeg i \<noteq> None"
  defines "N \<equiv> \<lambda>i. {d \<in> set (deps i). d \<noteq> i \<and> lookup indeg d \<noteq> None}"
  shows "(\<forall>k. get0 indeg' k = get0 indeg k + (if k \<in> set ids then int (card (N k)) else 0)) \<and>
    (\<forall>d. get_list dependents' d = get_list dependents d @ filter (\<lambda>i. d \<in> N i) ids)"
  using assms(1-3) unfolding N_def
proof (induction ids arbitrary: indeg dependents)
  case (Cons i ids)
  obtain indeg1 dep1 where one: "add_deps i (deps i) [] (indeg, dependents) = (indeg1, dep1)"
    by (metis prod.exhaust)
  from add_deps_spec [OF this] Cons.prems have
    spec: "get0 indeg1 i = get0 indeg i + int (card {d \<in> set (deps i). d \<noteq> i \<and> lookup indeg d \<noteq> None})"
      "\<And>k. k \<noteq> i \<Longrightarrow> get0 indeg1 k = get0 indeg k"
      "\<And>k. lookup indeg1 k = None \<longleftrightarrow> lookup indeg k = None"
      "\<And>d. get_list dep1 d = get_list dependents d @
         (if d \<in> {d \<in> set (deps i). d \<noteq> i \<and> lookup indeg d \<noteq> None} then [i] else [])"
    by simp_all
  have rest: "build_edges ids deps (indeg1, dep1) = (indeg', dependents')"
    using Cons.prems(1) one by simp
  have "\<forall>j \<in> set ids. lookup indeg1 j \<noteq> None" using Cons.prems(3) spec(3) by simp
  from Cons.IH [OF rest _ this] Cons.prems(2) have
    IH: "\<And>k. get0 indeg' k = get0 indeg1 k +
      (if k \<in> set ids then int (card {d \<in> set (deps k). d \<noteq> k \<and> lookup indeg d \<noteq> None}) else 0)"
    "\<And>d. get_list dependents' d = get_list dep1 d @
      filter (\<lambda>j. d \<in> {d \<in> set (deps j). d \<noteq> j \<and> lookup indeg d \<noteq> None}) ids"
    by (simp_all only: spec(3) distinct.simps)
  have "i \<notin> set ids" using Cons.prems(2) by simp
  then have "get0 indeg' k = get0 indeg k + (if k \<in> set (i # ids)
      then int (card {d \<in> set (deps k). d \<noteq> k \<and> lookup indeg d \<noteq> None}) else 0)" for k
    using IH(1) [of k] spec(1) spec(2) [of k] by (cases "k = i") simp_all
  moreover have "get_list dependents' d = get_list dependents d @
      filter (\<lambda>j. d \<in> {d \<in> set (deps j). d \<noteq> j \<and> lookup indeg d \<noteq> None}) (i # ids)" for d
    using IH(2) [of d] spec(4) [of d] by simp
  ultimately show ?case by blast
qed simp

subsection \<open>The invariant of the loop\<close>

lemma mset_insertByPos [simp]: "mset (insertByPos ready i pos) = add_mset i (mset ready)"
proof -
  let ?n = "length (takeWhile (\<lambda>r. \<not> get0 pos r > get0 pos i) ready)"
  have "mset (take ?n ready) + mset (drop ?n ready) = mset ready"
    by (metis append_take_drop_id mset_append)
  then show ?thesis by (simp add: insertByPos_def Let_def)
qed

lemma release_spec:
  assumes "release ds pos indeg ready = (indeg', ready')" and "distinct ds"
  shows "(\<forall>k. get0 indeg' k = get0 indeg k - (if k \<in> set ds then 1 else 0)) \<and>
    mset ready' = mset ready + mset (filter (\<lambda>d. get0 indeg d = 1) ds)"
  using assms
proof (induction ds pos indeg ready arbitrary: indeg' ready' rule: release.induct)
  case (2 d ds pos indeg ready)
  let ?indeg = "put d (get0 indeg d - 1) indeg"
  have g: "get0 ?indeg k = (if k = d then get0 indeg d - 1 else get0 indeg k)" for k
    by (simp add: get0_def)
  have "\<forall>x \<in> set ds. (get0 ?indeg x = 1) = (get0 indeg x = 1)"
    using "2.prems"(2) by (auto simp: g)
  then have f: "filter (\<lambda>d. get0 ?indeg d = 1) ds = filter (\<lambda>d. get0 indeg d = 1) ds"
    by (auto intro: filter_cong)
  let ?ready = "if get0 ?indeg d = 0 then insertByPos ready d pos else ready"
  have "release ds pos ?indeg ?ready = (indeg', ready')" using "2.prems"(1) by (simp add: Let_def)
  from "2.IH" [OF refl this] "2.prems"(2) have
    IH: "\<And>k. get0 indeg' k = get0 ?indeg k - (if k \<in> set ds then 1 else 0)"
    "mset ready' = mset ?ready + mset (filter (\<lambda>d. get0 indeg d = 1) ds)"
    by (simp_all only: f distinct.simps)
  have "mset ready' = mset ready + mset (filter (\<lambda>d. get0 indeg d = 1) (d # ds))"
    by (simp add: IH(2) g)
  then show ?case using IH(1) g "2.prems"(2) by simp
qed simp

text \<open>Every resource of \<open>out\<close> comes after all it needs.\<close>

definition topo :: "string list \<Rightarrow> (string \<Rightarrow> string list) \<Rightarrow> string list \<Rightarrow> bool" where
  "topo raw deps out \<longleftrightarrow> (\<forall>a i b. out = a @ i # b \<longrightarrow> needs raw deps i \<subseteq> set a)"

lemma topo_snoc: "topo raw deps out \<Longrightarrow> needs raw deps i \<subseteq> set out \<Longrightarrow> topo raw deps (out @ [i])"
  unfolding topo_def
proof (intro allI impI)
  fix a j b
  assume prev: "\<forall>a i b. out = a @ i # b \<longrightarrow> needs raw deps i \<subseteq> set a"
    and i: "needs raw deps i \<subseteq> set out" and eq: "out @ [i] = a @ j # b"
  show "needs raw deps j \<subseteq> set a"
  proof (cases b rule: rev_cases)
    case Nil
    with eq i show ?thesis by simp
  next
    case (snoc b' x)
    with eq have "out = a @ j # b'" by simp
    with prev show ?thesis by blast
  qed
qed

definition kahn_inv ::
  "string list \<Rightarrow> (string \<Rightarrow> string list) \<Rightarrow> int strmap \<Rightarrow> string list \<Rightarrow> string list \<Rightarrow> bool" where
  "kahn_inv raw deps indeg ready out \<longleftrightarrow>
     distinct (out @ ready) \<and> set (out @ ready) \<subseteq> set raw \<and>
     (\<forall>i \<in> set raw. get0 indeg i = int (card (needs raw deps i - set out))) \<and>
     (\<forall>i \<in> set raw. i \<in> set (out @ ready) \<longleftrightarrow> needs raw deps i \<subseteq> set out) \<and>
     topo raw deps out"

definition dependents_ok :: "string list \<Rightarrow> (string \<Rightarrow> string list) \<Rightarrow> string list strmap \<Rightarrow> bool" where
  "dependents_ok raw deps dependents \<longleftrightarrow>
     (\<forall>d. distinct (get_list dependents d) \<and>
          (d \<in> set raw \<longrightarrow> set (get_list dependents d) = {i \<in> set raw. d \<in> needs raw deps i}))"

lemma set_sortByPos [simp]: "set (sortByPos ids pos) = set ids"
  and distinct_sortByPos [simp]: "distinct (sortByPos ids pos) = distinct ids"
  by (simp_all add: sortByPos_def)

text \<open>What one more finished resource does to the number of open dependencies.\<close>

lemma open_deps_step:
  assumes "i \<notin> set out"
  shows "card (needs raw deps j - set (out @ [i])) =
    card (needs raw deps j - set out) - (if i \<in> needs raw deps j then 1 else 0)"
proof -
  have "needs raw deps j - set (out @ [i]) = (needs raw deps j - set out) - {i}" by auto
  then show ?thesis using assms by (simp add: card_Diff_singleton_if)
qed

lemma open_deps_pos: "i \<notin> set out \<Longrightarrow> i \<in> needs raw deps j \<Longrightarrow> 1 \<le> card (needs raw deps j - set out)"
  by (simp add: Suc_le_eq card_gt_0_iff) blast

lemma no_open_deps: "needs raw deps j \<subseteq> set xs \<longleftrightarrow> card (needs raw deps j - set xs) = 0"
  by (simp add: card_eq_0_iff)

lemma open_deps_zero:
  assumes "i \<notin> set out"
  shows "card (needs raw deps j - set out) = 0 \<or>
      i \<in> needs raw deps j \<and> card (needs raw deps j - set out) = 1 \<longleftrightarrow>
    needs raw deps j \<subseteq> set (out @ [i])"
proof (cases "i \<in> needs raw deps j")
  case True
  have "c \<ge> 1 \<Longrightarrow> c' = c - 1 \<Longrightarrow> (c = 0 \<or> c = 1) = (c' = 0)" for c c' :: nat
    by presburger
  moreover have "card (needs raw deps j - set (out @ [i])) = card (needs raw deps j - set out) - 1"
    using True by (simp only: open_deps_step [OF assms] if_True)
  ultimately show ?thesis
    using True open_deps_pos [OF assms True] unfolding no_open_deps by blast
next
  case False
  then show ?thesis
    unfolding no_open_deps by (simp only: open_deps_step [OF assms] if_False simp_thms diff_zero)
qed

text \<open>One round of the loop keeps the invariant.\<close>

lemma kahn_step:
  assumes inv: "kahn_inv raw deps indeg (i # ready) out" and dep: "dependents_ok raw deps dependents"
    and rel: "release (sortByPos (get_list dependents i) pos) pos indeg ready = (indeg', ready')"
  shows "kahn_inv raw deps indeg' ready' (out @ [i])"
proof -
  let ?N = "needs raw deps" and ?out = "out @ [i]"
  from inv have i: "i \<in> set raw" "i \<notin> set out" "i \<notin> set ready" "?N i \<subseteq> set out"
    by (auto simp: kahn_inv_def)
  from dep i have ds: "distinct (get_list dependents i)"
    "set (get_list dependents i) = {j \<in> set raw. i \<in> ?N j}"
    by (auto simp: dependents_ok_def)
  note card_step = open_deps_step [OF i(2)] and pos_card = open_deps_pos [OF i(2)] and sub = no_open_deps
  from release_spec [OF rel] ds have
    new_indeg: "\<And>k. get0 indeg' k = get0 indeg k - (if k \<in> set raw \<and> i \<in> ?N k then 1 else 0)"
    and new_ready: "mset ready' = mset ready +
      mset (filter (\<lambda>d. get0 indeg d = 1) (sortByPos (get_list dependents i) pos))"
    by auto
  have indeg: "get0 indeg' j = int (card (?N j - set ?out))" if "j \<in> set raw" for j
    using inv that pos_card [of raw deps j] by (auto simp: kahn_inv_def new_indeg card_step)
  let ?rel = "{j \<in> set raw. i \<in> ?N j \<and> card (?N j - set out) = 1}"
  have set_ready': "set ready' = set ready \<union> ?rel"
  proof -
    have "set ready' = set ready \<union> {j \<in> set raw. i \<in> ?N j \<and> get0 indeg j = 1}"
      using arg_cong [OF new_ready, of set_mset] ds by auto
    then show ?thesis using inv by (auto simp: kahn_inv_def)
  qed
  have not_done: "j \<notin> set (out @ i # ready)" if "j \<in> ?rel" for j
    using that inv sub [of raw deps j out] by (auto simp: kahn_inv_def)
  have "distinct ready'"
  proof -
    have "distinct (filter (\<lambda>d. get0 indeg d = 1) (sortByPos (get_list dependents i) pos))"
      using ds by simp
    moreover have "set (filter (\<lambda>d. get0 indeg d = 1) (sortByPos (get_list dependents i) pos)) = ?rel"
      using ds inv by (auto simp: kahn_inv_def)
    ultimately have "distinct (ready @ filter (\<lambda>d. get0 indeg d = 1) (sortByPos (get_list dependents i) pos))"
      using inv not_done by (auto simp: kahn_inv_def)
    then show ?thesis using new_ready by (metis mset_append mset_eq_imp_distinct_iff)
  qed
  then have dist: "distinct (?out @ ready')"
    using inv not_done set_ready' by (auto simp: kahn_inv_def)
  have done_iff: "j \<in> set (?out @ ready') \<longleftrightarrow> ?N j \<subseteq> set ?out" if j: "j \<in> set raw" for j
  proof -
    have "j \<in> set (out @ i # ready) \<longleftrightarrow> card (?N j - set out) = 0"
      using inv j unfolding kahn_inv_def sub [symmetric] by blast
    then have "j \<in> set (?out @ ready') \<longleftrightarrow>
        card (?N j - set out) = 0 \<or> i \<in> ?N j \<and> card (?N j - set out) = 1"
      using set_ready' j by auto
    also have "\<dots> \<longleftrightarrow> ?N j \<subseteq> set ?out" by (rule open_deps_zero [OF i(2)])
    finally show ?thesis .
  qed
  have "set (?out @ ready') \<subseteq> set raw" using inv set_ready' by (auto simp: kahn_inv_def)
  moreover have "topo raw deps ?out" using inv i(4) by (simp add: kahn_inv_def topo_snoc)
  ultimately show ?thesis using dist indeg done_iff by (simp add: kahn_inv_def)
qed

lemma kahn_loop_inv:
  assumes "dependents_ok raw deps dependents"
  shows "kahn_inv raw deps indeg ready out \<Longrightarrow> kahn_loop dependents pos indeg ready out = (indeg', out') \<Longrightarrow>
   kahn_inv raw deps indeg' [] out'"
  using assms
proof (induction dependents pos indeg ready out rule: kahn_loop.induct)
  case (2 dependents pos indeg i ready out)
  obtain indeg1 ready1 where
    rel: "release (sortByPos (get_list dependents i) pos) pos indeg ready = (indeg1, ready1)"
    by (metis prod.exhaust)
  from kahn_step [OF "2.prems"(1,3) this] "2.IH" [OF rel [symmetric] refl] "2.prems" rel
  show ?case by simp
qed simp

text \<open>The state the loop starts from satisfies it.\<close>

lemma kahn_start:
  assumes "distinct raw" and "build_edges raw deps (zero_map raw [], []) = (indeg, dependents)"
  shows "dependents_ok raw deps dependents \<and>
    kahn_inv raw deps indeg (sortByPos (filter (\<lambda>i. get0 indeg i = 0) raw) pos) []"
proof -
  have N: "{d \<in> set (deps i). d \<noteq> i \<and> lookup (zero_map raw []) d \<noteq> None} = needs raw deps i" for i
    by (auto simp: needs_def lookup_zero_map)
  have zero: "get0 (zero_map raw []) k = 0" for k
    by (simp add: get0_def lookup_zero_map)
  have "\<forall>i \<in> set raw. lookup (zero_map raw []) i \<noteq> None" by (simp add: lookup_zero_map)
  from build_edges_spec [OF assms(2,1) this, unfolded N zero]
  have indeg: "\<And>k. get0 indeg k = (if k \<in> set raw then int (card (needs raw deps k)) else 0)"
    and dep: "\<And>d. get_list dependents d = filter (\<lambda>i. d \<in> needs raw deps i) raw"
    by (simp_all add: get_list_def)
  have "dependents_ok raw deps dependents" using assms(1) by (auto simp: dependents_ok_def dep)
  moreover have "kahn_inv raw deps indeg (sortByPos (filter (\<lambda>i. get0 indeg i = 0) raw) pos) []"
    using assms(1) by (auto simp: kahn_inv_def topo_def indeg)
  ultimately show ?thesis ..
qed

lemma order_cases:
  assumes "distinct raw"
  obtains indeg out where "kahn_inv raw deps indeg [] out"
    "order raw deps = (if length out \<noteq> length raw
       then Inl (sortByPos (filter (\<lambda>i. get0 indeg i > 0) raw) (pos_map 0 raw [])) else Inr out)"
proof -
  obtain indeg dependents where b: "build_edges raw deps (zero_map raw [], []) = (indeg, dependents)"
    by (metis prod.exhaust)
  let ?pos = "pos_map 0 raw []"
  let ?ready = "sortByPos (filter (\<lambda>i. get0 indeg i = 0) raw) ?pos"
  obtain indeg' out where k: "kahn_loop dependents ?pos indeg ?ready [] = (indeg', out)"
    by (metis prod.exhaust)
  from kahn_start [OF assms b] kahn_loop_inv k have "kahn_inv raw deps indeg' [] out" by blast
  with that show ?thesis by (simp add: order_def b k)
qed

subsection \<open>Properties\<close>

lemma kahn_done:
  assumes "kahn_inv raw deps indeg [] out" and "distinct raw" and "length out = length raw"
  shows "mset out = mset raw \<and> topo raw deps out"
proof -
  have "distinct out" "set out \<subseteq> set raw" using assms(1) by (auto simp: kahn_inv_def)
  with assms(2,3) have "set out = set raw"
    by (metis card_subset_eq distinct_card List.finite_set)
  with \<open>distinct out\<close> assms(1,2) show ?thesis
    by (simp add: kahn_inv_def set_eq_iff_mset_eq_distinct)
qed

text \<open>
  C36. Resources are provisioned in dependency order: when \<open>order\<close> succeeds its result holds every
  resource of the template exactly once, and each one comes after every other resource of the
  template it depends on.
\<close>

theorem order_sound:
  assumes "distinct rawOrder" and "order rawOrder deps = Inr out"
  shows "mset out = mset rawOrder \<and>
    (\<forall>a i b d. out = a @ i # b \<and> d \<in> set (deps i) \<and> d \<noteq> i \<and> d \<in> set rawOrder \<longrightarrow> d \<in> set a)"
proof -
  obtain indeg where "kahn_inv rawOrder deps indeg [] out" "length out = length rawOrder"
    using order_cases [OF assms(1), of deps] assms(2) by (metis Inl_Inr_False sum.inject(2))
  with kahn_done assms(1) show ?thesis by (fastforce simp: topo_def needs_def)
qed

definition sample_deps :: "string \<Rightarrow> string list" where
  "sample_deps i = (if i = ''api'' then [''db'', ''api'', ''AWS::Region'', ''db''] else [])"

lemma sample_order: "order [''api'', ''db''] sample_deps = Inr [''db'', ''api'']"
  by code_simp

theorem order_sound_witness: "mset [''db'', ''api''] = mset [''api'', ''db'']"
  using order_sound [OF _ sample_order] by simp

text \<open>
  A failure names a real circular dependency: the reported resources are not empty and each of
  them depends on another of them.
\<close>

theorem order_reports_cycle:
  assumes "distinct rawOrder" and "order rawOrder deps = Inl stuck"
  shows "stuck \<noteq> [] \<and> (\<forall>i \<in> set stuck. \<exists>d \<in> set stuck. d \<in> set (deps i) \<and> d \<noteq> i)"
proof -
  obtain indeg out where inv: "kahn_inv rawOrder deps indeg [] out"
    and res: "order rawOrder deps = (if length out \<noteq> length rawOrder
      then Inl (sortByPos (filter (\<lambda>i. get0 indeg i > 0) rawOrder) (pos_map 0 rawOrder [])) else Inr out)"
    using order_cases [OF assms(1)] by blast
  from res assms(2) have stuck: "length out \<noteq> length rawOrder"
    "set stuck = {i \<in> set rawOrder. get0 indeg i > 0}"
    by (auto split: if_splits)
  have waiting: "i \<in> set stuck \<longleftrightarrow> i \<in> set rawOrder \<and> i \<notin> set out" for i
    using inv by (auto simp: stuck kahn_inv_def card_gt_0_iff)
  have "\<exists>d \<in> set stuck. d \<in> set (deps i) \<and> d \<noteq> i" if "i \<in> set stuck" for i
  proof -
    have "\<not> needs rawOrder deps i \<subseteq> set out" using that waiting inv by (auto simp: kahn_inv_def)
    then show ?thesis using waiting by (auto simp: needs_def)
  qed
  moreover have "set out \<noteq> set rawOrder"
    using stuck(1) inv assms(1) by (metis append_Nil2 distinct_card kahn_inv_def)
  then have "set stuck \<noteq> {}" using waiting inv by (auto simp: kahn_inv_def)
  ultimately show ?thesis by auto
qed

theorem order_reports_cycle_witness:
  "\<exists>d \<in> set [''a'', ''b'']. d \<in> set ((\<lambda>i. if i = ''a'' then [''b''] else [''a'']) ''a'') \<and> d \<noteq> ''a''"
proof -
  have "order [''a'', ''b''] (\<lambda>i. if i = ''a'' then [''b''] else [''a'']) = Inl [''a'', ''b'']"
    by code_simp
  from order_reports_cycle [OF _ this] show ?thesis by simp
qed

lemma topo_no_cycle:
  assumes "topo raw deps ys" and "set ys = set raw" and "stuck \<noteq> []" and "set stuck \<subseteq> set raw"
  shows "\<exists>i \<in> set stuck. needs raw deps i \<inter> set stuck = {}"
proof -
  have "\<exists>x \<in> set ys. x \<in> set stuck" using assms(2-4) by (cases stuck) auto
  then obtain a i b where "ys = a @ i # b" "i \<in> set stuck" "\<forall>x \<in> set a. x \<notin> set stuck"
    using split_list_first_prop [of ys "\<lambda>x. x \<in> set stuck"] by blast
  with assms(1) show ?thesis unfolding topo_def by blast
qed

text \<open>
  C37. Nothing is refused needlessly: \<open>order\<close> succeeds exactly when the resources can be arranged
  so that each one comes after the other resources it depends on.
\<close>

theorem order_succeeds_iff:
  assumes "distinct rawOrder"
  shows "(\<exists>out. order rawOrder deps = Inr out) \<longleftrightarrow>
    (\<exists>ys. mset ys = mset rawOrder \<and>
      (\<forall>a i b. ys = a @ i # b \<longrightarrow> (\<forall>d \<in> set (deps i). d \<noteq> i \<and> d \<in> set rawOrder \<longrightarrow> d \<in> set a)))"
    (is "?ok \<longleftrightarrow> ?arr")
proof -
  have arr: "?arr \<longleftrightarrow> (\<exists>ys. mset ys = mset rawOrder \<and> topo rawOrder deps ys)"
    by (fastforce simp: topo_def needs_def)
  obtain indeg out where inv: "kahn_inv rawOrder deps indeg [] out"
    and res: "order rawOrder deps = (if length out \<noteq> length rawOrder
      then Inl (sortByPos (filter (\<lambda>i. get0 indeg i > 0) rawOrder) (pos_map 0 rawOrder [])) else Inr out)"
    using order_cases [OF assms] by blast
  let ?stuck = "filter (\<lambda>i. i \<notin> set out) rawOrder"
  have "length out = length rawOrder" if ys: "mset ys = mset rawOrder" "topo rawOrder deps ys" for ys
  proof (rule ccontr)
    assume "length out \<noteq> length rawOrder"
    then have "set out \<noteq> set rawOrder"
      using inv assms by (metis append_Nil2 distinct_card kahn_inv_def)
    then have "?stuck \<noteq> []" using inv by (auto simp: kahn_inv_def filter_empty_conv)
    then obtain i where i: "i \<in> set ?stuck" "needs rawOrder deps i \<inter> set ?stuck = {}"
      using topo_no_cycle [OF ys(2) mset_eq_setD [OF ys(1)], of ?stuck] by auto
    have "needs rawOrder deps i \<subseteq> set rawOrder" by (auto simp: needs_def)
    with i(2) have "needs rawOrder deps i \<subseteq> set out" by auto
    with i(1) inv show False by (auto simp: kahn_inv_def)
  qed
  moreover have "?arr" if "length out = length rawOrder"
    using arr kahn_done [OF inv assms that] by blast
  ultimately show ?thesis using arr res by (auto split: if_splits)
qed

theorem order_succeeds_iff_witness:
  "\<exists>ys. mset ys = mset [''api'', ''db''] \<and> (\<forall>a i b. ys = a @ i # b \<longrightarrow>
     (\<forall>d \<in> set (sample_deps i). d \<noteq> i \<and> d \<in> set [''api'', ''db''] \<longrightarrow> d \<in> set a))"
  using order_succeeds_iff [of "[''api'', ''db'']" sample_deps] sample_order by simp

text \<open>
  A resource that depends on itself is not reported: the self edge is dropped, so a template
  whose only cycle is a self reference is ordered as if there were none.
\<close>

theorem order_ignores_self_reference:
  "order [''A''] (\<lambda>_. [''A'']) = Inr [''A'']"
  by code_simp

end
