(* ===== verification/AuditChain.thy ===== *)
theory AuditChain
  imports Prelude "HOL-Library.Word" "HOL-Library.Multiset"
begin

text \<open>
  The tamper-evident audit chain: \<^verbatim>\<open>console-api/internal/auditchain/chain.go\<close>.

  Audit records are shipped in segments linked by hashes. \<open>BuildSegment\<close> makes the next link,
  \<open>StreamVerifier\<close> (\<open>Push\<close>, \<open>Result\<close>) walks a chain, \<open>Verify\<close> sorts and walks. SHA-256 is
  the parameter \<open>sha\<close>; theorems that need more than its being a function name what they need.
  Counters are Go \<^verbatim>\<open>int\<close>s far below their width and are modelled by \<^typ>\<open>int\<close>. The break
  reasons are one constructor per message.
\<close>

subsection \<open>Hashing\<close>

definition hex_digit :: "nat \<Rightarrow> char" where
  "hex_digit n = (if n < 10 then char_of (48 + n) else char_of (87 + n))"

definition hex_byte :: "char \<Rightarrow> string" where
  "hex_byte c = (let n = of_char c :: nat in [hex_digit (n div 16), hex_digit (n mod 16)])"

text \<open>\<^verbatim>\<open>hex.EncodeToString\<close>\<close>

definition hex :: "string \<Rightarrow> string" where
  "hex s = concat (map hex_byte s)"

definition HashRecords :: "(string \<Rightarrow> string) \<Rightarrow> string list \<Rightarrow> string" where
  "HashRecords sha records = hex (sha (concat (map sha records)))"

definition nl :: string where
  "nl = [CHR 0x0A]"

text \<open>What \<^verbatim>\<open>segmentHash\<close> writes into the hash.\<close>

definition preimage :: "int \<Rightarrow> string \<Rightarrow> int \<Rightarrow> string \<Rightarrow> string \<Rightarrow> string \<Rightarrow> string" where
  "preimage seq prevHash cnt firstTS lastTS recordsHash =
     ''seq:'' @ itoa seq @ nl @ ''prev:'' @ prevHash @ nl @ ''count:'' @ itoa cnt @ nl @
     ''first:'' @ firstTS @ nl @ ''last:'' @ lastTS @ nl @ ''records:'' @ recordsHash @ nl"

definition segmentHash ::
  "(string \<Rightarrow> string) \<Rightarrow> int \<Rightarrow> string \<Rightarrow> int \<Rightarrow> string \<Rightarrow> string \<Rightarrow> string \<Rightarrow> string" where
  "segmentHash sha seq prevHash cnt firstTS lastTS recordsHash =
     hex (sha (preimage seq prevHash cnt firstTS lastTS recordsHash))"

subsection \<open>Segments\<close>

record segment =
  Seq :: int
  PrevHash :: string
  Count :: int
  FirstTS :: string
  LastTS :: string
  RecordsHash :: string
  Hash :: string
  Records :: "string list"
  EndOffset :: "64 word"
  SourceInode :: "64 word"

definition GenesisPrev :: string where
  "GenesisPrev = []"

definition BuildSegment ::
  "(string \<Rightarrow> string) \<Rightarrow> segment option \<Rightarrow> string list \<Rightarrow> string \<Rightarrow> string \<Rightarrow> segment" where
  "BuildSegment sha prev records firstTS lastTS =
     (let (seq, prevHash) = (case prev of None \<Rightarrow> (0, GenesisPrev) | Some p \<Rightarrow> (Seq p + 1, Hash p));
          rh = HashRecords sha records;
          cnt = int (length records)
      in \<lparr>Seq = seq, PrevHash = prevHash, Count = cnt, FirstTS = firstTS, LastTS = lastTS,
          RecordsHash = rh, Hash = segmentHash sha seq prevHash cnt firstTS lastTS rh,
          Records = records, EndOffset = 0, SourceInode = 0\<rparr>)"

subsection \<open>Verification\<close>

datatype reason =
    RecordsAltered
  | CountMismatch
  | FieldAltered
  | NotGenesis
  | Gap int int
  | PrevMismatch

record verify_result =
  rOK :: bool
  rCount :: int
  rBaseSeq :: int
  rHeadSeq :: int
  rHeadHash :: string
  rRecords :: int
  rBrokenAt :: "int option"
  rReason :: "reason option"

text \<open>Of the previous segment only the sequence number and the hash are kept.\<close>

record verifier =
  vRes :: verify_result
  vPrev :: "(int \<times> string) option"
  vBroken :: bool

definition empty_result :: verify_result where
  "empty_result = \<lparr>rOK = False, rCount = 0, rBaseSeq = 0, rHeadSeq = 0, rHeadHash = [],
     rRecords = 0, rBrokenAt = None, rReason = None\<rparr>"

text \<open>\<^verbatim>\<open>var v StreamVerifier\<close>\<close>

definition zero_verifier :: verifier where
  "zero_verifier = \<lparr>vRes = empty_result, vPrev = None, vBroken = False\<rparr>"

definition NewStreamVerifierFrom :: "int \<Rightarrow> string \<Rightarrow> verifier" where
  "NewStreamVerifierFrom seq hash =
     \<lparr>vRes = empty_result\<lparr>rBaseSeq := seq, rHeadSeq := seq, rHeadHash := hash\<rparr>,
      vPrev = Some (seq, hash), vBroken = False\<rparr>"

definition broke :: "verifier \<Rightarrow> int \<Rightarrow> reason \<Rightarrow> verifier" where
  "broke v seq why =
     v\<lparr>vRes := (vRes v)\<lparr>rOK := False, rBrokenAt := Some seq, rReason := Some why\<rparr>, vBroken := True\<rparr>"

definition advance :: "verifier \<Rightarrow> segment \<Rightarrow> verifier" where
  "advance v seg =
     v\<lparr>vPrev := Some (Seq seg, Hash seg),
       vRes := (vRes v)\<lparr>rHeadSeq := Seq seg, rHeadHash := Hash seg\<rparr>\<rparr>"

definition Push :: "(string \<Rightarrow> string) \<Rightarrow> verifier \<Rightarrow> segment \<Rightarrow> verifier" where
  "Push sha v0 seg =
     (if vBroken v0 then v0
      else
        let v = v0\<lparr>vRes := (vRes v0)\<lparr>rCount := rCount (vRes v0) + 1,
                                     rRecords := rRecords (vRes v0) + Count seg\<rparr>\<rparr>
        in if HashRecords sha (Records seg) \<noteq> RecordsHash seg then broke v (Seq seg) RecordsAltered
           else if Count seg \<noteq> int (length (Records seg)) then broke v (Seq seg) CountMismatch
           else if segmentHash sha (Seq seg) (PrevHash seg) (Count seg) (FirstTS seg) (LastTS seg)
                     (RecordsHash seg) \<noteq> Hash seg
           then broke v (Seq seg) FieldAltered
           else case vPrev v of
               None \<Rightarrow>
                 (let v' = v\<lparr>vRes := (vRes v)\<lparr>rBaseSeq := Seq seg\<rparr>\<rparr>
                  in if Seq seg = 0 \<and> PrevHash seg \<noteq> GenesisPrev then broke v' (Seq seg) NotGenesis
                     else advance v' seg)
             | Some (pseq, phash) \<Rightarrow>
                 if Seq seg \<noteq> pseq + 1 then broke v (Seq seg) (Gap (pseq + 1) (Seq seg))
                 else if PrevHash seg \<noteq> phash then broke v (Seq seg) PrevMismatch
                 else advance v seg)"

definition Result :: "verifier \<Rightarrow> verify_result" where
  "Result v = (if \<not> vBroken v then (vRes v)\<lparr>rOK := True\<rparr> else vRes v)"

definition push_all :: "(string \<Rightarrow> string) \<Rightarrow> verifier \<Rightarrow> segment list \<Rightarrow> verifier" where
  "push_all sha v segs = foldl (Push sha) v segs"

definition Verify :: "(string \<Rightarrow> string) \<Rightarrow> segment list \<Rightarrow> verify_result" where
  "Verify sha segs = Result (push_all sha zero_verifier (sort_key Seq segs))"

subsection \<open>What an intact chain is\<close>

text \<open>A segment whose own hashes are right.\<close>

definition sound :: "(string \<Rightarrow> string) \<Rightarrow> segment \<Rightarrow> bool" where
  "sound sha s \<longleftrightarrow> RecordsHash s = HashRecords sha (Records s) \<and> Count s = int (length (Records s)) \<and>
     Hash s = segmentHash sha (Seq s) (PrevHash s) (Count s) (FirstTS s) (LastTS s) (RecordsHash s)"

definition linked :: "(int \<times> string) option \<Rightarrow> segment \<Rightarrow> bool" where
  "linked prev s = (case prev of
     None \<Rightarrow> Seq s = 0 \<longrightarrow> PrevHash s = GenesisPrev
   | Some (pseq, phash) \<Rightarrow> Seq s = pseq + 1 \<and> PrevHash s = phash)"

fun intact :: "(string \<Rightarrow> string) \<Rightarrow> (int \<times> string) option \<Rightarrow> segment list \<Rightarrow> bool" where
  "intact sha prev [] = True"
| "intact sha prev (s # ss) = (sound sha s \<and> linked prev s \<and> intact sha (Some (Seq s, Hash s)) ss)"

lemma Push_broken [simp]: "vBroken v \<Longrightarrow> Push sha v s = v"
  by (simp add: Push_def)

lemma push_all_broken [simp]: "vBroken v \<Longrightarrow> push_all sha v ss = v"
  by (induction ss) (auto simp: push_all_def)

lemma push_all_Cons: "push_all sha v (s # ss) = push_all sha (Push sha v s) ss"
  by (simp add: push_all_def)

text \<open>One push keeps the walk going exactly when the segment is sound and linked.\<close>

lemma Push_not_broken:
  assumes "\<not> vBroken v"
  shows "\<not> vBroken (Push sha v s) \<longleftrightarrow> sound sha s \<and> linked (vPrev v) s"
  using assms
  by (auto simp: Push_def Let_def broke_def advance_def sound_def linked_def split: option.splits)

lemma Push_state:
  assumes "\<not> vBroken v" and "\<not> vBroken (Push sha v s)"
  shows "vPrev (Push sha v s) = Some (Seq s, Hash s) \<and>
    rHeadHash (vRes (Push sha v s)) = Hash s \<and> rHeadSeq (vRes (Push sha v s)) = Seq s \<and>
    rCount (vRes (Push sha v s)) = rCount (vRes v) + 1 \<and>
    rRecords (vRes (Push sha v s)) = rRecords (vRes v) + Count s \<and>
    rBaseSeq (vRes (Push sha v s)) = (if vPrev v = None then Seq s else rBaseSeq (vRes v))"
  using assms
  by (auto simp: Push_def Let_def broke_def advance_def split: option.splits if_splits)

lemma push_all_intact:
  "\<not> vBroken v \<Longrightarrow> \<not> vBroken (push_all sha v ss) \<longleftrightarrow> intact sha (vPrev v) ss"
proof (induction ss arbitrary: v)
  case Nil
  then show ?case by (simp add: push_all_def)
next
  case (Cons s ss)
  show ?case
  proof (cases "vBroken (Push sha v s)")
    case True
    with Cons.prems Push_not_broken [of v sha s] show ?thesis by (auto simp: push_all_Cons)
  next
    case False
    with Cons Push_not_broken [of v sha s] Push_state [of v sha s] show ?thesis
      by (simp add: push_all_Cons)
  qed
qed

lemma Result_OK: "rOK (Result v) \<longleftrightarrow> \<not> vBroken v \<or> rOK (vRes v)"
  by (simp add: Result_def)

lemma broken_not_OK:
  "\<not> rOK (vRes v) \<Longrightarrow> \<not> rOK (vRes (push_all sha v ss))"
proof (induction ss arbitrary: v)
  case (Cons s ss)
  have "\<not> rOK (vRes (Push sha v s))"
    using Cons.prems by (auto simp: Push_def Let_def broke_def advance_def split: option.splits)
  with Cons.IH show ?case by (simp add: push_all_Cons)
qed (simp add: push_all_def)

lemma walk_OK_iff:
  "\<not> vBroken v \<Longrightarrow> \<not> rOK (vRes v) \<Longrightarrow> rOK (Result (push_all sha v ss)) \<longleftrightarrow> intact sha (vPrev v) ss"
  using push_all_intact [of v sha ss] broken_not_OK [of v sha ss] by (auto simp: Result_OK)

lemma Verify_OK_iff: "rOK (Verify sha segs) \<longleftrightarrow> intact sha None (sort_key Seq segs)"
  using walk_OK_iff [of zero_verifier sha] by (simp add: Verify_def zero_verifier_def empty_result_def)

lemma push_all_result:
  assumes "\<not> vBroken v" and "intact sha (vPrev v) ss" and "ss \<noteq> []"
  shows "rHeadHash (vRes (push_all sha v ss)) = Hash (last ss) \<and>
    rHeadSeq (vRes (push_all sha v ss)) = Seq (last ss) \<and>
    rCount (vRes (push_all sha v ss)) = rCount (vRes v) + int (length ss) \<and>
    rRecords (vRes (push_all sha v ss)) = rRecords (vRes v) + sum_list (map Count ss) \<and>
    rBaseSeq (vRes (push_all sha v ss)) = (if vPrev v = None then Seq (hd ss) else rBaseSeq (vRes v))"
  using assms
proof (induction ss arbitrary: v)
  case (Cons s ss)
  then have ok: "\<not> vBroken (Push sha v s)" using Push_not_broken [of v sha s] by simp
  note st = Push_state [OF Cons.prems(1) ok]
  show ?case
  proof (cases "ss = []")
    case True
    with st show ?thesis by (simp add: push_all_def)
  next
    case False
    with Cons.IH [OF ok] Cons.prems st show ?thesis by (simp add: push_all_Cons)
  qed
qed simp

lemma intact_append:
  "intact sha prev (xs @ ys) \<longleftrightarrow> intact sha prev xs \<and>
     intact sha (if xs = [] then prev else Some (Seq (last xs), Hash (last xs))) ys"
  by (induction xs arbitrary: prev) auto

lemma intact_sound: "intact sha prev ss \<Longrightarrow> s \<in> set ss \<Longrightarrow> sound sha s"
  by (induction ss arbitrary: prev) auto

text \<open>Sequence numbers of an intact chain are contiguous.\<close>

lemma intact_seq:
  "intact sha prev ss \<Longrightarrow> i < length ss \<Longrightarrow> Seq (ss ! i) = Seq (hd ss) + int i"
proof (induction ss arbitrary: prev i)
  case (Cons s ss)
  show ?case
  proof (cases i)
    case (Suc j)
    with Cons.prems have "ss \<noteq> []" "Seq (ss ! j) = Seq (hd ss) + int j"
      using Cons.IH [of "Some (Seq s, Hash s)" j] by auto
    moreover from this Cons.prems have "Seq (hd ss) = Seq s + 1"
      by (cases ss) (auto simp: linked_def)
    ultimately show ?thesis using Suc by simp
  qed simp
qed simp

lemma intact_sorted:
  assumes "intact sha prev ss"
  shows "sorted (map Seq ss)" and "inj_on Seq (set ss)"
proof -
  show "sorted (map Seq ss)"
    using intact_seq [OF assms] by (auto simp: sorted_iff_nth_mono)
  show "inj_on Seq (set ss)"
    using intact_seq [OF assms] by (auto simp: inj_on_def in_set_conv_nth)
qed

lemma sort_intact:
  assumes "intact sha prev ss" and "mset segs = mset ss"
  shows "sort_key Seq segs = ss"
  using sort_key_inj_key_eq [OF assms(2)] intact_sorted [OF assms(1)] mset_eq_setD [OF assms(2)] by simp

subsection \<open>Injectivity of the serialisation\<close>

lemma line_eq:
  "CHR 0x0A \<notin> set p \<Longrightarrow> CHR 0x0A \<notin> set q \<Longrightarrow> p @ nl @ r = q @ nl @ r' \<longleftrightarrow> p = q \<and> r = r'"
proof (induction p arbitrary: q)
  case Nil
  then show ?case by (cases q) (auto simp: nl_def)
next
  case (Cons c p)
  then show ?case by (cases q) (auto simp: nl_def)
qed

lemma of_char_hex_digit: "n < 16 \<Longrightarrow> (of_char (hex_digit n) :: nat) = (if n < 10 then 48 + n else 87 + n)"
  by (simp add: hex_digit_def)

lemma hex_digit_inj: "m < 16 \<Longrightarrow> n < 16 \<Longrightarrow> hex_digit m = hex_digit n \<Longrightarrow> m = n"
proof -
  assume m: "m < 16" and n: "n < 16" and "hex_digit m = hex_digit n"
  then have "(if m < 10 then 48 + m else 87 + m) = (if n < 10 then 48 + n else 87 + n)"
    using of_char_hex_digit [OF m] of_char_hex_digit [OF n] by simp
  then show ?thesis by (simp split: if_splits)
qed

lemma of_char_small: "(of_char c :: nat) < 256"
  using of_char_mod_256 [of c, where ?'a = nat] by (metis mod_less_divisor zero_less_numeral)

lemma of_char_div_16: "(of_char c :: nat) div 16 < 16"
  using of_char_small [of c] by (simp add: less_mult_imp_div_less)

lemma hex_byte_inj: "hex_byte c = hex_byte d \<Longrightarrow> c = d"
proof -
  let ?n = "of_char c :: nat" and ?m = "of_char d :: nat"
  assume "hex_byte c = hex_byte d"
  then have "hex_digit (?n div 16) = hex_digit (?m div 16)" "hex_digit (?n mod 16) = hex_digit (?m mod 16)"
    by (simp_all add: hex_byte_def Let_def)
  then have "?n div 16 = ?m div 16" "?n mod 16 = ?m mod 16"
    using of_char_div_16 by (auto intro!: hex_digit_inj)
  then have "?n = ?m" by (metis div_mult_mod_eq)
  then show ?thesis by simp
qed

lemma hex_inj: "hex s = hex t \<Longrightarrow> s = t"
proof (induction s arbitrary: t)
  case Nil
  then show ?case by (cases t) (simp_all add: hex_def hex_byte_def Let_def)
next
  case (Cons c s)
  then obtain d t' where t: "t = d # t'"
    by (cases t) (simp_all add: hex_def hex_byte_def Let_def)
  with Cons.prems have "hex_byte c = hex_byte d" "hex s = hex t'"
    by (simp_all add: hex_def hex_byte_def Let_def)
  with t Cons.IH hex_byte_inj show ?case by blast
qed

lemma length_hex [simp]: "length (hex s) = 2 * length s"
  by (induction s) (simp_all add: hex_def hex_byte_def Let_def)

lemma hex_digit_not_nl: "n < 16 \<Longrightarrow> hex_digit n \<noteq> CHR 0x0A"
proof
  assume n: "n < 16" and "hex_digit n = CHR 0x0A"
  then have "(of_char (hex_digit n) :: nat) = 10" by simp
  with of_char_hex_digit [OF n] show False by (simp split: if_splits)
qed

lemma hex_no_nl: "CHR 0x0A \<notin> set (hex s)"
proof (induction s)
  case (Cons c s)
  have "CHR 0x0A \<notin> set (hex_byte c)"
    using hex_digit_not_nl [OF of_char_div_16 [of c], THEN not_sym]
      hex_digit_not_nl [of "of_char c mod 16", THEN not_sym]
    by (auto simp: hex_byte_def Let_def)
  with Cons show ?case by (simp add: hex_def)
qed (simp add: hex_def)

lemma concat_map_inj:
  "(\<And>x. length (f x) = n) \<Longrightarrow> 0 < n \<Longrightarrow> concat (map f xs) = concat (map f ys) \<Longrightarrow> map f xs = map f ys"
proof (induction xs arbitrary: ys)
  case Nil
  have "f a \<noteq> []" for a using Nil.prems(1) [of a] Nil.prems(2) by auto
  with Nil.prems(3) show ?case by (cases ys) auto
next
  case (Cons x xs)
  have "f x \<noteq> []" using Cons.prems(1) [of x] Cons.prems(2) by auto
  with Cons.prems(3) obtain y ys' where "ys = y # ys'" by (cases ys) auto
  with Cons show ?case by simp
qed

subsection \<open>Equal hashes, equal contents\<close>

text \<open>Two different texts of \<open>A\<close> and \<open>B\<close> with the same hash.\<close>

definition collides :: "(string \<Rightarrow> string) \<Rightarrow> string set \<Rightarrow> string set \<Rightarrow> bool" where
  "collides sha A B \<longleftrightarrow> (\<exists>x \<in> A. \<exists>y \<in> B. x \<noteq> y \<and> sha x = sha y)"

text \<open>The texts that verifying a segment hashes.\<close>

definition hashed :: "(string \<Rightarrow> string) \<Rightarrow> segment \<Rightarrow> string set" where
  "hashed sha s = insert (preimage (Seq s) (PrevHash s) (Count s) (FirstTS s) (LastTS s) (RecordsHash s))
     (insert (concat (map sha (Records s))) (set (Records s)))"

lemma collides_mono: "collides sha A B \<Longrightarrow> A \<subseteq> A' \<Longrightarrow> B \<subseteq> B' \<Longrightarrow> collides sha A' B'"
  by (auto simp: collides_def)

lemma map_sha_eq:
  "map sha xs = map sha ys \<Longrightarrow> \<not> collides sha (set xs) (set ys) \<Longrightarrow> xs = ys"
proof (induction xs arbitrary: ys)
  case (Cons x xs)
  then obtain y ys' where ys: "ys = y # ys'" by (cases ys) auto
  have "\<not> collides sha (set xs) (set ys')"
    using Cons.prems(2) by (auto simp: ys collides_def)
  with Cons ys have "xs = ys'" by simp
  moreover have "x = y" using Cons.prems by (auto simp: ys collides_def)
  ultimately show ?case by (simp add: ys)
qed simp

lemma same_suffix: "x @ r = x' @ r' \<Longrightarrow> length r = length r' \<Longrightarrow> r = r'"
  by (metis append_eq_append_conv)

lemma preimage_fields:
  assumes "preimage sq p c f l r = preimage sq' p' c' f' l' r'"
    and "CHR 0x0A \<notin> set p" and "CHR 0x0A \<notin> set p'" and "length r = length r'"
  shows "sq = sq' \<and> p = p' \<and> r = r'"
proof -
  let ?tail = "\<lambda>c f l r. ''count:'' @ itoa c @ nl @ ''first:'' @ f @ nl @ ''last:'' @ l @ nl @ ''records:'' @ r @ nl"
  from assms(1) have "itoa sq @ nl @ (''prev:'' @ p @ nl @ ?tail c f l r) =
      itoa sq' @ nl @ (''prev:'' @ p' @ nl @ ?tail c' f' l' r')"
    by (simp add: preimage_def)
  then have sq: "sq = sq'" and "p @ nl @ ?tail c f l r = p' @ nl @ ?tail c' f' l' r'"
    using line_eq [OF itoa_no_newline itoa_no_newline] by (auto simp: itoa_inj)
  then have "p = p'" and "?tail c f l r = ?tail c' f' l' r'"
    using line_eq [OF assms(2,3)] by auto
  then have "(''count:'' @ itoa c @ nl @ ''first:'' @ f @ nl @ ''last:'' @ l @ nl @ ''records:'') @ (r @ nl) =
      (''count:'' @ itoa c' @ nl @ ''first:'' @ f' @ nl @ ''last:'' @ l' @ nl @ ''records:'') @ (r' @ nl)"
    by (simp only: append_assoc)
  then have "r @ nl = r' @ nl" by (rule same_suffix) (simp add: assms(4))
  with \<open>p = p'\<close> sq show ?thesis by simp
qed

lemma same_hash_same_segment:
  assumes len: "\<And>x. length (sha x) = 32" and s: "sound sha s" and s': "sound sha s'"
    and eq: "Hash s = Hash s'" and p: "CHR 0x0A \<notin> set (PrevHash s)" "CHR 0x0A \<notin> set (PrevHash s')"
    and no: "\<not> collides sha (hashed sha s) (hashed sha s')"
  shows "Seq s = Seq s' \<and> PrevHash s = PrevHash s' \<and> Records s = Records s'"
proof -
  let ?pre = "\<lambda>s. preimage (Seq s) (PrevHash s) (Count s) (FirstTS s) (LastTS s) (RecordsHash s)"
  from s s' eq have "sha (?pre s) = sha (?pre s')"
    by (auto simp: sound_def segmentHash_def dest: hex_inj)
  with no have "?pre s = ?pre s'" by (auto simp: collides_def hashed_def)
  moreover have "length (RecordsHash s) = length (RecordsHash s')"
    using s s' by (simp add: sound_def HashRecords_def len)
  ultimately have fields: "Seq s = Seq s'" "PrevHash s = PrevHash s'" "RecordsHash s = RecordsHash s'"
    using preimage_fields p by blast+
  from fields(3) s s' have "sha (concat (map sha (Records s))) = sha (concat (map sha (Records s')))"
    by (auto simp: sound_def HashRecords_def dest: hex_inj)
  with no have "concat (map sha (Records s)) = concat (map sha (Records s'))"
    by (auto simp: collides_def hashed_def)
  with len have "map sha (Records s) = map sha (Records s')"
    by (intro concat_map_inj [of sha 32]) auto
  moreover have "\<not> collides sha (set (Records s)) (set (Records s'))"
    using no by (auto simp: collides_def hashed_def)
  ultimately show ?thesis using fields map_sha_eq by blast
qed

text \<open>The link to the predecessor carries no line break: it is empty or hexadecimal.\<close>

lemma intact_prev_no_nl:
  assumes "intact sha None ss" and "Seq (hd ss) = 0" and "s \<in> set ss"
  shows "CHR 0x0A \<notin> set (PrevHash s)"
proof -
  from assms(3) obtain a b where ss: "ss = a @ s # b" by (metis split_list)
  show ?thesis
  proof (cases a rule: rev_cases)
    case Nil
    with assms ss show ?thesis by (simp add: linked_def GenesisPrev_def)
  next
    case (snoc a' p)
    with assms(1) ss have "sound sha p" "PrevHash s = Hash p"
      by (auto simp: intact_append linked_def)
    then show ?thesis by (simp add: sound_def segmentHash_def hex_no_nl)
  qed
qed

abbreviation chain_hashed :: "(string \<Rightarrow> string) \<Rightarrow> segment list \<Rightarrow> string set" where
  "chain_hashed sha ss \<equiv> \<Union> (hashed sha ` set ss)"

lemma intact_prefix: "intact sha prev (xs @ [s]) \<Longrightarrow> intact sha prev xs"
  by (simp add: intact_append)

lemma intact_last_link:
  "intact sha prev (xs @ [s]) \<Longrightarrow> xs \<noteq> [] \<Longrightarrow> PrevHash s = Hash (last xs) \<and> Seq s = Seq (last xs) + 1"
  by (simp add: intact_append linked_def)

lemma same_head_same_chain:
  assumes len: "\<And>x. length (sha x) = 32"
  shows "intact sha None xs \<Longrightarrow> intact sha None ys \<Longrightarrow> xs \<noteq> [] \<Longrightarrow> ys \<noteq> [] \<Longrightarrow>
    Seq (hd xs) = 0 \<Longrightarrow> Seq (hd ys) = 0 \<Longrightarrow> Hash (last xs) = Hash (last ys) \<Longrightarrow>
    \<not> collides sha (chain_hashed sha xs) (chain_hashed sha ys) \<Longrightarrow>
    map (\<lambda>s. (Seq s, Records s)) xs = map (\<lambda>s. (Seq s, Records s)) ys"
proof (induction xs arbitrary: ys rule: rev_induct)
  case (snoc s xs)
  obtain ys' s' where ys: "ys = ys' @ [s']" using snoc.prems(4) by (metis rev_exhaust)
  have "\<not> collides sha (hashed sha s) (hashed sha s')"
    using snoc.prems(8) collides_mono [of sha "hashed sha s" "hashed sha s'"] by (auto simp: ys)
  then have same: "Seq s = Seq s'" "PrevHash s = PrevHash s'" "Records s = Records s'"
    using same_hash_same_segment [of sha, OF len, of s s'] snoc.prems(1,2,5,6,7) ys
      intact_sound [OF snoc.prems(1)] intact_sound [OF snoc.prems(2)]
      intact_prev_no_nl [OF snoc.prems(1,5)] intact_prev_no_nl [OF snoc.prems(2,6)]
    by auto
  have "Seq s = int (length xs)" "Seq s' = int (length ys')"
    using intact_seq [OF snoc.prems(1), of "length xs"] intact_seq [OF snoc.prems(2), of "length ys'"]
      snoc.prems(5,6) by (simp_all add: ys)
  with same(1) have lens: "length xs = length ys'" by simp
  show ?case
  proof (cases "xs = []")
    case True
    with lens same show ?thesis by (simp add: ys)
  next
    case False
    with lens have "ys' \<noteq> []" by auto
    moreover have "Hash (last xs) = Hash (last ys')"
      using intact_last_link snoc.prems(1,2) False \<open>ys' \<noteq> []\<close> same(2) ys by metis
    moreover have "\<not> collides sha (chain_hashed sha xs) (chain_hashed sha ys')"
      using snoc.prems(8) collides_mono [of sha "chain_hashed sha xs" "chain_hashed sha ys'"]
      by (auto simp: ys)
    ultimately have "map (\<lambda>s. (Seq s, Records s)) xs = map (\<lambda>s. (Seq s, Records s)) ys'"
      using snoc.IH [of ys'] snoc.prems intact_prefix False ys by (simp add: intact_append)
    with same show ?thesis by (simp add: ys)
  qed
qed simp


subsection \<open>Chains built by the shipper\<close>

text \<open>The batches a shipper appends, one \<^const>\<open>BuildSegment\<close> after the other.\<close>

fun build_chain :: "(string \<Rightarrow> string) \<Rightarrow> segment option \<Rightarrow> (string list \<times> string \<times> string) list \<Rightarrow> segment list" where
  "build_chain sha prev [] = []"
| "build_chain sha prev ((records, f, l) # bs) =
     (let s = BuildSegment sha prev records f l in s # build_chain sha (Some s) bs)"

abbreviation link_of :: "segment option \<Rightarrow> (int \<times> string) option" where
  "link_of \<equiv> map_option (\<lambda>p. (Seq p, Hash p))"

lemma BuildSegment_sound: "sound sha (BuildSegment sha prev records f l)"
  by (simp add: sound_def BuildSegment_def Let_def split: option.splits)

lemma BuildSegment_linked: "linked (link_of prev) (BuildSegment sha prev records f l)"
  by (simp add: linked_def BuildSegment_def Let_def split: option.splits)

lemma build_chain_intact: "intact sha (link_of prev) (build_chain sha prev bs)"
proof (induction sha prev bs rule: build_chain.induct)
  case (2 sha prev records f l bs)
  let ?s = "BuildSegment sha prev records f l"
  from 2 [of ?s] have "intact sha (Some (Seq ?s, Hash ?s)) (build_chain sha (Some ?s) bs)" by simp
  then show ?case
    using BuildSegment_sound [of sha prev records f l] BuildSegment_linked [of prev sha records f l]
    by (simp add: Let_def)
qed simp

lemma build_chain_records: "map Records (build_chain sha prev bs) = map fst bs"
  by (induction sha prev bs rule: build_chain.induct) (auto simp: BuildSegment_def Let_def split: option.splits)

lemma build_chain_count: "map Count (build_chain sha prev bs) = map (\<lambda>b. int (length (fst b))) bs"
  by (induction sha prev bs rule: build_chain.induct) (auto simp: BuildSegment_def Let_def split: option.splits)

lemma build_chain_length [simp]: "length (build_chain sha prev bs) = length bs"
  using arg_cong [OF build_chain_records, of length] by simp

lemma Verify_chain_result:
  assumes "intact sha None ss" and "mset segs = mset ss" and "ss \<noteq> []"
  shows "rOK (Verify sha segs)" and "rHeadHash (Verify sha segs) = Hash (last ss)"
    and "rCount (Verify sha segs) = int (length ss)"
    and "rRecords (Verify sha segs) = sum_list (map Count ss)"
    and "rBaseSeq (Verify sha segs) = Seq (hd ss)"
proof -
  let ?v = "push_all sha zero_verifier ss"
  have z: "\<not> vBroken zero_verifier" "vPrev zero_verifier = None" "rCount (vRes zero_verifier) = 0"
    "rRecords (vRes zero_verifier) = 0"
    by (simp_all add: zero_verifier_def empty_result_def)
  have run: "Verify sha segs = Result ?v"
    by (simp add: Verify_def sort_intact [OF assms(1,2)])
  show "rOK (Verify sha segs)"
    by (simp add: Verify_OK_iff sort_intact [OF assms(1,2)] assms(1))
  from push_all_result [of zero_verifier sha ss] z assms(1,3)
  show "rHeadHash (Verify sha segs) = Hash (last ss)"
    and "rCount (Verify sha segs) = int (length ss)"
    and "rRecords (Verify sha segs) = sum_list (map Count ss)"
    and "rBaseSeq (Verify sha segs) = Seq (hd ss)"
    by (simp_all add: run Result_def)
qed

text \<open>
  C35. Round trip. The segments a shipper builds from any batches, read back in any order,
  verify; the verifier reports their number, the number of records in all batches, base
  sequence 0 and the hash of the last one.
\<close>

theorem built_chain_verifies:
  assumes "mset segs = mset (build_chain sha None bs)" and "bs \<noteq> []"
  shows "rOK (Verify sha segs) \<and> rCount (Verify sha segs) = int (length bs) \<and>
    rRecords (Verify sha segs) = sum_list (map (\<lambda>b. int (length (fst b))) bs) \<and>
    rBaseSeq (Verify sha segs) = 0 \<and>
    rHeadHash (Verify sha segs) = Hash (last (build_chain sha None bs))"
proof -
  let ?c = "build_chain sha None bs"
  have "intact sha None ?c" using build_chain_intact [of sha None bs] by simp
  moreover have "?c \<noteq> []" using assms(2) build_chain_length [of sha None bs] by (metis length_0_conv)
  moreover have "Seq (hd ?c) = 0"
    using assms(2) by (cases bs) (auto simp: BuildSegment_def Let_def)
  ultimately show ?thesis
    using Verify_chain_result [OF _ assms(1)] by (simp add: build_chain_count)
qed

theorem built_chain_verifies_witness:
  "rOK (Verify (\<lambda>x. x) (rev (build_chain (\<lambda>x. x) None [([''a'', ''b''], ''t0'', ''t1''), ([''c''], ''t2'', ''t2'')])))"
  using built_chain_verifies [of "rev (build_chain (\<lambda>x. x) None [([''a'', ''b''], ''t0'', ''t1''), ([''c''], ''t2'', ''t2'')])"
      "\<lambda>x. x" "[([''a'', ''b''], ''t0'', ''t1''), ([''c''], ''t2'', ''t2'')]"]
  by simp

subsection \<open>Tamper evidence\<close>

lemma Verify_intact:
  assumes "rOK (Verify sha segs)" and "segs \<noteq> []"
  shows "intact sha None (sort_key Seq segs)" and "rHeadHash (Verify sha segs) = Hash (last (sort_key Seq segs))"
    and "rBaseSeq (Verify sha segs) = Seq (hd (sort_key Seq segs))"
proof -
  show i: "intact sha None (sort_key Seq segs)" using assms(1) by (simp add: Verify_OK_iff)
  have "mset segs = mset (sort_key Seq segs)" by simp
  moreover have "sort_key Seq segs \<noteq> []"
    using assms(2) by (metis length_sort length_0_conv)
  ultimately show "rHeadHash (Verify sha segs) = Hash (last (sort_key Seq segs))"
    and "rBaseSeq (Verify sha segs) = Seq (hd (sort_key Seq segs))"
    using Verify_chain_result [OF i] by blast+
qed

text \<open>
  C34. Tamper evidence. If two archives verify from the genesis segment and show the same
  head hash, then they hold the same records in the same segments, or two different texts
  hashed while verifying them collide. Nothing is asked of the hash but its length.
\<close>

theorem same_head_same_records:
  assumes "\<And>x. length (sha x) = 32"
    and "xs \<noteq> []" and "rOK (Verify sha xs)" and "rBaseSeq (Verify sha xs) = 0"
    and "ys \<noteq> []" and "rOK (Verify sha ys)" and "rBaseSeq (Verify sha ys) = 0"
    and "rHeadHash (Verify sha xs) = rHeadHash (Verify sha ys)"
  shows "map (\<lambda>s. (Seq s, Records s)) (sort_key Seq xs) = map (\<lambda>s. (Seq s, Records s)) (sort_key Seq ys) \<or>
    collides sha (\<Union> (hashed sha ` set xs)) (\<Union> (hashed sha ` set ys))"
proof -
  have ne: "sort_key Seq xs \<noteq> []" "sort_key Seq ys \<noteq> []"
    using assms(2,5) by (metis length_sort length_0_conv)+
  note x = Verify_intact [OF assms(3,2)] and y = Verify_intact [OF assms(6,5)]
  show ?thesis
    using same_head_same_chain [OF assms(1) x(1) y(1) ne] x(2,3) y(2,3) assms(4,7,8) by auto
qed

definition pad_sha :: "string \<Rightarrow> string" where
  "pad_sha x = take 32 (x @ replicate 32 CHR 0x00)"

theorem same_head_same_records_witness:
  "map (\<lambda>s. (Seq s, Records s)) (sort_key Seq (build_chain pad_sha None [([''a''], ''t'', ''t'')])) =
     map (\<lambda>s. (Seq s, Records s)) (sort_key Seq (rev (build_chain pad_sha None [([''a''], ''t'', ''t'')]))) \<or>
   collides pad_sha (\<Union> (hashed pad_sha ` set (build_chain pad_sha None [([''a''], ''t'', ''t'')])))
     (\<Union> (hashed pad_sha ` set (rev (build_chain pad_sha None [([''a''], ''t'', ''t'')]))))"
proof -
  let ?c = "build_chain pad_sha None [([''a''], ''t'', ''t'')]"
  have i: "intact pad_sha None ?c" using build_chain_intact [of pad_sha None "[([''a''], ''t'', ''t'')]"] by simp
  have ne: "?c \<noteq> []" and hd: "Seq (hd ?c) = 0" by (simp_all add: BuildSegment_def Let_def)
  have len: "\<And>x. length (pad_sha x) = 32" by (simp add: pad_sha_def)
  note a = Verify_chain_result [OF i refl ne] and b = Verify_chain_result [OF i mset_rev ne]
  show ?thesis
    by (rule same_head_same_records [OF len ne a(1) _ _ b(1)])
      (simp_all only: a(2,5) b(2,5) hd ne rev_is_Nil_conv not_False_eq_True)
qed

text \<open>
  Deletion. Taking one or more segments out of the middle of a chain that verifies is
  always noticed, whatever the hash function: what is left does not verify.
\<close>

theorem removed_middle_detected:
  assumes "rOK (Verify sha (as @ ms @ cs))" and "sorted (map Seq (as @ ms @ cs))"
    and "as \<noteq> []" and "ms \<noteq> []" and "cs \<noteq> []"
  shows "\<not> rOK (Verify sha (as @ cs))"
proof
  assume "rOK (Verify sha (as @ cs))"
  moreover have "sorted (map Seq (as @ cs))" using assms(2) by (auto simp: sorted_append)
  ultimately have short: "intact sha None (as @ cs)"
    by (simp add: Verify_OK_iff sort_key_id_if_sorted)
  have long: "intact sha None (as @ ms @ cs)"
    using assms(1,2) by (simp add: Verify_OK_iff sort_key_id_if_sorted)
  have "Seq ((as @ cs) ! length as) = Seq (hd as) + int (length as)"
    using intact_seq [OF short, of "length as"] assms(3,5) by simp
  moreover have "Seq ((as @ ms @ cs) ! (length as + length ms)) = Seq (hd as) + int (length as + length ms)"
    using intact_seq [OF long, of "length as + length ms"] assms(3,5) by simp
  moreover have "(as @ ms @ cs) ! (length as + length ms) = (as @ cs) ! length as"
    by (simp add: nth_append)
  ultimately show False using assms(4) by simp
qed

theorem removed_middle_detected_witness:
  "\<not> rOK (Verify (\<lambda>x. x) [build_chain (\<lambda>x. x) None [([''a''], ''t'', ''t''), ([''b''], ''t'', ''t''), ([''c''], ''t'', ''t'')] ! 0,
     build_chain (\<lambda>x. x) None [([''a''], ''t'', ''t''), ([''b''], ''t'', ''t''), ([''c''], ''t'', ''t'')] ! 2])"
proof -
  let ?bs = "[([''a''], ''t'', ''t''), ([''b''], ''t'', ''t''), ([''c''], ''t'', ''t'')]"
  let ?c = "build_chain (\<lambda>x. x) None ?bs"
  have i: "intact (\<lambda>x. x) None ?c" using build_chain_intact [of "\<lambda>x. x" None ?bs] by simp
  have split: "[?c ! 0] @ [?c ! 1] @ [?c ! 2] = ?c" by (simp add: Let_def)
  have ne: "?c \<noteq> []" by (simp add: Let_def)
  show ?thesis
    using removed_middle_detected [of "\<lambda>x. x" "[?c ! 0]" "[?c ! 1]" "[?c ! 2]", unfolded split]
      Verify_chain_result(1) [OF i refl ne] intact_sorted(1) [OF i] by simp
qed

subsection \<open>Resuming\<close>

text \<open>
  Resuming. A verifier resumed from the head of a verified prefix accepts the rest exactly
  when the whole chain verifies, and then reports the same head.
\<close>

theorem resume_equals_full:
  assumes "rOK (Result (push_all sha zero_verifier xs))" and "xs \<noteq> []"
  shows "(rOK (Result (push_all sha (NewStreamVerifierFrom (Seq (last xs)) (Hash (last xs))) ys)) \<longleftrightarrow>
      rOK (Result (push_all sha zero_verifier (xs @ ys)))) \<and>
    (rOK (Result (push_all sha zero_verifier (xs @ ys))) \<longrightarrow>
      rHeadHash (Result (push_all sha (NewStreamVerifierFrom (Seq (last xs)) (Hash (last xs))) ys)) =
      rHeadHash (Result (push_all sha zero_verifier (xs @ ys))))"
proof -
  let ?r = "NewStreamVerifierFrom (Seq (last xs)) (Hash (last xs))"
  have z: "\<not> vBroken zero_verifier" "\<not> rOK (vRes zero_verifier)" "vPrev zero_verifier = None"
    by (simp_all add: zero_verifier_def empty_result_def)
  have r: "\<not> vBroken ?r" "\<not> rOK (vRes ?r)" "vPrev ?r = Some (Seq (last xs), Hash (last xs))"
      "rHeadHash (vRes ?r) = Hash (last xs)"
    by (simp_all add: NewStreamVerifierFrom_def empty_result_def)
  have xs: "intact sha None xs" using assms(1) walk_OK_iff [OF z(1,2)] z(3) by simp
  have rest: "rOK (Result (push_all sha ?r ys)) \<longleftrightarrow> intact sha (Some (Seq (last xs), Hash (last xs))) ys"
    using walk_OK_iff [OF r(1,2)] r(3) by simp
  have full: "rOK (Result (push_all sha zero_verifier (xs @ ys))) \<longleftrightarrow>
      intact sha (Some (Seq (last xs), Hash (last xs))) ys"
    using walk_OK_iff [OF z(1,2)] z(3) xs assms(2) by (simp add: intact_append)
  have headz: "rHeadHash (Result (push_all sha zero_verifier (xs @ ys))) = Hash (last (xs @ ys))"
    if "intact sha None (xs @ ys)"
    using push_all_result [OF z(1)] z(3) that assms(2) by (simp add: Result_def)
  have headr: "rHeadHash (Result (push_all sha ?r ys)) = Hash (last (xs @ ys))"
    if "intact sha (Some (Seq (last xs), Hash (last xs))) ys"
    using push_all_result [OF r(1)] r(3,4) that
    by (cases "ys = []") (simp_all add: Result_def push_all_def)
  show ?thesis
    using rest full headz headr xs assms(2) by (auto simp: intact_append)
qed

theorem resume_equals_full_witness:
  "rOK (Result (push_all (\<lambda>x. x)
     (NewStreamVerifierFrom 0 (Hash (hd (build_chain (\<lambda>x. x) None [([''a''], ''t'', ''t''), ([''b''], ''t'', ''t'')]))))
     (tl (build_chain (\<lambda>x. x) None [([''a''], ''t'', ''t''), ([''b''], ''t'', ''t'')]))))"
proof -
  let ?bs = "[([''a''], ''t'', ''t''), ([''b''], ''t'', ''t'')]"
  let ?c = "build_chain (\<lambda>x. x) None ?bs"
  have i: "intact (\<lambda>x. x) None ?c" using build_chain_intact [of "\<lambda>x. x" None ?bs] by simp
  then have ih: "intact (\<lambda>x. x) None [hd ?c]" by (simp add: Let_def)
  have z: "\<not> vBroken zero_verifier" "\<not> rOK (vRes zero_verifier)" "vPrev zero_verifier = None"
    by (simp_all add: zero_verifier_def empty_result_def)
  have ok: "rOK (Result (push_all (\<lambda>x. x) zero_verifier [hd ?c]))"
    and full: "rOK (Result (push_all (\<lambda>x. x) zero_verifier ?c))"
    using walk_OK_iff [OF z(1,2)] z(3) i ih by simp_all
  have split: "[hd ?c] @ tl ?c = ?c" and seq: "Seq (hd ?c) = 0"
    by (simp_all add: Let_def BuildSegment_def)
  show ?thesis
    using resume_equals_full [OF ok, of "tl ?c", unfolded split] full seq by simp
qed

subsection \<open>The serialisation and line breaks\<close>

text \<open>
  The serialised fields are not self-delimiting for timestamps that carry line breaks: two
  different pairs of timestamps give the same text and so the same hash.
\<close>

theorem timestamps_with_line_breaks_collide:
  "preimage sq p cnt (''a'' @ nl @ ''last:b'') ''c'' rh = preimage sq p cnt ''a'' (''b'' @ nl @ ''last:c'') rh \<and>
   segmentHash sha sq p cnt (''a'' @ nl @ ''last:b'') ''c'' rh =
   segmentHash sha sq p cnt ''a'' (''b'' @ nl @ ''last:c'') rh \<and> (''a'' @ nl @ ''last:b'', ''c'') \<noteq> (''a'', ''b'' @ nl @ ''last:c'')"
  by (simp add: segmentHash_def preimage_def nl_def)

end
