(* ===== verification/Machine.thy ===== *)
theory Machine
  imports Main
begin

text \<open>
  The interface of the stateful components: a state that a sequence of events drives, one
  operation per event. A component proves its invariant for one event and, where it has an
  abstract specification, that one event is simulated there; what holds after every
  sequence of events is proved here once and reached by interpretation.
\<close>

locale machine =
  fixes init :: 's
    and step :: "'s \<Rightarrow> 'e \<Rightarrow> 's"
    and inv :: "'s \<Rightarrow> bool"
  assumes inv_init: "inv init"
    and inv_step: "inv s \<Longrightarrow> inv (step s e)"
begin

lemma inv_run_from: "inv s \<Longrightarrow> inv (foldl step s es)"
  by (induction es arbitrary: s) (simp_all add: inv_step)

lemma inv_run: "inv (foldl step init es)"
  by (rule inv_run_from) (rule inv_init)

end

text \<open>A machine whose states stand for the states of a simpler one.\<close>

locale simulation = machine init step inv
  for init :: 's and step :: "'s \<Rightarrow> 'e \<Rightarrow> 's" and inv :: "'s \<Rightarrow> bool" +
  fixes abs :: "'s \<Rightarrow> 'a"
    and astep :: "'a \<Rightarrow> 'e \<Rightarrow> 'a"
  assumes abs_step: "inv s \<Longrightarrow> abs (step s e) = astep (abs s) e"
begin

lemma abs_run_from: "inv s \<Longrightarrow> abs (foldl step s es) = foldl astep (abs s) es"
  by (induction es arbitrary: s) (simp_all add: abs_step inv_step)

lemma abs_run: "abs (foldl step init es) = foldl astep (abs init) es"
  by (rule abs_run_from) (rule inv_init)

end

end
