(* ===== verification/Accounts.thy ===== *)
theory Accounts
  imports Prelude Machine
begin

text \<open>
  The directory of AWS accounts: \<^verbatim>\<open>console-api/internal/accounts/accounts.go\<close>.

  A \<open>directory\<close> holds the Go struct's four maps; \<open>Observe\<close>, \<open>Forget\<close> and \<open>replace_dir\<close>
  are its updates (each runs under the write lock, so an update is one step), the other
  operations read it. A namespace is its name and labels. SHA-256 is the parameter \<open>sha\<close>.
\<close>

subsection \<open>Names\<close>

definition LabelAccountID :: string where "LabelAccountID = ''openinfra.dev/account-id''"
definition LabelAccountHome :: string where "LabelAccountHome = ''openinfra.dev/account-home''"
definition LabelAccountStatus :: string where "LabelAccountStatus = ''openinfra.dev/account-status''"
definition StatusSuspended :: string where "StatusSuspended = ''SUSPENDED''"
definition DefaultManagementHome :: string where "DefaultManagementHome = ''open-infra-console''"
definition ManagementAccount :: string where "ManagementAccount = ''000000000000''"

definition PlatformNamespaces :: "string list" where
  "PlatformNamespaces =
     [''argocd'', ''cdi'', ''cert-manager'', ''chaos-mesh'', ''cnpg-system'', ''crossplane-system'',
      ''dcgm-exporter'', ''gpu-operator'', ''keda'', ''kourier-system'', ''kubevirt'', ''kyverno'',
      ''lakehouse'', ''longhorn-system'', ''mail'', ''mariadb-operator'', ''metallb-system'', ''minio'',
      ''monitoring'', ''nats'', ''nvidia-device-plugin'', ''open-infra-authz'', ''open-infra-aws-shim'',
      ''open-infra-prepull'', ''redis'', ''sealed-secrets'', ''vault'', ''velero'']"

definition PlatformPrefixes :: "string list" where
  "PlatformPrefixes = [''kube-'', ''knative-'', ''openinfra-'']"

definition ManagementNamespaces :: "string list" where
  "ManagementNamespaces =
     [DefaultManagementHome, ''open-infra-cfn'', ''open-infra-ecr'', ''open-infra-ecs'',
      ''open-infra-open-appsync'', ''open-infra-rds'', ''open-infra-s3'']"

definition IsPlatformNamespace :: "string \<Rightarrow> bool" where
  "IsPlatformNamespace ns \<longleftrightarrow>
     ns \<in> set PlatformNamespaces \<or> (\<exists>p \<in> set PlatformPrefixes. has_prefix ns p)"

subsection \<open>Account ids\<close>

definition ValidAccountID :: "string \<Rightarrow> bool" where
  "ValidAccountID s \<longleftrightarrow> length s = 12 \<and> list_all is_digit s"

text \<open>\<^verbatim>\<open>binary.BigEndian.Uint64\<close> and the verb \<^verbatim>\<open>%0<n>d\<close>.\<close>

definition be_nat :: "string \<Rightarrow> nat" where
  "be_nat bs = foldl (\<lambda>n c. n * 256 + of_char c) 0 bs"

definition pad_digits :: "nat \<Rightarrow> nat \<Rightarrow> string" where
  "pad_digits w n = (let d = nat_digits n in replicate (w - length d) CHR ''0'' @ d)"

definition DeriveAccountID :: "(string \<Rightarrow> string) \<Rightarrow> string \<Rightarrow> nat \<Rightarrow> string" where
  "DeriveAccountID sha homeNamespace attempt =
     (let txt = (if 0 < attempt then homeNamespace @ ''#'' @ itoa (int attempt) else homeNamespace)
      in CHR ''9'' # pad_digits 11 (be_nat (take 8 (sha txt)) mod 100000000000))"

fun newAccountID_loop ::
  "(string \<Rightarrow> string) \<Rightarrow> string \<Rightarrow> (string \<Rightarrow> bool) \<Rightarrow> nat \<Rightarrow> nat \<Rightarrow> string option" where
  "newAccountID_loop sha ns taken attempt 0 = None"
| "newAccountID_loop sha ns taken attempt (Suc left) =
     (let i = DeriveAccountID sha ns attempt
      in if \<not> taken i then Some i else newAccountID_loop sha ns taken (Suc attempt) left)"

text \<open>None is the error "no free account id after 16 attempts".\<close>

definition NewAccountID :: "(string \<Rightarrow> string) \<Rightarrow> string \<Rightarrow> (string \<Rightarrow> bool) \<Rightarrow> string option" where
  "NewAccountID sha homeNamespace taken = newAccountID_loop sha homeNamespace taken 0 16"

subsection \<open>The directory\<close>

record directory =
  management :: string
  byNS :: "string strmap"
  homes :: "string strmap"
  members :: "string list strmap"
  suspended :: "bool strmap"

record namespace =
  nsName :: string
  nsLabels :: "string strmap"

text \<open>\<^verbatim>\<open>ns.Labels[k]\<close>: the empty string when the label is absent.\<close>

definition label_of :: "namespace \<Rightarrow> string \<Rightarrow> string" where
  "label_of ns k = (case lookup (nsLabels ns) k of None \<Rightarrow> [] | Some v \<Rightarrow> v)"

definition NewDirectory :: "string \<Rightarrow> directory" where
  "NewDirectory mgmt =
     \<lparr>management = (if mgmt = [] then ManagementAccount else mgmt), byNS = [], homes = [],
      members = [], suspended = []\<rparr>"

definition IsManagement :: "directory \<Rightarrow> string \<Rightarrow> bool" where
  "IsManagement d account \<longleftrightarrow> account \<noteq> [] \<and> account = management d"

definition forgetLocked :: "directory \<Rightarrow> string \<Rightarrow> directory" where
  "forgetLocked d name =
     (case lookup (byNS d) name of
        None \<Rightarrow> d
      | Some i \<Rightarrow>
          let left = filter (\<lambda>n. n \<noteq> name) (slice_at (members d) i);
              d1 = d\<lparr>byNS := del name (byNS d), members := put i left (members d)\<rparr>;
              d2 = (if left = [] then d1\<lparr>members := del i (members d1), suspended := del i (suspended d1)\<rparr>
                    else d1)
          in if lookup (homes d2) i = Some name then d2\<lparr>homes := del i (homes d2)\<rparr> else d2)"

definition Forget :: "directory \<Rightarrow> string \<Rightarrow> directory" where
  "Forget d name = forgetLocked d name"

text \<open>The account a namespace's labels place it in.\<close>

definition Observe :: "directory \<Rightarrow> namespace \<Rightarrow> directory" where
  "Observe d ns =
     (let d1 = forgetLocked d (nsName ns); i = label_of ns LabelAccountID
      in if i = [] \<or> IsPlatformNamespace (nsName ns) then d1
         else
           let d2 = d1\<lparr>byNS := put (nsName ns) i (byNS d1),
                       members := put i (sort (slice_at (members d1) i @ [nsName ns])) (members d1)\<rparr>;
               d3 = (if label_of ns LabelAccountHome = ''true''
                     then d2\<lparr>homes := put i (nsName ns) (homes d2)\<rparr> else d2)
           in if label_of ns LabelAccountStatus = StatusSuspended
              then d3\<lparr>suspended := put i True (suspended d3)\<rparr> else d3)"

text \<open>\<^verbatim>\<open>replace\<close>: observe a fresh listing, then forget what it does not name.\<close>

definition replace_dir :: "directory \<Rightarrow> namespace list \<Rightarrow> directory" where
  "replace_dir d namespaces =
     (let listed = map nsName namespaces; d1 = foldl Observe d namespaces
      in foldl (\<lambda>d name. if name \<notin> set listed then forgetLocked d name else d) d1 (map fst (byNS d1)))"

definition AccountOf :: "directory \<Rightarrow> string \<Rightarrow> string" where
  "AccountOf d ns =
     (if ns = [] \<or> IsPlatformNamespace ns then []
      else case lookup (byNS d) ns of Some i \<Rightarrow> i | None \<Rightarrow> management d)"

definition Labeled :: "directory \<Rightarrow> string \<Rightarrow> bool" where
  "Labeled d ns \<longleftrightarrow> lookup (byNS d) ns \<noteq> None"

definition HomeOf :: "directory \<Rightarrow> string \<Rightarrow> string option" where
  "HomeOf d account =
     (case lookup (homes d) account of
        Some h \<Rightarrow> Some h
      | None \<Rightarrow> if IsManagement d account then Some DefaultManagementHome else None)"

definition NamespacesOf :: "directory \<Rightarrow> string \<Rightarrow> string list" where
  "NamespacesOf d account = slice_at (members d) account"

definition Suspended :: "directory \<Rightarrow> string \<Rightarrow> bool" where
  "Suspended d account \<longleftrightarrow> lookup (suspended d) account = Some True"

definition Accounts_of :: "directory \<Rightarrow> string list" where
  "Accounts_of d =
     (let out = sort (filter (\<lambda>i. i \<noteq> management d) (map fst (members d)))
      in if management d \<noteq> [] then management d # out else out)"

definition Known :: "directory \<Rightarrow> string \<Rightarrow> bool" where
  "Known d account \<longleftrightarrow> IsManagement d account \<or> lookup (members d) account \<noteq> None"

subsection \<open>Invariant\<close>

text \<open>
  The two maps between namespaces and accounts agree, an account's list is sorted, free of
  duplicates and not empty, only tenant namespaces with a non-empty id are recorded, homes
  belong to their account and only accounts with a namespace are suspended.
\<close>

definition dir_inv :: "directory \<Rightarrow> bool" where
  "dir_inv d \<longleftrightarrow>
     (\<forall>ns i. lookup (byNS d) ns = Some i \<longleftrightarrow> ns \<in> set (slice_at (members d) i)) \<and>
     (\<forall>i l. lookup (members d) i = Some l \<longrightarrow> l \<noteq> [] \<and> sorted l \<and> distinct l) \<and>
     (\<forall>i ns. lookup (homes d) i = Some ns \<longrightarrow> lookup (byNS d) ns = Some i) \<and>
     (\<forall>ns i. lookup (byNS d) ns = Some i \<longrightarrow> i \<noteq> [] \<and> \<not> IsPlatformNamespace ns) \<and>
     (\<forall>i. lookup (suspended d) i \<noteq> None \<longrightarrow> lookup (members d) i \<noteq> None) \<and>
     distinct (map fst (members d))"

lemma dir_invD:
  assumes "dir_inv d"
  shows "\<And>ns i. lookup (byNS d) ns = Some i \<longleftrightarrow> ns \<in> set (slice_at (members d) i)"
    and "\<And>i l. lookup (members d) i = Some l \<Longrightarrow> l \<noteq> [] \<and> sorted l \<and> distinct l"
    and "\<And>i ns. lookup (homes d) i = Some ns \<Longrightarrow> lookup (byNS d) ns = Some i"
    and "\<And>ns i. lookup (byNS d) ns = Some i \<Longrightarrow> i \<noteq> [] \<and> \<not> IsPlatformNamespace ns"
    and "\<And>i. lookup (suspended d) i \<noteq> None \<Longrightarrow> lookup (members d) i \<noteq> None"
    and "distinct (map fst (members d))"
  using assms unfolding dir_inv_def by blast+

lemma dir_inv_slice:
  assumes "dir_inv d"
  shows "sorted (slice_at (members d) i)" and "distinct (slice_at (members d) i)"
  using dir_invD(2) [OF assms] by (auto simp: slice_at_def split: option.splits)

lemma dir_inv_one_account:
  "dir_inv d \<Longrightarrow> ns \<in> set (slice_at (members d) i) \<Longrightarrow> ns \<in> set (slice_at (members d) j) \<Longrightarrow> i = j"
  using dir_invD(1) by (metis option.inject)

lemma forgetLocked_byNS [simp]:
  "lookup (byNS (forgetLocked d name)) ns = (if ns = name then None else lookup (byNS d) ns)"
  by (auto simp: forgetLocked_def Let_def split: option.splits)

lemma forgetLocked_management [simp]: "management (forgetLocked d name) = management d"
  by (simp add: forgetLocked_def Let_def split: option.splits)

lemma forgetLocked_members:
  assumes "dir_inv d"
  shows "slice_at (members (forgetLocked d name)) i = filter (\<lambda>n. n \<noteq> name) (slice_at (members d) i)"
proof (cases "lookup (byNS d) name")
  case None
  with dir_invD(1) [OF assms] have "name \<notin> set (slice_at (members d) i)" by (metis option.distinct(1))
  then have "filter (\<lambda>n. n \<noteq> name) (slice_at (members d) i) = slice_at (members d) i"
    by (auto simp: filter_id_conv)
  with None show ?thesis by (simp add: forgetLocked_def)
next
  case (Some j)
  have "filter (\<lambda>n. n \<noteq> name) (slice_at (members d) i) = slice_at (members d) i" if "i \<noteq> j"
    using that Some dir_invD(1) [OF assms] by (metis (mono_tags) filter_True option.inject)
  with Some show ?thesis by (auto simp: forgetLocked_def Let_def)
qed

lemma forgetLocked_members_lookup:
  assumes "dir_inv d"
  shows "lookup (members (forgetLocked d name)) i =
    (let l = filter (\<lambda>n. n \<noteq> name) (slice_at (members d) i) in if l = [] then None else Some l)"
proof -
  have *: "lookup (members d) i = (if slice_at (members d) i = [] then None else Some (slice_at (members d) i))" for i
    using dir_invD(2) [OF assms, of i] by (auto simp: slice_at_def split: option.splits)
  have "filter (\<lambda>n. n \<noteq> name) (slice_at (members d) i) = slice_at (members d) i"
    if "lookup (byNS d) name \<noteq> Some i"
    using that dir_invD(1) [OF assms] by (metis (mono_tags) filter_True)
  then show ?thesis
    by (cases "lookup (byNS d) name") (auto simp: forgetLocked_def Let_def * [of i])
qed

lemma forgetLocked_homes:
  assumes "dir_inv d"
  shows "lookup (homes (forgetLocked d name)) i =
    (if lookup (homes d) i = Some name then None else lookup (homes d) i)"
proof -
  have "lookup (homes d) i \<noteq> Some name" if "lookup (byNS d) name \<noteq> Some i"
    using that dir_invD(3) [OF assms] by blast
  then show ?thesis
    by (cases "lookup (byNS d) name") (auto simp: forgetLocked_def Let_def)
qed

lemma forgetLocked_suspended:
  assumes "dir_inv d"
  shows "lookup (suspended (forgetLocked d name)) i =
    (if lookup (members (forgetLocked d name)) i = None then None else lookup (suspended d) i)"
proof (cases "lookup (byNS d) name")
  case None
  with dir_invD(5) [OF assms, of i] show ?thesis
    by (cases "lookup (suspended d) i") (auto simp: forgetLocked_def)
next
  case (Some j)
  with dir_invD(5) [OF assms, of i] show ?thesis
    by (cases "lookup (suspended d) i") (auto simp: forgetLocked_def Let_def)
qed

lemma forgetLocked_keys:
  "distinct (map fst (members d)) \<Longrightarrow> distinct (map fst (members (forgetLocked d name)))"
  by (auto simp: forgetLocked_def Let_def distinct_put distinct_del split: option.splits)

lemma forgetLocked_inv: "dir_inv d \<Longrightarrow> dir_inv (forgetLocked d name)"
proof -
  assume d: "dir_inv d"
  show ?thesis
    unfolding dir_inv_def
  proof (intro conjI allI impI)
    show "lookup (byNS (forgetLocked d name)) ns = Some i \<longleftrightarrow>
        ns \<in> set (slice_at (members (forgetLocked d name)) i)" for ns i
      using dir_invD(1) [OF d] by (auto simp: forgetLocked_members [OF d])
    show "l \<noteq> []" "sorted l" "distinct l" if "lookup (members (forgetLocked d name)) i = Some l" for i l
      using that dir_inv_slice [OF d, of i]
      by (auto simp: forgetLocked_members_lookup [OF d] Let_def sorted_wrt_filter split: if_splits)
    show "lookup (byNS (forgetLocked d name)) ns = Some i"
      if "lookup (homes (forgetLocked d name)) i = Some ns" for i ns
      using that dir_invD(3) [OF d] by (auto simp: forgetLocked_homes [OF d] split: if_splits)
    show "i \<noteq> []" "\<not> IsPlatformNamespace ns" if "lookup (byNS (forgetLocked d name)) ns = Some i" for ns i
      using that dir_invD(4) [OF d] by (auto split: if_splits)
    show "lookup (members (forgetLocked d name)) i \<noteq> None"
      if "lookup (suspended (forgetLocked d name)) i \<noteq> None" for i
      using that by (auto simp: forgetLocked_suspended [OF d] simp del: not_None_eq split: if_splits)
    show "distinct (map fst (members (forgetLocked d name)))"
      using d forgetLocked_keys dir_invD(6) by blast
  qed
qed

text \<open>Recording a namespace that is not recorded yet.\<close>

definition enter :: "directory \<Rightarrow> string \<Rightarrow> string \<Rightarrow> directory" where
  "enter d name i = d\<lparr>byNS := put name i (byNS d),
     members := put i (sort (slice_at (members d) i @ [name])) (members d)\<rparr>"

lemma enter_inv:
  assumes "dir_inv d" and "lookup (byNS d) name = None" and "i \<noteq> []" and "\<not> IsPlatformNamespace name"
  shows "dir_inv (enter d name i)"
proof -
  have new: "name \<notin> set (slice_at (members d) j)" for j
    using assms(2) dir_invD(1) [OF assms(1)] by (metis option.distinct(1))
  show ?thesis
    unfolding dir_inv_def
  proof (intro conjI allI impI)
    show "lookup (byNS (enter d name i)) ns = Some j \<longleftrightarrow> ns \<in> set (slice_at (members (enter d name i)) j)" for ns j
      using dir_invD(1) [OF assms(1)] new by (auto simp: enter_def)
    show "l \<noteq> []" "sorted l" "distinct l" if "lookup (members (enter d name i)) j = Some l" for j l
      using that dir_invD(2) [OF assms(1), of j l] dir_inv_slice(2) [OF assms(1), of i] new [of i]
      by (auto simp: enter_def dest: arg_cong [of _ _ set] split: if_splits)
    show "lookup (byNS (enter d name i)) ns = Some j" if "lookup (homes (enter d name i)) j = Some ns" for j ns
      using that dir_invD(3) [OF assms(1)] assms(2) by (auto simp: enter_def)
    show "j \<noteq> []" "\<not> IsPlatformNamespace ns" if "lookup (byNS (enter d name i)) ns = Some j" for ns j
      using that dir_invD(4) [OF assms(1)] assms(3,4) by (auto simp: enter_def split: if_splits)
    show "lookup (members (enter d name i)) j \<noteq> None" if "lookup (suspended (enter d name i)) j \<noteq> None" for j
      using that dir_invD(5) [OF assms(1)] by (auto simp: enter_def)
    show "distinct (map fst (members (enter d name i)))"
      using dir_invD(6) [OF assms(1)] by (simp add: enter_def distinct_put)
  qed
qed

lemma set_home_inv:
  "dir_inv d \<Longrightarrow> lookup (byNS d) name = Some i \<Longrightarrow> dir_inv (d\<lparr>homes := put i name (homes d)\<rparr>)"
  unfolding dir_inv_def by (simp del: not_None_eq) metis

lemma set_suspended_inv:
  assumes "dir_inv d" and "lookup (byNS d) name = Some i"
  shows "dir_inv (d\<lparr>suspended := put i True (suspended d)\<rparr>)"
proof -
  have "lookup (members d) i \<noteq> None"
    using assms(2) dir_invD(1) [OF assms(1), of name i]
    by (cases "lookup (members d) i") (simp_all add: slice_at_def)
  with assms(1) show ?thesis unfolding dir_inv_def by simp
qed

lemma Observe_inv: "dir_inv d \<Longrightarrow> dir_inv (Observe d ns)"
proof -
  assume d: "dir_inv d"
  let ?n = "nsName ns" and ?i = "label_of ns LabelAccountID"
  have f: "dir_inv (forgetLocked d ?n)" by (rule forgetLocked_inv [OF d])
  show ?thesis
  proof (cases "?i = [] \<or> IsPlatformNamespace ?n")
    case True
    with f show ?thesis by (auto simp: Observe_def Let_def)
  next
    case False
    let ?e = "enter (forgetLocked d ?n) ?n ?i"
    have e: "dir_inv ?e" using enter_inv [OF f] False by simp
    have at: "lookup (byNS ?e) ?n = Some ?i" by (simp add: enter_def)
    have "dir_inv (?e\<lparr>homes := put ?i ?n (homes ?e)\<rparr>)" by (rule set_home_inv [OF e at])
    with e at False show ?thesis
      using set_suspended_inv [OF e at] set_suspended_inv [of "?e\<lparr>homes := put ?i ?n (homes ?e)\<rparr>" ?n ?i]
      by (auto simp: Observe_def Let_def enter_def)
  qed
qed

lemma Observe_byNS:
  "lookup (byNS (Observe d ns)) n =
    (if n = nsName ns then
       if label_of ns LabelAccountID = [] \<or> IsPlatformNamespace (nsName ns) then None
       else Some (label_of ns LabelAccountID)
     else lookup (byNS d) n)"
  by (auto simp: Observe_def Let_def)

lemma Observe_management [simp]: "management (Observe d ns) = management d"
  by (simp add: Observe_def Let_def)

subsection \<open>The directory as a machine\<close>

datatype dir_event =
    EObserve namespace
  | EForget string
  | EReplace "namespace list"

fun dir_step :: "directory \<Rightarrow> dir_event \<Rightarrow> directory" where
  "dir_step d (EObserve ns) = Observe d ns"
| "dir_step d (EForget name) = Forget d name"
| "dir_step d (EReplace nss) = replace_dir d nss"

text \<open>The contract: the account a namespace is in is what its last listing said.\<close>

definition placed :: "namespace \<Rightarrow> string option" where
  "placed ns = (let i = label_of ns LabelAccountID
     in if i = [] \<or> IsPlatformNamespace (nsName ns) then None else Some i)"

definition label_update :: "(string \<Rightarrow> string option) \<Rightarrow> namespace \<Rightarrow> (string \<Rightarrow> string option)" where
  "label_update m ns = m(nsName ns := placed ns)"

fun label_step :: "(string \<Rightarrow> string option) \<Rightarrow> dir_event \<Rightarrow> (string \<Rightarrow> string option)" where
  "label_step m (EObserve ns) = label_update m ns"
| "label_step m (EForget name) = m(name := None)"
| "label_step m (EReplace nss) = foldl label_update (\<lambda>_. None) nss"

lemma Observe_labels: "lookup (byNS (Observe d ns)) = label_update (lookup (byNS d)) ns"
  by (rule ext) (auto simp: Observe_byNS label_update_def placed_def Let_def)

lemma foldl_Observe_labels:
  "lookup (byNS (foldl Observe d nss)) = foldl label_update (lookup (byNS d)) nss"
  by (induction nss arbitrary: d) (simp_all add: Observe_labels)

lemma label_update_off:
  "foldl label_update m nss n =
    (if n \<in> nsName ` set nss then foldl label_update (\<lambda>_. None) nss n else m n)"
proof (induction nss arbitrary: m)
  case (Cons ns nss)
  show ?case
    using Cons [of "label_update m ns"] Cons [of "label_update (\<lambda>_. None) ns"]
    by (auto simp: label_update_def)
qed simp

lemma forget_loop_byNS:
  "lookup (byNS (foldl (\<lambda>d name. if name \<notin> L then forgetLocked d name else d) d names)) n =
    (if n \<in> set names \<and> n \<notin> L then None else lookup (byNS d) n)"
  by (induction names arbitrary: d) auto

lemma forget_loop_inv:
  "dir_inv d \<Longrightarrow> dir_inv (foldl (\<lambda>d name. if name \<notin> L then forgetLocked d name else d) d names)"
  by (induction names arbitrary: d) (simp_all add: forgetLocked_inv)

lemma forget_loop_management:
  "management (foldl (\<lambda>d name. if name \<notin> L then forgetLocked d name else d) d names) = management d"
  by (induction names arbitrary: d) simp_all

lemma foldl_Observe_inv: "dir_inv d \<Longrightarrow> dir_inv (foldl Observe d nss)"
  by (induction nss arbitrary: d) (simp_all add: Observe_inv)

lemma foldl_Observe_management: "management (foldl Observe d nss) = management d"
  by (induction nss arbitrary: d) simp_all

lemma replace_labels: "lookup (byNS (replace_dir d nss)) = foldl label_update (\<lambda>_. None) nss"
proof
  fix n
  let ?d = "foldl Observe d nss"
  have "lookup (byNS (replace_dir d nss)) n =
      (if n \<in> fst ` set (byNS ?d) \<and> n \<notin> nsName ` set nss then None else lookup (byNS ?d) n)"
    by (simp add: replace_dir_def Let_def forget_loop_byNS)
  also have "\<dots> = (if n \<in> nsName ` set nss then lookup (byNS ?d) n else None)"
    using lookup_None_iff [of "byNS ?d" n] by auto
  also have "\<dots> = foldl label_update (\<lambda>_. None) nss n"
    using label_update_off [of "lookup (byNS d)" nss n] label_update_off [of "\<lambda>_. None" nss n]
    by (cases "n \<in> nsName ` set nss") (simp_all add: foldl_Observe_labels)
  finally show "lookup (byNS (replace_dir d nss)) n = foldl label_update (\<lambda>_. None) nss n" .
qed

lemma dir_step_inv: "dir_inv d \<Longrightarrow> dir_inv (dir_step d e)"
  by (cases e) (simp_all add: Observe_inv Forget_def forgetLocked_inv replace_dir_def Let_def
      forget_loop_inv foldl_Observe_inv)

lemma dir_step_management: "management (dir_step d e) = management d"
  by (cases e) (simp_all add: Forget_def replace_dir_def Let_def forget_loop_management
      foldl_Observe_management)

lemma dir_step_labels: "lookup (byNS (dir_step d e)) = label_step (lookup (byNS d)) e"
  by (cases e) (auto simp: Observe_labels Forget_def replace_labels fun_eq_iff)

lemma NewDirectory_inv: "dir_inv (NewDirectory mgmt)"
  by (simp add: dir_inv_def NewDirectory_def slice_at_def)

lemma NewDirectory_management: "management (NewDirectory mgmt) = (if mgmt = [] then ''000000000000'' else mgmt)"
  by (simp add: NewDirectory_def ManagementAccount_def)

interpretation dirs: simulation "NewDirectory mgmt" dir_step
    "\<lambda>d. dir_inv d \<and> management d = management (NewDirectory mgmt)" "\<lambda>d. lookup (byNS d)" label_step
  for mgmt
  by unfold_locales (simp_all add: NewDirectory_inv dir_step_inv dir_step_management dir_step_labels)

lemma members_of_labels:
  assumes "dir_inv d"
  shows "NamespacesOf d i = sorted_list_of_set {ns. lookup (byNS d) ns = Some i}"
proof -
  have "{ns. lookup (byNS d) ns = Some i} = set (slice_at (members d) i)"
    using dir_invD(1) [OF assms] by blast
  then show ?thesis
    using dir_inv_slice [OF assms, of i]
    by (simp add: NamespacesOf_def sorted_list_of_set_sort_remdups distinct_remdups_id sorted_sort_id)
qed

text \<open>
  C38. Refinement. After any sequence of observations, deletions and full listings, the account
  of a namespace is the one its last listing labelled it with, the management account for a
  tenant namespace without one and none for a platform namespace; the namespaces listed for
  an account are exactly those, sorted.
\<close>

theorem directory_refines_labels:
  "AccountOf (foldl dir_step (NewDirectory mgmt) evs) ns =
     (if ns = [] \<or> IsPlatformNamespace ns then []
      else case foldl label_step (\<lambda>_. None) evs ns of
             Some i \<Rightarrow> i
           | None \<Rightarrow> if mgmt = [] then ''000000000000'' else mgmt) \<and>
   NamespacesOf (foldl dir_step (NewDirectory mgmt) evs) i =
     sorted_list_of_set {ns. foldl label_step (\<lambda>_. None) evs ns = Some i}"
proof -
  let ?d = "foldl dir_step (NewDirectory mgmt) evs"
  have "lookup (byNS (NewDirectory mgmt)) = (\<lambda>_. None)" by (auto simp: NewDirectory_def)
  then have labels: "lookup (byNS ?d) = foldl label_step (\<lambda>_. None) evs"
    using dirs.abs_run [of mgmt evs] by simp
  show ?thesis
    using dirs.inv_run [of mgmt evs] members_of_labels [of ?d i]
    by (auto simp: AccountOf_def labels NewDirectory_management split: option.split)
qed

text \<open>
  Isolation. In every reachable directory a namespace is listed under at most one account,
  never is a platform namespace, and the home of an account, when recorded, is one of the
  account's own namespaces.
\<close>

theorem accounts_are_disjoint:
  fixes evs mgmt
  defines "d \<equiv> foldl dir_step (NewDirectory mgmt) evs"
  shows "(ns \<in> set (NamespacesOf d i) \<and> ns \<in> set (NamespacesOf d j) \<longrightarrow> i = j) \<and>
    (ns \<in> set (NamespacesOf d i) \<longrightarrow> AccountOf d ns = i \<or> ns = []) \<and>
    (ns \<in> set (NamespacesOf d i) \<longrightarrow> \<not> IsPlatformNamespace ns) \<and>
    (HomeOf d i = Some ns \<longrightarrow> ns \<in> set (NamespacesOf d i) \<or> i = management d \<and> ns = DefaultManagementHome)"
proof -
  have d: "dir_inv d" unfolding d_def using dirs.inv_run by blast
  have mem: "ns \<in> set (NamespacesOf d i) \<longleftrightarrow> lookup (byNS d) ns = Some i" for ns i
    using dir_invD(1) [OF d] by (simp add: NamespacesOf_def)
  have "HomeOf d i = Some ns \<Longrightarrow> lookup (byNS d) ns = Some i \<or> i = management d \<and> ns = DefaultManagementHome"
    using dir_invD(3) [OF d, of i ns]
    by (auto simp: HomeOf_def IsManagement_def split: option.splits if_splits)
  then show ?thesis using dir_invD(4) [OF d] by (auto simp: mem AccountOf_def)
qed

definition team_ns :: "string \<Rightarrow> string \<Rightarrow> namespace" where
  "team_ns name status = \<lparr>nsName = name,
     nsLabels = [(LabelAccountID, ''123456789012''), (LabelAccountStatus, status), (LabelAccountHome, ''true'')]\<rparr>"

lemmas accounts_eval =
  team_ns_def label_of_def LabelAccountID_def LabelAccountStatus_def LabelAccountHome_def
  StatusSuspended_def IsPlatformNamespace_def PlatformNamespaces_def PlatformPrefixes_def has_prefix_def

theorem accounts_are_disjoint_witness:
  "\<not> IsPlatformNamespace ''team-a'' \<and>
   ''team-a'' \<in> set (NamespacesOf (foldl dir_step (NewDirectory []) [EObserve (team_ns ''team-a'' [])]) ''123456789012'')"
proof -
  have in_list: "''team-a'' \<in> set (NamespacesOf (foldl dir_step (NewDirectory []) [EObserve (team_ns ''team-a'' [])]) ''123456789012'')"
    by (simp add: NamespacesOf_def Observe_def forgetLocked_def NewDirectory_def Let_def slice_at_def accounts_eval)
  with accounts_are_disjoint [of "''team-a''" "[]" "[EObserve (team_ns ''team-a'' [])]" "''123456789012''"]
  show ?thesis by blast
qed

subsection \<open>Account ids\<close>

lemma length_pad_digits: "n < 10 ^ w \<Longrightarrow> 0 < w \<Longrightarrow> length (pad_digits w n) = w"
  using length_nat_digits [of n w] by (simp add: pad_digits_def Let_def)

lemma pad_digits_digits: "list_all is_digit (pad_digits w n)"
proof -
  have "is_digit CHR ''0''" by (simp add: is_digit_def)
  then show ?thesis by (auto simp: pad_digits_def Let_def list_all_iff nat_digits_digits)
qed

lemma DeriveAccountID_valid: "ValidAccountID (DeriveAccountID sha ns k) \<and> hd (DeriveAccountID sha ns k) = CHR ''9''"
proof -
  have "length (pad_digits 11 (m mod 100000000000)) = 11" for m
    by (rule length_pad_digits) simp_all
  then show ?thesis
    by (auto simp: DeriveAccountID_def Let_def ValidAccountID_def pad_digits_digits is_digit_def)
qed

lemma newAccountID_loop_spec:
  "case newAccountID_loop sha ns taken a n of
     None \<Rightarrow> (\<forall>k. a \<le> k \<and> k < a + n \<longrightarrow> taken (DeriveAccountID sha ns k))
   | Some i \<Rightarrow> \<exists>k. a \<le> k \<and> k < a + n \<and> i = DeriveAccountID sha ns k \<and> \<not> taken i \<and>
       (\<forall>j. a \<le> j \<and> j < k \<longrightarrow> taken (DeriveAccountID sha ns j))"
proof (induction n arbitrary: a)
  case (Suc n)
  show ?case
  proof (cases "taken (DeriveAccountID sha ns a)")
    case False
    then show ?thesis by (auto simp: Let_def)
  next
    case True
    have step: "a \<le> k \<longleftrightarrow> k = a \<or> Suc a \<le> k" for k by auto
    show ?thesis
      using Suc [of "Suc a"] True by (auto simp: Let_def step split: option.splits)
  qed
qed auto

text \<open>
  A new account's id is twelve digits, starts with 9, is not taken, and is the first of the
  sixteen candidates that is free; the error is returned exactly when all sixteen are taken.
\<close>

theorem NewAccountID_first_free:
  "(case NewAccountID sha ns taken of
      None \<Rightarrow> \<forall>k < 16. taken (DeriveAccountID sha ns k)
    | Some i \<Rightarrow> ValidAccountID i \<and> hd i = CHR ''9'' \<and> \<not> taken i \<and>
        (\<exists>k < 16. i = DeriveAccountID sha ns k \<and> (\<forall>j < k. taken (DeriveAccountID sha ns j))))"
  using newAccountID_loop_spec [where sha = sha and ns = ns and taken = taken and a = 0 and n = 16]
    DeriveAccountID_valid [of sha ns]
  by (auto simp: NewAccountID_def split: option.splits)

theorem NewAccountID_first_free_witness:
  "NewAccountID (\<lambda>x. replicate 32 CHR 0x01) ''team-a'' (\<lambda>i. False) =
     Some (DeriveAccountID (\<lambda>x. replicate 32 CHR 0x01) ''team-a'' 0) \<and>
   ValidAccountID (DeriveAccountID (\<lambda>x. replicate 32 CHR 0x01) ''team-a'' 0)"
proof -
  have "NewAccountID (\<lambda>x. replicate 32 CHR 0x01) ''team-a'' (\<lambda>i. False) =
     Some (DeriveAccountID (\<lambda>x. replicate 32 CHR 0x01) ''team-a'' 0)"
    by (simp add: NewAccountID_def Let_def numeral_eq_Suc)
  with NewAccountID_first_free
      [where sha = "\<lambda>x. replicate 32 CHR 0x01" and ns = "''team-a''" and taken = "\<lambda>i. False"]
  show ?thesis by simp
qed

subsection \<open>Suspension\<close>

lemma Observe_members:
  assumes "dir_inv d" and "label_of ns LabelAccountID = i" and "i \<noteq> []" and "\<not> IsPlatformNamespace (nsName ns)"
  shows "set (NamespacesOf (Observe d ns) i) = insert (nsName ns) (set (NamespacesOf d i))"
  using assms by (auto simp: NamespacesOf_def Observe_def Let_def forgetLocked_members [OF assms(1)])

lemma Observe_keeps_suspended:
  assumes "dir_inv d" and "Suspended d i" and "other \<in> set (NamespacesOf d i)" and "other \<noteq> nsName ns"
  shows "Suspended (Observe d ns) i"
proof -
  have "lookup (members (forgetLocked d (nsName ns))) i \<noteq> None"
    using assms(3,4) by (auto simp: forgetLocked_members_lookup [OF assms(1)] NamespacesOf_def Let_def filter_empty_conv)
  then have "lookup (suspended (forgetLocked d (nsName ns))) i = Some True"
    using assms(2) by (simp add: forgetLocked_suspended [OF assms(1)] Suspended_def)
  then show ?thesis by (auto simp: Suspended_def Observe_def Let_def)
qed

text \<open>
  A suspended account with at least two namespaces stays suspended for the directory however
  often its namespaces are observed again, also without the suspended label: the flag is only
  dropped when the account's last namespace is forgotten.
\<close>

theorem reactivation_not_noticed:
  assumes "dir_inv d" and "Suspended d i" and "i \<noteq> []"
    and "a \<in> set (NamespacesOf d i)" and "b \<in> set (NamespacesOf d i)" and "a \<noteq> b"
    and "\<forall>ns \<in> set nss. label_of ns LabelAccountID = i \<and> \<not> IsPlatformNamespace (nsName ns)"
  shows "Suspended (foldl Observe d nss) i"
  using assms
proof (induction nss arbitrary: d)
  case (Cons ns nss)
  have "Suspended (Observe d ns) i"
    using Observe_keeps_suspended [OF Cons.prems(1,2,4)] Observe_keeps_suspended [OF Cons.prems(1,2,5)]
      Cons.prems(6) by (cases "a = nsName ns") auto
  moreover have "set (NamespacesOf (Observe d ns) i) = insert (nsName ns) (set (NamespacesOf d i))"
    using Observe_members [OF Cons.prems(1) _ Cons.prems(3)] Cons.prems(7) by simp
  ultimately show ?case
    using Cons.IH [of "Observe d ns"] Observe_inv [OF Cons.prems(1)] Cons.prems(3-7) by simp
qed simp

definition suspended_pair :: directory where
  "suspended_pair = foldl dir_step (NewDirectory [])
     [EObserve (team_ns ''team-a'' StatusSuspended), EObserve (team_ns ''team-b'' StatusSuspended)]"

theorem reactivation_not_noticed_witness:
  "Suspended (foldl Observe suspended_pair [team_ns ''team-a'' ''ACTIVE'', team_ns ''team-b'' ''ACTIVE'']) ''123456789012''"
proof -
  have inv: "dir_inv suspended_pair" unfolding suspended_pair_def using dirs.inv_run by blast
  have state: "Suspended suspended_pair ''123456789012''"
    "''team-a'' \<in> set (NamespacesOf suspended_pair ''123456789012'')"
    "''team-b'' \<in> set (NamespacesOf suspended_pair ''123456789012'')"
    by (simp_all add: suspended_pair_def NamespacesOf_def Observe_def forgetLocked_def NewDirectory_def
        Let_def slice_at_def Suspended_def accounts_eval)
  show ?thesis
    by (rule reactivation_not_noticed [OF inv state(1) _ state(2,3)]) (simp_all add: accounts_eval)
qed

end
