(* ===== verification/Tds.thy ===== *)
theory Tds
  imports Prelude "HOL-Library.Word"
begin

unbundle bit_operations_syntax

text \<open>
  The TDS wire protocol of the SQL Server proxy: \<^verbatim>\<open>tds-proxy/tds/frame.go\<close> and
  \<^verbatim>\<open>tds-proxy/tds/handshake.go\<close>.

  Bytes are \<^typ>\<open>8 word\<close>. A reader is the list of bytes that will still arrive. Every index or
  slice expression of the Go code is checked here: the parsers of client bytes return an
  option that is None where Go would panic, so that the absence of panics is a theorem. Go's
  \<^verbatim>\<open>int\<close> has 64 bits and every length read from the wire at most 32, so lengths are \<^typ>\<open>nat\<close>.
\<close>

type_synonym byte = "8 word"
type_synonym bytes = "byte list"

subsection \<open>Byte access\<close>

text \<open>\<^verbatim>\<open>b[i]\<close> and \<^verbatim>\<open>b[i:j]\<close>; None is the panic.\<close>

definition byte_at :: "bytes \<Rightarrow> nat \<Rightarrow> byte option" where
  "byte_at b i = (if i < length b then Some (b ! i) else None)"

definition slice :: "bytes \<Rightarrow> nat \<Rightarrow> nat \<Rightarrow> bytes option" where
  "slice b i j = (if i \<le> j \<and> j \<le> length b then Some (take (j - i) (drop i b)) else None)"

text \<open>\<^verbatim>\<open>binary.LittleEndian.Uint16(b[i:])\<close> and \<^verbatim>\<open>Uint32\<close>, \<^verbatim>\<open>binary.BigEndian.Uint16\<close>.\<close>

definition le16 :: "bytes \<Rightarrow> nat \<Rightarrow> nat option" where
  "le16 b i = (if i + 2 \<le> length b then Some (unat (b ! i) + 256 * unat (b ! (i + 1))) else None)"

definition le32 :: "bytes \<Rightarrow> nat \<Rightarrow> nat option" where
  "le32 b i = (if i + 4 \<le> length b
     then Some (unat (b ! i) + 256 * (unat (b ! (i + 1)) + 256 * (unat (b ! (i + 2)) + 256 * unat (b ! (i + 3)))))
     else None)"

definition be16 :: "bytes \<Rightarrow> nat \<Rightarrow> nat option" where
  "be16 b i = (if i + 2 \<le> length b then Some (256 * unat (b ! i) + unat (b ! (i + 1))) else None)"

subsection \<open>Packets\<close>

definition TypeSQLBatch :: byte where "TypeSQLBatch = 0x01"
definition TypeRPC :: byte where "TypeRPC = 0x03"
definition TypeTabular :: byte where "TypeTabular = 0x04"
definition TypeAttention :: byte where "TypeAttention = 0x06"
definition TypeBulkLoad :: byte where "TypeBulkLoad = 0x07"
definition TypeFedAuth :: byte where "TypeFedAuth = 0x08"
definition TypeTxMgr :: byte where "TypeTxMgr = 0x0E"
definition TypeLogin7 :: byte where "TypeLogin7 = 0x10"
definition TypeSSPI :: byte where "TypeSSPI = 0x11"
definition TypePreLogin :: byte where "TypePreLogin = 0x12"

lemmas tds_types = TypeSQLBatch_def TypeRPC_def TypeTabular_def TypeAttention_def TypeBulkLoad_def
  TypeFedAuth_def TypeTxMgr_def TypeLogin7_def TypeSSPI_def TypePreLogin_def

definition statusEOM :: byte where "statusEOM = 0x01"
definition headerLen :: nat where "headerLen = 8"

record packet =
  pType :: byte
  pStatus :: byte
  pRaw :: bytes
  pBody :: bytes

definition EOM :: "packet \<Rightarrow> bool" where
  "EOM p \<longleftrightarrow> pStatus p AND statusEOM \<noteq> 0"

datatype read_error = EndOfFile | UnexpectedEOF | ImplausibleLength nat

text \<open>\<^verbatim>\<open>io.ReadFull\<close> of \<open>n\<close> bytes.\<close>

definition ReadFull :: "nat \<Rightarrow> bytes \<Rightarrow> read_error + bytes \<times> bytes" where
  "ReadFull n r =
     (if n \<le> length r then Inr (take n r, drop n r)
      else if r = [] then Inl EndOfFile else Inl UnexpectedEOF)"

definition ReadPacket :: "bytes \<Rightarrow> read_error + packet \<times> bytes" where
  "ReadPacket r =
     rbind (ReadFull headerLen r) (\<lambda>(h, r1).
       let len = 256 * unat (h ! 2) + unat (h ! 3)
       in if len < headerLen \<or> 2 ^ 20 < len then Inl (ImplausibleLength len)
          else rbind (ReadFull (len - headerLen) r1) (\<lambda>(body, r2).
            Inr (\<lparr>pType = h ! 0, pStatus = h ! 1, pRaw = h @ body, pBody = body\<rparr>, r2)))"

lemma ReadFull_Inr: "ReadFull n r = Inr (a, b) \<longleftrightarrow> n \<le> length r \<and> a = take n r \<and> b = drop n r"
  by (auto simp: ReadFull_def)

lemma take_take_drop: "k \<le> n \<Longrightarrow> take k r @ take (n - k) (drop k r) @ drop n r = r"
  by (metis append_assoc append_take_drop_id le_add_diff_inverse take_add)

text \<open>What a packet read is: the bytes consumed, unchanged, and never fewer than a header.\<close>

lemma ReadPacket_Inr:
  assumes "ReadPacket r = Inr (p, r')"
  shows "r = pRaw p @ r'" and "headerLen \<le> length (pRaw p)" and "pBody p = drop headerLen (pRaw p)"
    and "pType p = pRaw p ! 0" and "pStatus p = pRaw p ! 1"
    and "length (pRaw p) = 256 * unat (pRaw p ! 2) + unat (pRaw p ! 3)"
  using assms
  by (auto simp: ReadPacket_def ReadFull_Inr Let_def headerLen_def nth_append min_def take_take_drop
      split: if_splits)

lemma ReadPacket_shorter: "ReadPacket r = Inr (p, r') \<Longrightarrow> length r' < length r"
  using ReadPacket_Inr(1,2) [of r p r'] by (auto simp: headerLen_def)

text \<open>
  \<^verbatim>\<open>ReadMessage\<close>: the accumulators are the type, body and raw bytes read so far. On an error
  the Go function returns the accumulators too, which no caller looks at.
\<close>

function ReadMessage_loop :: "byte \<Rightarrow> bytes \<Rightarrow> bytes \<Rightarrow> bytes \<Rightarrow> read_error + (byte \<times> bytes \<times> bytes) \<times> bytes" where
  "ReadMessage_loop msgType body raw r =
     rbind (ReadPacket r) (\<lambda>(p, r').
       let msgType' = (if raw = [] then pType p else msgType);
           body' = body @ pBody p; raw' = raw @ pRaw p
       in if EOM p then Inr ((msgType', body', raw'), r')
          else ReadMessage_loop msgType' body' raw' r')"
  by pat_completeness auto
termination
  by (relation "measure (\<lambda>(t, b, w, r). length r)") (auto simp: ReadPacket_shorter)

declare ReadMessage_loop.simps [simp del]

definition ReadMessage :: "bytes \<Rightarrow> read_error + (byte \<times> bytes \<times> bytes) \<times> bytes" where
  "ReadMessage r = ReadMessage_loop 0 [] [] r"

definition statusResetConnection :: byte where "statusResetConnection = 0x08"

definition WithResetConnection :: "bytes \<Rightarrow> bytes" where
  "WithResetConnection raw =
     (if length raw < headerLen then raw
      else raw[1 := (raw ! 1) OR statusResetConnection])"

subsection \<open>Text and requests\<close>

fun TypeName :: "byte \<Rightarrow> string" where
  "TypeName t =
     (if t = TypeSQLBatch then ''SQLBatch'' else if t = TypeRPC then ''RPC''
      else if t = TypeTabular then ''Response'' else if t = TypeAttention then ''Attention''
      else if t = TypeBulkLoad then ''BulkLoad'' else if t = TypeTxMgr then ''TxMgr''
      else if t = TypeLogin7 then ''Login7'' else if t = TypePreLogin then ''PreLogin''
      else if t = TypeSSPI then ''SSPI''
      else ''0x'' @ (let n = unat t; d = (\<lambda>k. if k < 10 then char_of (48 + k) else char_of (87 + k :: nat))
                    in [d (n div 16), d (n mod 16)]))"

definition allHeadersLen :: "bytes \<Rightarrow> nat option" where
  "allHeadersLen body =
     (if length body < 4 then Some 0
      else map_option (\<lambda>total. if 4 \<le> total \<and> total \<le> length body \<and> total < 2 ^ 16 then total else 0)
             (le32 body 0))"

text \<open>\<^verbatim>\<open>utf16.Decode\<close>: surrogate pairs are joined, a lone surrogate is U+FFFD.\<close>

fun utf16_decode :: "nat list \<Rightarrow> nat list" where
  "utf16_decode [] = []"
| "utf16_decode [u] = [if 0xD800 \<le> u \<and> u < 0xE000 then 0xFFFD else u]"
| "utf16_decode (u # v # us) =
     (if 0xD800 \<le> u \<and> u < 0xDC00 \<and> 0xDC00 \<le> v \<and> v < 0xE000
      then (0x10000 + (u - 0xD800) * 0x400 + (v - 0xDC00)) # utf16_decode us
      else (if 0xD800 \<le> u \<and> u < 0xE000 then 0xFFFD else u) # utf16_decode (v # us))"

text \<open>The conversion \<^verbatim>\<open>string([]rune)\<close>: UTF-8.\<close>

definition utf8_rune :: "nat \<Rightarrow> string" where
  "utf8_rune c =
     (if c < 0x80 then [char_of c]
      else if c < 0x800 then [char_of (0xC0 + c div 64), char_of (0x80 + c mod 64)]
      else if c < 0x10000 then
        [char_of (0xE0 + c div 4096), char_of (0x80 + c div 64 mod 64), char_of (0x80 + c mod 64)]
      else [char_of (0xF0 + c div 262144), char_of (0x80 + c div 4096 mod 64),
            char_of (0x80 + c div 64 mod 64), char_of (0x80 + c mod 64)])"

fun le_units :: "bytes \<Rightarrow> nat list" where
  "le_units (a # b # r) = (unat a + 256 * unat b) # le_units r"
| "le_units _ = []"

definition decodeUTF16LE :: "bytes \<Rightarrow> string" where
  "decodeUTF16LE b = concat (map utf8_rune (utf16_decode (le_units b)))"

definition BatchText :: "bytes \<Rightarrow> string option" where
  "BatchText body =
     (case allHeadersLen body of
        None \<Rightarrow> None
      | Some off0 \<Rightarrow>
          let off = (if length body < off0 then 0 else off0)
          in map_option decodeUTF16LE (slice body off (length body)))"

definition procIDName :: "nat \<Rightarrow> string" where
  "procIDName n =
     (let names = [''sp_cursor'', ''sp_cursoropen'', ''sp_cursorprepare'', ''sp_cursorexecute'',
        ''sp_cursorprepexec'', ''sp_cursorunprepare'', ''sp_cursorfetch'', ''sp_cursoroption'',
        ''sp_cursorclose'', ''sp_executesql'', ''sp_prepare'', ''sp_execute'', ''sp_prepexec'',
        ''sp_prepexecrpc'', ''sp_unprepare'']
      in if 1 \<le> n \<and> n \<le> 15 then names ! (n - 1) else ''procid:'' @ itoa (int n))"

definition RPCProc :: "bytes \<Rightarrow> string option" where
  "RPCProc body =
     (case allHeadersLen body of
        None \<Rightarrow> None
      | Some off \<Rightarrow>
          if length body < off + 2 then Some []
          else case slice body off (length body) of
              None \<Rightarrow> None
            | Some p \<Rightarrow>
                (case le16 p 0 of
                   None \<Rightarrow> None
                 | Some nameLen \<Rightarrow>
                     if nameLen = 0xFFFF
                     then if length p < 4 then Some [] else map_option procIDName (le16 p 2)
                     else if length p < 2 + nameLen * 2 then Some []
                     else map_option decodeUTF16LE (slice p 2 (2 + nameLen * 2))))"

definition TMBeginXact :: nat where "TMBeginXact = 5"
definition TMCommitXact :: nat where "TMCommitXact = 7"
definition TMRollbackXact :: nat where "TMRollbackXact = 8"

text \<open>The outer option is the panic, the inner one Go's \<^verbatim>\<open>ok\<close>.\<close>

definition TxMgrRequestType :: "bytes \<Rightarrow> nat option option" where
  "TxMgrRequestType body =
     (case allHeadersLen body of
        None \<Rightarrow> None
      | Some off \<Rightarrow>
          if off = 0 \<or> length body < off + 2 then Some None
          else map_option Some (le16 body off))"

subsection \<open>PRELOGIN\<close>

definition EncryptOff :: byte where "EncryptOff = 0x00"
definition EncryptOn :: byte where "EncryptOn = 0x01"
definition EncryptNotSup :: byte where "EncryptNotSup = 0x02"
definition EncryptReq :: byte where "EncryptReq = 0x03"

definition prelogin_payload :: "byte \<Rightarrow> bytes" where
  "prelogin_payload enc =
     [0x00, 0x00, 11, 0x00, 0x06,
      0x01, 0x00, 17, 0x00, 0x01,
      0xFF,
      0x10, 0x00, 0x03, 0xE8, 0x00, 0x00,
      enc]"

definition BuildPreloginResponseEnc :: "byte \<Rightarrow> bytes" where
  "BuildPreloginResponseEnc enc =
     (let payload = prelogin_payload enc; total = headerLen + length payload
      in [TypeTabular, statusEOM, of_nat (total div 256), of_nat total, 0, 0, 1, 0] @ payload)"

definition BuildPreloginResponse :: bytes where
  "BuildPreloginResponse = BuildPreloginResponseEnc EncryptNotSup"

definition BuildClientPrelogin :: bytes where
  "BuildClientPrelogin = (BuildPreloginResponseEnc EncryptNotSup)[0 := TypePreLogin]"

text \<open>
  The two walks over the PRELOGIN option table. They differ in the option looked for and in
  what is made of it: \<open>found\<close> is the value of the branch of that option, given its offset and
  length, \<open>absent\<close> the value of the other exits.
\<close>

function prelogin_walk :: "byte \<Rightarrow> (nat \<Rightarrow> nat \<Rightarrow> 'a option) \<Rightarrow> 'a \<Rightarrow> bytes \<Rightarrow> nat \<Rightarrow> 'a option" where
  "prelogin_walk opt found absent body i =
     (if \<not> i < length body then Some absent
      else case byte_at body i of
          None \<Rightarrow> None
        | Some tok \<Rightarrow>
            if tok = 0xFF then Some absent
            else if length body < i + 5 then Some absent
            else case (be16 body (i + 1), be16 body (i + 3)) of
                (Some off, Some ln) \<Rightarrow>
                  if tok = opt then found off ln
                  else prelogin_walk opt found absent body (i + 5)
              | _ \<Rightarrow> None)"
  by pat_completeness auto
termination
  by (relation "measure (\<lambda>(opt, found, absent, body, i). length body - i)") auto

declare prelogin_walk.simps [simp del]

definition PreloginEncryption :: "bytes \<Rightarrow> byte option" where
  "PreloginEncryption body =
     prelogin_walk 0x01
       (\<lambda>off ln. if 1 \<le> ln \<and> off < length body then byte_at body off else Some EncryptNotSup)
       EncryptNotSup body 0"

definition PreloginRequestsMARS :: "bytes \<Rightarrow> bool option" where
  "PreloginRequestsMARS body =
     prelogin_walk 0x04
       (\<lambda>off ln. if 1 \<le> ln \<and> off < length body then map_option (\<lambda>b. b = 0x01) (byte_at body off)
                 else Some False)
       False body 0"


subsection \<open>LOGIN7\<close>

record login7_info =
  liUser :: string
  liDatabase :: string
  liPassField :: bytes
  liIntegrated :: bool
  liFedAuth :: bool
  liProfile :: "64 word"

text \<open>\<^verbatim>\<open>hash/fnv\<close>, 64-bit FNV-1a.\<close>

definition fnv64a_offset :: "64 word" where "fnv64a_offset = 14695981039346656037"
definition fnv64a_write :: "64 word \<Rightarrow> bytes \<Rightarrow> 64 word" where
  "fnv64a_write h bs = foldl (\<lambda>h b. (h XOR ucast b) * 1099511628211) h bs"

text \<open>The loop of \<^verbatim>\<open>LoginProfile\<close> over the FeatureExt block.\<close>

function profile_walk :: "bytes \<Rightarrow> nat \<Rightarrow> 64 word \<Rightarrow> (64 word) option" where
  "profile_walk body p h =
     (if \<not> p < length body then Some h
      else case byte_at body p of
          None \<Rightarrow> None
        | Some b \<Rightarrow>
            if b = 0xFF then Some (fnv64a_write h [0xFF])
            else if length body < p + 5 then Some h
            else case le32 body (p + 1) of
                None \<Rightarrow> None
              | Some dl \<Rightarrow>
                  if length body < p + 5 + dl then Some h
                  else case slice body p (p + 5 + dl) of
                      None \<Rightarrow> None
                    | Some f \<Rightarrow> profile_walk body (p + (5 + dl)) (fnv64a_write h f))"
  by pat_completeness auto
termination
  by (relation "measure (\<lambda>(body, p, h). length body - p)") auto

declare profile_walk.simps [simp del]

definition LoginProfile :: "bytes \<Rightarrow> (64 word) option" where
  "LoginProfile body =
     (case (if 36 \<le> length body
            then case (slice body 4 12, slice body 24 28, slice body 32 36) of
                (Some a, Some b, Some c) \<Rightarrow> Some (fnv64a_write (fnv64a_write (fnv64a_write fnv64a_offset a) b) c)
              | _ \<Rightarrow> None
            else Some fnv64a_offset) of
        None \<Rightarrow> None
      | Some h \<Rightarrow>
          if length body < 58 then Some h
          else case byte_at body 27 of
              None \<Rightarrow> None
            | Some fl \<Rightarrow>
                if fl AND 0x10 = 0 then Some h
                else case le16 body 56 of
                    None \<Rightarrow> None
                  | Some ptr \<Rightarrow>
                      if length body < ptr + 4 then Some h
                      else case le32 body ptr of
                          None \<Rightarrow> None
                        | Some blk \<Rightarrow> profile_walk body blk h)"

function fedAuth_walk :: "bytes \<Rightarrow> nat \<Rightarrow> bool option" where
  "fedAuth_walk body p =
     (if \<not> p < length body then Some True
      else case byte_at body p of
          None \<Rightarrow> None
        | Some b \<Rightarrow>
            if b = 0xFF then Some False
            else if b = 0x02 then Some True
            else if length body < p + 5 then Some True
            else case le32 body (p + 1) of
                None \<Rightarrow> None
              | Some dlen \<Rightarrow>
                  if length body < p + 5 + dlen then Some True
                  else fedAuth_walk body (p + (5 + dlen)))"
  by pat_completeness auto
termination
  by (relation "measure (\<lambda>(body, p). length body - p)") auto

declare fedAuth_walk.simps [simp del]

definition fedAuth :: "bytes \<Rightarrow> bool option" where
  "fedAuth body =
     (if length body < 58 then Some False
      else case byte_at body 27 of
          None \<Rightarrow> None
        | Some fl \<Rightarrow>
            if fl AND 0x10 = 0 then Some False
            else case le16 body 56 of
                None \<Rightarrow> None
              | Some ptr \<Rightarrow>
                  if length body < ptr + 4 then Some True
                  else case le32 body ptr of
                      None \<Rightarrow> None
                    | Some block \<Rightarrow>
                        if length body \<le> block then Some True else fedAuth_walk body block)"

text \<open>The closure \<^verbatim>\<open>str\<close> of \<^verbatim>\<open>ParseLogin7\<close>; the inner option is its \<^verbatim>\<open>ok\<close>.\<close>

definition login_str :: "bytes \<Rightarrow> nat \<Rightarrow> nat \<Rightarrow> (string \<times> bytes) option option" where
  "login_str body ibOff cchOff =
     (case (le16 body ibOff, le16 body cchOff) of
        (Some ib, Some cch) \<Rightarrow>
          if length body < ib + cch * 2 then Some None
          else map_option (\<lambda>f. Some (decodeUTF16LE f, f)) (slice body ib (ib + cch * 2))
      | _ \<Rightarrow> None)"

definition ParseLogin7 :: "bytes \<Rightarrow> login7_info option option" where
  "ParseLogin7 body =
     (if length body < 72 then Some None
      else case (login_str body 40 42, login_str body 44 46, login_str body 68 70) of
          (Some (Some (user, _)), Some (Some (_, pass)), Some (Some (db, _))) \<Rightarrow>
            (case (byte_at body 25, fedAuth body, LoginProfile body) of
               (Some fl, Some fed, Some prof) \<Rightarrow>
                 Some (Some \<lparr>liUser = user, liDatabase = db, liPassField = pass,
                   liIntegrated = (fl AND 0x80 \<noteq> 0), liFedAuth = fed, liProfile = prof\<rparr>)
             | _ \<Rightarrow> None)
        | (Some _, Some _, Some _) \<Rightarrow> Some None
        | _ \<Rightarrow> None)"

text \<open>
  The pool key, \<^verbatim>\<open>tds-proxy/main.go\<close>: backend address, user, database and two hashes in
  hexadecimal, separated by bars.
\<close>

fun hex_nat :: "nat \<Rightarrow> string" where
  "hex_nat n =
     (let d = (\<lambda>k. if k < 10 then char_of (48 + k) else char_of (87 + k :: nat))
      in if n < 16 then [d n] else hex_nat (n div 16) @ [d (n mod 16)])"

declare hex_nat.simps [simp del]

definition poolKey :: "string \<Rightarrow> login7_info \<Rightarrow> string" where
  "poolKey backendAddr info =
     backendAddr @ ''|'' @ liUser info @ ''|'' @ liDatabase info @ ''|'' @
     hex_nat (unat (fnv64a_write fnv64a_offset (liPassField info))) @ ''|'' @ hex_nat (unat (liProfile info))"

subsection \<open>Framing\<close>

lemma ReadPacket_raw:
  assumes "headerLen \<le> length w" and "length w = 256 * unat (w ! 2) + unat (w ! 3)"
  shows "ReadPacket (w @ x) =
    Inr (\<lparr>pType = w ! 0, pStatus = w ! 1, pRaw = w, pBody = drop headerLen w\<rparr>, x)"
proof -
  have "unat (w ! 2) < 256" "unat (w ! 3) < 256"
    using unsigned_less [of "w ! 2", where ?'a = nat] unsigned_less [of "w ! 3", where ?'a = nat] by simp_all
  then have "length w \<le> 2 ^ 20" using assms(2) by simp
  with assms show ?thesis
    by (auto simp: ReadPacket_def ReadFull_def Let_def headerLen_def nth_append)
qed

lemma packet_eq_raw:
  "ReadPacket r = Inr (p, r') \<Longrightarrow>
    p = \<lparr>pType = pRaw p ! 0, pStatus = pRaw p ! 1, pRaw = pRaw p, pBody = drop headerLen (pRaw p)\<rparr>"
  by (rule packet.equality) (simp_all add: ReadPacket_Inr(3-5) del: One_nat_def)

lemma ReadPacket_prefix: "ReadPacket r = Inr (p, r') \<Longrightarrow> ReadPacket (pRaw p @ x) = Inr (p, x)"
  using ReadPacket_raw [of "pRaw p" x] ReadPacket_Inr(2,6) [of r p r'] packet_eq_raw [of r p r'] by argo

lemma loop_EOM:
  "ReadPacket r = Inr (p, r') \<Longrightarrow> EOM p \<Longrightarrow>
    ReadMessage_loop t b w r = Inr ((if w = [] then pType p else t, b @ pBody p, w @ pRaw p), r')"
  by (subst ReadMessage_loop.simps) (simp add: Let_def)

lemma loop_more:
  "ReadPacket r = Inr (p, r') \<Longrightarrow> \<not> EOM p \<Longrightarrow>
    ReadMessage_loop t b w r = ReadMessage_loop (if w = [] then pType p else t) (b @ pBody p) (w @ pRaw p) r'"
  by (subst ReadMessage_loop.simps) (simp add: Let_def)

text \<open>What a successful loop adds depends on the input only, and it is exactly what it consumes.\<close>

lemma loop_consumes:
  "ReadMessage_loop t b w r = Inr ((t', b', w'), r') \<Longrightarrow>
    \<exists>b2 w2. b' = b @ b2 \<and> w' = w @ w2 \<and> r = w2 @ r' \<and> headerLen \<le> length w2 \<and>
      t' = (if w = [] then w2 ! 0 else t) \<and>
      (\<forall>t0 b0 w0 x. ReadMessage_loop t0 b0 w0 (w2 @ x) =
         Inr ((if w0 = [] then w2 ! 0 else t0, b0 @ b2, w0 @ w2), x))"
proof (induction t b w r arbitrary: b' w' r' rule: ReadMessage_loop.induct)
  case (1 t b w r)
  from "1.prems" obtain p r1 where p: "ReadPacket r = Inr (p, r1)"
    by (subst (asm) ReadMessage_loop.simps) auto
  note P = ReadPacket_Inr [OF p]
  show ?case
  proof (cases "EOM p")
    case True
    with "1.prems" loop_EOM [OF p True, of t b w] have
      "b' = b @ pBody p" "w' = w @ pRaw p" "r' = r1" "t' = (if w = [] then pType p else t)"
      by simp_all
    with P loop_EOM [OF ReadPacket_prefix [OF p] True] show ?thesis
      by (intro exI [of _ "pBody p"] exI [of _ "pRaw p"]) auto
  next
    case False
    from "1.prems" loop_more [OF p False, of t b w] have
      "ReadMessage_loop (if w = [] then pType p else t) (b @ pBody p) (w @ pRaw p) r1 = Inr ((t', b', w'), r')"
      by simp
    from "1.IH" [OF p refl _ _ _ False this] obtain b2 w2 where
      ih: "b' = (b @ pBody p) @ b2" "w' = (w @ pRaw p) @ w2" "r1 = w2 @ r'" "headerLen \<le> length w2"
        "t' = (if w @ pRaw p = [] then w2 ! 0 else if w = [] then pType p else t)"
        "\<And>t0 b0 w0 x. ReadMessage_loop t0 b0 w0 (w2 @ x) =
           Inr ((if w0 = [] then w2 ! 0 else t0, b0 @ b2, w0 @ w2), x)"
      by blast
    have ne: "pRaw p \<noteq> []" using P(2) by (auto simp: headerLen_def)
    then have head: "(pRaw p @ w2) ! 0 = pType p" using P(4) by (simp add: nth_append)
    have "ReadMessage_loop t0 b0 w0 ((pRaw p @ w2) @ x) =
        Inr ((if w0 = [] then (pRaw p @ w2) ! 0 else t0, b0 @ (pBody p @ b2), w0 @ (pRaw p @ w2)), x)" for t0 b0 w0 x
      using loop_more [OF ReadPacket_prefix [OF p] False] ih(6) head ne by simp
    with ih(1-5) P(1,2) head ne show ?thesis
      by (intro exI [of _ "pBody p @ b2"] exI [of _ "pRaw p @ w2"]) auto
  qed
qed

text \<open>
  The proxy relays what it read: the raw bytes of a message are exactly the bytes consumed
  from the connection, at least one packet header of them, and the message type is its first
  byte. Reading them again gives the same message and leaves what follows.
\<close>

theorem message_is_verbatim:
  assumes "ReadMessage r = Inr ((t, body, raw), rest)"
  shows "r = raw @ rest \<and> headerLen \<le> length raw \<and> t = raw ! 0 \<and>
    ReadMessage (raw @ later) = Inr ((t, body, raw), later)"
  using loop_consumes [OF assms [unfolded ReadMessage_def]] unfolding ReadMessage_def by auto

definition tds_packet :: "byte \<Rightarrow> byte \<Rightarrow> bytes \<Rightarrow> bytes" where
  "tds_packet t st payload =
     (let len = headerLen + length payload in [t, st, of_nat (len div 256), of_nat len, 0, 0, 0, 0] @ payload)"

theorem message_is_verbatim_witness:
  "ReadMessage (tds_packet 1 0 [65] @ tds_packet 1 1 [66] @ [7]) =
     Inr ((1, [65, 66], tds_packet 1 0 [65] @ tds_packet 1 1 [66]), [7]) \<and>
   ReadMessage ((tds_packet 1 0 [65] @ tds_packet 1 1 [66]) @ []) =
     Inr ((1, [65, 66], tds_packet 1 0 [65] @ tds_packet 1 1 [66]), [])"
proof -
  have "ReadMessage (tds_packet 1 0 [65] @ tds_packet 1 1 [66] @ [7]) =
     Inr ((1, [65, 66], tds_packet 1 0 [65] @ tds_packet 1 1 [66]), [7])"
    by (simp add: ReadMessage_def ReadMessage_loop.simps ReadPacket_def ReadFull_def tds_packet_def Let_def
        headerLen_def EOM_def statusEOM_def)
  with message_is_verbatim [OF this, of "[]"] show ?thesis by blast
qed

lemma ReadPacket_tds_packet:
  assumes "headerLen + length payload < 2 ^ 16"
  shows "ReadPacket (tds_packet t st payload @ x) =
    Inr (\<lparr>pType = t, pStatus = st, pRaw = tds_packet t st payload, pBody = payload\<rparr>, x)"
proof -
  let ?len = "headerLen + length payload" and ?w = "tds_packet t st payload"
  have "unat (of_nat (?len div 256) :: byte) = ?len div 256"
    using assms by (simp add: unat_of_nat less_mult_imp_div_less)
  moreover have "unat (of_nat ?len :: byte) = ?len mod 256" by (simp add: unat_of_nat del: of_nat_add)
  ultimately have "256 * unat (?w ! 2) + unat (?w ! 3) = ?len"
    by (simp add: tds_packet_def Let_def)
  then show ?thesis
    using ReadPacket_raw [of ?w x] by (simp add: tds_packet_def Let_def headerLen_def)
qed

lemma loop_packets:
  assumes "\<forall>q \<in> set (ps @ [(t1, st1, b1)]). headerLen + length (snd (snd q)) < 2 ^ 16"
    and "\<forall>q \<in> set ps. fst (snd q) AND statusEOM = 0" and "st1 AND statusEOM \<noteq> 0"
  shows "ReadMessage_loop t b w (concat (map (\<lambda>(t, st, d). tds_packet t st d) (ps @ [(t1, st1, b1)])) @ x) =
    Inr ((if w = [] then fst (hd (ps @ [(t1, st1, b1)])) else t,
          b @ concat (map (\<lambda>q. snd (snd q)) (ps @ [(t1, st1, b1)])),
          w @ concat (map (\<lambda>(t, st, d). tds_packet t st d) (ps @ [(t1, st1, b1)]))), x)"
  using assms(1,2)
proof (induction ps arbitrary: t b w)
  case Nil
  with assms(3) loop_EOM [OF ReadPacket_tds_packet [of b1 t1 st1 x]] show ?case by (simp add: EOM_def)
next
  case (Cons q ps)
  obtain t0 st0 d0 where q: "q = (t0, st0, d0)" by (cases q)
  have "tds_packet t0 st0 d0 \<noteq> []" by (simp add: tds_packet_def Let_def)
  with Cons q loop_more [OF ReadPacket_tds_packet [of d0 t0 st0]] show ?case by (simp add: EOM_def)
qed

text \<open>
  Round trip of framing. A message cut into any packets, all but the last without the
  end-of-message bit, is reassembled: the type of its first packet, the payloads in order, and
  the same raw bytes; the bytes after it are left.
\<close>

theorem packets_reassemble:
  assumes "\<forall>q \<in> set (ps @ [(t1, st1, b1)]). headerLen + length (snd (snd q)) < 2 ^ 16"
    and "\<forall>q \<in> set ps. fst (snd q) AND statusEOM = 0" and "st1 AND statusEOM \<noteq> 0"
  shows "ReadMessage (concat (map (\<lambda>(t, st, d). tds_packet t st d) (ps @ [(t1, st1, b1)])) @ x) =
    Inr ((fst (hd (ps @ [(t1, st1, b1)])), concat (map (\<lambda>q. snd (snd q)) (ps @ [(t1, st1, b1)])),
          concat (map (\<lambda>(t, st, d). tds_packet t st d) (ps @ [(t1, st1, b1)]))), x)"
  using loop_packets [OF assms, of 0 "[]" "[]" x] by (simp add: ReadMessage_def)

theorem packets_reassemble_witness:
  "ReadMessage (tds_packet 1 0 [65, 0] @ tds_packet 1 1 [66, 0]) =
     Inr ((1, [65, 0, 66, 0], tds_packet 1 0 [65, 0] @ tds_packet 1 1 [66, 0]), [])"
  using packets_reassemble [of "[(1, 0, [65, 0])]" 1 1 "[66, 0]" "[]"]
  by (simp add: headerLen_def statusEOM_def)

subsection \<open>Resetting a reused connection\<close>

lemma EOM_reset: "(s OR statusResetConnection) AND statusEOM = s AND statusEOM"
  by (simp add: statusResetConnection_def statusEOM_def bit.conj_disj_distrib2)

lemma reset_nth:
  "headerLen \<le> length w \<Longrightarrow> WithResetConnection w ! 0 = w ! 0 \<and>
    WithResetConnection w ! 1 = (w ! 1) OR statusResetConnection \<and>
    WithResetConnection w ! 2 = w ! 2 \<and> WithResetConnection w ! 3 = w ! 3 \<and>
    drop headerLen (WithResetConnection w) = drop headerLen w"
  by (simp add: WithResetConnection_def headerLen_def)

lemma reset_length [simp]: "length (WithResetConnection w) = length w"
  by (simp add: WithResetConnection_def)

lemma reset_append: "headerLen \<le> length w \<Longrightarrow> WithResetConnection (w @ v) = WithResetConnection w @ v"
  by (simp add: WithResetConnection_def headerLen_def list_update_append nth_append)

lemma ReadPacket_reset:
  assumes "ReadPacket r = Inr (p, r')"
  shows "ReadPacket (WithResetConnection (pRaw p) @ x) =
    Inr (p\<lparr>pStatus := pStatus p OR statusResetConnection, pRaw := WithResetConnection (pRaw p)\<rparr>, x)"
proof -
  note P = ReadPacket_Inr [OF assms]
  have "ReadPacket (WithResetConnection (pRaw p) @ x) =
      Inr (\<lparr>pType = pRaw p ! 0, pStatus = (pRaw p ! 1) OR statusResetConnection,
        pRaw = WithResetConnection (pRaw p), pBody = drop headerLen (pRaw p)\<rparr>, x)"
    using ReadPacket_raw [of "WithResetConnection (pRaw p)" x] reset_nth [OF P(2)] P(2,6) by simp
  with P(3,4,5) show ?thesis by (cases p) simp
qed

text \<open>
  Asking the server to reset a reused connection changes one bit: the message still reads
  as one message of the same type and payload, with the reset bit set in its first status
  byte and every other byte as the client sent it.
\<close>

theorem reset_keeps_message:
  assumes "ReadMessage r = Inr ((t, body, raw), rest)"
  shows "ReadMessage (WithResetConnection raw @ later) = Inr ((t, body, WithResetConnection raw), later) \<and>
    (WithResetConnection raw ! 1) AND statusResetConnection = statusResetConnection \<and>
    (\<forall>i < length raw. i \<noteq> 1 \<longrightarrow> WithResetConnection raw ! i = raw ! i)"
proof -
  from assms obtain p r1 where p: "ReadPacket r = Inr (p, r1)"
    unfolding ReadMessage_def by (subst (asm) ReadMessage_loop.simps) auto
  note P = ReadPacket_Inr [OF p] and R = ReadPacket_reset [OF p]
  let ?w = "WithResetConnection (pRaw p)"
  let ?p = "p\<lparr>pStatus := pStatus p OR statusResetConnection, pRaw := ?w\<rparr>"
  have eom: "EOM ?p \<longleftrightarrow> EOM p" by (simp add: EOM_def EOM_reset)
  have "ReadMessage (WithResetConnection raw @ later) = Inr ((t, body, WithResetConnection raw), later)"
  proof (cases "EOM p")
    case True
    with assms loop_EOM [OF p True, of 0 "[]" "[]"] have "raw = pRaw p" "t = pType p" "body = pBody p"
      by (simp_all add: ReadMessage_def)
    with loop_EOM [OF R [of later], of 0 "[]" "[]"] True eom show ?thesis by (simp add: ReadMessage_def)
  next
    case False
    have ne: "pRaw p \<noteq> []" "?w \<noteq> []" using P(2) reset_length [of "pRaw p"]
      by (force simp: headerLen_def simp del: reset_length)+
    from assms loop_more [OF p False, of 0 "[]" "[]"] have
      "ReadMessage_loop (pType p) (pBody p) (pRaw p) r1 = Inr ((t, body, raw), rest)"
      by (simp add: ReadMessage_def)
    from loop_consumes [OF this] ne obtain b2 w2 where
      "body = pBody p @ b2" "raw = pRaw p @ w2" "t = pType p"
      "\<And>t0 b0 w0 x. ReadMessage_loop t0 b0 w0 (w2 @ x) = Inr ((if w0 = [] then w2 ! 0 else t0, b0 @ b2, w0 @ w2), x)"
      by auto
    with loop_more [OF R [of "w2 @ later"], of 0 "[]" "[]"] False eom ne P(2) show ?thesis
      by (simp add: ReadMessage_def reset_append)
  qed
  moreover have len: "headerLen \<le> length raw"
    using loop_consumes [OF assms [unfolded ReadMessage_def]] by auto
  moreover have "(WithResetConnection raw ! 1) AND statusResetConnection = statusResetConnection"
    using reset_nth [OF len] by (simp add: statusResetConnection_def bit.conj_disj_distrib2)
  ultimately show ?thesis by (auto simp: WithResetConnection_def headerLen_def)
qed

theorem reset_keeps_message_witness:
  "ReadMessage (WithResetConnection (tds_packet 1 1 [65, 0]) @ []) =
     Inr ((1, [65, 0], WithResetConnection (tds_packet 1 1 [65, 0])), [])"
proof -
  have "ReadMessage (tds_packet 1 1 [65, 0]) = Inr ((1, [65, 0], tds_packet 1 1 [65, 0]), [])"
    by (simp add: ReadMessage_def ReadMessage_loop.simps ReadPacket_def ReadFull_def tds_packet_def Let_def
        headerLen_def EOM_def statusEOM_def)
  from reset_keeps_message [OF this, of "[]"] show ?thesis by blast
qed

subsection \<open>No parser panics\<close>

lemma byte_at_Some [simp]: "i < length b \<Longrightarrow> byte_at b i = Some (b ! i)"
  by (simp add: byte_at_def)

lemma le16_Some: "i + 2 \<le> length b \<Longrightarrow> \<exists>n. le16 b i = Some n"
  by (simp add: le16_def)

lemma le32_Some: "i + 4 \<le> length b \<Longrightarrow> \<exists>n. le32 b i = Some n"
  by (simp add: le32_def)

lemma be16_Some: "i + 2 \<le> length b \<Longrightarrow> \<exists>n. be16 b i = Some n"
  by (simp add: be16_def)

lemma slice_Some: "i \<le> j \<Longrightarrow> j \<le> length b \<Longrightarrow> slice b i j = Some (take (j - i) (drop i b))"
  by (simp add: slice_def)

lemma allHeadersLen_Some: "\<exists>n \<le> length body. allHeadersLen body = Some n"
  by (auto simp: allHeadersLen_def le32_def)

lemma BatchText_total: "BatchText body \<noteq> None"
  using allHeadersLen_Some [of body] by (auto simp: BatchText_def Let_def slice_def)

lemma RPCProc_total: "RPCProc body \<noteq> None"
proof -
  from allHeadersLen_Some [of body] obtain n where n: "allHeadersLen body = Some n" "n \<le> length body" by auto
  show ?thesis
  proof (cases "length body < n + 2")
    case False
    let ?p = "drop n body"
    have p: "slice body n (length body) = Some ?p" using n(2) by (simp add: slice_def)
    have "2 \<le> length ?p" using False by simp
    then obtain m where m: "le16 ?p 0 = Some m" using le16_Some [of 0 ?p] by auto
    show ?thesis
      using n(1) False p m le16_Some [of 2 ?p] slice_Some [of 2 "2 + m * 2" ?p]
      by (auto simp: RPCProc_def)
  qed (simp add: RPCProc_def n(1))
qed

lemma TxMgrRequestType_total: "TxMgrRequestType body \<noteq> None"
  using allHeadersLen_Some [of body] le16_Some [of _ body] by (auto simp: TxMgrRequestType_def)

lemma prelogin_walk_total:
  "(\<And>off ln. found off ln \<noteq> None) \<Longrightarrow> prelogin_walk opt found absent body i \<noteq> None"
proof (induction opt found absent body i rule: prelogin_walk.induct)
  case (1 opt found absent body i)
  show ?case
  proof (cases "i + 5 \<le> length body")
    case True
    with be16_Some [of "i + 1" body] be16_Some [of "i + 3" body] obtain off ln where
      "be16 body (i + 1) = Some off" "be16 body (i + 3) = Some ln" by auto
    with 1 True show ?thesis by (subst prelogin_walk.simps) (auto simp: byte_at_def)
  next
    case False
    then show ?thesis by (subst prelogin_walk.simps) (auto simp: byte_at_def)
  qed
qed

lemma profile_walk_total: "profile_walk body p h \<noteq> None"
proof (induction body p h rule: profile_walk.induct)
  case (1 body p h)
  show ?case
  proof (cases "p + 5 \<le> length body")
    case True
    with le32_Some [of "p + 1" body] obtain dl where dl: "le32 body (p + 1) = Some dl" by auto
    show ?thesis
      using 1 True dl slice_Some [of p "p + 5 + dl" body]
      by (subst profile_walk.simps) (auto simp: byte_at_def)
  next
    case False
    then show ?thesis by (subst profile_walk.simps) (auto simp: byte_at_def)
  qed
qed

lemma fedAuth_walk_total: "fedAuth_walk body p \<noteq> None"
proof (induction body p rule: fedAuth_walk.induct)
  case (1 body p)
  show ?case
  proof (cases "p + 5 \<le> length body")
    case True
    with le32_Some [of "p + 1" body] obtain dl where dl: "le32 body (p + 1) = Some dl" by auto
    show ?thesis
      using 1 True dl by (subst fedAuth_walk.simps) (auto simp: byte_at_def)
  next
    case False
    then show ?thesis by (subst fedAuth_walk.simps) (auto simp: byte_at_def)
  qed
qed

lemma fedAuth_total: "fedAuth body \<noteq> None"
  by (auto simp: fedAuth_def byte_at_def le16_def le32_def fedAuth_walk_total simp del: not_None_eq)

lemma LoginProfile_total: "LoginProfile body \<noteq> None"
  by (auto simp: LoginProfile_def byte_at_def le16_def le32_def slice_def profile_walk_total
      simp del: not_None_eq)

lemma login_str_total: "j + 2 \<le> length body \<Longrightarrow> i + 2 \<le> length body \<Longrightarrow> login_str body i j \<noteq> None"
  using le16_Some [of i body] le16_Some [of j body] by (auto simp: login_str_def slice_def)

lemma ParseLogin7_total: "ParseLogin7 body \<noteq> None"
proof (cases "length body < 72")
  case False
  then have "login_str body 40 42 \<noteq> None" "login_str body 44 46 \<noteq> None" "login_str body 68 70 \<noteq> None"
    by (simp_all add: login_str_total del: not_None_eq)
  with False fedAuth_total [of body] LoginProfile_total [of body] show ?thesis
    by (auto simp: ParseLogin7_def split: option.splits)
qed (simp add: ParseLogin7_def)

text \<open>
  No client byte sequence makes the proxy panic: every index and slice of the parsers of
  requests, PRELOGIN and LOGIN7 stays inside the message.
\<close>

theorem parsers_never_panic:
  "BatchText body \<noteq> None \<and> RPCProc body \<noteq> None \<and> TxMgrRequestType body \<noteq> None \<and>
   PreloginEncryption body \<noteq> None \<and> PreloginRequestsMARS body \<noteq> None \<and> ParseLogin7 body \<noteq> None"
  unfolding PreloginEncryption_def PreloginRequestsMARS_def
  by (intro conjI BatchText_total RPCProc_total TxMgrRequestType_total ParseLogin7_total prelogin_walk_total)
     (simp_all add: byte_at_def del: not_None_eq)

subsection \<open>PRELOGIN\<close>

text \<open>
  The synthesised PRELOGIN answer is one well-framed end-of-message packet of type server
  reply whose encryption option reads back as the one asked for and which does not grant MARS;
  the synthesised client PRELOGIN is one too and offers no encryption.
\<close>

theorem prelogin_roundtrip:
  "\<exists>p. ReadPacket (BuildPreloginResponseEnc enc) = Inr (p, []) \<and> EOM p \<and> pType p = TypeTabular \<and>
     PreloginEncryption (pBody p) = Some enc \<and> PreloginRequestsMARS (pBody p) = Some False \<and>
   (\<exists>q. ReadPacket BuildClientPrelogin = Inr (q, []) \<and> EOM q \<and> pType q = TypePreLogin \<and>
     PreloginEncryption (pBody q) = Some EncryptNotSup)"
proof -
  let ?b = "prelogin_payload enc"
  have 1: "ReadPacket (BuildPreloginResponseEnc enc) =
      Inr (\<lparr>pType = TypeTabular, pStatus = statusEOM, pRaw = BuildPreloginResponseEnc enc, pBody = prelogin_payload enc\<rparr>, [])" for enc
    by (simp add: ReadPacket_def ReadFull_def BuildPreloginResponseEnc_def prelogin_payload_def Let_def headerLen_def)
  have 2: "ReadPacket BuildClientPrelogin =
      Inr (\<lparr>pType = TypePreLogin, pStatus = statusEOM, pRaw = BuildClientPrelogin, pBody = prelogin_payload EncryptNotSup\<rparr>, [])"
    by (simp add: ReadPacket_def ReadFull_def BuildClientPrelogin_def BuildPreloginResponseEnc_def
        prelogin_payload_def Let_def headerLen_def)
  have 3: "PreloginEncryption (prelogin_payload enc) = Some enc" for enc
    by (simp add: PreloginEncryption_def prelogin_walk.simps prelogin_payload_def byte_at_def be16_def)
  have 4: "PreloginRequestsMARS ?b = Some False"
    by (simp add: PreloginRequestsMARS_def prelogin_walk.simps prelogin_payload_def byte_at_def be16_def)
  from 1 2 3 4 show ?thesis by (auto simp: EOM_def statusEOM_def)
qed

subsection \<open>Federated logins\<close>

text \<open>A feature of the FeatureExt block: its id, its length and its data.\<close>

definition feature :: "byte \<Rightarrow> bytes \<Rightarrow> bytes \<Rightarrow> bool" where
  "feature k d enc \<longleftrightarrow> (\<exists>a b c e. enc = k # a # b # c # e # d \<and> le32 [a, b, c, e] 0 = Some (length d))"

lemma drop5:
  "p + 5 \<le> length b \<Longrightarrow>
    drop p b = b ! p # b ! (p + 1) # b ! (p + 1 + 1) # b ! (p + 1 + 2) # b ! (p + 1 + 3) # drop (p + 5) b"
  by (intro nth_equalityI) (auto simp: nth_Cons numeral_eq_Suc split: nat.splits)

lemma feature_at:
  assumes "p + 5 \<le> length body" and "le32 body (p + 1) = Some dl" and "p + 5 + dl \<le> length body"
  shows "feature (body ! p) (take dl (drop (p + 5) body)) (take (5 + dl) (drop p body))"
proof -
  obtain a b c e where hd: "drop p body = body ! p # a # b # c # e # drop (p + 5) body"
      and at: "a = body ! (p + 1)" "b = body ! (p + 1 + 1)" "c = body ! (p + 1 + 2)" "e = body ! (p + 1 + 3)"
    using drop5 [OF assms(1)] by blast
  have "le32 [a, b, c, e] 0 = Some dl" using assms(2) by (simp add: le32_def at split: if_splits)
  moreover have "take (5 + dl) (drop p body) = body ! p # a # b # c # e # take dl (drop (p + 5) body)"
    by (simp add: hd numeral_eq_Suc)
  ultimately show ?thesis using assms(3) by (auto simp: feature_def min_def)
qed

lemma fedAuth_walk_False:
  "fedAuth_walk body p = Some False \<Longrightarrow>
    \<exists>fs rest. drop p body = concat (map (\<lambda>(k, d, enc). enc) fs) @ 0xFF # rest \<and>
      (\<forall>(k, d, enc) \<in> set fs. feature k d enc \<and> k \<noteq> 0x02 \<and> k \<noteq> 0xFF)"
proof (induction body p rule: fedAuth_walk.induct)
  case (1 body p)
  from "1.prems" have p: "p < length body" by (subst (asm) fedAuth_walk.simps) (auto split: if_splits)
  show ?case
  proof (cases "body ! p = 0xFF")
    case True
    with p have "drop p body = 0xFF # drop (Suc p) body" by (metis Cons_nth_drop_Suc)
    then show ?thesis by (intro exI [of _ "[]"] exI [of _ "drop (Suc p) body"]) simp
  next
    case False
    with "1.prems" p obtain dl where ne: "body ! p \<noteq> 0x02" and fit: "p + 5 \<le> length body"
        and dl: "le32 body (p + 1) = Some dl" and fit': "p + 5 + dl \<le> length body"
        and next_ok: "fedAuth_walk body (p + (5 + dl)) = Some False"
      by (subst (asm) fedAuth_walk.simps) (auto split: if_splits option.splits)
    have "\<not> length body < p + 5 + dl" "\<not> length body < p + 5" using fit fit' by simp_all
    with "1.IH" [of "body ! p" dl] p False ne dl next_ok obtain fs rest where
      ih: "drop (p + (5 + dl)) body = concat (map (\<lambda>(k, d, enc). enc) fs) @ 0xFF # rest"
      "\<forall>(k, d, enc) \<in> set fs. feature k d enc \<and> k \<noteq> 0x02 \<and> k \<noteq> 0xFF"
      by auto
    let ?f = "(body ! p, take dl (drop (p + 5) body), take (5 + dl) (drop p body))"
    have "drop p body = take (5 + dl) (drop p body) @ drop (p + (5 + dl)) body"
      by (metis append_take_drop_id drop_drop add.commute)
    with ih feature_at [OF fit dl fit'] ne False show ?thesis
      by (intro exI [of _ "?f # fs"] exI [of _ rest]) auto
  qed
qed

text \<open>
  Federated logins are never pooled by mistake. If a LOGIN7 of full size that announces a
  FeatureExt block is taken for a password login, then the block it points to is a sequence of
  complete features none of which is FEDAUTH, closed by the terminator.
\<close>

theorem fedAuth_fails_safe:
  assumes "fedAuth body = Some False" and "58 \<le> length body" and "(body ! 27) AND 0x10 \<noteq> 0"
  shows "\<exists>ptr block fs rest. le16 body 56 = Some ptr \<and> le32 body ptr = Some block \<and>
    drop block body = concat (map (\<lambda>(k, d, enc). enc) fs) @ 0xFF # rest \<and>
    (\<forall>(k, d, enc) \<in> set fs. feature k d enc \<and> k \<noteq> 0x02 \<and> k \<noteq> 0xFF)"
proof -
  from assms obtain ptr block where "le16 body 56 = Some ptr" "le32 body ptr = Some block"
      "fedAuth_walk body block = Some False"
    by (auto simp: fedAuth_def split: if_splits option.splits)
  with fedAuth_walk_False [of body block] show ?thesis by blast
qed

definition login_with_features :: "bytes \<Rightarrow> bytes" where
  "login_with_features fx = (replicate 58 0)[27 := 0x10, 56 := 58] @ [62, 0, 0, 0] @ fx"

theorem fedAuth_fails_safe_witness:
  "fedAuth (login_with_features [0x0A, 1, 0, 0, 0, 1, 0xFF]) = Some False \<and>
   fedAuth (login_with_features [0x0A, 1, 0, 0, 0, 1]) = Some True \<and>
   (\<exists>ptr block. le16 (login_with_features [0x0A, 1, 0, 0, 0, 1, 0xFF]) 56 = Some ptr \<and>
     le32 (login_with_features [0x0A, 1, 0, 0, 0, 1, 0xFF]) ptr = Some block)"
proof -
  have 1: "fedAuth (login_with_features [0x0A, 1, 0, 0, 0, 1, 0xFF]) = Some False"
    "fedAuth (login_with_features [0x0A, 1, 0, 0, 0, 1]) = Some True"
    by (simp_all add: fedAuth_def fedAuth_walk.simps login_with_features_def le16_def le32_def byte_at_def nth_append)
  have "58 \<le> length (login_with_features [0x0A, 1, 0, 0, 0, 1, 0xFF])"
    "(login_with_features [0x0A, 1, 0, 0, 0, 1, 0xFF] ! 27) AND 0x10 \<noteq> 0"
    by (simp_all add: login_with_features_def nth_append)
  from fedAuth_fails_safe [OF 1(1) this] 1 show ?thesis by blast
qed

subsection \<open>Pool keys\<close>

text \<open>
  The pool key does not separate its fields: a user \<^verbatim>\<open>a|b\<close> of database \<^verbatim>\<open>c\<close> and a user
  \<^verbatim>\<open>a\<close> of database \<^verbatim>\<open>b|c\<close> with the same password share one key, and so one pool of
  logged-in backend connections.
\<close>

theorem poolKey_mixes_users:
  "liPassField i = liPassField j \<and> liProfile i = liProfile j \<longrightarrow>
   poolKey addr (i\<lparr>liUser := ''a|b'', liDatabase := ''c''\<rparr>) = poolKey addr (j\<lparr>liUser := ''a'', liDatabase := ''b|c''\<rparr>)"
  by (simp add: poolKey_def)

definition some_login :: login7_info where
  "some_login = \<lparr>liUser = [], liDatabase = [], liPassField = [1], liIntegrated = False, liFedAuth = False, liProfile = 0\<rparr>"

theorem poolKey_mixes_users_witness:
  "poolKey ''db:1433'' (some_login\<lparr>liUser := ''a|b'', liDatabase := ''c''\<rparr>) =
   poolKey ''db:1433'' (some_login\<lparr>liUser := ''a'', liDatabase := ''b|c''\<rparr>)"
  using poolKey_mixes_users [of some_login some_login "''db:1433''"] by blast

end
