(* ===== verification/Regex.thy ===== *)
theory Regex
  imports Prelude
begin

text \<open>
  The part of Go's \<^verbatim>\<open>regexp\<close> the program uses, as regular expressions over bytes with
  derivatives. \<open>re_match\<close> is \<^verbatim>\<open>MatchString\<close> of an expression without anchors,
  \<open>re_match_line\<close> of an expression that starts with \<^verbatim>\<open>(?m)^\<close>. Both are proved to be what
  the language \<open>lang\<close> of the expression says. A trailing word boundary is a parameter of the
  search. Case folding follows Go: the letters \<^verbatim>\<open>s\<close> and \<^verbatim>\<open>k\<close> of a case-insensitive
  expression also match U+017F and U+212A.
\<close>

datatype rexp =
    RNone
  | REps
  | RSet "char \<Rightarrow> bool"
  | RSeq rexp rexp
  | RAlt rexp rexp
  | RStar rexp

inductive lang :: "rexp \<Rightarrow> string \<Rightarrow> bool" where
  lang_eps: "lang REps []"
| lang_set: "P c \<Longrightarrow> lang (RSet P) [c]"
| lang_seq: "lang r u \<Longrightarrow> lang s v \<Longrightarrow> lang (RSeq r s) (u @ v)"
| lang_alt1: "lang r u \<Longrightarrow> lang (RAlt r s) u"
| lang_alt2: "lang s u \<Longrightarrow> lang (RAlt r s) u"
| lang_star0: "lang (RStar r) []"
| lang_star: "lang r u \<Longrightarrow> lang (RStar r) v \<Longrightarrow> lang (RStar r) (u @ v)"

inductive_cases lang_noneE [elim!]: "lang RNone u"
inductive_cases lang_epsE [elim!]: "lang REps u"
inductive_cases lang_setE [elim!]: "lang (RSet P) u"
inductive_cases lang_seqE [elim!]: "lang (RSeq r s) u"
inductive_cases lang_altE [elim!]: "lang (RAlt r s) u"
inductive_cases lang_starE: "lang (RStar r) u"

fun nullable :: "rexp \<Rightarrow> bool" where
  "nullable RNone = False"
| "nullable REps = True"
| "nullable (RSet P) = False"
| "nullable (RSeq r s) = (nullable r \<and> nullable s)"
| "nullable (RAlt r s) = (nullable r \<or> nullable s)"
| "nullable (RStar r) = True"

text \<open>Smart constructors keep derivatives small.\<close>

fun mk_seq :: "rexp \<Rightarrow> rexp \<Rightarrow> rexp" where
  "mk_seq RNone s = RNone"
| "mk_seq REps s = s"
| "mk_seq r s = RSeq r s"

fun mk_alt :: "rexp \<Rightarrow> rexp \<Rightarrow> rexp" where
  "mk_alt RNone s = s"
| "mk_alt r RNone = r"
| "mk_alt r s = RAlt r s"

fun deriv :: "char \<Rightarrow> rexp \<Rightarrow> rexp" where
  "deriv c RNone = RNone"
| "deriv c REps = RNone"
| "deriv c (RSet P) = (if P c then REps else RNone)"
| "deriv c (RSeq r s) =
     (if nullable r then mk_alt (mk_seq (deriv c r) s) (deriv c s) else mk_seq (deriv c r) s)"
| "deriv c (RAlt r s) = mk_alt (deriv c r) (deriv c s)"
| "deriv c (RStar r) = mk_seq (deriv c r) (RStar r)"

lemma lang_simps [simp]:
  "lang RNone u \<longleftrightarrow> False"
  "lang REps u \<longleftrightarrow> u = []"
  "lang (RSet P) u \<longleftrightarrow> (\<exists>c. u = [c] \<and> P c)"
  "lang (RAlt r s) u \<longleftrightarrow> lang r u \<or> lang s u"
  by (auto intro: lang.intros)

lemma lang_RSeq: "lang (RSeq r s) u \<longleftrightarrow> (\<exists>a b. u = a @ b \<and> lang r a \<and> lang s b)"
  by (auto intro: lang.intros)

lemma lang_mk_seq [simp]: "lang (mk_seq r s) u \<longleftrightarrow> lang (RSeq r s) u"
  by (cases "(r, s)" rule: mk_seq.cases) (auto simp: lang_RSeq)

lemma lang_mk_alt [simp]: "lang (mk_alt r s) u \<longleftrightarrow> lang r u \<or> lang s u"
  by (cases "(r, s)" rule: mk_alt.cases) auto

lemma nullable_lang: "nullable r \<longleftrightarrow> lang r []"
  by (induction r) (auto simp: lang_RSeq intro: lang.intros)

lemma lang_star_Cons: "lang (RStar r) (c # u) \<longleftrightarrow> (\<exists>a b. u = a @ b \<and> lang r (c # a) \<and> lang (RStar r) b)"
proof
  have "lang q w \<Longrightarrow> q = RStar r \<Longrightarrow> w = c # u \<Longrightarrow>
      \<exists>a b. u = a @ b \<and> lang r (c # a) \<and> lang (RStar r) b" for q w
  proof (induction q w arbitrary: u rule: lang.induct)
    case (lang_star r' x v)
    then show ?case by (cases x) auto
  qed auto
  then show "lang (RStar r) (c # u) \<Longrightarrow> \<exists>a b. u = a @ b \<and> lang r (c # a) \<and> lang (RStar r) b" by blast
next
  show "\<exists>a b. u = a @ b \<and> lang r (c # a) \<and> lang (RStar r) b \<Longrightarrow> lang (RStar r) (c # u)"
    using lang.lang_star by (metis append_Cons)
qed

lemma deriv_lang: "lang (deriv c r) u \<longleftrightarrow> lang r (c # u)"
proof (induction r arbitrary: u)
  case (RSeq r s)
  have "lang (RSeq r s) (c # u) \<longleftrightarrow>
      (lang r [] \<and> lang s (c # u)) \<or> (\<exists>a b. u = a @ b \<and> lang r (c # a) \<and> lang s b)"
    by (auto simp: lang_RSeq append_eq_Cons_conv Cons_eq_append_conv)
  with RSeq show ?case by (auto simp: nullable_lang lang_RSeq)
next
  case (RStar r)
  then show ?case by (simp add: lang_star_Cons lang_RSeq)
qed auto

text \<open>
  Does a match of \<open>r\<close> start at the beginning of the text, such that \<open>ok\<close> holds of what is
  left? The condition is the word boundary at the end of an expression, or nothing.
\<close>

fun match_here :: "(string \<Rightarrow> bool) \<Rightarrow> rexp \<Rightarrow> string \<Rightarrow> bool" where
  "match_here ok r [] = (nullable r \<and> ok [])"
| "match_here ok r (c # u) = ((nullable r \<and> ok (c # u)) \<or> match_here ok (deriv c r) u)"

fun re_search :: "(string \<Rightarrow> bool) \<Rightarrow> rexp \<Rightarrow> string \<Rightarrow> bool" where
  "re_search ok r [] = match_here ok r []"
| "re_search ok r (c # u) = (match_here ok r (c # u) \<or> re_search ok r u)"

definition re_match :: "rexp \<Rightarrow> string \<Rightarrow> bool" where
  "re_match r s = re_search (\<lambda>_. True) r s"

text \<open>\<^verbatim>\<open>(?m)^\<close>: a match may start at the beginning of every line.\<close>

fun later_lines :: "rexp \<Rightarrow> string \<Rightarrow> bool" where
  "later_lines r [] = False"
| "later_lines r (c # u) = ((c = CHR 0x0A \<and> match_here (\<lambda>_. True) r u) \<or> later_lines r u)"

definition re_match_line :: "rexp \<Rightarrow> string \<Rightarrow> bool" where
  "re_match_line r s \<longleftrightarrow> match_here (\<lambda>_. True) r s \<or> later_lines r s"

lemma match_here_iff: "match_here ok r s \<longleftrightarrow> (\<exists>a b. s = a @ b \<and> lang r a \<and> ok b)"
proof (induction s arbitrary: r)
  case (Cons c u)
  have "(\<exists>a b. c # u = a @ b \<and> lang r a \<and> ok b) \<longleftrightarrow>
      (lang r [] \<and> ok (c # u)) \<or> (\<exists>a b. u = a @ b \<and> lang r (c # a) \<and> ok b)"
    by (auto simp: Cons_eq_append_conv)
  with Cons show ?case by (simp add: nullable_lang deriv_lang)
qed (simp add: nullable_lang)

lemma re_search_iff: "re_search ok r s \<longleftrightarrow> (\<exists>x a b. s = x @ a @ b \<and> lang r a \<and> ok b)"
proof (induction s)
  case (Cons c u)
  have "(\<exists>x a b. c # u = x @ a @ b \<and> lang r a \<and> ok b) \<longleftrightarrow>
      (\<exists>a b. c # u = a @ b \<and> lang r a \<and> ok b) \<or> (\<exists>x a b. u = x @ a @ b \<and> lang r a \<and> ok b)"
    by (auto simp: Cons_eq_append_conv) (metis append_Cons)+
  with Cons show ?case by (simp add: match_here_iff)
qed (simp add: nullable_lang)

text \<open>The two searches are what the language says.\<close>

lemma re_match_iff: "re_match r s \<longleftrightarrow> (\<exists>x a b. s = x @ a @ b \<and> lang r a)"
  by (simp add: re_match_def re_search_iff)

lemma later_lines_iff: "later_lines r s \<longleftrightarrow> (\<exists>x a b. s = x @ CHR 0x0A # a @ b \<and> lang r a)"
proof (induction s)
  case (Cons c u)
  have "(\<exists>x a b. c # u = x @ CHR 0x0A # a @ b \<and> lang r a) \<longleftrightarrow>
      (c = CHR 0x0A \<and> (\<exists>a b. u = a @ b \<and> lang r a)) \<or> (\<exists>x a b. u = x @ CHR 0x0A # a @ b \<and> lang r a)"
    by (auto simp: Cons_eq_append_conv)
  with Cons show ?case by (simp add: match_here_iff)
qed simp

declare match_here.simps [simp del] re_search.simps [simp del] later_lines.simps [simp del]

subsection \<open>Building expressions\<close>

definition re_space :: rexp where
  "re_space = RSet (\<lambda>c. c \<in> {CHR '' '', CHR 0x09, CHR 0x0A, CHR 0x0C, CHR 0x0D})"

definition is_word :: "char \<Rightarrow> bool" where
  "is_word c \<longleftrightarrow> (let n = of_char c :: nat in
     (48 \<le> n \<and> n \<le> 57) \<or> (65 \<le> n \<and> n \<le> 90) \<or> (97 \<le> n \<and> n \<le> 122) \<or> n = 95)"

text \<open>A word boundary after a word character: the next one is not a word character.\<close>

definition boundary :: "string \<Rightarrow> bool" where
  "boundary rest \<longleftrightarrow> (case rest of [] \<Rightarrow> True | c # _ \<Rightarrow> \<not> is_word c)"

definition re_plus :: "rexp \<Rightarrow> rexp" where
  "re_plus r = RSeq r (RStar r)"

definition re_bytes :: "string \<Rightarrow> rexp" where
  "re_bytes s = foldr (\<lambda>c r. RSeq (RSet (\<lambda>x. x = c)) r) s REps"

text \<open>One letter of a case-insensitive expression.\<close>

definition re_fold_char :: "char \<Rightarrow> rexp" where
  "re_fold_char c =
     (let both = RSet (\<lambda>x. lower_char x = c)
      in if c = CHR ''s'' then RAlt both (re_bytes [CHR 0xC5, CHR 0xBF])
         else if c = CHR ''k'' then RAlt both (re_bytes [CHR 0xE2, CHR 0x84, CHR 0xAA])
         else both)"

definition re_ci :: "string \<Rightarrow> rexp" where
  "re_ci s = foldr (\<lambda>c r. RSeq (re_fold_char c) r) s REps"

definition re_any :: rexp where
  "re_any = RStar (RSet (\<lambda>_. True))"

definition re_concat :: "rexp list \<Rightarrow> rexp" where
  "re_concat rs = foldr RSeq rs REps"

lemma lang_re_ci_lower: "map lower_char s = w \<Longrightarrow> lang (re_ci w) s"
proof (induction w arbitrary: s)
  case (Cons c w)
  then obtain x s' where s: "s = x # s'" "lower_char x = c" "map lower_char s' = w" by auto
  then have "lang (re_fold_char c) [x]" by (simp add: re_fold_char_def Let_def)
  with Cons.IH [OF s(3)] have "lang (RSeq (re_fold_char c) (re_ci w)) ([x] @ s')" by (intro lang_seq)
  with s(1) show ?case by (simp add: re_ci_def)
qed (simp add: re_ci_def)

text \<open>The letters of a folded class \<^verbatim>\<open>[a-z_]\<close> or \<^verbatim>\<open>\w\<close>.\<close>

definition re_fold_class :: "(char \<Rightarrow> bool) \<Rightarrow> rexp" where
  "re_fold_class P = RAlt (RSet P) (RAlt (re_bytes [CHR 0xC5, CHR 0xBF]) (re_bytes [CHR 0xE2, CHR 0x84, CHR 0xAA]))"

end
