(* ===== verification/Classify.thy ===== *)
theory Classify
  imports Tds Regex
begin

text \<open>
  The pin classifier of the SQL Server proxy: \<^verbatim>\<open>tds-proxy/classify/classify.go\<close>.

  A \<open>Verdict\<close> is the Go struct; the reason is one constructor per message (the name of the
  SET option that the message text repeats is left out). The eleven regular expressions are
  those of the source.
\<close>

subsection \<open>Verdicts\<close>

datatype reason =
    NoReason
  | LongStatement
  | IsolationLevel
  | SessionContext
  | TempTable
  | Cursor
  | UseDatabase
  | ExplicitTransaction
  | AppLock
  | WaitFor
  | SetOption
  | UnparseableRPC
  | PreparedHandle string
  | RPCCursor string
  | UnrecognizedRPC string
  | BulkLoadStream
  | TxManagerRequest
  | UnrecognizedType string

record Verdict =
  Pin :: bool
  Reason :: reason
  Prelude :: bool
  Txn :: bool
  ImplicitTxn :: bool

definition multiplexable :: Verdict where
  "multiplexable = \<lparr>Pin = False, Reason = NoReason, Prelude = False, Txn = False, ImplicitTxn = False\<rparr>"

definition pin :: "reason \<Rightarrow> Verdict" where
  "pin r = \<lparr>Pin = True, Reason = r, Prelude = False, Txn = False, ImplicitTxn = False\<rparr>"

subsection \<open>Patterns\<close>

abbreviation sp_star :: rexp where "sp_star \<equiv> RStar re_space"
abbreviation sp_plus :: rexp where "sp_plus \<equiv> re_plus re_space"

definition reSetOption :: rexp where
  "reSetOption = re_concat [sp_star, re_ci ''set'', sp_plus,
     re_plus (re_fold_class (\<lambda>c. let n = of_char (lower_char c) :: nat in 97 \<le> n \<and> n \<le> 122 \<or> n = 95))]"
definition reIsolation :: rexp where
  "reIsolation = re_concat [re_ci ''set'', sp_plus, re_ci ''transaction'', sp_plus, re_ci ''isolation'', sp_plus, re_ci ''level'']"
definition reContextI :: rexp where
  "reContextI = re_concat [re_ci ''set'', sp_plus, re_ci ''context_info'']"
definition reTempTable :: rexp where
  "reTempTable = re_concat [re_ci ''create'', sp_plus, re_ci ''table'', sp_plus, re_ci ''#'']"
definition reCursor :: rexp where
  "reCursor = re_concat [re_ci ''declare'', sp_plus, re_any, sp_plus, re_ci ''cursor'']"
definition reUseDB :: rexp where
  "reUseDB = re_concat [sp_star, re_ci ''use'', sp_plus, re_fold_class is_word]"
definition reBeginTran :: rexp where
  "reBeginTran = re_concat [re_ci ''begin'', sp_plus, re_ci ''tran'', RAlt REps (re_ci ''saction'')]"
definition reAppLock :: rexp where
  "reAppLock = re_ci ''sp_getapplock''"
definition reWaitFor :: rexp where
  "reWaitFor = re_concat [sp_star, re_ci ''waitfor'', re_space]"
definition reSetContext :: rexp where
  "reSetContext = re_ci ''sp_set_session_context''"
definition reImplicitTx :: rexp where
  "reImplicitTx = re_concat [re_ci ''set'', sp_plus, re_ci ''implicit_transactions'', sp_plus, re_ci ''on'']"

definition maxStatementBytes :: nat where
  "maxStatementBytes = 16 * 1024"

subsection \<open>Batches\<close>

text \<open>\<^verbatim>\<open>strings.FieldsFunc\<close>: the non-empty pieces between separators.\<close>

fun split_by :: "(char \<Rightarrow> bool) \<Rightarrow> string \<Rightarrow> string list" where
  "split_by P [] = [[]]"
| "split_by P (c # s) =
     (if P c then [] # split_by P s
      else case split_by P s of [] \<Rightarrow> [[c]] | w # ws \<Rightarrow> (c # w) # ws)"

definition fields_func :: "(char \<Rightarrow> bool) \<Rightarrow> string \<Rightarrow> string list" where
  "fields_func P s = filter (\<lambda>w. w \<noteq> []) (split_by P s)"

fun isSetOnly_loop :: "bool \<Rightarrow> string list \<Rightarrow> bool" where
  "isSetOnly_loop found [] = found"
| "isSetOnly_loop found (raw # raws) =
     (let stmt = trim_space raw
      in if stmt = [] then isSetOnly_loop found raws
         else if re_match reContextI stmt \<or> re_match reSetContext stmt then False
         else if re_match reIsolation stmt \<or> re_match_line reSetOption stmt then isSetOnly_loop True raws
         else False)"

definition isSetOnly :: "string \<Rightarrow> bool" where
  "isSetOnly txt = isSetOnly_loop False (fields_func (\<lambda>r. r = CHR '';'' \<or> r = CHR 0x0A) txt)"

definition classifyBatch :: "string \<Rightarrow> Verdict" where
  "classifyBatch txt =
     (if maxStatementBytes < length txt then pin LongStatement
      else if re_match reIsolation txt then (pin IsolationLevel)\<lparr>Prelude := isSetOnly txt\<rparr>
      else if re_match reContextI txt \<or> re_match reSetContext txt then pin SessionContext
      else if re_match reTempTable txt then pin TempTable
      else if re_search boundary reCursor txt then pin Cursor
      else if re_match_line reUseDB txt then pin UseDatabase
      else if re_search boundary reBeginTran txt then (pin ExplicitTransaction)\<lparr>Txn := True\<rparr>
      else if re_match reAppLock txt then pin AppLock
      else if re_match_line reWaitFor txt then pin WaitFor
      else if re_match_line reSetOption txt
      then (pin SetOption)\<lparr>Prelude := isSetOnly txt, ImplicitTxn := re_search boundary reImplicitTx txt\<rparr>
      else multiplexable)"

subsection \<open>Remote procedure calls\<close>

definition readOnlyCatalogRPC :: "string list" where
  "readOnlyCatalogRPC =
     [''sp_column_privileges'', ''sp_column_privileges_ex'', ''sp_columns'', ''sp_columns_ex'',
      ''sp_columns_100'', ''sp_databases'', ''sp_datatype_info'', ''sp_datatype_info_100'', ''sp_fkeys'',
      ''sp_pkeys'', ''sp_server_info'', ''sp_special_columns'', ''sp_special_columns_100'',
      ''sp_sproc_columns'', ''sp_sproc_columns_100'', ''sp_statistics'', ''sp_statistics_100'',
      ''sp_stored_procedures'', ''sp_table_privileges'', ''sp_table_privileges_ex'', ''sp_tables'',
      ''sp_tables_ex'']"

text \<open>What follows the last dot (\<^verbatim>\<open>LastIndexByte\<close>), without brackets, in lower case.\<close>

definition normalizeProc :: "string \<Rightarrow> string" where
  "normalizeProc proc =
     (let p = to_lower (trim_space proc);
          p' = (if CHR ''.'' \<in> set p then rev (takeWhile (\<lambda>c. c \<noteq> CHR ''.'') (rev p)) else p)
      in filter (\<lambda>c. c \<noteq> CHR ''['' \<and> c \<noteq> CHR '']'') p')"

definition handleFreeRPC :: "string list" where
  "handleFreeRPC = [''sp_executesql'', ''sp_execute'', ''sp_unprepare'', ''sp_cursorclose'', ''sp_cursorunprepare'']"

definition classifyRPC :: "string \<Rightarrow> Verdict" where
  "classifyRPC proc =
     (if proc = [] then pin UnparseableRPC
      else
        let name = normalizeProc proc
        in if name \<in> set handleFreeRPC then multiplexable
           else if name \<in> set readOnlyCatalogRPC then multiplexable
           else if name \<in> {''sp_prepare'', ''sp_prepexec'', ''sp_prepexecrpc''} then pin (PreparedHandle name)
           else if name \<in> {''sp_cursor'', ''sp_cursoropen'', ''sp_cursorprepare'', ''sp_cursorprepexec'',
                           ''sp_cursorexecute'', ''sp_cursorfetch'', ''sp_cursoroption''}
           then pin (RPCCursor name)
           else pin (UnrecognizedRPC proc))"

text \<open>
  \<^verbatim>\<open>Classify\<close>. None is a panic of the parsers it calls; there is none.
\<close>

definition Classify :: "byte \<Rightarrow> bytes \<Rightarrow> Verdict option" where
  "Classify msgType body =
     (if msgType = TypeSQLBatch then map_option classifyBatch (BatchText body)
      else if msgType = TypeRPC then map_option classifyRPC (RPCProc body)
      else if msgType = TypeBulkLoad then Some (pin BulkLoadStream)
      else if msgType = TypeTxMgr then Some ((pin TxManagerRequest)\<lparr>Txn := True\<rparr>)
      else if msgType \<in> {TypeLogin7, TypePreLogin, TypeSSPI, TypeFedAuth, TypeAttention}
      then Some multiplexable
      else Some (pin (UnrecognizedType (TypeName msgType))))"

subsection \<open>Reading the patterns\<close>

definition sql_space :: "char \<Rightarrow> bool" where
  "sql_space c \<longleftrightarrow> c \<in> {CHR '' '', CHR 0x09, CHR 0x0A, CHR 0x0C, CHR 0x0D}"

lemma lang_star_set: "(\<forall>c \<in> set w. P c) \<Longrightarrow> lang (RStar (RSet P)) w"
proof (induction w)
  case (Cons c w)
  then have "lang (RStar (RSet P)) ([c] @ w)" by (intro lang_star) auto
  then show ?case by simp
qed (rule lang_star0)

lemma lang_sp_star: "(\<forall>c \<in> set w. sql_space c) \<Longrightarrow> lang sp_star w"
  unfolding re_space_def by (rule lang_star_set) (simp add: sql_space_def)

lemma lang_sp_plus: "w \<noteq> [] \<Longrightarrow> (\<forall>c \<in> set w. sql_space c) \<Longrightarrow> lang sp_plus w"
proof (cases w)
  case (Cons c v)
  moreover assume "\<forall>c \<in> set w. sql_space c"
  ultimately have "lang (RSeq re_space sp_star) ([c] @ v)"
    by (intro lang_seq lang_sp_star) (auto simp: re_space_def sql_space_def)
  then show ?thesis by (simp add: re_plus_def Cons)
qed simp

lemma lang_concat:
  "lang (re_concat []) u \<longleftrightarrow> u = []"
  "lang (re_concat (r # rs)) u \<longleftrightarrow> (\<exists>a b. u = a @ b \<and> lang r a \<and> lang (re_concat rs) b)"
  by (simp_all add: re_concat_def lang_RSeq)

lemma lang_concat0: "lang (re_concat []) []"
  by (simp add: lang_concat)

lemma lang_concat1: "lang r a \<Longrightarrow> lang (re_concat rs) b \<Longrightarrow> lang (re_concat (r # rs)) (a @ b)"
  by (auto simp: lang_concat)

text \<open>A folded literal needs its letters: a text without one of them does not match.\<close>

definition plain_letter :: "char \<Rightarrow> bool" where
  "plain_letter c \<longleftrightarrow> c \<noteq> CHR ''s'' \<and> c \<noteq> CHR ''k''"

lemma re_ci_needs:
  "lang (re_ci w) a \<Longrightarrow> c \<in> set w \<Longrightarrow> plain_letter c \<Longrightarrow> \<exists>x \<in> set a. lower_char x = c"
proof (induction w arbitrary: a)
  case (Cons d w)
  from Cons.prems(1) obtain p q where a: "a = p @ q" "lang (re_fold_char d) p" "lang (re_ci w) q"
    by (auto simp: re_ci_def)
  show ?case
  proof (cases "c = d")
    case True
    with a(2) Cons.prems(3) have "\<exists>x \<in> set p. lower_char x = c"
      by (auto simp: re_fold_char_def Let_def plain_letter_def)
    with a(1) show ?thesis by auto
  next
    case False
    with Cons a show ?thesis by auto
  qed
qed simp

lemma no_match_without:
  assumes "plain_letter c" and "c \<in> set w" and "re_ci w \<in> set rs" and "\<forall>x \<in> set txt. lower_char x \<noteq> c"
  shows "\<not> re_search ok (re_concat rs) txt"
proof
  have needs: "lang (re_concat rs) a \<Longrightarrow> re_ci w \<in> set rs \<Longrightarrow> \<exists>x \<in> set a. lower_char x = c" for a rs
  proof (induction rs arbitrary: a)
    case (Cons r rs)
    then obtain p q where "a = p @ q" "lang r p" "lang (re_concat rs) q" by (auto simp: lang_concat)
    with Cons re_ci_needs [OF _ assms(2,1), of p] show ?case by auto
  qed simp
  assume "re_search ok (re_concat rs) txt"
  then obtain x a b where "txt = x @ a @ b" "lang (re_concat rs) a" by (auto simp: re_search_iff)
  with needs [OF _ assms(3)] assms(4) show False by fastforce
qed

lemma re_searchI: "lang r a \<Longrightarrow> ok b \<Longrightarrow> re_search ok r (x @ a @ b)"
  by (auto simp: re_search_iff)

lemma match_here_search: "match_here ok r s \<Longrightarrow> re_search ok r s"
  by (cases s) (simp_all add: re_search.simps)

lemma no_line_match_without:
  assumes "plain_letter c" and "c \<in> set w" and "re_ci w \<in> set rs" and "\<forall>x \<in> set txt. lower_char x \<noteq> c"
  shows "\<not> re_match_line (re_concat rs) txt"
proof -
  have "\<not> later_lines (re_concat rs) s" if "\<forall>x \<in> set s. lower_char x \<noteq> c" for s
    using that
  proof (induction s)
    case (Cons y s)
    then have "\<not> re_search (\<lambda>_. True) (re_concat rs) s" using no_match_without [OF assms(1-3)] by simp
    with Cons show ?case using match_here_search by (auto simp: later_lines.simps)
  qed (simp add: later_lines.simps)
  moreover have "\<not> match_here (\<lambda>_. True) (re_concat rs) txt"
    using match_here_search no_match_without [OF assms] by blast
  ultimately show ?thesis using assms(4) by (simp add: re_match_line_def)
qed

subsection \<open>What multiplexing a message means\<close>

text \<open>A pattern occurs somewhere, as a whole word at its end, or at the start of a line.\<close>

definition occurs :: "rexp \<Rightarrow> string \<Rightarrow> bool" where
  "occurs r txt \<longleftrightarrow> (\<exists>x a b. txt = x @ a @ b \<and> lang r a)"

definition occurs_word :: "rexp \<Rightarrow> string \<Rightarrow> bool" where
  "occurs_word r txt \<longleftrightarrow> (\<exists>x a b. txt = x @ a @ b \<and> lang r a \<and> boundary b)"

definition starts_line :: "rexp \<Rightarrow> string \<Rightarrow> bool" where
  "starts_line r txt \<longleftrightarrow> (\<exists>x a b. txt = x @ a @ b \<and> (x = [] \<or> last x = CHR 0x0A) \<and> lang r a)"

lemma re_match_occurs: "re_match r txt \<longleftrightarrow> occurs r txt"
  by (simp add: re_match_iff occurs_def)

lemma re_search_occurs_word: "re_search boundary r txt \<longleftrightarrow> occurs_word r txt"
  by (simp add: re_search_iff occurs_word_def)

lemma re_match_line_starts: "re_match_line r txt \<longleftrightarrow> starts_line r txt"
proof -
  have "(\<exists>x a b. txt = x @ CHR 0x0A # a @ b \<and> lang r a) \<longleftrightarrow>
      (\<exists>x a b. txt = x @ a @ b \<and> (x \<noteq> [] \<and> last x = CHR 0x0A) \<and> lang r a)"
  proof (intro iffI; elim exE conjE)
    fix x a b assume "txt = x @ CHR 0x0A # a @ b" "lang r a"
    then show "\<exists>x a b. txt = x @ a @ b \<and> (x \<noteq> [] \<and> last x = CHR 0x0A) \<and> lang r a"
      by (intro exI [of _ "x @ [CHR 0x0A]"] exI [of _ a] exI [of _ b]) simp
  next
    fix x a b assume *: "txt = x @ a @ b" "x \<noteq> []" "last x = CHR 0x0A" "lang r a"
    then have "x = butlast x @ [CHR 0x0A]" using append_butlast_last_id by fastforce
    then have "txt = butlast x @ CHR 0x0A # a @ b" using *(1) by (metis append_Cons append_Nil append_assoc)
    with *(4) show "\<exists>x a b. txt = x @ CHR 0x0A # a @ b \<and> lang r a" by blast
  qed
  moreover have "(\<exists>x a b. txt = x @ a @ b \<and> (x = [] \<or> last x = CHR 0x0A) \<and> lang r a) \<longleftrightarrow>
      (\<exists>a b. txt = a @ b \<and> lang r a) \<or>
      (\<exists>x a b. txt = x @ a @ b \<and> (x \<noteq> [] \<and> last x = CHR 0x0A) \<and> lang r a)"
    by (metis append_Nil)
  ultimately show ?thesis
    by (simp add: re_match_line_def match_here_iff later_lines_iff starts_line_def)
qed

text \<open>
  A message is shared between clients only when it is harmless: it is a control message, a
  call of one of the listed handle-free or read-only procedures, or a batch of at most 16 KB in
  which no piece of text begins a transaction, creates a temporary table, declares a cursor,
  sets the session context or isolation level, takes an application lock, and no line starts
  with USE, WAITFOR or SET. Every message gets a verdict.
\<close>

theorem multiplexed_leaves_no_state:
  "\<exists>v. Classify t body = Some v \<and>
   (\<not> Pin v \<longrightarrow>
      t \<in> {TypeLogin7, TypePreLogin, TypeSSPI, TypeFedAuth, TypeAttention} \<or>
      (\<exists>proc. t = TypeRPC \<and> RPCProc body = Some proc \<and> proc \<noteq> [] \<and>
         normalizeProc proc \<in> set (handleFreeRPC @ readOnlyCatalogRPC)) \<or>
      (\<exists>batch. t = TypeSQLBatch \<and> BatchText body = Some batch \<and> length batch \<le> 16384 \<and>
         (\<forall>r \<in> {reIsolation, reContextI, reSetContext, reTempTable, reAppLock}. \<not> occurs r batch) \<and>
         (\<forall>r \<in> {reCursor, reBeginTran}. \<not> occurs_word r batch) \<and>
         (\<forall>r \<in> {reUseDB, reWaitFor, reSetOption}. \<not> starts_line r batch)))"
proof -
  obtain batch proc where tot: "BatchText body = Some batch" "RPCProc body = Some proc"
    using BatchText_total RPCProc_total by blast
  have rpc: "\<not> Pin (classifyRPC proc) \<Longrightarrow> proc \<noteq> [] \<and> normalizeProc proc \<in> set (handleFreeRPC @ readOnlyCatalogRPC)"
    by (auto simp: classifyRPC_def pin_def Let_def split: if_split_asm)
  have batch: "\<not> Pin (classifyBatch batch) \<Longrightarrow> length batch \<le> 16384 \<and>
     (\<forall>r \<in> {reIsolation, reContextI, reSetContext, reTempTable, reAppLock}. \<not> occurs r batch) \<and>
     (\<forall>r \<in> {reCursor, reBeginTran}. \<not> occurs_word r batch) \<and>
     (\<forall>r \<in> {reUseDB, reWaitFor, reSetOption}. \<not> starts_line r batch)"
    unfolding re_match_occurs [symmetric] re_search_occurs_word [symmetric] re_match_line_starts [symmetric]
    by (simp add: classifyBatch_def pin_def maxStatementBytes_def split: if_split_asm)
  have "t \<noteq> TypeRPC" if "t = TypeSQLBatch" using that by (simp add: tds_types)
  moreover have "\<exists>v. Classify t body = Some v" using tot by (simp add: Classify_def)
  moreover have "\<not> Pin v \<Longrightarrow> t = TypeSQLBatch \<and> \<not> Pin (classifyBatch batch) \<or> t = TypeRPC \<and> \<not> Pin (classifyRPC proc) \<or>
      t \<in> {TypeLogin7, TypePreLogin, TypeSSPI, TypeFedAuth, TypeAttention}" if "Classify t body = Some v" for v
    using that tot by (auto simp: Classify_def pin_def split: if_split_asm)
  ultimately show ?thesis using batch rpc tot by blast
qed

theorem multiplexed_leaves_no_state_witness:
  "\<exists>v. Classify TypeRPC [0xFF, 0xFF, 10, 0] = Some v \<and> \<not> Pin v"
proof -
  have name: "RPCProc [0xFF, 0xFF, 10, 0] = Some ''sp_executesql''"
    by (simp add: RPCProc_def allHeadersLen_def le32_def le16_def slice_def procIDName_def)
  have "normalizeProc ''sp_executesql'' = ''sp_executesql''" by code_simp
  with name have "Classify TypeRPC [0xFF, 0xFF, 10, 0] = Some multiplexable"
    by (simp add: Classify_def tds_types classifyRPC_def handleFreeRPC_def)
  with multiplexed_leaves_no_state [of TypeRPC "[0xFF, 0xFF, 10, 0]"] show ?thesis
    by (auto simp: multiplexable_def)
qed

text \<open>
  Letter case, position and the white space between the words make no difference: a batch
  that anywhere creates a temporary table or begins a transaction pins the backend.
\<close>

theorem triggers_pin_in_any_case:
  assumes "w1 \<noteq> []" and "w2 \<noteq> []" and "\<forall>c \<in> set (w1 @ w2). sql_space c"
    and "map lower_char k1 = ''create''" and "map lower_char k2 = ''table''"
    and "map lower_char b1 = ''begin''" and "map lower_char b2 = ''tran''" and "boundary z"
  shows "Pin (classifyBatch (x @ k1 @ w1 @ k2 @ w2 @ ''#'' @ y)) \<and> Pin (classifyBatch (x @ b1 @ w1 @ b2 @ z))"
proof -
  have w: "lang sp_plus w1" "lang sp_plus w2" using assms(1-3) lang_sp_plus by auto
  note l = lang_re_ci_lower [OF assms(4)] lang_re_ci_lower [OF assms(5)]
    lang_re_ci_lower [OF assms(6)] lang_re_ci_lower [OF assms(7)]
  have hash: "lang (re_ci ''#'') ''#''" by (rule lang_re_ci_lower) code_simp
  have "lang reTempTable (k1 @ w1 @ k2 @ w2 @ ''#'' @ [])"
    unfolding reTempTable_def by (intro lang_concat1 lang_concat0 l w hash)
  then have "lang reTempTable (k1 @ w1 @ k2 @ w2 @ ''#'')" by (simp only: append_Nil2)
  then have "re_match reTempTable (x @ k1 @ w1 @ k2 @ w2 @ ''#'' @ y)"
    unfolding re_match_iff by (metis append_assoc)
  moreover have "lang reBeginTran (b1 @ w1 @ b2 @ [] @ [])"
    unfolding reBeginTran_def by (intro lang_concat1 lang_concat0 l w lang_alt1 lang_eps)
  then have "lang reBeginTran (b1 @ w1 @ b2)" by (simp only: append_Nil2)
  then have "re_search boundary reBeginTran (x @ b1 @ w1 @ b2 @ z)"
    unfolding re_search_iff using assms(8) by (metis append_assoc)
  ultimately show ?thesis by (simp add: classifyBatch_def pin_def)
qed

theorem triggers_pin_in_any_case_witness:
  "Pin (classifyBatch ''select 1; Create  TABLE #t (a int)'') \<and> Pin (classifyBatch ''/* x */ BEGIN  Tran'')"
proof -
  have two: "Pin (classifyBatch (x @ ''Create'' @ ''  '' @ ''TABLE'' @ '' '' @ ''#'' @ y)) \<and>
      Pin (classifyBatch (x @ ''BEGIN'' @ ''  '' @ ''Tran'' @ []))" for x y
    by (rule triggers_pin_in_any_case) code_simp+
  from two [of "''select 1; ''" "''t (a int)''"] two [of "''/* x */ ''"] show ?thesis by simp
qed

subsection \<open>Opening batches\<close>

lemma set_option_at_start:
  assumes "map lower_char k = ''set''" and "w \<noteq> []" and "\<forall>c \<in> set w. sql_space c"
    and "97 \<le> (of_char (lower_char c) :: nat)" and "(of_char (lower_char c) :: nat) \<le> 122"
  shows "re_match_line reSetOption (k @ w @ c # rest)"
proof -
  have "lang (re_plus (re_fold_class (\<lambda>c. let n = of_char (lower_char c) :: nat in 97 \<le> n \<and> n \<le> 122 \<or> n = 95))) ([c] @ [])"
    unfolding re_plus_def using assms(4,5)
    by (intro lang_seq lang_star0) (simp add: re_fold_class_def Let_def)
  then have "lang reSetOption ([] @ k @ w @ [c] @ [])"
    unfolding reSetOption_def lang_concat
    using lang_re_ci_lower [OF assms(1)] lang_sp_plus [OF assms(2,3)] lang_star0 by fastforce
  then have "match_here (\<lambda>_. True) reSetOption ((k @ w @ [c]) @ rest)"
    unfolding match_here_iff by (metis append_Nil append_Nil2)
  then show ?thesis by (simp add: re_match_line_def)
qed

lemma low_set: "map lower_char ''SET'' = ''set''" "lower_char CHR ''S'' = CHR ''s''"
    "lower_char CHR ''E'' = CHR ''e''" "lower_char CHR ''T'' = CHR ''t''"
  by code_simp+

lemma low_letters: "lower_char CHR ''A'' = CHR ''a''" "lower_char CHR ''I'' = CHR ''i''"
  by code_simp+

lemma no_context_without_x:
  assumes "\<forall>x \<in> set txt. lower_char x \<noteq> CHR ''x''"
  shows "\<not> re_match reContextI txt" and "\<not> re_match reSetContext txt"
proof -
  have p: "plain_letter CHR ''x''" by (simp add: plain_letter_def)
  show "\<not> re_match reContextI txt"
    unfolding re_match_def reContextI_def
    by (rule no_match_without [OF p, of "''context_info''"]) (simp_all add: assms)
  have "\<not> re_search (\<lambda>_. True) (re_concat [reSetContext]) txt"
    unfolding reSetContext_def
    by (rule no_match_without [OF p, of "''sp_set_session_context''"]) (simp_all add: assms)
  then show "\<not> re_match reSetContext txt"
    by (auto simp: re_match_iff re_search_iff lang_concat)
qed

text \<open>
  The exception for login preludes does not see work behind a SET on the same line: an
  opening batch that sets an option and inserts a row is classified as a prelude, which the
  per-transaction relay replays on every backend it borrows later.
\<close>

theorem prelude_hides_work:
  "Pin (classifyBatch ''SET ARITHABORT ON INSERT t SELECT 1'') \<and> Prelude (classifyBatch ''SET ARITHABORT ON INSERT t SELECT 1'') \<and>
   \<not> Txn (classifyBatch ''SET ARITHABORT ON INSERT t SELECT 1'') \<and> \<not> ImplicitTxn (classifyBatch ''SET ARITHABORT ON INSERT t SELECT 1'')"
proof -
  let ?t = "''SET ARITHABORT ON INSERT t SELECT 1''"
  have low: "map lower_char ?t = ''set arithabort on insert t select 1''" by code_simp
  have absent: "\<forall>x \<in> set ?t. lower_char x \<noteq> c" if "c \<notin> set ''set arithabort on insert t select 1''" for c
    using that unfolding low [symmetric] by auto
  have plain: "plain_letter CHR ''#''" "plain_letter CHR ''d''" "plain_letter CHR ''g''" "plain_letter CHR ''w''"
      "plain_letter CHR ''_''" "plain_letter CHR ''x''" "plain_letter CHR ''m''" "plain_letter CHR ''u''"
    by (simp_all add: plain_letter_def)
  have set: "re_match_line reSetOption ?t"
    using set_option_at_start [of "''SET''" "'' ''" "CHR ''A''" "''RITHABORT ON INSERT t SELECT 1''"]
    by (simp add: low_set sql_space_def low_letters)
  have ctx: "\<not> re_match reContextI ?t" "\<not> re_match reSetContext ?t"
    using no_context_without_x [OF absent] by simp_all
  have imp: "\<not> re_search boundary reImplicitTx ?t"
    unfolding reImplicitTx_def
    by (rule no_match_without [OF plain(7) _ _ absent, of "''implicit_transactions''"]) simp_all
  have only: "isSetOnly ?t"
    using set ctx by (simp add: isSetOnly_def fields_func_def trim_space_def is_space_def)
  have tmp: "\<not> re_match reTempTable ?t"
    unfolding reTempTable_def re_match_def by (rule no_match_without [OF plain(1) _ _ absent, of "''#''"]) simp_all
  have cur: "\<not> re_search boundary reCursor ?t"
    unfolding reCursor_def by (rule no_match_without [OF plain(2) _ _ absent, of "''declare''"]) simp_all
  have beg: "\<not> re_search boundary reBeginTran ?t"
    unfolding reBeginTran_def by (rule no_match_without [OF plain(3) _ _ absent, of "''begin''"]) simp_all
  have wait: "\<not> re_match_line reWaitFor ?t"
    unfolding reWaitFor_def by (rule no_line_match_without [OF plain(4) _ _ absent, of "''waitfor''"]) simp_all
  have lock: "\<not> re_match reAppLock ?t"
    using no_match_without [OF plain(5) _ _ absent, of "''sp_getapplock''" "[reAppLock]" "\<lambda>_. True"]
    by (auto simp: re_match_def reAppLock_def re_search_iff lang_concat)
  have use: "\<not> re_match_line reUseDB ?t"
    unfolding reUseDB_def by (rule no_line_match_without [OF plain(8) _ _ absent, of "''use''"]) simp_all
  show ?thesis
    using set ctx imp only tmp cur beg wait lock use
    by (simp add: classifyBatch_def pin_def maxStatementBytes_def)
qed

text \<open>
  The flag for implicit transactions is lost when the same opening batch also sets the
  isolation level: the verdict is then decided by the isolation level alone.
\<close>

theorem isolation_hides_implicit_transactions:
  "re_search boundary reImplicitTx ''SET IMPLICIT_TRANSACTIONS ON; SET TRANSACTION ISOLATION LEVEL SERIALIZABLE'' \<and>
   \<not> ImplicitTxn (classifyBatch ''SET IMPLICIT_TRANSACTIONS ON; SET TRANSACTION ISOLATION LEVEL SERIALIZABLE'') \<and>
   Prelude (classifyBatch ''SET IMPLICIT_TRANSACTIONS ON; SET TRANSACTION ISOLATION LEVEL SERIALIZABLE'')"
proof -
  let ?a = "''SET IMPLICIT_TRANSACTIONS ON''" and ?b = "''SET TRANSACTION ISOLATION LEVEL''"
  let ?t = "''SET IMPLICIT_TRANSACTIONS ON; SET TRANSACTION ISOLATION LEVEL SERIALIZABLE''"
  have sp: "lang sp_plus '' ''" by (rule lang_sp_plus) (simp_all add: sql_space_def)
  have kw: "lang (re_ci ''set'') ''SET''" "lang (re_ci ''implicit_transactions'') ''IMPLICIT_TRANSACTIONS''"
      "lang (re_ci ''on'') ''ON''" "lang (re_ci ''transaction'') ''TRANSACTION''"
      "lang (re_ci ''isolation'') ''ISOLATION''" "lang (re_ci ''level'') ''LEVEL''"
    by (rule lang_re_ci_lower, code_simp)+
  have "lang reImplicitTx (''SET'' @ '' '' @ ''IMPLICIT_TRANSACTIONS'' @ '' '' @ ''ON'' @ [])"
    unfolding reImplicitTx_def by (intro lang_concat1 lang_concat0 sp kw)
  moreover have "?t = [] @ (''SET'' @ '' '' @ ''IMPLICIT_TRANSACTIONS'' @ '' '' @ ''ON'' @ []) @ ''; SET TRANSACTION ISOLATION LEVEL SERIALIZABLE''"
    by simp
  ultimately have imp: "re_search boundary reImplicitTx ?t"
    using re_searchI [of reImplicitTx "''SET'' @ '' '' @ ''IMPLICIT_TRANSACTIONS'' @ '' '' @ ''ON'' @ []" boundary
        "''; SET TRANSACTION ISOLATION LEVEL SERIALIZABLE''" "[]"]
    by (simp add: boundary_def is_word_def)
  have iso: "lang reIsolation (''SET'' @ '' '' @ ''TRANSACTION'' @ '' '' @ ''ISOLATION'' @ '' '' @ ''LEVEL'' @ [])"
    unfolding reIsolation_def by (intro lang_concat1 lang_concat0 sp kw)
  moreover have "?t = ''SET IMPLICIT_TRANSACTIONS ON; '' @ (''SET'' @ '' '' @ ''TRANSACTION'' @ '' '' @ ''ISOLATION'' @ '' '' @ ''LEVEL'' @ []) @ '' SERIALIZABLE''"
    by simp
  ultimately have isot: "re_match reIsolation ?t" unfolding re_match_iff by metis
  have "?b @ '' SERIALIZABLE'' = [] @ (''SET'' @ '' '' @ ''TRANSACTION'' @ '' '' @ ''ISOLATION'' @ '' '' @ ''LEVEL'' @ []) @ '' SERIALIZABLE''"
    by simp
  with iso have isob: "re_match reIsolation (?b @ '' SERIALIZABLE'')" unfolding re_match_iff by metis
  have seta: "re_match_line reSetOption ?a"
    using set_option_at_start [of "''SET''" "'' ''" "CHR ''I''" "''MPLICIT_TRANSACTIONS ON''"]
    by (simp add: low_set sql_space_def low_letters)
  have ctx: "\<not> re_match reContextI ?a" "\<not> re_match reSetContext ?a"
      "\<not> re_match reContextI (?b @ '' SERIALIZABLE'')" "\<not> re_match reSetContext (?b @ '' SERIALIZABLE'')"
    by (rule no_context_without_x, code_simp)+
  have "fields_func (\<lambda>r. r = CHR '';'' \<or> r = CHR 0x0A) ?t = [?a, '' '' @ ?b @ '' SERIALIZABLE'']"
    by (simp add: fields_func_def)
  moreover have "trim_space ?a = ?a" "trim_space ('' '' @ ?b @ '' SERIALIZABLE'') = ?b @ '' SERIALIZABLE''"
    by (simp_all add: trim_space_def is_space_def)
  ultimately have "isSetOnly ?t"
    using ctx isob seta by (simp add: isSetOnly_def Let_def del: append.simps)
  with imp isot show ?thesis by (simp add: classifyBatch_def pin_def maxStatementBytes_def)
qed

end
