(* ===== verification/ConnPool.thy ===== *)
theory ConnPool
  imports Tds Machine
begin

text \<open>
  The bounded pool of backend connections: \<^verbatim>\<open>tds-proxy/pool/pool.go\<close>.

  A buffered channel is a list (or, for the token channel, a number) with its capacity. The
  second \<^verbatim>\<open>select\<close> of \<^verbatim>\<open>Acquire\<close> picks any ready case, so it takes the case chosen as an
  argument. Around the pool, a \<open>world\<close> records which connections and reserved slots its users
  hold; its steps are the pool's operations as their users call them, in any interleaving.
\<close>

subsection \<open>The pool\<close>

record Backend =
  Conn :: nat
  Fresh :: bool

record sub =
  idle :: "Backend list"
  tokens :: nat
  loginResp :: "bytes option"

record Pool =
  subs :: "(string \<times> sub) list"
  maxConns :: nat
  prelogin :: "bytes option"

definition New :: "int \<Rightarrow> Pool" where
  "New maxPerKey = \<lparr>subs = [], maxConns = nat (if maxPerKey < 1 then 1 else maxPerKey), prelogin = None\<rparr>"

definition new_sub :: "nat \<Rightarrow> sub" where
  "new_sub m = \<lparr>idle = [], tokens = m, loginResp = None\<rparr>"

text \<open>\<^verbatim>\<open>subFor\<close>: the subpool of a key, made on first use. Every operation stores it back.\<close>

definition subFor :: "Pool \<Rightarrow> string \<Rightarrow> sub" where
  "subFor p key = (case lookup (subs p) key of None \<Rightarrow> new_sub (maxConns p) | Some s \<Rightarrow> s)"

definition set_sub :: "Pool \<Rightarrow> string \<Rightarrow> sub \<Rightarrow> Pool" where
  "set_sub p key s = p\<lparr>subs := put key s (subs p)\<rparr>"

datatype acquired =
    Warm Backend
  | Cold
  | TimedOut

datatype ready = IdleReady | TokenReady | TimerReady

text \<open>The first \<^verbatim>\<open>select\<close>: an idle backend if there is one.\<close>

definition acquire_idle :: "Pool \<Rightarrow> string \<Rightarrow> (Pool \<times> acquired) option" where
  "acquire_idle p key =
     (let s = subFor p key
      in case idle s of
           [] \<Rightarrow> None
         | b # bs \<Rightarrow> Some (set_sub p key (s\<lparr>idle := bs\<rparr>), Warm b))"

text \<open>The second \<^verbatim>\<open>select\<close>; None when the chosen case is not ready.\<close>

definition acquire_select :: "Pool \<Rightarrow> string \<Rightarrow> ready \<Rightarrow> (Pool \<times> acquired) option" where
  "acquire_select p key choice =
     (let s = subFor p key
      in case choice of
           IdleReady \<Rightarrow> acquire_idle p key
         | TokenReady \<Rightarrow>
             (case tokens s of
                0 \<Rightarrow> None
              | Suc n \<Rightarrow> Some (set_sub p key (s\<lparr>tokens := n\<rparr>), Cold))
         | TimerReady \<Rightarrow> Some (set_sub p key s, TimedOut))"

text \<open>\<^verbatim>\<open>Acquire\<close> without interference between its two selects.\<close>

definition Acquire :: "Pool \<Rightarrow> string \<Rightarrow> ready \<Rightarrow> (Pool \<times> acquired) option" where
  "Acquire p key choice =
     (case acquire_idle p key of Some r \<Rightarrow> Some r | None \<Rightarrow> acquire_select p key choice)"

text \<open>\<^verbatim>\<open>Discard\<close> and \<^verbatim>\<open>Return\<close> also give the connection they close.\<close>

definition Discard :: "Pool \<Rightarrow> string \<Rightarrow> Backend option \<Rightarrow> Pool \<times> nat option" where
  "Discard p key be =
     (let s = subFor p key
      in (set_sub p key (if tokens s < maxConns p then s\<lparr>tokens := tokens s + 1\<rparr> else s),
          map_option Conn be))"

definition Return :: "Pool \<Rightarrow> string \<Rightarrow> Backend \<Rightarrow> Pool \<times> nat option" where
  "Return p key be0 =
     (let be = be0\<lparr>Fresh := False\<rparr>; s = subFor p key
      in if length (idle s) < maxConns p
         then (set_sub p key (s\<lparr>idle := idle s @ [be]\<rparr>), None)
         else Discard (set_sub p key s) key (Some be))"

definition CaptureLogin :: "Pool \<Rightarrow> string \<Rightarrow> bytes \<Rightarrow> Pool" where
  "CaptureLogin p key resp =
     (let s = subFor p key
      in set_sub p key (case loginResp s of None \<Rightarrow> s\<lparr>loginResp := Some resp\<rparr> | Some _ \<Rightarrow> s))"

definition LoginResp :: "Pool \<Rightarrow> string \<Rightarrow> bytes option" where
  "LoginResp p key = loginResp (subFor p key)"

definition CapturePrelogin :: "Pool \<Rightarrow> bytes \<Rightarrow> Pool" where
  "CapturePrelogin p resp = (case prelogin p of None \<Rightarrow> p\<lparr>prelogin := Some resp\<rparr> | Some _ \<Rightarrow> p)"

lemma subFor_set_sub [simp]:
  "subFor (set_sub p key s) k = (if k = key then s else subFor p k)"
  "maxConns (set_sub p key s) = maxConns p"
  by (simp_all add: subFor_def set_sub_def split: option.split)

subsection \<open>The pool and its users\<close>

text \<open>
  What the users hold: slots reserved by a cold acquire whose connection is not open yet,
  and open connections with the key they belong to. \<open>used\<close> holds all connections ever opened.
\<close>

record world =
  pool :: Pool
  reserved :: "string \<Rightarrow> nat"
  held :: "nat \<Rightarrow> string option"
  used :: "nat set"

definition world0 :: "int \<Rightarrow> world" where
  "world0 m = \<lparr>pool = New m, reserved = (\<lambda>_. 0), held = (\<lambda>_. None), used = {}\<rparr>"

inductive pool_step :: "world \<Rightarrow> world \<Rightarrow> bool" where
  acquire_warm: "acquire_select (pool w) key choice = Some (p, Warm b) \<Longrightarrow>
     pool_step w (w\<lparr>pool := p, held := (held w)(Conn b \<mapsto> key)\<rparr>)"
| acquire_cold: "acquire_select (pool w) key choice = Some (p, Cold) \<Longrightarrow>
     pool_step w (w\<lparr>pool := p, reserved := (reserved w)(key := reserved w key + 1)\<rparr>)"
| acquire_timeout: "acquire_select (pool w) key choice = Some (p, TimedOut) \<Longrightarrow>
     pool_step w (w\<lparr>pool := p\<rparr>)"
| opened: "0 < reserved w key \<Longrightarrow> c \<notin> used w \<Longrightarrow>
     pool_step w (w\<lparr>reserved := (reserved w)(key := reserved w key - 1),
                    held := (held w)(c \<mapsto> key), used := insert c (used w)\<rparr>)"
| open_failed: "0 < reserved w key \<Longrightarrow>
     pool_step w (w\<lparr>pool := fst (Discard (pool w) key None),
                    reserved := (reserved w)(key := reserved w key - 1)\<rparr>)"
| give_back: "held w (Conn b) = Some key \<Longrightarrow>
     pool_step w (w\<lparr>pool := fst (Return (pool w) key b), held := (held w)(Conn b := None)\<rparr>)"
| throw_away: "held w (Conn b) = Some key \<Longrightarrow>
     pool_step w (w\<lparr>pool := fst (Discard (pool w) key (Some b)), held := (held w)(Conn b := None)\<rparr>)"
| capture: "pool_step w (w\<lparr>pool := CaptureLogin (pool w) key resp\<rparr>)"
| capture_prelogin: "pool_step w (w\<lparr>pool := CapturePrelogin (pool w) resp\<rparr>)"

inductive reachable :: "int \<Rightarrow> world \<Rightarrow> bool" for m where
  start: "reachable m (world0 m)"
| step: "reachable m w \<Longrightarrow> pool_step w w' \<Longrightarrow> reachable m w'"

abbreviation idle_conns :: "world \<Rightarrow> string \<Rightarrow> nat list" where
  "idle_conns w key \<equiv> map Conn (idle (subFor (pool w) key))"

definition conns_of :: "Pool \<Rightarrow> string \<Rightarrow> nat set" where
  "conns_of p key = set (map Conn (idle (subFor p key)))"

abbreviation held_conns :: "world \<Rightarrow> string \<Rightarrow> nat set" where
  "held_conns w key \<equiv> {c. held w c = Some key}"

text \<open>Every slot of a key is a token, an idle backend, a reservation or a held connection.\<close>

definition slots :: "world \<Rightarrow> string \<Rightarrow> nat" where
  "slots w key = tokens (subFor (pool w) key) + length (idle (subFor (pool w) key)) +
     reserved w key + card (held_conns w key)"

definition world_inv :: "int \<Rightarrow> world \<Rightarrow> bool" where
  "world_inv m w \<longleftrightarrow>
     maxConns (pool w) = nat (if m < 1 then 1 else m) \<and>
     (\<forall>key. slots w key = maxConns (pool w)) \<and>
     finite (dom (held w)) \<and>
     (\<forall>key. distinct (idle_conns w key)) \<and>
     (\<forall>k k' c. c \<in> conns_of (pool w) k \<and> c \<in> conns_of (pool w) k' \<longrightarrow> k = k') \<and>
     (\<forall>key c. c \<in> conns_of (pool w) key \<longrightarrow> held w c = None \<and> c \<in> used w) \<and>
     dom (held w) \<subseteq> used w"

lemma conns_of_set_sub [simp]:
  "conns_of (set_sub p key s) k = (if k = key then set (map Conn (idle s)) else conns_of p k)"
  by (simp add: conns_of_def)

lemma world_invD:
  assumes "world_inv m w"
  shows "maxConns (pool w) = nat (if m < 1 then 1 else m)"
    and "slots w key = maxConns (pool w)"
    and "finite (dom (held w))"
    and "distinct (idle_conns w key)"
    and "c \<in> conns_of (pool w) k \<Longrightarrow> c \<in> conns_of (pool w) k' \<Longrightarrow> k = k'"
    and "c \<in> conns_of (pool w) key \<Longrightarrow> held w c = None \<and> c \<in> used w"
    and "dom (held w) \<subseteq> used w"
  using assms unfolding world_inv_def by blast+

lemma finite_held: "finite (dom h) \<Longrightarrow> finite {c. h c = Some key}"
  by (rule finite_subset [of _ "dom h"]) auto

lemma card_held_upd:
  assumes "finite (dom h)" and "h c = None"
  shows "card {x. (h(c \<mapsto> key)) x = Some k} = card {x. h x = Some k} + (if k = key then 1 else 0)"
proof -
  have "{x. (h(c \<mapsto> key)) x = Some k} = (if k = key then insert c {x. h x = Some k} else {x. h x = Some k})"
    using assms(2) by auto
  then show ?thesis using finite_held [OF assms(1)] assms(2) by simp
qed

lemma card_held_del:
  assumes "finite (dom h)" and "h c = Some key"
  shows "card {x. h x = Some k} = card {x. (h(c := None)) x = Some k} + (if k = key then 1 else 0)"
proof -
  have "finite (dom (h(c := None)))" using assms(1) by (rule finite_subset [rotated]) auto
  from card_held_upd [OF this, of c key k] show ?thesis
    using assms(2) by (simp add: fun_upd_idem)
qed


lemma card_held_pos: "finite (dom (held w)) \<Longrightarrow> held w c = Some key \<Longrightarrow> 0 < card (held_conns w key)"
  using finite_held by (auto simp: card_gt_0_iff)

text \<open>A user that holds a slot always finds room: neither channel is ever full.\<close>

lemma room_for_return:
  assumes "world_inv m w" and "held w c = Some key"
  shows "length (idle (subFor (pool w) key)) < maxConns (pool w)"
    and "tokens (subFor (pool w) key) < maxConns (pool w)"
  using world_invD(2) [OF assms(1), of key] card_held_pos [OF world_invD(3) [OF assms(1)] assms(2)]
  by (simp_all add: slots_def)

lemma room_for_token:
  assumes "world_inv m w" and "0 < reserved w key"
  shows "tokens (subFor (pool w) key) < maxConns (pool w)"
  using world_invD(2) [OF assms(1), of key] assms(2) by (simp add: slots_def)

text \<open>A step that moves one connection between a key's idle list and its users.\<close>

lemma world_inv_move:
  assumes inv: "world_inv m w" and "maxConns p = maxConns (pool w)"
    and slots: "\<And>k. slots (w\<lparr>pool := p, held := h\<rparr>) k = slots w k"
    and same: "\<And>k. k \<noteq> key \<Longrightarrow> idle (subFor p k) = idle (subFor (pool w) k)"
    and same_conns: "\<And>k. k \<noteq> key \<Longrightarrow> conns_of p k = conns_of (pool w) k"
    and dist: "distinct (map Conn (idle (subFor p key)))"
    and mine: "\<And>c. c \<in> conns_of p key \<Longrightarrow> h c = None \<and> c \<in> used w"
    and apart: "\<And>c k. c \<in> conns_of p key \<Longrightarrow> c \<in> conns_of (pool w) k \<Longrightarrow> k = key"
    and theirs: "\<And>c k. k \<noteq> key \<Longrightarrow> c \<in> conns_of (pool w) k \<Longrightarrow> h c = None"
    and dom: "finite (dom h)" "dom h \<subseteq> used w"
  shows "world_inv m (w\<lparr>pool := p, held := h\<rparr>)"
  unfolding world_inv_def
proof (intro conjI allI impI)
  show "maxConns (pool (w\<lparr>pool := p, held := h\<rparr>)) = nat (if m < 1 then 1 else m)"
    using assms(2) world_invD(1) [OF inv] by simp
  show "slots (w\<lparr>pool := p, held := h\<rparr>) k = maxConns (pool (w\<lparr>pool := p, held := h\<rparr>))" for k
    using assms(2) slots world_invD(2) [OF inv] by simp
  show "distinct (idle_conns (w\<lparr>pool := p, held := h\<rparr>) k)" for k
    using dist same world_invD(4) [OF inv] by (cases "k = key") simp_all
  show "k = k'" if "c \<in> conns_of (pool (w\<lparr>pool := p, held := h\<rparr>)) k \<and> c \<in> conns_of (pool (w\<lparr>pool := p, held := h\<rparr>)) k'" for k k' c
    using that apart same_conns world_invD(5) [OF inv, of c k k'] by (cases "k = key"; cases "k' = key") auto
  show "held (w\<lparr>pool := p, held := h\<rparr>) c = None" "c \<in> used (w\<lparr>pool := p, held := h\<rparr>)"
    if "c \<in> conns_of (pool (w\<lparr>pool := p, held := h\<rparr>)) k" for k c
    using that mine [of c] theirs [of k c] same_conns [of k] world_invD(6) [OF inv, of c k]
    by (cases "k = key"; simp)+
qed (simp_all add: dom)

lemma warm_inv:
  assumes inv: "world_inv m w" and "acquire_select (pool w) key choice = Some (p, Warm b)"
  shows "world_inv m (w\<lparr>pool := p, held := (held w)(Conn b \<mapsto> key)\<rparr>)"
proof -
  from assms(2) obtain bs where q: "idle (subFor (pool w) key) = b # bs"
      and p: "p = set_sub (pool w) key ((subFor (pool w) key)\<lparr>idle := bs\<rparr>)"
    by (auto simp: acquire_select_def acquire_idle_def Let_def split: ready.splits list.splits nat.splits)
  have free: "held w (Conn b) = None" "Conn b \<in> used w"
    using world_invD(6) [OF inv, of "Conn b" key] q by (simp_all add: conns_of_def)
  have off: "Conn b \<notin> conns_of (pool w) k" if "k \<noteq> key" for k
    using world_invD(5) [OF inv, of "Conn b" k key] q that by (auto simp: conns_of_def)
  have "slots (w\<lparr>pool := p, held := (held w)(Conn b \<mapsto> key)\<rparr>) k = slots w k" for k
    using q card_held_upd [OF world_invD(3) [OF inv] free(1), of key k] by (simp add: slots_def p)
  moreover have "distinct (Conn b # map Conn bs)" using world_invD(4) [OF inv, of key] q by simp
  moreover have "c \<in> conns_of (pool w) key" if "c \<in> set (map Conn bs)" for c using that by (simp add: q conns_of_def)
  moreover have "dom ((held w)(Conn b \<mapsto> key)) \<subseteq> used w" "finite (dom ((held w)(Conn b \<mapsto> key)))"
    using world_invD(3,7) [OF inv] free(2) by simp_all
  moreover have "((held w)(Conn b \<mapsto> key)) c = None" if "k \<noteq> key" "c \<in> conns_of (pool w) k" for k c
    using off [OF that(1)] that(2) world_invD(6) [OF inv that(2)] by auto
  moreover have "((held w)(Conn b \<mapsto> key)) c = None \<and> c \<in> used w" if "c \<in> set (map Conn bs)" for c
  proof -
    have "c \<in> conns_of (pool w) key" "c \<noteq> Conn b"
      using that world_invD(4) [OF inv, of key] by (simp_all add: q conns_of_def) metis
    with world_invD(6) [OF inv, of c key] show ?thesis by simp
  qed
  ultimately show ?thesis
    using world_invD(5) [OF inv]
    by (intro world_inv_move [OF inv, where key = key]) (auto simp: p simp del: fun_upd_apply dom_fun_upd set_map)
qed

lemma opened_inv:
  assumes inv: "world_inv m w" and "0 < reserved w key" and "c \<notin> used w"
  shows "world_inv m (w\<lparr>reserved := (reserved w)(key := reserved w key - 1),
    held := (held w)(c \<mapsto> key), used := insert c (used w)\<rparr>)"
proof -
  have free: "held w c = None" using world_invD(7) [OF inv] assms(3) by auto
  have "c \<notin> conns_of (pool w) k" for k using world_invD(6) [OF inv, of c k] assms(3) by auto
  moreover have "slots (w\<lparr>reserved := (reserved w)(key := reserved w key - 1),
    held := (held w)(c \<mapsto> key), used := insert c (used w)\<rparr>) k = slots w k" for k
    using card_held_upd [OF world_invD(3) [OF inv] free, of key k] assms(2) by (simp add: slots_def)
  ultimately show ?thesis
    unfolding world_inv_def using world_invD [OF inv] by (simp add: subset_iff) blast
qed

lemma give_back_inv:
  assumes inv: "world_inv m w" and h: "held w (Conn b) = Some key"
  shows "world_inv m (w\<lparr>pool := fst (Return (pool w) key b), held := (held w)(Conn b := None)\<rparr>)"
proof -
  let ?s = "subFor (pool w) key"
  have all: "conns_of (pool w) key = set (idle_conns w key)" by (simp add: conns_of_def)
  have p: "fst (Return (pool w) key b) = set_sub (pool w) key (?s\<lparr>idle := idle ?s @ [b\<lparr>Fresh := False\<rparr>]\<rparr>)"
    using room_for_return(1) [OF inv h] by (simp add: Return_def Let_def)
  have out: "Conn b \<notin> conns_of (pool w) k" for k using world_invD(6) [OF inv, of "Conn b" k] h by auto
  have used: "Conn b \<in> used w" using world_invD(7) [OF inv] h by auto
  have "slots (w\<lparr>pool := fst (Return (pool w) key b), held := (held w)(Conn b := None)\<rparr>) k = slots w k" for k
    using card_held_del [OF world_invD(3) [OF inv] h, of k] by (simp add: slots_def p)
  moreover have "finite (dom ((held w)(Conn b := None)))"
    using world_invD(3) [OF inv] by (rule finite_subset [rotated]) auto
  moreover have "distinct (idle_conns w key @ [Conn b])" using world_invD(4) [OF inv, of key] out [of key] by (simp add: conns_of_def)
  ultimately show ?thesis
    using world_invD(5,6,7) [OF inv] out used
    by (intro world_inv_move [OF inv, where key = key]) (auto simp: p all [symmetric] simp del: set_map)
qed

lemma discard_pool:
  "tokens (subFor p key) < maxConns p \<Longrightarrow>
    fst (Discard p key be) = set_sub p key ((subFor p key)\<lparr>tokens := tokens (subFor p key) + 1\<rparr>)"
  by (simp add: Discard_def Let_def)

lemma throw_away_inv:
  assumes inv: "world_inv m w" and h: "held w (Conn b) = Some key"
  shows "world_inv m (w\<lparr>pool := fst (Discard (pool w) key (Some b)), held := (held w)(Conn b := None)\<rparr>)"
proof -
  have all: "conns_of (pool w) key = set (idle_conns w key)" by (simp add: conns_of_def)
  note p = discard_pool [OF room_for_return(2) [OF inv h]]
  have "slots (w\<lparr>pool := fst (Discard (pool w) key (Some b)), held := (held w)(Conn b := None)\<rparr>) k = slots w k" for k
    using card_held_del [OF world_invD(3) [OF inv] h, of k] by (simp add: slots_def p)
  moreover have "finite (dom ((held w)(Conn b := None)))"
    using world_invD(3) [OF inv] by (rule finite_subset [rotated]) auto
  ultimately show ?thesis
    using world_invD(4-7) [OF inv]
    by (intro world_inv_move [OF inv, where key = key]) (auto simp: p all [symmetric] simp del: set_map)
qed

text \<open>The invariant only looks at capacities, channels and what is held.\<close>

lemma world_inv_same:
  assumes "world_inv m w" and "maxConns p = maxConns (pool w)"
    and "\<And>k. idle (subFor p k) = idle (subFor (pool w) k)"
    and "\<And>k. tokens (subFor p k) + r k = tokens (subFor (pool w) k) + reserved w k"
  shows "world_inv m (w\<lparr>pool := p, reserved := r\<rparr>)"
proof -
  have "slots (w\<lparr>pool := p, reserved := r\<rparr>) k = slots w k" for k
    using assms(4) [of k] by (simp add: slots_def assms(3))
  with assms(1) show ?thesis unfolding world_inv_def by (simp add: assms(2,3) conns_of_def)
qed

lemma pool_step_inv: "pool_step w w' \<Longrightarrow> world_inv m w \<Longrightarrow> world_inv m w'"
proof (induction rule: pool_step.induct)
  case (acquire_warm w key choice p b)
  then show ?case by (rule warm_inv [rotated])
next
  case (acquire_cold w key choice p)
  then obtain n where "tokens (subFor (pool w) key) = Suc n"
      and "p = set_sub (pool w) key ((subFor (pool w) key)\<lparr>tokens := n\<rparr>)"
    by (auto simp: acquire_select_def acquire_idle_def Let_def split: ready.splits nat.splits list.splits)
  then show ?case by (intro world_inv_same acquire_cold) simp_all
next
  case (acquire_timeout w key choice p)
  then have "p = set_sub (pool w) key (subFor (pool w) key)"
    by (auto simp: acquire_select_def acquire_idle_def Let_def split: ready.splits nat.splits list.splits)
  then have "world_inv m (w\<lparr>pool := p, reserved := reserved w\<rparr>)"
    by (intro world_inv_same acquire_timeout) simp_all
  then show ?case by simp
next
  case (opened w key c)
  then show ?case by (intro opened_inv)
next
  case (open_failed w key)
  from discard_pool [OF room_for_token [OF open_failed(2,1)], of None] open_failed show ?case
    by (intro world_inv_same) auto
next
  case (give_back w b key)
  then show ?case by (intro give_back_inv)
next
  case (throw_away w b key)
  then show ?case by (intro throw_away_inv)
next
  case (capture w key resp)
  have "world_inv m (w\<lparr>pool := CaptureLogin (pool w) key resp, reserved := reserved w\<rparr>)"
    by (intro world_inv_same capture) (simp_all add: CaptureLogin_def Let_def split: option.split)
  then show ?case by simp
next
  case (capture_prelogin w resp)
  have "world_inv m (w\<lparr>pool := CapturePrelogin (pool w) resp, reserved := reserved w\<rparr>)"
    by (intro world_inv_same capture_prelogin) (simp_all add: CapturePrelogin_def subFor_def split: option.split)
  then show ?case by simp
qed

lemma world0_inv: "world_inv m (world0 m)"
  by (simp add: world_inv_def world0_def New_def slots_def subFor_def new_sub_def conns_of_def)

lemma reachable_inv: "reachable m w \<Longrightarrow> world_inv m w"
  by (induction rule: reachable.induct) (auto intro: world0_inv pool_step_inv)


subsection \<open>What the pool guarantees\<close>

text \<open>
  C33. The connection ceiling. Whatever its users do and in whatever order, the connections of
  a key that are idle, in use or being opened never exceed the configured maximum (at least
  one), and the free tokens are exactly what is missing to it: no slot is lost or invented.
\<close>

theorem connection_ceiling:
  assumes "reachable m w"
  shows "length (idle (subFor (pool w) key)) + reserved w key + card {c. held w c = Some key} \<le> nat (max 1 m) \<and>
    tokens (subFor (pool w) key) =
      nat (max 1 m) - (length (idle (subFor (pool w) key)) + reserved w key + card {c. held w c = Some key})"
proof -
  have "nat (if m < 1 then 1 else m) = nat (max 1 m)" by auto
  then show ?thesis
    using world_invD(1) [OF reachable_inv [OF assms]] world_invD(2) [OF reachable_inv [OF assms], of key]
    unfolding slots_def by linarith
qed

text \<open>A world in which one user holds connection 7 of one key.\<close>

definition one_user :: world where
  "one_user = (world0 2)\<lparr>pool := set_sub (New 2) ''k'' \<lparr>idle = [], tokens = 1, loginResp = None\<rparr>,
     reserved := (\<lambda>_. 0)(''k'' := 0), held := (\<lambda>_. None)(7 \<mapsto> ''k''), used := {7}\<rparr>"

lemma one_user_reachable: "reachable 2 one_user"
proof -
  let ?w = "(world0 2)\<lparr>pool := set_sub (New 2) ''k'' \<lparr>idle = [], tokens = 1, loginResp = None\<rparr>,
     reserved := (reserved (world0 2))(''k'' := reserved (world0 2) ''k'' + 1)\<rparr>"
  have "acquire_select (pool (world0 2)) ''k'' TokenReady =
      Some (set_sub (New 2) ''k'' \<lparr>idle = [], tokens = 1, loginResp = None\<rparr>, Cold)"
    by (simp add: acquire_select_def world0_def subFor_def New_def new_sub_def Let_def numeral_eq_Suc)
  then have "pool_step (world0 2) ?w" by (rule acquire_cold)
  then have w: "reachable 2 ?w" by (intro reachable.step [OF start])
  have eq: "?w\<lparr>reserved := (reserved ?w)(''k'' := reserved ?w ''k'' - 1), held := (held ?w)(7 \<mapsto> ''k''),
      used := insert 7 (used ?w)\<rparr> = one_user"
    by (simp add: one_user_def world0_def)
  have "0 < reserved ?w ''k''" "7 \<notin> used ?w" by (simp_all add: world0_def)
  from opened [OF this] have "pool_step ?w one_user" unfolding eq .
  then show ?thesis by (rule reachable.step [OF w])
qed

theorem connection_ceiling_witness:
  "length (idle (subFor (pool one_user) ''k'')) + reserved one_user ''k'' + card {c. held one_user c = Some ''k''} \<le> nat (max 1 2) \<and>
   tokens (subFor (pool one_user) ''k'') = 1"
  using connection_ceiling [OF one_user_reachable, of "''k''"] by (simp add: one_user_def)

text \<open>
  A backend has one user at a time. One handed out warm is held by nobody else and is not
  idle under any key afterwards; one given back is kept idle, not closed, and its slot stays
  taken; one discarded frees its slot.
\<close>

theorem backends_have_one_user:
  assumes "reachable m w"
  shows "(acquire_select (pool w) key choice = Some (p, Warm b) \<longrightarrow>
      held w (Conn b) = None \<and> (\<forall>k. Conn b \<notin> set (map Conn (idle (subFor p k))))) \<and>
    (held w (Conn b) = Some key \<longrightarrow>
      snd (Return (pool w) key b) = None \<and>
      Conn b \<in> set (map Conn (idle (subFor (fst (Return (pool w) key b)) key))) \<and>
      tokens (subFor (fst (Return (pool w) key b)) key) = tokens (subFor (pool w) key) \<and>
      tokens (subFor (fst (Discard (pool w) key (Some b))) key) = tokens (subFor (pool w) key) + 1)"
proof (intro conjI impI allI)
  note inv = reachable_inv [OF assms]
  {
    assume got: "acquire_select (pool w) key choice = Some (p, Warm b)"
    let ?w = "w\<lparr>pool := p, held := (held w)(Conn b \<mapsto> key)\<rparr>"
    from got have "Conn b \<in> conns_of (pool w) key"
      by (auto simp: acquire_select_def acquire_idle_def Let_def conns_of_def split: ready.splits list.splits nat.splits)
    then show "held w (Conn b) = None" using world_invD(6) [OF inv] by blast
    have "world_inv m ?w" by (rule warm_inv [OF inv got])
    then show "Conn b \<notin> set (map Conn (idle (subFor p k)))" for k
      using world_invD(6) [of m ?w "Conn b" k] by (auto simp: conns_of_def)
  }
  {
    assume h: "held w (Conn b) = Some key"
    note room = room_for_return [OF inv h]
    show "snd (Return (pool w) key b) = None"
      and "Conn b \<in> set (map Conn (idle (subFor (fst (Return (pool w) key b)) key)))"
      and "tokens (subFor (fst (Return (pool w) key b)) key) = tokens (subFor (pool w) key)"
      and "tokens (subFor (fst (Discard (pool w) key (Some b))) key) = tokens (subFor (pool w) key) + 1"
      using room by (simp_all add: Return_def Discard_def Let_def)
  }
qed

theorem backends_have_one_user_witness:
  "snd (Return (pool one_user) ''k'' \<lparr>Conn = 7, Fresh = True\<rparr>) = None"
  using backends_have_one_user [OF one_user_reachable, of "''k''" TimerReady "New 2" "\<lparr>Conn = 7, Fresh = True\<rparr>"]
  by (simp add: one_user_def)

text \<open>
  Reuse comes first. When a key has idle backends, an undisturbed acquire hands out the one
  that has waited longest, whichever case the second select would have picked, and opens no
  connection; a cold acquire happens only with no idle backend and takes a token.
\<close>

theorem Acquire_prefers_idle:
  "(idle (subFor p key) = b # bs \<longrightarrow>
      Acquire p key choice = Some (set_sub p key ((subFor p key)\<lparr>idle := bs\<rparr>), Warm b)) \<and>
   (Acquire p key choice = Some (p', Cold) \<longrightarrow>
      idle (subFor p key) = [] \<and> tokens (subFor p key) = tokens (subFor p' key) + 1)"
  by (auto simp: Acquire_def acquire_idle_def acquire_select_def Let_def
      split: list.splits ready.splits nat.splits)

theorem Acquire_prefers_idle_witness:
  "Acquire (fst (Return (New 1) ''k'' \<lparr>Conn = 7, Fresh = True\<rparr>)) ''k'' TokenReady =
     Some (set_sub (fst (Return (New 1) ''k'' \<lparr>Conn = 7, Fresh = True\<rparr>)) ''k''
       ((subFor (fst (Return (New 1) ''k'' \<lparr>Conn = 7, Fresh = True\<rparr>)) ''k'')\<lparr>idle := []\<rparr>), Warm \<lparr>Conn = 7, Fresh = False\<rparr>)"
proof -
  have "idle (subFor (fst (Return (New 1) ''k'' \<lparr>Conn = 7, Fresh = True\<rparr>)) ''k'') = [\<lparr>Conn = 7, Fresh = False\<rparr>]"
    by (simp add: Return_def Let_def New_def) (simp add: subFor_def new_sub_def)
  with Acquire_prefers_idle [of "fst (Return (New 1) ''k'' \<lparr>Conn = 7, Fresh = True\<rparr>)" "''k''" "\<lparr>Conn = 7, Fresh = False\<rparr>" "[]" TokenReady]
  show ?thesis by blast
qed

end
