(* ===== verification/TxMultiplex.thy ===== *)
theory TxMultiplex
  imports Classify ConnPool
begin

unbundle bit_operations_syntax

text \<open>
  Per-transaction multiplexing of one client session: \<^verbatim>\<open>tds-proxy/txmultiplex.go\<close>.

  \<open>relay_step\<close> is one turn of the loop of \<^verbatim>\<open>txMultiplexRelay\<close>. What the network and the pool
  answer in a turn is its input: the client's message or its leaving, the outcome of
  re-borrowing a backend, how many replayed prelude messages succeed, whether the write and the
  relay of the response succeed. What the session does to backends and pool is logged.
  Counters and log lines are left out.
\<close>

subsection \<open>The session\<close>

datatype effect =
    Borrowed nat bool
  | Sent nat bytes
  | Returned nat
  | Discarded nat

datatype borrow =
    NoBackend
  | WarmBackend nat
  | ColdBackend nat

record answers =
  ans_borrow :: borrow
  ans_prelude :: nat
  ans_write :: bool
  ans_relay :: bool

datatype input =
    ClientGone
  | Request byte bytes bytes answers

record session =
  held :: "nat option"
  needReset :: bool
  sticky :: bool
  sawReal :: bool
  txnDepth :: int
  prelude :: "bytes list"
  closed :: bool
  log :: "effect list"

definition relay_start :: "nat \<Rightarrow> bool \<Rightarrow> session" where
  "relay_start first firstNeedReset =
     \<lparr>held = Some first, needReset = firstNeedReset, sticky = False, sawReal = False, txnDepth = 0,
      prelude = [], closed = False, log = []\<rparr>"

definition emit :: "effect list \<Rightarrow> session \<Rightarrow> session" where
  "emit es s = s\<lparr>log := log s @ es\<rparr>"

text \<open>The deferred function: what happens to a backend still held when the relay returns.\<close>

definition finish :: "session \<Rightarrow> session" where
  "finish s =
     (case held s of
        None \<Rightarrow> s\<lparr>closed := True\<rparr>
      | Some b \<Rightarrow> emit [if sticky s then Discarded b else Returned b] (s\<lparr>held := None, closed := True\<rparr>))"

text \<open>\<^verbatim>\<open>backendPool.Discard(key, held); held = nil; return\<close>\<close>

definition discard_and_return :: "nat \<Rightarrow> session \<Rightarrow> session" where
  "discard_and_return b s = emit [Discarded b] (s\<lparr>held := None, closed := True\<rparr>)"

text \<open>
  \<^verbatim>\<open>applyPrelude\<close>: the messages written, whether a reset is still pending and whether all went
  well; \<open>n\<close> messages succeed.
\<close>

fun applyPrelude :: "nat \<Rightarrow> bytes list \<Rightarrow> bool \<Rightarrow> nat \<Rightarrow> effect list \<times> bool \<times> bool" where
  "applyPrelude b [] reset n = ([], reset, True)"
| "applyPrelude b (msg # msgs) reset n =
     (let out = (if reset then WithResetConnection msg else msg)
      in case n of
           0 \<Rightarrow> ([Sent b out], False, False)
         | Suc n' \<Rightarrow> let (es, r, ok) = applyPrelude b msgs False n' in (Sent b out # es, r, ok))"

definition isClientWork :: "byte \<Rightarrow> bool" where
  "isClientWork t \<longleftrightarrow> t = TypeSQLBatch \<or> t = TypeRPC \<or> t = TypeBulkLoad \<or> t = TypeTxMgr"

text \<open>The nesting of explicit transactions after a transaction manager request.\<close>

definition txn_after :: "bytes \<Rightarrow> int \<Rightarrow> int" where
  "txn_after body depth =
     (case the (TxMgrRequestType body) of
        Some rt \<Rightarrow>
          if rt = TMBeginXact then depth + 1
          else if rt = TMCommitXact then (if 0 < depth then depth - 1 else depth)
          else if rt = TMRollbackXact then 0
          else depth
      | None \<Rightarrow> depth + 1)"

text \<open>The switch on the verdict of a relayed client message.\<close>

definition classify_update :: "byte \<Rightarrow> bytes \<Rightarrow> bytes \<Rightarrow> session \<Rightarrow> session" where
  "classify_update mType body raw s =
     (if \<not> isClientWork mType then s
      else
        let v = the (Classify mType body); preludeExempt = (Prelude v \<and> \<not> sawReal s)
        in if ImplicitTxn v then s\<lparr>sticky := True\<rparr>
           else if Pin v \<and> Txn v \<and> mType = TypeTxMgr
           then s\<lparr>sawReal := True, txnDepth := txn_after body (txnDepth s)\<rparr>
           else if Pin v \<and> Txn v then s\<lparr>sticky := True\<rparr>
           else if Pin v \<and> \<not> preludeExempt then s\<lparr>sticky := True\<rparr>
           else if Pin v \<and> preludeExempt then s\<lparr>prelude := prelude s @ [raw]\<rparr>
           else s\<lparr>sawReal := True\<rparr>)"

definition release :: "nat \<Rightarrow> session \<Rightarrow> session" where
  "release b s =
     (if sawReal s \<and> \<not> sticky s \<and> txnDepth s = 0
      then emit [Returned b] (s\<lparr>held := None, needReset := False\<rparr>) else s)"

text \<open>Forward the request to backend \<open>b\<close>, relay the response, classify, release.\<close>

definition forward :: "nat \<Rightarrow> byte \<Rightarrow> bytes \<Rightarrow> bytes \<Rightarrow> answers \<Rightarrow> session \<Rightarrow> session" where
  "forward b mType body raw a s =
     (let out = (if needReset s then WithResetConnection raw else raw);
          s1 = emit [Sent b out] (s\<lparr>needReset := False\<rparr>)
      in if \<not> ans_write a then discard_and_return b s1
         else if \<not> ans_relay a then discard_and_return b s1
         else release b (classify_update mType body raw s1))"

definition borrow_and_forward :: "nat \<Rightarrow> bool \<Rightarrow> byte \<Rightarrow> bytes \<Rightarrow> bytes \<Rightarrow> answers \<Rightarrow> session \<Rightarrow> session" where
  "borrow_and_forward b warm mType body raw a s =
     (let (es, reset, ok) = applyPrelude b (prelude s) warm (ans_prelude a);
          s1 = emit (Borrowed b warm # es) (s\<lparr>held := Some b, needReset := reset\<rparr>)
      in if \<not> ok then discard_and_return b s1 else forward b mType body raw a s1)"

fun relay_step :: "session \<Rightarrow> input \<Rightarrow> session" where
  "relay_step s ClientGone = (if closed s then s else finish s)"
| "relay_step s (Request mType body raw a) =
     (if closed s then s
      else case held s of
          Some b \<Rightarrow> forward b mType body raw a s
        | None \<Rightarrow>
            (case ans_borrow a of
               NoBackend \<Rightarrow> finish s
             | WarmBackend b \<Rightarrow> borrow_and_forward b True mType body raw a s
             | ColdBackend b \<Rightarrow> borrow_and_forward b False mType body raw a s))"

abbreviation relay_run :: "session \<Rightarrow> input list \<Rightarrow> session" where
  "relay_run \<equiv> foldl relay_step"

subsection \<open>Reading the log\<close>

text \<open>
  The contract with pool and backends, as a checker of the log: a backend is borrowed only
  when none is held, messages go to the held one, and it is given back once. The state is the
  backend held and whether a reset is still owed; None is a breach.
\<close>

fun audit :: "(nat \<times> bool) option \<Rightarrow> effect list \<Rightarrow> (nat \<times> bool) option option" where
  "audit h [] = Some h"
| "audit None (Borrowed b w # es) = audit (Some (b, w)) es"
| "audit (Some (b, owed)) (Sent b' m # es) =
     (if b' = b \<and> (owed \<longrightarrow> length m < headerLen \<or> (m ! 1) AND statusResetConnection = statusResetConnection)
      then audit (Some (b, False)) es else None)"
| "audit (Some (b, owed)) (Returned b' # es) = (if b' = b then audit None es else None)"
| "audit (Some (b, owed)) (Discarded b' # es) = (if b' = b then audit None es else None)"
| "audit _ _ = None"

lemma audit_append: "audit h (xs @ ys) = (case audit h xs of None \<Rightarrow> None | Some h' \<Rightarrow> audit h' ys)"
  by (induction h xs rule: audit.induct) auto

definition ledger :: "session \<Rightarrow> (nat \<times> bool) option" where
  "ledger s = map_option (\<lambda>b. (b, needReset s)) (held s)"

definition session_inv :: "nat \<Rightarrow> bool \<Rightarrow> session \<Rightarrow> bool" where
  "session_inv first reset0 s \<longleftrightarrow>
     audit (Some (first, reset0)) (log s) = Some (ledger s) \<and>
     0 \<le> txnDepth s \<and>
     (closed s \<longrightarrow> held s = None) \<and>
     (\<not> closed s \<and> (sticky s \<or> 0 < txnDepth s \<or> \<not> sawReal s) \<longrightarrow> held s \<noteq> None)"

lemma emit_simps [simp]:
  "held (emit es s) = held s" "needReset (emit es s) = needReset s" "sticky (emit es s) = sticky s"
  "sawReal (emit es s) = sawReal s" "txnDepth (emit es s) = txnDepth s" "prelude (emit es s) = prelude s"
  "closed (emit es s) = closed s" "log (emit es s) = log s @ es"
  by (simp_all add: emit_def)

lemma classify_update_simps [simp]:
  "held (classify_update t body raw s) = held s"
  "needReset (classify_update t body raw s) = needReset s"
  "closed (classify_update t body raw s) = closed s"
  "log (classify_update t body raw s) = log s"
  by (simp_all add: classify_update_def Let_def)

lemma txn_after_nonneg: "0 \<le> d \<Longrightarrow> 0 \<le> txn_after body d"
  by (auto simp: txn_after_def split: option.split)

lemma classify_update_txn: "0 \<le> txnDepth s \<Longrightarrow> 0 \<le> txnDepth (classify_update t body raw s)"
  by (simp add: classify_update_def Let_def txn_after_nonneg)

lemma classify_update_sticky: "sticky s \<Longrightarrow> sticky (classify_update t body raw s)"
  by (simp add: classify_update_def Let_def)

lemma reset_bit: "headerLen \<le> length m \<Longrightarrow>
    (WithResetConnection m ! 1) AND statusResetConnection = statusResetConnection"
  using reset_nth [of m] by (simp add: statusResetConnection_def bit.conj_disj_distrib2)

lemma audit_sent:
  "audit (Some (b, owed)) (Sent b (if owed then WithResetConnection m else m) # es) = audit (Some (b, False)) es"
  using reset_bit [of m] by (cases "length m < headerLen") auto

lemma applyPrelude_audit:
  "applyPrelude b msgs reset n = (es, r, ok) \<Longrightarrow> audit (Some (b, reset)) es = Some (Some (b, r))"
proof (induction b msgs reset n arbitrary: es r ok rule: applyPrelude.induct)
  case (2 b msg msgs reset n)
  show ?case
  proof (cases n)
    case 0
    with "2.prems" show ?thesis using audit_sent [of b reset msg "[]"] by (auto simp: Let_def)
  next
    case (Suc n')
    obtain es' r' ok' where rest: "applyPrelude b msgs False n' = (es', r', ok')"
      by (cases "applyPrelude b msgs False n'") auto
    with "2.prems" Suc have "es = Sent b (if reset then WithResetConnection msg else msg) # es'" "r = r'"
      by (auto simp: Let_def)
    with "2.IH" [OF refl Suc rest] show ?thesis by (simp only: audit_sent)
  qed
qed simp

lemma discard_and_return_inv:
  assumes "audit (Some (first, r0)) (log s) = Some (Some (b, q))" and "0 \<le> txnDepth s"
  shows "session_inv first r0 (discard_and_return b s)"
  using assms by (simp add: session_inv_def discard_and_return_def audit_append ledger_def)

lemma release_inv:
  assumes "audit (Some (first, r0)) (log s) = Some (Some (b, False))" and "0 \<le> txnDepth s"
    and "held s = Some b" and "\<not> needReset s" and "\<not> closed s"
  shows "session_inv first r0 (release b s)"
  using assms by (auto simp: session_inv_def release_def audit_append ledger_def)

lemma forward_inv:
  assumes "audit (Some (first, r0)) (log s) = Some (Some (b, needReset s))" and "0 \<le> txnDepth s"
    and "held s = Some b" and "\<not> closed s"
  shows "session_inv first r0 (forward b t body raw a s)"
proof -
  let ?out = "if needReset s then WithResetConnection raw else raw"
  let ?s = "emit [Sent b ?out] (s\<lparr>needReset := False\<rparr>)"
  have sent: "audit (Some (first, r0)) (log ?s) = Some (Some (b, False))"
    using assms(1) audit_sent [of b "needReset s" raw "[]"] by (simp add: audit_append)
  have "session_inv first r0 (discard_and_return b ?s)"
    by (rule discard_and_return_inv [OF sent]) (simp add: assms(2))
  moreover have "session_inv first r0 (release b (classify_update t body raw ?s))"
    by (rule release_inv) (simp_all add: sent [simplified] classify_update_txn assms)
  ultimately show ?thesis by (simp add: forward_def Let_def)
qed

lemma borrow_inv:
  assumes "session_inv first r0 s" and "held s = None" and "\<not> closed s"
  shows "session_inv first r0 (borrow_and_forward b w t body raw a s)"
proof -
  obtain es r ok where ap: "applyPrelude b (prelude s) w (ans_prelude a) = (es, r, ok)"
    by (cases "applyPrelude b (prelude s) w (ans_prelude a)") auto
  let ?s = "emit (Borrowed b w # es) (s\<lparr>held := Some b, needReset := r\<rparr>)"
  have got: "audit (Some (first, r0)) (log ?s) = Some (Some (b, r))"
    using assms applyPrelude_audit [OF ap] by (simp add: session_inv_def audit_append ledger_def)
  have d: "0 \<le> txnDepth s" using assms(1) by (simp add: session_inv_def)
  show ?thesis
    using discard_and_return_inv [OF got] forward_inv [of first r0 ?s b] got d assms(3)
    by (simp add: borrow_and_forward_def ap Let_def)
qed

lemma finish_inv: "session_inv first r0 s \<Longrightarrow> session_inv first r0 (finish s)"
  by (auto simp: session_inv_def finish_def audit_append ledger_def split: option.splits)

lemma relay_step_inv: "session_inv first r0 s \<Longrightarrow> session_inv first r0 (relay_step s i)"
proof (cases i)
  case (Request t body raw a)
  assume inv: "session_inv first r0 s"
  show ?thesis
  proof (cases "closed s")
    case False
    show ?thesis
    proof (cases "held s")
      case None
      then show ?thesis
        using borrow_inv [OF inv None False] finish_inv [OF inv] False Request by (auto split: borrow.split)
    next
      case (Some b)
      with inv have "audit (Some (first, r0)) (log s) = Some (Some (b, needReset s))" "0 \<le> txnDepth s"
        by (simp_all add: session_inv_def ledger_def)
      then show ?thesis using forward_inv Some False Request by simp
    qed
  qed (simp add: Request inv)
qed (simp add: finish_inv)

lemma relay_start_inv: "session_inv first r0 (relay_start first r0)"
  by (simp add: session_inv_def relay_start_def ledger_def)

interpretation relay: machine "relay_start first r0" relay_step "session_inv first r0" for first r0
  by unfold_locales (simp_all add: relay_start_inv relay_step_inv)

subsection \<open>Backends are borrowed and given back\<close>

text \<open>
  C32. A session keeps its contract with the pool and with the backends, whatever client,
  network and pool do: it borrows only when it holds nothing, sends messages only to the
  backend it holds, gives every backend back exactly once, and the first message to a backend
  it got warm, a replayed prelude or the client's request, carries the reset bit. When the
  session is over it holds nothing.
\<close>

theorem session_keeps_contract:
  fixes first r0 ins
  defines "s \<equiv> relay_run (relay_start first r0) ins"
  shows "audit (Some (first, r0)) (log s) = Some (map_option (\<lambda>b. (b, needReset s)) (held s)) \<and>
    (closed s \<longrightarrow> audit (Some (first, r0)) (log s) = Some None)"
  using relay.inv_run [of first r0 ins] by (auto simp: s_def session_inv_def ledger_def)

theorem session_keeps_contract_witness:
  "log (relay_run (relay_start 1 True) [ClientGone]) = [Returned 1] \<and>
   audit (Some (1, True)) (log (relay_run (relay_start 1 True) [ClientGone])) = Some None"
proof -
  have "closed (relay_run (relay_start 1 True) [ClientGone])"
    "log (relay_run (relay_start 1 True) [ClientGone]) = [Returned 1]"
    by (simp_all add: relay_start_def finish_def)
  with session_keeps_contract [of 1 True "[ClientGone]"] show ?thesis by blast
qed

subsection \<open>A transaction stays on one backend\<close>

text \<open>Everything a turn sends while a backend is held goes to that backend.\<close>

definition sent_to :: "effect list \<Rightarrow> nat list" where
  "sent_to es = concat (map (\<lambda>e. case e of Sent b m \<Rightarrow> [b] | Borrowed b w \<Rightarrow> [b] | _ \<Rightarrow> []) es)"

lemma forward_log:
  "\<exists>es. log (forward b t body raw a s) = log s @ es \<and> set (sent_to es) = {b} \<and>
     (sticky s \<longrightarrow> (\<forall>x. Returned x \<notin> set es))"
proof -
  let ?out = "if needReset s then WithResetConnection raw else raw"
  let ?s = "emit [Sent b ?out] (s\<lparr>needReset := False\<rparr>)"
  have "sticky s \<Longrightarrow> sticky (classify_update t body raw ?s)" by (rule classify_update_sticky) simp
  then show ?thesis
    by (auto simp: forward_def Let_def discard_and_return_def release_def sent_to_def)
qed

lemma step_held_log:
  assumes "\<not> closed s" and "held s = Some b"
  shows "\<exists>es. log (relay_step s i) = log s @ es \<and> set (sent_to es) \<subseteq> {b} \<and>
     (sticky s \<longrightarrow> (\<forall>x. Returned x \<notin> set es))"
proof (cases i)
  case ClientGone
  then show ?thesis using assms by (auto simp: finish_def sent_to_def)
next
  case (Request t body raw a)
  then show ?thesis using assms forward_log [of b t body raw a s] by auto
qed

lemma forward_held:
  "held (forward b t body raw a s) = None \<or> held (forward b t body raw a s) = held s"
  by (auto simp: forward_def Let_def discard_and_return_def release_def)

lemma step_held: "held s = Some b \<Longrightarrow> held (relay_step s i) = None \<or> held (relay_step s i) = Some b"
  using forward_held by (cases i) (fastforce simp: finish_def)+

lemma step_closed: "closed s \<Longrightarrow> relay_step s i = s"
  by (cases i) simp_all

lemma run_closed: "closed s \<Longrightarrow> relay_run s is = s"
  by (induction "is") (simp_all add: step_closed)

lemma run_one_backend:
  assumes "session_inv first r0 s" and "held s = Some b"
    and "\<And>k. k < length ins \<Longrightarrow> 0 < txnDepth (relay_run s (take k ins)) \<or> sticky (relay_run s (take k ins))"
  shows "\<exists>es. log (relay_run s ins) = log s @ es \<and> set (sent_to es) \<subseteq> {b}"
  using assms
proof (induction ins arbitrary: s)
  case (Cons i ins)
  show ?case
  proof (cases "closed s")
    case True
    then show ?thesis by (simp add: run_closed step_closed sent_to_def)
  next
    case False
    from step_held_log [OF False Cons.prems(2), of i] obtain es where
      es: "log (relay_step s i) = log s @ es" "set (sent_to es) \<subseteq> {b}" by blast
    have inv: "session_inv first r0 (relay_step s i)" by (rule relay_step_inv [OF Cons.prems(1)])
    show ?thesis
    proof (cases "closed (relay_step s i) \<or> ins = []")
      case True
      with es show ?thesis by (auto simp: run_closed)
    next
      case False
      then have "0 < txnDepth (relay_step s i) \<or> sticky (relay_step s i)" using Cons.prems(3) [of 1] by simp
      with inv False have "held (relay_step s i) \<noteq> None" by (auto simp: session_inv_def)
      with step_held [OF Cons.prems(2), of i] have "held (relay_step s i) = Some b" by blast
      moreover have "0 < txnDepth (relay_run (relay_step s i) (take k ins)) \<or> sticky (relay_run (relay_step s i) (take k ins))"
        if "k < length ins" for k using Cons.prems(3) [of "Suc k"] that by simp
      ultimately obtain es' where "log (relay_run (relay_step s i) ins) = log (relay_step s i) @ es'" "set (sent_to es') \<subseteq> {b}"
        using Cons.IH [OF inv] by blast
      with es show ?thesis by (intro exI [of _ "es @ es'"]) (auto simp: sent_to_def)
    qed
  qed
qed (simp add: sent_to_def)

text \<open>
  C31. A transaction never spans backends. From any reachable state with an open transaction or
  with session state that must be kept, as long as that lasts and for the message that ends it,
  no backend is borrowed and everything is sent to the backend held.
\<close>

theorem transaction_on_one_backend:
  fixes first r0 ins0
  defines "s \<equiv> relay_run (relay_start first r0) ins0"
  assumes "\<not> closed s"
    and "\<And>k. k < length ins \<Longrightarrow> 0 < txnDepth (relay_run s (take k ins)) \<or> sticky (relay_run s (take k ins))"
    and "ins \<noteq> []"
  shows "\<exists>b es. held s = Some b \<and> log (relay_run s ins) = log s @ es \<and> set (sent_to es) \<subseteq> {b}"
proof -
  have inv: "session_inv first r0 s" unfolding s_def by (rule relay.inv_run)
  have "0 < txnDepth s \<or> sticky s" using assms(3) [of 0] assms(4) by simp
  with inv assms(2) obtain b where "held s = Some b" by (auto simp: session_inv_def)
  with run_one_backend [OF inv this assms(3)] show ?thesis by blast
qed

definition tm_request :: "byte \<Rightarrow> bytes" where
  "tm_request rt = [4, 0, 0, 0, rt, 0]"

definition all_well :: answers where
  "all_well = \<lparr>ans_borrow = NoBackend, ans_prelude = 9, ans_write = True, ans_relay = True\<rparr>"

definition begun :: session where
  "begun = relay_run (relay_start 1 False) [Request TypeTxMgr (tm_request 5) (tm_request 5) all_well]"

lemma begun_state: "begun = \<lparr>held = Some 1, needReset = False, sticky = False, sawReal = True, txnDepth = 1,
    prelude = [], closed = False, log = [Sent 1 (tm_request 5)]\<rparr>"
  by (simp add: begun_def relay_start_def all_well_def forward_def emit_def classify_update_def isClientWork_def
      Classify_def tds_types pin_def txn_after_def TxMgrRequestType_def allHeadersLen_def le32_def le16_def
      tm_request_def TMBeginXact_def release_def)

theorem transaction_on_one_backend_witness:
  "\<exists>b es. held begun = Some b \<and>
     log (relay_run begun [Request TypeTxMgr (tm_request 7) (tm_request 7) all_well]) = log begun @ es \<and> set (sent_to es) \<subseteq> {b}"
  using transaction_on_one_backend [of 1 False "[Request TypeTxMgr (tm_request 5) (tm_request 5) all_well]"
      "[Request TypeTxMgr (tm_request 7) (tm_request 7) all_well]"]
  unfolding begun_def [symmetric] by (simp add: begun_state)

subsection \<open>Session state stays private\<close>

lemma forward_sticky: "sticky s \<Longrightarrow> sticky (forward b t body raw a s)"
  by (auto simp: forward_def Let_def discard_and_return_def release_def emit_def intro: classify_update_sticky)

lemma step_sticky: "sticky s \<Longrightarrow> sticky (relay_step s i)"
proof (cases i)
  case (Request t body raw a)
  moreover assume "sticky s"
  ultimately show ?thesis
    by (auto simp: forward_sticky borrow_and_forward_def Let_def discard_and_return_def finish_def
        split: option.split borrow.split prod.split)
qed (auto simp: finish_def split: option.split)

lemma sticky_run:
  assumes "session_inv first r0 s" and "sticky s"
  shows "\<exists>es. log (relay_run s ins) = log s @ es \<and> (\<forall>x. Returned x \<notin> set es)"
  using assms
proof (induction ins arbitrary: s)
  case (Cons i ins)
  show ?case
  proof (cases "closed s")
    case True
    then show ?thesis by (simp add: run_closed step_closed)
  next
    case False
    with Cons.prems obtain b where "held s = Some b" by (auto simp: session_inv_def)
    from step_held_log [OF False this, of i] Cons.prems(2) obtain es where
      "log (relay_step s i) = log s @ es" "\<forall>x. Returned x \<notin> set es" by blast
    moreover from Cons.IH [OF relay_step_inv [OF Cons.prems(1)] step_sticky [OF Cons.prems(2)]] obtain es' where
      "log (relay_run (relay_step s i) ins) = log (relay_step s i) @ es'" "\<forall>x. Returned x \<notin> set es'" by blast
    ultimately show ?thesis by (intro exI [of _ "es @ es'"]) auto
  qed
qed simp

text \<open>
  A backend with session state is never shared. Once a session has left state that outlives
  a transaction, it returns no backend to the pool any more, however it goes on and ends.
\<close>

theorem sticky_backend_never_returned:
  fixes first r0 ins0
  defines "s \<equiv> relay_run (relay_start first r0) ins0"
  assumes "sticky s"
  shows "\<exists>es. log (relay_run s ins) = log s @ es \<and> (\<forall>x. Returned x \<notin> set es)"
proof -
  have "session_inv first r0 s" unfolding s_def by (rule relay.inv_run)
  from sticky_run [OF this assms(2)] show ?thesis .
qed

theorem sticky_backend_never_returned_witness:
  "\<exists>es. log (relay_run (relay_run (relay_start 1 False) [Request TypeBulkLoad [] [] all_well]) [ClientGone]) =
     log (relay_run (relay_start 1 False) [Request TypeBulkLoad [] [] all_well]) @ es \<and> (\<forall>x. Returned x \<notin> set es)"
proof -
  have "sticky (relay_run (relay_start 1 False) [Request TypeBulkLoad [] [] all_well])"
    by (simp add: relay_start_def all_well_def forward_def emit_def classify_update_def isClientWork_def
        Classify_def tds_types pin_def release_def)
  then show ?thesis by (rule sticky_backend_never_returned)
qed

subsection \<open>Preludes and abandoned transactions\<close>

definition reset_first :: "bool \<Rightarrow> bytes list \<Rightarrow> bytes list" where
  "reset_first w msgs = (case msgs of [] \<Rightarrow> [] | m # ms \<Rightarrow> (if w then WithResetConnection m else m) # ms)"

lemma applyPrelude_False: "length msgs \<le> n \<Longrightarrow> applyPrelude b msgs False n = (map (Sent b) msgs, False, True)"
proof (induction msgs arbitrary: n)
  case (Cons m msgs)
  then obtain n' where "n = Suc n'" "length msgs \<le> n'" by (cases n) auto
  with Cons.IH [of n'] show ?case by simp
qed simp

lemma applyPrelude_all:
  "length msgs \<le> n \<Longrightarrow> applyPrelude b msgs w n = (map (Sent b) (reset_first w msgs), w \<and> msgs = [], True)"
proof (cases msgs)
  case (Cons m ms)
  moreover assume "length msgs \<le> n"
  ultimately obtain n' where "n = Suc n'" "length ms \<le> n'" by (cases n) auto
  with Cons applyPrelude_False [of ms n' b] show ?thesis by (simp add: reset_first_def Let_def)
qed (simp add: reset_first_def)

text \<open>
  Session options survive a change of backend: a request classified as login prelude before
  any real work is remembered, and every backend borrowed later gets all remembered messages,
  in order, and then the client's request, the first of them with the reset bit if the
  backend is a reused one.
\<close>

theorem prelude_replayed:
  "(isClientWork t \<and> Classify t body = Some v \<and> Pin v \<and> Prelude v \<and> \<not> ImplicitTxn v \<and> \<not> Txn v \<and> \<not> sawReal s \<longrightarrow>
      prelude (classify_update t body raw s) = prelude s @ [raw]) \<and>
   (length (prelude s) \<le> ans_prelude a \<longrightarrow>
      (\<exists>es. log (borrow_and_forward b w t body raw a s) =
         log s @ [Borrowed b w] @ map (Sent b) (reset_first w (prelude s @ [raw])) @ es))"
proof (intro conjI impI)
  assume "length (prelude s) \<le> ans_prelude a"
  note ap = applyPrelude_all [OF this, of b w]
  have "map (Sent b) (reset_first w (prelude s @ [raw])) =
      map (Sent b) (reset_first w (prelude s)) @ [Sent b (if w \<and> prelude s = [] then WithResetConnection raw else raw)]"
    by (cases "prelude s") (simp_all add: reset_first_def)
  then show "\<exists>es. log (borrow_and_forward b w t body raw a s) =
      log s @ [Borrowed b w] @ map (Sent b) (reset_first w (prelude s @ [raw])) @ es"
    by (simp add: borrow_and_forward_def ap forward_def Let_def discard_and_return_def release_def)
qed (simp add: classify_update_def)

theorem prelude_replayed_witness:
  "\<exists>es. log (borrow_and_forward 2 True TypeSQLBatch [] [9] all_well (begun\<lparr>held := None, prelude := [[8]]\<rparr>)) =
     [Sent 1 (tm_request 5)] @ [Borrowed 2 True] @ map (Sent 2) (reset_first True ([[8]] @ [[9]])) @ es"
  using prelude_replayed [of TypeSQLBatch "[]" multiplexable "begun\<lparr>held := None, prelude := [[8]]\<rparr>" "[9]" all_well 2 True]
  by (simp add: begun_state all_well_def)

text \<open>
  A client that leaves in the middle of an explicit transaction hands its backend back to
  the pool with the transaction still open: the relay neither rolls it back nor discards the
  backend.
\<close>

theorem open_transaction_returned_to_pool:
  assumes "\<not> closed s" and "held s = Some b" and "0 < txnDepth s" and "\<not> sticky s"
  shows "log (relay_step s ClientGone) = log s @ [Returned b] \<and> 0 < txnDepth (relay_step s ClientGone)"
  using assms by (simp add: finish_def)

theorem open_transaction_returned_to_pool_witness:
  "log (relay_step begun ClientGone) = [Sent 1 (tm_request 5), Returned 1]"
  using open_transaction_returned_to_pool [of begun 1] by (simp add: begun_state)

end
