(* ===== verification/LanAlloc.thy ===== *)
theory LanAlloc
  imports Regex "HOL-Library.Word" "HOL-Library.Multiset" "HOL-Library.Product_Lexorder"
begin

text \<open>
  The pure helpers of the LAN exposure controller: \<^verbatim>\<open>lan-expose/alloc.go\<close>.

  Addresses are \<^verbatim>\<open>uint32\<close>, so the counter of \<^verbatim>\<open>allocate\<close> wraps; the loop is a partial
  function whose value None is not returning. \<open>parse_ip4\<close> is \<^verbatim>\<open>net.ParseIP(s).To4()\<close> on dotted
  quads; the IPv6 spellings of an IPv4 address are taken as invalid.
\<close>

subsection \<open>Addresses\<close>

definition parse_octet :: "string \<Rightarrow> nat option" where
  "parse_octet s =
     (if s = [] \<or> 3 < length s \<or> \<not> list_all is_digit s \<or> (1 < length s \<and> hd s = CHR ''0'') then None
      else let n = digits_value s in if n < 256 then Some n else None)"

definition parse_ip4 :: "string \<Rightarrow> 32 word option" where
  "parse_ip4 s =
     (case map parse_octet (split_on CHR ''.'' s) of
        [Some a, Some b, Some c, Some d] \<Rightarrow> Some (of_nat (((a * 256 + b) * 256 + c) * 256 + d))
      | _ \<Rightarrow> None)"

definition octet :: "nat \<Rightarrow> string" where
  "octet n = nat_digits n"

definition u32ToIP :: "32 word \<Rightarrow> string" where
  "u32ToIP u = (let n = unat u in
     octet (n div 16777216) @ ''.'' @ octet (n div 65536 mod 256) @ ''.'' @
     octet (n div 256 mod 256) @ ''.'' @ octet (n mod 256))"

record ipRange =
  start :: "32 word"
  endIP :: "32 word"

datatype range_error = InvalidRange string | StartAfterEnd string

definition cut_dash :: "string \<Rightarrow> string \<times> string \<times> bool" where
  "cut_dash s = (if CHR ''-'' \<in> set s
     then (takeWhile (\<lambda>c. c \<noteq> CHR ''-'') s, tl (dropWhile (\<lambda>c. c \<noteq> CHR ''-'') s), True)
     else (s, [], False))"

definition parseIPRange :: "string \<Rightarrow> range_error + ipRange" where
  "parseIPRange s0 =
     (let s = trim_space s0; (lo, hi0, found) = cut_dash s; hi = (if found then hi0 else lo)
      in case (parse_ip4 (trim_space lo), parse_ip4 (trim_space hi)) of
           (Some a, Some b) \<Rightarrow> if b < a then Inl (StartAfterEnd s) else Inr \<lparr>start = a, endIP = b\<rparr>
         | _ \<Rightarrow> Inl (InvalidRange s))"

definition contains :: "ipRange \<Rightarrow> string \<Rightarrow> bool" where
  "contains r ip = (case parse_ip4 (trim_space ip) of None \<Rightarrow> False | Some u \<Rightarrow> start r \<le> u \<and> u \<le> endIP r)"

partial_function (option) allocate_loop :: "ipRange \<Rightarrow> string set \<Rightarrow> 32 word \<Rightarrow> string option" where
  "allocate_loop r used u =
     (if u \<le> endIP r
      then let ip = u32ToIP u in if ip \<notin> used then Some ip else allocate_loop r used (u + 1)
      else Some [])"

definition allocate :: "ipRange \<Rightarrow> string set \<Rightarrow> string option" where
  "allocate r used = allocate_loop r used (start r)"

subsection \<open>Policy routes\<close>

record PolicyRoute =
  Priority :: int
  Match :: string
  Action :: string
  NextHopIP :: string

definition ownedPolicyMatch :: "string \<Rightarrow> string \<Rightarrow> string" where
  "ownedPolicyMatch podIP cidr = ''ip4.src == '' @ podIP @ '' && ip4.dst == '' @ cidr"

definition re_nonspace :: rexp where
  "re_nonspace = RSet (\<lambda>c. c \<notin> {CHR '' '', CHR 0x09, CHR 0x0A, CHR 0x0C, CHR 0x0D})"

definition ownedPolicyRe :: rexp where
  "ownedPolicyRe =
     re_concat [re_bytes ''ip4.src == '', re_plus re_nonspace, re_bytes '' && ip4.dst == '', re_plus re_nonspace]"

definition isOwnedPolicy :: "PolicyRoute \<Rightarrow> int \<Rightarrow> bool" where
  "isOwnedPolicy p priority \<longleftrightarrow>
     Priority p = priority \<and> Action p = ''allow'' \<and> match_here (\<lambda>r. r = []) ownedPolicyRe (trim_space (Match p))"

text \<open>
  \<^verbatim>\<open>sort.Slice\<close> may order equal elements in any way; the stable order is one of them, and the
  theorems about the merged list speak of its elements, not of the order of equal ones.
\<close>

definition sortRoutes :: "PolicyRoute list \<Rightarrow> PolicyRoute list" where
  "sortRoutes routes = sort_key (\<lambda>p. (- Priority p, Match p)) routes"

fun owned_routes :: "string list \<Rightarrow> string set \<Rightarrow> int \<Rightarrow> string list \<Rightarrow> PolicyRoute list" where
  "owned_routes [] seen priority lanCIDRs = []"
| "owned_routes (ip # ips) seen priority lanCIDRs =
     (if ip = [] \<or> ip \<in> seen then owned_routes ips seen priority lanCIDRs
      else map (\<lambda>cidr. \<lparr>Priority = priority, Match = ownedPolicyMatch ip cidr, Action = ''allow'', NextHopIP = []\<rparr>)
             (filter (\<lambda>cidr. trim_space cidr \<noteq> []) lanCIDRs) @
           owned_routes ips (insert ip seen) priority lanCIDRs)"

definition mergePolicyRoutes :: "PolicyRoute list \<Rightarrow> string list \<Rightarrow> int \<Rightarrow> string list \<Rightarrow> PolicyRoute list" where
  "mergePolicyRoutes existing wantPodIPs priority lanCIDRs =
     sortRoutes (filter (\<lambda>p. \<not> isOwnedPolicy p priority) existing @ owned_routes wantPodIPs {} priority lanCIDRs)"

definition policyRoutesEqual :: "PolicyRoute list \<Rightarrow> PolicyRoute list \<Rightarrow> bool" where
  "policyRoutesEqual a b \<longleftrightarrow> length a = length b \<and> list_all2 (=) a b"

definition norm_cidrs :: "string list \<Rightarrow> string set" where
  "norm_cidrs ss = {trim_space s | s. s \<in> set ss \<and> trim_space s \<noteq> []}"

definition sameCIDRSet :: "string list \<Rightarrow> string list \<Rightarrow> bool" where
  "sameCIDRSet a b \<longleftrightarrow>
     (let norm = (\<lambda>ss. remdups (filter (\<lambda>s. s \<noteq> []) (map trim_space ss))); ma = norm a; mb = norm b
      in length ma = length mb \<and> (\<forall>k \<in> set ma. k \<in> set mb))"

definition resourceName :: "string \<Rightarrow> string \<Rightarrow> string" where
  "resourceName ns svc = ''lanexpose-'' @ ns @ ''-'' @ svc"

subsection \<open>Allocation\<close>

text \<open>The addresses of a range in ascending order, and the first free one.\<close>

definition addresses :: "ipRange \<Rightarrow> string list" where
  "addresses r = map (\<lambda>n. u32ToIP (of_nat n)) [unat (start r) ..< Suc (unat (endIP r))]"

definition first_free :: "string set \<Rightarrow> string list \<Rightarrow> string" where
  "first_free used ips = (case filter (\<lambda>ip. ip \<notin> used) ips of [] \<Rightarrow> [] | ip # _ \<Rightarrow> ip)"

text \<open>Before the last address of the type the counter does not wrap.\<close>

lemma unat_of_nat_32: "n < 2 ^ 32 \<Longrightarrow> unat (of_nat n :: 32 word) = n"
  by (simp add: unat_of_nat)

lemma allocate_loop_spec:
  assumes "unat (endIP r) < 2 ^ 32 - 1" and "n \<le> Suc (unat (endIP r))"
  shows "allocate_loop r used (of_nat n) =
    Some (first_free used (map (\<lambda>n. u32ToIP (of_nat n)) [n ..< Suc (unat (endIP r))]))"
  using assms(2)
proof (induction "Suc (unat (endIP r)) - n" arbitrary: n)
  case 0
  then have "n = Suc (unat (endIP r))" by simp
  moreover from this assms(1) have "unat (of_nat n :: 32 word) = n" by (intro unat_of_nat_32) simp
  ultimately have "\<not> (of_nat n :: 32 word) \<le> endIP r" by (simp add: word_le_nat_alt)
  with \<open>n = _\<close> show ?case by (subst allocate_loop.simps) (simp add: first_free_def)
next
  case (Suc k)
  then have n: "n \<le> unat (endIP r)" by simp
  with assms(1) have "unat (of_nat n :: 32 word) = n" by (intro unat_of_nat_32) simp
  with n have le: "(of_nat n :: 32 word) \<le> endIP r" by (simp add: word_le_nat_alt)
  have range: "[n ..< Suc (unat (endIP r))] = n # [Suc n ..< Suc (unat (endIP r))]"
    using n by (simp add: upt_conv_Cons)
  have ih: "allocate_loop r used (of_nat (Suc n)) =
      Some (first_free used (map (\<lambda>n. u32ToIP (of_nat n)) [Suc n ..< Suc (unat (endIP r))]))"
    using Suc n by (intro Suc.hyps(1)) simp_all
  have next_u: "(of_nat n :: 32 word) + 1 = of_nat (Suc n)" by simp
  show ?case
    by (subst allocate_loop.simps) (use le in \<open>simp only: range next_u ih Let_def, simp add: first_free_def\<close>)
qed

lemma allocate_spec:
  "unat (endIP r) < 2 ^ 32 - 1 \<Longrightarrow> start r \<le> endIP r \<Longrightarrow>
    allocate r used = Some (first_free used (addresses r))"
  using allocate_loop_spec [of r "unat (start r)"]
  by (simp add: allocate_def addresses_def word_le_nat_alt)

text \<open>
  Allocation returns the lowest address of the range that is not in use, and the empty string
  exactly when all are, for every range that does not end in the last IPv4 address.
\<close>

theorem allocate_lowest_free:
  assumes "unat (endIP r) < 2 ^ 32 - 1" and "start r \<le> endIP r"
  shows "allocate r used = Some (first_free used (addresses r))"
  using assms by (rule allocate_spec)

theorem allocate_lowest_free_witness:
  "allocate \<lparr>start = 3232236017, endIP = 3232236018\<rparr> {''192.168.1.241''} = Some ''192.168.1.242''"
proof -
  let ?r = "\<lparr>start = 3232236017, endIP = 3232236018\<rparr> :: ipRange"
  have ips: "u32ToIP 3232236017 = ''192.168.1.241''" "u32ToIP 3232236018 = ''192.168.1.242''"
    by (simp_all add: u32ToIP_def octet_def nat_digits.simps digit_char_eval)
  have "allocate ?r {''192.168.1.241''} = Some (first_free {''192.168.1.241''} (addresses ?r))"
    by (rule allocate_lowest_free) (simp_all add: word_le_nat_alt)
  also have "addresses ?r = [u32ToIP 3232236017, u32ToIP 3232236018]"
    by (simp add: addresses_def upt_rec [of 3232236017] upt_rec [of 3232236018])
  finally show ?thesis by (simp add: ips first_free_def)
qed

text \<open>
  For a range that ends in 255.255.255.255 the loop never sees its end: with the range full
  the counter wraps and the address handed out lies outside the range.
\<close>

theorem allocate_wraps_at_last_address:
  "allocate \<lparr>start = - 1, endIP = - 1\<rparr> {''255.255.255.255''} = Some ''0.0.0.0'' \<and>
   \<not> contains \<lparr>start = - 1, endIP = - 1\<rparr> ''0.0.0.0''"
proof
  have ips: "u32ToIP (- 1) = ''255.255.255.255''" "u32ToIP 0 = ''0.0.0.0''"
    by (simp_all add: u32ToIP_def octet_def nat_digits.simps digit_char_eval unsigned_minus_1_eq_mask mask_eq_exp_minus_1)
  show "allocate \<lparr>start = - 1, endIP = - 1\<rparr> {''255.255.255.255''} = Some ''0.0.0.0''"
    unfolding allocate_def
    by (subst allocate_loop.simps, subst allocate_loop.simps) (simp add: ips Let_def)
  show "\<not> contains \<lparr>start = - 1, endIP = - 1\<rparr> ''0.0.0.0''"
    by (simp add: contains_def trim_space_def is_space_def parse_ip4_def parse_octet_def is_digit_def digits_value_def)
qed


subsection \<open>Printing and parsing addresses\<close>

lemma parse_octet_octet: "n < 256 \<Longrightarrow> parse_octet (octet n) = Some n"
proof -
  assume n: "n < 256"
  then have "length (nat_digits n) \<le> 3" by (intro length_nat_digits) simp_all
  moreover have "hd (nat_digits n) \<noteq> CHR ''0''" if "1 < length (nat_digits n)"
    using that nat_digits_hd [of n] by (cases "n < 10") (simp_all add: nat_digits.simps [of n])
  ultimately show ?thesis
    using n nat_digits_digits by (auto simp: parse_octet_def octet_def list_all_iff digits_value_nat_digits Let_def)
qed

lemma octet_no_dot: "CHR ''.'' \<notin> set (octet n)"
  using nat_digits_digits [of "CHR ''.''" n] by (auto simp: octet_def is_digit_def)

lemma split_on_sep: "c \<notin> set w \<Longrightarrow> split_on c (w @ c # s) = w # split_on c s"
  by (induction w) auto

lemma parse_u32ToIP: "parse_ip4 (u32ToIP u) = Some u"
proof -
  let ?n = "unat u"
  have n: "?n < 4294967296" using unsigned_less [of u, where ?'a = nat] by simp
  then have "?n div 16777216 < 256" by (simp add: less_mult_imp_div_less)
  then have parts: "parse_octet (octet (?n div 16777216)) = Some (?n div 16777216)"
    by (rule parse_octet_octet)
  have sum: "((?n div 16777216 * 256 + ?n div 65536 mod 256) * 256 + ?n div 256 mod 256) * 256 + ?n mod 256 = ?n"
  proof -
    have "?n div 65536 = ?n div 256 div 256" "?n div 16777216 = ?n div 256 div 256 div 256"
      using div_mult2_eq [of ?n 256 256] div_mult2_eq [of "?n div 256" 256 256] div_mult2_eq [of ?n 256 65536]
      by simp_all
    then show ?thesis by (simp only: div_mult_mod_eq)
  qed
  have "split_on CHR ''.'' (u32ToIP u) = [octet (?n div 16777216), octet (?n div 65536 mod 256),
      octet (?n div 256 mod 256), octet (?n mod 256)]"
    by (simp add: u32ToIP_def Let_def split_on_sep split_on_no_sep octet_no_dot)
  then have "parse_ip4 (u32ToIP u) = Some (of_nat (((?n div 16777216 * 256 + ?n div 65536 mod 256) * 256 +
      ?n div 256 mod 256) * 256 + ?n mod 256))"
    by (simp add: parse_ip4_def parts parse_octet_octet)
  then show ?thesis unfolding sum by simp
qed


lemma u32ToIP_no_space: "c \<in> set (u32ToIP u) \<Longrightarrow> \<not> is_space c"
  using nat_digits_digits by (fastforce simp: u32ToIP_def Let_def octet_def is_digit_def is_space_def)

lemma trim_space_id: "(\<And>c. c \<in> set s \<Longrightarrow> \<not> is_space c) \<Longrightarrow> trim_space s = s"
proof -
  have drop: "dropWhile is_space t = t" if "\<And>c. c \<in> set t \<Longrightarrow> \<not> is_space c" for t
    using that by (cases t) auto
  assume "\<And>c. c \<in> set s \<Longrightarrow> \<not> is_space c"
  then show ?thesis using drop [of s] drop [of "rev s"] by (simp add: trim_space_def)
qed

text \<open>
  Round trip. The dotted form of an address is read back as that address, and it lies in a
  range exactly when the number does.
\<close>

theorem address_roundtrip:
  "parse_ip4 (u32ToIP u) = Some u \<and> (contains r (u32ToIP u) \<longleftrightarrow> start r \<le> u \<and> u \<le> endIP r)"
  using u32ToIP_no_space [of _ u] by (simp add: contains_def trim_space_id parse_u32ToIP)

subsection \<open>Merging policy routes\<close>

lemma lang_re_bytes: "lang (re_bytes w) u \<longleftrightarrow> u = w"
  by (induction w arbitrary: u) (auto simp: re_bytes_def lang_RSeq)

lemma lang_star_RSet: "lang (RStar (RSet P)) u \<longleftrightarrow> (\<forall>c \<in> set u. P c)"
proof (induction u)
  case (Cons c u)
  then show ?case by (auto simp: lang_star_Cons)
qed (simp add: lang_star0)

lemma lang_plus_RSet: "lang (re_plus (RSet P)) u \<longleftrightarrow> u \<noteq> [] \<and> (\<forall>c \<in> set u. P c)"
proof (cases u)
  case (Cons c v)
  then show ?thesis
    using deriv_lang [of c "RSeq (RSet P) (RStar (RSet P))" v]
    by (auto simp: re_plus_def lang_star_RSet lang_RSeq simp flip: deriv_lang split: if_splits)
qed (auto simp: re_plus_def lang_RSeq)

lemma match_here_full: "match_here (\<lambda>r. r = []) r s \<longleftrightarrow> lang r s"
  by (simp add: match_here_iff)

text \<open>Text without white space: what pod addresses and CIDR blocks are.\<close>

definition solid :: "string \<Rightarrow> bool" where
  "solid s \<longleftrightarrow> s \<noteq> [] \<and> (\<forall>c \<in> set s. \<not> is_space c)"

lemma solid_nonspace: "solid s \<Longrightarrow> lang (re_plus re_nonspace) s"
  by (auto simp: re_nonspace_def lang_plus_RSet solid_def is_space_def)

lemma owned_match_shape:
  assumes "solid ip" and "solid cidr"
  shows "trim_space (ownedPolicyMatch ip cidr) = ownedPolicyMatch ip cidr"
    and "lang ownedPolicyRe (ownedPolicyMatch ip cidr)"
proof -
  obtain c0 c where "cidr = c0 @ [c]" "\<not> is_space c"
    using assms(2) by (metis rev_exhaust solid_def in_set_conv_decomp)
  then show "trim_space (ownedPolicyMatch ip cidr) = ownedPolicyMatch ip cidr"
    by (simp add: trim_space_def ownedPolicyMatch_def is_space_def)
  have "lang ownedPolicyRe (''ip4.src == '' @ ip @ '' && ip4.dst == '' @ cidr @ [])"
    unfolding ownedPolicyRe_def re_concat_def foldr.simps o_apply
    by (intro lang_seq solid_nonspace assms lang_eps) (simp_all add: lang_re_bytes)
  then show "lang ownedPolicyRe (ownedPolicyMatch ip cidr)" by (simp add: ownedPolicyMatch_def)
qed

definition owned_route :: "int \<Rightarrow> string \<Rightarrow> string \<Rightarrow> PolicyRoute" where
  "owned_route pr ip c = \<lparr>Priority = pr, Match = ownedPolicyMatch ip c, Action = ''allow'', NextHopIP = []\<rparr>"

lemma set_owned_routes:
  "set (owned_routes ips seen pr cidrs) =
    {owned_route pr ip c | ip c. ip \<in> set ips - seen \<and> ip \<noteq> [] \<and> c \<in> set cidrs \<and> trim_space c \<noteq> []}"
proof (induction ips seen pr cidrs rule: owned_routes.induct)
  case (2 ip ips seen pr cidrs)
  show ?case
  proof (cases "ip = [] \<or> ip \<in> seen")
    case True
    then show ?thesis using 2(1) by auto
  next
    case False
    have "{owned_route pr x c | x c. x \<in> set (ip # ips) - seen \<and> x \<noteq> [] \<and> c \<in> set cidrs \<and> trim_space c \<noteq> []} =
        {owned_route pr ip c | c. c \<in> set cidrs \<and> trim_space c \<noteq> []} \<union>
        {owned_route pr x c | x c. x \<in> set ips - insert ip seen \<and> x \<noteq> [] \<and> c \<in> set cidrs \<and> trim_space c \<noteq> []}"
      using False by (auto; metis)
    then show ?thesis using 2(2) False by (auto simp: owned_route_def)
  qed
qed simp

lemma owned_routes_owned:
  assumes "\<forall>ip \<in> set ips. ip = [] \<or> solid ip" and "\<forall>c \<in> set cidrs. trim_space c = [] \<or> solid c"
    and "q \<in> set (owned_routes ips seen pr cidrs)"
  shows "isOwnedPolicy q pr"
proof -
  from assms(3) obtain ip c where "q = owned_route pr ip c" "solid ip" "solid c"
    using assms(1,2) by (auto simp: set_owned_routes)
  with owned_match_shape [of ip c] show ?thesis
    by (simp add: isOwnedPolicy_def owned_route_def match_here_full)
qed

lemma mset_merge:
  "mset (mergePolicyRoutes ex ips pr cidrs) =
    filter_mset (\<lambda>p. \<not> isOwnedPolicy p pr) (mset ex) + mset (owned_routes ips {} pr cidrs)"
  by (simp add: mergePolicyRoutes_def sortRoutes_def)

text \<open>
  Merging policy routes touches the controller's own entries only. Every entry that is not its
  own is kept, as often as it was there; its own are exactly one allow entry per wanted pod
  address and LAN block; and with addresses and blocks free of white space, merging again
  changes nothing, so that the next poll finds no difference.
\<close>

theorem merge_preserves_foreign_and_converges:
  assumes "\<forall>ip \<in> set ips. ip = [] \<or> solid ip" and "\<forall>c \<in> set cidrs. trim_space c = [] \<or> solid c"
  shows "filter_mset (\<lambda>p. \<not> isOwnedPolicy p pr) (mset (mergePolicyRoutes ex ips pr cidrs)) =
      filter_mset (\<lambda>p. \<not> isOwnedPolicy p pr) (mset ex) \<and>
    {p \<in> set (mergePolicyRoutes ex ips pr cidrs). isOwnedPolicy p pr} =
      {owned_route pr ip c | ip c. ip \<in> set ips \<and> ip \<noteq> [] \<and> c \<in> set cidrs \<and> trim_space c \<noteq> []} \<and>
    mset (mergePolicyRoutes (mergePolicyRoutes ex ips pr cidrs) ips pr cidrs) = mset (mergePolicyRoutes ex ips pr cidrs)"
proof -
  let ?o = "owned_routes ips {} pr cidrs"
  have own: "\<And>q. q \<in> set ?o \<Longrightarrow> isOwnedPolicy q pr" using owned_routes_owned [OF assms] .
  then have none: "filter_mset (\<lambda>p. \<not> isOwnedPolicy p pr) (mset ?o) = {#}"
    by (auto simp: filter_mset_eq_conv)
  have all: "{p \<in> set (mergePolicyRoutes ex ips pr cidrs). isOwnedPolicy p pr} = set ?o"
    using own by (auto simp: mergePolicyRoutes_def sortRoutes_def)
  show ?thesis
    by (simp add: all set_owned_routes mset_merge none filter_filter_mset)
qed

theorem merge_preserves_foreign_and_converges_witness:
  "mset (mergePolicyRoutes (mergePolicyRoutes [\<lparr>Priority = 1, Match = ''x'', Action = ''drop'', NextHopIP = []\<rparr>]
       [''10.0.0.7''] 29500 [''192.168.1.0/24'']) [''10.0.0.7''] 29500 [''192.168.1.0/24'']) =
   mset (mergePolicyRoutes [\<lparr>Priority = 1, Match = ''x'', Action = ''drop'', NextHopIP = []\<rparr>]
       [''10.0.0.7''] 29500 [''192.168.1.0/24''])"
proof -
  have "solid ''10.0.0.7''" "solid ''192.168.1.0/24''" by (simp_all add: solid_def is_space_def)
  then show ?thesis
    using merge_preserves_foreign_and_converges [of "[''10.0.0.7'']" "[''192.168.1.0/24'']" 29500
        "[\<lparr>Priority = 1, Match = ''x'', Action = ''drop'', NextHopIP = []\<rparr>]"] by simp
qed

text \<open>
  Two CIDR lists are found equal exactly when they hold the same blocks, whatever their order,
  repetitions and blank entries.
\<close>

theorem sameCIDRSet_iff:
  "sameCIDRSet a b \<longleftrightarrow> norm_cidrs a = norm_cidrs b"
proof -
  let ?n = "\<lambda>ss. remdups (filter (\<lambda>s. s \<noteq> []) (map trim_space ss))"
  have set: "set (?n ss) = norm_cidrs ss" for ss by (auto simp: norm_cidrs_def)
  have card: "length (?n ss) = card (norm_cidrs ss)" for ss
    using distinct_card [of "?n ss"] set [of ss] by simp
  have fin: "finite (norm_cidrs ss)" for ss using set [of ss] by (metis List.finite_set)
  show ?thesis
    unfolding sameCIDRSet_def Let_def card using set card_subset_eq [OF fin [of b], of "norm_cidrs a"]
    by (metis subsetI)
qed

subsection \<open>Names\<close>

text \<open>
  The name of a service's address objects does not determine the service: service \<^verbatim>\<open>b-c\<close> of
  namespace \<^verbatim>\<open>a\<close> and service \<^verbatim>\<open>c\<close> of namespace \<^verbatim>\<open>a-b\<close> share one address and one NAT entry.
\<close>

theorem resourceName_ambiguous:
  "resourceName ''a'' ''b-c'' = resourceName ''a-b'' ''c'' \<and> (''a'', ''b-c'') \<noteq> (''a-b'', ''c'')"
  by (simp add: resourceName_def)

end
