(* ===== verification/LanExpose.thy ===== *)
theory LanExpose
  imports LanAlloc
begin

text \<open>
  One sweep of the LAN exposure controller: \<^verbatim>\<open>lan-expose/reconcile.go\<close>.

  The Kubernetes objects the controller reads and writes are a \<open>cluster\<close>; the API server is an
  \<open>env\<close> that says which call fails (a failed call changes nothing) and what pods there are. The
  calls that create, update and delete objects follow the bodies and conflict handling of
  \<^verbatim>\<open>lan-expose/k8s.go\<close>. Log lines are left out. None is the sweep that does not end, which
  the address allocation may cause.
\<close>

subsection \<open>Objects\<close>

record Service =
  svcNamespace :: string
  svcName :: string
  svcAnnotations :: "string strmap"
  svcSelector :: "string strmap"

record Pod =
  podName :: string
  podNamespace :: string
  podPhase :: string
  podIP :: string

record config =
  exposeAnno :: string
  ipAnno :: string
  assignedAnno :: string
  lanCIDRs :: "string list"
  eipRange :: ipRange
  policyPriority :: int

text \<open>
  An OvnEip is the addresses of its spec and status, an OvnFip its \<^verbatim>\<open>ipName\<close>, a network policy
  with the controller's label its ingress blocks.
\<close>

record cluster =
  cEips :: "(string \<times> string) strmap"
  cFips :: "string strmap"
  cNetpols :: "((string \<times> string) \<times> string list) list"
  cRoutes :: "PolicyRoute list"
  cAssigned :: "((string \<times> string) \<times> string) list"

datatype api =
    ListServices | ListEips | ListPods string | ListNetpols | GetVpc | PatchVpc
  | GetEip string | CreateEip string | DeleteEip string
  | GetFip string | CreateFip string | DeleteFip string
  | GetNetpol string string | CreateNetpol string string | UpdateNetpol string string | DeleteNetpol string string
  | PatchService string string

record env =
  okCall :: "api \<Rightarrow> bool"
  allPods :: "string \<Rightarrow> string strmap \<Rightarrow> Pod list"

definition managedPrefix :: string where
  "managedPrefix = ''lanexpose-''"

definition annotation :: "Service \<Rightarrow> string \<Rightarrow> string" where
  "annotation s k = (case lookup (svcAnnotations s) k of None \<Rightarrow> [] | Some v \<Rightarrow> v)"

subsection \<open>Calls\<close>

definition deleteOvnFip :: "env \<Rightarrow> string \<Rightarrow> cluster \<Rightarrow> cluster" where
  "deleteOvnFip e n c = (if okCall e (DeleteFip n) then c\<lparr>cFips := del n (cFips c)\<rparr> else c)"

definition deleteOvnEip :: "env \<Rightarrow> string \<Rightarrow> cluster \<Rightarrow> cluster" where
  "deleteOvnEip e n c = (if okCall e (DeleteEip n) then c\<lparr>cEips := del n (cEips c)\<rparr> else c)"

definition lanIngressFrom :: "string list \<Rightarrow> string list" where
  "lanIngressFrom cidrs = filter (\<lambda>c. trim_space c \<noteq> []) cidrs"

text \<open>Namespaced objects, by namespace and name.\<close>

definition put_np :: "string \<times> string \<Rightarrow> string list \<Rightarrow> cluster \<Rightarrow> cluster" where
  "put_np k v c = c\<lparr>cNetpols := (k, v) # filter (\<lambda>x. fst x \<noteq> k) (cNetpols c)\<rparr>"

definition deleteNetworkPolicy :: "env \<Rightarrow> string \<Rightarrow> string \<Rightarrow> cluster \<Rightarrow> cluster" where
  "deleteNetworkPolicy e ns n c =
     (if okCall e (DeleteNetpol ns n) then c\<lparr>cNetpols := filter (\<lambda>x. fst x \<noteq> (ns, n)) (cNetpols c)\<rparr> else c)"

subsection \<open>The sweep\<close>

definition listPods :: "env \<Rightarrow> string \<Rightarrow> string strmap \<Rightarrow> Pod list option" where
  "listPods e ns selector =
     (if selector = [] then Some []
      else if okCall e (ListPods ns) then Some (allPods e ns selector) else None)"

definition pickEndpoint :: "env \<Rightarrow> Service \<Rightarrow> Pod option" where
  "pickEndpoint e s =
     (case listPods e (svcNamespace s) (svcSelector s) of
        None \<Rightarrow> None
      | Some pods \<Rightarrow> find (\<lambda>p. podPhase p = ''Running'' \<and> podIP p \<noteq> []) pods)"

text \<open>The inner option is the address, if the service can be exposed in this sweep.\<close>

definition ensureEip :: "env \<Rightarrow> config \<Rightarrow> string \<Rightarrow> Service \<Rightarrow> string set \<Rightarrow> cluster \<Rightarrow> (cluster \<times> string option) option" where
  "ensureEip e cfg rn s used c =
     (if \<not> okCall e (GetEip rn) then Some (c, None)
      else
        let existing = lookup (cEips c) rn; asked = trim_space (annotation s (ipAnno cfg));
            wanted = (if asked \<noteq> [] then Some (Some asked)
                      else case existing of
                          Some (v4, _) \<Rightarrow>
                            if v4 \<noteq> [] then Some (Some v4)
                            else map_option (\<lambda>f. if f = [] then None else Some f) (allocate (eipRange cfg) used)
                        | None \<Rightarrow> map_option (\<lambda>f. if f = [] then None else Some f) (allocate (eipRange cfg) used))
        in case wanted of
             None \<Rightarrow> None
           | Some None \<Rightarrow> Some (c, None)
           | Some (Some eip) \<Rightarrow>
               (case existing of
                  Some (v4, _) \<Rightarrow>
                    if v4 \<noteq> eip then Some (deleteOvnEip e rn (deleteOvnFip e rn c), None)
                    else Some (c, Some eip)
                | None \<Rightarrow>
                    if okCall e (CreateEip rn) then Some (c\<lparr>cEips := put rn (eip, []) (cEips c)\<rparr>, Some eip)
                    else Some (c, None)))"

definition ensureFip :: "env \<Rightarrow> string \<Rightarrow> Pod \<Rightarrow> cluster \<Rightarrow> cluster \<times> bool" where
  "ensureFip e rn pod c =
     (let wantIPName = podName pod @ ''.'' @ podNamespace pod
      in if \<not> okCall e (GetFip rn) then (c, False)
         else case lookup (cFips c) rn of
             None \<Rightarrow> if okCall e (CreateFip rn) then (c\<lparr>cFips := put rn wantIPName (cFips c)\<rparr>, True) else (c, False)
           | Some ipName \<Rightarrow> if ipName \<noteq> wantIPName then (deleteOvnFip e rn c, False) else (c, True))"

definition ensureNetpol :: "env \<Rightarrow> config \<Rightarrow> string \<Rightarrow> string \<Rightarrow> string strmap \<Rightarrow> cluster \<Rightarrow> cluster" where
  "ensureNetpol e cfg rn ns selector c =
     (if selector = [] then c
      else if \<not> okCall e (GetNetpol ns rn) then c
      else case map_of (cNetpols c) (ns, rn) of
          None \<Rightarrow> if okCall e (CreateNetpol ns rn) then put_np (ns, rn) (lanIngressFrom (lanCIDRs cfg)) c else c
        | Some cur \<Rightarrow>
            if \<not> sameCIDRSet (filter (\<lambda>x. x \<noteq> []) cur) (lanCIDRs cfg) \<and> okCall e (UpdateNetpol ns rn)
            then put_np (ns, rn) (lanIngressFrom (lanCIDRs cfg)) c else c)"

definition publish :: "env \<Rightarrow> config \<Rightarrow> Service \<Rightarrow> string \<Rightarrow> cluster \<Rightarrow> cluster" where
  "publish e cfg s eip c =
     (if annotation s (assignedAnno cfg) \<noteq> eip \<and> okCall e (PatchService (svcNamespace s) (svcName s))
      then c\<lparr>cAssigned := ((svcNamespace s, svcName s), eip) # cAssigned c\<rparr> else c)"

record sweep =
  swCluster :: cluster
  swUsed :: "string set"
  swWant :: "string set"
  swPodIPs :: "string list"

definition expose_service :: "env \<Rightarrow> config \<Rightarrow> Service \<Rightarrow> sweep \<Rightarrow> sweep option" where
  "expose_service e cfg s w =
     (if to_lower (annotation s (exposeAnno cfg)) \<noteq> ''true'' then Some w
      else
        let rn = resourceName (svcNamespace s) (svcName s)
        in case pickEndpoint e s of
             None \<Rightarrow> Some w
           | Some pod \<Rightarrow>
               (case ensureEip e cfg rn s (swUsed w) (swCluster w) of
                  None \<Rightarrow> None
                | Some (c, None) \<Rightarrow> Some (w\<lparr>swCluster := c\<rparr>)
                | Some (c, Some eip) \<Rightarrow>
                    let w1 = w\<lparr>swUsed := insert eip (swUsed w)\<rparr>; (c1, ok) = ensureFip e rn pod c
                    in if \<not> ok then Some (w1\<lparr>swCluster := c1\<rparr>)
                       else Some (w1\<lparr>swWant := insert rn (swWant w), swPodIPs := swPodIPs w @ [podIP pod],
                              swCluster := publish e cfg s eip
                                (ensureNetpol e cfg rn (svcNamespace s) (svcSelector s) c1)\<rparr>)))"

fun expose_all :: "env \<Rightarrow> config \<Rightarrow> Service list \<Rightarrow> sweep \<Rightarrow> sweep option" where
  "expose_all e cfg [] w = Some w"
| "expose_all e cfg (s # ss) w =
     (case expose_service e cfg s w of None \<Rightarrow> None | Some w' \<Rightarrow> expose_all e cfg ss w')"

definition stale :: "string set \<Rightarrow> string \<Rightarrow> bool" where
  "stale keep n \<longleftrightarrow> has_prefix n managedPrefix \<and> n \<notin> keep"

definition gc :: "env \<Rightarrow> string list \<Rightarrow> string set \<Rightarrow> cluster \<Rightarrow> cluster" where
  "gc e eips keep c =
     (let c1 = foldl (\<lambda>c n. if stale keep n then deleteOvnEip e n (deleteOvnFip e n c) else c) c eips
      in if \<not> okCall e ListNetpols then c1
         else foldl (\<lambda>c k. if stale keep (snd k) then deleteNetworkPolicy e (fst k) (snd k) c else c) c1
                (map fst (cNetpols c1)))"

definition reconcilePolicy :: "env \<Rightarrow> config \<Rightarrow> string list \<Rightarrow> cluster \<Rightarrow> cluster" where
  "reconcilePolicy e cfg wantPodIPs c =
     (if \<not> okCall e GetVpc then c
      else
        let desired = mergePolicyRoutes (cRoutes c) wantPodIPs (policyPriority cfg) (lanCIDRs cfg)
        in if policyRoutesEqual (sortRoutes (cRoutes c)) desired then c
           else if okCall e PatchVpc then c\<lparr>cRoutes := desired\<rparr> else c)"

text \<open>Every address of a listed OvnEip, of its spec or status, is off limits.\<close>

definition used_addresses :: "(string \<times> string) strmap \<Rightarrow> string set" where
  "used_addresses eips = set (filter (\<lambda>ip. ip \<noteq> []) (concat (map (\<lambda>(n, sp, st). [sp, st]) eips)))"

definition reconcile :: "env \<Rightarrow> config \<Rightarrow> Service list \<Rightarrow> cluster \<Rightarrow> cluster option" where
  "reconcile e cfg services c =
     (if \<not> okCall e ListServices \<or> \<not> okCall e ListEips then Some c
      else
        case expose_all e cfg services
               \<lparr>swCluster = c, swUsed = used_addresses (cEips c), swWant = {}, swPodIPs = []\<rparr> of
          None \<Rightarrow> None
        | Some w \<Rightarrow> Some (reconcilePolicy e cfg (swPodIPs w) (gc e (map fst (cEips c)) (swWant w) (swCluster w))))"


subsection \<open>What a sweep leaves alone\<close>

text \<open>The objects of the name \<open>n\<close> are the same in both clusters.\<close>

definition same_objects :: "string \<Rightarrow> cluster \<Rightarrow> cluster \<Rightarrow> bool" where
  "same_objects n c c' \<longleftrightarrow>
     lookup (cEips c') n = lookup (cEips c) n \<and> lookup (cFips c') n = lookup (cFips c) n \<and>
     (\<forall>ns. map_of (cNetpols c') (ns, n) = map_of (cNetpols c) (ns, n))"

lemma same_objects_refl [simp]: "same_objects n c c"
  by (simp add: same_objects_def)

lemma same_objects_trans: "same_objects n a b \<Longrightarrow> same_objects n b c \<Longrightarrow> same_objects n a c"
  by (simp add: same_objects_def)

lemma map_of_filter_key: "map_of (filter (\<lambda>x. fst x \<noteq> k) m) k' = (if k' = k then None else map_of m k')"
  by (induction m) auto

lemma same_calls:
  "n \<noteq> m \<Longrightarrow> same_objects n c (deleteOvnFip e m c)"
  "n \<noteq> m \<Longrightarrow> same_objects n c (deleteOvnEip e m c)"
  "n \<noteq> m \<Longrightarrow> same_objects n c (put_np (ns, m) v c)"
  "n \<noteq> m \<Longrightarrow> same_objects n c (deleteNetworkPolicy e ns m c)"
  "same_objects n c (publish e cfg s eip c)"
  "same_objects n c (reconcilePolicy e cfg ips c)"
  by (auto simp: same_objects_def deleteOvnFip_def deleteOvnEip_def put_np_def deleteNetworkPolicy_def
      map_of_filter_key publish_def reconcilePolicy_def Let_def)

lemma ensureEip_same:
  "ensureEip e cfg rn s used c = Some (c', r) \<Longrightarrow> n \<noteq> rn \<Longrightarrow> same_objects n c c'"
  by (auto simp: ensureEip_def Let_def same_objects_def deleteOvnEip_def deleteOvnFip_def
      split: if_split_asm option.splits)

lemma ensureFip_same: "ensureFip e rn pod c = (c', ok) \<Longrightarrow> n \<noteq> rn \<Longrightarrow> same_objects n c c'"
  by (auto simp: ensureFip_def Let_def same_objects_def deleteOvnFip_def split: if_split_asm option.splits)

lemma ensureNetpol_same: "n \<noteq> rn \<Longrightarrow> same_objects n c (ensureNetpol e cfg rn ns sel c)"
  by (auto simp: ensureNetpol_def same_calls split: option.splits)

text \<open>What exposing one service can do.\<close>

lemma expose_service_cases:
  assumes "expose_service e cfg s w = Some w'"
  defines "rn \<equiv> resourceName (svcNamespace s) (svcName s)"
  shows "w' = w \<or>
    (to_lower (annotation s (exposeAnno cfg)) = ''true'' \<and> pickEndpoint e s \<noteq> None \<and>
     (\<forall>n. n \<noteq> rn \<longrightarrow> same_objects n (swCluster w) (swCluster w')) \<and> swWant w' \<subseteq> insert rn (swWant w) \<and>
     cRoutes (swCluster w') = cRoutes (swCluster w))"
proof (cases "to_lower (annotation s (exposeAnno cfg)) = ''true'' \<and> pickEndpoint e s \<noteq> None")
  case False
  then show ?thesis using assms(1) by (auto simp: expose_service_def Let_def split: if_split_asm)
next
  case True
  then obtain pod where pod: "pickEndpoint e s = Some pod" by blast
  with True assms(1) obtain c r where eip: "ensureEip e cfg rn s (swUsed w) (swCluster w) = Some (c, r)"
    by (auto simp: expose_service_def Let_def rn_def split: option.splits)
  obtain c1 ok where fip: "ensureFip e rn pod c = (c1, ok)" by (cases "ensureFip e rn pod c")
  have same: "same_objects n (swCluster w) c" "same_objects n c c1"
      "same_objects n c1 (publish e cfg s x (ensureNetpol e cfg rn ns sel c1))" if "n \<noteq> rn" for n x ns sel
    using that ensureEip_same [OF eip that] ensureFip_same [OF fip that]
      same_objects_trans [OF ensureNetpol_same [OF that] same_calls(5)] by blast+
  have routes: "cRoutes c = cRoutes (swCluster w)" "cRoutes c1 = cRoutes c"
      "cRoutes (publish e cfg s x (ensureNetpol e cfg rn ns sel c1)) = cRoutes c1" for x ns sel
    using eip fip by (auto simp: ensureEip_def ensureFip_def ensureNetpol_def publish_def put_np_def Let_def
        deleteOvnEip_def deleteOvnFip_def split: if_split_asm option.splits)
  have "w' = w\<lparr>swCluster := c\<rparr> \<or> swCluster w' = c1 \<and> swWant w' = swWant w \<or>
     swWant w' = insert rn (swWant w) \<and>
     (\<exists>x. swCluster w' = publish e cfg s x (ensureNetpol e cfg rn (svcNamespace s) (svcSelector s) c1))"
    using assms(1) True pod eip fip
    by (auto simp: expose_service_def Let_def rn_def split: option.splits if_split_asm)
  then show ?thesis using True same same_objects_trans routes by (elim disjE conjE exE) (auto; metis)+
qed

text \<open>A name the sweep has no reason to look at: no annotated service with a pod bears it.\<close>

definition unclaimed :: "env \<Rightarrow> config \<Rightarrow> Service list \<Rightarrow> string \<Rightarrow> bool" where
  "unclaimed e cfg ss n \<longleftrightarrow>
     (\<forall>s \<in> set ss. resourceName (svcNamespace s) (svcName s) = n \<longrightarrow>
        to_lower (annotation s (exposeAnno cfg)) \<noteq> ''true'' \<or> pickEndpoint e s = None)"

lemma expose_all_unclaimed:
  "expose_all e cfg ss w = Some w' \<Longrightarrow> unclaimed e cfg ss n \<Longrightarrow>
    same_objects n (swCluster w) (swCluster w') \<and> (n \<in> swWant w' \<longrightarrow> n \<in> swWant w) \<and>
    cRoutes (swCluster w') = cRoutes (swCluster w)"
proof (induction ss arbitrary: w)
  case (Cons s ss)
  then obtain w1 where w1: "expose_service e cfg s w = Some w1" "expose_all e cfg ss w1 = Some w'"
    by (auto split: option.splits)
  have "unclaimed e cfg ss n" using Cons.prems(2) by (simp add: unclaimed_def)
  note ih = Cons.IH [OF w1(2) this]
  have "same_objects n (swCluster w) (swCluster w1) \<and> (n \<in> swWant w1 \<longrightarrow> n \<in> swWant w) \<and>
      cRoutes (swCluster w1) = cRoutes (swCluster w)"
    using expose_service_cases [OF w1(1)] Cons.prems(2) by (auto simp: unclaimed_def)
  with ih show ?case using same_objects_trans by metis
qed simp

lemma unprefixed_unclaimed: "\<not> has_prefix n managedPrefix \<Longrightarrow> unclaimed e cfg ss n"
  by (auto simp: unclaimed_def resourceName_def managedPrefix_def has_prefix_iff)

lemma gc_eips_loop:
  "same_objects n c (foldl (\<lambda>c n. if stale keep n then deleteOvnEip e n (deleteOvnFip e n c) else c) c eips)"
  if "\<not> stale keep n"
proof (induction eips arbitrary: c)
  case (Cons m eips)
  have "same_objects n c (if stale keep m then deleteOvnEip e m (deleteOvnFip e m c) else c)"
    using that same_calls(1,2) same_objects_trans by (cases "m = n") (auto, metis)
  with Cons show ?case using same_objects_trans by (metis (no_types, lifting) foldl_Cons)
qed simp

lemma gc_netpols_loop:
  "same_objects n c (foldl (\<lambda>c k. if stale keep (snd k) then deleteNetworkPolicy e (fst k) (snd k) c else c) c ks)"
  if "\<not> stale keep n"
proof (induction ks arbitrary: c)
  case (Cons k ks)
  have "same_objects n c (if stale keep (snd k) then deleteNetworkPolicy e (fst k) (snd k) c else c)"
    using that same_calls(4) by (cases "snd k = n") auto
  with Cons show ?case using same_objects_trans by (metis (no_types, lifting) foldl_Cons)
qed simp

lemma gc_same: "\<not> stale keep n \<Longrightarrow> same_objects n c (gc e eips keep c)"
  unfolding gc_def Let_def using gc_eips_loop gc_netpols_loop same_objects_trans by (simp; blast)

lemma gc_routes: "cRoutes (gc e eips keep c) = cRoutes c"
proof -
  have "cRoutes (foldl (\<lambda>c n. if stale keep n then deleteOvnEip e n (deleteOvnFip e n c) else c) c eips) = cRoutes c" for c
    by (induction eips arbitrary: c) (auto simp: deleteOvnEip_def deleteOvnFip_def)
  moreover have "cRoutes (foldl (\<lambda>c k. if stale keep (snd k) then deleteNetworkPolicy e (fst k) (snd k) c else c) c ks) = cRoutes c" for c ks
    by (induction ks arbitrary: c) (auto simp: deleteNetworkPolicy_def)
  ultimately show ?thesis by (simp add: gc_def Let_def)
qed

text \<open>
  A sweep touches the controller's own objects only. Whatever the services, the API server's
  failures and the cluster are, addresses, NAT entries and network policies whose name does not
  carry the controller's prefix are as before, and no policy route of another component is lost.
\<close>

theorem reconcile_leaves_foreign_objects:
  assumes "reconcile e cfg services c = Some c'" and "\<not> has_prefix n managedPrefix"
  shows "lookup (cEips c') n = lookup (cEips c) n \<and> lookup (cFips c') n = lookup (cFips c) n \<and>
    map_of (cNetpols c') (ns, n) = map_of (cNetpols c) (ns, n) \<and>
    filter_mset (\<lambda>p. \<not> isOwnedPolicy p (policyPriority cfg)) (mset (cRoutes c)) \<subseteq># mset (cRoutes c')"
proof (cases "okCall e ListServices \<and> okCall e ListEips")
  case False
  then show ?thesis using assms(1) by (auto simp: reconcile_def multiset_filter_subset)
next
  case True
  with assms(1) obtain w where w: "expose_all e cfg services
       \<lparr>swCluster = c, swUsed = used_addresses (cEips c), swWant = {}, swPodIPs = []\<rparr> = Some w"
      and c': "c' = reconcilePolicy e cfg (swPodIPs w) (gc e (map fst (cEips c)) (swWant w) (swCluster w))"
    by (auto simp: reconcile_def split: option.splits)
  note ex = expose_all_unclaimed [OF w unprefixed_unclaimed [OF assms(2)]]
  have "\<not> stale (swWant w) n" using assms(2) by (simp add: stale_def)
  then have "same_objects n c c'"
    unfolding c' using ex same_objects_trans gc_same same_calls(6) by (simp; meson)
  moreover have "cRoutes c' = cRoutes c \<or> cRoutes c' = mergePolicyRoutes (cRoutes c) (swPodIPs w) (policyPriority cfg) (lanCIDRs cfg)"
    using ex by (simp add: c' reconcilePolicy_def gc_routes Let_def)
  ultimately show ?thesis
    by (auto simp: same_objects_def mset_merge multiset_filter_subset)
qed

definition quiet_env :: env where
  "quiet_env = \<lparr>okCall = (\<lambda>_. True), allPods = (\<lambda>_ _. [])\<rparr>"

definition lan_config :: config where
  "lan_config = \<lparr>exposeAnno = ''expose'', ipAnno = ''ip'', assignedAnno = ''eip'', lanCIDRs = [''10.0.0.0/8''],
     eipRange = \<lparr>start = 1, endIP = 2\<rparr>, policyPriority = 29500\<rparr>"

definition lan_cluster :: cluster where
  "lan_cluster = \<lparr>cEips = [(''gateway'', ''0.0.0.9'', []), (''lanexpose-default-web'', ''0.0.0.1'', [])],
     cFips = [(''lanexpose-default-web'', ''web-1.default'')], cNetpols = [], cRoutes = [], cAssigned = []\<rparr>"

definition web_service :: Service where
  "web_service = \<lparr>svcNamespace = ''default'', svcName = ''web'', svcAnnotations = [(''expose'', ''true'')],
     svcSelector = [(''app'', ''web'')]\<rparr>"

lemma quiet_sweep: "\<exists>c'. reconcile quiet_env lan_config [web_service] lan_cluster = Some c'"
  by (simp add: reconcile_def quiet_env_def expose_service_def pickEndpoint_def listPods_def web_service_def)

theorem reconcile_leaves_foreign_objects_witness:
  "\<exists>c'. reconcile quiet_env lan_config [web_service] lan_cluster = Some c' \<and>
     lookup (cEips c') ''gateway'' = Some (''0.0.0.9'', [])"
proof -
  obtain c' where c': "reconcile quiet_env lan_config [web_service] lan_cluster = Some c'"
    using quiet_sweep by blast
  have "\<not> has_prefix ''gateway'' managedPrefix" by (simp add: has_prefix_def managedPrefix_def)
  from reconcile_leaves_foreign_objects [OF c' this] c' show ?thesis by (simp add: lan_cluster_def)
qed

subsection \<open>Tearing down\<close>

lemma gc_eips_deleted:
  assumes "stale keep n" and "okCall e (DeleteEip n)"
  shows "n \<in> set eips \<or> lookup (cEips c) n = None \<Longrightarrow>
    lookup (cEips (foldl (\<lambda>c n. if stale keep n then deleteOvnEip e n (deleteOvnFip e n c) else c) c eips)) n = None"
proof (induction eips arbitrary: c)
  case (Cons m eips)
  show ?case
  proof (cases "m = n")
    case True
    then show ?thesis using Cons.IH assms by (simp add: deleteOvnEip_def)
  next
    case False
    with Cons show ?thesis by (auto simp: deleteOvnEip_def deleteOvnFip_def)
  qed
qed simp

lemma gc_netpols_eips:
  "cEips (foldl (\<lambda>c k. if stale keep (snd k) then deleteNetworkPolicy e (fst k) (snd k) c else c) c ks) = cEips c"
  by (induction ks arbitrary: c) (auto simp: deleteNetworkPolicy_def)

lemma sweep_drops_unclaimed:
  assumes "reconcile e cfg services c = Some c'" and "okCall e ListServices" and "okCall e ListEips"
    and "has_prefix n managedPrefix" and "okCall e (DeleteEip n)" and "unclaimed e cfg services n"
  shows "lookup (cEips c') n = None"
proof -
  from assms(1-3) obtain w where w: "expose_all e cfg services
       \<lparr>swCluster = c, swUsed = used_addresses (cEips c), swWant = {}, swPodIPs = []\<rparr> = Some w"
      and c': "c' = reconcilePolicy e cfg (swPodIPs w) (gc e (map fst (cEips c)) (swWant w) (swCluster w))"
    by (auto simp: reconcile_def split: option.splits)
  note ex = expose_all_unclaimed [OF w assms(6)]
  then have "stale (swWant w) n" using assms(4) by (simp add: stale_def)
  moreover have "n \<in> set (map fst (cEips c)) \<or> lookup (cEips (swCluster w)) n = None"
    using ex by (auto simp: same_objects_def lookup_None_iff)
  ultimately have "lookup (cEips (gc e (map fst (cEips c)) (swWant w) (swCluster w))) n = None"
    using gc_eips_deleted [OF _ assms(5)] by (simp add: gc_def Let_def gc_netpols_eips)
  then show ?thesis by (simp add: c' reconcilePolicy_def Let_def)
qed

text \<open>
  C39. A service that is no longer exposed gives its address back: after a sweep whose listings and
  deletion succeed, no address object of the controller is left under a name that no annotated
  service bears.
\<close>

theorem unexposed_address_released:
  assumes "reconcile e cfg services c = Some c'" and "okCall e ListServices" and "okCall e ListEips"
    and "has_prefix n managedPrefix" and "okCall e (DeleteEip n)"
    and "\<forall>s \<in> set services. resourceName (svcNamespace s) (svcName s) = n \<longrightarrow>
      to_lower (annotation s (exposeAnno cfg)) \<noteq> ''true''"
  shows "lookup (cEips c') n = None"
  by (rule sweep_drops_unclaimed [OF assms(1-5)]) (use assms(6) in \<open>auto simp: unclaimed_def\<close>)

theorem unexposed_address_released_witness:
  "\<exists>c'. reconcile quiet_env lan_config [] lan_cluster = Some c' \<and> lookup (cEips c') ''lanexpose-default-web'' = None"
proof -
  obtain c' where c': "reconcile quiet_env lan_config [] lan_cluster = Some c'"
    by (auto simp: reconcile_def quiet_env_def)
  have "lookup (cEips c') ''lanexpose-default-web'' = None"
    by (rule unexposed_address_released [OF c'])
       (simp_all add: quiet_env_def has_prefix_def managedPrefix_def)
  with c' show ?thesis by blast
qed

text \<open>
  A service that stays annotated loses its address as soon as one sweep finds no running pod for
  it, or cannot list its pods: the sweep deletes the address object, and the next one allocates
  whatever is lowest then.
\<close>

theorem restarting_pod_loses_address:
  assumes "reconcile e cfg services c = Some c'" and "okCall e ListServices" and "okCall e ListEips"
    and "s \<in> set services" and "to_lower (annotation s (exposeAnno cfg)) = ''true''"
    and "okCall e (DeleteEip (resourceName (svcNamespace s) (svcName s)))"
    and "\<forall>t \<in> set services. resourceName (svcNamespace t) (svcName t) = resourceName (svcNamespace s) (svcName s) \<longrightarrow>
      pickEndpoint e t = None"
  shows "lookup (cEips c') (resourceName (svcNamespace s) (svcName s)) = None"
proof -
  have "has_prefix (resourceName (svcNamespace s) (svcName s)) managedPrefix"
    by (simp add: resourceName_def managedPrefix_def has_prefix_iff)
  then show ?thesis
    by (rule sweep_drops_unclaimed [OF assms(1-3) _ assms(6)]) (use assms(7) in \<open>auto simp: unclaimed_def\<close>)
qed

theorem restarting_pod_loses_address_witness:
  "\<exists>c'. reconcile quiet_env lan_config [web_service] lan_cluster = Some c' \<and>
     lookup (cEips lan_cluster) ''lanexpose-default-web'' = Some (''0.0.0.1'', []) \<and>
     lookup (cEips c') ''lanexpose-default-web'' = None"
proof -
  obtain c' where c': "reconcile quiet_env lan_config [web_service] lan_cluster = Some c'"
    using quiet_sweep by blast
  have name: "resourceName (svcNamespace web_service) (svcName web_service) = ''lanexpose-default-web''"
    by (simp add: resourceName_def web_service_def)
  have anno: "to_lower (annotation web_service (exposeAnno lan_config)) = ''true''"
    unfolding annotation_def web_service_def lan_config_def to_lower_def by simp code_simp
  have "lookup (cEips c') (resourceName (svcNamespace web_service) (svcName web_service)) = None"
    by (rule restarting_pod_loses_address [OF c' _ _ _ anno])
       (simp_all add: quiet_env_def pickEndpoint_def listPods_def web_service_def)
  with c' show ?thesis by (simp add: name lan_cluster_def)
qed

subsection \<open>Fresh addresses\<close>

text \<open>
  An address the controller chooses is free: when a service asks for none and has none, the one
  it gets lies in the configured range and is the address of no listed object and of no service
  exposed earlier in the same sweep.
\<close>

theorem chosen_address_is_free:
  assumes "ensureEip e cfg rn s used c = Some (c', Some eip)"
    and "trim_space (annotation s (ipAnno cfg)) = []" and "lookup (cEips c) rn = None"
    and "unat (endIP (eipRange cfg)) < 2 ^ 32 - 1" and "start (eipRange cfg) \<le> endIP (eipRange cfg)"
  shows "eip \<notin> used \<and> contains (eipRange cfg) eip \<and> lookup (cEips c') rn = Some (eip, [])"
proof -
  let ?r = "eipRange cfg"
  have got: "allocate ?r used = Some eip" "eip \<noteq> []" "lookup (cEips c') rn = Some (eip, [])"
    using assms(1-3) by (auto simp: ensureEip_def Let_def split: if_split_asm option.splits)
  with allocate_spec [OF assms(4,5)] have "eip = first_free used (addresses ?r)" by simp
  with got(2) have "eip \<in> set (addresses ?r) \<and> eip \<notin> used"
    unfolding first_free_def by (auto split: list.splits dest!: filter_eq_ConsD)
  then obtain n where n: "eip = u32ToIP (of_nat n)" "unat (start ?r) \<le> n" "n \<le> unat (endIP ?r)" "eip \<notin> used"
    by (auto simp: addresses_def)
  with assms(4) have "unat (of_nat n :: 32 word) = n" by (intro unat_of_nat_32) simp
  with n have "contains ?r eip" by (simp add: contains_def trim_space_id u32ToIP_no_space parse_u32ToIP word_le_nat_alt)
  with n(4) got(3) show ?thesis by simp
qed

theorem chosen_address_is_free_witness:
  "\<exists>c' eip. ensureEip quiet_env lan_config ''lanexpose-default-api'' web_service (used_addresses (cEips lan_cluster)) lan_cluster =
       Some (c', Some eip) \<and>
     eip \<notin> used_addresses (cEips lan_cluster) \<and> contains (eipRange lan_config) eip"
proof -
  have ips: "u32ToIP 1 = ''0.0.0.1''" "u32ToIP 2 = ''0.0.0.2''"
    by (simp_all add: u32ToIP_def octet_def nat_digits.simps digit_char_eval)
  have used: "used_addresses (cEips lan_cluster) = {''0.0.0.9'', ''0.0.0.1''}"
    by (auto simp: used_addresses_def lan_cluster_def)
  have "allocate (eipRange lan_config) {''0.0.0.9'', ''0.0.0.1''} = Some ''0.0.0.2''"
    unfolding allocate_def lan_config_def
    by (subst allocate_loop.simps, subst allocate_loop.simps) (simp add: ips Let_def)
  then have alloc: "allocate (eipRange lan_config) (used_addresses (cEips lan_cluster)) = Some ''0.0.0.2''"
    by (simp add: used)
  have pre: "trim_space (annotation web_service (ipAnno lan_config)) = []"
    "lookup (cEips lan_cluster) ''lanexpose-default-api'' = None"
    by (simp_all add: annotation_def web_service_def lan_config_def trim_space_def lan_cluster_def)
  have "okCall quiet_env x" for x by (simp add: quiet_env_def)
  with alloc pre obtain c' where e: "ensureEip quiet_env lan_config ''lanexpose-default-api'' web_service
      (used_addresses (cEips lan_cluster)) lan_cluster = Some (c', Some ''0.0.0.2'')"
    by (simp add: ensureEip_def)
  from chosen_address_is_free [OF e pre] e show ?thesis by (auto simp: lan_config_def)
qed

end
