(* ===== verification/GoFloat.thy ===== *)
theory GoFloat
  imports Complex_Main
begin

text \<open>
  The values of Go's \<^verbatim>\<open>float64\<close> as far as comparisons see them: finite numbers by their exact
  value, the two infinities and NaN. Comparison follows IEEE 754: NaN is neither less than,
  nor greater than, nor equal to anything, itself included.
\<close>

datatype go_float = NaN | NegInf | PosInf | Fin rat

fun fl_less :: "go_float \<Rightarrow> go_float \<Rightarrow> bool" where
  "fl_less NaN _ = False"
| "fl_less _ NaN = False"
| "fl_less (Fin a) (Fin b) = (a < b)"
| "fl_less NegInf b = (b \<noteq> NegInf)"
| "fl_less _ NegInf = False"
| "fl_less PosInf _ = False"
| "fl_less (Fin a) PosInf = True"

fun fl_eq :: "go_float \<Rightarrow> go_float \<Rightarrow> bool" where
  "fl_eq NaN _ = False"
| "fl_eq _ NaN = False"
| "fl_eq a b = (a = b)"

definition fl_le :: "go_float \<Rightarrow> go_float \<Rightarrow> bool" where
  "fl_le a b \<longleftrightarrow> fl_less a b \<or> fl_eq a b"

lemma fl_less_irrefl [simp]: "\<not> fl_less a a"
  by (cases a) auto

lemma fl_less_NaN [simp]: "\<not> fl_less a NaN" "\<not> fl_less NaN a" "\<not> fl_eq a NaN" "\<not> fl_eq NaN a"
  by (cases a; simp)+

lemma fl_less_trans: "fl_less a b \<Longrightarrow> fl_less b c \<Longrightarrow> fl_less a c"
  by (cases a; cases b; cases c) auto

text \<open>Off NaN the order is total.\<close>

lemma fl_linear: "a \<noteq> NaN \<Longrightarrow> b \<noteq> NaN \<Longrightarrow> \<not> fl_less a b \<Longrightarrow> a = b \<or> fl_less b a"
  by (cases a; cases b) auto

lemma fl_eq_iff: "fl_eq a b \<longleftrightarrow> a = b \<and> a \<noteq> NaN"
  by (cases a; cases b) auto

lemma fl_not_less_trans:
  "a \<noteq> NaN \<Longrightarrow> b \<noteq> NaN \<Longrightarrow> c \<noteq> NaN \<Longrightarrow> \<not> fl_less b a \<Longrightarrow> \<not> fl_less c b \<Longrightarrow> \<not> fl_less c a"
  using fl_linear fl_less_trans by metis

end
