(* ===== verification/Hpo.thy ===== *)
theory Hpo
  imports Prelude GoFloat Machine
begin

text \<open>
  Hyperparameter tuning: \<^verbatim>\<open>hpo/grid.go\<close> and \<^verbatim>\<open>hpo/reconcile.go\<close>.

  \<open>reconcile\<close> is one poll of one TuningJob: it reads the stored job and gives the job that is
  stored afterwards. An \<open>answers\<close> record says what the API server answers in that poll: which
  creations succeed, the state of each trial's job, its logs, and whether the status patches
  are stored. \<open>find_all\<close> stands for \<^verbatim>\<open>regexp.Compile\<close> and \<^verbatim>\<open>FindAllStringSubmatch\<close>, None when the
  pattern does not compile; \<open>parse_float\<close> for \<^verbatim>\<open>strconv.ParseFloat\<close>, None on an error.
\<close>

subsection \<open>Grid\<close>

record Param =
  paramName :: string
  paramValues :: "string list"

fun grid_loop :: "string strmap list \<Rightarrow> Param list \<Rightarrow> string strmap list" where
  "grid_loop combos [] = combos"
| "grid_loop combos (p # ps) =
     (if paramValues p = [] then grid_loop combos ps
      else grid_loop (concat (map (\<lambda>base. map (\<lambda>v. put (paramName p) v base) (paramValues p)) combos)) ps)"

definition gridTrials :: "Param list \<Rightarrow> int \<Rightarrow> string strmap list" where
  "gridTrials params mx =
     (let combos = grid_loop [[]] params
      in if 0 < mx \<and> mx < int (length combos) then take (nat mx) combos else combos)"

subsection \<open>Metrics\<close>

type_synonym finder = "string \<Rightarrow> (string \<Rightarrow> string list list) option"

definition defaultMetricRe :: string where
  "defaultMetricRe = ''OPENINFRA_METRIC=([-0-9.eE+]+)''"

definition extractMetric :: "finder \<Rightarrow> string \<Rightarrow> string \<Rightarrow> string option" where
  "extractMetric find_all logs pattern =
     (let dflt = (case find_all defaultMetricRe of None \<Rightarrow> (\<lambda>_. []) | Some re \<Rightarrow> re);
          re = (if pattern \<noteq> [] then (case find_all pattern of Some r \<Rightarrow> r | None \<Rightarrow> dflt) else dflt);
          ms = re logs
      in if ms = [] then None
         else let lst = last ms in if length lst < 2 then None else Some (lst ! 1))"

definition better :: "(string \<Rightarrow> go_float option) \<Rightarrow> string \<Rightarrow> string \<Rightarrow> string \<Rightarrow> bool" where
  "better parse_float a b goal =
     (case parse_float a of
        None \<Rightarrow> False
      | Some af \<Rightarrow>
          (case parse_float b of
             None \<Rightarrow> True
           | Some bf \<Rightarrow> if goal = ''Maximize'' then fl_less bf af else fl_less af bf))"

subsection \<open>Jobs\<close>

datatype trial_status = Pending | Running | Succeeded | Failed

record Trial =
  tName :: string
  tParameters :: "string strmap"
  tStatus :: trial_status
  tMetric :: string

datatype phase = NoPhase | PhaseRunning | PhaseSucceeded | PhaseFailed

record TuningJob =
  jName :: string
  jParameters :: "Param list"
  jGoal :: string
  jMetricRegex :: string
  jMaxParallel :: int
  jMaxTrials :: int
  jPhase :: phase
  jTrials :: "Trial list"
  jTrialsTotal :: nat
  jTrialsComplete :: nat
  jBest :: "(string \<times> string \<times> string strmap) option"

datatype job_state = NoAnswer | JobActive | JobSucceeded | JobFailed

record answers =
  aCreate :: "string \<Rightarrow> bool"
  aJob :: "string \<Rightarrow> job_state"
  aLogs :: "string \<Rightarrow> string option"
  aPatch1 :: bool
  aPatch2 :: bool

text \<open>The body of the loop over the trials: the trial, the number running, whether it changed.\<close>

definition trial_step :: "finder \<Rightarrow> string \<Rightarrow> int \<Rightarrow> answers \<Rightarrow> Trial \<Rightarrow> int \<Rightarrow> Trial \<times> int \<times> bool" where
  "trial_step find_all regex maxPar a t running =
     (case tStatus t of
        Pending \<Rightarrow>
          if maxPar \<le> running then (t, running, False)
          else if \<not> aCreate a (tName t) then (t, running, False)
          else (t\<lparr>tStatus := Running\<rparr>, running + 1, True)
      | Running \<Rightarrow>
          (case aJob a (tName t) of
             NoAnswer \<Rightarrow> (t, running, False)
           | JobSucceeded \<Rightarrow>
               let m = (case aLogs a (tName t) of
                          None \<Rightarrow> tMetric t
                        | Some logs \<Rightarrow> (case extractMetric find_all logs regex of None \<Rightarrow> tMetric t | Some v \<Rightarrow> v))
               in (t\<lparr>tMetric := m, tStatus := Succeeded\<rparr>, running - 1, True)
           | JobFailed \<Rightarrow> (t\<lparr>tStatus := Failed\<rparr>, running - 1, True)
           | JobActive \<Rightarrow> (t, running, False))
      | _ \<Rightarrow> (t, running, False))"

fun trials_loop :: "finder \<Rightarrow> string \<Rightarrow> int \<Rightarrow> answers \<Rightarrow> Trial list \<Rightarrow> int \<Rightarrow> Trial list \<times> int \<times> bool" where
  "trials_loop find_all regex maxPar a [] running = ([], running, False)"
| "trials_loop find_all regex maxPar a (t # ts) running =
     (let (t', running', changed) = trial_step find_all regex maxPar a t running;
          (ts', running'', changed') = trials_loop find_all regex maxPar a ts running'
      in (t' # ts', running'', changed \<or> changed'))"

fun best_loop :: "(string \<Rightarrow> go_float option) \<Rightarrow> string \<Rightarrow> Trial list \<Rightarrow> Trial option \<Rightarrow> Trial option" where
  "best_loop parse_float goal [] best = best"
| "best_loop parse_float goal (t # ts) best =
     (if tStatus t \<noteq> Succeeded \<or> tMetric t = [] then best_loop parse_float goal ts best
      else case best of
          None \<Rightarrow> best_loop parse_float goal ts (Some t)
        | Some b \<Rightarrow>
            if better parse_float (tMetric t) (tMetric b) goal then best_loop parse_float goal ts (Some t)
            else best_loop parse_float goal ts best)"

definition terminal :: "Trial \<Rightarrow> bool" where
  "terminal t \<longleftrightarrow> tStatus t = Succeeded \<or> tStatus t = Failed"

definition count_running :: "Trial list \<Rightarrow> int" where
  "count_running ts = int (length (filter (\<lambda>t. tStatus t = Running) ts))"

definition max_parallel :: "TuningJob \<Rightarrow> int" where
  "max_parallel j = (if jMaxParallel j < 1 then 1 else jMaxParallel j)"

definition goal_of :: "TuningJob \<Rightarrow> string" where
  "goal_of j = (if jGoal j = [] then ''Minimize'' else jGoal j)"

definition new_trials :: "TuningJob \<Rightarrow> Trial list" where
  "new_trials j =
     map (\<lambda>(i, combo). \<lparr>tName = jName j @ ''-t'' @ itoa (int i + 1), tParameters = combo, tStatus = Pending, tMetric = []\<rparr>)
       (enumerate 0 (gridTrials (jParameters j) (jMaxTrials j)))"

text \<open>The last part: completion, best trial and the status patch.\<close>

definition settle :: "(string \<Rightarrow> go_float option) \<Rightarrow> answers \<Rightarrow> TuningJob \<Rightarrow> Trial list \<Rightarrow> bool \<Rightarrow> TuningJob" where
  "settle parse_float a j trials changed =
     (let complete = length (filter terminal trials);
          j1 = j\<lparr>jPhase := PhaseRunning, jTrials := trials, jTrialsTotal := length trials, jTrialsComplete := complete\<rparr>;
          j2 = (if complete = length trials
                then case best_loop parse_float (goal_of j) trials None of
                    Some b \<Rightarrow> j1\<lparr>jPhase := PhaseSucceeded, jBest := Some (tName b, tMetric b, tParameters b)\<rparr>
                  | None \<Rightarrow> j1\<lparr>jPhase := PhaseFailed\<rparr>
                else j1)
      in if (changed \<or> complete = length trials) \<and> aPatch2 a then j2 else j)"

definition reconcile :: "finder \<Rightarrow> (string \<Rightarrow> go_float option) \<Rightarrow> answers \<Rightarrow> TuningJob \<Rightarrow> TuningJob" where
  "reconcile find_all parse_float a j =
     (if jPhase j = PhaseSucceeded \<or> jPhase j = PhaseFailed then j
      else
        let fresh = (jTrials j = []); trials0 = (if fresh then new_trials j else jTrials j)
        in if trials0 = [] then (if aPatch1 a then j\<lparr>jPhase := PhaseFailed\<rparr> else j)
           else
             let j0 = (if fresh \<and> aPatch1 a
                       then j\<lparr>jPhase := PhaseRunning, jTrials := trials0, jTrialsTotal := length trials0, jTrialsComplete := 0\<rparr>
                       else j);
                 (trials, running, changed) =
                   trials_loop find_all (jMetricRegex j) (max_parallel j) a trials0 (count_running trials0)
             in settle parse_float a j0 trials changed)"

subsection \<open>The grid is the product\<close>

abbreviation active :: "Param list \<Rightarrow> Param list" where
  "active ps \<equiv> filter (\<lambda>p. paramValues p \<noteq> []) ps"

lemma length_grid_loop:
  "length (grid_loop combos ps) = length combos * prod_list (map (\<lambda>p. length (paramValues p)) (active ps))"
proof (induction combos ps rule: grid_loop.induct)
  case (2 combos p ps)
  have "length (concat (map (\<lambda>base. map (\<lambda>v. put (paramName p) v base) (paramValues p)) combos)) =
      length combos * length (paramValues p)"
    by (induction combos) auto
  with 2 show ?case by simp
qed simp

definition extends_base :: "Param list \<Rightarrow> string strmap \<Rightarrow> (string \<Rightarrow> string option) \<Rightarrow> bool" where
  "extends_base ps base g \<longleftrightarrow>
     (\<forall>p \<in> set (active ps). \<exists>v \<in> set (paramValues p). g (paramName p) = Some v) \<and>
     (\<forall>k. k \<notin> paramName ` set (active ps) \<longrightarrow> g k = lookup base k)"

lemma extends_base_Cons:
  assumes "paramValues p \<noteq> []" and "distinct (map paramName (active (p # ps)))"
  shows "extends_base (p # ps) base g \<longleftrightarrow> (\<exists>v \<in> set (paramValues p). extends_base ps (put (paramName p) v base) g)"
proof
  assume l: "extends_base (p # ps) base g"
  then obtain v where v: "v \<in> set (paramValues p)" "g (paramName p) = Some v"
    using assms(1) by (auto simp: extends_base_def)
  with l assms have "extends_base ps (put (paramName p) v base) g" by (auto simp: extends_base_def)
  with v(1) show "\<exists>v \<in> set (paramValues p). extends_base ps (put (paramName p) v base) g" by blast
next
  assume "\<exists>v \<in> set (paramValues p). extends_base ps (put (paramName p) v base) g"
  then obtain v where v: "v \<in> set (paramValues p)" "extends_base ps (put (paramName p) v base) g" by blast
  moreover have "paramName p \<notin> paramName ` set (active ps)" using assms by auto
  ultimately have "g (paramName p) = Some v" by (auto simp: extends_base_def)
  with v assms(1) show "extends_base (p # ps) base g" by (auto simp: extends_base_def)
qed

lemma grid_loop_lookup:
  "distinct (map paramName (active ps)) \<Longrightarrow>
    lookup ` set (grid_loop combos ps) = {g. \<exists>base \<in> set combos. extends_base ps base g}"
proof (induction combos ps rule: grid_loop.induct)
  case (1 combos)
  then show ?case by (auto simp: extends_base_def fun_eq_iff)
next
  case (2 combos p ps)
  show ?case
  proof (cases "paramValues p = []")
    case True
    with 2 show ?thesis by (simp add: extends_base_def)
  next
    case False
    with 2 have "lookup ` set (grid_loop combos (p # ps)) =
        {g. \<exists>base \<in> set combos. \<exists>v \<in> set (paramValues p). extends_base ps (put (paramName p) v base) g}"
      by auto
    with extends_base_Cons [OF False 2(3)] show ?thesis by simp
  qed
qed

lemma gridTrials_nonempty: "gridTrials ps mx \<noteq> []"
proof -
  have "0 < prod_list (map (\<lambda>p. length (paramValues p)) (active ps))" by (induction ps) auto
  then have "0 < length (grid_loop [[]] ps)" using length_grid_loop [of "[[]]" ps] by simp
  then show ?thesis by (auto simp: gridTrials_def Let_def)
qed

text \<open>
  The grid is the full product. With distinct parameter names and no limit, the trials are as
  many as the product of the numbers of values, and they are exactly the assignments that give
  every parameter with values one of them and no other name anything; a positive limit keeps
  the first that many. There is always at least one trial.
\<close>

theorem grid_is_product:
  assumes "distinct (map paramName (active ps))"
  shows "length (gridTrials ps 0) = prod_list (map (\<lambda>p. length (paramValues p)) (active ps)) \<and>
    lookup ` set (gridTrials ps 0) =
      {g. (\<forall>p \<in> set (active ps). \<exists>v \<in> set (paramValues p). g (paramName p) = Some v) \<and>
          (\<forall>k. k \<notin> paramName ` set (active ps) \<longrightarrow> g k = None)} \<and>
    (0 < mx \<longrightarrow> gridTrials ps mx = take (nat mx) (gridTrials ps 0)) \<and> gridTrials ps mx \<noteq> []"
proof -
  have len: "length (grid_loop [[]] ps) = prod_list (map (\<lambda>p. length (paramValues p)) (active ps))"
    by (simp add: length_grid_loop)
  with gridTrials_nonempty [of ps mx] grid_loop_lookup [OF assms, of "[[]]"] show ?thesis
    by (auto simp: gridTrials_def extends_base_def Let_def)
qed

theorem grid_is_product_witness:
  "length (gridTrials [\<lparr>paramName = ''lr'', paramValues = [''1'', ''2'']\<rparr>, \<lparr>paramName = ''bs'', paramValues = [''8'', ''16'', ''32'']\<rparr>] 0) = 6"
  using grid_is_product [of "[\<lparr>paramName = ''lr'', paramValues = [''1'', ''2'']\<rparr>, \<lparr>paramName = ''bs'', paramValues = [''8'', ''16'', ''32'']\<rparr>]" 1]
  by simp

lemma new_trials_nonempty: "new_trials j \<noteq> []"
proof -
  have "length (new_trials j) = length (gridTrials (jParameters j) (jMaxTrials j))" by (simp add: new_trials_def)
  then show ?thesis using gridTrials_nonempty by (metis length_0_conv)
qed

subsection \<open>One poll\<close>

definition progress :: "Trial \<Rightarrow> Trial \<Rightarrow> bool" where
  "progress t t' \<longleftrightarrow> tName t' = tName t \<and> tParameters t' = tParameters t \<and>
     (t' = t \<or> (tStatus t = Pending \<and> tStatus t' = Running \<and> tMetric t' = tMetric t) \<or>
      (tStatus t = Running \<and> terminal t'))"

lemma trial_step_progress: "trial_step fa re mp a t r = (t', r', ch) \<Longrightarrow> progress t t'"
  by (auto simp: trial_step_def progress_def terminal_def Let_def
      split: trial_status.splits job_state.splits if_split_asm)

lemma trial_step_running:
  "trial_step fa re mp a t r = (t', r', ch) \<Longrightarrow>
    r' = r + count_running [t'] - count_running [t] \<and> r' \<le> max r mp"
  by (auto simp: trial_step_def count_running_def Let_def
      split: trial_status.splits job_state.splits if_split_asm)

lemma count_running_Cons: "count_running (t # ts) = count_running [t] + count_running ts"
  by (simp add: count_running_def)

lemma trials_loop_spec:
  "trials_loop fa re mp a ts r = (ts', r', ch) \<Longrightarrow>
    list_all2 progress ts ts' \<and> r' = r + count_running ts' - count_running ts \<and> r' \<le> max r mp"
proof (induction ts arbitrary: ts' r r' ch)
  case (Cons t ts)
  obtain t1 r1 ch1 where t: "trial_step fa re mp a t r = (t1, r1, ch1)" by (cases "trial_step fa re mp a t r")
  obtain ts2 r2 ch2 where ts: "trials_loop fa re mp a ts r1 = (ts2, r2, ch2)" by (cases "trials_loop fa re mp a ts r1")
  from Cons.prems t ts have "ts' = t1 # ts2" "r' = r2" by auto
  moreover have "r' \<le> max r mp" using Cons.IH [OF ts] trial_step_running [OF t] \<open>r' = r2\<close> by linarith
  ultimately show ?case
    using Cons.IH [OF ts] trial_step_progress [OF t] trial_step_running [OF t]
    by (simp add: count_running_Cons [of t1 ts2] count_running_Cons [of t ts])
qed (auto simp: count_running_def)

definition job_inv :: "int \<Rightarrow> TuningJob \<Rightarrow> bool" where
  "job_inv mp j \<longleftrightarrow> max_parallel j = mp \<and> count_running (jTrials j) \<le> mp"

lemma count_running_new: "count_running (new_trials j) = 0"
  by (auto simp: count_running_def new_trials_def filter_empty_conv)

lemma settle_trials: "jTrials (settle pf a j ts ch) = jTrials j \<or> jTrials (settle pf a j ts ch) = ts"
  by (auto simp: settle_def Let_def split: option.splits)

lemma settle_spec [simp]: "max_parallel (settle pf a j ts ch) = max_parallel j"
  by (auto simp: settle_def Let_def max_parallel_def split: option.splits)

lemma reconcile_inv: "job_inv mp j \<Longrightarrow> job_inv mp (reconcile fa pf a j)"
proof -
  assume inv: "job_inv mp j"
  let ?t0 = "if jTrials j = [] then new_trials j else jTrials j"
  obtain ts r ch where loop: "trials_loop fa (jMetricRegex j) (max_parallel j) a ?t0 (count_running ?t0) = (ts, r, ch)"
    by (cases "trials_loop fa (jMetricRegex j) (max_parallel j) a ?t0 (count_running ?t0)")
  let ?j0 = "if jTrials j = [] \<and> aPatch1 a
     then j\<lparr>jPhase := PhaseRunning, jTrials := ?t0, jTrialsTotal := length ?t0, jTrialsComplete := 0\<rparr> else j"
  have mp: "max_parallel j = mp" "0 \<le> mp" using inv by (auto simp: job_inv_def max_parallel_def)
  have t0: "count_running ?t0 \<le> mp" using inv mp(2) by (simp add: job_inv_def count_running_new)
  then have ts: "count_running ts \<le> mp" using trials_loop_spec [OF loop] mp(1) by simp
  have j0: "count_running (jTrials ?j0) \<le> mp" "max_parallel ?j0 = mp"
    using t0 inv mp(1) by (auto simp: job_inv_def max_parallel_def)
  have "job_inv mp (settle pf a ?j0 ts ch)"
    using settle_trials [of pf a ?j0 ts ch] ts j0 by (auto simp: job_inv_def)
  then show ?thesis
    using inv loop new_trials_nonempty by (auto simp: reconcile_def Let_def)
qed

interpretation polls: machine j "\<lambda>j a. reconcile fa pf a j"
    "\<lambda>x. jTrials j = [] \<longrightarrow> job_inv (max_parallel j) x" for j fa pf
proof unfold_locales
  show "jTrials j = [] \<longrightarrow> job_inv (max_parallel j) j"
    by (simp add: job_inv_def count_running_def max_parallel_def)
qed (simp add: reconcile_inv)

text \<open>
  The limit on parallel trials holds in every stored state: from a new job on, after any number
  of polls and whatever the API server answers, including lost status updates, no more trials
  are running than allowed (at least one is always allowed).
\<close>

theorem parallel_limit_holds:
  assumes "jTrials j = []"
  shows "count_running (jTrials (foldl (\<lambda>j a. reconcile fa pf a j) j answers)) \<le> max 1 (jMaxParallel j)"
proof -
  have "job_inv (max_parallel j) (foldl (\<lambda>j a. reconcile fa pf a j) j answers)"
    using polls.inv_run [of j fa pf answers] assms by blast
  then show ?thesis by (auto simp: job_inv_def max_parallel_def split: if_splits)
qed

definition demo_job :: TuningJob where
  "demo_job = \<lparr>jName = ''j'', jParameters = [\<lparr>paramName = ''lr'', paramValues = [''1'', ''2'']\<rparr>], jGoal = [],
     jMetricRegex = [], jMaxParallel = 1, jMaxTrials = 0, jPhase = NoPhase, jTrials = [], jTrialsTotal = 0,
     jTrialsComplete = 0, jBest = None\<rparr>"

definition kind_answers :: answers where
  "kind_answers = \<lparr>aCreate = (\<lambda>_. True), aJob = (\<lambda>_. JobFailed), aLogs = (\<lambda>_. None), aPatch1 = True, aPatch2 = True\<rparr>"

theorem parallel_limit_holds_witness:
  "count_running (jTrials (foldl (\<lambda>j a. reconcile (\<lambda>_. None) (\<lambda>_. None) a j) demo_job [kind_answers, kind_answers])) \<le> max 1 1"
  using parallel_limit_holds [of demo_job "\<lambda>_. None" "\<lambda>_. None" "[kind_answers, kind_answers]"]
  by (simp add: demo_job_def)


subsection \<open>Trials only move forward\<close>

lemma list_all2_progress_refl: "list_all2 progress ts ts"
  by (simp add: list_all2_conv_all_nth progress_def)

text \<open>
  A poll never drops, renames or restarts a trial. Trials stay in number, names and parameters;
  each either stays as it is, goes from pending to running, or from running to succeeded or
  failed; a finished job is not touched again.
\<close>

theorem poll_moves_trials_forward:
  assumes "jTrials j \<noteq> []"
  shows "list_all2 progress (jTrials j) (jTrials (reconcile fa pf a j)) \<and>
    (jPhase j \<in> {PhaseSucceeded, PhaseFailed} \<longrightarrow> reconcile fa pf a j = j)"
proof -
  obtain ts r ch where loop:
      "trials_loop fa (jMetricRegex j) (max_parallel j) a (jTrials j) (count_running (jTrials j)) = (ts, r, ch)"
    by (cases "trials_loop fa (jMetricRegex j) (max_parallel j) a (jTrials j) (count_running (jTrials j))")
  then show ?thesis
    using assms trials_loop_spec [OF loop] settle_trials [of pf a j ts ch] list_all2_progress_refl
    by (auto simp: reconcile_def Let_def)
qed

definition started_job :: TuningJob where
  "started_job = demo_job\<lparr>jPhase := PhaseRunning, jTrials := new_trials demo_job\<rparr>"

theorem poll_moves_trials_forward_witness:
  "list_all2 progress (jTrials started_job) (jTrials (reconcile (\<lambda>_. None) (\<lambda>_. None) kind_answers started_job))"
proof -
  have "jTrials started_job \<noteq> []" using new_trials_nonempty by (simp add: started_job_def)
  from poll_moves_trials_forward [OF this, of "\<lambda>_. None" "\<lambda>_. None" kind_answers] show ?thesis by blast
qed

subsection \<open>Every job ends\<close>

definition work :: "Trial \<Rightarrow> nat" where
  "work t = (case tStatus t of Pending \<Rightarrow> 2 | Running \<Rightarrow> 1 | _ \<Rightarrow> 0)"

definition work_left :: "Trial list \<Rightarrow> nat" where
  "work_left ts = sum_list (map work ts)"

text \<open>A poll in which creations succeed, no job is still active and the patches are stored.\<close>

definition cooperative :: "answers \<Rightarrow> bool" where
  "cooperative a \<longleftrightarrow> (\<forall>n. aCreate a n) \<and> (\<forall>n. aJob a n \<in> {JobSucceeded, JobFailed}) \<and> aPatch1 a \<and> aPatch2 a"

lemma trial_step_work:
  assumes "cooperative a" and "trial_step fa re mp a t r = (t', r', ch)"
  shows "work t' \<le> work t" and "tStatus t = Running \<or> (tStatus t = Pending \<and> r < mp) \<Longrightarrow> work t' < work t"
    and "work t' < work t \<Longrightarrow> ch" and "work t' = work t \<Longrightarrow> r' = r"
proof -
  have job: "aJob a (tName t) = JobSucceeded \<or> aJob a (tName t) = JobFailed" "aCreate a (tName t)"
    using assms(1) by (auto simp: cooperative_def)
  show "work t' \<le> work t" and "tStatus t = Running \<or> (tStatus t = Pending \<and> r < mp) \<Longrightarrow> work t' < work t"
    and "work t' < work t \<Longrightarrow> ch" and "work t' = work t \<Longrightarrow> r' = r"
    using assms(2) job
    by (auto simp: trial_step_def work_def Let_def split: trial_status.splits job_state.splits if_split_asm)
qed

lemma trials_loop_work:
  assumes "cooperative a"
  shows "trials_loop fa re mp a ts r = (ts', r', ch) \<Longrightarrow>
    work_left ts' \<le> work_left ts \<and> (work_left ts' < work_left ts \<longrightarrow> ch) \<and>
    (r = count_running ts \<and> 0 < mp \<and> 0 < work_left ts \<longrightarrow> work_left ts' < work_left ts)"
proof -
  have *: "trials_loop fa re mp a ts r = (ts', r', ch) \<Longrightarrow>
    work_left ts' \<le> work_left ts \<and> (work_left ts' < work_left ts \<longrightarrow> ch) \<and>
    ((\<exists>t \<in> set ts. tStatus t = Running) \<or> (r < mp \<and> 0 < work_left ts) \<longrightarrow> work_left ts' < work_left ts)"
  proof (induction ts arbitrary: ts' r r' ch)
    case (Cons t ts)
    obtain t1 r1 ch1 where t: "trial_step fa re mp a t r = (t1, r1, ch1)" by (cases "trial_step fa re mp a t r")
    obtain ts2 r2 ch2 where ts: "trials_loop fa re mp a ts r1 = (ts2, r2, ch2)" by (cases "trials_loop fa re mp a ts r1")
    note step = trial_step_work [OF assms t] and ih = Cons.IH [OF ts]
    from Cons.prems t ts have e: "ts' = t1 # ts2" "ch = (ch1 \<or> ch2)" by auto
    show ?case
    proof (cases "work t1 < work t")
      case True
      with step ih show ?thesis by (simp add: e work_left_def)
    next
      case False
      then have same: "work t1 = work t" "r1 = r" using step by simp_all
      then have "tStatus t \<noteq> Running" "\<not> (tStatus t = Pending \<and> r < mp)" using step(2) by auto
      then have "r < mp \<Longrightarrow> work t = 0" by (auto simp: work_def split: trial_status.splits)
      with same ih \<open>tStatus t \<noteq> Running\<close> show ?thesis by (auto simp: e work_left_def)
    qed
  qed (simp add: work_left_def)
  assume l: "trials_loop fa re mp a ts r = (ts', r', ch)"
  have "count_running ts = 0" if "\<not> (\<exists>t \<in> set ts. tStatus t = Running)"
    using that by (auto simp: count_running_def filter_empty_conv)
  then show ?thesis using * [OF l] by auto
qed

definition finished :: "TuningJob \<Rightarrow> bool" where
  "finished j \<longleftrightarrow> jPhase j = PhaseSucceeded \<or> jPhase j = PhaseFailed"

lemma work_left_0: "work_left ts = 0 \<longleftrightarrow> length (filter terminal ts) = length ts"
proof -
  have "work_left ts = 0 \<longleftrightarrow> (\<forall>t \<in> set ts. terminal t)"
    by (induction ts) (auto simp: work_left_def work_def terminal_def split: trial_status.splits)
  then show ?thesis by (metis filter_True length_filter_less nat_neq_iff)
qed

lemma poll_cooperative:
  assumes "cooperative a" and "\<not> finished j"
  defines "t0 \<equiv> if jTrials j = [] then new_trials j else jTrials j"
  shows "finished (reconcile fa pf a j) \<or>
    (jTrials (reconcile fa pf a j) \<noteq> [] \<and> work_left (jTrials (reconcile fa pf a j)) < work_left t0)"
proof -
  obtain ts r ch where loop: "trials_loop fa (jMetricRegex j) (max_parallel j) a t0 (count_running t0) = (ts, r, ch)"
    by (cases "trials_loop fa (jMetricRegex j) (max_parallel j) a t0 (count_running t0)")
  have ne: "t0 \<noteq> []" using new_trials_nonempty by (simp add: t0_def)
  have mp: "0 < max_parallel j" by (simp add: max_parallel_def)
  note w = trials_loop_work [OF assms(1) loop]
  have tsne: "ts \<noteq> []" using trials_loop_spec [OF loop] ne by (auto dest: list_all2_lengthD)
  obtain j0 where run: "reconcile fa pf a j = settle pf a j0 ts ch"
    using assms(2) loop ne by (auto simp: reconcile_def finished_def t0_def Let_def)
  have p2: "aPatch2 a" using assms(1) by (simp add: cooperative_def)
  show ?thesis
  proof (cases "work_left ts = 0")
    case True
    then have "finished (settle pf a j0 ts ch)"
      using p2 by (simp add: work_left_0 settle_def finished_def Let_def split: option.split)
    then show ?thesis by (simp add: run)
  next
    case False
    then have "0 < work_left t0" using w by simp
    with w mp have less: "work_left ts < work_left t0" "ch" by simp_all
    with p2 tsne show ?thesis by (auto simp: run settle_def Let_def split: option.split)
  qed
qed

lemma finished_stays: "finished j \<Longrightarrow> foldl (\<lambda>j a. reconcile fa pf a j) j as = j"
  by (induction as) (simp_all add: reconcile_def finished_def)

lemma polls_finish:
  "(\<forall>a \<in> set as. cooperative a) \<Longrightarrow> jTrials j \<noteq> [] \<Longrightarrow> work_left (jTrials j) < length as \<Longrightarrow>
    finished (foldl (\<lambda>j a. reconcile fa pf a j) j as)"
proof (induction as arbitrary: j)
  case (Cons a as)
  show ?case
  proof (cases "finished j \<or> finished (reconcile fa pf a j)")
    case True
    then show ?thesis
    proof
      assume "finished j"
      then show ?thesis by (metis finished_stays)
    qed (simp add: finished_stays)
  next
    case False
    with poll_cooperative [of a j fa pf] Cons.prems have
      "jTrials (reconcile fa pf a j) \<noteq> []" "work_left (jTrials (reconcile fa pf a j)) < work_left (jTrials j)"
      by auto
    with Cons show ?thesis by simp
  qed
qed simp



subsection \<open>The best trial\<close>

definition candidate :: "Trial \<Rightarrow> bool" where
  "candidate t \<longleftrightarrow> tStatus t = Succeeded \<and> tMetric t \<noteq> []"

lemma best_loop_member:
  "best_loop pf goal ts best = Some b \<Longrightarrow> best = Some b \<or> (b \<in> set ts \<and> candidate b)"
  by (induction ts arbitrary: best) (auto simp: candidate_def split: if_split_asm option.splits)

lemma best_loop_None: "best_loop pf goal ts best = None \<longleftrightarrow> best = None \<and> (\<forall>t \<in> set ts. \<not> candidate t)"
  by (induction ts arbitrary: best) (auto simp: candidate_def split: option.splits)

lemma not_better_trans:
  assumes "pf a \<noteq> Some NaN" and "pf b \<noteq> Some NaN" and "pf c \<noteq> Some NaN"
    and "\<not> better pf b a goal" and "\<not> better pf c b goal"
  shows "\<not> better pf c a goal"
  by (cases "pf a"; cases "pf b"; cases "pf c")
     (use assms fl_not_less_trans [of "the (pf a)" "the (pf b)" "the (pf c)"]
        fl_not_less_trans [of "the (pf c)" "the (pf b)" "the (pf a)"] in
      \<open>auto simp: better_def split: if_split_asm\<close>)

lemma better_asym: "better pf b a goal \<Longrightarrow> \<not> better pf a b goal"
  by (cases "pf a"; cases "pf b")
     (use fl_less_trans [of "the (pf a)" "the (pf b)" "the (pf a)"] in \<open>auto simp: better_def split: if_split_asm\<close>)

lemma best_loop_optimal:
  assumes "\<And>t. t \<in> set ts \<union> set_option best \<Longrightarrow> pf (tMetric t) \<noteq> Some NaN"
    and "best_loop pf goal ts best = Some b"
  shows "(\<forall>t \<in> set ts. candidate t \<longrightarrow> \<not> better pf (tMetric t) (tMetric b) goal) \<and>
    (\<forall>t. best = Some t \<longrightarrow> \<not> better pf (tMetric t) (tMetric b) goal)"
  using assms
proof (induction ts arbitrary: best)
  case Nil
  then show ?case by (auto simp: better_def split: option.splits)
next
  case (Cons t ts)
  have self: "\<not> better pf (tMetric x) (tMetric x) goal" for x by (auto simp: better_def split: option.splits)
  show ?case
  proof (cases "candidate t \<and> (best = None \<or> better pf (tMetric t) (tMetric (the best)) goal)")
    case True
    then have "best_loop pf goal ts (Some t) = Some b"
      using Cons.prems(2) by (cases best) (auto simp: candidate_def)
    then have ih: "\<forall>t \<in> set ts. candidate t \<longrightarrow> \<not> better pf (tMetric t) (tMetric b) goal"
        "\<not> better pf (tMetric t) (tMetric b) goal"
      using Cons.IH [of "Some t"] Cons.prems(1) by auto
    have "b \<in> set (t # ts)" using best_loop_member [OF \<open>best_loop pf goal ts (Some t) = Some b\<close>] by auto
    then have "\<not> better pf (tMetric x) (tMetric b) goal" if "best = Some x" for x
      using True that ih(2) Cons.prems(1) better_asym [of pf "tMetric t" "tMetric x" goal]
        not_better_trans [of pf "tMetric b" "tMetric t" "tMetric x" goal] by auto
    with ih show ?thesis by auto
  next
    case False
    then have loop: "best_loop pf goal ts best = Some b"
      using Cons.prems(2) by (cases best) (auto simp: candidate_def split: if_split_asm)
    then have ih: "\<forall>t \<in> set ts. candidate t \<longrightarrow> \<not> better pf (tMetric t) (tMetric b) goal"
        "\<forall>x. best = Some x \<longrightarrow> \<not> better pf (tMetric x) (tMetric b) goal"
      using Cons.IH [of best] Cons.prems(1) by auto
    moreover have "\<not> better pf (tMetric t) (tMetric b) goal" if cand: "candidate t"
    proof -
      from False cand obtain x where x: "best = Some x" "\<not> better pf (tMetric t) (tMetric x) goal" by (cases best) auto
      have "b \<in> set ts \<union> set_option best" using best_loop_member [OF loop] by auto
      then show ?thesis
        using not_better_trans [of pf "tMetric b" "tMetric x" "tMetric t" goal] x ih(2) Cons.prems(1) by auto
    qed
    ultimately show ?thesis by auto
  qed
qed

text \<open>
  The winner is a winner. When all trials are done and the status is stored, the job has failed
  exactly if no trial succeeded with a metric; otherwise the reported trial is one that did,
  and, if no metric is NaN, none that did has a strictly better one.
\<close>

theorem best_trial_is_best:
  assumes "length (filter terminal ts) = length ts" and "aPatch2 a"
    and "\<forall>t \<in> set ts. pf (tMetric t) \<noteq> Some NaN"
  shows "(jPhase (settle pf a j ts ch) = PhaseFailed \<longleftrightarrow> (\<forall>t \<in> set ts. \<not> candidate t)) \<and>
    (jPhase (settle pf a j ts ch) \<noteq> PhaseFailed \<longrightarrow>
      (\<exists>b \<in> set ts. candidate b \<and> jBest (settle pf a j ts ch) = Some (tName b, tMetric b, tParameters b) \<and>
        (\<forall>t \<in> set ts. candidate t \<longrightarrow> \<not> better pf (tMetric t) (tMetric b) (goal_of j))))"
proof (cases "best_loop pf (goal_of j) ts None")
  case None
  then have "\<forall>t \<in> set ts. \<not> candidate t" by (simp add: best_loop_None)
  with None assms(1,2) show ?thesis by (simp add: settle_def Let_def)
next
  case (Some b)
  then have "b \<in> set ts" "candidate b" "\<exists>t \<in> set ts. candidate t"
    using best_loop_member [OF Some] by auto
  moreover have "\<forall>t \<in> set ts. candidate t \<longrightarrow> \<not> better pf (tMetric t) (tMetric b) (goal_of j)"
    using best_loop_optimal [of ts None pf "goal_of j" b] assms(3) Some by auto
  ultimately show ?thesis using assms(1,2) Some by (auto simp: settle_def Let_def)
qed

definition digit_float :: "string \<Rightarrow> go_float option" where
  "digit_float s = (if s = ''nan'' then Some NaN else if s = [] \<or> \<not> list_all is_digit s then None
     else Some (Fin (of_nat (digits_value s))))"

definition done_trial :: "string \<Rightarrow> Trial" where
  "done_trial m = \<lparr>tName = ''t'' @ m, tParameters = [], tStatus = Succeeded, tMetric = m\<rparr>"

theorem best_trial_is_best_witness:
  "\<exists>b \<in> set [done_trial ''7'', done_trial ''3'']. jBest (settle digit_float kind_answers demo_job [done_trial ''7'', done_trial ''3''] True) =
       Some (tName b, tMetric b, tParameters b) \<and> \<not> better digit_float ''3'' (tMetric b) ''Minimize''"
proof -
  let ?ts = "[done_trial ''7'', done_trial ''3'']"
  have pre: "length (filter terminal ?ts) = length ?ts" "aPatch2 kind_answers"
      "\<forall>t \<in> set ?ts. digit_float (tMetric t) \<noteq> Some NaN" "candidate (done_trial ''3'')"
    by (simp_all add: done_trial_def terminal_def kind_answers_def digit_float_def candidate_def)
  note w = best_trial_is_best [OF pre(1-3), of demo_job True]
  then obtain b where b: "b \<in> set ?ts" "jBest (settle digit_float kind_answers demo_job ?ts True) =
       Some (tName b, tMetric b, tParameters b)" "\<not> better digit_float (tMetric (done_trial ''3'')) (tMetric b) (goal_of demo_job)"
    using pre(4) by (metis list.set_intros(1) list.set_intros(2))
  then have "\<not> better digit_float ''3'' (tMetric b) ''Minimize''" by (simp add: done_trial_def goal_of_def demo_job_def)
  with b(1,2) show ?thesis by blast
qed

text \<open>
  A metric that parses as NaN wins if it comes first: no later number is better than it, so the
  job succeeds with it although other trials have proper metrics.
\<close>

theorem nan_metric_wins:
  assumes "pf (tMetric t) = Some NaN" and "candidate t" and "\<forall>u \<in> set ts. pf (tMetric u) \<noteq> None"
  shows "best_loop pf goal (t # ts) None = Some t"
proof -
  have "best_loop pf goal ts (Some t) = Some t"
    using assms(1,3) by (induction ts) (auto simp: better_def)
  with assms(2) show ?thesis by (simp add: candidate_def)
qed

theorem nan_metric_wins_witness:
  "best_loop digit_float ''Minimize'' [done_trial ''nan'', done_trial ''3''] None = Some (done_trial ''nan'')"
  by (rule nan_metric_wins) (simp_all add: digit_float_def done_trial_def candidate_def is_digit_def)

end
