(* ===== verification/GoHeap.thy ===== *)
theory GoHeap
  imports Json
begin

text \<open>
  Go values of type \<^verbatim>\<open>any\<close> with the aliasing of maps.

  The state machine engine keeps its data in decoded JSON: scalars, slices (never written after
  they are filled) and maps, which are references and are written in place. A map is an address
  into a \<open>heap\<close>; two values with the same address are the same Go map. Only allocation
  extends the heap and nothing is freed. \<open>denotes\<close> says which JSON document a value stands for;
  a value that contains itself stands for none.

  A \<^verbatim>\<open>json.RawMessage\<close> is the syntax tree of its text, a \<^typ>\<open>json\<close> whose numbers are the
  exact values of the literals. \<open>unmarshal_any\<close> is \<^verbatim>\<open>json.Unmarshal\<close> into an \<^verbatim>\<open>any\<close>: the
  last of several equal keys wins, and a number goes through \<open>round64\<close>, the rounding to
  \<^verbatim>\<open>float64\<close>, which is None for a literal out of range.
\<close>

subsection \<open>Values and heaps\<close>

datatype gval =
    VNull
  | VBool bool
  | VNum rat
  | VStr string
  | VArr "gval list"
  | VMap nat

type_synonym gmap = "gval strmap"
type_synonym heap = "gmap list"

definition hget :: "heap \<Rightarrow> nat \<Rightarrow> gmap" where
  "hget h a = (if a < length h then h ! a else [])"

lemma hget_append [simp]: "a < length h \<Longrightarrow> hget (h @ g) a = hget h a"
  by (simp add: hget_def nth_append)

lemma hget_alloc [simp]: "hget (h @ [m]) (length h) = m"
  by (simp add: hget_def)

lemma hget_update [simp]: "hget (h[a := m]) b = (if a = b \<and> a < length h then m else hget h b)"
  by (auto simp: hget_def)

text \<open>References stay inside the heap.\<close>

fun wf_val :: "nat \<Rightarrow> gval \<Rightarrow> bool" where
  "wf_val n (VArr vs) = (\<forall>v \<in> set vs. wf_val n v)"
| "wf_val n (VMap a) = (a < n)"
| "wf_val n _ = True"

definition wf_map :: "nat \<Rightarrow> gmap \<Rightarrow> bool" where
  "wf_map n m = (\<forall>v \<in> snd ` set m. wf_val n v)"

definition wf_heap :: "heap \<Rightarrow> bool" where
  "wf_heap h = (\<forall>m \<in> set h. wf_map (length h) m)"

lemma wf_val_mono: "wf_val n v \<Longrightarrow> n \<le> k \<Longrightarrow> wf_val k v"
  by (induction n v rule: wf_val.induct) auto

lemma wf_map_mono: "wf_map n m \<Longrightarrow> n \<le> k \<Longrightarrow> wf_map k m"
  using wf_val_mono by (fastforce simp: wf_map_def)

lemma wf_map_Suc: "wf_map n m \<Longrightarrow> wf_map (Suc n) m"
  by (erule wf_map_mono) simp

lemma wf_map_Nil [simp]: "wf_map n []"
  by (simp add: wf_map_def)

lemma set_put: "set (put k v m) \<subseteq> insert (k, v) (set m)"
  by (induction k v m rule: put.induct) auto

lemma wf_map_put [intro]: "wf_val n v \<Longrightarrow> wf_map n m \<Longrightarrow> wf_map n (put k v m)"
  using set_put [of k v m] by (fastforce simp: wf_map_def)

lemma wf_map_lookup: "wf_map n m \<Longrightarrow> lookup m k = Some v \<Longrightarrow> wf_val n v"
  by (force simp: wf_map_def dest: lookup_in_set)

lemma wf_heap_hget: "wf_heap h \<Longrightarrow> wf_map (length h) (hget h a)"
  by (simp add: wf_heap_def hget_def)

lemma wf_heap_lookup: "wf_heap h \<Longrightarrow> lookup (hget h a) k = Some v \<Longrightarrow> wf_val (length h) v"
  using wf_heap_hget wf_map_lookup by blast

lemma wf_heap_alloc: "wf_heap h \<Longrightarrow> wf_map (Suc (length h)) m \<Longrightarrow> wf_heap (h @ [m])"
  by (auto simp: wf_heap_def intro: wf_map_mono)

lemma wf_heap_update: "wf_heap h \<Longrightarrow> wf_map (length h) m \<Longrightarrow> wf_heap (h[a := m])"
  by (auto simp: wf_heap_def dest: set_update_subset_insert [THEN subsetD])

text \<open>\<open>h'\<close> is \<open>h\<close> after allocations only: every old object is as it was.\<close>

definition extends :: "heap \<Rightarrow> heap \<Rightarrow> bool" where
  "extends h h' \<longleftrightarrow> (\<exists>g. h' = h @ g)"

lemma extends_refl [simp, intro]: "extends h h"
  by (simp add: extends_def)

lemma extends_alloc [simp, intro]: "extends h (h @ g)"
  by (simp add: extends_def)

lemma extends_trans [trans]: "extends a b \<Longrightarrow> extends b c \<Longrightarrow> extends a c"
  by (auto simp: extends_def)

lemma extends_length: "extends h h' \<Longrightarrow> length h \<le> length h'"
  by (auto simp: extends_def)

lemma extends_hget: "extends h h' \<Longrightarrow> a < length h \<Longrightarrow> hget h' a = hget h a"
  by (auto simp: extends_def)

subsection \<open>Decoding\<close>

fun unmarshal_any :: "(rat \<Rightarrow> rat option) \<Rightarrow> json \<Rightarrow> json option"
and unmarshal_list :: "(rat \<Rightarrow> rat option) \<Rightarrow> json list \<Rightarrow> json list option"
and unmarshal_entries :: "(rat \<Rightarrow> rat option) \<Rightarrow> json strmap \<Rightarrow> json strmap \<Rightarrow> json strmap option" where
  "unmarshal_any round64 (JNum q) = map_option JNum (round64 q)"
| "unmarshal_any round64 (JArr vs) = map_option JArr (unmarshal_list round64 vs)"
| "unmarshal_any round64 (JObj m) = map_option JObj (unmarshal_entries round64 m [])"
| "unmarshal_any round64 j = Some j"
| "unmarshal_list round64 [] = Some []"
| "unmarshal_list round64 (v # vs) =
     (case unmarshal_any round64 v of
        None \<Rightarrow> None
      | Some w \<Rightarrow> map_option (Cons w) (unmarshal_list round64 vs))"
| "unmarshal_entries round64 [] acc = Some acc"
| "unmarshal_entries round64 ((k, v) # m) acc =
     (case unmarshal_any round64 v of
        None \<Rightarrow> None
      | Some w \<Rightarrow> unmarshal_entries round64 m (put k w acc))"

text \<open>The Go value of a decoded document: every object is a fresh map.\<close>

fun alloc :: "json \<Rightarrow> heap \<Rightarrow> gval \<times> heap"
and alloc_list :: "json list \<Rightarrow> heap \<Rightarrow> gval list \<times> heap"
and alloc_entries :: "json strmap \<Rightarrow> heap \<Rightarrow> gmap \<times> heap" where
  "alloc JNull h = (VNull, h)"
| "alloc (JBool b) h = (VBool b, h)"
| "alloc (JNum q) h = (VNum q, h)"
| "alloc (JStr s) h = (VStr s, h)"
| "alloc (JArr vs) h = (let (ws, h') = alloc_list vs h in (VArr ws, h'))"
| "alloc (JObj m) h = (let (es, h') = alloc_entries m h in (VMap (length h'), h' @ [es]))"
| "alloc_list [] h = ([], h)"
| "alloc_list (v # vs) h =
     (let (w, h') = alloc v h; (ws, h'') = alloc_list vs h' in (w # ws, h''))"
| "alloc_entries [] h = ([], h)"
| "alloc_entries ((k, v) # m) h =
     (let (w, h') = alloc v h; (es, h'') = alloc_entries m h' in ((k, w) # es, h''))"

lemma json_induct [case_names Null Bool Num Str Arr Obj Nil Cons Empty Entry]:
  assumes "P JNull" "\<And>b. P (JBool b)" "\<And>q. P (JNum q)" "\<And>s. P (JStr s)"
    and "\<And>vs. Q vs \<Longrightarrow> P (JArr vs)" "\<And>m. R m \<Longrightarrow> P (JObj m)"
    and "Q []" "\<And>v vs. P v \<Longrightarrow> Q vs \<Longrightarrow> Q (v # vs)"
    and "R []" "\<And>k v m. P v \<Longrightarrow> R m \<Longrightarrow> R ((k, v) # m)"
  shows "P j" "Q js" "R m"
proof -
  have Qs: "\<forall>v \<in> set vs. P v \<Longrightarrow> Q vs" for vs
    by (induction vs) (simp_all add: assms)
  have Rs: "\<forall>v \<in> snd ` set m. P v \<Longrightarrow> R m" for m
    by (induction m) (auto simp: assms)
  show Pj: "P j" for j
    by (induction j) (auto simp: assms(1-4) intro!: assms(5,6) Qs Rs intro: snds.intros)
  show "Q js" "R m" by (auto intro: Qs Rs Pj)
qed

lemma alloc_extends:
  "extends h (snd (alloc j h))"
  "extends h (snd (alloc_list js h))"
  "extends h (snd (alloc_entries es h))"
  by (induction j and js and es arbitrary: h and h and h rule: json_induct)
    (auto simp: split_beta Let_def intro: extends_trans)

lemma alloc_wf:
  "wf_heap h \<Longrightarrow> wf_heap (snd (alloc j h)) \<and> wf_val (length (snd (alloc j h))) (fst (alloc j h))"
  "wf_heap h \<Longrightarrow> wf_heap (snd (alloc_list js h)) \<and>
     (\<forall>v \<in> set (fst (alloc_list js h)). wf_val (length (snd (alloc_list js h))) v)"
  "wf_heap h \<Longrightarrow> wf_heap (snd (alloc_entries es h)) \<and>
     wf_map (length (snd (alloc_entries es h))) (fst (alloc_entries es h))"
proof (induction j and js and es arbitrary: h and h and h rule: json_induct)
  case (Obj m)
  then show ?case
    by (auto simp: split_beta Let_def intro!: wf_heap_alloc wf_map_Suc)
next
  case (Cons v vs)
  then show ?case
    using extends_length [OF alloc_extends(2) [of "snd (alloc v h)" vs]]
    by (auto simp: split_beta Let_def intro: wf_val_mono)
next
  case (Entry k v m)
  then show ?case
    using extends_length [OF alloc_extends(3) [of "snd (alloc v h)" m]]
    by (auto simp: split_beta Let_def wf_map_def intro: wf_val_mono)
qed (auto simp: split_beta Let_def)

subsection \<open>The document a value stands for\<close>

fun denotes :: "heap \<Rightarrow> json \<Rightarrow> gval \<Rightarrow> bool"
and denotes_list :: "heap \<Rightarrow> json list \<Rightarrow> gval list \<Rightarrow> bool"
and denotes_entries :: "heap \<Rightarrow> json strmap \<Rightarrow> gmap \<Rightarrow> bool" where
  "denotes h JNull v = (v = VNull)"
| "denotes h (JBool b) v = (v = VBool b)"
| "denotes h (JNum q) v = (v = VNum q)"
| "denotes h (JStr s) v = (v = VStr s)"
| "denotes h (JArr js) v = (case v of VArr vs \<Rightarrow> denotes_list h js vs | _ \<Rightarrow> False)"
| "denotes h (JObj m) v = (case v of VMap a \<Rightarrow> a < length h \<and> denotes_entries h m (hget h a) | _ \<Rightarrow> False)"
| "denotes_list h [] vs = (vs = [])"
| "denotes_list h (j # js) vs = (case vs of [] \<Rightarrow> False | v # ws \<Rightarrow> denotes h j v \<and> denotes_list h js ws)"
| "denotes_entries h [] es = (es = [])"
| "denotes_entries h ((k, j) # m) es =
     (case es of [] \<Rightarrow> False | (k', v) # fs \<Rightarrow> k' = k \<and> denotes h j v \<and> denotes_entries h m fs)"

lemma denotes_extends:
  "denotes h j v \<Longrightarrow> extends h h' \<Longrightarrow> denotes h' j v"
  "denotes_list h js vs \<Longrightarrow> extends h h' \<Longrightarrow> denotes_list h' js vs"
  "denotes_entries h m es \<Longrightarrow> extends h h' \<Longrightarrow> denotes_entries h' m es"
proof (induction j and js and m arbitrary: v and vs and es rule: json_induct)
  case (Obj m)
  then show ?case
    using extends_length [OF Obj(3)] by (auto simp: extends_hget split: gval.splits)
qed (auto split: gval.splits list.splits)

text \<open>What was decoded is what is read back.\<close>

lemma alloc_denotes:
  "denotes (snd (alloc j h)) j (fst (alloc j h))"
  "denotes_list (snd (alloc_list js h)) js (fst (alloc_list js h))"
  "denotes_entries (snd (alloc_entries m h)) m (fst (alloc_entries m h))"
proof (induction j and js and m arbitrary: h and h and h rule: json_induct)
  case (Obj m)
  then show ?case
    using denotes_extends(3) [OF Obj extends_alloc] by (auto simp: split_beta Let_def)
next
  case (Cons v vs)
  then show ?case
    using denotes_extends(1) [OF Cons(1) alloc_extends(2)] by (auto simp: split_beta Let_def)
next
  case (Entry k v m)
  then show ?case
    using denotes_extends(1) [OF Entry(1) alloc_extends(3)] by (auto simp: split_beta Let_def)
qed (auto simp: split_beta Let_def)

text \<open>A value stands for at most one document.\<close>

lemma denotes_unique:
  "denotes h j v \<Longrightarrow> denotes h j' v \<Longrightarrow> j = j'"
  "denotes_list h js vs \<Longrightarrow> denotes_list h js' vs \<Longrightarrow> js = js'"
  "denotes_entries h m es \<Longrightarrow> denotes_entries h m' es \<Longrightarrow> m = m'"
proof (induction j and js and m arbitrary: v j' and vs js' and es m' rule: json_induct)
  case (Nil vs)
  then show ?case by (cases js') auto
next
  case (Cons j js vs)
  then show ?case by (cases js') (auto split: list.splits)
next
  case (Empty es)
  then show ?case by (cases m') auto
next
  case (Entry k j m es)
  then show ?case by (cases m') (auto split: list.splits)
qed (case_tac [!] j', auto split: gval.splits)

subsection \<open>The objects a document is made of\<close>

text \<open>The addresses of the maps of a value, with repetition where a map is reached twice.\<close>

fun footprint :: "heap \<Rightarrow> json \<Rightarrow> gval \<Rightarrow> nat list"
and footprint_list :: "heap \<Rightarrow> json list \<Rightarrow> gval list \<Rightarrow> nat list"
and footprint_entries :: "heap \<Rightarrow> json strmap \<Rightarrow> gmap \<Rightarrow> nat list" where
  "footprint h (JArr js) v = (case v of VArr vs \<Rightarrow> footprint_list h js vs | _ \<Rightarrow> [])"
| "footprint h (JObj m) v = (case v of VMap a \<Rightarrow> a # footprint_entries h m (hget h a) | _ \<Rightarrow> [])"
| "footprint h _ v = []"
| "footprint_list h [] vs = []"
| "footprint_list h (j # js) vs =
     (case vs of [] \<Rightarrow> [] | v # ws \<Rightarrow> footprint h j v @ footprint_list h js ws)"
| "footprint_entries h [] es = []"
| "footprint_entries h ((k, j) # m) es =
     (case es of [] \<Rightarrow> [] | (k', v) # fs \<Rightarrow> footprint h j v @ footprint_entries h m fs)"

text \<open>\<open>same_on h h' xs\<close>: the objects at \<open>xs\<close> are in both heaps and are the same.\<close>

definition same_on :: "heap \<Rightarrow> heap \<Rightarrow> nat list \<Rightarrow> bool" where
  "same_on h h' xs \<longleftrightarrow> (\<forall>x \<in> set xs. x < length h' \<and> hget h' x = hget h x)"

lemma same_on_simps [simp]:
  "same_on h h' []"
  "same_on h h' (x # xs) \<longleftrightarrow> x < length h' \<and> hget h' x = hget h x \<and> same_on h h' xs"
  "same_on h h' (xs @ ys) \<longleftrightarrow> same_on h h' xs \<and> same_on h h' ys"
  by (auto simp: same_on_def)

lemma footprint_frame:
  "denotes h j v \<Longrightarrow> same_on h h' (footprint h j v) \<Longrightarrow>
     denotes h' j v \<and> footprint h' j v = footprint h j v"
  "denotes_list h js vs \<Longrightarrow> same_on h h' (footprint_list h js vs) \<Longrightarrow>
     denotes_list h' js vs \<and> footprint_list h' js vs = footprint_list h js vs"
  "denotes_entries h m es \<Longrightarrow> same_on h h' (footprint_entries h m es) \<Longrightarrow>
     denotes_entries h' m es \<and> footprint_entries h' m es = footprint_entries h m es"
  by (induction j and js and m arbitrary: v and vs and es rule: json_induct)
    (auto split: gval.splits list.splits)

lemma footprint_bound:
  "denotes h j v \<Longrightarrow> x \<in> set (footprint h j v) \<Longrightarrow> x < length h"
  "denotes_list h js vs \<Longrightarrow> x \<in> set (footprint_list h js vs) \<Longrightarrow> x < length h"
  "denotes_entries h m es \<Longrightarrow> x \<in> set (footprint_entries h m es) \<Longrightarrow> x < length h"
  by (induction j and js and m arbitrary: v and vs and es rule: json_induct)
    (auto split: gval.splits list.splits)

lemma extends_same_on: "extends h h' \<Longrightarrow> (\<And>x. x \<in> set xs \<Longrightarrow> x < length h) \<Longrightarrow> same_on h h' xs"
  using extends_length [of h h'] by (fastforce simp: same_on_def extends_hget)

lemma footprint_extends:
  "denotes h j v \<Longrightarrow> extends h h' \<Longrightarrow> footprint h' j v = footprint h j v"
  "denotes_list h js vs \<Longrightarrow> extends h h' \<Longrightarrow> footprint_list h' js vs = footprint_list h js vs"
  "denotes_entries h m es \<Longrightarrow> extends h h' \<Longrightarrow> footprint_entries h' m es = footprint_entries h m es"
  using footprint_frame footprint_bound extends_same_on by meson+

text \<open>A decoded document is unshared, and made of fresh objects only.\<close>

definition fresh :: "heap \<Rightarrow> heap \<Rightarrow> nat list \<Rightarrow> bool" where
  "fresh h h' xs \<longleftrightarrow> distinct xs \<and> set xs \<subseteq> {length h..<length h'}"

lemma fresh_append:
  "fresh h h1 xs \<Longrightarrow> fresh h1 h2 ys \<Longrightarrow> extends h h1 \<Longrightarrow> extends h1 h2 \<Longrightarrow> fresh h h2 (xs @ ys)"
  using extends_length [of h h1] extends_length [of h1 h2] by (fastforce simp: fresh_def)

lemma alloc_fresh:
  "fresh h (snd (alloc j h)) (footprint (snd (alloc j h)) j (fst (alloc j h)))"
  "fresh h (snd (alloc_list js h)) (footprint_list (snd (alloc_list js h)) js (fst (alloc_list js h)))"
  "fresh h (snd (alloc_entries m h))
     (footprint_entries (snd (alloc_entries m h)) m (fst (alloc_entries m h)))"
proof (induction j and js and m arbitrary: h and h and h rule: json_induct)
  case (Obj m)
  let ?h = "snd (alloc_entries m h)"
  have "footprint_entries (?h @ [fst (alloc_entries m h)]) m (fst (alloc_entries m h))
      = footprint_entries ?h m (fst (alloc_entries m h))"
    by (rule footprint_extends(3) [OF alloc_denotes(3)]) simp
  then show ?case
    using Obj [of h] extends_length [OF alloc_extends(3) [of h m]]
    by (auto simp: split_beta Let_def fresh_def)
next
  case (Cons v vs)
  then show ?case
    using footprint_extends(1) [OF alloc_denotes(1) [of v h] alloc_extends(2)]
      fresh_append [OF Cons(1) Cons(2) alloc_extends(1) alloc_extends(2)]
    by (simp add: split_beta Let_def)
next
  case (Entry k v m)
  then show ?case
    using footprint_extends(1) [OF alloc_denotes(1) [of v h] alloc_extends(3)]
      fresh_append [OF Entry(1) Entry(2) alloc_extends(1) alloc_extends(3)]
    by (simp add: split_beta Let_def)
qed (auto simp: split_beta Let_def fresh_def)

end
