(* ===== verification/JsonPath.thy ===== *)
theory JsonPath
  imports GoHeap
begin

text \<open>
  Reference paths and data shaping of the state machine engine:
  \<^verbatim>\<open>statemachine/jsonpath.go\<close>.

  The data are Go values in a heap, because \<^verbatim>\<open>applyResultPath\<close> writes into the maps it is
  given. An operation that allocates or writes takes the heap and returns the new one. The
  texts of \<^verbatim>\<open>pathError\<close> are one constructor per call of \<^verbatim>\<open>perr\<close>, with its arguments. The
  context object is the Go map \<open>ctx\<close>, always present in a running engine.
\<close>

datatype path_error =
    Unterminated string
  | BadStart string
  | InputNoMatch string
  | BadResultPath string
  | BadParameters
  | BadParameterValue string
  | ParameterNoMatch string string
  | NotRuleList string
  | NotRule
  | NoVariable
  | NoOperator string
  | ExpectsPath string
  | InvalidOperand string
  | UnsupportedOperator string

subsection \<open>Tokens\<close>

text \<open>\<^verbatim>\<open>strings.Trim(s, cutset)\<close>\<close>

definition trim_chars :: "char set \<Rightarrow> string \<Rightarrow> string" where
  "trim_chars cs s = rev (dropWhile (\<lambda>c. c \<in> cs) (rev (dropWhile (\<lambda>c. c \<in> cs) s)))"

definition flush :: "string list \<Rightarrow> string \<Rightarrow> string list" where
  "flush toks cur = (if cur = [] then toks else toks @ [cur])"

function tokenize_loop :: "string \<Rightarrow> string list \<Rightarrow> string \<Rightarrow> string \<Rightarrow> path_error + string list" where
  "tokenize_loop p toks cur [] = Inr (flush toks cur)"
| "tokenize_loop p toks cur (c # r) =
     (if c = CHR ''.'' then tokenize_loop p (flush toks cur) [] r
      else if c = CHR ''['' then
        (if CHR '']'' \<notin> set r then Inl (Unterminated p)
         else
           let idx = trim_chars {CHR 0x27, CHR 0x22} (trim_space (takeWhile (\<lambda>x. x \<noteq> CHR '']'') r))
           in tokenize_loop p (flush toks cur @ [idx]) [] (tl (dropWhile (\<lambda>x. x \<noteq> CHR '']'') r)))
      else tokenize_loop p toks (cur @ [c]) r)"
  by pat_completeness auto
termination
proof (relation "measure (\<lambda>(_, _, _, r). length r)", goal_cases)
  case (3 p toks cur c r x)
  then show ?case
    using length_dropWhile_le [of "\<lambda>x. x \<noteq> CHR '']''" r] by simp
qed auto

definition tokenizePath :: "string \<Rightarrow> path_error + string list" where
  "tokenizePath p = tokenize_loop p [] [] p"

subsection \<open>Reading\<close>

text \<open>\<^verbatim>\<open>strconv.Atoi\<close>\<close>

definition atoi :: "string \<Rightarrow> int option" where
  "atoi s =
     (let neg = (s \<noteq> [] \<and> hd s = CHR ''-'');
          ds = (if s \<noteq> [] \<and> hd s \<in> {CHR ''-'', CHR ''+''} then tl s else s);
          v = (if neg then - int (digits_value ds) else int (digits_value ds))
      in if ds = [] \<or> \<not> list_all is_digit ds \<or> v < - (2 ^ 63) \<or> 2 ^ 63 \<le> v then None else Some v)"

fun walk :: "heap \<Rightarrow> gval \<Rightarrow> string list \<Rightarrow> gval option" where
  "walk h cur [] = Some cur"
| "walk h cur (t # ts) =
     (case cur of
        VMap a \<Rightarrow> (case lookup (hget h a) t of None \<Rightarrow> None | Some v \<Rightarrow> walk h v ts)
      | VArr vs \<Rightarrow>
          (case atoi t of
             None \<Rightarrow> None
           | Some i \<Rightarrow> if i < 0 \<or> int (length vs) \<le> i then None else walk h (vs ! nat i) ts)
      | _ \<Rightarrow> None)"

text \<open>\<open>Inr None\<close> is \<^verbatim>\<open>found = false\<close>.\<close>

definition getPath :: "heap \<Rightarrow> gval \<Rightarrow> nat \<Rightarrow> string \<Rightarrow> path_error + gval option" where
  "getPath h data ctx path =
     (if path = [] then Inr None
      else if path = ''$'' then Inr (Some data)
      else if path = ''$$'' then Inr (Some (VMap ctx))
      else if has_prefix path ''$$.'' then
        rbind (tokenizePath (drop 3 path)) (\<lambda>toks. Inr (walk h (VMap ctx) toks))
      else if has_prefix path ''$.'' then
        rbind (tokenizePath (drop 2 path)) (\<lambda>toks. Inr (walk h data toks))
      else Inl (BadStart path))"

definition applyInputPath :: "heap \<Rightarrow> gval \<Rightarrow> nat \<Rightarrow> string \<Rightarrow> path_error + gval \<times> heap" where
  "applyInputPath h data ctx p =
     (if p = ''$'' then Inr (data, h)
      else if p = [] then Inr (VMap (length h), h @ [[]])
      else rbind (getPath h data ctx p) (\<lambda>r.
        case r of None \<Rightarrow> Inl (InputNoMatch p) | Some v \<Rightarrow> Inr (v, h)))"

definition applyOutputPath :: "heap \<Rightarrow> gval \<Rightarrow> nat \<Rightarrow> string \<Rightarrow> path_error + gval \<times> heap" where
  "applyOutputPath h data ctx p = applyInputPath h data ctx p"

subsection \<open>Writing\<close>

text \<open>\<^verbatim>\<open>next, ok := cur[t].(map[string]any)\<close>\<close>

definition map_at :: "heap \<Rightarrow> nat \<Rightarrow> string \<Rightarrow> nat option" where
  "map_at h a t = (case lookup (hget h a) t of Some (VMap b) \<Rightarrow> Some b | _ \<Rightarrow> None)"

text \<open>The loop of \<^verbatim>\<open>applyResultPath\<close> from the map at address \<open>a\<close>.\<close>

fun set_path :: "heap \<Rightarrow> nat \<Rightarrow> string list \<Rightarrow> gval \<Rightarrow> heap" where
  "set_path h a [] result = h"
| "set_path h a [t] result = h[a := put t result (hget h a)]"
| "set_path h a (t # u # ts) result =
     (case map_at h a t of
        Some b \<Rightarrow> set_path h b (u # ts) result
      | None \<Rightarrow>
          let b = length h
          in set_path ((h @ [[]])[a := put t (VMap b) (hget h a)]) b (u # ts) result)"

text \<open>\<^verbatim>\<open>root, ok := data.(map[string]any)\<close>, a new map when \<open>data\<close> is not an object.\<close>

definition root_of :: "heap \<Rightarrow> gval \<Rightarrow> nat \<times> heap" where
  "root_of h data = (case data of VMap a \<Rightarrow> (a, h) | _ \<Rightarrow> (length h, h @ [[]]))"

definition applyResultPath :: "heap \<Rightarrow> gval \<Rightarrow> gval \<Rightarrow> string \<Rightarrow> path_error + gval \<times> heap" where
  "applyResultPath h data result p =
     (if p = ''$'' then Inr (result, h)
      else if p = [] then Inr (data, h)
      else if \<not> has_prefix p ''$.'' then Inl (BadResultPath p)
      else rbind (tokenizePath (drop 2 p)) (\<lambda>toks.
        let (root, h1) = root_of h data in Inr (VMap root, set_path h1 root toks result)))"

subsection \<open>Parameters\<close>

text \<open>
  The template has just been decoded, so its maps and slices are reachable from nowhere else
  and \<open>resolveNode\<close> reads it as a document. Its result is fresh down to the values that paths select.
\<close>

definition resolve_ref :: "string \<Rightarrow> json \<Rightarrow> gval \<Rightarrow> nat \<Rightarrow> heap \<Rightarrow> path_error + gval" where
  "resolve_ref k val inp ctx h =
     (case val of
        JStr s \<Rightarrow> rbind (getPath h inp ctx s) (\<lambda>r.
          case r of None \<Rightarrow> Inl (ParameterNoMatch s k) | Some v \<Rightarrow> Inr v)
      | _ \<Rightarrow> Inl (BadParameterValue k))"

function (sequential) resolveNode :: "json \<Rightarrow> gval \<Rightarrow> nat \<Rightarrow> heap \<Rightarrow> path_error + gval \<times> heap"
and resolve_entries :: "json strmap \<Rightarrow> gmap \<Rightarrow> gval \<Rightarrow> nat \<Rightarrow> heap \<Rightarrow> path_error + gmap \<times> heap"
and resolve_items :: "json list \<Rightarrow> gval \<Rightarrow> nat \<Rightarrow> heap \<Rightarrow> path_error + gval list \<times> heap" where
  "resolveNode JNull inp ctx h = Inr (VNull, h)"
| "resolveNode (JBool b) inp ctx h = Inr (VBool b, h)"
| "resolveNode (JNum q) inp ctx h = Inr (VNum q, h)"
| "resolveNode (JStr s) inp ctx h = Inr (VStr s, h)"
| "resolveNode (JObj n) inp ctx h =
     rbind (resolve_entries n [] inp ctx h) (\<lambda>(out, h'). Inr (VMap (length h'), h' @ [out]))"
| "resolveNode (JArr n) inp ctx h =
     rbind (resolve_items n inp ctx h) (\<lambda>(out, h'). Inr (VArr out, h'))"
| "resolve_entries [] out inp ctx h = Inr (out, h)"
| "resolve_entries ((k, val) # n) out inp ctx h =
     (if has_suffix k ''.$'' then
        rbind (resolve_ref k val inp ctx h) (\<lambda>resolved.
          resolve_entries n (put (trim_suffix k ''.$'') resolved out) inp ctx h)
      else rbind (resolveNode val inp ctx h) (\<lambda>(r, h'). resolve_entries n (put k r out) inp ctx h'))"
| "resolve_items [] inp ctx h = Inr ([], h)"
| "resolve_items (val # n) inp ctx h =
     rbind (resolveNode val inp ctx h) (\<lambda>(r, h').
     rbind (resolve_items n inp ctx h') (\<lambda>(rs, h''). Inr (r # rs, h'')))"
  by pat_completeness auto
termination
  by (relation "measure (case_sum (\<lambda>(n, _). size n) (case_sum
        (\<lambda>(es, _). size_list (size_prod (\<lambda>_. 0) size) es) (\<lambda>(ns, _). size_list size ns)))") auto

definition resolveParameters ::
  "(rat \<Rightarrow> rat option) \<Rightarrow> json option \<Rightarrow> gval \<Rightarrow> nat \<Rightarrow> heap \<Rightarrow> path_error + gval \<times> heap" where
  "resolveParameters round64 raw inp ctx h =
     (case raw of
        None \<Rightarrow> Inr (inp, h)
      | Some r \<Rightarrow>
          (case unmarshal_any round64 r of
             None \<Rightarrow> Inl BadParameters
           | Some v \<Rightarrow> resolveNode v inp ctx h))"

subsection \<open>Tokens of plain paths\<close>

definition plain_key :: "string \<Rightarrow> bool" where
  "plain_key k \<longleftrightarrow> k \<noteq> [] \<and> CHR ''.'' \<notin> set k \<and> CHR ''['' \<notin> set k"

lemma tokenize_key:
  "CHR ''.'' \<notin> set k \<Longrightarrow> CHR ''['' \<notin> set k \<Longrightarrow>
     tokenize_loop p toks cur (k @ r) = tokenize_loop p toks (cur @ k) r"
  by (induction k arbitrary: cur) auto

lemma tokenize_dotted_loop:
  "\<forall>k \<in> set ks. plain_key k \<Longrightarrow> tokenize_loop p toks [] (join ''.'' ks) = Inr (toks @ ks)"
proof (induction ks arbitrary: toks rule: induct_list012)
  case (2 x)
  then show ?case
    using tokenize_key [of x p toks "[]" "[]"] by (simp add: plain_key_def flush_def)
next
  case (3 x y zs)
  then show ?case
    using tokenize_key [of x p toks "[]" "CHR ''.'' # join ''.'' (y # zs)"]
    by (simp add: plain_key_def flush_def)
qed (simp add: flush_def)

lemma tokenizePath_dotted: "\<forall>k \<in> set ks. plain_key k \<Longrightarrow> tokenizePath (join ''.'' ks) = Inr ks"
  by (simp add: tokenizePath_def tokenize_dotted_loop)

lemma getPath_dotted:
  "\<forall>k \<in> set ks. plain_key k \<Longrightarrow> getPath h data ctx (''$.'' @ join ''.'' ks) = Inr (walk h data ks)"
  by (simp add: getPath_def has_prefix_def tokenizePath_dotted)

lemma applyResultPath_dotted:
  "\<forall>k \<in> set ks. plain_key k \<Longrightarrow>
     applyResultPath h (VMap a) result (''$.'' @ join ''.'' ks) = Inr (VMap a, set_path h a ks result)"
  by (simp add: applyResultPath_def root_of_def has_prefix_def tokenizePath_dotted)

subsection \<open>Writing at a path\<close>

text \<open>What a write means for the document, on objects.\<close>

fun jput :: "json strmap \<Rightarrow> string list \<Rightarrow> json \<Rightarrow> json strmap" where
  "jput m [] r = m"
| "jput m [t] r = put t r m"
| "jput m (t # u # ts) r =
     put t (JObj (jput (case lookup m t of Some (JObj n) \<Rightarrow> n | _ \<Rightarrow> []) (u # ts) r)) m"

lemma denotes_entries_put:
  "denotes_entries h m es \<Longrightarrow> denotes h r v \<Longrightarrow> denotes_entries h (put k r m) (put k v es)"
proof (induction m arbitrary: es)
  case (Cons e m)
  then show ?case by (cases e; cases es) (auto split: prod.splits)
qed simp

lemma denotes_entries_lookup:
  "denotes_entries h m es \<Longrightarrow>
     (case lookup m k of None \<Rightarrow> lookup es k = None
      | Some j \<Rightarrow> (\<exists>v. lookup es k = Some v \<and> denotes h j v))"
proof (induction m arbitrary: es)
  case (Cons e m)
  then show ?case by (cases e; cases es) (auto split: option.splits)
qed simp

lemma footprint_lookup:
  "denotes_entries h m es \<Longrightarrow> lookup m k = Some j \<Longrightarrow> lookup es k = Some v \<Longrightarrow>
     set (footprint h j v) \<subseteq> set (footprint_entries h m es) \<and>
     (distinct (footprint_entries h m es) \<longrightarrow> distinct (footprint h j v))"
proof (induction m arbitrary: es)
  case (Cons e m)
  obtain k1 j1 v1 fs where e: "e = (k1, j1)" "es = (k1, v1) # fs"
    using Cons(2) by (cases e) (auto split: list.splits)
  then show ?case using Cons(1) [of fs] Cons(2-) by (cases "k1 = k") auto
qed simp

text \<open>Replacing the document of one entry whose objects are its own.\<close>

lemma denotes_entries_replace:
  assumes "denotes_entries h m es" "lookup m k = Some j" "lookup es k = Some v"
    and "distinct (footprint_entries h m es)" "denotes h' r v"
    and "\<And>x. x \<in> set (footprint_entries h m es) \<Longrightarrow> x \<notin> set (footprint h j v) \<Longrightarrow>
           x < length h' \<and> hget h' x = hget h x"
  shows "denotes_entries h' (put k r m) es"
  using assms
proof (induction m arbitrary: es)
  case (Cons e m)
  obtain k1 j1 v1 fs where e: "e = (k1, j1)" "es = (k1, v1) # fs"
    using Cons(2) by (cases e) (auto split: list.splits)
  show ?case
  proof (cases "k1 = k")
    case True
    then show ?thesis
      using Cons(2-) e footprint_frame(3) [of h m fs h'] by (auto simp: same_on_def)
  next
    case False
    have "set (footprint h j v) \<subseteq> set (footprint_entries h m fs)"
      using footprint_lookup [of h m fs k j v] Cons(2-4) e False by auto
    then show ?thesis
      using Cons e False footprint_frame(1) [of h j1 v1 h'] by (auto simp: same_on_def)
  qed
qed simp

fun spine :: "heap \<Rightarrow> nat \<Rightarrow> string list \<Rightarrow> nat list" where
  "spine h a [] = []"
| "spine h a [t] = [a]"
| "spine h a (t # u # ts) =
     a # (case map_at h a t of Some b \<Rightarrow> spine h b (u # ts) | None \<Rightarrow> [])"

lemma set_path_length: "length h \<le> length (set_path h a ts v)"
  by (induction h a ts v rule: set_path.induct)
    (auto simp: Let_def split: option.splits intro: order_trans [rotated])

lemma spine_fresh: "hget h b = [] \<Longrightarrow> set (spine h b ts) \<subseteq> {b}"
  by (cases "(h, b, ts)" rule: spine.cases) (auto simp: map_at_def)

lemma map_at_wf: "wf_heap h \<Longrightarrow> map_at h a t = Some b \<Longrightarrow> b < length h"
  using wf_heap_lookup [of h a t] by (fastforce simp: map_at_def split: option.splits gval.splits)

lemma wf_heap_new_child:
  "wf_heap h \<Longrightarrow> wf_heap ((h @ [[]])[a := put t (VMap (length h)) (hget h a)])"
  by (intro wf_heap_update wf_heap_alloc wf_map_put) (auto intro: wf_map_Suc wf_heap_hget)

lemma set_path_wf:
  "wf_heap h \<Longrightarrow> wf_val (length h) v \<Longrightarrow> wf_heap (set_path h a ts v)"
proof (induction h a ts v rule: set_path.induct)
  case (2 h a t v)
  then show ?case by (auto intro: wf_heap_update wf_heap_hget)
next
  case (3 h a t u ts v)
  then show ?case
    using wf_heap_new_child [of h a t] wf_val_mono [of "length h" v "Suc (length h)"]
    by (auto simp: Let_def split: option.splits)
qed auto

text \<open>Only the maps along the path are written.\<close>

lemma set_path_frame:
  "wf_heap h \<Longrightarrow> a < length h \<Longrightarrow> b < length h \<Longrightarrow> b \<notin> set (spine h a ts) \<Longrightarrow>
     hget (set_path h a ts v) b = hget h b"
proof (induction h a ts v rule: set_path.induct)
  case (3 h a t u ts v)
  let ?h1 = "(h @ [[]])[a := put t (VMap (length h)) (hget h a)]"
  have "set (spine ?h1 (length h) (u # ts)) \<subseteq> {length h}"
    using 3(4) by (intro spine_fresh) simp
  then have "b \<notin> set (spine ?h1 (length h) (u # ts))" using 3(5) by auto
  then show ?case
    using 3 wf_heap_new_child [of h a t] map_at_wf [of h a t]
    by (auto simp: Let_def split: option.splits)
qed auto

lemma denotes_VMap: "denotes h j (VMap b) \<Longrightarrow> \<exists>n. j = JObj n"
  by (cases j) auto

lemma denotes_JObj: "denotes h (JObj n) v \<Longrightarrow> \<exists>b. v = VMap b"
  by (cases v) auto

lemma map_at_Some:
  assumes "denotes h (JObj m) (VMap a)" "map_at h a t = Some b"
  obtains n where "lookup m t = Some (JObj n)" "lookup (hget h a) t = Some (VMap b)"
    "denotes h (JObj n) (VMap b)"
proof -
  have b: "lookup (hget h a) t = Some (VMap b)"
    using assms(2) by (auto simp: map_at_def split: option.splits gval.splits)
  then obtain j where "lookup m t = Some j" "denotes h j (VMap b)"
    using assms(1) denotes_entries_lookup [of h m "hget h a" t] by (cases "lookup m t") auto
  then show thesis using b denotes_VMap that by metis
qed

lemma map_at_None:
  assumes "denotes h (JObj m) (VMap a)" "map_at h a t = None"
  shows "(case lookup m t of Some (JObj n) \<Rightarrow> n | _ \<Rightarrow> []) = []"
proof (cases "lookup m t")
  case (Some j)
  then obtain v where "lookup (hget h a) t = Some v" "denotes h j v"
    using assms(1) denotes_entries_lookup [of h m "hget h a" t] by auto
  then show ?thesis
    using assms(2) denotes_JObj Some by (cases j) (fastforce simp: map_at_def)+
qed simp

lemma spine_in_footprint:
  "denotes h (JObj m) (VMap a) \<Longrightarrow> set (spine h a ts) \<subseteq> set (footprint h (JObj m) (VMap a))"
proof (induction h a ts arbitrary: m rule: spine.induct)
  case (3 h a t u ts)
  show ?case
  proof (cases "map_at h a t")
    case (Some b)
    then obtain n where n: "lookup m t = Some (JObj n)" "lookup (hget h a) t = Some (VMap b)"
        "denotes h (JObj n) (VMap b)"
      using map_at_Some 3(2) by metis
    then show ?thesis
      using 3(1) [OF Some n(3)] footprint_lookup [of h m "hget h a" t "JObj n" "VMap b"] 3(2) Some
      by auto
  qed simp
qed auto

text \<open>
  On data that no other value shares, a write at a path is the functional update of the document.
\<close>

lemma set_path_denotes:
  assumes "wf_heap h" "denotes h (JObj m) (VMap a)" "distinct (footprint h (JObj m) (VMap a))"
    and "denotes h r v" "set (footprint h (JObj m) (VMap a)) \<inter> set (footprint h r v) = {}"
  shows "denotes (set_path h a ts v) (JObj (jput m ts r)) (VMap a)"
  using assms
proof (induction h a ts v arbitrary: m rule: set_path.induct)
  case (2 h a t v)
  have "same_on h (h[a := put t v (hget h a)]) (footprint h r v)"
    "same_on h (h[a := put t v (hget h a)]) (footprint_entries h m (hget h a))"
    using 2 footprint_bound(1) [of h r v] footprint_bound(3) [of h m "hget h a"]
    by (auto simp: same_on_def)
  then show ?case
    using 2 footprint_frame(1) [of h r v] footprint_frame(3) [of h m "hget h a"]
    by (auto intro!: denotes_entries_put)
next
  case (3 h a t u ts v)
  have a: "a < length h" "denotes_entries h m (hget h a)" using 3(4) by auto
  show ?case
  proof (cases "map_at h a t")
    case None
    let ?b = "length h" and ?h1 = "(h @ [[]])[a := put t (VMap (length h)) (hget h a)]"
    let ?h2 = "set_path ?h1 ?b (u # ts) v"
    have wf1: "wf_heap ?h1" by (rule wf_heap_new_child) (rule 3(3))
    have "same_on h ?h1 (footprint h r v)"
      using 3(7) footprint_bound(1) [OF 3(6)] by (auto simp: same_on_def less_SucI)
    note r = footprint_frame(1) [OF 3(6) this]
    have ih: "denotes ?h2 (JObj (jput [] (u # ts) r)) (VMap ?b)"
      using r footprint_bound(1) [OF 3(6)] a
      by (intro 3(1) [OF None refl wf1]) auto
    have old: "hget ?h2 x = hget ?h1 x" if "x < length h" for x
      using that wf1 spine_fresh [of ?h1 ?b "u # ts"] a by (intro set_path_frame) auto
    have "same_on h ?h2 (footprint_entries h m (hget h a))"
      using old 3(5) footprint_bound(3) [OF a(2)] set_path_length [of ?h1 ?b "u # ts" v]
      by (fastforce simp: same_on_def)
    then have "denotes_entries ?h2 m (hget h a)" using footprint_frame(3) [OF a(2)] by blast
    then have "denotes_entries ?h2 (put t (JObj (jput [] (u # ts) r)) m) (put t (VMap ?b) (hget h a))"
      by (rule denotes_entries_put) (rule ih)
    then show ?thesis
      using None old [OF a(1)] a set_path_length [of ?h1 ?b "u # ts" v] map_at_None [OF 3(4) None]
      by (simp add: Let_def)
  next
    case (Some b)
    then obtain n where n: "lookup m t = Some (JObj n)" "lookup (hget h a) t = Some (VMap b)"
        "denotes h (JObj n) (VMap b)"
      using map_at_Some 3(4) by metis
    have sub: "set (footprint h (JObj n) (VMap b)) \<subseteq> set (footprint_entries h m (hget h a))"
      "distinct (footprint h (JObj n) (VMap b))"
      using footprint_lookup [OF a(2) n(1,2)] 3(5) by auto
    let ?h2 = "set_path h b (u # ts) v"
    have ih: "denotes ?h2 (JObj (jput n (u # ts) r)) (VMap b)"
      using 3(3-) sub n(3) by (intro 3(2) [OF Some]) auto
    have old: "x < length ?h2 \<and> hget ?h2 x = hget h x"
      if "x < length h" "x \<notin> set (footprint h (JObj n) (VMap b))" for x
      using that set_path_length [of h b "u # ts" v] spine_in_footprint [OF n(3)] n(3) 3(3)
      by (auto intro!: set_path_frame)
    have "a \<notin> set (footprint h (JObj n) (VMap b))" using 3(5) sub by auto
    moreover have "denotes_entries ?h2 (put t (JObj (jput n (u # ts) r)) m) (hget h a)"
      using 3(5) footprint_bound(3) [OF a(2)] old ih
      by (intro denotes_entries_replace [OF a(2) n(1,2)]) auto
    ultimately show ?thesis using old [OF a(1)] Some n by simp
  qed
qed auto

lemma walk_jput:
  "ts \<noteq> [] \<Longrightarrow> denotes h (JObj (jput m ts r)) (VMap a) \<Longrightarrow>
     \<exists>v. walk h (VMap a) ts = Some v \<and> denotes h r v"
proof (induction m ts r arbitrary: a rule: jput.induct)
  case (2 m t r)
  then show ?case using denotes_entries_lookup [of h "put t r m" "hget h a" t] by auto
next
  case (3 m t u ts r)
  let ?j = "JObj (jput (case lookup m t of Some (JObj n) \<Rightarrow> n | _ \<Rightarrow> []) (u # ts) r)"
  obtain w where "lookup (hget h a) t = Some w" "denotes h ?j w"
    using 3(3) denotes_entries_lookup [of h "put t ?j m" "hget h a" t] by auto
  then show ?case using 3(1) denotes_JObj by fastforce
qed simp

subsection \<open>Well-formedness\<close>

lemma walk_wf: "walk h v ts = Some w \<Longrightarrow> wf_heap h \<Longrightarrow> wf_val (length h) v \<Longrightarrow> wf_val (length h) w"
proof (induction h v ts rule: walk.induct)
  case (2 h cur t ts)
  then show ?case
    using wf_heap_lookup [of h _ t] by (auto split: gval.splits option.splits if_splits)
qed simp

lemma getPath_wf:
  "getPath h data ctx p = Inr (Some v) \<Longrightarrow> wf_heap h \<Longrightarrow> wf_val (length h) data \<Longrightarrow>
     ctx < length h \<Longrightarrow> wf_val (length h) v"
  by (auto simp: getPath_def split: if_splits dest: walk_wf)

text \<open>\<open>keeps h h' v\<close>: from \<open>h\<close> to \<open>h'\<close> only allocation happened, and \<open>v\<close> lives in \<open>h'\<close>.\<close>

definition keeps :: "heap \<Rightarrow> heap \<Rightarrow> gval \<Rightarrow> bool" where
  "keeps h h' v \<longleftrightarrow> extends h h' \<and> wf_heap h' \<and> wf_val (length h') v"

lemma applyInputPath_keeps:
  "applyInputPath h data ctx p = Inr (v, h') \<Longrightarrow> wf_heap h \<Longrightarrow> wf_val (length h) data \<Longrightarrow>
     ctx < length h \<Longrightarrow> keeps h h' v"
  by (auto simp: applyInputPath_def keeps_def split: if_splits option.splits
      intro: wf_heap_alloc getPath_wf)

lemma applyOutputPath_keeps:
  "applyOutputPath h data ctx p = Inr (v, h') \<Longrightarrow> wf_heap h \<Longrightarrow> wf_val (length h) data \<Longrightarrow>
     ctx < length h \<Longrightarrow> keeps h h' v"
  unfolding applyOutputPath_def by (rule applyInputPath_keeps)

lemma applyResultPath_wf:
  assumes "applyResultPath h data result p = Inr (v, h')" "wf_heap h"
    and "wf_val (length h) data" "wf_val (length h) result"
  shows "wf_heap h' \<and> wf_val (length h') v \<and> length h \<le> length h'"
proof (cases "p = ''$'' \<or> p = []")
  case True
  then show ?thesis using assms by (auto simp: applyResultPath_def split: if_splits)
next
  case False
  then obtain toks where v: "v = VMap (fst (root_of h data))"
      "h' = set_path (snd (root_of h data)) (fst (root_of h data)) toks result"
    using assms(1) by (auto simp: applyResultPath_def split_beta Let_def split: if_splits)
  have root: "wf_heap (snd (root_of h data))" "fst (root_of h data) < length (snd (root_of h data))"
      "extends h (snd (root_of h data))"
    using assms(2,3) by (auto simp: root_of_def intro: wf_heap_alloc split: gval.splits)
  then have "wf_heap h'"
    using v assms(4) extends_length wf_val_mono by (auto intro!: set_path_wf)
  then show ?thesis
    using v root extends_length [OF root(3)] set_path_length
    by (auto intro: less_le_trans order_trans)
qed

lemma resolve_keeps:
  "resolveNode n inp ctx h = Inr (v, h') \<Longrightarrow> wf_heap h \<Longrightarrow> wf_val (length h) inp \<Longrightarrow>
     ctx < length h \<Longrightarrow> keeps h h' v"
  "resolve_items ns inp ctx h = Inr (vs, h') \<Longrightarrow> wf_heap h \<Longrightarrow> wf_val (length h) inp \<Longrightarrow>
     ctx < length h \<Longrightarrow> keeps h h' (VArr vs)"
  "resolve_entries es out inp ctx h = Inr (out', h') \<Longrightarrow> wf_heap h \<Longrightarrow> wf_val (length h) inp \<Longrightarrow>
     ctx < length h \<Longrightarrow> wf_map (length h) out \<Longrightarrow>
     extends h h' \<and> wf_heap h' \<and> wf_map (length h') out'"
proof (induction n and ns and es arbitrary: v h h' and vs h h' and out out' h h' rule: json_induct)
  case (Obj m)
  then show ?case
    by (fastforce simp: keeps_def intro: wf_heap_alloc wf_map_Suc extends_trans)
next
  case (Cons n ns)
  then obtain r h1 rs where
    1: "resolveNode n inp ctx h = Inr (r, h1)" "resolve_items ns inp ctx h1 = Inr (rs, h')"
      "vs = r # rs"
    by auto
  have k: "keeps h h1 r" by (rule Cons(1) [OF 1(1) Cons(4-6)])
  then have "keeps h1 h' (VArr rs)"
    using extends_length Cons(5,6) by (intro Cons(2) [OF 1(2)]) (auto simp: keeps_def intro: wf_val_mono less_le_trans)
  then show ?case
    using k 1(3) extends_length extends_trans by (fastforce simp: keeps_def intro: wf_val_mono)
next
  case (Entry k j m)
  show ?case
  proof (cases "has_suffix k ''.$''")
    case True
    then obtain s v where "j = JStr s" "getPath h inp ctx s = Inr (Some v)"
        "resolve_entries m (put (trim_suffix k ''.$'') v out) inp ctx h = Inr (out', h')"
      using Entry(3) by (auto simp: resolve_ref_def split: json.splits option.splits)
    then show ?thesis using Entry(2,4-) getPath_wf by blast
  next
    case False
    then obtain r h1 where
      1: "resolveNode j inp ctx h = Inr (r, h1)" "resolve_entries m (put k r out) inp ctx h1 = Inr (out', h')"
      using Entry(3) by auto
    have k: "keeps h h1 r" by (rule Entry(1) [OF 1(1) Entry(4-6)])
    then have "extends h1 h' \<and> wf_heap h' \<and> wf_map (length h') out'"
      using extends_length Entry(5-7)
      by (intro Entry(2) [OF 1(2)]) (auto simp: keeps_def intro: wf_val_mono wf_map_mono less_le_trans)
    then show ?thesis using k extends_trans by (auto simp: keeps_def)
  qed
qed (auto simp: keeps_def)

subsection \<open>Properties\<close>

text \<open>A template without references.\<close>

fun literal :: "json \<Rightarrow> bool" where
  "literal (JArr js) = (\<forall>j \<in> set js. literal j)"
| "literal (JObj m) = (distinct (map fst m) \<and> (\<forall>(k, j) \<in> set m. \<not> has_suffix k ''.$'' \<and> literal j))"
| "literal _ = True"

lemma put_new: "k \<notin> fst ` set m \<Longrightarrow> put k v m = m @ [(k, v)]"
  by (induction k v m rule: put.induct) auto

lemma denotes_entries_append:
  "denotes_entries h m es \<Longrightarrow> denotes_entries h n fs \<Longrightarrow> denotes_entries h (m @ n) (es @ fs)"
proof (induction m arbitrary: es)
  case (Cons e m)
  then show ?case by (cases e; cases es) auto
qed simp

lemma denotes_entries_keys: "denotes_entries h m es \<Longrightarrow> map fst es = map fst m"
proof (induction m arbitrary: es)
  case (Cons e m)
  then show ?case by (cases e; cases es) auto
qed simp

lemma resolve_literal:
  "literal n \<Longrightarrow> \<exists>v h'. resolveNode n inp ctx h = Inr (v, h') \<and> extends h h' \<and> denotes h' n v"
  "\<forall>n \<in> set ns. literal n \<Longrightarrow>
     \<exists>vs h'. resolve_items ns inp ctx h = Inr (vs, h') \<and> extends h h' \<and> denotes_list h' ns vs"
  "literal (JObj m) \<Longrightarrow> denotes_entries h acc out \<Longrightarrow> fst ` set acc \<inter> fst ` set m = {} \<Longrightarrow>
     \<exists>out' h'. resolve_entries m out inp ctx h = Inr (out', h') \<and> extends h h' \<and>
       denotes_entries h' (acc @ m) out'"
proof (induction n and ns and m arbitrary: h and h and h acc out rule: json_induct)
  case (Obj m)
  then obtain out h' where "resolve_entries m [] inp ctx h = Inr (out, h')" "extends h h'"
      "denotes_entries h' m out"
    using Obj(1) [of h "[]" "[]"] by auto
  then show ?case
    using denotes_extends(3) [OF _ extends_alloc] by (fastforce intro: extends_trans)
next
  case (Arr vs)
  then obtain ws h' where "resolve_items vs inp ctx h = Inr (ws, h')" "extends h h'" "denotes_list h' vs ws"
    by fastforce
  then show ?case by auto
next
  case (Cons n ns)
  obtain v h1 where 1: "resolveNode n inp ctx h = Inr (v, h1)" "extends h h1" "denotes h1 n v"
    using Cons(1,3) by fastforce
  obtain vs h2 where "resolve_items ns inp ctx h1 = Inr (vs, h2)" "extends h1 h2" "denotes_list h2 ns vs"
    using Cons(2,3) by fastforce
  then show ?case using 1 extends_trans denotes_extends(1) by fastforce
next
  case (Entry k j m)
  obtain v h1 where 1: "resolveNode j inp ctx h = Inr (v, h1)" "extends h h1" "denotes h1 j v"
    using Entry(1,3) by fastforce
  have k: "\<not> has_suffix k ''.$''" "k \<notin> fst ` set m" "k \<notin> fst ` set acc" "k \<notin> fst ` set out"
    using Entry(3,5) arg_cong [OF denotes_entries_keys [OF Entry(4)], of set] by auto
  have "denotes_entries h1 (acc @ [(k, j)]) (put k v out)"
    using k 1 denotes_extends(3) [OF Entry(4) 1(2)] by (simp add: put_new denotes_entries_append)
  then obtain out' h2 where "resolve_entries m (put k v out) inp ctx h1 = Inr (out', h2)"
      "extends h1 h2" "denotes_entries h2 (acc @ (k, j) # m) out'"
    using Entry(2) [of h1 "acc @ [(k, j)]" "put k v out"] Entry(3,5) k by auto
  then show ?case using k 1 extends_trans by fastforce
qed auto

lemma self_reference_denotes_nothing:
  assumes "lookup (hget h a) k = Some (VMap a)"
  shows "\<not> denotes h j (VMap a)"
proof
  assume d: "denotes h j (VMap a)"
  then obtain m where m: "j = JObj m" "denotes_entries h m (hget h a)"
    using denotes_VMap [OF d] by auto
  then obtain j' where "lookup m k = Some j'" "denotes h j' (VMap a)"
    using assms denotes_entries_lookup [of h m "hget h a" k] by (cases "lookup m k") auto
  then have "(k, j) \<in> set m" using d denotes_unique(1) lookup_in_set by metis
  then show False using json_size_entry [of k j m] m(1) by simp
qed

text \<open>
  C28. On an object that no other value shares, with a result that has no part in common with it,
  \<^verbatim>\<open>applyResultPath\<close> with a dotted path is the functional update of the document at that path,
  objects created as needed, and reading the path back gives the result.
\<close>

theorem applyResultPath_updates_document:
  assumes "wf_heap h" "denotes h (JObj m) data" "distinct (footprint h (JObj m) data)"
    and "denotes h r result" "set (footprint h (JObj m) data) \<inter> set (footprint h r result) = {}"
    and "ks \<noteq> []" "\<forall>k \<in> set ks. plain_key k"
  shows "\<exists>h'. applyResultPath h data result (''$.'' @ join ''.'' ks) = Inr (data, h') \<and>
    denotes h' (JObj (jput m ks r)) data \<and>
    (\<exists>v. getPath h' data ctx (''$.'' @ join ''.'' ks) = Inr (Some v) \<and> denotes h' r v)"
proof -
  obtain a where a: "data = VMap a" using denotes_JObj assms(2) by blast
  then have d: "denotes (set_path h a ks result) (JObj (jput m ks r)) (VMap a)"
    using assms by (intro set_path_denotes) auto
  then show ?thesis
    using a walk_jput [OF assms(6) d] applyResultPath_dotted [OF assms(7), of h a result]
      getPath_dotted [OF assms(7), of "set_path h a ks result" "VMap a" ctx]
    by (metis (no_types, lifting))
qed

theorem applyResultPath_updates_document_witness:
  "\<exists>h'. applyResultPath [[(''a'', VNum 1)]] (VMap 0) (VStr ''x'') ''$.b.c'' = Inr (VMap 0, h') \<and>
     denotes h' (JObj [(''a'', JNum 1), (''b'', JObj [(''c'', JStr ''x'')])]) (VMap 0)"
proof -
  let ?h = "[[(''a'', VNum 1)]]" and ?ks = "[''b'', ''c'']"
  have "\<exists>h'. applyResultPath ?h (VMap 0) (VStr ''x'') (''$.'' @ join ''.'' ?ks) = Inr (VMap 0, h') \<and>
      denotes h' (JObj (jput [(''a'', JNum 1)] ?ks (JStr ''x''))) (VMap 0) \<and>
      (\<exists>v. getPath h' (VMap 0) 0 (''$.'' @ join ''.'' ?ks) = Inr (Some v) \<and> denotes h' (JStr ''x'') v)"
    by (rule applyResultPath_updates_document)
      (simp_all add: wf_heap_def wf_map_def plain_key_def hget_def)
  moreover have "jput [(''a'', JNum 1)] ?ks (JStr ''x'') = [(''a'', JNum 1), (''b'', JObj [(''c'', JStr ''x'')])]"
    "''$.'' @ join ''.'' ?ks = ''$.b.c''"
    by simp_all
  ultimately show ?thesis by (metis (no_types, lifting))
qed

text \<open>
  The Parameters of a state never write into existing data: only new maps are allocated, the
  references of the result are valid, and a template without \<^verbatim>\<open>.$\<close> keys always resolves to itself.
\<close>

theorem parameters_are_pure:
  assumes "wf_heap h" "wf_val (length h) inp" "ctx < length h"
  shows "(\<forall>v h'. resolveParameters round64 raw inp ctx h = Inr (v, h') \<longrightarrow> keeps h h' v) \<and>
    (\<forall>j n. raw = Some j \<longrightarrow> unmarshal_any round64 j = Some n \<longrightarrow> literal n \<longrightarrow>
      (\<exists>v h'. resolveParameters round64 raw inp ctx h = Inr (v, h') \<and> denotes h' n v))"
proof (cases raw)
  case None
  then show ?thesis using assms by (auto simp: resolveParameters_def keeps_def)
next
  case (Some j)
  show ?thesis
    using Some assms resolve_keeps(1) [of _ inp ctx h] resolve_literal(1) [of _ inp ctx h]
    by (fastforce simp: resolveParameters_def split: option.splits)
qed

theorem parameters_are_pure_witness:
  "keeps [[(''x'', VNum 3)]] [[(''x'', VNum 3)], [(''y'', VNum 3)]] (VMap 1) \<and>
   (\<exists>v h'. resolveParameters Some (Some (JArr [JNum 5])) (VMap 0) 0 [[(''x'', VNum 3)]] = Inr (v, h') \<and>
      denotes h' (JArr [JNum 5]) v)"
proof -
  have wf: "wf_heap [[(''x'', VNum 3)]]" "wf_val (length [[(''x'', VNum 3)]]) (VMap 0)"
    by (simp_all add: wf_heap_def wf_map_def)
  have "resolveParameters Some (Some (JObj [(''y.$'', JStr ''$.x'')])) (VMap 0) 0 [[(''x'', VNum 3)]]
      = Inr (VMap 1, [[(''x'', VNum 3)], [(''y'', VNum 3)]])"
    by (simp add: resolveParameters_def resolve_ref_def has_suffix_def trim_suffix_def getPath_def
        has_prefix_def tokenizePath_def flush_def hget_def)
  then show ?thesis
    using parameters_are_pure [OF wf, of 0 Some "Some (JObj [(''y.$'', JStr ''$.x'')])"]
      parameters_are_pure [OF wf, of 0 Some "Some (JArr [JNum 5])"]
    by simp
qed

text \<open>
  The comment in \<^verbatim>\<open>applyResultPath\<close> promises copy-on-write. The map that is passed in is
  written: whoever holds it, such as the context object of the execution or another branch of a
  Parallel state, sees the change.
\<close>

theorem applyResultPath_writes_its_input:
  "denotes [[(''a'', VNum 1)], [(''in'', VMap 0)]] (JObj [(''in'', JObj [(''a'', JNum 1)])]) (VMap 1) \<and>
   applyResultPath [[(''a'', VNum 1)], [(''in'', VMap 0)]] (VMap 0) (VNum 2) ''$.a'' =
     Inr (VMap 0, [[(''a'', VNum 2)], [(''in'', VMap 0)]]) \<and>
   denotes [[(''a'', VNum 2)], [(''in'', VMap 0)]] (JObj [(''in'', JObj [(''a'', JNum 2)])]) (VMap 1)"
  by (simp add: applyResultPath_def root_of_def has_prefix_def tokenizePath_def flush_def hget_def)

text \<open>
  A state that keeps its input and has a ResultPath stores the input into itself: the value stands
  for no JSON document any more, so that a checkpoint of it is empty.
\<close>

theorem applyResultPath_ties_a_knot:
  "applyResultPath [[(''a'', VNum 1)]] (VMap 0) (VMap 0) ''$.copy'' =
     Inr (VMap 0, [[(''a'', VNum 1), (''copy'', VMap 0)]]) \<and>
   (\<forall>j. \<not> denotes [[(''a'', VNum 1), (''copy'', VMap 0)]] j (VMap 0))"
  using self_reference_denotes_nothing [of "[[(''a'', VNum 1), (''copy'', VMap 0)]]" 0 "''copy''"]
  by (simp add: applyResultPath_def root_of_def has_prefix_def tokenizePath_def flush_def hget_def)

text \<open>
  An array on the way of a ResultPath is replaced by an object and its elements are lost.
\<close>

theorem applyResultPath_drops_array:
  "applyResultPath [[(''a'', VArr [VNum 1, VNum 2])]] (VMap 0) (VNum 9) ''$.a[0]'' =
     Inr (VMap 0, [[(''a'', VMap 1)], [(''0'', VNum 9)]])"
  by (simp add: applyResultPath_def root_of_def has_prefix_def tokenizePath_def flush_def hget_def
      map_at_def trim_chars_def trim_space_def is_space_def)

end
