(* ===== verification/Choice.thy ===== *)
theory Choice
  imports JsonPath "HOL-Library.Multiset"
begin

text \<open>
  The rules of Choice states: \<^verbatim>\<open>statemachine/choice.go\<close>.

  A rule is its \<^verbatim>\<open>raw\<close> map, from key to raw JSON; the order of the list is the order in which
  the \<^verbatim>\<open>range\<close> loop of \<^verbatim>\<open>eval\<close> visits it. \<open>rfc3339\<close> is \<^verbatim>\<open>time.Parse(time.RFC3339, s)\<close> as
  nanoseconds since 1970, None on an error. \<^verbatim>\<open>UnixNano\<close> is kept at its 64 bits and its
  conversion to \<^verbatim>\<open>float64\<close> rounds to 53 bits.
\<close>

type_synonym rule = "json strmap"

record choice_env =
  heap_of :: heap
  ctx_of :: nat
  round64 :: "rat \<Rightarrow> rat option"
  rfc3339 :: "string \<Rightarrow> int option"

subsection \<open>Numbers and times\<close>

text \<open>
  \<^verbatim>\<open>float64(n)\<close>: the nearest number of 53 significant bits, the even one of two. The unit of the
  last of these bits is found by doubling; 11 times are enough for an \<^verbatim>\<open>int64\<close>.
\<close>

primrec last_bit :: "nat \<Rightarrow> int \<Rightarrow> int \<Rightarrow> int" where
  "last_bit 0 n u = u"
| "last_bit (Suc k) n u = (if \<bar>n\<bar> < 2 ^ 53 * u then u else last_bit k n (2 * u))"

definition float64_of_int :: "int \<Rightarrow> int" where
  "float64_of_int n =
     (let u = last_bit 11 n 1; d = n div u; r = n mod u
      in (if 2 * r < u \<or> 2 * r = u \<and> even d then d else d + 1) * u)"

definition cmpFloat :: "rat \<Rightarrow> rat \<Rightarrow> int" where
  "cmpFloat a b = (if a < b then - 1 else if b < a then 1 else 0)"

definition compare_strings :: "string \<Rightarrow> string \<Rightarrow> int" where
  "compare_strings a b = (if a = b then 0 else if a < b then - 1 else 1)"

fun toFloat :: "gval \<Rightarrow> rat option" where
  "toFloat (VNum q) = Some q"
| "toFloat _ = None"

fun as_string :: "gval \<Rightarrow> string option" where
  "as_string (VStr s) = Some s"
| "as_string _ = None"

fun as_bool :: "gval \<Rightarrow> bool option" where
  "as_bool (VBool b) = Some b"
| "as_bool _ = None"

definition parseTime :: "(string \<Rightarrow> int option) \<Rightarrow> gval \<Rightarrow> int option" where
  "parseTime tparse v = Option.bind (as_string v) tparse"

definition unix_nano_float :: "int \<Rightarrow> rat" where
  "unix_nano_float t = of_int (float64_of_int (wrap64 t))"

subsection \<open>Operators\<close>

fun boolOperand :: "json \<Rightarrow> bool" where
  "boolOperand (JBool b) = b"
| "boolOperand _ = False"

definition cmpOrder :: "string \<Rightarrow> string \<Rightarrow> int \<Rightarrow> bool" where
  "cmpOrder base prefix c =
     (let op = trim_prefix base prefix
      in if op = ''Equals'' then c = 0
         else if op = ''LessThan'' then c < 0
         else if op = ''GreaterThan'' then 0 < c
         else if op = ''LessThanEquals'' then c \<le> 0
         else if op = ''GreaterThanEquals'' then 0 \<le> c
         else False)"

text \<open>Both sides of the type the operator wants, else no match.\<close>

definition on_both :: "(gval \<Rightarrow> 'a option) \<Rightarrow> ('a \<Rightarrow> 'a \<Rightarrow> bool) \<Rightarrow> gval \<Rightarrow> gval \<Rightarrow> bool" where
  "on_both f P l r = (case (f l, f r) of (Some a, Some b) \<Rightarrow> P a b | _ \<Rightarrow> False)"

definition compareResolved ::
  "(string \<Rightarrow> int option) \<Rightarrow> string \<Rightarrow> gval \<Rightarrow> gval \<Rightarrow> path_error + bool" where
  "compareResolved tparse base l r =
     (if has_prefix base ''String'' then
        Inr (on_both as_string (\<lambda>a b. cmpOrder base ''String'' (compare_strings a b)) l r)
      else if has_prefix base ''Numeric'' then
        Inr (on_both toFloat (\<lambda>a b. cmpOrder base ''Numeric'' (cmpFloat a b)) l r)
      else if has_prefix base ''Boolean'' then Inr (on_both as_bool (=) l r)
      else if has_prefix base ''Timestamp'' then
        Inr (on_both (parseTime tparse)
          (\<lambda>a b. cmpOrder base ''Timestamp'' (cmpFloat (unix_nano_float a) (unix_nano_float b))) l r)
      else Inl (UnsupportedOperator base))"

text \<open>The string of a path operand; a null decodes to the empty string.\<close>

fun path_operand :: "json \<Rightarrow> string option" where
  "path_operand (JStr p) = Some p"
| "path_operand JNull = Some []"
| "path_operand _ = None"

definition applyOp :: "choice_env \<Rightarrow> gval \<Rightarrow> string \<Rightarrow> gval option \<Rightarrow> json \<Rightarrow> path_error + bool" where
  "applyOp E data op val raw =
     (let is = (\<lambda>P. Inr ((case val of None \<Rightarrow> False | Some v \<Rightarrow> P v) = boolOperand raw))
      in if op = ''IsPresent'' then Inr ((val \<noteq> None) = boolOperand raw)
         else if op = ''IsNull'' then is (\<lambda>v. v = VNull)
         else if op = ''IsString'' then is (\<lambda>v. as_string v \<noteq> None)
         else if op = ''IsNumeric'' then is (\<lambda>v. toFloat v \<noteq> None)
         else if op = ''IsBoolean'' then is (\<lambda>v. as_bool v \<noteq> None)
         else if op = ''IsTimestamp'' then is (\<lambda>v. parseTime (rfc3339 E) v \<noteq> None)
         else case val of
           None \<Rightarrow> Inr False
         | Some l \<Rightarrow>
             if has_suffix op ''Path'' then
               (case path_operand raw of
                  None \<Rightarrow> Inl (ExpectsPath op)
                | Some p \<Rightarrow> rbind (getPath (heap_of E) data (ctx_of E) p) (\<lambda>f.
                    case f of
                      None \<Rightarrow> Inr False
                    | Some r \<Rightarrow> compareResolved (rfc3339 E) (trim_suffix op ''Path'') l r))
             else
               (case unmarshal_any (round64 E) raw of
                  None \<Rightarrow> Inl (InvalidOperand op)
                | Some j \<Rightarrow> compareResolved (rfc3339 E) op l (fst (alloc j (heap_of E)))))"

subsection \<open>Rules\<close>

text \<open>\<^verbatim>\<open>ChoiceRule.UnmarshalJSON\<close>, alone and for a list.\<close>

definition raw_map :: "json strmap \<Rightarrow> rule" where
  "raw_map m = foldl (\<lambda>acc (k, v). put k v acc) [] m"

fun rule_of :: "json \<Rightarrow> rule option" where
  "rule_of (JObj m) = Some (raw_map m)"
| "rule_of JNull = Some []"
| "rule_of _ = None"

fun rules_list :: "json list \<Rightarrow> rule list option" where
  "rules_list [] = Some []"
| "rules_list (j # js) =
     (case rule_of j of None \<Rightarrow> None | Some r \<Rightarrow> map_option (Cons r) (rules_list js))"

fun rules_of :: "json \<Rightarrow> rule list option" where
  "rules_of (JArr js) = rules_list js"
| "rules_of JNull = Some []"
| "rules_of _ = None"

definition Next :: "rule \<Rightarrow> string" where
  "Next raw = str_or_empty (field raw ''Next'')"

definition variable :: "rule \<Rightarrow> string option" where
  "variable raw = map_option str_or_empty (lookup raw ''Variable'')"

text \<open>The first key the loop visits that is neither Variable nor Next.\<close>

definition operator :: "rule \<Rightarrow> (string \<times> json) option" where
  "operator raw = find (\<lambda>(k, _). k \<noteq> ''Variable'' \<and> k \<noteq> ''Next'') raw"

definition data_test :: "choice_env \<Rightarrow> gval \<Rightarrow> rule \<Rightarrow> path_error + bool" where
  "data_test E data raw =
     (case variable raw of
        None \<Rightarrow> Inl NoVariable
      | Some varPath \<Rightarrow> rbind (getPath (heap_of E) data (ctx_of E) varPath) (\<lambda>val.
          case operator raw of
            None \<Rightarrow> Inl (NoOperator varPath)
          | Some (op, operand) \<Rightarrow> applyOp E data op val operand))"

abbreviation rule_size :: "rule \<Rightarrow> nat" where
  "rule_size \<equiv> size_list (size_prod (\<lambda>_. 0) size)"

lemma rule_size_put: "rule_size (put k v m) \<le> rule_size m + size v + 2"
  by (induction k v m rule: put.induct) auto

lemma rule_size_raw_map: "rule_size (raw_map m) \<le> rule_size m"
proof -
  have "rule_size (foldl (\<lambda>acc (k, v). put k v acc) acc m) \<le> rule_size acc + rule_size m" for acc
  proof (induction m arbitrary: acc)
    case (Cons e m)
    obtain k v where e: "e = (k, v)" by fastforce
    show ?case using Cons [of "put k v acc"] rule_size_put [of k v acc] e by simp
  qed simp
  from this [of "[]"] show ?thesis by (simp add: raw_map_def)
qed

lemma rule_of_size: "rule_of j = Some r \<Longrightarrow> rule_size r \<le> size j"
  by (cases j) (auto intro: le_SucI rule_size_raw_map)

lemma rules_list_size: "rules_list js = Some rs \<Longrightarrow> size_list rule_size rs \<le> size_list size js"
  by (induction js arbitrary: rs) (fastforce split: option.splits dest!: rule_of_size)+

lemma rules_of_size: "rules_of j = Some rs \<Longrightarrow> size_list rule_size rs \<le> size j"
  by (cases j) (auto intro: le_SucI rules_list_size)

lemma rule_size_lookup: "lookup raw k = Some r \<Longrightarrow> size r < rule_size raw"
  by (induction raw) (auto split: if_splits)

function (sequential) eval :: "choice_env \<Rightarrow> gval \<Rightarrow> rule \<Rightarrow> path_error + bool"
and eval_and :: "choice_env \<Rightarrow> gval \<Rightarrow> rule list \<Rightarrow> path_error + bool"
and eval_or :: "choice_env \<Rightarrow> gval \<Rightarrow> rule list \<Rightarrow> path_error + bool" where
  "eval E data raw =
     (case lookup raw ''And'' of
        Some r \<Rightarrow>
          (case rules_of r of None \<Rightarrow> Inl (NotRuleList ''And'') | Some rs \<Rightarrow> eval_and E data rs)
      | None \<Rightarrow>
     (case lookup raw ''Or'' of
        Some r \<Rightarrow>
          (case rules_of r of None \<Rightarrow> Inl (NotRuleList ''Or'') | Some rs \<Rightarrow> eval_or E data rs)
      | None \<Rightarrow>
     (case lookup raw ''Not'' of
        Some r \<Rightarrow>
          (case rule_of r of
             None \<Rightarrow> Inl NotRule
           | Some c \<Rightarrow> rbind (eval E data c) (\<lambda>m. Inr (\<not> m)))
      | None \<Rightarrow> data_test E data raw)))"
| "eval_and E data [] = Inr True"
| "eval_and E data (c # cs) = rbind (eval E data c) (\<lambda>m. if m then eval_and E data cs else Inr False)"
| "eval_or E data [] = Inr False"
| "eval_or E data (c # cs) = rbind (eval E data c) (\<lambda>m. if m then Inr True else eval_or E data cs)"
  by pat_completeness auto
termination
  by (relation "measure (case_sum (\<lambda>(_, _, raw). rule_size raw) (case_sum
        (\<lambda>(_, _, rs). size_list rule_size rs) (\<lambda>(_, _, rs). size_list rule_size rs)))")
    (auto dest!: rule_of_size rules_of_size rule_size_lookup)

declare eval.simps [simp del]

subsection \<open>Properties\<close>

lemma lookup_mset:
  "mset m = mset m' \<Longrightarrow> distinct (map fst m) \<Longrightarrow> lookup m k = lookup m' k"
proof -
  assume m: "mset m = mset m'" and d: "distinct (map fst m)"
  have "mset (map fst m) = mset (map fst m')" using m by (metis mset_map)
  then have "distinct (map fst m')" using d mset_eq_imp_distinct_iff by blast
  moreover have "set m = set m'" using m by (rule mset_eq_setD)
  ultimately have "\<And>v. lookup m k = Some v \<longleftrightarrow> lookup m' k = Some v"
    using d by (simp add: lookup_def)
  then show ?thesis by (metis not_Some_eq)
qed

lemma find_unique:
  "filter P xs = [x] \<Longrightarrow> find P xs = Some x"
  by (induction xs) (auto split: if_splits)

lemma singleton_of_length: "length xs = 1 \<Longrightarrow> \<exists>x. xs = [x]"
  by (cases xs) auto

lemma operator_mset:
  assumes "mset raw = mset raw'" "length (filter (\<lambda>(k, _). k \<noteq> ''Variable'' \<and> k \<noteq> ''Next'') raw) = 1"
  shows "operator raw = operator raw'"
proof -
  let ?P = "\<lambda>(k, _). k \<noteq> ''Variable'' \<and> k \<noteq> ''Next''"
  obtain x where x: "filter ?P raw = [x]" using singleton_of_length [OF assms(2)] ..
  have "mset (filter ?P raw') = mset (filter ?P raw)" using assms(1) by simp
  then have "mset (filter ?P raw') = {#x#}" unfolding x by simp
  then have "filter ?P raw' = [x]" by (simp del: mset_filter)
  then show ?thesis unfolding operator_def using find_unique [OF x] find_unique [of ?P raw' x] by simp
qed

text \<open>
  \<^verbatim>\<open>Not\<close> of an \<^verbatim>\<open>And\<close> decides as the \<^verbatim>\<open>Or\<close> of the negated rules, error for error:
  both stop at the same rule.
\<close>

theorem not_and_is_or_of_nots:
  assumes "rules_list rs = Some cs"
  shows "eval E data [(''Not'', JObj [(''And'', JArr rs)])] =
    eval E data [(''Or'', JArr (map (\<lambda>r. JObj [(''Not'', r)]) rs))]"
proof -
  have "rules_list (map (\<lambda>r. JObj [(''Not'', r)]) rs) = Some (map (\<lambda>r. [(''Not'', r)]) rs)"
    by (induction rs) (auto simp: raw_map_def)
  moreover have "rbind (eval_and E data cs) (\<lambda>m. Inr (\<not> m)) = eval_or E data (map (\<lambda>r. [(''Not'', r)]) rs)"
    using assms
  proof (induction rs arbitrary: cs)
    case (Cons r rs)
    then obtain c ds where c: "cs = c # ds" "rule_of r = Some c" "rules_list rs = Some ds"
      by (auto split: option.splits)
    then show ?case
      using Cons(1) by (cases "eval E data c") (auto simp: eval.simps [of E data "[(''Not'', r)]"])
  qed simp
  ultimately show ?thesis
    using assms by (simp add: eval.simps raw_map_def)
qed

definition plain_env :: choice_env where
  "plain_env = \<lparr>heap_of = [[]], ctx_of = 0, round64 = Some, rfc3339 = Map.empty\<rparr>"

theorem not_and_is_or_of_nots_witness:
  "eval plain_env (VMap 0) [(''Not'', JObj [(''And'', JArr [JNull, JNull])])] =
     eval plain_env (VMap 0) [(''Or'', JArr (map (\<lambda>r. JObj [(''Not'', r)]) [JNull, JNull]))]"
  by (rule not_and_is_or_of_nots [of _ "[[], []]"]) simp

text \<open>
  The comparison operators are those of the orders of strings (by bytes) and numbers; operands of
  another type never match.
\<close>

theorem comparisons_follow_the_order:
  "compareResolved tparse ''StringEquals'' l r = Inr (\<exists>a b. l = VStr a \<and> r = VStr b \<and> a = b) \<and>
   compareResolved tparse ''StringLessThan'' l r = Inr (\<exists>a b. l = VStr a \<and> r = VStr b \<and> a < b) \<and>
   compareResolved tparse ''StringGreaterThan'' l r = Inr (\<exists>a b. l = VStr a \<and> r = VStr b \<and> b < a) \<and>
   compareResolved tparse ''StringLessThanEquals'' l r = Inr (\<exists>a b. l = VStr a \<and> r = VStr b \<and> a \<le> b) \<and>
   compareResolved tparse ''StringGreaterThanEquals'' l r = Inr (\<exists>a b. l = VStr a \<and> r = VStr b \<and> b \<le> a) \<and>
   compareResolved tparse ''NumericEquals'' l r = Inr (\<exists>a b. l = VNum a \<and> r = VNum b \<and> a = b) \<and>
   compareResolved tparse ''NumericLessThan'' l r = Inr (\<exists>a b. l = VNum a \<and> r = VNum b \<and> a < b) \<and>
   compareResolved tparse ''NumericGreaterThan'' l r = Inr (\<exists>a b. l = VNum a \<and> r = VNum b \<and> b < a) \<and>
   compareResolved tparse ''NumericLessThanEquals'' l r = Inr (\<exists>a b. l = VNum a \<and> r = VNum b \<and> a \<le> b) \<and>
   compareResolved tparse ''NumericGreaterThanEquals'' l r = Inr (\<exists>a b. l = VNum a \<and> r = VNum b \<and> b \<le> a) \<and>
   compareResolved tparse ''BooleanEquals'' l r = Inr (\<exists>a b. l = VBool a \<and> r = VBool b \<and> a = b)"
proof -
  have str: "on_both as_string P l r \<longleftrightarrow> (\<exists>a b. l = VStr a \<and> r = VStr b \<and> P a b)" for P
    by (cases l; cases r) (auto simp: on_both_def)
  have num: "on_both toFloat P l r \<longleftrightarrow> (\<exists>a b. l = VNum a \<and> r = VNum b \<and> P a b)" for P
    by (cases l; cases r) (auto simp: on_both_def)
  have bool: "on_both as_bool P l r \<longleftrightarrow> (\<exists>a b. l = VBool a \<and> r = VBool b \<and> P a b)" for P
    by (cases l; cases r) (auto simp: on_both_def)
  have sign: "(compare_strings a b = 0) = (a = b)" "(compare_strings a b < 0) = (a < b)"
    "(0 < compare_strings a b) = (b < a)" "(compare_strings a b \<le> 0) = (a \<le> b)"
    "(0 \<le> compare_strings a b) = (b \<le> a)" for a b
    by (auto simp: compare_strings_def)
  have fsign: "(cmpFloat x y = 0) = (x = y)" "(cmpFloat x y < 0) = (x < y)"
    "(0 < cmpFloat x y) = (y < x)" "(cmpFloat x y \<le> 0) = (x \<le> y)" "(0 \<le> cmpFloat x y) = (y \<le> x)" for x y
    by (auto simp: cmpFloat_def)
  show ?thesis
    by (intro conjI)
      (simp_all add: compareResolved_def has_prefix_def cmpOrder_def trim_prefix_def str num bool sign fsign)
qed

text \<open>
  A rule with one operator, or a composition, is decided the same in whatever order its keys are
  visited.
\<close>

theorem eval_order_irrelevant:
  assumes "mset raw = mset raw'" "distinct (map fst raw)"
    and "length (filter (\<lambda>(k, _). k \<noteq> ''Variable'' \<and> k \<noteq> ''Next'') raw) = 1"
  shows "eval E data raw = eval E data raw'"
proof -
  have "variable raw = variable raw'" unfolding variable_def lookup_mset [OF assms(1,2)] ..
  then have "data_test E data raw = data_test E data raw'"
    unfolding data_test_def operator_mset [OF assms(1,3)] by simp
  then show ?thesis
    unfolding eval.simps [of E data raw] eval.simps [of E data raw'] lookup_mset [OF assms(1,2)] by (simp only:)
qed

theorem eval_order_irrelevant_witness:
  "eval plain_env (VMap 0) [(''Variable'', JStr ''$.x''), (''IsPresent'', JBool False)] =
     eval plain_env (VMap 0) [(''IsPresent'', JBool False), (''Variable'', JStr ''$.x'')]"
  by (rule eval_order_irrelevant) simp_all

text \<open>
  A second key that is not an operator, such as the \<^verbatim>\<open>Comment\<close> the console writes, makes the outcome
  depend on the order in which Go happens to visit the map: a match or a failed execution.
\<close>

theorem commented_rule_is_random:
  "eval plain_env (VMap 0) [(''Variable'', JStr ''$.x''), (''IsPresent'', JBool True), (''Comment'', JStr ''c'')]
     = Inr False \<and>
   eval plain_env (VNum 1) [(''Comment'', JStr ''c''), (''Variable'', JStr ''$''), (''IsPresent'', JBool True)]
     = Inl (UnsupportedOperator ''Comment'') \<and>
   eval plain_env (VNum 1) [(''IsPresent'', JBool True), (''Comment'', JStr ''c''), (''Variable'', JStr ''$'')]
     = Inr True"
  by (simp add: plain_env_def eval.simps data_test_def variable_def operator_def applyOp_def getPath_def
      has_prefix_def tokenizePath_def flush_def hget_def has_suffix_def compareResolved_def)

text \<open>
  An operator that only starts like a known one is not reported as unsupported: it never matches.
\<close>

theorem unknown_operator_never_matches:
  "compareResolved tparse ''StringMatches'' (VStr s) (VStr s) = Inr False"
  by (simp add: compareResolved_def has_prefix_def on_both_def cmpOrder_def trim_prefix_def)

text \<open>
  Times are compared as \<^verbatim>\<open>float64\<close> of nanoseconds: two of them that differ by a hundred nanoseconds
  are equal, and a time after the year 2262, where the 64 bits end, is before the epoch.
\<close>

theorem timestamps_compared_inexactly:
  "unix_nano_float 1704067200000000100 = unix_nano_float 1704067200000000000 \<and>
   unix_nano_float 10413792000000000000 < unix_nano_float 0"
  by (simp add: unix_nano_float_def float64_of_int_def wrap64_def Let_def eval_nat_numeral(2,3))

end
