(* ===== verification/Asl.thy ===== *)
theory Asl
  imports Choice GoFloat
begin

text \<open>
  State machine definitions and their validation: \<^verbatim>\<open>statemachine/asl.go\<close>, and the delay between
  retries of \<^verbatim>\<open>statemachine/engine.go\<close>.

  A \<open>State\<close> is the union struct of the source: a record of its plain fields and the nested
  definitions. A \<^verbatim>\<open>json.RawMessage\<close> field is None when the document does not have it. Error texts
  are one constructor per return statement.
\<close>

subsection \<open>Data\<close>

record Path =
  pSet :: bool
  pNull :: bool
  pValue :: string

definition absent :: Path where
  "absent = \<lparr>pSet = False, pNull = False, pValue = []\<rparr>"

fun unmarshal_path :: "json \<Rightarrow> Path option" where
  "unmarshal_path JNull = Some \<lparr>pSet = True, pNull = True, pValue = []\<rparr>"
| "unmarshal_path (JStr s) = Some \<lparr>pSet = True, pNull = False, pValue = s\<rparr>"
| "unmarshal_path _ = None"

definition orDefault :: "Path \<Rightarrow> string \<Rightarrow> string" where
  "orDefault p def = (if \<not> pSet p then def else if pNull p then [] else pValue p)"

record Retrier =
  rErrorEquals :: "string list"
  IntervalSeconds :: int
  MaxAttempts :: "int option"
  BackoffRate :: go_float
  MaxDelaySeconds :: int

definition interval :: "Retrier \<Rightarrow> int" where
  "interval r = (if 0 < IntervalSeconds r then IntervalSeconds r else 1)"

definition maxAttempts :: "Retrier \<Rightarrow> int" where
  "maxAttempts r = (case MaxAttempts r of Some n \<Rightarrow> n | None \<Rightarrow> 3)"

definition backoff :: "Retrier \<Rightarrow> go_float" where
  "backoff r = (if fl_le (Fin 1) (BackoffRate r) then BackoffRate r else Fin 2)"

record Catcher =
  cErrorEquals :: "string list"
  cNext :: string
  cResultPath :: Path

definition ErrTaskFailed :: string where "ErrTaskFailed = ''States.TaskFailed''"
definition ErrTimeout :: string where "ErrTimeout = ''States.Timeout''"
definition ErrRuntime :: string where "ErrRuntime = ''States.Runtime''"
definition ErrAll :: string where "ErrAll = ''States.ALL''"

definition matchesError :: "string list \<Rightarrow> string \<Rightarrow> bool" where
  "matchesError errorEquals name \<longleftrightarrow> (\<exists>e \<in> set errorEquals. e = ErrAll \<or> e = name)"

record state_fields =
  sType :: string
  sNext :: string
  sEnd :: bool
  InputPath :: Path
  OutputPath :: Path
  ResultPath :: Path
  Parameters :: "json option"
  Resource :: string
  sTimeoutSeconds :: int
  Retry :: "Retrier list"
  Catch :: "Catcher list"
  sResult :: "json option"
  Seconds :: "int option"
  SecondsPath :: string
  Timestamp :: string
  TimestampPath :: string
  Choices :: "rule list"
  Default :: string
  sError :: string
  sCause :: string
  ItemsPath :: Path
  MaxConcurrency :: int
  ItemSelector :: "json option"

datatype Definition =
    Definition (StartAt: string) (TimeoutSeconds: int) (States: "(string \<times> State) list")
and State =
    State (core: state_fields) (Branches: "Definition list")
      (Iterator: "Definition option") (ItemProcessor: "Definition option")

definition iteratorDef :: "State \<Rightarrow> Definition option" where
  "iteratorDef s = (if ItemProcessor s \<noteq> None then ItemProcessor s else Iterator s)"

definition itemTemplate :: "state_fields \<Rightarrow> json option" where
  "itemTemplate s = (if ItemSelector s \<noteq> None then ItemSelector s else Parameters s)"

subsection \<open>Validation\<close>

datatype asl_error =
    MissingStartAt
  | NoStates
  | BadStartAt string
  | UndefinedTarget string string
  | NoBranches string
  | BranchError string nat asl_error
  | NoIterator string
  | IteratorError string asl_error

definition check :: "Definition \<Rightarrow> string \<Rightarrow> string \<Rightarrow> asl_error option" where
  "check d from to =
     (if to = [] then None
      else if lookup (States d) to = None then Some (UndefinedTarget from to) else None)"

text \<open>The transition targets of a state, in the order in which they are checked.\<close>

definition targets :: "state_fields \<Rightarrow> string list" where
  "targets s = [sNext s, Default s] @ map cNext (Catch s) @ map Choice.Next (Choices s)"

fun first_error :: "'e option list \<Rightarrow> 'e option" where
  "first_error [] = None"
| "first_error (None # es) = first_error es"
| "first_error (Some e # es) = Some e"

lemma first_error_None [simp]: "first_error es = None \<longleftrightarrow> (\<forall>e \<in> set es. e = None)"
  by (induction es rule: first_error.induct) auto

lemma size_iteratorDef: "iteratorDef s = Some it \<Longrightarrow> size it < size s"
  by (cases s) (auto simp: iteratorDef_def split: if_splits)

function (sequential) validateDefinition :: "Definition \<Rightarrow> asl_error option"
and validate_states :: "Definition \<Rightarrow> (string \<times> State) list \<Rightarrow> asl_error option"
and validate_branches :: "string \<Rightarrow> nat \<Rightarrow> Definition list \<Rightarrow> asl_error option" where
  "validateDefinition d =
     (if StartAt d = [] then Some MissingStartAt
      else if States d = [] then Some NoStates
      else if lookup (States d) (StartAt d) = None then Some (BadStartAt (StartAt d))
      else validate_states d (States d))"
| "validate_states d [] = None"
| "validate_states d ((name, s) # rest) =
     first_error
       [first_error (map (check d name) (targets (core s))),
        if sType (core s) = ''Parallel'' then
          (if Branches s = [] then Some (NoBranches name) else validate_branches name 0 (Branches s))
        else None,
        if sType (core s) = ''Map'' then
          (case iteratorDef s of
             None \<Rightarrow> Some (NoIterator name)
           | Some it \<Rightarrow> map_option (IteratorError name) (validateDefinition it))
        else None,
        validate_states d rest]"
| "validate_branches name i [] = None"
| "validate_branches name i (b # bs) =
     (case validateDefinition b of
        Some e \<Rightarrow> Some (BranchError name i e)
      | None \<Rightarrow> validate_branches name (Suc i) bs)"
  by pat_completeness auto
termination
proof (relation "measure (case_sum size (case_sum
    (\<lambda>(_, ss). size_list (size_prod (\<lambda>_. 0) size) ss) (\<lambda>(_, _, bs). size_list size bs)))", goal_cases)
  case (2 d)
  then show ?case by (cases d) simp
next
  case (3 d name s rest)
  then show ?case by (cases s) simp
next
  case (4 d name s rest it)
  then show ?case using size_iteratorDef [of s it] by simp
qed auto

declare validateDefinition.simps [simp del]

text \<open>The definitions nested in a definition, itself included.\<close>

inductive sub_def :: "Definition \<Rightarrow> Definition \<Rightarrow> bool" for d where
  sub_self: "sub_def d d"
| sub_branch: "sub_def d e \<Longrightarrow> (name, s) \<in> set (States e) \<Longrightarrow> sType (core s) = ''Parallel'' \<Longrightarrow>
     b \<in> set (Branches s) \<Longrightarrow> sub_def d b"
| sub_iterator: "sub_def d e \<Longrightarrow> (name, s) \<in> set (States e) \<Longrightarrow> sType (core s) = ''Map'' \<Longrightarrow>
     iteratorDef s = Some it \<Longrightarrow> sub_def d it"

text \<open>What validation is to establish for one definition.\<close>

definition resolves :: "Definition \<Rightarrow> bool" where
  "resolves d \<longleftrightarrow> StartAt d \<noteq> [] \<and> lookup (States d) (StartAt d) \<noteq> None \<and>
     (\<forall>(name, s) \<in> set (States d).
        (\<forall>t \<in> set (targets (core s)). t \<noteq> [] \<longrightarrow> lookup (States d) t \<noteq> None) \<and>
        (sType (core s) = ''Parallel'' \<longrightarrow> Branches s \<noteq> []) \<and>
        (sType (core s) = ''Map'' \<longrightarrow> iteratorDef s \<noteq> None))"

lemma validate_branches_None:
  "validate_branches name i bs = None \<longleftrightarrow> (\<forall>b \<in> set bs. validateDefinition b = None)"
  by (induction bs arbitrary: i) (auto split: option.splits)

definition state_ok :: "Definition \<Rightarrow> string \<times> State \<Rightarrow> bool" where
  "state_ok d = (\<lambda>(name, s).
     (\<forall>t \<in> set (targets (core s)). t \<noteq> [] \<longrightarrow> lookup (States d) t \<noteq> None) \<and>
     (sType (core s) = ''Parallel'' \<longrightarrow> Branches s \<noteq> [] \<and> (\<forall>b \<in> set (Branches s). validateDefinition b = None)) \<and>
     (sType (core s) = ''Map'' \<longrightarrow> (\<exists>it. iteratorDef s = Some it \<and> validateDefinition it = None)))"

lemma validate_states_None: "validate_states d ss = None \<longleftrightarrow> (\<forall>e \<in> set ss. state_ok d e)"
proof (induction ss)
  case (Cons e ss)
  obtain name s where e: "e = (name, s)" by fastforce
  have "(\<forall>x \<in> set (map (check d name) ts). x = None) \<longleftrightarrow>
      (\<forall>t \<in> set ts. t \<noteq> [] \<longrightarrow> lookup (States d) t \<noteq> None)" for ts
    by (induction ts) (auto simp: check_def)
  then show ?case
    using Cons e by (auto simp: state_ok_def validate_branches_None simp del: set_map split: option.splits)
qed simp

lemma validateDefinition_None:
  "validateDefinition d = None \<longleftrightarrow>
     StartAt d \<noteq> [] \<and> lookup (States d) (StartAt d) \<noteq> None \<and> (\<forall>e \<in> set (States d). state_ok d e)"
  by (subst validateDefinition.simps) (auto simp: validate_states_None)

lemma sub_def_validated: "sub_def d e \<Longrightarrow> validateDefinition d = None \<Longrightarrow> validateDefinition e = None"
proof (induction rule: sub_def.induct)
  case (sub_branch e name s b)
  then have "state_ok e (name, s)" using validateDefinition_None [of e] by blast
  then show ?case using sub_branch by (simp add: state_ok_def)
next
  case (sub_iterator e name s it)
  then have "state_ok e (name, s)" using validateDefinition_None [of e] by blast
  then show ?case using sub_iterator by (simp add: state_ok_def)
qed simp

lemma validated_resolves: "validateDefinition d = None \<Longrightarrow> resolves d"
  using validateDefinition_None [of d] by (auto simp: resolves_def state_ok_def)

lemma sub_def_trans: "sub_def e f \<Longrightarrow> sub_def d e \<Longrightarrow> sub_def d f"
  by (induction rule: sub_def.induct) (auto intro: sub_branch sub_iterator)

lemma size_entry: "(name, s) \<in> set ss \<Longrightarrow> size s < size_list (size_prod (\<lambda>_. 0) size) ss"
  by (induction ss) auto

lemma size_branch: "b \<in> set bs \<Longrightarrow> size b < size_list size bs"
  by (induction bs) auto

lemma size_nested:
  assumes "(name, s) \<in> set (States d)"
  shows "b \<in> set (Branches s) \<Longrightarrow> size b < size d" "iteratorDef s = Some it \<Longrightarrow> size it < size d"
proof -
  have "size s < size d" using size_entry [OF assms] by (cases d) simp
  then show "b \<in> set (Branches s) \<Longrightarrow> size b < size d" "iteratorDef s = Some it \<Longrightarrow> size it < size d"
    using size_branch [of b "Branches s"] size_iteratorDef [of s it] by (cases s; auto)+
qed

subsection \<open>Delays\<close>

text \<open>
  \<^verbatim>\<open>backoffDelay\<close> in nanoseconds. \<^verbatim>\<open>math.Pow\<close>, the product of two \<^verbatim>\<open>float64\<close> and the conversion to
  \<^verbatim>\<open>time.Duration\<close> are the parameters \<open>pow\<close>, \<open>mul\<close> and \<open>trunc\<close>.
\<close>

definition backoffDelay ::
  "(go_float \<Rightarrow> int \<Rightarrow> go_float) \<Rightarrow> (go_float \<Rightarrow> go_float \<Rightarrow> go_float) \<Rightarrow> (go_float \<Rightarrow> int) \<Rightarrow>
    Retrier \<Rightarrow> int \<Rightarrow> int" where
  "backoffDelay pow mul trunc r attempt =
     (let secs = mul (Fin (of_int (float64_of_int (interval r)))) (pow (backoff r) attempt);
          cap = Fin (of_int (float64_of_int (MaxDelaySeconds r)));
          secs' = (if 0 < MaxDelaySeconds r \<and> fl_less cap secs then cap else secs)
      in trunc (mul secs' (Fin (10 ^ 9))))"

lemma last_bit_small: "\<bar>n\<bar> < 2 ^ 53 \<Longrightarrow> last_bit k n 1 = 1"
  by (cases k) simp_all

lemma float64_of_int_exact: "\<bar>n\<bar> < 2 ^ 53 \<Longrightarrow> float64_of_int n = n"
  by (simp add: float64_of_int_def last_bit_small del: power_numeral)

subsection \<open>Properties\<close>

text \<open>
  C29. A definition is accepted exactly when in it and in every definition nested in it (the branches
  of a Parallel state, the iterator of a Map state) the start state is defined, every named
  transition target is defined, and Parallel and Map states have something to run.
\<close>

theorem validated_iff_resolves:
  "validateDefinition d = None \<longleftrightarrow> (\<forall>e. sub_def d e \<longrightarrow> resolves e)"
proof
  assume "validateDefinition d = None"
  then show "\<forall>e. sub_def d e \<longrightarrow> resolves e" using sub_def_validated validated_resolves by blast
next
  show "\<forall>e. sub_def d e \<longrightarrow> resolves e \<Longrightarrow> validateDefinition d = None"
  proof (induction "size d" arbitrary: d rule: less_induct)
    case less
    have d: "resolves d" using less(2) sub_self by blast
    have "state_ok d (name, s)" if s: "(name, s) \<in> set (States d)" for name s
    proof -
      have "validateDefinition b = None" if "b \<in> set (Branches s)" "sType (core s) = ''Parallel''" for b
        using less size_nested(1) [OF s that(1)] sub_def_trans [OF _ sub_branch [OF sub_self s that(2,1)]]
        by blast
      moreover have "validateDefinition it = None" if "iteratorDef s = Some it" "sType (core s) = ''Map''" for it
        using less size_nested(2) [OF s that(1)] sub_def_trans [OF _ sub_iterator [OF sub_self s that(2,1)]]
        by blast
      ultimately show ?thesis using d s by (fastforce simp: resolves_def state_ok_def)
    qed
    then show ?case using d by (auto simp: validateDefinition_None [of d] resolves_def)
  qed
qed

theorem validated_iff_resolves_witness:
  "resolves (Definition ''A'' 0 [(''A'', State \<lparr>sType = ''Pass'', sNext = ''A'', sEnd = False,
      InputPath = absent, OutputPath = absent, ResultPath = absent, Parameters = None, Resource = [],
      sTimeoutSeconds = 0, Retry = [], Catch = [], sResult = None, Seconds = None, SecondsPath = [],
      Timestamp = [], TimestampPath = [], Choices = [], Default = [], sError = [], sCause = [],
      ItemsPath = absent, MaxConcurrency = 0, ItemSelector = None\<rparr> [] None None)])"
  (is "resolves ?d")
proof -
  have "validateDefinition ?d = None"
    by (simp add: validateDefinition.simps check_def targets_def)
  then show ?thesis using validated_iff_resolves [of ?d] sub_self by blast
qed

text \<open>
  With \<^verbatim>\<open>MaxDelaySeconds\<close> set, the delay before a retry is neither negative nor above it. The
  hypotheses are IEEE 754: a product is rounded by a monotone function that is exact on integers
  of 53 bits, or overflows to infinity; the conversion to an integer truncates.
\<close>

theorem retry_delay_capped:
  fixes rnd :: "rat \<Rightarrow> rat" and huge :: rat
  assumes mul: "\<And>a b. 0 \<le> a \<Longrightarrow> 0 \<le> b \<Longrightarrow> mul (Fin a) (Fin b) = (if a * b < huge then Fin (rnd (a * b)) else PosInf)"
    and inf: "\<And>a. 0 < a \<Longrightarrow> mul (Fin a) PosInf = PosInf"
    and huge: "2 ^ 53 < huge"
    and rnd: "\<And>a b. a \<le> b \<Longrightarrow> rnd a \<le> rnd b" "\<And>n :: int. \<bar>n\<bar> \<le> 2 ^ 53 \<Longrightarrow> rnd (of_int n) = of_int n"
    and trunc: "\<And>q. 0 \<le> q \<Longrightarrow> q \<le> 2 ^ 53 \<Longrightarrow> trunc (Fin q) = \<lfloor>q\<rfloor>"
    and pow: "pow (backoff r) attempt = PosInf \<or> (\<exists>q \<ge> 0. pow (backoff r) attempt = Fin q)"
    and cap: "0 < MaxDelaySeconds r" "MaxDelaySeconds r * 10 ^ 9 \<le> 2 ^ 53" "interval r < 2 ^ 53"
  shows "0 \<le> backoffDelay pow mul trunc r attempt \<and>
    backoffDelay pow mul trunc r attempt \<le> MaxDelaySeconds r * 10 ^ 9"
proof -
  let ?m = "MaxDelaySeconds r"
  have pos: "0 < interval r" by (simp add: interval_def)
  define secs where "secs = mul (Fin (of_int (interval r))) (pow (backoff r) attempt)"
  have nonneg: "secs = PosInf \<or> (\<exists>q \<ge> 0. secs = Fin q)"
  proof (cases "pow (backoff r) attempt = PosInf")
    case True
    then show ?thesis using inf pos by (simp add: secs_def)
  next
    case False
    then obtain q where q: "0 \<le> q" "pow (backoff r) attempt = Fin q" using pow by blast
    have "0 \<le> rnd (of_int (interval r) * q)"
      using rnd(1) [of 0 "of_int (interval r) * q"] rnd(2) [of 0] pos q by simp
    then show ?thesis using mul [of "of_int (interval r)" q] pos q by (simp add: secs_def)
  qed
  define s where "s = (if fl_less (Fin (of_int ?m)) secs then Fin (of_int ?m) else secs)"
  have "\<exists>q. s = Fin q \<and> 0 \<le> q \<and> q \<le> of_int ?m" using nonneg cap(1) by (auto simp: s_def)
  then obtain q where q: "s = Fin q" "0 \<le> q" "q \<le> of_int ?m" by blast
  have le: "q * 10 ^ 9 \<le> of_int (?m * 10 ^ 9)" using q by simp
  moreover have m: "of_int (?m * 10 ^ 9) \<le> (2 ^ 53 :: rat)" using cap(2) by (metis of_int_le_iff of_int_numeral of_int_power)
  ultimately have "mul s (Fin (10 ^ 9)) = Fin (rnd (q * 10 ^ 9))"
    using mul [of q "10 ^ 9"] q huge by simp
  moreover have "rnd (q * 10 ^ 9) \<le> of_int (?m * 10 ^ 9)" "0 \<le> rnd (q * 10 ^ 9)"
    using rnd(1) [OF le] rnd(2) [of "?m * 10 ^ 9"] rnd(1) [of 0 "q * 10 ^ 9"] rnd(2) [of 0] cap q by simp_all
  moreover have "backoffDelay pow mul trunc r attempt = trunc (mul s (Fin (10 ^ 9)))"
    using cap pos by (simp add: backoffDelay_def Let_def s_def secs_def float64_of_int_exact)
  ultimately show ?thesis using trunc m by (simp add: floor_le_iff le_floor_iff)
qed

theorem retry_delay_capped_witness:
  "backoffDelay (\<lambda>_ n. Fin (2 ^ nat n))
     (\<lambda>x y. case (x, y) of (Fin a, Fin b) \<Rightarrow> (if a * b < 2 ^ 1024 then Fin (a * b) else PosInf) | _ \<Rightarrow> PosInf)
     (\<lambda>x. case x of Fin q \<Rightarrow> \<lfloor>q\<rfloor> | _ \<Rightarrow> 0)
     \<lparr>rErrorEquals = [], IntervalSeconds = 3, MaxAttempts = None, BackoffRate = Fin 2, MaxDelaySeconds = 20\<rparr> 7
     \<le> 20 * 10 ^ 9"
  using retry_delay_capped [of
     "\<lambda>x y. case (x, y) of (Fin a, Fin b) \<Rightarrow> (if a * b < 2 ^ 1024 then Fin (a * b) else PosInf) | _ \<Rightarrow> PosInf"
     "2 ^ 1024" "\<lambda>q. q" "\<lambda>x. case x of Fin q \<Rightarrow> \<lfloor>q\<rfloor> | _ \<Rightarrow> 0" "\<lambda>_ n. Fin (2 ^ nat n)"
     "\<lparr>rErrorEquals = [], IntervalSeconds = 3, MaxAttempts = None, BackoffRate = Fin 2, MaxDelaySeconds = 20\<rparr>" 7]
  by (simp add: interval_def)

end
