(* ===== verification/Engine.thy ===== *)
theory Engine
  imports Asl Machine
begin

text \<open>
  The interpreter of state machines: \<^verbatim>\<open>statemachine/engine.go\<close> and
  \<^verbatim>\<open>statemachine/parallelmap.go\<close>.

  \<open>turn\<close> is one pass through the loop of \<^verbatim>\<open>Engine.Run\<close>: it enters a state and computes the
  transition out of it. What the world answers in that turn is its \<open>world\<close>: the clock, whether
  the context is cancelled, whether checkpoints and sleeps succeed, what each attempt of a Task
  returns, and what each sub-execution of a Parallel or Map state returns and leaves in the
  heap. Sub-executions run concurrently on the shared heap; here each is given the heap at the
  time it starts, and the heap it hands on is any that the others may have produced meanwhile.
  Texts of causes are rendered by \<open>say\<close>. The engine's calls to \<^verbatim>\<open>record\<close>, \<^verbatim>\<open>checkpoint\<close>
  and \<^verbatim>\<open>Invoke\<close> are logged, without their times.
\<close>

subsection \<open>Data\<close>

record taskError =
  teName :: string
  teCause :: string

record Result =
  Phase :: string
  Output :: gval
  Error :: string
  Cause :: string

datatype cause =
    AtPath path_error
  | Cancelled
  | NoSuchState string
  | Overrun
  | CheckpointFailed
  | UnknownType string
  | NeitherNextNorEnd
  | ControllerStopped
  | BadPassResult
  | BadSecondsPath string
  | SecondsNotNumber
  | BadTimestamp
  | BadTimestampPath string
  | TimestampNotString
  | NoWaitField
  | NoChoiceMatched
  | NoBranchesToRun
  | NoIteratorToRun
  | NotAnArray string

datatype event =
    Checkpoint string gval "int option"
  | StateEntered string
  | StateFailed string string
  | StateRetry string nat
  | StateCaught string string string
  | ExecutionSucceeded
  | ExecutionFailed string string
  | Invoked string gval

record world =
  say :: "cause \<Rightarrow> string"
  fround :: "rat \<Rightarrow> rat option"
  tparse :: "string \<Rightarrow> int option"
  cancelled :: bool
  clock :: "nat \<Rightarrow> int"
  entered :: string
  checkpointed :: "nat \<Rightarrow> bool"
  slept :: "nat \<Rightarrow> bool"
  invoke :: "nat \<Rightarrow> string \<Rightarrow> gval \<Rightarrow> int \<Rightarrow> heap \<Rightarrow> taskError + json"
  sub_run :: "nat \<Rightarrow> nat \<Rightarrow> Definition \<Rightarrow> nat \<Rightarrow> gval \<Rightarrow> heap \<Rightarrow> Result \<times> heap"

record engine =
  eHeap :: heap
  ctxObj :: nat
  resumeWait :: "int option"
  started :: int
  events :: "event list"

datatype transition =
    Goto string gval
  | Done Result

definition emit :: "event \<Rightarrow> engine \<Rightarrow> engine" where
  "emit ev e = e\<lparr>events := events e @ [ev]\<rparr>"

definition failed :: "string \<Rightarrow> string \<Rightarrow> Result" where
  "failed err c = \<lparr>Phase = ''Failed'', Output = VNull, Error = err, Cause = c\<rparr>"

definition failRuntime :: "world \<Rightarrow> cause \<Rightarrow> transition" where
  "failRuntime w c = Done (failed ErrRuntime (say w c))"

definition advance :: "world \<Rightarrow> state_fields \<Rightarrow> gval \<Rightarrow> transition" where
  "advance w s out =
     (if sEnd s then Done \<lparr>Phase = ''Succeeded'', Output = out, Error = [], Cause = []\<rparr>
      else if sNext s = [] then failRuntime w NeitherNextNorEnd
      else Goto (sNext s) out)"

text \<open>Run the rest when a path can be applied, else fail the execution.\<close>

definition with_path ::
  "world \<Rightarrow> engine \<Rightarrow> path_error + gval \<times> heap \<Rightarrow> (gval \<Rightarrow> engine \<Rightarrow> transition \<times> engine) \<Rightarrow>
    transition \<times> engine" where
  "with_path w e r k =
     (case r of Inl err \<Rightarrow> (failRuntime w (AtPath err), e) | Inr (v, h) \<Rightarrow> k v (e\<lparr>eHeap := h\<rparr>))"

text \<open>\<^verbatim>\<open>applyInputPath(data, e.ctxObj, s.InputPath.orDefault("$"))\<close> and its failure.\<close>

definition with_input ::
  "world \<Rightarrow> engine \<Rightarrow> state_fields \<Rightarrow> gval \<Rightarrow> (gval \<Rightarrow> engine \<Rightarrow> transition \<times> engine) \<Rightarrow>
    transition \<times> engine" where
  "with_input w e s data k =
     with_path w e (applyInputPath (eHeap e) data (ctxObj e) (orDefault (InputPath s) ''$'')) k"

text \<open>OutputPath, then the next state.\<close>

definition finish_state :: "world \<Rightarrow> engine \<Rightarrow> state_fields \<Rightarrow> gval \<Rightarrow> transition \<times> engine" where
  "finish_state w e s v =
     with_path w e (applyOutputPath (eHeap e) v (ctxObj e) (orDefault (OutputPath s) ''$''))
       (\<lambda>out e'. (advance w s out, e'))"

text \<open>ResultPath, OutputPath, then the next state.\<close>

definition shape :: "world \<Rightarrow> engine \<Rightarrow> state_fields \<Rightarrow> gval \<Rightarrow> gval \<Rightarrow> transition \<times> engine" where
  "shape w e s effInput result =
     with_path w e (applyResultPath (eHeap e) effInput result (orDefault (ResultPath s) ''$''))
       (\<lambda>combined e'. finish_state w e' s combined)"

subsection \<open>Retry and Catch\<close>

fun firstMatch :: "('a \<Rightarrow> bool) \<Rightarrow> 'a list \<Rightarrow> nat option" where
  "firstMatch P [] = None"
| "firstMatch P (x # xs) = (if P x then Some 0 else map_option Suc (firstMatch P xs))"

lemma firstMatch_Some: "firstMatch P xs = Some i \<Longrightarrow> i < length xs \<and> P (xs ! i) \<and> (\<forall>j < i. \<not> P (xs ! j))"
  by (induction xs arbitrary: i) (auto split: if_splits simp: nth_Cons' less_Suc_eq_0_disj)

text \<open>The retrier that applies to an error and has attempts left.\<close>

definition retrier_for :: "state_fields \<Rightarrow> (nat \<Rightarrow> nat) \<Rightarrow> string \<Rightarrow> nat option" where
  "retrier_for s attempts name =
     (case firstMatch (\<lambda>r. matchesError (rErrorEquals r) name) (Retry s) of
        None \<Rightarrow> None
      | Some ri \<Rightarrow> if int (attempts ri) < maxAttempts (Retry s ! ri) then Some ri else None)"

definition catch :: "world \<Rightarrow> engine \<Rightarrow> string \<Rightarrow> state_fields \<Rightarrow> gval \<Rightarrow> taskError \<Rightarrow> transition \<times> engine" where
  "catch w e name s effInput terr =
     (case firstMatch (\<lambda>c. matchesError (cErrorEquals c) (teName terr)) (Catch s) of
        None \<Rightarrow> (Done (failed (teName terr) (teCause terr)), e)
      | Some ci \<Rightarrow>
          let c = Catch s ! ci;
              h = eHeap e;
              errObj = [(''Error'', VStr (teName terr)), (''Cause'', VStr (teCause terr))]
          in with_path w e
               (applyResultPath (h @ [errObj]) effInput (VMap (length h)) (orDefault (cResultPath c) ''$''))
               (\<lambda>cd e'. (Goto (cNext c) cd, emit (StateCaught name (cNext c) (teName terr)) e')))"

definition attempts_left :: "state_fields \<Rightarrow> (nat \<Rightarrow> nat) \<Rightarrow> nat" where
  "attempts_left s attempts = (\<Sum>i < length (Retry s). nat (maxAttempts (Retry s ! i)) - attempts i)"

lemma attempts_left_decreases:
  assumes "retrier_for s attempts name = Some ri"
  shows "attempts_left s (attempts(ri := Suc (attempts ri))) < attempts_left s attempts"
proof -
  have ri: "ri < length (Retry s)" "int (attempts ri) < maxAttempts (Retry s ! ri)"
    using assms firstMatch_Some [of _ "Retry s" ri]
    by (auto simp: retrier_for_def split: option.splits if_splits)
  then show ?thesis
    unfolding attempts_left_def by (intro sum_strict_mono_ex1) (auto intro!: bexI [of _ ri])
qed

function runRetryCatch ::
  "world \<Rightarrow> string \<Rightarrow> state_fields \<Rightarrow> gval \<Rightarrow> (nat \<Rightarrow> engine \<Rightarrow> (taskError + gval) \<times> engine) \<Rightarrow>
    (nat \<Rightarrow> nat) \<Rightarrow> nat \<Rightarrow> engine \<Rightarrow> transition \<times> engine" where
  "runRetryCatch w name s effInput work attempts n e =
     (case work n e of
        (Inr result, e1) \<Rightarrow> shape w e1 s effInput result
      | (Inl terr, e1) \<Rightarrow>
          let e2 = emit (StateFailed name (teName terr)) e1
          in (case retrier_for s attempts (teName terr) of
                Some ri \<Rightarrow>
                  let e3 = emit (StateRetry name (Suc (attempts ri))) e2
                  in if slept w n
                     then runRetryCatch w name s effInput work (attempts(ri := Suc (attempts ri))) (Suc n) e3
                     else (failRuntime w ControllerStopped, e3)
              | None \<Rightarrow> catch w e2 name s effInput terr))"
  by pat_completeness auto
termination
  by (relation "measure (\<lambda>(_, _, s, _, _, attempts, _). attempts_left s attempts)")
    (auto simp: attempts_left_decreases)

declare runRetryCatch.simps [simp del]

subsection \<open>The states\<close>

definition invoke_task ::
  "world \<Rightarrow> state_fields \<Rightarrow> gval \<Rightarrow> nat \<Rightarrow> engine \<Rightarrow> (taskError + gval) \<times> engine" where
  "invoke_task w s params n e =
     (let e1 = emit (Invoked (Resource s) params) e
      in case invoke w n (Resource s) params (sTimeoutSeconds s) (eHeap e) of
           Inl terr \<Rightarrow> (Inl terr, e1)
         | Inr j \<Rightarrow> (let (v, h) = alloc j (eHeap e) in (Inr v, e1\<lparr>eHeap := h\<rparr>)))"

definition runTask :: "world \<Rightarrow> engine \<Rightarrow> string \<Rightarrow> state_fields \<Rightarrow> gval \<Rightarrow> transition \<times> engine" where
  "runTask w e name s data =
     with_input w e s data (\<lambda>effInput e1.
     with_path w e1 (resolveParameters (fround w) (Parameters s) effInput (ctxObj e1) (eHeap e1))
       (\<lambda>params e2. runRetryCatch w name s effInput (invoke_task w s params) (\<lambda>_. 0) 0 e2))"

definition runPass :: "world \<Rightarrow> engine \<Rightarrow> state_fields \<Rightarrow> gval \<Rightarrow> transition \<times> engine" where
  "runPass w e s data =
     with_input w e s data (\<lambda>effInput e1.
       case sResult s of
         Some raw \<Rightarrow>
           (case unmarshal_any (fround w) raw of
              None \<Rightarrow> (failRuntime w BadPassResult, e1)
            | Some j \<Rightarrow> (let (v, h) = alloc j (eHeap e1) in shape w (e1\<lparr>eHeap := h\<rparr>) s effInput v))
       | None \<Rightarrow>
           with_path w e1 (resolveParameters (fround w) (Parameters s) effInput (ctxObj e1) (eHeap e1))
             (\<lambda>result e2. shape w e2 s effInput result))"

text \<open>\<^verbatim>\<open>time.Duration(n) * time.Second\<close> and the conversion of a \<^verbatim>\<open>float64\<close> to an \<^verbatim>\<open>int64\<close>, on amd64.\<close>

definition seconds :: "int \<Rightarrow> int" where
  "seconds n = wrap64 (n * 10 ^ 9)"

definition int64_of_float :: "rat \<Rightarrow> int" where
  "int64_of_float q =
     (let n = (if 0 \<le> q then \<lfloor>q\<rfloor> else \<lceil>q\<rceil>) in if - (2 ^ 63) \<le> n \<and> n < 2 ^ 63 then n else - (2 ^ 63))"

definition wait_until :: "world \<Rightarrow> engine \<Rightarrow> state_fields \<Rightarrow> gval \<Rightarrow> cause + int" where
  "wait_until w e s effInput =
     (case Seconds s of
        Some n \<Rightarrow> Inr (clock w 1 + seconds n)
      | None \<Rightarrow>
          if SecondsPath s \<noteq> [] then
            (case getPath (eHeap e) effInput (ctxObj e) (SecondsPath s) of
               Inr (Some v) \<Rightarrow>
                 (case toFloat v of
                    Some f \<Rightarrow> Inr (clock w 1 + seconds (int64_of_float f))
                  | None \<Rightarrow> Inl SecondsNotNumber)
             | _ \<Rightarrow> Inl (BadSecondsPath (SecondsPath s)))
          else if Timestamp s \<noteq> [] then
            (case tparse w (Timestamp s) of Some t \<Rightarrow> Inr t | None \<Rightarrow> Inl BadTimestamp)
          else if TimestampPath s \<noteq> [] then
            (case getPath (eHeap e) effInput (ctxObj e) (TimestampPath s) of
               Inr (Some v) \<Rightarrow>
                 (case tparse w (case as_string v of Some str \<Rightarrow> str | None \<Rightarrow> []) of
                    Some t \<Rightarrow> Inr t
                  | None \<Rightarrow> Inl TimestampNotString)
             | _ \<Rightarrow> Inl (BadTimestampPath (TimestampPath s)))
          else Inl NoWaitField)"

definition sleep_phase ::
  "world \<Rightarrow> engine \<Rightarrow> string \<Rightarrow> state_fields \<Rightarrow> gval \<Rightarrow> int \<Rightarrow> transition \<times> engine" where
  "sleep_phase w e name s effInput until =
     (if \<not> checkpointed w 1 then (failRuntime w CheckpointFailed, e)
      else
        let e1 = emit (Checkpoint name effInput (Some until)) e
        in if 0 < until - clock w 2 \<and> \<not> slept w 0 then (failRuntime w ControllerStopped, e1)
           else finish_state w e1 s effInput)"

definition runWait :: "world \<Rightarrow> engine \<Rightarrow> string \<Rightarrow> state_fields \<Rightarrow> gval \<Rightarrow> transition \<times> engine" where
  "runWait w e name s data =
     with_input w e s data (\<lambda>effInput e1.
       case resumeWait e1 of
         Some until \<Rightarrow> sleep_phase w (e1\<lparr>resumeWait := None\<rparr>) name s effInput until
       | None \<Rightarrow>
           (case wait_until w e1 s effInput of
              Inl c \<Rightarrow> (failRuntime w c, e1)
            | Inr until \<Rightarrow> sleep_phase w e1 name s effInput until))"

definition choice_env_of :: "world \<Rightarrow> engine \<Rightarrow> choice_env" where
  "choice_env_of w e =
     \<lparr>heap_of = eHeap e, ctx_of = ctxObj e, round64 = fround w, rfc3339 = tparse w\<rparr>"

text \<open>OutputPath, then a given state.\<close>

definition output_to :: "world \<Rightarrow> engine \<Rightarrow> state_fields \<Rightarrow> gval \<Rightarrow> string \<Rightarrow> transition \<times> engine" where
  "output_to w e s v target =
     with_path w e (applyOutputPath (eHeap e) v (ctxObj e) (orDefault (OutputPath s) ''$''))
       (\<lambda>out e'. (Goto target out, e'))"

fun choice_loop :: "world \<Rightarrow> engine \<Rightarrow> state_fields \<Rightarrow> gval \<Rightarrow> rule list \<Rightarrow> transition \<times> engine" where
  "choice_loop w e s effInput [] =
     (if Default s \<noteq> [] then output_to w e s effInput (Default s)
      else (Done (failed ''States.NoChoiceMatched'' (say w NoChoiceMatched)), e))"
| "choice_loop w e s effInput (rule # rules) =
     (case eval (choice_env_of w e) effInput rule of
        Inl err \<Rightarrow> (failRuntime w (AtPath err), e)
      | Inr match \<Rightarrow>
          if match then output_to w e s effInput (Choice.Next rule)
          else choice_loop w e s effInput rules)"

definition runChoice :: "world \<Rightarrow> engine \<Rightarrow> state_fields \<Rightarrow> gval \<Rightarrow> transition \<times> engine" where
  "runChoice w e s data =
     with_input w e s data (\<lambda>effInput e1. choice_loop w e1 s effInput (Choices s))"

definition runSucceed :: "world \<Rightarrow> engine \<Rightarrow> state_fields \<Rightarrow> gval \<Rightarrow> transition \<times> engine" where
  "runSucceed w e s data =
     with_input w e s data (\<lambda>effInput e1.
     with_path w e1 (applyOutputPath (eHeap e1) effInput (ctxObj e1) (orDefault (OutputPath s) ''$''))
       (\<lambda>out e2. (Done \<lparr>Phase = ''Succeeded'', Output = out, Error = [], Cause = []\<rparr>, e2)))"

subsection \<open>Parallel and Map\<close>

text \<open>\<^verbatim>\<open>copyCtx\<close>: a new map with the same entries.\<close>

definition copyCtx :: "heap \<Rightarrow> nat \<Rightarrow> nat \<times> heap" where
  "copyCtx h a = (length h, h @ [hget h a])"

definition outcome :: "Result \<Rightarrow> taskError + gval" where
  "outcome r =
     (if Phase r = ''Succeeded'' then Inr (Output r) else Inl \<lparr>teName = Error r, teCause = Cause r\<rparr>)"

text \<open>The first error by order, else the outputs.\<close>

definition collect :: "(taskError + gval) list \<Rightarrow> taskError + gval" where
  "collect rs = rbind (rmap (\<lambda>r. r) rs) (\<lambda>outs. Inr (VArr outs))"

fun branch_runs ::
  "world \<Rightarrow> nat \<Rightarrow> nat \<Rightarrow> Definition list \<Rightarrow> nat \<Rightarrow> gval \<Rightarrow> heap \<Rightarrow> (taskError + gval) list \<times> heap" where
  "branch_runs w n i [] ctx inp h = ([], h)"
| "branch_runs w n i (b # bs) ctx inp h =
     (let (c, h1) = copyCtx h ctx;
          (res, h2) = sub_run w n i b c inp h1;
          (rs, h3) = branch_runs w n (Suc i) bs ctx inp h2
      in (outcome res # rs, h3))"

definition runBranches ::
  "world \<Rightarrow> Definition list \<Rightarrow> gval \<Rightarrow> nat \<Rightarrow> engine \<Rightarrow> (taskError + gval) \<times> engine" where
  "runBranches w branches inp n e =
     (let (rs, h) = branch_runs w n 0 branches (ctxObj e) inp (eHeap e)
      in (collect rs, e\<lparr>eHeap := h\<rparr>))"

definition runParallel :: "world \<Rightarrow> engine \<Rightarrow> string \<Rightarrow> State \<Rightarrow> gval \<Rightarrow> transition \<times> engine" where
  "runParallel w e name s data =
     with_input w e (core s) data (\<lambda>effInput e1.
       if Branches s = [] then (failRuntime w NoBranchesToRun, e1)
       else runRetryCatch w name (core s) effInput (runBranches w (Branches s) effInput) (\<lambda>_. 0) 0 e1)"

text \<open>
  The number of items that run at once. It bounds the concurrency only: which of the possible
  schedules happens is the world's choice.
\<close>

definition concurrency :: "int \<Rightarrow> nat \<Rightarrow> int" where
  "concurrency mx n = (if mx \<le> 0 \<or> int n < mx then int n else mx)"

text \<open>The context of item \<open>i\<close>: a copy with \<^verbatim>\<open>$$.Map.Item\<close>.\<close>

definition item_ctx :: "heap \<Rightarrow> nat \<Rightarrow> nat \<Rightarrow> gval \<Rightarrow> nat \<times> heap" where
  "item_ctx h ctx i item =
     (let (c, h1) = copyCtx h ctx; a = length h1
      in (c, (h1 @ [[(''Index'', VNum (of_nat i)), (''Value'', item)], [(''Item'', VMap a)]])
               [c := put ''Map'' (VMap (Suc a)) (hget h1 c)]))"

fun item_runs ::
  "world \<Rightarrow> nat \<Rightarrow> nat \<Rightarrow> json option \<Rightarrow> Definition \<Rightarrow> gval list \<Rightarrow> nat \<Rightarrow> heap \<Rightarrow>
    (taskError + gval) list \<times> heap" where
  "item_runs w n i tmpl it [] ctx h = ([], h)"
| "item_runs w n i tmpl it (item # items) ctx h =
     (let (c, h1) = item_ctx h ctx i item;
          (r, h2) =
            (case resolveParameters (fround w) tmpl item c h1 of
               Inl err \<Rightarrow> (Inl \<lparr>teName = ErrRuntime, teCause = say w (AtPath err)\<rparr>, h1)
             | Inr (v, h') \<Rightarrow> (let (res, h'') = sub_run w n i it c v h' in (outcome res, h'')));
          (rs, h3) = item_runs w n (Suc i) tmpl it items ctx h2
      in (r # rs, h3))"

definition runMapItems ::
  "world \<Rightarrow> state_fields \<Rightarrow> Definition \<Rightarrow> gval list \<Rightarrow> nat \<Rightarrow> engine \<Rightarrow> (taskError + gval) \<times> engine" where
  "runMapItems w s it items n e =
     (if concurrency (MaxConcurrency s) (length items) = 0 then (Inr (VArr []), e)
      else
        let (rs, h) = item_runs w n 0 (itemTemplate s) it items (ctxObj e) (eHeap e)
        in (collect rs, e\<lparr>eHeap := h\<rparr>))"

definition runMap :: "world \<Rightarrow> engine \<Rightarrow> string \<Rightarrow> State \<Rightarrow> gval \<Rightarrow> transition \<times> engine" where
  "runMap w e name s data =
     with_input w e (core s) data (\<lambda>effInput e1.
       case iteratorDef s of
         None \<Rightarrow> (failRuntime w NoIteratorToRun, e1)
       | Some it \<Rightarrow>
           with_path w e1 (applyInputPath (eHeap e1) effInput (ctxObj e1) (orDefault (ItemsPath (core s)) ''$''))
             (\<lambda>itemsVal e2.
                case itemsVal of
                  VArr items \<Rightarrow>
                    runRetryCatch w name (core s) effInput (runMapItems w (core s) it items) (\<lambda>_. 0) 0 e2
                | _ \<Rightarrow> (failRuntime w (NotAnArray (orDefault (ItemsPath (core s)) ''$'')), e2)))"

subsection \<open>The loop\<close>

definition run_state :: "world \<Rightarrow> engine \<Rightarrow> string \<Rightarrow> State \<Rightarrow> gval \<Rightarrow> transition \<times> engine" where
  "run_state w e name s data =
     (let f = core s; t = sType f
      in if t = ''Task'' then runTask w e name f data
         else if t = ''Pass'' then runPass w e f data
         else if t = ''Wait'' then runWait w e name f data
         else if t = ''Choice'' then runChoice w e f data
         else if t = ''Succeed'' then runSucceed w e f data
         else if t = ''Fail'' then (Done (failed (sError f) (sCause f)), e)
         else if t = ''Parallel'' then runParallel w e name s data
         else if t = ''Map'' then runMap w e name s data
         else (failRuntime w (UnknownType t), e))"

text \<open>\<^verbatim>\<open>e.ctxObj["State"] = ...\<close>\<close>

definition enter_ctx :: "world \<Rightarrow> string \<Rightarrow> engine \<Rightarrow> engine" where
  "enter_ctx w name e =
     (let h = eHeap e; m = [(''Name'', VStr name), (''EnteredTime'', VStr (entered w))]
      in e\<lparr>eHeap := (h @ [m])[ctxObj e := put ''State'' (VMap (length h)) (hget h (ctxObj e))]\<rparr>)"

definition record_end :: "string \<Rightarrow> transition \<Rightarrow> engine \<Rightarrow> engine" where
  "record_end name tr e =
     (case tr of
        Goto _ _ \<Rightarrow> e
      | Done r \<Rightarrow> emit (if Phase r = ''Succeeded'' then ExecutionSucceeded else ExecutionFailed name (Error r)) e)"

definition turn :: "Definition \<Rightarrow> world \<Rightarrow> engine \<Rightarrow> string \<Rightarrow> gval \<Rightarrow> transition \<times> engine" where
  "turn d w e name data =
     (if cancelled w then (failRuntime w Cancelled, e)
      else case lookup (States d) name of
        None \<Rightarrow> (failRuntime w (NoSuchState name), e)
      | Some s \<Rightarrow>
          if 0 < TimeoutSeconds d \<and>
             seconds (TimeoutSeconds d) < min (clock w 0 - started e) (2 ^ 63 - 1) then
            (Done \<lparr>Phase = ''TimedOut'', Output = VNull, Error = ErrTimeout, Cause = say w Overrun\<rparr>, e)
          else
            let e1 = enter_ctx w name e
            in if \<not> checkpointed w 0 then (failRuntime w CheckpointFailed, e1)
               else
                 let e2 = emit (StateEntered name) (emit (Checkpoint name data None) e1);
                     (tr, e3) = run_state w e2 name s data
                 in (tr, record_end name tr e3))"

text \<open>Where an execution stands: about to enter a state with its data, or finished.\<close>

datatype config =
    Running string gval engine
  | Finished Result engine

definition step :: "Definition \<Rightarrow> config \<Rightarrow> world \<Rightarrow> config" where
  "step d c w =
     (case c of
        Finished r e \<Rightarrow> Finished r e
      | Running name data e \<Rightarrow>
          (case turn d w e name data of
             (Goto nxt data', e') \<Rightarrow> Running nxt data' e'
           | (Done r, e') \<Rightarrow> Finished r e'))"

definition Run :: "Definition \<Rightarrow> string \<Rightarrow> gval \<Rightarrow> int \<Rightarrow> engine \<Rightarrow> world list \<Rightarrow> config" where
  "Run d startState data now e ws = foldl (step d) (Running startState data (e\<lparr>started := now\<rparr>)) ws"

text \<open>Induction over the attempts of a state.\<close>

lemma retry_induct [case_names retry]:
  assumes "\<And>attempts n e.
    (\<And>terr e1 ri. work n e = (Inl terr, e1) \<Longrightarrow> retrier_for s attempts (teName terr) = Some ri \<Longrightarrow>
       P (attempts(ri := Suc (attempts ri))) (Suc n)
         (emit (StateRetry name (Suc (attempts ri))) (emit (StateFailed name (teName terr)) e1))) \<Longrightarrow>
    P attempts n e"
  shows "P attempts n e"
proof (induction "attempts_left s attempts" arbitrary: attempts n e rule: less_induct)
  case less
  show ?case by (rule assms) (rule less, rule attempts_left_decreases)
qed

subsection \<open>Where a state can lead\<close>

text \<open>
  A legal way out of a state: one of its transition targets, an empty one only where validation
  does not look, or the end of the execution, successful only at an end state.
\<close>

definition legal :: "state_fields \<Rightarrow> transition \<Rightarrow> bool" where
  "legal s tr =
     (case tr of
        Goto t _ \<Rightarrow> t \<in> set (targets s) \<and>
          (t \<noteq> [] \<or> t \<in> cNext ` set (Catch s) \<or> t \<in> Choice.Next ` set (Choices s))
      | Done r \<Rightarrow> Phase r = ''Failed'' \<or> Phase r = ''Succeeded'' \<and> (sEnd s \<or> sType s = ''Succeed''))"

named_theorems legality \<open>each step of the engine leaves a state legally\<close>

lemma legal_failed [legality]: "legal s (Done (failed err c))"
  by (simp add: legal_def failed_def)

lemma legal_failRuntime [legality]: "legal s (failRuntime w c)"
  by (simp add: failRuntime_def legal_failed)

lemma legal_advance [legality]: "legal s (advance w s out)"
  by (auto simp: advance_def legal_failRuntime) (auto simp: legal_def targets_def)

lemma legal_with_path [legality]:
  "(\<And>v e'. legal s (fst (k v e'))) \<Longrightarrow> legal s (fst (with_path w e r k))"
  by (auto simp: with_path_def legal_failRuntime split: sum.splits)

lemma legal_with_input [legality]:
  "(\<And>v e'. legal s (fst (k v e'))) \<Longrightarrow> legal s (fst (with_input w e s' data k))"
  by (simp add: with_input_def legal_with_path)

lemma legal_finish_state [legality]: "legal s (fst (finish_state w e s v))"
  by (simp add: finish_state_def legality)

lemma legal_shape [legality]: "legal s (fst (shape w e s inp result))"
  by (simp add: shape_def legality)

lemma legal_catch [legality]: "legal s (fst (catch w e name s inp terr))"
proof (cases "firstMatch (\<lambda>c. matchesError (cErrorEquals c) (teName terr)) (Catch s)")
  case (Some ci)
  then have "Catch s ! ci \<in> set (Catch s)" using firstMatch_Some by fastforce
  then have "legal s (Goto (cNext (Catch s ! ci)) cd)" for cd by (auto simp: legal_def targets_def)
  then show ?thesis using Some by (simp add: catch_def Let_def legal_with_path)
qed (simp add: catch_def legality)

lemma legal_runRetryCatch [legality]:
  "legal s (fst (runRetryCatch w name s inp work attempts n e))"
proof (induction attempts n e rule: retry_induct [where s = s and name = name and work = work])
  case (retry attempts n e)
  show ?case
    by (subst runRetryCatch.simps)
      (auto simp: Let_def legality retry split: prod.split sum.split option.split)
qed

lemma legal_choice_loop [legality]:
  "set rules \<subseteq> set (Choices s) \<Longrightarrow> legal s (fst (choice_loop w e s inp rules))"
proof (induction rules)
  case Nil
  then show ?case
    by (auto simp: legality output_to_def intro!: legal_with_path) (simp add: legal_def targets_def)
next
  case (Cons rule rules)
  then have "legal s (Goto (Choice.Next rule) v)" for v by (auto simp: legal_def targets_def)
  then show ?case
    using Cons by (auto simp: legality output_to_def split: sum.splits)
qed

lemma legal_runSucceed [legality]: "sType s = ''Succeed'' \<Longrightarrow> legal s (fst (runSucceed w e s data))"
  unfolding runSucceed_def by (intro legal_with_input legal_with_path) (simp add: legal_def)

lemma legal_run_state: "legal (core s) (fst (run_state w e name s data))"
  by (simp add: run_state_def Let_def runTask_def runPass_def runWait_def runChoice_def
      runParallel_def runMap_def sleep_phase_def legality
      split: option.splits sum.splits prod.splits gval.splits)

text \<open>What a turn does once it may run the state, and when it does.\<close>

definition entering :: "world \<Rightarrow> string \<Rightarrow> gval \<Rightarrow> engine \<Rightarrow> engine" where
  "entering w name data e = emit (StateEntered name) (emit (Checkpoint name data None) (enter_ctx w name e))"

lemma turn_cases:
  obtains (refused) r e' where "turn d w e name data = (Done r, e')"
      "Phase r = ''Failed'' \<or> Phase r = ''TimedOut''" "Output r = VNull"
      "e' = e \<or> e' = enter_ctx w name e"
  | (ran) s tr e' where "lookup (States d) name = Some s"
      "run_state w (entering w name data e) name s data = (tr, e')"
      "turn d w e name data = (tr, record_end name tr e')"
proof -
  have "(\<exists>r e'. turn d w e name data = (Done r, e') \<and> (Phase r = ''Failed'' \<or> Phase r = ''TimedOut'') \<and>
      Output r = VNull \<and> (e' = e \<or> e' = enter_ctx w name e)) \<or>
    (\<exists>s tr e'. lookup (States d) name = Some s \<and> run_state w (entering w name data e) name s data = (tr, e') \<and>
      turn d w e name data = (tr, record_end name tr e'))"
    by (cases "lookup (States d) name")
      (auto simp: turn_def Let_def failRuntime_def failed_def entering_def split: prod.split)
  then show thesis using that by blast
qed

lemma turn_legal:
  assumes "turn d w e name data = (Goto t data', e')"
  shows "\<exists>s. lookup (States d) name = Some s \<and> legal (core s) (Goto t data')"
proof (cases rule: turn_cases [of d w e name data])
  case (ran s tr e1)
  then show ?thesis using assms legal_run_state [of s w "entering w name data e" name data] by simp
qed (use assms in simp)

text \<open>No catcher and no choice rule lacks its \<^verbatim>\<open>Next\<close>.\<close>

definition all_named :: "Definition \<Rightarrow> bool" where
  "all_named d \<longleftrightarrow> (\<forall>(name, s) \<in> set (States d).
     [] \<notin> cNext ` set (Catch (core s)) \<and> [] \<notin> Choice.Next ` set (Choices (core s)))"

definition stays_defined :: "Definition \<Rightarrow> config \<Rightarrow> bool" where
  "stays_defined d c \<longleftrightarrow>
     (resolves d \<and> all_named d \<longrightarrow>
        (case c of Running name _ _ \<Rightarrow> lookup (States d) name \<noteq> None | Finished _ _ \<Rightarrow> True))"

lemma step_stays_defined: "stays_defined d c \<Longrightarrow> stays_defined d (step d c w)"
proof (cases c)
  case (Running name data e)
  show ?thesis
  proof (cases "turn d w e name data")
    case (Pair tr e')
    then show ?thesis
    proof (cases tr)
      case (Goto t data')
      then obtain s where s: "(name, s) \<in> set (States d)" "legal (core s) (Goto t data')"
        using turn_legal Pair lookup_in_set by metis
      have "lookup (States d) t \<noteq> None" if "resolves d" "all_named d"
        using s that by (fastforce simp: legal_def resolves_def all_named_def)
      then show ?thesis using Running Pair Goto by (simp add: step_def stays_defined_def)
    qed (simp add: Running step_def stays_defined_def)
  qed
qed (simp add: step_def)

interpretation execution: machine "Running (StartAt d) data e" "step d" "stays_defined d" for d data e
  by unfold_locales (auto simp: stays_defined_def [of _ "Running _ _ _"] resolves_def step_stays_defined)

subsection \<open>References stay valid\<close>

definition ok :: "engine \<Rightarrow> bool" where
  "ok e \<longleftrightarrow> wf_heap (eHeap e) \<and> ctxObj e < length (eHeap e)"

abbreviation lives :: "engine \<Rightarrow> gval \<Rightarrow> bool" where
  "lives e v \<equiv> wf_val (length (eHeap e)) v"

text \<open>\<open>e'\<close> comes after \<open>e\<close>: it is sound and what lived in \<open>e\<close> lives on.\<close>

definition after :: "engine \<Rightarrow> engine \<Rightarrow> bool" where
  "after e e' \<longleftrightarrow> ok e' \<and> length (eHeap e) \<le> length (eHeap e') \<and> ctxObj e' = ctxObj e"

lemma after_lives: "after e e' \<Longrightarrow> lives e v \<Longrightarrow> lives e' v"
  by (auto simp: after_def intro: wf_val_mono)

lemma after_refl: "ok e \<Longrightarrow> after e e"
  by (simp add: after_def)

lemma after_trans [trans]: "after a b \<Longrightarrow> after b c \<Longrightarrow> after a c"
  by (auto simp: after_def)

lemma after_ok: "after e e' \<Longrightarrow> ok e'"
  by (simp add: after_def)

lemma emit_fields [simp]:
  "eHeap (emit ev e) = eHeap e" "ctxObj (emit ev e) = ctxObj e" "resumeWait (emit ev e) = resumeWait e"
  "events (emit ev e) = events e @ [ev]"
  by (simp_all add: emit_def)

lemma after_emit [simp]: "after e (emit ev e') = after e e'" "after (emit ev e) e' = after e e'" "ok (emit ev e) = ok e"
  by (simp_all add: after_def ok_def)

lemma after_heap:
  "ok e \<Longrightarrow> wf_heap h \<Longrightarrow> length (eHeap e) \<le> length h \<Longrightarrow> after e (e\<lparr>eHeap := h\<rparr>)"
  by (auto simp: after_def ok_def)

text \<open>A transition and the engine after it.\<close>

definition sound :: "engine \<Rightarrow> transition \<times> engine \<Rightarrow> bool" where
  "sound e = (\<lambda>(tr, e'). after e e' \<and> (case tr of Goto _ v \<Rightarrow> lives e' v | Done r \<Rightarrow> lives e' (Output r)))"

named_theorems soundness \<open>each step of the engine keeps references valid\<close>

lemma sound_after: "after e e1 \<Longrightarrow> sound e1 x \<Longrightarrow> sound e x"
  by (auto simp: sound_def intro: after_trans)

lemma sound_emit [simp]: "sound (emit ev e) x = sound e x"
  by (simp add: sound_def)

lemma sound_failRuntime: "after e e' \<Longrightarrow> sound e (failRuntime w c, e')"
  by (simp add: sound_def failRuntime_def failed_def)

lemma sound_failed: "after e e' \<Longrightarrow> sound e (Done (failed a b), e')"
  by (simp add: sound_def failed_def)

lemma sound_advance: "after e e' \<Longrightarrow> lives e' v \<Longrightarrow> sound e (advance w s v, e')"
  by (simp add: sound_def advance_def failRuntime_def failed_def)

lemma sound_with_path:
  assumes "ok e" "\<And>v h. r = Inr (v, h) \<Longrightarrow> wf_heap h \<and> length (eHeap e) \<le> length h \<and> wf_val (length h) v"
    and "\<And>v e'. after e e' \<Longrightarrow> lives e' v \<Longrightarrow> sound e' (k v e')"
  shows "sound e (with_path w e r k)"
proof (cases r)
  case (Inr p)
  obtain v h where p: "p = (v, h)" by fastforce
  then have "after e (e\<lparr>eHeap := h\<rparr>)" "lives (e\<lparr>eHeap := h\<rparr>) v"
    using assms(1,2) Inr by (auto intro: after_heap)
  then show ?thesis using assms(3) Inr p sound_after by (fastforce simp: with_path_def)
qed (simp add: with_path_def sound_failRuntime after_refl assms(1))

lemma keeps_grows: "keeps h h' v \<Longrightarrow> wf_heap h' \<and> length h \<le> length h' \<and> wf_val (length h') v"
  by (auto simp: keeps_def dest: extends_length)

lemma sound_with_input:
  assumes "ok e" "lives e data" "\<And>v e'. after e e' \<Longrightarrow> lives e' v \<Longrightarrow> sound e' (k v e')"
  shows "sound e (with_input w e s data k)"
  unfolding with_input_def using assms
  by (intro sound_with_path) (auto simp: ok_def dest!: applyInputPath_keeps keeps_grows)

lemma sound_output:
  assumes "ok e" "lives e v" "\<And>v e'. after e e' \<Longrightarrow> lives e' v \<Longrightarrow> sound e' (k v e')"
  shows "sound e (with_path w e (applyOutputPath (eHeap e) v (ctxObj e) p) k)"
  using assms by (intro sound_with_path) (auto simp: ok_def dest!: applyOutputPath_keeps keeps_grows)

lemma sound_finish_state: "ok e \<Longrightarrow> lives e v \<Longrightarrow> sound e (finish_state w e s v)"
  unfolding finish_state_def by (intro sound_output sound_advance) (auto intro: after_refl after_ok)

lemma sound_shape: "ok e \<Longrightarrow> lives e inp \<Longrightarrow> lives e result \<Longrightarrow> sound e (shape w e s inp result)"
  unfolding shape_def
proof (intro sound_with_path)
  fix v h
  assume "ok e" "lives e inp" "lives e result"
    and "applyResultPath (eHeap e) inp result (orDefault (ResultPath s) ''$'') = Inr (v, h)"
  then show "wf_heap h \<and> length (eHeap e) \<le> length h \<and> wf_val (length h) v"
    using applyResultPath_wf by (auto simp: ok_def)
qed (auto intro: sound_finish_state after_ok)

lemma sound_catch: "ok e \<Longrightarrow> lives e inp \<Longrightarrow> sound e (catch w e name s inp terr)"
proof (cases "firstMatch (\<lambda>c. matchesError (cErrorEquals c) (teName terr)) (Catch s)")
  case None
  then show "ok e \<Longrightarrow> ?thesis" by (simp add: catch_def sound_def after_refl failed_def)
next
  case (Some ci)
  assume e: "ok e" "lives e inp"
  let ?h = "eHeap e @ [[(''Error'', VStr (teName terr)), (''Cause'', VStr (teCause terr))]]"
  have h: "wf_heap ?h" "wf_val (length ?h) inp" "wf_val (length ?h) (VMap (length (eHeap e)))"
    using e by (auto simp: ok_def wf_map_def intro: wf_heap_alloc wf_val_mono)
  have k: "sound e' (Goto t v, emit ev e')" if "after e e'" "lives e' v" for t v e' ev
    using that by (simp add: sound_def after_refl after_ok)
  show ?thesis
    unfolding catch_def using Some e applyResultPath_wf [OF _ h]
    by (auto simp: Let_def intro!: sound_with_path k dest: Suc_leD)
qed

text \<open>A unit of work: it keeps the engine sound and its result lives.\<close>

definition sound_work :: "(nat \<Rightarrow> engine \<Rightarrow> (taskError + gval) \<times> engine) \<Rightarrow> engine \<Rightarrow> bool" where
  "sound_work work e0 \<longleftrightarrow> (\<forall>n e. after e0 e \<longrightarrow> (case work n e of (r, e') \<Rightarrow> after e e' \<and> (\<forall>v. r = Inr v \<longrightarrow> lives e' v)))"

lemma sound_runRetryCatch:
  assumes "sound_work work e0" "lives e0 inp"
  shows "after e0 e \<Longrightarrow> sound e (runRetryCatch w name s inp work attempts n e)"
proof (induction attempts n e rule: retry_induct [where s = s and name = name and work = work])
  case (retry attempts n e)
  obtain r e1 where r: "work n e = (r, e1)" by fastforce
  then have e1: "after e e1" "after e0 e1" "\<And>v. r = Inr v \<Longrightarrow> lives e1 v"
    using assms(1) [unfolded sound_work_def, rule_format, of e n] retry(2) after_trans by auto
  have inp: "lives e1 inp" using after_lives [OF e1(2) assms(2)] .
  show ?case
  proof (cases r)
    case (Inl terr)
    have "sound e1 (runRetryCatch w name s inp work (attempts(ri := Suc (attempts ri))) (Suc n)
        (emit (StateRetry name (Suc (attempts ri))) (emit (StateFailed name (teName terr)) e1)))"
      if "retrier_for s attempts (teName terr) = Some ri" for ri
      using retry(1) [OF r [unfolded Inl] that] e1(2) sound_after
      by (metis after_emit after_refl after_ok)
    then show ?thesis
      using r Inl e1 inp sound_catch [of "emit (StateFailed name (teName terr)) e1" inp w name s terr]
      by (subst runRetryCatch.simps)
        (auto simp: Let_def after_ok sound_failRuntime split: option.split intro: sound_after)
  next
    case (Inr v)
    then show ?thesis
      using r e1 inp sound_shape [of e1 inp v w s]
      by (subst runRetryCatch.simps) (auto simp: after_ok intro: sound_after)
  qed
qed

text \<open>
  What the engine relies on in its sub-executions: they return valid references. This is what the
  theorem on \<open>turn\<close> below shows of every execution.
\<close>

definition sound_world :: "world \<Rightarrow> bool" where
  "sound_world w \<longleftrightarrow> (\<forall>n i b c v h. wf_heap h \<longrightarrow> c < length h \<longrightarrow> wf_val (length h) v \<longrightarrow>
     (case sub_run w n i b c v h of (r, h') \<Rightarrow>
        wf_heap h' \<and> length h \<le> length h' \<and> wf_val (length h') (Output r)))"

lemma sound_worldE:
  assumes "sound_world w" "wf_heap h" "c < length h" "wf_val (length h) v" "sub_run w n i b c v h = (r, h')"
  shows "wf_heap h'" "length h \<le> length h'" "wf_val (length h') (Output r)"
  using assms unfolding sound_world_def by (metis (mono_tags, lifting) case_prod_conv)+

lemma alloc_grows:
  "wf_heap h \<Longrightarrow> alloc j h = (v, h') \<Longrightarrow>
     wf_heap h' \<and> length h \<le> length h' \<and> wf_val (length h') v \<and> (\<forall>c < length h. c < length h')"
  using alloc_wf(1) [of h j] extends_length [OF alloc_extends(1) [of h j]] by simp

lemma sound_invoke_task: "sound_work (invoke_task w s params) e0"
  unfolding sound_work_def
proof (intro allI impI)
  fix n e assume "after e0 e"
  then have "ok e" by (rule after_ok)
  then show "case invoke_task w s params n e of (r, e') \<Rightarrow> after e e' \<and> (\<forall>v. r = Inr v \<longrightarrow> lives e' v)"
    using alloc_grows [of "eHeap e"]
    by (auto simp: invoke_task_def Let_def ok_def after_def split: sum.split prod.split)
qed

lemma copyCtx_wf: "wf_heap h \<Longrightarrow> copyCtx h c = (c', h') \<Longrightarrow> wf_heap h' \<and> c' < length h' \<and> length h \<le> length h'"
  by (auto simp: copyCtx_def intro!: wf_heap_alloc wf_map_Suc wf_heap_hget)

lemma outcome_wf: "outcome r = Inr v \<Longrightarrow> v = Output r"
  by (simp add: outcome_def split: if_splits)

lemma collect_iff:
  "collect rs = Inr v \<longleftrightarrow> (\<exists>outs. rs = map Inr outs \<and> v = VArr outs)"
proof -
  have "rmap (\<lambda>r. r) rs = Inr outs \<longleftrightarrow> rs = map Inr outs" for outs
    by (induction rs arbitrary: outs) (auto simp: Cons_eq_map_conv)
  then show ?thesis by (auto simp: collect_def)
qed

definition live_results :: "heap \<Rightarrow> (taskError + gval) list \<Rightarrow> bool" where
  "live_results h rs \<longleftrightarrow> (\<forall>v. Inr v \<in> set rs \<longrightarrow> wf_val (length h) v)"

lemma collect_live: "live_results h rs \<Longrightarrow> collect rs = Inr v \<Longrightarrow> wf_val (length h) v"
  by (auto simp: collect_iff live_results_def)

lemma branch_runs_wf:
  assumes "sound_world w"
  shows "branch_runs w n i bs c inp h = (rs, h') \<Longrightarrow> wf_heap h \<Longrightarrow> c < length h \<Longrightarrow> wf_val (length h) inp \<Longrightarrow>
    wf_heap h' \<and> length h \<le> length h' \<and> live_results h' rs"
proof (induction bs arbitrary: i h rs h')
  case (Cons b bs)
  obtain c1 h1 where 1: "copyCtx h c = (c1, h1)" by fastforce
  obtain res h2 where 2: "sub_run w n i b c1 inp h1 = (res, h2)" by fastforce
  obtain rs3 h3 where 3: "branch_runs w n (Suc i) bs c inp h2 = (rs3, h3)" by fastforce
  have h1: "wf_heap h1" "c1 < length h1" "length h \<le> length h1" using copyCtx_wf [OF Cons(3) 1] by auto
  have inp: "wf_val (length h1) inp" using Cons(5) h1(3) by (rule wf_val_mono)
  note h2 = sound_worldE [OF assms h1(1,2) inp 2]
  have h3: "wf_heap h3 \<and> length h2 \<le> length h3 \<and> live_results h3 rs3"
    using Cons(4) h1 h2 inp by (intro Cons(1) [OF 3]) (auto intro: wf_val_mono)
  then have "wf_val (length h3) (Output res)" using h2(3) wf_val_mono by blast
  then show ?case
    using Cons(2) 1 2 3 h1 h2 h3 by (auto simp: live_results_def dest: outcome_wf [OF sym])
qed (auto simp: live_results_def)

lemma sound_runBranches:
  assumes "sound_world w" "lives e0 inp"
  shows "sound_work (runBranches w bs inp) e0"
  unfolding sound_work_def
proof (intro allI impI)
  fix n e assume e: "after e0 e"
  obtain rs h where rs: "branch_runs w n 0 bs (ctxObj e) inp (eHeap e) = (rs, h)" by fastforce
  have "wf_heap h \<and> length (eHeap e) \<le> length h \<and> live_results h rs"
    using after_ok [OF e] after_lives [OF e assms(2)]
    by (intro branch_runs_wf [OF assms(1) rs]) (auto simp: ok_def)
  then show "case runBranches w bs inp n e of (r, e') \<Rightarrow> after e e' \<and> (\<forall>v. r = Inr v \<longrightarrow> lives e' v)"
    using rs after_ok [OF e] by (auto simp: runBranches_def intro: after_heap collect_live)
qed

lemma item_ctx_wf:
  assumes "wf_heap h" "wf_val (length h) item" "item_ctx h c i item = (c', h')"
  shows "wf_heap h' \<and> c' < length h' \<and> length h \<le> length h'"
proof -
  let ?h1 = "h @ [hget h c]"
  let ?h2 = "(?h1 @ [[(''Index'', VNum (of_nat i)), (''Value'', item)]]) @ [[(''Item'', VMap (length ?h1))]]"
  have "wf_heap ?h1" using copyCtx_wf [OF assms(1), of c] by (simp add: copyCtx_def)
  then have "wf_heap (?h1 @ [[(''Index'', VNum (of_nat i)), (''Value'', item)]])"
    by (rule wf_heap_alloc) (use assms(2) in \<open>auto simp: wf_map_def intro: wf_val_mono\<close>)
  then have "wf_heap ?h2" by (rule wf_heap_alloc) (simp add: wf_map_def)
  then have "wf_heap (?h2[length h := put ''Map'' (VMap (Suc (length ?h1))) (hget ?h1 (length h))])"
    using wf_heap_hget [OF assms(1), of c] by (intro wf_heap_update wf_map_put) (auto intro: wf_map_mono)
  then show ?thesis using assms(3) by (auto simp: item_ctx_def copyCtx_def)
qed

lemma item_runs_wf:
  assumes "sound_world w"
  shows "item_runs w n i tmpl it items c h = (rs, h') \<Longrightarrow> wf_heap h \<Longrightarrow> c < length h \<Longrightarrow>
    (\<forall>v \<in> set items. wf_val (length h) v) \<Longrightarrow> wf_heap h' \<and> length h \<le> length h' \<and> live_results h' rs"
proof (induction items arbitrary: i h rs h')
  case (Cons item items)
  obtain c1 h1 where 1: "item_ctx h c i item = (c1, h1)" by fastforce
  have h1: "wf_heap h1" "c1 < length h1" "length h \<le> length h1" "wf_val (length h1) item"
    using item_ctx_wf [OF Cons(3) _ 1] Cons(5) by (auto intro: wf_val_mono)
  let ?one = "case resolveParameters (fround w) tmpl item c1 h1 of
      Inl err \<Rightarrow> (Inl \<lparr>teName = ErrRuntime, teCause = say w (AtPath err)\<rparr>, h1)
    | Inr (v, h') \<Rightarrow> (let (res, h'') = sub_run w n i it c1 v h' in (outcome res, h''))"
  obtain r h2 where 2: "?one = (r, h2)" by fastforce
  have h2: "wf_heap h2 \<and> length h1 \<le> length h2 \<and> (\<forall>v. r = Inr v \<longrightarrow> wf_val (length h2) v)"
  proof (cases "resolveParameters (fround w) tmpl item c1 h1")
    case (Inr p)
    obtain v h'' where p: "p = (v, h'')" by fastforce
    have "keeps h1 h'' v"
      using Inr p h1 resolve_keeps(1) [of _ item c1 h1 v h'']
      by (auto simp: resolveParameters_def keeps_def split: option.splits)
    then have k: "wf_heap h''" "length h1 \<le> length h''" "wf_val (length h'') v" using keeps_grows by auto
    obtain res h3 where sr: "sub_run w n i it c1 v h'' = (res, h3)" by fastforce
    have "r = outcome res" "h2 = h3" using 2 Inr p sr by simp_all
    moreover have "c1 < length h''" using h1(2) k(2) by simp
    ultimately show ?thesis
      using sound_worldE [OF assms k(1) _ k(3) sr] k(2) outcome_wf [of res] by auto
  qed (use 2 h1 in auto)
  obtain rs3 h3 where 3: "item_runs w n (Suc i) tmpl it items c h2 = (rs3, h3)" by fastforce
  have h3: "wf_heap h3 \<and> length h2 \<le> length h3 \<and> live_results h3 rs3"
    using Cons(4,5) h1 h2 by (intro Cons(1) [OF 3]) (auto intro: wf_val_mono)
  have "rs = r # rs3" "h' = h3" using Cons(2) 1 2 3 by simp_all
  then show ?case using h1 h2 h3 by (auto simp: live_results_def intro: wf_val_mono)
qed (auto simp: live_results_def)

lemma sound_runMapItems:
  assumes "sound_world w" "lives e0 (VArr items)"
  shows "sound_work (runMapItems w s it items) e0"
  unfolding sound_work_def
proof (intro allI impI)
  fix n e assume e: "after e0 e"
  obtain rs h where rs: "item_runs w n 0 (itemTemplate s) it items (ctxObj e) (eHeap e) = (rs, h)" by fastforce
  have "wf_heap h \<and> length (eHeap e) \<le> length h \<and> live_results h rs"
    using after_ok [OF e] after_lives [OF e assms(2)]
    by (intro item_runs_wf [OF assms(1) rs]) (auto simp: ok_def)
  then show "case runMapItems w s it items n e of (r, e') \<Rightarrow> after e e' \<and> (\<forall>v. r = Inr v \<longrightarrow> lives e' v)"
    using rs after_ok [OF e] after_refl by (auto simp: runMapItems_def intro: after_heap collect_live)
qed

lemma sound_parameters:
  assumes "ok e" "lives e inp" "\<And>v e'. after e e' \<Longrightarrow> lives e' v \<Longrightarrow> sound e' (k v e')"
  shows "sound e (with_path w e (resolveParameters r64 raw inp (ctxObj e) (eHeap e)) k)"
proof (rule sound_with_path [OF assms(1) _ assms(3)])
  fix v h assume "resolveParameters r64 raw inp (ctxObj e) (eHeap e) = Inr (v, h)"
  then have "keeps (eHeap e) h v"
    using assms(1,2) resolve_keeps(1) by (auto simp: resolveParameters_def ok_def keeps_def split: option.splits)
  then show "wf_heap h \<and> length (eHeap e) \<le> length h \<and> wf_val (length h) v" by (rule keeps_grows)
qed

lemma sound_start_retry:
  "sound_work work e \<Longrightarrow> ok e \<Longrightarrow> lives e inp \<Longrightarrow> sound e (runRetryCatch w name s inp work a n e)"
  using sound_runRetryCatch after_refl by blast

lemma sound_runTask: "ok e \<Longrightarrow> lives e data \<Longrightarrow> sound e (runTask w e name s data)"
  unfolding runTask_def
  by (intro sound_with_input sound_parameters sound_start_retry sound_invoke_task)
    (auto intro: after_ok after_lives)

lemma sound_runPass: "ok e \<Longrightarrow> lives e data \<Longrightarrow> sound e (runPass w e s data)"
  unfolding runPass_def
proof (intro sound_with_input)
  fix inp e1 assume e1: "after e e1" "lives e1 inp"
  have "sound e1 (let (v, h) = alloc j (eHeap e1) in shape w (e1\<lparr>eHeap := h\<rparr>) s inp v)" for j
  proof (cases "alloc j (eHeap e1)")
    case (Pair v h)
    then have "wf_heap h" "length (eHeap e1) \<le> length h" "wf_val (length h) v"
      using alloc_grows [OF _ Pair] after_ok [OF e1(1)] by (auto simp: ok_def)
    then have e2: "after e1 (e1\<lparr>eHeap := h\<rparr>)" "lives (e1\<lparr>eHeap := h\<rparr>) v"
      using after_heap [OF after_ok [OF e1(1)]] by auto
    have "sound (e1\<lparr>eHeap := h\<rparr>) (shape w (e1\<lparr>eHeap := h\<rparr>) s inp v)"
      using e2 after_ok [OF e2(1)] after_lives [OF e2(1) e1(2)] by (intro sound_shape)
    then show ?thesis using Pair sound_after [OF e2(1)] by simp
  qed
  then show "sound e1 (case sResult s of
      Some raw \<Rightarrow> (case unmarshal_any (fround w) raw of
          None \<Rightarrow> (failRuntime w BadPassResult, e1)
        | Some j \<Rightarrow> let (v, h) = alloc j (eHeap e1) in shape w (e1\<lparr>eHeap := h\<rparr>) s inp v)
    | None \<Rightarrow> with_path w e1 (resolveParameters (fround w) (Parameters s) inp (ctxObj e1) (eHeap e1))
        (\<lambda>result e2. shape w e2 s inp result))"
    using e1 after_ok [OF e1(1)]
    by (auto intro!: sound_parameters sound_failRuntime sound_shape intro: after_refl after_ok after_lives
        split: option.split)
qed

lemma sound_sleep_phase: "ok e \<Longrightarrow> lives e inp \<Longrightarrow> sound e (sleep_phase w e name s inp until)"
  using sound_finish_state [of "emit (Checkpoint name inp (Some until)) e" inp w s]
  by (auto simp: sleep_phase_def Let_def sound_failRuntime after_refl)

lemma sound_runWait: "ok e \<Longrightarrow> lives e data \<Longrightarrow> sound e (runWait w e name s data)"
  unfolding runWait_def
proof (intro sound_with_input)
  fix inp e1 assume e1: "after e e1" "lives e1 inp"
  have "after e1 (e1\<lparr>resumeWait := None\<rparr>)" using after_ok [OF e1(1)] by (simp add: after_def ok_def)
  then have "sound e1 (sleep_phase w (e1\<lparr>resumeWait := None\<rparr>) name s inp until)" for until
    using sound_after sound_sleep_phase e1(2) after_ok after_lives by blast
  then show "sound e1 (case resumeWait e1 of
      Some until \<Rightarrow> sleep_phase w (e1\<lparr>resumeWait := None\<rparr>) name s inp until
    | None \<Rightarrow> (case wait_until w e1 s inp of
        Inl c \<Rightarrow> (failRuntime w c, e1)
      | Inr until \<Rightarrow> sleep_phase w e1 name s inp until))"
    using e1 after_ok [OF e1(1)]
    by (auto intro!: sound_failRuntime sound_sleep_phase intro: after_refl split: option.split sum.split)
qed

lemma sound_output_to: "ok e \<Longrightarrow> lives e v \<Longrightarrow> sound e (output_to w e s v t)"
  unfolding output_to_def by (intro sound_output) (auto simp: sound_def intro: after_refl after_ok)

lemma sound_choice_loop: "ok e \<Longrightarrow> lives e inp \<Longrightarrow> sound e (choice_loop w e s inp rules)"
  by (induction rules)
    (auto intro!: sound_output_to sound_failRuntime sound_failed intro: after_refl split: sum.split)

lemma sound_run_state:
  assumes "sound_world w" "ok e" "lives e data"
  shows "sound e (run_state w e name s data)"
proof -
  have "sound e (runChoice w e (core s) data)"
    unfolding runChoice_def using assms(2,3)
    by (intro sound_with_input sound_choice_loop) (auto intro: after_ok)
  moreover have "sound e (runSucceed w e (core s) data)"
    unfolding runSucceed_def using assms(2,3)
    by (intro sound_with_input sound_output) (auto simp: sound_def intro: after_refl after_ok)
  moreover have "sound e (runParallel w e name s data)"
    unfolding runParallel_def using assms
    by (intro sound_with_input)
      (auto intro!: sound_start_retry sound_runBranches sound_failRuntime intro: after_refl after_ok)
  moreover have "sound e (runMap w e name s data)"
    unfolding runMap_def using assms(2,3)
  proof (intro sound_with_input)
    fix inp e1 assume e1: "after e e1" "lives e1 inp"
    have "sound e1 (with_path w e1 (applyInputPath (eHeap e1) inp (ctxObj e1) p)
        (\<lambda>itemsVal e2. case itemsVal of
            VArr items \<Rightarrow> runRetryCatch w name (core s) inp (runMapItems w (core s) it items) (\<lambda>_. 0) 0 e2
          | _ \<Rightarrow> (failRuntime w (NotAnArray p), e2)))" for it p
    proof (rule sound_with_path)
      fix v h assume "applyInputPath (eHeap e1) inp (ctxObj e1) p = Inr (v, h)"
      then show "wf_heap h \<and> length (eHeap e1) \<le> length h \<and> wf_val (length h) v"
        using applyInputPath_keeps keeps_grows e1 after_ok by (metis ok_def)
    next
      fix v e2 assume e2: "after e1 e2" "lives e2 v"
      then show "sound e2 (case v of
            VArr items \<Rightarrow> runRetryCatch w name (core s) inp (runMapItems w (core s) it items) (\<lambda>_. 0) 0 e2
          | _ \<Rightarrow> (failRuntime w (NotAnArray p), e2))"
        using sound_start_retry [OF sound_runMapItems [OF assms(1)] after_ok after_lives [OF e2(1) e1(2)]]
        by (cases v) (auto intro: sound_failRuntime after_refl after_ok)
    qed (rule after_ok [OF e1(1)])
    then show "sound e1 (case iteratorDef s of
        None \<Rightarrow> (failRuntime w NoIteratorToRun, e1)
      | Some it \<Rightarrow> with_path w e1 (applyInputPath (eHeap e1) inp (ctxObj e1) (orDefault (ItemsPath (core s)) ''$''))
          (\<lambda>itemsVal e2. case itemsVal of
              VArr items \<Rightarrow> runRetryCatch w name (core s) inp (runMapItems w (core s) it items) (\<lambda>_. 0) 0 e2
            | _ \<Rightarrow> (failRuntime w (NotAnArray (orDefault (ItemsPath (core s)) ''$'')), e2)))"
      using e1 by (auto intro!: sound_failRuntime intro: after_refl after_ok split: option.split)
  qed
  moreover have "sound e (failRuntime w c, e)" "sound e (Done (failed a b), e)" for c a b
    using assms(2) by (simp_all add: sound_failRuntime sound_failed after_refl)
  ultimately show ?thesis
    using sound_runTask sound_runPass sound_runWait assms(2,3) by (simp add: run_state_def Let_def)
qed

lemma enter_ctx_after:
  assumes "ok e"
  shows "after e (enter_ctx w name e)"
proof -
  let ?h = "eHeap e"
  let ?h1 = "?h @ [[(''Name'', VStr name), (''EnteredTime'', VStr (entered w))]]"
  have "wf_heap ?h1" using assms by (intro wf_heap_alloc) (auto simp: ok_def wf_map_def)
  moreover have "wf_map (length ?h1) (put ''State'' (VMap (length ?h)) (hget ?h (ctxObj e)))"
    using assms wf_map_Suc [OF wf_heap_hget, of ?h "ctxObj e"] by (intro wf_map_put) (auto simp: ok_def)
  ultimately show ?thesis
    using assms unfolding enter_ctx_def Let_def by (intro after_heap wf_heap_update) auto
qed

lemma sound_record_end: "sound e (tr, e') \<Longrightarrow> sound e (tr, record_end name tr e')"
  by (cases tr) (auto simp: sound_def record_end_def)

lemma sound_turn:
  assumes "sound_world w" "ok e" "lives e data"
  shows "sound e (turn d w e name data)"
proof (cases rule: turn_cases [of d w e name data])
  case (refused r e')
  then show ?thesis using assms(2) enter_ctx_after after_refl by (auto simp: sound_def)
next
  case (ran s tr e')
  have a: "after e (entering w name data e)" using enter_ctx_after [OF assms(2)] by (simp add: entering_def)
  then have "sound (entering w name data e) (tr, e')"
    using sound_run_state [OF assms(1) after_ok [OF a] after_lives [OF a assms(3)]] ran(2) by metis
  then show ?thesis using ran(3) sound_record_end sound_after [OF a] by simp
qed

definition sound_config :: "config \<Rightarrow> bool" where
  "sound_config c = (case c of Running _ v e \<Rightarrow> ok e \<and> lives e v | Finished r e \<Rightarrow> ok e \<and> lives e (Output r))"

lemma sound_step:
  assumes "sound_world w" "sound_config c"
  shows "sound_config (step d c w)"
proof (cases c)
  case (Running name data e)
  then have "sound e (turn d w e name data)" using assms sound_turn by (simp add: sound_config_def)
  then show ?thesis
    using Running by (auto simp: sound_config_def step_def sound_def after_def split: prod.splits transition.splits)
qed (use assms in \<open>simp add: step_def\<close>)

subsection \<open>Attempts\<close>

definition invocations :: "engine \<Rightarrow> nat" where
  "invocations e = length (filter (\<lambda>ev. case ev of Invoked _ _ \<Rightarrow> True | _ \<Rightarrow> False) (events e))"

lemma invocations_emit [simp]:
  "invocations (emit ev e) = invocations e + (case ev of Invoked _ _ \<Rightarrow> 1 | _ \<Rightarrow> 0)"
  by (cases ev) (simp_all add: invocations_def)

lemma invocations_heap [simp]: "invocations (e\<lparr>eHeap := h\<rparr>) = invocations e"
  "invocations (e\<lparr>resumeWait := r\<rparr>) = invocations e"
  by (simp_all add: invocations_def)

lemma with_path_invocations:
  "(\<And>v e'. invocations (snd (k v e')) \<le> invocations e' + n) \<Longrightarrow>
     invocations (snd (with_path w e r k)) \<le> invocations e + n"
  unfolding with_path_def by (auto split: sum.splits) (metis invocations_heap(1))

lemma with_input_invocations:
  "(\<And>v e'. invocations (snd (k v e')) \<le> invocations e' + n) \<Longrightarrow>
     invocations (snd (with_input w e s data k)) \<le> invocations e + n"
  unfolding with_input_def by (rule with_path_invocations)

lemma finish_invocations [simp]: "invocations (snd (finish_state w e s v)) \<le> invocations e"
  using with_path_invocations [of _ 0] by (simp add: finish_state_def)

lemma shape_invocations [simp]: "invocations (snd (shape w e s inp v)) \<le> invocations e"
  using with_path_invocations [of _ 0] by (simp add: shape_def)

lemma catch_invocations [simp]: "invocations (snd (catch w e name s inp terr)) \<le> invocations e"
  using with_path_invocations [of _ 0]
  by (auto simp: catch_def Let_def split: option.split)

lemma retry_invocations:
  assumes "\<And>n e. invocations (snd (work n e)) \<le> invocations e + k"
  shows "invocations (snd (runRetryCatch w name s inp work attempts n e))
    \<le> invocations e + k * Suc (attempts_left s attempts)"
proof (induction attempts n e rule: retry_induct [where s = s and name = name and work = work])
  case (retry attempts n e)
  obtain r e1 where r: "work n e = (r, e1)" by fastforce
  then have e1: "invocations e1 \<le> invocations e + k" using assms [of n e] by simp
  have "invocations (snd (runRetryCatch w name s inp work (attempts(ri := Suc (attempts ri))) (Suc n)
      (emit (StateRetry name (Suc (attempts ri))) (emit (StateFailed name (teName terr)) e1))))
    \<le> invocations e + k * Suc (attempts_left s attempts)"
    if "r = Inl terr" "retrier_for s attempts (teName terr) = Some ri" for terr ri
  proof -
    have "k * Suc (attempts_left s (attempts(ri := Suc (attempts ri)))) \<le> k * attempts_left s attempts"
      using attempts_left_decreases [OF that(2)] by (intro mult_le_mono2) simp
    then show ?thesis using retry [OF r [unfolded that(1)] that(2)] e1 by (simp del: fun_upd_apply)
  qed
  moreover have "invocations (snd (shape w e1 s inp v)) \<le> invocations e + k * Suc (attempts_left s attempts)" for v
    by (rule order_trans [OF shape_invocations]) (use e1 in simp)
  moreover have "invocations (snd (catch w (emit (StateFailed name (teName terr)) e1) name s inp terr))
      \<le> invocations e + k * Suc (attempts_left s attempts)" for terr
    by (rule order_trans [OF catch_invocations]) (use e1 in simp)
  ultimately show ?case
    using r e1 by (subst runRetryCatch.simps) (auto simp: Let_def split: sum.split option.split)
qed

lemma attempts_left_0: "attempts_left s (\<lambda>_. 0) = (\<Sum>r \<leftarrow> Retry s. nat (maxAttempts r))"
  by (simp add: attempts_left_def sum_list_sum_nth atLeast0LessThan)

lemma runTask_invocations:
  "invocations (snd (runTask w e name s data)) \<le> invocations e + Suc (\<Sum>r \<leftarrow> Retry s. nat (maxAttempts r))"
  unfolding runTask_def
proof (intro with_input_invocations with_path_invocations)
  fix inp params e'
  have "invocations (snd (invoke_task w s params n e)) \<le> invocations e + 1" for n e
    by (simp add: invoke_task_def Let_def split: sum.split prod.split)
  from retry_invocations [OF this, where attempts = "\<lambda>_. 0" and n = 0 and e = e' and inp = inp and name = name and w = w and s = s]
  show "invocations (snd (runRetryCatch w name s inp (invoke_task w s params) (\<lambda>_. 0) 0 e'))
      \<le> invocations e' + Suc (\<Sum>r \<leftarrow> Retry s. nat (maxAttempts r))"
    by (simp add: attempts_left_0)
qed

lemma work_without_invocations:
  "invocations (snd (runBranches w bs inp n e)) \<le> invocations e + 0"
  "invocations (snd (runMapItems w s it items n e)) \<le> invocations e + 0"
  by (simp_all add: runBranches_def runMapItems_def Let_def split: prod.split)

lemma quiet_with_input:
  "(\<And>v e'. invocations (snd (k v e')) \<le> invocations e') \<Longrightarrow> invocations (snd (with_input w e s data k)) \<le> invocations e"
  using with_input_invocations [of k 0] by simp

lemma quiet_with_path:
  "(\<And>v e'. invocations (snd (k v e')) \<le> invocations e') \<Longrightarrow> invocations (snd (with_path w e r k)) \<le> invocations e"
  using with_path_invocations [of k 0] by simp

lemma quiet_retry:
  "(\<And>n e. invocations (snd (work n e)) \<le> invocations e + 0) \<Longrightarrow>
     invocations (snd (runRetryCatch w name s inp work a n e)) \<le> invocations e"
  using retry_invocations [of work 0] by simp

lemma quiet_output_to: "invocations (snd (output_to w e s v t)) \<le> invocations e"
  unfolding output_to_def by (rule quiet_with_path) simp

lemma quiet_choice_loop: "invocations (snd (choice_loop w e s inp rules)) \<le> invocations e"
  by (induction rules) (auto simp: quiet_output_to split: sum.split)

lemma quiet_sleep_phase: "invocations (snd (sleep_phase w e name s inp until)) \<le> invocations e"
  by (auto simp: sleep_phase_def Let_def intro: order_trans [OF finish_invocations])

lemma quiet_runWait: "invocations (snd (runWait w e name s data)) \<le> invocations e"
  unfolding runWait_def
proof (rule quiet_with_input)
  fix inp e1
  show "invocations (snd (case resumeWait e1 of
      None \<Rightarrow> case wait_until w e1 s inp of
          Inl c \<Rightarrow> (failRuntime w c, e1)
        | Inr until \<Rightarrow> sleep_phase w e1 name s inp until
    | Some until \<Rightarrow> sleep_phase w (e1\<lparr>resumeWait := None\<rparr>) name s inp until)) \<le> invocations e1"
    using quiet_sleep_phase [of w e1 name s inp] quiet_sleep_phase [of w "e1\<lparr>resumeWait := None\<rparr>" name s inp]
    by (auto split: option.split sum.split)
qed

lemma quiet_runPass: "invocations (snd (runPass w e s data)) \<le> invocations e"
  unfolding runPass_def
proof (rule quiet_with_input)
  fix inp e1
  have "invocations (snd (shape w (e1\<lparr>eHeap := h\<rparr>) s inp v)) \<le> invocations e1" for h v
    by (rule order_trans [OF shape_invocations]) simp
  then show "invocations (snd (case sResult s of
      None \<Rightarrow> with_path w e1 (resolveParameters (fround w) (Parameters s) inp (ctxObj e1) (eHeap e1))
        (\<lambda>result e2. shape w e2 s inp result)
    | Some raw \<Rightarrow> case unmarshal_any (fround w) raw of
        None \<Rightarrow> (failRuntime w BadPassResult, e1)
      | Some j \<Rightarrow> let (v, h) = alloc j (eHeap e1) in shape w (e1\<lparr>eHeap := h\<rparr>) s inp v)) \<le> invocations e1"
    by (auto simp: Let_def quiet_with_path split: option.split prod.split)
qed

lemma quiet_others:
  "invocations (snd (runChoice w e s data)) \<le> invocations e"
  "invocations (snd (runSucceed w e s data)) \<le> invocations e"
  "invocations (snd (runParallel w e name st data)) \<le> invocations e"
  unfolding runChoice_def runSucceed_def runParallel_def
  by (rule quiet_with_input,
      auto simp: quiet_choice_loop quiet_retry [OF work_without_invocations(1)] intro!: quiet_with_path)+

lemma quiet_runMap: "invocations (snd (runMap w e name s data)) \<le> invocations e"
  unfolding runMap_def
  by (rule quiet_with_input)
    (auto simp: quiet_retry [OF work_without_invocations(2)] intro!: quiet_with_path split: option.split gval.split)

lemma run_state_invocations:
  "invocations (snd (run_state w e name s data)) \<le> invocations e + Suc (\<Sum>r \<leftarrow> Retry (core s). nat (maxAttempts r))"
  using runTask_invocations [of w e name "core s" data] quiet_runMap [of w e name s data]
    quiet_others(1,2) [of w e "core s" data] quiet_others(3) [of w e name s data]
    quiet_runPass [of w e "core s" data] quiet_runWait [of w e name "core s" data]
  by (simp add: run_state_def Let_def trans_le_add1)

subsection \<open>What every operation of the engine preserves\<close>

text \<open>
  A relation between engines that recording an event, changing the heap and consuming the resume
  time respect is respected by a whole state.
\<close>

locale engine_history =
  fixes R :: "engine \<Rightarrow> engine \<Rightarrow> bool"
  assumes R_refl: "R e e"
    and R_trans: "R a b \<Longrightarrow> R b c \<Longrightarrow> R a c"
    and R_emit: "R e (emit ev e)"
    and R_heap: "R e (e\<lparr>eHeap := h\<rparr>)"
    and R_resume: "R e (e\<lparr>resumeWait := r\<rparr>)"
begin

lemma R_with_path: "(\<And>v e'. R e' (snd (k v e'))) \<Longrightarrow> R e (snd (with_path w e r k))"
  unfolding with_path_def by (auto simp: R_refl split: sum.split intro: R_trans [OF R_heap])

lemma R_with_input: "(\<And>v e'. R e' (snd (k v e'))) \<Longrightarrow> R e (snd (with_input w e s data k))"
  unfolding with_input_def by (rule R_with_path)

lemma R_finish_state: "R e (snd (finish_state w e s v))"
  unfolding finish_state_def by (rule R_with_path) (simp add: R_refl)

lemma R_shape: "R e (snd (shape w e s inp v))"
  unfolding shape_def by (rule R_with_path) (rule R_finish_state)

lemma R_catch: "R e (snd (catch w e name s inp terr))"
  by (auto simp: catch_def Let_def R_refl R_emit split: option.split intro!: R_with_path)

lemma R_retry:
  assumes "\<And>n e. R e (snd (work n e))"
  shows "R e (snd (runRetryCatch w name s inp work attempts n e))"
proof (induction attempts n e rule: retry_induct [where s = s and name = name and work = work])
  case (retry attempts n e)
  obtain r e1 where r: "work n e = (r, e1)" by fastforce
  then have "R e e1" using assms [of e n] by simp
  then have *: "R e (emit ev e1)" "R e (emit ev' (emit ev e1))" for ev ev'
    using R_emit R_trans by blast+
  show ?case
    using r *(1) R_trans [OF \<open>R e e1\<close> R_shape] R_trans [OF *(1) R_catch] R_trans [OF *(2) retry]
    by (subst runRetryCatch.simps) (auto simp: Let_def * split: sum.split option.split simp del: fun_upd_apply)
qed

lemma R_invoke_task: "R e (snd (invoke_task w s params n e))"
  by (auto simp: invoke_task_def Let_def R_emit split: sum.split prod.split intro: R_trans [OF R_emit R_heap])

lemma R_sleep_phase: "R e (snd (sleep_phase w e name s inp until))"
  by (auto simp: sleep_phase_def Let_def R_refl R_emit intro: R_trans [OF R_emit R_finish_state])

lemma R_output_to: "R e (snd (output_to w e s v t))"
  unfolding output_to_def by (rule R_with_path) (simp add: R_refl)

lemma R_choice_loop: "R e (snd (choice_loop w e s inp rules))"
  by (induction rules) (auto simp: R_output_to R_refl split: sum.split)

lemma R_states:
  "R e (snd (runTask w e name s data))" "R e (snd (runPass w e s data))" "R e (snd (runWait w e name s data))"
  "R e (snd (runChoice w e s data))" "R e (snd (runSucceed w e s data))"
  unfolding runTask_def runPass_def runWait_def runChoice_def runSucceed_def
  by (rule R_with_input,
      auto simp: R_refl R_shape R_sleep_phase R_choice_loop R_retry R_invoke_task Let_def
        intro!: R_with_path intro: R_trans [OF R_heap R_shape] R_trans [OF R_resume R_sleep_phase]
        split: option.split sum.split prod.split)+

lemma R_work: "R e (snd (runBranches w bs inp n e))" "R e (snd (runMapItems w s it items n e))"
  by (simp_all add: runBranches_def runMapItems_def Let_def R_heap R_refl split: prod.split)

lemma R_run_state: "R e (snd (run_state w e name s data))"
proof -
  have "R e (snd (runParallel w e name s data))"
    unfolding runParallel_def by (rule R_with_input) (simp add: R_refl R_retry R_work)
  moreover have "R e (snd (runMap w e name s data))"
    unfolding runMap_def
    by (rule R_with_input) (auto simp: R_refl R_retry R_work intro!: R_with_path split: option.split gval.split)
  ultimately show ?thesis by (simp add: run_state_def Let_def R_states R_refl)
qed

end

interpretation logging: engine_history "\<lambda>e e'. \<exists>more. events e' = events e @ more"
  by unfold_locales (auto simp: emit_def)

interpretation identity: engine_history "\<lambda>e e'. ctxObj e' = ctxObj e \<and> started e' = started e"
  by unfold_locales (auto simp: emit_def)

subsection \<open>Properties\<close>

text \<open>A state with everything absent, and a world in which all goes well.\<close>

definition blank :: state_fields where
  "blank = \<lparr>sType = [], sNext = [], sEnd = False, InputPath = absent, OutputPath = absent,
     ResultPath = absent, Parameters = None, Resource = [], sTimeoutSeconds = 0, Retry = [], Catch = [],
     sResult = None, Seconds = None, SecondsPath = [], Timestamp = [], TimestampPath = [], Choices = [],
     Default = [], sError = [], sCause = [], ItemsPath = absent, MaxConcurrency = 0, ItemSelector = None\<rparr>"

definition calm :: world where
  "calm = \<lparr>say = (\<lambda>_. []), fround = Some, tparse = Map.empty, cancelled = False, clock = (\<lambda>_. 0),
     entered = [], checkpointed = (\<lambda>_. True), slept = (\<lambda>_. True), invoke = (\<lambda>_ _ _ _ _. Inr JNull),
     sub_run = (\<lambda>_ _ _ _ v h. (\<lparr>Phase = ''Succeeded'', Output = v, Error = [], Cause = []\<rparr>, h))\<rparr>"

definition fresh_engine :: engine where
  "fresh_engine = \<lparr>eHeap = [[], []], ctxObj = 0, resumeWait = None, started = 0, events = []\<rparr>"

definition ping_pong :: Definition where
  "ping_pong = Definition ''A'' 0
     [(''A'', State (blank\<lparr>sType := ''Pass'', sNext := ''B''\<rparr>) [] None None),
      (''B'', State (blank\<lparr>sType := ''Pass'', sNext := ''A''\<rparr>) [] None None)]"

lemma ping_pong_valid: "validateDefinition ping_pong = None" "all_named ping_pong"
  by (simp_all add: ping_pong_def validateDefinition.simps check_def targets_def blank_def all_named_def)

lemma sound_Run:
  assumes "\<forall>w \<in> set ws. sound_world w" "ok e" "lives e data"
  shows "sound_config (Run d start data now e ws)"
proof -
  have "sound_config c \<Longrightarrow> sound_config (foldl (step d) c ws)" for c
    using assms(1) by (induction ws arbitrary: c) (simp_all add: sound_step)
  then show ?thesis
    using assms(2,3) by (simp add: Run_def sound_config_def ok_def)
qed

lemma Run_stays_defined: "stays_defined d (Run d (StartAt d) data now e ws)"
  unfolding Run_def by (rule execution.inv_run)

text \<open>
  An execution of a validated definition whose catchers and choice rules all name their
  \<^verbatim>\<open>Next\<close> never stands before an undefined state, whatever the world answers.
\<close>

theorem validated_execution_never_dangles:
  assumes "validateDefinition d = None" "all_named d"
    and "Run d (StartAt d) data now e ws = Running name data' e'"
  shows "lookup (States d) name \<noteq> None"
proof -
  show ?thesis
    using assms Run_stays_defined [of d data now e ws] validated_resolves [OF assms(1)]
    by (simp add: stays_defined_def)
qed

theorem validated_execution_never_dangles_witness:
  "lookup (States ping_pong) ''B'' \<noteq> None"
proof -
  have "Run ping_pong (StartAt ping_pong) (VMap 1) 0 fresh_engine [calm] =
      Running ''B'' (VMap 1) (snd (turn ping_pong calm fresh_engine ''A'' (VMap 1)))"
    by (simp add: Run_def step_def turn_def ping_pong_def fresh_engine_def calm_def enter_ctx_def Let_def
        run_state_def runPass_def with_input_def with_path_def applyInputPath_def orDefault_def absent_def
        blank_def resolveParameters_def shape_def applyResultPath_def finish_state_def applyOutputPath_def
        advance_def record_end_def emit_def)
  then show ?thesis by (rule validated_execution_never_dangles [OF ping_pong_valid])
qed

text \<open>
  Validation skips empty targets, although its comment promises that a dangling transition fails
  at creation: a choice rule without \<^verbatim>\<open>Next\<close> is accepted and sends the execution to the state
  with the empty name.
\<close>

definition nameless :: Definition where
  "nameless = Definition ''A'' 0
     [(''A'', State (blank\<lparr>sType := ''Choice'',
        Choices := [[(''Variable'', JStr ''$''), (''IsPresent'', JBool True)]]\<rparr>) [] None None)]"

theorem nameless_choice_accepted:
  "validateDefinition nameless = None \<and>
   (\<exists>e. Run nameless ''A'' (VMap 1) 0 fresh_engine [calm] = Running [] (VMap 1) e) \<and>
   (\<exists>e. Run nameless ''A'' (VMap 1) 0 fresh_engine [calm, calm] =
      Finished (failed ErrRuntime (say calm (NoSuchState []))) e)"
  by (simp add: nameless_def validateDefinition.simps check_def targets_def blank_def Choice.Next_def field_def
      Run_def step_def turn_def fresh_engine_def calm_def enter_ctx_def Let_def
      run_state_def runChoice_def with_input_def with_path_def applyInputPath_def orDefault_def absent_def
      output_to_def applyOutputPath_def eval.simps data_test_def variable_def operator_def applyOp_def
      getPath_def record_end_def emit_def failRuntime_def)



text \<open>
  C27. However often its Task fails, a state invokes it at most once and once more per attempt its
  retriers allow; the loop of retries always ends.
\<close>

theorem task_attempts_bounded:
  assumes "lookup (States d) name = Some s"
  shows "invocations (snd (turn d w e name data)) \<le>
    invocations e + 1 + (\<Sum>r \<leftarrow> Retry (core s). nat (maxAttempts r))"
proof -
  have en: "invocations (enter_ctx w name e) = invocations e"
    by (simp add: enter_ctx_def Let_def)
  show ?thesis
  proof (cases rule: turn_cases [of d w e name data])
    case (refused r e')
    then show ?thesis using en by auto
  next
    case (ran s' tr e')
    have "invocations (record_end name tr e') = invocations e'"
      by (cases tr) (simp_all add: record_end_def)
    then show ?thesis
      using ran assms en run_state_invocations [of w "entering w name data e" name s data]
      by (simp add: entering_def)
  qed
qed

theorem task_attempts_bounded_witness:
  "invocations (snd (turn ping_pong calm fresh_engine ''A'' (VMap 1))) \<le> 1"
  using task_attempts_bounded [of ping_pong "''A''" "State (blank\<lparr>sType := ''Pass'', sNext := ''B''\<rparr>) [] None None"
    calm fresh_engine "VMap 1"]
  by (simp add: ping_pong_def blank_def fresh_engine_def invocations_def)

text \<open>What is logged when a Task fails \<open>m\<close> times and once more.\<close>

definition retry_log :: "string \<Rightarrow> string \<Rightarrow> gval \<Rightarrow> string \<Rightarrow> nat \<Rightarrow> nat \<Rightarrow> event list" where
  "retry_log name resource params err k m =
     concat (map (\<lambda>i. [Invoked resource params, StateFailed name err, StateRetry name (Suc i)]) [k..<m]) @
     [Invoked resource params, StateFailed name err]"

lemma retry_log_step:
  "k < m \<Longrightarrow> retry_log name res params err k m =
     [Invoked res params, StateFailed name err, StateRetry name (Suc k)] @ retry_log name res params err (Suc k) m"
  by (simp add: retry_log_def upt_conv_Cons)

lemma emit_append: "emit ev e = e\<lparr>events := events e @ [ev]\<rparr>"
  by (simp add: emit_def)

lemma persistent_error:
  assumes "\<And>n h. invoke w n (Resource s) params (sTimeoutSeconds s) h = Inl terr" "\<And>n. slept w n"
    and "firstMatch (\<lambda>r. matchesError (rErrorEquals r) (teName terr)) (Retry s) = Some ri"
    and "m = nat (maxAttempts (Retry s ! ri))"
  shows "attempts ri \<le> m \<Longrightarrow> runRetryCatch w name s inp (invoke_task w s params) attempts n e =
    catch w (e\<lparr>events := events e @ retry_log name (Resource s) params (teName terr) (attempts ri) m\<rparr>)
      name s inp terr"
proof (induction "m - attempts ri" arbitrary: attempts n e)
  case 0
  then have "retrier_for s attempts (teName terr) = None"
    using assms(3,4) by (auto simp: retrier_for_def)
  then show ?case
    using 0 assms(1) by (subst runRetryCatch.simps) (simp add: invoke_task_def emit_append retry_log_def)
next
  case (Suc k)
  then have r: "retrier_for s attempts (teName terr) = Some ri"
    using assms(3,4) by (auto simp: retrier_for_def)
  let ?a = "attempts(ri := Suc (attempts ri))"
  have "k = m - ?a ri" "?a ri \<le> m" using Suc(2) by auto
  note ih = Suc(1) [of ?a, OF this, unfolded fun_upd_same]
  show ?case
    using Suc(2) r assms(1,2)
    by (subst runRetryCatch.simps) (simp add: invoke_task_def ih emit_append retry_log_step del: fun_upd_apply)
qed

text \<open>
  C26. A Task that keeps failing with an error its first matching retrier names is invoked once and
  once more per attempt of that retrier, each retry recorded with its number; then the error goes
  to the catchers.
\<close>

theorem persistent_error_is_retried_then_caught:
  assumes "\<forall>n h. invoke w n (Resource s) params (sTimeoutSeconds s) h = Inl terr" "\<forall>n. slept w n"
    and "firstMatch (\<lambda>r. matchesError (rErrorEquals r) (teName terr)) (Retry s) = Some ri"
  shows "runRetryCatch w name s inp (invoke_task w s params) (\<lambda>_. 0) 0 e =
    catch w (e\<lparr>events := events e @
        retry_log name (Resource s) params (teName terr) 0 (nat (maxAttempts (Retry s ! ri)))\<rparr>)
      name s inp terr"
  by (rule persistent_error [OF _ _ assms(3) refl, of w params "\<lambda>_. 0", simplified]) (use assms(1,2) in auto)

definition flaky :: state_fields where
  "flaky = blank\<lparr>sType := ''Task'', Resource := ''function:f'', sEnd := True,
     Retry := [\<lparr>rErrorEquals = [ErrTaskFailed], IntervalSeconds = 1, MaxAttempts = Some 2,
       BackoffRate = Fin 2, MaxDelaySeconds = 0\<rparr>],
     Catch := [\<lparr>cErrorEquals = [ErrAll], cNext = ''Rescue'', cResultPath = absent\<rparr>]\<rparr>"

definition stormy :: world where
  "stormy = calm\<lparr>invoke := (\<lambda>_ _ _ _ _. Inl \<lparr>teName = ErrTaskFailed, teCause = ''boom''\<rparr>)\<rparr>"

theorem persistent_error_is_retried_then_caught_witness:
  "\<exists>e'. runRetryCatch stormy ''T'' flaky (VMap 1) (invoke_task stormy flaky VNull) (\<lambda>_. 0) 0 fresh_engine =
     (Goto ''Rescue'' (VMap 2), e') \<and> invocations e' = 3"
proof -
  have "runRetryCatch stormy ''T'' flaky (VMap 1) (invoke_task stormy flaky VNull) (\<lambda>_. 0) 0 fresh_engine =
    catch stormy (fresh_engine\<lparr>events := events fresh_engine @
        retry_log ''T'' (Resource flaky) VNull (teName \<lparr>teName = ErrTaskFailed, teCause = ''boom''\<rparr>)
          0 (nat (maxAttempts (Retry flaky ! 0)))\<rparr>)
      ''T'' flaky (VMap 1) \<lparr>teName = ErrTaskFailed, teCause = ''boom''\<rparr>"
    by (rule persistent_error_is_retried_then_caught)
      (simp_all add: stormy_def calm_def flaky_def blank_def matchesError_def)
  then show ?thesis
    by (simp add: catch_def flaky_def blank_def matchesError_def with_path_def applyResultPath_def
        orDefault_def absent_def fresh_engine_def retry_log_def maxAttempts_def upt_conv_Cons
        invocations_def emit_def)
qed

text \<open>
  A Parallel or Map state collects the outputs in the order of its branches or items, and fails
  exactly when one of them failed, with the error of the first that did.
\<close>

theorem collect_in_order:
  "(collect rs = Inr v \<longleftrightarrow> (\<exists>outs. rs = map Inr outs \<and> v = VArr outs)) \<and>
   (collect rs = Inl terr \<longleftrightarrow> (\<exists>outs rest. rs = map Inr outs @ Inl terr # rest))"
proof -
  have "rmap (\<lambda>r. r) rs = Inl terr \<longleftrightarrow> (\<exists>outs rest. rs = map Inr outs @ Inl terr # rest)"
  proof (induction rs)
    case (Cons r rs)
    show ?case
    proof (cases r)
      case (Inl t)
      then show ?thesis by (auto simp: Cons_eq_append_conv)
    next
      case (Inr u)
      have "(\<exists>outs rest. r # rs = map Inr outs @ Inl terr # rest) \<longleftrightarrow>
          (\<exists>outs rest. rs = map Inr outs @ Inl terr # rest)"
      proof
        assume "\<exists>outs rest. rs = map Inr outs @ Inl terr # rest"
        then obtain outs rest where "rs = map Inr outs @ Inl terr # rest" by blast
        then have "r # rs = map Inr (u # outs) @ Inl terr # rest" using Inr by simp
        then show "\<exists>outs rest. r # rs = map Inr outs @ Inl terr # rest" by blast
      qed (use Inr in \<open>auto simp: Cons_eq_append_conv Cons_eq_map_conv\<close>)
      then show ?thesis using Inr Cons by (simp add: rbind_eq_Inl)
    qed
  qed simp
  moreover have "collect rs = Inl terr \<longleftrightarrow> rmap (\<lambda>r. r) rs = Inl terr"
    by (simp add: collect_def rbind_eq_Inl)
  ultimately show ?thesis by (simp add: collect_iff)
qed

text \<open>
  Nothing of a state runs before its checkpoint: whatever a turn records or invokes comes after a
  checkpoint of the state with the data it enters with, so that a restart can repeat the state.
\<close>

theorem state_is_checkpointed_first:
  "\<exists>more. events (snd (turn d w e name data)) = events e @ more \<and>
     (more = [] \<or> (\<exists>rest. more = Checkpoint name data None # StateEntered name # rest))"
proof (cases rule: turn_cases [of d w e name data])
  case (refused r e')
  then show ?thesis by (auto simp: enter_ctx_def Let_def)
next
  case (ran s tr e')
  then obtain rest where "events e' = events (entering w name data e) @ rest"
    using logging.R_run_state [of w "entering w name data e" name s data] by auto
  moreover have "\<exists>ends. events (record_end name tr e') = events e' @ ends"
    by (cases tr) (simp_all add: record_end_def)
  ultimately show ?thesis
    using ran(3) by (auto simp: entering_def enter_ctx_def Let_def)
qed

text \<open>
  A Wait state checkpoints its input after InputPath. An execution resumed from that checkpoint
  applies InputPath again, and fails where the first time it had waited.
\<close>

theorem resumed_wait_fails:
  fixes e defines "e \<equiv> \<lparr>eHeap = [[], [(''a'', VMap 2)], []], ctxObj = 0, resumeWait = Some 9, started = 0, events = []\<rparr>"
  defines "s \<equiv> blank\<lparr>sType := ''Wait'', sEnd := True, Seconds := Some 5,
    InputPath := \<lparr>pSet = True, pNull = False, pValue = ''$.a''\<rparr>\<rparr>"
  shows "fst (runWait calm (e\<lparr>resumeWait := None\<rparr>) ''W'' s (VMap 1)) =
      Done \<lparr>Phase = ''Succeeded'', Output = VMap 2, Error = [], Cause = []\<rparr> \<and>
    Checkpoint ''W'' (VMap 2) (Some 5000000000) \<in> set (events (snd (runWait calm (e\<lparr>resumeWait := None\<rparr>) ''W'' s (VMap 1)))) \<and>
    fst (runWait calm e ''W'' s (VMap 2)) = failRuntime calm (AtPath (InputNoMatch ''$.a''))"
  by (simp add: e_def s_def runWait_def with_input_def with_path_def applyInputPath_def orDefault_def
      blank_def absent_def getPath_def has_prefix_def tokenizePath_def flush_def hget_def wait_until_def
      seconds_def wrap64_def sleep_phase_def calm_def finish_state_def applyOutputPath_def advance_def emit_def)

end
