(* ===== verification/TaskHttp.thy ===== *)
theory TaskHttp
  imports Engine
begin

text \<open>
  Invoking the Functions of Task states: \<^verbatim>\<open>statemachine/task.go\<close>, and the helpers of
  \<^verbatim>\<open>statemachine/util.go\<close>.

  The network is the parameter \<open>net\<close>: from the request to a reply. \<open>marshal\<close> is
  \<^verbatim>\<open>json.Marshal\<close> (None for a value that cannot be marshalled), \<open>decode\<close> is \<^verbatim>\<open>json.Unmarshal\<close> of a
  text. Response headers are the function \<^verbatim>\<open>Header.Get\<close>. Texts of causes are rendered by
  \<open>tell\<close>, one constructor per text.
\<close>

record taskCreds =
  AccessKeyID :: string
  SecretKey :: string
  SessionToken :: string

record httpInvoker =
  hNamespace :: string
  hCreds :: "taskCreds option"

datatype invoke_cause =
    EmptyFunctionName
  | UnsupportedResource string
  | NotSerializable
  | BadRequest string
  | ExceededTimeout int
  | TransportFailed string
  | HttpStatus int string

record request =
  rqURL :: string
  rqHeaders :: "string strmap"
  rqBody :: string

datatype reply =
    Unsendable string
  | NoResponse bool string
  | Response int "string \<Rightarrow> string" string

record net_env =
  tell :: "invoke_cause \<Rightarrow> string"
  marshal :: "heap \<Rightarrow> gval \<Rightarrow> string option"
  decode :: "string \<Rightarrow> json option"
  net :: "request \<Rightarrow> reply"

definition newHTTPInvoker :: "string \<Rightarrow> taskCreds option \<Rightarrow> httpInvoker" where
  "newHTTPInvoker ns creds = \<lparr>hNamespace = ns, hCreds = creds\<rparr>"

definition resolveURL :: "net_env \<Rightarrow> httpInvoker \<Rightarrow> string \<Rightarrow> taskError + string \<times> bool" where
  "resolveURL N iv resource =
     (if has_prefix resource ''function:'' then
        let name = trim_prefix resource ''function:''
        in if name = [] then Inl \<lparr>teName = ErrRuntime, teCause = tell N EmptyFunctionName\<rparr>
           else Inr (''http://'' @ name @ ''.'' @ hNamespace iv @ ''.svc.cluster.local/'', True)
      else if has_prefix resource ''http://'' \<or> has_prefix resource ''https://'' then Inr (resource, False)
      else Inl \<lparr>teName = ErrRuntime, teCause = tell N (UnsupportedResource resource)\<rparr>)"

definition truncate :: "string \<Rightarrow> nat \<Rightarrow> string" where
  "truncate s n = (if length s \<le> n then s else take n s @ [CHR 0xE2, CHR 0x80, CHR 0xA6])"

text \<open>\<^verbatim>\<open>m[k].(string)\<close>, the first of several keys that has a non-empty one.\<close>

fun first_text :: "json strmap \<Rightarrow> string list \<Rightarrow> string" where
  "first_text m [] = []"
| "first_text m (k # ks) =
     (if str_or_empty (field m k) \<noteq> [] then str_or_empty (field m k) else first_text m ks)"

definition errorFromBody :: "net_env \<Rightarrow> string \<Rightarrow> string \<times> string \<times> bool" where
  "errorFromBody N b =
     (case decode N b of
        Some (JObj m) \<Rightarrow>
          let name = first_text m [''error'', ''Error'']; cause = first_text m [''cause'', ''Cause'']
          in (name, cause, name \<noteq> [] \<or> cause \<noteq> [])
      | _ \<Rightarrow> ([], [], False))"

text \<open>The request of a Task, with the credentials of the execution's role.\<close>

definition creds_headers :: "httpInvoker \<Rightarrow> string strmap" where
  "creds_headers iv =
     (case hCreds iv of
        Some c \<Rightarrow>
          if AccessKeyID c \<noteq> [] then
            [(''X-Openinfra-Task-Access-Key-Id'', AccessKeyID c),
             (''X-Openinfra-Task-Secret-Access-Key'', SecretKey c),
             (''X-Openinfra-Task-Session-Token'', SessionToken c)]
          else []
      | None \<Rightarrow> [])"

definition task_request :: "httpInvoker \<Rightarrow> string \<Rightarrow> bool \<Rightarrow> string \<Rightarrow> request" where
  "task_request iv url isFunction body =
     \<lparr>rqURL = url,
      rqHeaders =
        [(''Content-Type'', ''application/json'')] @
        (if isFunction then [(''X-Openinfra-Invoke'', ''direct'')] else []) @ creds_headers iv,
      rqBody = body\<rparr>"

text \<open>A thrown handler error, and a response that is not 2xx.\<close>

definition function_error :: "net_env \<Rightarrow> string \<Rightarrow> taskError" where
  "function_error N body =
     (let (name, cause, _) = errorFromBody N body
      in \<lparr>teName = (if name = [] then ErrTaskFailed else name),
          teCause = (if cause = [] then truncate body 512 else cause)\<rparr>)"

definition status_error :: "net_env \<Rightarrow> int \<Rightarrow> (string \<Rightarrow> string) \<Rightarrow> string \<Rightarrow> taskError" where
  "status_error N code hdr body =
     (let name0 = hdr ''X-Openinfra-Error''; cause0 = hdr ''X-Openinfra-Cause'';
          (n, c, found) = errorFromBody N body;
          name1 = (if name0 = [] \<and> found then n else name0);
          cause1 = (if cause0 = [] \<and> found then c else cause0)
      in \<lparr>teName = (if name1 = [] then ErrTaskFailed else name1),
          teCause = (if cause1 = [] then tell N (HttpStatus code (truncate body 512)) else cause1)\<rparr>)"

definition task_result :: "net_env \<Rightarrow> string \<Rightarrow> json" where
  "task_result N body =
     (if trim_space body = [] then JNull
      else case decode N body of None \<Rightarrow> JStr body | Some j \<Rightarrow> j)"

definition Invoke ::
  "net_env \<Rightarrow> httpInvoker \<Rightarrow> string \<Rightarrow> gval \<Rightarrow> int \<Rightarrow> heap \<Rightarrow> taskError + json" where
  "Invoke N iv resource inp timeoutSeconds h =
     rbind (resolveURL N iv resource) (\<lambda>(url, isFunction).
       case marshal N h inp of
         None \<Rightarrow> Inl \<lparr>teName = ErrRuntime, teCause = tell N NotSerializable\<rparr>
       | Some body \<Rightarrow>
           (case net N (task_request iv url isFunction body) of
              Unsendable err \<Rightarrow> Inl \<lparr>teName = ErrTaskFailed, teCause = tell N (BadRequest err)\<rparr>
            | NoResponse deadline err \<Rightarrow>
                if deadline then Inl \<lparr>teName = ErrTimeout, teCause = tell N (ExceededTimeout timeoutSeconds)\<rparr>
                else Inl \<lparr>teName = ErrTaskFailed, teCause = tell N (TransportFailed err)\<rparr>
            | Response code hdr full \<Rightarrow>
                let respBody = take (2 ^ 20) full
                in if isFunction \<and> hdr ''X-Amz-Function-Error'' \<noteq> [] then Inl (function_error N respBody)
                   else if code < 200 \<or> 300 \<le> code then Inl (status_error N code hdr respBody)
                   else Inr (task_result N respBody)))"

subsection \<open>History\<close>

definition maxHistory :: nat where
  "maxHistory = 200"

definition trimHistory :: "'a list \<Rightarrow> 'a list" where
  "trimHistory h = (if length h \<le> maxHistory then h else drop (length h - maxHistory) h)"

subsection \<open>Properties\<close>

lemma resolveURL_error: "resolveURL N iv resource = Inl e \<Longrightarrow> teName e = ErrRuntime"
  by (auto simp: resolveURL_def Let_def split: if_splits)

lemma err_names: "ErrRuntime \<noteq> []" "ErrTaskFailed \<noteq> []" "ErrTimeout \<noteq> []"
  by (simp_all add: ErrRuntime_def ErrTaskFailed_def ErrTimeout_def)

lemma reply_errors_named: "teName (function_error N b) \<noteq> []" "teName (status_error N code hdr b) \<noteq> []"
  by (simp_all add: function_error_def status_error_def err_names split_beta Let_def)

lemma Invoke_error_named:
  assumes "Invoke N iv resource inp t h = Inl e"
  shows "teName e \<noteq> []"
proof (cases "resolveURL N iv resource")
  case (Inl e')
  then show ?thesis using assms resolveURL_error [OF Inl] err_names by (simp add: Invoke_def)
next
  case (Inr p)
  then show ?thesis
    using assms reply_errors_named err_names
    by (cases p) (auto simp: Invoke_def Let_def split: option.splits reply.splits if_splits)
qed

lemma firstMatch_None: "firstMatch P xs = None \<longleftrightarrow> (\<forall>x \<in> set xs. \<not> P x)"
  by (induction xs) auto

text \<open>
  A failed Task always has an error name, so that a retrier or a catcher for \<^verbatim>\<open>States.ALL\<close> or for
  that name can take it: with such a catcher whose ResultPath is a plain path, a Task that fails
  without being retried moves the execution on and never fails it.
\<close>

theorem failed_task_is_caught:
  assumes "Invoke N iv (Resource s) params t (eHeap e) = Inl terr"
    and "c \<in> set (Catch s)" "ErrAll \<in> set (cErrorEquals c)"
    and "\<forall>c \<in> set (Catch s). orDefault (cResultPath c) ''$'' \<in> {''$'', []}"
  shows "teName terr \<noteq> [] \<and> (\<exists>c' v e'. c' \<in> set (Catch s) \<and> matchesError (cErrorEquals c') (teName terr) \<and>
    catch w e name s inp terr = (Goto (cNext c') v, e'))"
proof -
  let ?P = "\<lambda>c. matchesError (cErrorEquals c) (teName terr)"
  have "?P c" using assms(3) by (auto simp: matchesError_def)
  then obtain ci where ci: "firstMatch ?P (Catch s) = Some ci"
    using assms(2) firstMatch_None [of ?P "Catch s"] by (cases "firstMatch ?P (Catch s)") auto
  then have c': "Catch s ! ci \<in> set (Catch s)" "?P (Catch s ! ci)" using firstMatch_Some by fastforce+
  then have "orDefault (cResultPath (Catch s ! ci)) ''$'' \<in> {''$'', []}" using assms(4) by blast
  then show ?thesis
    using ci c' Invoke_error_named [OF assms(1)]
    by (fastforce simp: catch_def Let_def with_path_def applyResultPath_def)
qed

definition dead_net :: net_env where
  "dead_net = \<lparr>tell = (\<lambda>_. []), marshal = (\<lambda>_ _. Some []), decode = (\<lambda>_. None), net = (\<lambda>_. NoResponse False [])\<rparr>"

theorem failed_task_is_caught_witness:
  "teName \<lparr>teName = ErrTaskFailed, teCause = []\<rparr> \<noteq> [] \<and>
   (\<exists>c' v e'. c' \<in> set (Catch flaky) \<and> matchesError (cErrorEquals c') ErrTaskFailed \<and>
    catch calm fresh_engine ''T'' flaky (VMap 1) \<lparr>teName = ErrTaskFailed, teCause = []\<rparr> = (Goto (cNext c') v, e'))"
  using failed_task_is_caught [of dead_net "newHTTPInvoker ''ns'' None" flaky VNull 0 fresh_engine
      "\<lparr>teName = ErrTaskFailed, teCause = []\<rparr>" "hd (Catch flaky)" calm "''T''" "VMap 1"]
  by (simp add: dead_net_def Invoke_def resolveURL_def flaky_def blank_def has_prefix_def trim_prefix_def
      orDefault_def absent_def)

text \<open>
  A Function's return value is the result of the Task whatever it looks like: with no thrown error
  and a 2xx status the decoded body, the text itself when it is not JSON, or null when it is blank; a
  thrown error or another status is a failure.
\<close>

theorem function_reply_decides:
  assumes "resolveURL N iv resource = Inr (url, isFunction)" "marshal N h inp = Some body"
    and "net N (task_request iv url isFunction body) = Response code hdr full"
  shows "(\<exists>j. Invoke N iv resource inp t h = Inr j) \<longleftrightarrow>
      200 \<le> code \<and> code < 300 \<and> (isFunction \<longrightarrow> hdr ''X-Amz-Function-Error'' = [])"
    and "Invoke N iv resource inp t h = Inr j \<Longrightarrow> j = task_result N (take (2 ^ 20) full)"
  using assms by (auto simp: Invoke_def Let_def split: if_splits)

lemma creds_headers_key:
  "lookup (rqHeaders (task_request iv url isFunction body)) ''X-Openinfra-Task-Access-Key-Id'' = Some k \<longleftrightarrow>
     (\<exists>c. hCreds iv = Some c \<and> AccessKeyID c = k \<and> k \<noteq> [])"
  by (auto simp: task_request_def creds_headers_def split: option.splits)

text \<open>
  The history kept in the status has at most 200 events and is the end of the whole history.
\<close>

theorem trimHistory_keeps_the_end:
  "length (trimHistory h) \<le> maxHistory \<and> (\<exists>old. h = old @ trimHistory h) \<and>
   (length h \<le> maxHistory \<longrightarrow> trimHistory h = h)"
  by (auto simp: trimHistory_def maxHistory_def) (metis append_take_drop_id)

theorem trimHistory_keeps_the_end_witness:
  "trimHistory [1, 2, 3 :: nat] = [1, 2, 3]"
  using trimHistory_keeps_the_end [of "[1, 2, 3 :: nat]"] by (simp add: maxHistory_def)

end
