(* ===== verification/ExecController.thy ===== *)
theory ExecController
  imports TaskHttp
begin

text \<open>
  The controller that drives executions: \<^verbatim>\<open>reconcile\<close>, \<^verbatim>\<open>run\<close> and \<^verbatim>\<open>finalize\<close> of
  \<^verbatim>\<open>statemachine/main.go\<close> and \<^verbatim>\<open>getCredentials\<close> of \<^verbatim>\<open>statemachine/k8s.go\<close>.

  What the API server answers is a parameter. A status patch is the list of the fields it sets,
  without times, history and the causes of failures before the engine starts. The checkpoints the
  engine makes in between are the \<open>Checkpoint\<close> events of its log. Goroutines are explicit:
  \<open>ctrl_step\<close> interleaves polls with their progress, with users and with kills of the controller.
\<close>

subsection \<open>Data\<close>

record Execution =
  xName :: string
  xNamespace :: string
  xUID :: string
  xStateMachine :: string
  xInput :: string
  xCredentialsSecret :: string
  xCredentialsNamespace :: string
  xPhase :: string
  xCurrentState :: string
  xContext :: string
  xWaitUntil :: string
  xStopRequested :: bool
  xStopCause :: string

record ownerRef =
  oKind :: string
  oUID :: string
  oController :: "bool option"

datatype secret_reply =
    SecretUnreachable
  | SecretStatus int
  | SecretUnreadable
  | Secret "ownerRef list" "string strmap"

subsection \<open>Credentials\<close>

datatype creds_error =
    CredsPending
  | CredsRefused

definition owned_by :: "string \<Rightarrow> ownerRef list \<Rightarrow> bool" where
  "owned_by execUID refs \<longleftrightarrow>
     (\<exists>r \<in> set refs. oKind r = ''Execution'' \<and> execUID \<noteq> [] \<and> oUID r = execUID \<and> oController r = Some True)"

text \<open>\<open>b64\<close> is \<^verbatim>\<open>base64.StdEncoding.DecodeString\<close>; a missing key reads as the empty string.\<close>

definition secret_field :: "(string \<Rightarrow> string option) \<Rightarrow> string strmap \<Rightarrow> string \<Rightarrow> string" where
  "secret_field b64 dat k =
     (case b64 (case lookup dat k of None \<Rightarrow> [] | Some v \<Rightarrow> v) of None \<Rightarrow> [] | Some v \<Rightarrow> v)"

definition getCredentials ::
  "(string \<Rightarrow> string option) \<Rightarrow> (string \<Rightarrow> string \<Rightarrow> secret_reply) \<Rightarrow> string \<Rightarrow> string \<Rightarrow> string \<Rightarrow>
    creds_error + taskCreds option" where
  "getCredentials b64 api ns name execUID =
     (if name = [] then Inr None
      else case api ns name of
        SecretUnreachable \<Rightarrow> Inl CredsRefused
      | SecretStatus code \<Rightarrow> Inl (if code = 404 then CredsPending else CredsRefused)
      | SecretUnreadable \<Rightarrow> Inl CredsRefused
      | Secret refs dat \<Rightarrow>
          if \<not> owned_by execUID refs then Inl CredsPending
          else
            let creds = \<lparr>AccessKeyID = secret_field b64 dat ''accessKeyId'',
                         SecretKey = secret_field b64 dat ''secretAccessKey'',
                         SessionToken = secret_field b64 dat ''sessionToken''\<rparr>
            in if AccessKeyID creds = [] \<or> SecretKey creds = [] then Inl CredsRefused else Inr (Some creds))"

subsection \<open>One execution\<close>

type_synonym patch = "string strmap"

record run_env =
  definition_of :: "string \<Rightarrow> string \<Rightarrow> string option"
  decode_definition :: "string \<Rightarrow> Definition option"
  b64_decode :: "string \<Rightarrow> string option"
  secrets :: "string \<Rightarrow> string \<Rightarrow> secret_reply"
  is_young :: bool
  claimed :: bool
  to_json :: "heap \<Rightarrow> gval \<Rightarrow> string"
  time_of :: "string \<Rightarrow> int option"
  started_at :: string
  now_is :: int
  networking :: net_env
  turns :: "world list"
  shut_down :: bool
  stopped :: bool
  stop_cause :: string

definition ParseDefinition :: "run_env \<Rightarrow> string \<Rightarrow> Definition option" where
  "ParseDefinition R raw =
     (case decode_definition R raw of
        None \<Rightarrow> None
      | Some d \<Rightarrow> if validateDefinition d = None then Some d else None)"

definition failed_patch :: patch where
  "failed_patch = [(''phase'', ''Failed''), (''error'', ErrRuntime)]"

definition claim_patch :: "string \<Rightarrow> string \<Rightarrow> patch" where
  "claim_patch startState context =
     [(''phase'', ''Running''), (''currentState'', startState), (''context'', context), (''error'', []), (''cause'', [])]"

definition aborted_patch :: "string \<Rightarrow> patch" where
  "aborted_patch cause =
     [(''phase'', ''Aborted''), (''error'', ''States.ExecutionAborted''),
      (''cause'', if cause = [] then ''Execution stopped'' else cause),
      (''currentState'', []), (''waitUntil'', [])]"

definition final_patch :: "run_env \<Rightarrow> heap \<Rightarrow> Result \<Rightarrow> patch" where
  "final_patch R h r =
     [(''phase'', Phase r), (''currentState'', []), (''waitUntil'', [])] @
     (if Phase r = ''Succeeded'' then [(''output'', to_json R h (Output r)), (''error'', []), (''cause'', [])]
      else [(''error'', Error r), (''cause'', Cause r)])"

definition resuming :: "Execution \<Rightarrow> bool" where
  "resuming x \<longleftrightarrow> xPhase x = ''Running'' \<and> xCurrentState x \<noteq> []"

text \<open>The data an execution starts with; None when its input is not JSON.\<close>

definition start_data :: "run_env \<Rightarrow> Execution \<Rightarrow> json option" where
  "start_data R x =
     (if resuming x then
        let s = trim_space (xContext x)
        in if s = [] then Some (JObj [])
           else (case decode (networking R) s of None \<Rightarrow> Some (JObj []) | Some j \<Rightarrow> Some j)
      else
        let s = trim_space (xInput x) in decode (networking R) (if s = [] then ''{}'' else s))"

text \<open>
  The engine of an execution. The input is part of the context object: both hold the same map.
\<close>

definition start_engine :: "run_env \<Rightarrow> Execution \<Rightarrow> Definition \<Rightarrow> json \<Rightarrow> gval \<times> engine" where
  "start_engine R x d j =
     (let (data, h) = alloc j [];
          ex = [(''Id'', VStr (xUID x)), (''Name'', VStr (xName x)), (''StartTime'', VStr (started_at R)), (''Input'', data)];
          sm = [(''Name'', VStr (xStateMachine x))];
          n = length h;
          h' = h @ [ex, sm, [(''Execution'', VMap n), (''StateMachine'', VMap (Suc n))]];
          start = (if resuming x then xCurrentState x else StartAt d);
          resume = (if resuming x \<and> xWaitUntil x \<noteq> [] then
              (case lookup (States d) start of
                 Some s \<Rightarrow> if sType (core s) = ''Wait'' then time_of R (xWaitUntil x) else None
               | None \<Rightarrow> None)
            else None)
      in (data, \<lparr>eHeap = h', ctxObj = n + 2, resumeWait = resume, started = 0, events = []\<rparr>))"

definition with_invoker :: "net_env \<Rightarrow> httpInvoker \<Rightarrow> world \<Rightarrow> world" where
  "with_invoker N iv w = w\<lparr>invoke := (\<lambda>_ resource params t h. Invoke N iv resource params t h)\<rparr>"

datatype run_result =
    LeftAlone
  | StillRunning "patch list"
  | Finalized "patch list" patch

text \<open>The claim, unless the execution is being resumed, and the patches before the engine starts.\<close>

definition drive :: "run_env \<Rightarrow> Execution \<Rightarrow> Definition \<Rightarrow> taskCreds option \<Rightarrow> json \<Rightarrow> run_result" where
  "drive R x d creds j =
     (let start = (if resuming x then xCurrentState x else StartAt d);
          (data, e) = start_engine R x d j;
          claims = (if resuming x then [] else [claim_patch start (to_json R (eHeap e) data)]);
          iv = newHTTPInvoker (xNamespace x) creds;
          c = Run d start data (now_is R) e (map (with_invoker (networking R) iv) (turns R))
      in if shut_down R then StillRunning claims
         else if stopped R then Finalized claims (aborted_patch (stop_cause R))
         else case c of
           Running _ _ _ \<Rightarrow> StillRunning claims
         | Finished r e' \<Rightarrow> Finalized claims (final_patch R (eHeap e') r))"

definition run :: "run_env \<Rightarrow> Execution \<Rightarrow> run_result" where
  "run R x =
     (case definition_of R (xNamespace x) (xStateMachine x) of
        None \<Rightarrow> Finalized [] failed_patch
      | Some raw \<Rightarrow>
     (case ParseDefinition R raw of
        None \<Rightarrow> Finalized [] failed_patch
      | Some d \<Rightarrow>
          let credNS = (if xCredentialsNamespace x = [] then xNamespace x else xCredentialsNamespace x)
          in (case getCredentials (b64_decode R) (secrets R) credNS (xCredentialsSecret x) (xUID x) of
                Inl err \<Rightarrow>
                  if err = CredsPending \<and> xPhase x = [] \<and> is_young R then LeftAlone
                  else Finalized [] failed_patch
              | Inr creds \<Rightarrow>
                  (case start_data R x of
                     None \<Rightarrow> Finalized [] failed_patch
                   | Some j \<Rightarrow>
                       if \<not> resuming x \<and> \<not> claimed R then LeftAlone else drive R x d creds j))))"

subsection \<open>Polling\<close>

definition terminal_phase :: "string \<Rightarrow> bool" where
  "terminal_phase p \<longleftrightarrow> p \<in> {''Succeeded'', ''Failed'', ''TimedOut'', ''Aborted''}"

record controller =
  active :: "string set"
  cancels :: "string set"
  stopCauses :: "string \<rightharpoonup> string"

datatype action =
    Nothing
  | CancelRun string
  | Finalize patch
  | Launch string

text \<open>One execution of the list, in one poll.\<close>

definition reconcile_one :: "controller \<Rightarrow> Execution \<Rightarrow> controller \<times> action" where
  "reconcile_one c x =
     (let u = xUID x
      in if terminal_phase (xPhase x) then (c, Nothing)
         else if xStopRequested x then
           let c1 = c\<lparr>stopCauses := (stopCauses c)(u \<mapsto> xStopCause x)\<rparr>
           in if u \<in> cancels c then (c1, CancelRun u)
              else if u \<notin> active c then
                (c1\<lparr>stopCauses := (stopCauses c1)(u := None)\<rparr>, Finalize (aborted_patch (xStopCause x)))
              else (c1, Nothing)
         else if u \<in> active c then (c, Nothing)
         else (c\<lparr>active := insert u (active c)\<rparr>, Launch u))"

text \<open>
  \<^verbatim>\<open>patchStatus\<close>: a merge patch changes the fields it names. The API server keeps executions by UID.
\<close>

definition patched_field :: "patch \<Rightarrow> string \<Rightarrow> string \<Rightarrow> string" where
  "patched_field p k old = (case lookup p k of None \<Rightarrow> old | Some v \<Rightarrow> v)"

definition apply_patch :: "patch \<Rightarrow> Execution \<Rightarrow> Execution" where
  "apply_patch p x =
     x\<lparr>xPhase := patched_field p ''phase'' (xPhase x), xCurrentState := patched_field p ''currentState'' (xCurrentState x),
       xContext := patched_field p ''context'' (xContext x), xWaitUntil := patched_field p ''waitUntil'' (xWaitUntil x)\<rparr>"

definition patchStatus :: "string \<Rightarrow> patch \<Rightarrow> (string \<rightharpoonup> Execution) \<Rightarrow> string \<rightharpoonup> Execution" where
  "patchStatus u p S = S(u := map_option (apply_patch p) (S u))"

definition checkpoint_patch :: "string \<Rightarrow> string \<Rightarrow> string \<Rightarrow> patch" where
  "checkpoint_patch state context wait =
     [(''phase'', ''Running''), (''currentState'', state), (''context'', context), (''waitUntil'', wait)]"

text \<open>
  The goroutine of an execution: \<open>Launched\<close> before it has stored its cancel function, \<open>Driving\<close> in
  \<^verbatim>\<open>run\<close>, then undoing what it stored, one map after the other. A poll lists the executions and visits
  them one by one; \<open>listed\<close> are those of the current poll still to be visited, as they were listed.
  Users create executions and ask to stop them. Everything interleaves freely, a patch may be lost,
  and the controller may be killed.
\<close>

datatype stage =
    Launched
  | Driving
  | Ending
  | Uncancelled
  | Ended

record ctrl_state =
  ctrl :: controller
  goroutines :: "(Execution \<times> stage) list"
  listed :: "Execution list"
  server :: "string \<rightharpoonup> Execution"

definition fresh_controller :: controller where
  "fresh_controller = \<lparr>active = {}, cancels = {}, stopCauses = Map.empty\<rparr>"

definition idle :: ctrl_state where
  "idle = \<lparr>ctrl = fresh_controller, goroutines = [], listed = [], server = Map.empty\<rparr>"

inductive ctrl_step :: "ctrl_state \<Rightarrow> ctrl_state \<Rightarrow> bool" where
  create: "server s (xUID x) = None \<Longrightarrow> xPhase x = [] \<Longrightarrow>
     ctrl_step s (s\<lparr>server := (server s)(xUID x \<mapsto> x)\<rparr>)"
| ask_stop: "server s u = Some x \<Longrightarrow>
     ctrl_step s (s\<lparr>server := (server s)(u \<mapsto> x\<lparr>xStopRequested := True, xStopCause := cause\<rparr>)\<rparr>)"
| poll: "listed s = [] \<Longrightarrow> \<forall>x \<in> set xs. server s (xUID x) = Some x \<Longrightarrow> ctrl_step s (s\<lparr>listed := xs\<rparr>)"
| visit_quiet: "listed s = x # xs \<Longrightarrow> reconcile_one (ctrl s) x = (c, a) \<Longrightarrow> \<forall>u. a \<noteq> Launch u \<Longrightarrow>
     ctrl_step s (s\<lparr>ctrl := c, listed := xs\<rparr>)"
| visit_finalize: "listed s = x # xs \<Longrightarrow> reconcile_one (ctrl s) x = (c, Finalize p) \<Longrightarrow>
     ctrl_step s (s\<lparr>ctrl := c, listed := xs, server := patchStatus (xUID x) p (server s)\<rparr>)"
| visit_launch: "listed s = x # xs \<Longrightarrow> reconcile_one (ctrl s) x = (c, Launch u) \<Longrightarrow>
     ctrl_step s (s\<lparr>ctrl := c, listed := xs, goroutines := (x, Launched) # goroutines s\<rparr>)"
| store_cancel: "goroutines s = xs @ (x, Launched) # ys \<Longrightarrow>
     ctrl_step s (s\<lparr>ctrl := (ctrl s)\<lparr>cancels := insert (xUID x) (cancels (ctrl s))\<rparr>,
       goroutines := xs @ (x, Driving) # ys\<rparr>)"
| write_running: "goroutines s = xs @ (x, Driving) # ys \<Longrightarrow>
     p = claim_patch state context \<or> p = checkpoint_patch state context wait \<Longrightarrow>
     ctrl_step s (s\<lparr>server := patchStatus (xUID x) p (server s)\<rparr>)"
| finalize: "goroutines s = xs @ (x, Driving) # ys \<Longrightarrow> run R x = Finalized ps p \<Longrightarrow>
     ctrl_step s (s\<lparr>goroutines := xs @ (x, Ending) # ys, server := patchStatus (xUID x) p (server s)\<rparr>)"
| return_run: "goroutines s = xs @ (x, Driving) # ys \<Longrightarrow> ctrl_step s (s\<lparr>goroutines := xs @ (x, Ending) # ys\<rparr>)"
| drop_cancel: "goroutines s = xs @ (x, Ending) # ys \<Longrightarrow>
     ctrl_step s (s\<lparr>ctrl := (ctrl s)\<lparr>cancels := cancels (ctrl s) - {xUID x}\<rparr>,
       goroutines := xs @ (x, Uncancelled) # ys\<rparr>)"
| drop_cause: "goroutines s = xs @ (x, Uncancelled) # ys \<Longrightarrow>
     ctrl_step s (s\<lparr>ctrl := (ctrl s)\<lparr>stopCauses := (stopCauses (ctrl s))(xUID x := None)\<rparr>,
       goroutines := xs @ (x, Ended) # ys\<rparr>)"
| leave: "goroutines s = xs @ (x, Ended) # ys \<Longrightarrow>
     ctrl_step s (s\<lparr>ctrl := (ctrl s)\<lparr>active := active (ctrl s) - {xUID x}\<rparr>, goroutines := xs @ ys\<rparr>)"
| killed: "ctrl_step s (s\<lparr>ctrl := fresh_controller, goroutines := [], listed := []\<rparr>)"

inductive ctrl_reachable :: "ctrl_state \<Rightarrow> bool" where
  start: "ctrl_reachable idle"
| advance: "ctrl_reachable s \<Longrightarrow> ctrl_step s t \<Longrightarrow> ctrl_reachable t"

text \<open>
  The active set is the set of executions with a goroutine, each has one, and a cancel function is
  stored exactly from its entry into \<^verbatim>\<open>run\<close> until it is dropped.
\<close>

abbreviation uids :: "(Execution \<times> stage) list \<Rightarrow> string list" where
  "uids gs \<equiv> map (xUID \<circ> fst) gs"

definition cancellable :: "(Execution \<times> stage) list \<Rightarrow> string set" where
  "cancellable gs = {u. \<exists>x g. (x, g) \<in> set gs \<and> g \<in> {Driving, Ending} \<and> xUID x = u}"

definition ctrl_inv :: "ctrl_state \<Rightarrow> bool" where
  "ctrl_inv s \<longleftrightarrow> distinct (uids (goroutines s)) \<and>
     active (ctrl s) = set (uids (goroutines s)) \<and> cancels (ctrl s) = cancellable (goroutines s)"

lemma cancellable_simps [simp]:
  "cancellable [] = {}"
  "cancellable ((x, g) # gs) = (if g \<in> {Driving, Ending} then {xUID x} else {}) \<union> cancellable gs"
  "cancellable (gs @ hs) = cancellable gs \<union> cancellable hs"
  by (auto simp: cancellable_def)

lemma cancellable_uids: "cancellable gs \<subseteq> set (uids gs)"
  by (force simp: cancellable_def)

lemma reconcile_one_quiet:
  "reconcile_one c x = (c', a) \<Longrightarrow> (\<forall>u. a \<noteq> Launch u) \<Longrightarrow> active c' = active c \<and> cancels c' = cancels c"
  by (auto simp: reconcile_one_def Let_def split: if_splits)

lemma reconcile_one_launch:
  "reconcile_one c x = (c', Launch u) \<Longrightarrow>
     u = xUID x \<and> u \<notin> active c \<and> active c' = insert u (active c) \<and> cancels c' = cancels c \<and>
     \<not> terminal_phase (xPhase x) \<and> \<not> xStopRequested x"
  by (auto simp: reconcile_one_def Let_def split: if_splits)

lemma ctrl_step_inv: "ctrl_step s t \<Longrightarrow> ctrl_inv s \<Longrightarrow> ctrl_inv t"
proof (induction rule: ctrl_step.induct)
  case (visit_quiet s x xs c a)
  then show ?case using reconcile_one_quiet [OF visit_quiet(2,3)] by (simp add: ctrl_inv_def)
next
  case (visit_finalize s x xs c p)
  then show ?case using reconcile_one_quiet [OF visit_finalize(2)] by (simp add: ctrl_inv_def)
next
  case (visit_launch s x xs c u)
  then show ?case using reconcile_one_launch [OF visit_launch(2)] by (auto simp: ctrl_inv_def)
next
  case (drop_cancel s xs x ys)
  then have "xUID x \<notin> set (uids xs) \<union> set (uids ys)" by (auto simp: ctrl_inv_def)
  then have "xUID x \<notin> cancellable xs \<union> cancellable ys" using cancellable_uids by blast
  then show ?case using drop_cancel by (auto simp: ctrl_inv_def)
next
  case (leave s xs x ys)
  then show ?case by (auto simp: ctrl_inv_def)
qed (auto simp: ctrl_inv_def fresh_controller_def)

lemma ctrl_reachable_inv: "ctrl_reachable s \<Longrightarrow> ctrl_inv s"
proof (induction rule: ctrl_reachable.induct)
  case start
  show ?case by (simp add: ctrl_inv_def idle_def fresh_controller_def)
qed (rule ctrl_step_inv)

subsection \<open>Properties\<close>

text \<open>
  C22. In every interleaving of polls, goroutines, users and kills an execution has at most one goroutine
  driving it, a launch is of an execution without one that was listed neither finished nor asked to
  stop, and a stop request for an execution whose goroutine runs finds its cancel function.
\<close>

theorem one_goroutine_per_execution:
  assumes "ctrl_reachable s"
  shows "distinct (uids (goroutines s)) \<and>
    (\<forall>x c u. reconcile_one (ctrl s) x = (c, Launch u) \<longrightarrow>
       u = xUID x \<and> u \<notin> set (uids (goroutines s)) \<and> \<not> terminal_phase (xPhase x) \<and> \<not> xStopRequested x) \<and>
    (\<forall>x y. (y, Driving) \<in> set (goroutines s) \<longrightarrow> xUID y = xUID x \<longrightarrow> xStopRequested x \<longrightarrow>
       \<not> terminal_phase (xPhase x) \<longrightarrow> snd (reconcile_one (ctrl s) x) = CancelRun (xUID x))"
proof -
  have inv: "ctrl_inv s" by (rule ctrl_reachable_inv [OF assms])
  have "snd (reconcile_one (ctrl s) x) = CancelRun (xUID x)"
    if "(y, Driving) \<in> set (goroutines s)" "xUID y = xUID x" "xStopRequested x" "\<not> terminal_phase (xPhase x)" for x y
  proof -
    have "xUID x \<in> cancellable (goroutines s)" using that(1,2) by (auto simp: cancellable_def)
    then show ?thesis using that inv by (simp add: reconcile_one_def ctrl_inv_def Let_def)
  qed
  moreover have "u = xUID x \<and> u \<notin> set (uids (goroutines s)) \<and> \<not> terminal_phase (xPhase x) \<and> \<not> xStopRequested x"
    if "reconcile_one (ctrl s) x = (c, Launch u)" for x c u
    using reconcile_one_launch [OF that] inv unfolding ctrl_inv_def by blast
  ultimately show ?thesis using inv unfolding ctrl_inv_def by blast
qed

definition sample_execution :: Execution where
  "sample_execution = \<lparr>xName = ''x'', xNamespace = ''ns'', xUID = ''u1'', xStateMachine = ''m'', xInput = [],
     xCredentialsSecret = ''s'', xCredentialsNamespace = [], xPhase = [], xCurrentState = [], xContext = [],
     xWaitUntil = [], xStopRequested = False, xStopCause = []\<rparr>"

definition sample_launched :: ctrl_state where
  "sample_launched = idle\<lparr>ctrl := fresh_controller\<lparr>active := {''u1''}\<rparr>,
     goroutines := [(sample_execution, Launched)], server := [''u1'' \<mapsto> sample_execution]\<rparr>"

lemma sample_reachable: "ctrl_reachable sample_launched"
proof -
  let ?s1 = "idle\<lparr>server := [''u1'' \<mapsto> sample_execution]\<rparr>" and ?x = sample_execution
  have "ctrl_step idle (idle\<lparr>server := (server idle)(xUID ?x \<mapsto> ?x)\<rparr>)"
    by (rule ctrl_step.create) (simp_all add: idle_def sample_execution_def)
  then have "ctrl_reachable ?s1"
    using ctrl_reachable.start ctrl_reachable.advance by (simp add: idle_def sample_execution_def)
  moreover have "ctrl_step ?s1 (?s1\<lparr>listed := [?x]\<rparr>)"
    by (rule ctrl_step.poll) (simp_all add: idle_def sample_execution_def)
  moreover have "ctrl_step (?s1\<lparr>listed := [?x]\<rparr>) sample_launched"
    using visit_launch [of "?s1\<lparr>listed := [?x]\<rparr>" ?x "[]" "fresh_controller\<lparr>active := {''u1''}\<rparr>" "''u1''"]
    by (simp add: reconcile_one_def idle_def fresh_controller_def sample_execution_def terminal_phase_def Let_def
        sample_launched_def)
  ultimately show ?thesis by (blast intro: ctrl_reachable.advance)
qed

theorem one_goroutine_per_execution_witness:
  "ctrl_reachable sample_launched \<and> distinct (uids (goroutines sample_launched))"
  using sample_reachable one_goroutine_per_execution [OF sample_reachable] by blast

text \<open>
  An execution is settled when it is finished on the server, has no goroutine, and no poll under way
  has an older copy of it.
\<close>

definition settled :: "string \<Rightarrow> ctrl_state \<Rightarrow> bool" where
  "settled u s \<longleftrightarrow> (\<exists>x. server s u = Some x \<and> terminal_phase (xPhase x)) \<and> u \<notin> set (uids (goroutines s)) \<and>
     (\<forall>x \<in> set (listed s). xUID x = u \<longrightarrow> terminal_phase (xPhase x))"

abbreviation phase_of :: "string \<Rightarrow> ctrl_state \<Rightarrow> string option" where
  "phase_of u s \<equiv> map_option xPhase (server s u)"

lemma reconcile_one_terminal: "terminal_phase (xPhase x) \<Longrightarrow> reconcile_one c x = (c, Nothing)"
  by (simp add: reconcile_one_def Let_def)

lemma patchStatus_other [simp]: "u \<noteq> v \<Longrightarrow> patchStatus v p S u = S u"
  by (simp add: patchStatus_def)

lemma settled_step: "ctrl_step s t \<Longrightarrow> settled u s \<Longrightarrow> settled u t \<and> phase_of u t = phase_of u s"
proof (induction rule: ctrl_step.induct)
  case (visit_finalize s x xs c p)
  then have "xUID x \<noteq> u" using reconcile_one_terminal [of x "ctrl s"] by (auto simp: settled_def)
  then show ?case using visit_finalize by (simp add: settled_def)
next
  case (visit_launch s x xs c v)
  then have "xUID x \<noteq> u" using reconcile_one_terminal [of x "ctrl s"] by (auto simp: settled_def)
  then show ?case using visit_launch by (simp add: settled_def)
qed (auto simp: settled_def)


definition sample_done :: ctrl_state where
  "sample_done = idle\<lparr>server := [''u1'' \<mapsto> sample_execution\<lparr>xPhase := ''Succeeded''\<rparr>]\<rparr>"




text \<open>What an execution comes to: its last patch says so, and only a terminal phase is final.\<close>

lemma Run_phase:
  "Run d start data now e ws = Finished r e' \<Longrightarrow> Phase r \<in> {''Succeeded'', ''Failed'', ''TimedOut''}"
proof -
  let ?ok = "\<lambda>c. case c of Finished r _ \<Rightarrow> Phase r \<in> {''Succeeded'', ''Failed'', ''TimedOut''} | _ \<Rightarrow> True"
  have turn: "?ok (step d c w)" if "?ok c" for c w
  proof (cases c)
    case (Running name data e)
    show ?thesis
    proof (cases rule: turn_cases [of d w e name data])
      case (refused r e')
      then show ?thesis using Running by (auto simp: step_def)
    next
      case (ran s tr e')
      then have "legal (core s) tr" using legal_run_state [of s w "entering w name data e" name data] by simp
      then show ?thesis using ran Running by (auto simp: step_def legal_def split: transition.splits)
    qed
  qed (use that in \<open>simp add: step_def\<close>)
  have "?ok (foldl (step d) c ws)" if "?ok c" for c
    using that by (induction ws arbitrary: c) (simp_all add: turn)
  from this [of "Running start data (e\<lparr>started := now\<rparr>)"]
  show "Run d start data now e ws = Finished r e' \<Longrightarrow> Phase r \<in> {''Succeeded'', ''Failed'', ''TimedOut''}"
    by (simp add: Run_def)
qed

text \<open>
  When an execution is finalized its last patch has a terminal phase, so that no later poll
  launches it again; a shutdown of the controller never finalizes an execution that had started.
\<close>

theorem finalized_is_terminal:
  "(\<forall>ps p. run R x = Finalized ps p \<longrightarrow> (\<exists>ph. lookup p ''phase'' = Some ph \<and> terminal_phase ph)) \<and>
   (\<forall>d creds j ps p. shut_down R \<longrightarrow> drive R x d creds j \<noteq> Finalized ps p)"
proof -
  have drive: "\<exists>ph. lookup p ''phase'' = Some ph \<and> terminal_phase ph"
    if "drive R x d creds j = Finalized ps p" for d creds j ps p
    using that Run_phase
    by (fastforce simp: drive_def Let_def aborted_patch_def final_patch_def terminal_phase_def
        split: if_splits prod.splits config.splits)
  have "\<exists>ph. lookup failed_patch ''phase'' = Some ph \<and> terminal_phase ph"
    by (simp add: failed_patch_def terminal_phase_def)
  then have "\<exists>ph. lookup p ''phase'' = Some ph \<and> terminal_phase ph" if "run R x = Finalized ps p" for ps p
    using that drive unfolding run_def Let_def by (auto split: option.splits sum.splits if_splits)
  moreover have "drive R x d creds j \<noteq> Finalized ps p" if "shut_down R" for d creds j ps p
    using that by (simp add: drive_def Let_def split: prod.split)
  ultimately show ?thesis by blast
qed

definition sample_env :: run_env where
  "sample_env = \<lparr>definition_of = (\<lambda>_ _. None), decode_definition = (\<lambda>_. None), b64_decode = Some,
     secrets = (\<lambda>_ _. SecretStatus 404), is_young = True, claimed = True, to_json = (\<lambda>_ _. []),
     time_of = Map.empty, started_at = [], now_is = 0, networking = dead_net, turns = [], shut_down = True,
     stopped = False, stop_cause = []\<rparr>"

theorem finalized_is_terminal_witness:
  "(\<exists>ph. lookup failed_patch ''phase'' = Some ph \<and> terminal_phase ph) \<and>
   drive sample_env sample_execution ping_pong None (JObj []) \<noteq> Finalized [] failed_patch"
proof -
  have "run sample_env sample_execution = Finalized [] failed_patch" "shut_down sample_env"
    by (simp_all add: run_def sample_env_def)
  then show ?thesis using finalized_is_terminal [of sample_env sample_execution] by blast
qed

text \<open>
  The older copy matters. A goroutine that finalizes its execution while a poll still has to visit the
  copy it listed before leaves it inactive, so the poll launches the finished execution again, resuming
  at the state of its last checkpoint.
\<close>

definition stale_copy :: Execution where
  "stale_copy = apply_patch (claim_patch ''A'' ''{}'') sample_execution"

definition stale_state :: "stage option \<Rightarrow> string set \<Rightarrow> Execution \<Rightarrow> Execution list \<Rightarrow> ctrl_state" where
  "stale_state g cs y l =
     \<lparr>ctrl = \<lparr>active = (if g = None then {} else {''u1''}), cancels = cs, stopCauses = Map.empty\<rparr>,
      goroutines = (case g of None \<Rightarrow> [] | Some st \<Rightarrow> [(sample_execution, st)]), listed = l, server = [''u1'' \<mapsto> y]\<rparr>"

lemma sample_uid [simp]: "xUID sample_execution = ''u1''" "xUID stale_copy = ''u1''"
  by (simp_all add: sample_execution_def stale_copy_def apply_patch_def)

lemma stale_steps:
  "ctrl_step sample_launched (stale_state (Some Driving) {''u1''} sample_execution [])"
  "ctrl_step (stale_state (Some Driving) {''u1''} sample_execution []) (stale_state (Some Driving) {''u1''} stale_copy [])"
  "ctrl_step (stale_state (Some Driving) {''u1''} stale_copy []) (stale_state (Some Driving) {''u1''} stale_copy [stale_copy])"
  "ctrl_step (stale_state (Some Driving) {''u1''} stale_copy [stale_copy])
     (stale_state (Some Ending) {''u1''} (apply_patch failed_patch stale_copy) [stale_copy])"
  "ctrl_step (stale_state (Some Ending) {''u1''} y l) (stale_state (Some Uncancelled) {} y l)"
  "ctrl_step (stale_state (Some Uncancelled) {} y l) (stale_state (Some Ended) {} y l)"
  "ctrl_step (stale_state (Some Ended) {} y l) (stale_state None {} y l)"
proof -
  show "ctrl_step sample_launched (stale_state (Some Driving) {''u1''} sample_execution [])"
    using store_cancel [of sample_launched "[]" sample_execution "[]"]
    by (simp add: sample_launched_def stale_state_def idle_def fresh_controller_def)
  show "ctrl_step (stale_state (Some Driving) {''u1''} sample_execution []) (stale_state (Some Driving) {''u1''} stale_copy [])"
    using write_running [of "stale_state (Some Driving) {''u1''} sample_execution []" "[]" sample_execution "[]"]
    by (fastforce simp: stale_state_def stale_copy_def patchStatus_def)
  show "ctrl_step (stale_state (Some Driving) {''u1''} stale_copy []) (stale_state (Some Driving) {''u1''} stale_copy [stale_copy])"
    using poll [of "stale_state (Some Driving) {''u1''} stale_copy []" "[stale_copy]"] by (simp add: stale_state_def)
  have "run sample_env sample_execution = Finalized [] failed_patch" by (simp add: run_def sample_env_def)
  then show "ctrl_step (stale_state (Some Driving) {''u1''} stale_copy [stale_copy])
     (stale_state (Some Ending) {''u1''} (apply_patch failed_patch stale_copy) [stale_copy])"
    using finalize [of "stale_state (Some Driving) {''u1''} stale_copy [stale_copy]" "[]" sample_execution "[]" sample_env]
    by (simp add: stale_state_def patchStatus_def)
  show "ctrl_step (stale_state (Some Ending) {''u1''} y l) (stale_state (Some Uncancelled) {} y l)"
    using drop_cancel [of "stale_state (Some Ending) {''u1''} y l" "[]" sample_execution "[]"]
    by (simp add: stale_state_def)
  show "ctrl_step (stale_state (Some Uncancelled) {} y l) (stale_state (Some Ended) {} y l)"
    using drop_cause [of "stale_state (Some Uncancelled) {} y l" "[]" sample_execution "[]"]
    by (simp add: stale_state_def)
  show "ctrl_step (stale_state (Some Ended) {} y l) (stale_state None {} y l)"
    using leave [of "stale_state (Some Ended) {} y l" "[]" sample_execution "[]"] by (simp add: stale_state_def)
qed

theorem finished_execution_relaunched:
  "\<exists>s x y. ctrl_reachable s \<and> goroutines s = [(x, Launched)] \<and> resuming x \<and>
     server s (xUID x) = Some y \<and> terminal_phase (xPhase y)"
proof -
  let ?y = "apply_patch failed_patch stale_copy" and ?c = "\<lparr>active = {''u1''}, cancels = {}, stopCauses = Map.empty\<rparr>"
  let ?t = "(stale_state None {} ?y [])\<lparr>ctrl := ?c, goroutines := [(stale_copy, Launched)]\<rparr>"
  have copy: "xPhase stale_copy = ''Running''" "xStopRequested stale_copy = False" "resuming stale_copy"
    by (simp_all add: stale_copy_def apply_patch_def patched_field_def claim_patch_def sample_execution_def resuming_def)
  have "ctrl_reachable (stale_state None {} ?y [stale_copy])"
    by (intro ctrl_reachable.advance [OF _ stale_steps(7)] ctrl_reachable.advance [OF _ stale_steps(6)]
        ctrl_reachable.advance [OF _ stale_steps(5)] ctrl_reachable.advance [OF _ stale_steps(4)]
        ctrl_reachable.advance [OF _ stale_steps(3)] ctrl_reachable.advance [OF _ stale_steps(2)]
        ctrl_reachable.advance [OF _ stale_steps(1)] sample_reachable)
  moreover have "ctrl_step (stale_state None {} ?y [stale_copy]) ?t"
    using visit_launch [of "stale_state None {} ?y [stale_copy]" stale_copy "[]" ?c "''u1''"] copy
    by (simp add: reconcile_one_def stale_state_def terminal_phase_def Let_def)
  ultimately have "ctrl_reachable ?t" by (rule ctrl_reachable.advance)
  moreover have "terminal_phase (xPhase ?y)"
    by (simp add: apply_patch_def patched_field_def failed_patch_def terminal_phase_def)
  ultimately show ?thesis
    using copy(3) by (intro exI [of _ ?t] exI [of _ stale_copy] exI [of _ ?y]) (simp add: stale_state_def)
qed

subsection \<open>What an execution starts with\<close>

lemma start_engine_sound:
  assumes "start_engine R x d j = (data, e)"
  shows "ok e" "lives e data"
proof -
  obtain v h where a: "alloc j [] = (v, h)" by (cases "alloc j []")
  have h: "wf_heap h" "wf_val (length h) v" using alloc_grows [OF _ a] by (simp_all add: wf_heap_def)
  have e: "data = v" "eHeap e = h @ [[(''Id'', VStr (xUID x)), (''Name'', VStr (xName x)),
        (''StartTime'', VStr (started_at R)), (''Input'', v)], [(''Name'', VStr (xStateMachine x))],
      [(''Execution'', VMap (length h)), (''StateMachine'', VMap (Suc (length h)))]]" "ctxObj e = length h + 2"
    using assms a by (auto simp: start_engine_def Let_def)
  show "lives e data" using h(2) e by (auto intro: wf_val_mono)
  have "\<forall>m \<in> set h. wf_map (length h + 3) m" using h(1) by (auto simp: wf_heap_def intro: wf_map_mono)
  moreover have "wf_val (length h + 3) v" using h(2) by (rule wf_val_mono) simp
  ultimately show "ok e" unfolding ok_def wf_heap_def e(2,3) by (simp add: wf_map_def [of _ "_ # _"] numeral_3_eq_3)
qed

lemma sound_with_invoker: "sound_world (with_invoker N iv w) = sound_world w"
  by (simp add: sound_world_def with_invoker_def)

text \<open>
  A controller that is asked to shut down while it reads a definition finalizes the execution: the
  read fails with the cancelled context.
\<close>

theorem shutdown_fails_starting_execution:
  assumes "shut_down R" and "definition_of R (xNamespace x) (xStateMachine x) = None"
  shows "run R x = Finalized [] failed_patch"
  using assms by (simp add: run_def)

end
