(* ===== verification/SnsFilter.thy ===== *)
theory SnsFilter
  imports Json GoFloat "HOL-Library.Multiset"
begin

text \<open>
  SNS subscription filter policies: \<^verbatim>\<open>cfn/snsfilter/snsfilter.go\<close>.

  A \<open>cond\<close> is the tagged struct of the source, one constructor per value of its \<^verbatim>\<open>op\<close>. Documents
  come from a decoder with \<^verbatim>\<open>UseNumber\<close>: numbers are exact, and \<open>to_float\<close> is
  \<^verbatim>\<open>json.Number.Float64\<close>, None out of range. \<open>parse_num\<close> is \<^verbatim>\<open>strconv.ParseFloat\<close>, \<open>fold_eq\<close> is
  \<^verbatim>\<open>strings.EqualFold\<close>, \<open>prefix_ok\<close> and \<open>prefix_has\<close> are \<^verbatim>\<open>netip.ParsePrefix\<close> and
  \<^verbatim>\<open>Contains\<close> of the masked prefix on a parsed and unmapped address (False when it does not
  parse). A key's conditions are visited in order; maps in the order of their list.
\<close>

subsection \<open>Data\<close>

datatype filter_error =
    BadScope
  | TooLarge
  | NotJson
  | NotObject
  | TooDeep
  | BadOr
  | BadOrEntry
  | EmptyConditions string
  | NestedInAttributes string
  | NotConditions string
  | InKey string filter_error
  | NotFinite
  | BodyOnly
  | OneOperator
  | NotACondition
  | TakesString string
  | ExistsBool
  | BadCidr string
  | BadNumeric
  | BadComparison
  | BadRange
  | BadAnythingBut
  | BadExcluded
  | UnknownOperator string
  | TooManyKeys nat
  | TooManyCombinations int

record Attr =
  aType :: string
  aValue :: string

datatype scalar =
    SStr string
  | SNum go_float
  | SBool bool
  | SNull

record numCmp =
  nOp :: string
  nVal :: go_float

datatype cond =
    Eq scalar
  | HasPrefix string
  | HasSuffix string
  | EqIgnoreCase string
  | AnythingBut "scalar list"
  | AnythingButPrefix string
  | AnythingButSuffix string
  | Numeric "numCmp list"
  | Exists bool
  | Cidr string

datatype object =
    Object (keys: "(string \<times> node) list") (ors: "object list list")
and node =
    Leaf "cond list"
  | Nested object

record Policy =
  scope :: string
  root :: object

datatype val =
    VString string
  | VNumber go_float
  | VBoolean bool
  | VNil
  | VBinary

record filter_env =
  decoder :: "string \<Rightarrow> json option"
  to_float :: "rat \<Rightarrow> rat option"
  parse_num :: "string \<Rightarrow> go_float option"
  fold_eq :: "string \<Rightarrow> string \<Rightarrow> bool"
  prefix_ok :: "string \<Rightarrow> bool"
  prefix_has :: "string \<Rightarrow> string \<Rightarrow> bool"

definition ScopeAttributes :: string where "ScopeAttributes = ''MessageAttributes''"
definition ScopeBody :: string where "ScopeBody = ''MessageBody''"
definition maxKeys :: nat where "maxKeys = 5"
definition maxCombinations :: int where "maxCombinations = 150"
definition maxSize :: nat where "maxSize = 256 * 1024"

subsection \<open>Conditions\<close>

fun number :: "filter_env \<Rightarrow> json \<Rightarrow> go_float option" where
  "number F (JNum q) = map_option Fin (to_float F q)"
| "number F _ = None"

definition text_arg :: "string \<Rightarrow> json \<Rightarrow> filter_error + string" where
  "text_arg op arg = (case arg of JStr s \<Rightarrow> Inr s | _ \<Rightarrow> Inl (TakesString op))"

definition parse_cmp :: "filter_env \<Rightarrow> json \<Rightarrow> json \<Rightarrow> filter_error + numCmp" where
  "parse_cmp F opv n =
     (case (opv, number F n) of
        (JStr op, Some f) \<Rightarrow>
          if op \<in> {''='', ''<'', ''<='', ''>'', ''>=''} then Inr \<lparr>nOp = op, nVal = f\<rparr> else Inl BadComparison
      | _ \<Rightarrow> Inl BadComparison)"

definition parse_numeric :: "filter_env \<Rightarrow> json \<Rightarrow> filter_error + cond" where
  "parse_numeric F arg =
     (case arg of
        JArr [o1, n1] \<Rightarrow> rbind (parse_cmp F o1 n1) (\<lambda>c1. Inr (Numeric [c1]))
      | JArr [o1, n1, o2, n2] \<Rightarrow>
          rbind (parse_cmp F o1 n1) (\<lambda>c1. rbind (parse_cmp F o2 n2) (\<lambda>c2.
            if \<not> has_prefix (nOp c1) ''>'' \<or> \<not> has_prefix (nOp c2) ''<'' \<or> fl_le (nVal c2) (nVal c1)
            then Inl BadRange else Inr (Numeric [c1, c2])))
      | _ \<Rightarrow> Inl BadNumeric)"

definition excluded :: "filter_env \<Rightarrow> json \<Rightarrow> filter_error + scalar" where
  "excluded F e =
     (case e of
        JStr s \<Rightarrow> Inr (SStr s)
      | JNum q \<Rightarrow> (case number F (JNum q) of Some f \<Rightarrow> Inr (SNum f) | None \<Rightarrow> Inl BadExcluded)
      | _ \<Rightarrow> Inl BadExcluded)"

definition parse_anything_but :: "filter_env \<Rightarrow> json \<Rightarrow> filter_error + cond" where
  "parse_anything_but F arg =
     (case arg of
        JObj [(k, JStr s)] \<Rightarrow>
          if k = ''prefix'' then Inr (AnythingButPrefix s)
          else if k = ''suffix'' then Inr (AnythingButSuffix s)
          else Inl BadAnythingBut
      | JObj _ \<Rightarrow> Inl BadAnythingBut
      | JStr s \<Rightarrow> Inr (AnythingBut [SStr s])
      | JNum q \<Rightarrow> rbind (excluded F (JNum q)) (\<lambda>x. Inr (AnythingBut [x]))
      | JArr (e # es) \<Rightarrow> rbind (rmap (excluded F) (e # es)) (\<lambda>xs. Inr (AnythingBut xs))
      | _ \<Rightarrow> Inl BadAnythingBut)"

definition parseOp :: "filter_env \<Rightarrow> string \<Rightarrow> json \<Rightarrow> filter_error + cond" where
  "parseOp F op arg =
     (if op = ''prefix'' then rbind (text_arg op arg) (\<lambda>s. Inr (HasPrefix s))
      else if op = ''suffix'' then rbind (text_arg op arg) (\<lambda>s. Inr (HasSuffix s))
      else if op = ''equals-ignore-case'' then rbind (text_arg op arg) (\<lambda>s. Inr (EqIgnoreCase s))
      else if op = ''exists'' then (case arg of JBool b \<Rightarrow> Inr (Exists b) | _ \<Rightarrow> Inl ExistsBool)
      else if op = ''cidr'' then
        rbind (text_arg op arg) (\<lambda>s. if prefix_ok F s then Inr (Cidr s) else Inl (BadCidr s))
      else if op = ''numeric'' then parse_numeric F arg
      else if op = ''anything-but'' then parse_anything_but F arg
      else Inl (UnknownOperator op))"

definition parseCond :: "filter_env \<Rightarrow> bool \<Rightarrow> json \<Rightarrow> filter_error + cond" where
  "parseCond F body e =
     (case e of
        JStr s \<Rightarrow> Inr (Eq (SStr s))
      | JNum q \<Rightarrow> (case number F (JNum q) of Some f \<Rightarrow> Inr (Eq (SNum f)) | None \<Rightarrow> Inl NotFinite)
      | JBool b \<Rightarrow> if body then Inr (Eq (SBool b)) else Inl BodyOnly
      | JNull \<Rightarrow> if body then Inr (Eq SNull) else Inl BodyOnly
      | JObj t \<Rightarrow> (case t of [(op, arg)] \<Rightarrow> parseOp F op arg | _ \<Rightarrow> Inl OneOperator)
      | JArr _ \<Rightarrow> Inl NotACondition)"

definition parse_conds :: "filter_env \<Rightarrow> bool \<Rightarrow> string \<Rightarrow> json list \<Rightarrow> filter_error + cond list" where
  "parse_conds F body k es =
     (case rmap (parseCond F body) es of Inl err \<Rightarrow> Inl (InKey k err) | Inr cs \<Rightarrow> Inr cs)"

subsection \<open>Policies\<close>

abbreviation entries_size :: "(string \<times> json) list \<Rightarrow> nat" where
  "entries_size \<equiv> size_list (size_prod (\<lambda>_. 0) size)"

lemma size_list_mset: "size_list f xs = sum_mset (image_mset f (mset xs)) + size (mset xs)"
  by (induction xs) auto

lemma entries_size_sorted [simp]: "entries_size (sorted_entries m) = entries_size m"
  unfolding size_list_mset sorted_entries_def by simp

function (sequential) parseObject :: "filter_env \<Rightarrow> bool \<Rightarrow> nat \<Rightarrow> json strmap \<Rightarrow> filter_error + object"
and parse_entries ::
  "filter_env \<Rightarrow> bool \<Rightarrow> nat \<Rightarrow> json strmap \<Rightarrow> filter_error + (string \<times> node) list \<times> object list list"
and parse_branch :: "filter_env \<Rightarrow> bool \<Rightarrow> nat \<Rightarrow> json list \<Rightarrow> filter_error + object list" where
  "parseObject F nested depth m =
     (if 16 < depth then Inl TooDeep
      else rbind (parse_entries F nested depth (sorted_entries m)) (\<lambda>(ks, os). Inr (Object ks os)))"
| "parse_entries F nested depth [] = Inr ([], [])"
| "parse_entries F nested depth ((k, v) # es) =
     (if k = ''$or'' then
        (case v of
           JArr l \<Rightarrow>
             if length l < 2 then Inl BadOr
             else rbind (parse_branch F nested depth l) (\<lambda>b.
               rbind (parse_entries F nested depth es) (\<lambda>(ks, os). Inr (ks, b # os)))
         | _ \<Rightarrow> Inl BadOr)
      else
        (case v of
           JArr t \<Rightarrow>
             if t = [] then Inl (EmptyConditions k)
             else rbind (parse_conds F nested k t) (\<lambda>cs.
               rbind (parse_entries F nested depth es) (\<lambda>(ks, os). Inr ((k, Leaf cs) # ks, os)))
         | JObj t \<Rightarrow>
             if \<not> nested then Inl (NestedInAttributes k)
             else rbind (parseObject F nested (Suc depth) t) (\<lambda>sub.
               rbind (parse_entries F nested depth es) (\<lambda>(ks, os). Inr ((k, Nested sub) # ks, os)))
         | _ \<Rightarrow> Inl (NotConditions k)))"
| "parse_branch F nested depth [] = Inr []"
| "parse_branch F nested depth (e # es) =
     (case e of
        JObj em \<Rightarrow>
          if em = [] then Inl BadOrEntry
          else rbind (parseObject F nested (Suc depth) em) (\<lambda>sub.
            rbind (parse_branch F nested depth es) (\<lambda>subs. Inr (sub # subs)))
      | _ \<Rightarrow> Inl BadOrEntry)"
  by pat_completeness auto
termination
  by (relation "measure (case_sum (\<lambda>(_, _, _, m). Suc (2 * entries_size m)) (case_sum
        (\<lambda>(_, _, _, es). 2 * entries_size es) (\<lambda>(_, _, _, l). 2 * size_list size l)))") auto

declare parseObject.simps [simp del]

text \<open>\<^verbatim>\<open>int\<close> has 64 bits: the number of combinations wraps.\<close>

fun leafKeys :: "object \<Rightarrow> nat" and node_keys :: "node \<Rightarrow> nat" where
  "leafKeys (Object ks os) =
     sum_list (map (\<lambda>(_, v). node_keys v) ks) + sum_list (map (\<lambda>b. Max (insert 0 (leafKeys ` set b))) os)"
| "node_keys (Nested sub) = leafKeys sub"
| "node_keys (Leaf _) = 1"

fun combinations :: "object \<Rightarrow> int" and node_combinations :: "node \<Rightarrow> int" where
  "combinations (Object ks os) =
     foldl (\<lambda>c b. wrap64 (c * foldl (\<lambda>s x. wrap64 (s + x)) 0 (map combinations b)))
       (foldl (\<lambda>c x. wrap64 (c * x)) 1 (map (\<lambda>(_, v). node_combinations v) ks)) os"
| "node_combinations (Nested sub) = combinations sub"
| "node_combinations (Leaf cs) = int (length cs)"

definition Parse :: "filter_env \<Rightarrow> string \<Rightarrow> string \<Rightarrow> filter_error + Policy" where
  "Parse F doc scope0 =
     (let sc = (if scope0 = [] then ScopeAttributes else scope0)
      in if sc \<noteq> ScopeAttributes \<and> sc \<noteq> ScopeBody then Inl BadScope
         else if maxSize < length doc then Inl TooLarge
         else (case decoder F doc of
             None \<Rightarrow> Inl NotJson
           | Some (JObj m) \<Rightarrow>
               if m = [] then Inl NotObject
               else rbind (parseObject F (sc = ScopeBody) 0 m) (\<lambda>r.
                 if maxKeys < leafKeys r \<and> sc = ScopeAttributes then Inl (TooManyKeys (leafKeys r))
                 else if maxCombinations < combinations r then Inl (TooManyCombinations (combinations r))
                 else Inr \<lparr>scope = sc, root = r\<rparr>)
           | Some _ \<Rightarrow> Inl NotObject))"

subsection \<open>Matching\<close>

fun jsonValue :: "filter_env \<Rightarrow> json \<Rightarrow> val list" where
  "jsonValue F (JStr s) = [VString s]"
| "jsonValue F (JNum q) = (case number F (JNum q) of Some f \<Rightarrow> [VNumber f] | None \<Rightarrow> [])"
| "jsonValue F (JBool b) = [VBoolean b]"
| "jsonValue F JNull = [VNil]"
| "jsonValue F (JArr xs) = concat (map (jsonValue F) xs)"
| "jsonValue F (JObj _) = []"

definition attrValues :: "filter_env \<Rightarrow> Attr \<Rightarrow> val list" where
  "attrValues F a =
     (let base = takeWhile (\<lambda>c. c \<noteq> CHR ''.'') (aType a)
      in if has_prefix (aType a) ''String.Array'' then
           (case decoder F (aValue a) of Some (JArr l) \<Rightarrow> concat (map (jsonValue F) l) | _ \<Rightarrow> [])
         else if base = ''Number'' then
           (case parse_num F (trim_space (aValue a)) of Some f \<Rightarrow> [VNumber f] | None \<Rightarrow> [])
         else if base = ''Binary'' then [VBinary]
         else [VString (aValue a)])"

definition compare :: "go_float \<Rightarrow> numCmp \<Rightarrow> bool" where
  "compare x c =
     (if nOp c = ''='' then fl_eq x (nVal c)
      else if nOp c = ''<'' then fl_less x (nVal c)
      else if nOp c = ''<='' then fl_le x (nVal c)
      else if nOp c = ''>'' then fl_less (nVal c) x
      else if nOp c = ''>='' then fl_le (nVal c) x
      else False)"

fun eq_matches :: "scalar \<Rightarrow> val \<Rightarrow> bool" where
  "eq_matches (SStr x) v = (v = VString x)"
| "eq_matches (SNum x) v = (case v of VNumber n \<Rightarrow> fl_eq n x | _ \<Rightarrow> False)"
| "eq_matches (SBool x) v = (v = VBoolean x)"
| "eq_matches SNull v = (v = VNil)"

definition on_string :: "(string \<Rightarrow> bool) \<Rightarrow> val \<Rightarrow> bool" where
  "on_string P v = (case v of VString s \<Rightarrow> P s | _ \<Rightarrow> False)"

fun matches :: "filter_env \<Rightarrow> cond \<Rightarrow> val \<Rightarrow> bool" where
  "matches F (Eq x) v = eq_matches x v"
| "matches F (HasPrefix p) v = on_string (\<lambda>s. has_prefix s p) v"
| "matches F (HasSuffix p) v = on_string (\<lambda>s. has_suffix s p) v"
| "matches F (EqIgnoreCase t) v = on_string (\<lambda>s. fold_eq F s t) v"
| "matches F (Numeric cs) v = (case v of VNumber n \<Rightarrow> list_all (compare n) cs | _ \<Rightarrow> False)"
| "matches F (Cidr p) v = on_string (prefix_has F p) v"
| "matches F _ v = False"

definition not_one_of :: "scalar list \<Rightarrow> val \<Rightarrow> bool" where
  "not_one_of xs v \<longleftrightarrow> \<not> list_ex (\<lambda>x. eq_matches x v) xs \<and> v \<noteq> VBinary"

fun cond_ok :: "filter_env \<Rightarrow> val list \<Rightarrow> bool \<Rightarrow> cond \<Rightarrow> bool" where
  "cond_ok F vals present (Exists b) = (b = present)"
| "cond_ok F vals present (AnythingBut xs) = (present \<and> vals \<noteq> [] \<and> list_all (not_one_of xs) vals)"
| "cond_ok F vals present (AnythingButPrefix p) =
     (present \<and> vals \<noteq> [] \<and> list_all (on_string (\<lambda>s. \<not> has_prefix s p)) vals)"
| "cond_ok F vals present (AnythingButSuffix p) =
     (present \<and> vals \<noteq> [] \<and> list_all (on_string (\<lambda>s. \<not> has_suffix s p)) vals)"
| "cond_ok F vals present c = (present \<and> list_ex (matches F c) vals)"

definition anyCond :: "filter_env \<Rightarrow> cond list \<Rightarrow> val list \<Rightarrow> bool \<Rightarrow> bool" where
  "anyCond F conds vals present = list_ex (cond_ok F vals present) conds"

text \<open>Message attributes: a nested node has no conditions there.\<close>

fun match_attrs :: "filter_env \<Rightarrow> Attr strmap \<Rightarrow> object \<Rightarrow> bool" where
  "match_attrs F attrs (Object ks os) =
     ((\<forall>(k, v) \<in> set ks.
         anyCond F (case v of Leaf cs \<Rightarrow> cs | Nested _ \<Rightarrow> [])
           (case lookup attrs k of Some a \<Rightarrow> attrValues F a | None \<Rightarrow> []) (lookup attrs k \<noteq> None)) \<and>
      (\<forall>b \<in> set os. \<exists>x \<in> set b. match_attrs F attrs x))"

definition MatchAttributes :: "filter_env \<Rightarrow> Policy \<Rightarrow> Attr strmap \<Rightarrow> bool" where
  "MatchAttributes F p attrs = match_attrs F attrs (root p)"

fun matchBody :: "filter_env \<Rightarrow> object \<Rightarrow> json strmap \<Rightarrow> bool"
and match_node :: "filter_env \<Rightarrow> node \<Rightarrow> json option \<Rightarrow> bool" where
  "matchBody F (Object ks os) m =
     ((\<forall>(k, v) \<in> set ks. match_node F v (lookup m k)) \<and> (\<forall>b \<in> set os. \<exists>x \<in> set b. matchBody F x m))"
| "match_node F (Leaf cs) got =
     anyCond F cs (case got of Some j \<Rightarrow> jsonValue F j | None \<Rightarrow> [VNil]) (got \<noteq> None)"
| "match_node F (Nested sub) got =
     (case got of
        Some (JObj t) \<Rightarrow> matchBody F sub t
      | Some (JArr l) \<Rightarrow> (\<exists>e \<in> set l. case e of JObj mm \<Rightarrow> matchBody F sub mm | _ \<Rightarrow> False)
      | _ \<Rightarrow> False)"

definition MatchBody :: "filter_env \<Rightarrow> Policy \<Rightarrow> string \<Rightarrow> bool" where
  "MatchBody F p body = (case decoder F body of Some (JObj m) \<Rightarrow> matchBody F (root p) m | _ \<Rightarrow> False)"

subsection \<open>What a policy document says\<close>

text \<open>A literal of the document is the value \<open>v\<close>.\<close>

definition is_value :: "filter_env \<Rightarrow> json \<Rightarrow> val \<Rightarrow> bool" where
  "is_value F e v =
     (case (e, v) of
        (JStr s, VString t) \<Rightarrow> s = t
      | (JNum q, VNumber n) \<Rightarrow> (case to_float F q of Some x \<Rightarrow> fl_eq n (Fin x) | None \<Rightarrow> False)
      | (JBool b, VBoolean c) \<Rightarrow> b = c
      | (JNull, VNil) \<Rightarrow> True
      | _ \<Rightarrow> False)"

text \<open>A list such as \<^verbatim>\<open>[">", 0, "<=", 5]\<close> holds of a number.\<close>

fun in_range :: "filter_env \<Rightarrow> json list \<Rightarrow> go_float \<Rightarrow> bool" where
  "in_range F (JStr op # JNum q # rest) n =
     ((case to_float F q of Some x \<Rightarrow> compare n \<lparr>nOp = op, nVal = Fin x\<rparr> | None \<Rightarrow> False) \<and> in_range F rest n)"
| "in_range F [] n = True"
| "in_range F _ n = False"

text \<open>What the argument of \<^verbatim>\<open>anything-but\<close> excludes.\<close>

definition excludes :: "filter_env \<Rightarrow> json \<Rightarrow> val \<Rightarrow> bool" where
  "excludes F arg v =
     (case arg of
        JObj [(k, JStr p)] \<Rightarrow>
          \<not> on_string (\<lambda>t. \<not> (if k = ''prefix'' then has_prefix t p else has_suffix t p)) v
      | JArr l \<Rightarrow> (\<exists>e \<in> set l. is_value F e v) \<or> v = VBinary
      | _ \<Rightarrow> is_value F arg v \<or> v = VBinary)"

text \<open>An operator whose argument is a string, as a test of a string.\<close>

definition string_op :: "filter_env \<Rightarrow> string \<Rightarrow> string \<Rightarrow> string \<Rightarrow> bool" where
  "string_op F op s t =
     (if op = ''prefix'' then has_prefix t s
      else if op = ''suffix'' then has_suffix t s
      else if op = ''equals-ignore-case'' then fold_eq F t s
      else if op = ''cidr'' then prefix_has F s t
      else False)"

text \<open>
  A condition of the document read directly: of the values of a key, one must be the literal or pass
  the operator, and for \<^verbatim>\<open>anything-but\<close> none may be excluded.
\<close>

definition says :: "filter_env \<Rightarrow> json \<Rightarrow> val list \<Rightarrow> bool \<Rightarrow> bool" where
  "says F e vals present =
     (case e of
        JObj [(op, arg)] \<Rightarrow>
          if op = ''exists'' then arg = JBool present
          else present \<and>
            (if op = ''anything-but'' then vals \<noteq> [] \<and> (\<forall>v \<in> set vals. \<not> excludes F arg v)
             else if op = ''numeric'' then
               (\<exists>v \<in> set vals. case (arg, v) of (JArr l, VNumber n) \<Rightarrow> in_range F l n | _ \<Rightarrow> False)
             else (\<exists>v \<in> set vals. case (arg, v) of (JStr s, VString t) \<Rightarrow> string_op F op s t | _ \<Rightarrow> False))
      | _ \<Rightarrow> present \<and> (\<exists>v \<in> set vals. is_value F e v))"

text \<open>
  The policy document read as a formula over message attributes: every key must hold, a key holds
  when one of its conditions does, \<^verbatim>\<open>$or\<close> when one of its entries does.
\<close>

fun attrs_sat :: "filter_env \<Rightarrow> Attr strmap \<Rightarrow> json \<Rightarrow> bool" where
  "attrs_sat F attrs (JObj m) =
     (\<forall>(k, v) \<in> set m.
        case v of
          JArr l \<Rightarrow>
            if k = ''$or'' then (\<exists>e \<in> set l. attrs_sat F attrs e)
            else (\<exists>e \<in> set l. says F e
              (case lookup attrs k of Some a \<Rightarrow> attrValues F a | None \<Rightarrow> []) (lookup attrs k \<noteq> None))
        | _ \<Rightarrow> False)"
| "attrs_sat F attrs _ = False"

text \<open>The same over the body of a message, with nested keys.\<close>

fun body_sat :: "filter_env \<Rightarrow> json \<Rightarrow> json strmap \<Rightarrow> bool" where
  "body_sat F (JObj m) msg =
     (\<forall>(k, v) \<in> set m.
        case v of
          JArr l \<Rightarrow>
            if k = ''$or'' then (\<exists>e \<in> set l. body_sat F e msg)
            else (\<exists>e \<in> set l. says F e
              (case lookup msg k of Some j \<Rightarrow> jsonValue F j | None \<Rightarrow> [VNil]) (lookup msg k \<noteq> None))
        | JObj t \<Rightarrow>
            k \<noteq> ''$or'' \<and>
            (case lookup msg k of
               Some (JObj msg') \<Rightarrow> body_sat F v msg'
             | Some (JArr es) \<Rightarrow> (\<exists>e \<in> set es. case e of JObj mm \<Rightarrow> body_sat F v mm | _ \<Rightarrow> False)
             | _ \<Rightarrow> False)
        | _ \<Rightarrow> False)"
| "body_sat F _ msg = False"

declare attrs_sat.simps(1) [simp del] body_sat.simps(1) [simp del]

lemma on_string_iff: "on_string P v \<longleftrightarrow> (\<exists>t. v = VString t \<and> P t)"
  by (cases v) (auto simp: on_string_def)

lemma eq_matches_is_value:
  "eq_matches (SStr s) v = is_value F (JStr s) v"
  "to_float F q = Some x \<Longrightarrow> eq_matches (SNum (Fin x)) v = is_value F (JNum q) v"
  "eq_matches (SBool b) v = is_value F (JBool b) v"
  "eq_matches SNull v = is_value F JNull v"
  by (cases v; auto simp: is_value_def)+

lemma excluded_is_value: "excluded F e = Inr x \<Longrightarrow> eq_matches x v = is_value F e v"
  by (cases e; cases v) (auto simp: excluded_def is_value_def split: option.splits)

lemma excluded_all:
  assumes "rmap (excluded F) es = Inr xs"
  shows "not_one_of xs v \<longleftrightarrow> \<not> ((\<exists>e \<in> set es. is_value F e v) \<or> v = VBinary)"
proof -
  have "list_all2 (\<lambda>e x. excluded F e = Inr x) es xs" using assms by (simp add: rmap_Inr)
  then have "list_ex (\<lambda>x. eq_matches x v) xs \<longleftrightarrow> (\<exists>e \<in> set es. is_value F e v)"
    by (induction rule: list_all2_induct) (auto simp: excluded_is_value)
  then show ?thesis by (auto simp: not_one_of_def)
qed

lemma parse_anything_but_excludes:
  assumes "parse_anything_but F arg = Inr c"
  shows "cond_ok F vals present c \<longleftrightarrow> present \<and> vals \<noteq> [] \<and> (\<forall>v \<in> set vals. \<not> excludes F arg v)"
proof (cases arg)
  case (JNum q)
  then show ?thesis using assms excluded_is_value [of F "JNum q"]
    by (auto simp: parse_anything_but_def excludes_def not_one_of_def list_all_iff)
next
  case (JStr s)
  then show ?thesis using assms
    by (auto simp: parse_anything_but_def excludes_def not_one_of_def list_all_iff eq_matches_is_value(1)[of _ _ F]
        simp del: eq_matches.simps)
next
  case (JArr l)
  then obtain xs where "rmap (excluded F) l = Inr xs" "c = AnythingBut xs"
    using assms by (cases l) (auto simp: parse_anything_but_def simp del: rmap.simps)
  then show ?thesis using JArr excluded_all by (auto simp: excludes_def list_all_iff)
next
  case (JObj m)
  then obtain k p where "m = [(k, JStr p)]" "k = ''prefix'' \<and> c = AnythingButPrefix p \<or> k = ''suffix'' \<and> c = AnythingButSuffix p"
    using assms by (auto simp: parse_anything_but_def split: list.splits prod.splits json.splits if_splits)
  then show ?thesis using JObj by (auto simp: excludes_def list_all_iff on_string_iff)
qed (use assms in \<open>auto simp: parse_anything_but_def\<close>)


lemma parse_cmp_holds:
  "parse_cmp F opv nv = Inr c \<Longrightarrow> in_range F (opv # nv # rest) n \<longleftrightarrow> compare n c \<and> in_range F rest n"
  by (cases opv; cases nv) (auto simp: parse_cmp_def split: option.splits if_splits)

lemma parse_numeric_range:
  assumes "parse_numeric F arg = Inr c"
  obtains l cs where "arg = JArr l" "c = Numeric cs" "\<And>n. list_all (compare n) cs = in_range F l n"
proof -
  obtain l where l: "arg = JArr l" using assms by (cases arg) (auto simp: parse_numeric_def)
  consider o1 n1 c1 where "l = [o1, n1]" "parse_cmp F o1 n1 = Inr c1" "c = Numeric [c1]"
    | o1 n1 c1 o2 n2 c2 where "l = [o1, n1, o2, n2]" "parse_cmp F o1 n1 = Inr c1" "parse_cmp F o2 n2 = Inr c2"
        "c = Numeric [c1, c2]"
    using assms unfolding l parse_numeric_def by (auto split: list.splits if_splits)
  then show thesis
    by cases (auto intro!: that [OF l] simp: parse_cmp_holds)
qed

lemma parseOp_says:
  assumes "parseOp F op arg = Inr c"
  shows "cond_ok F vals present c = says F (JObj [(op, arg)]) vals present"
proof -
  consider "op = ''numeric''" | "op = ''anything-but''" | "op = ''exists''"
    | "op \<in> {''prefix'', ''suffix'', ''equals-ignore-case'', ''cidr''}"
    using assms by (auto simp: parseOp_def split: if_splits)
  then show ?thesis
  proof cases
    case 1
    then have "parse_numeric F arg = Inr c" using assms by (simp add: parseOp_def)
    then obtain l cs where "arg = JArr l" "c = Numeric cs" "\<And>n. list_all (compare n) cs = in_range F l n"
      using parse_numeric_range by blast
    then show ?thesis using 1 by (auto simp: says_def list_ex_iff split: val.splits)
  next
    case 2
    then have "parse_anything_but F arg = Inr c" using assms by (simp add: parseOp_def)
    then show ?thesis using 2 by (simp add: says_def parse_anything_but_excludes)
  next
    case 3
    then show ?thesis using assms by (auto simp: parseOp_def says_def split: json.splits)
  next
    case 4
    then obtain s where "arg = JStr s" using assms by (auto simp: parseOp_def text_arg_def split: json.splits if_splits)
    then show ?thesis using 4 assms
      by (auto simp: parseOp_def text_arg_def says_def string_op_def list_ex_iff on_string_def cong: val.case_cong
          split: if_splits)
  qed
qed

lemma parseCond_says:
  assumes "parseCond F body e = Inr c"
  shows "cond_ok F vals present c = says F e vals present"
proof (cases e)
  case (JObj t)
  then obtain op arg where "t = [(op, arg)]" "parseOp F op arg = Inr c"
    using assms by (auto simp: parseCond_def split: list.splits prod.splits)
  then show ?thesis using JObj parseOp_says by simp
next
  case (JNum q)
  then show ?thesis using assms
    by (auto simp: parseCond_def says_def list_ex_iff eq_matches_is_value(2) simp del: eq_matches.simps
        split: option.splits)
qed (use assms in \<open>auto simp: parseCond_def says_def list_ex_iff eq_matches_is_value(1,3)[of _ _ F]
    eq_matches_is_value(4)[of _ F] simp del: eq_matches.simps split: if_splits\<close>)

lemma parse_conds_says:
  assumes "parse_conds F body k es = Inr cs"
  shows "anyCond F cs vals present \<longleftrightarrow> (\<exists>e \<in> set es. says F e vals present)"
proof -
  have "list_all2 (\<lambda>e c. parseCond F body e = Inr c) es cs"
    using assms by (auto simp: parse_conds_def rmap_Inr split: sum.splits)
  then show ?thesis unfolding anyCond_def by (induction rule: list_all2_induct) (auto simp: parseCond_says)
qed

lemma attrs_sat_sorted: "attrs_sat F attrs (JObj (sorted_entries m)) = attrs_sat F attrs (JObj m)"
  by (simp add: attrs_sat.simps(1))

lemma attrs_sat_Cons:
  "attrs_sat F attrs (JObj (e # es)) \<longleftrightarrow> attrs_sat F attrs (JObj [e]) \<and> attrs_sat F attrs (JObj es)"
  by (simp add: attrs_sat.simps(1))

lemma parsed_attrs_sat:
  "parseObject F nested depth m = Inr ob \<Longrightarrow> \<not> nested \<Longrightarrow> match_attrs F attrs ob = attrs_sat F attrs (JObj m)"
  "parse_entries F nested depth es = Inr (ks, os) \<Longrightarrow> \<not> nested \<Longrightarrow>
     match_attrs F attrs (Object ks os) = attrs_sat F attrs (JObj es)"
  "parse_branch F nested depth l = Inr bs \<Longrightarrow> \<not> nested \<Longrightarrow>
     (\<exists>x \<in> set bs. match_attrs F attrs x) = (\<exists>e \<in> set l. attrs_sat F attrs e)"
proof (induction F nested depth m and F nested depth es and F nested depth l
    arbitrary: ob and ks os and bs rule: parseObject_parse_entries_parse_branch.induct)
  case (1 F nested depth m)
  then obtain ks os where d: "\<not> 16 < depth" "parse_entries F nested depth (sorted_entries m) = Inr (ks, os)"
      "ob = Object ks os"
    by (auto simp: parseObject.simps split: if_splits)
  show ?case using 1(1) [OF d(1,2) 1(3)] unfolding d(3) attrs_sat_sorted .
next
  case (2 F nested depth)
  then show ?case by (simp add: attrs_sat.simps(1))
next
  case (3 F nested depth k v es)
  show ?case
  proof (cases "k = ''$or''")
    case True
    then obtain l b os' where l: "v = JArr l" "\<not> length l < 2" "parse_branch F nested depth l = Inr b"
        "parse_entries F nested depth es = Inr (ks, os')" "os = b # os'"
      using 3(6) by (auto split: json.splits if_splits)
    have "(\<exists>x \<in> set b. match_attrs F attrs x) = attrs_sat F attrs (JObj [(k, v)])"
      using 3(1) [OF True l(1) l(2) l(3)] 3(7) l(1) True by (simp add: attrs_sat.simps(1))
    then show ?thesis
      using 3(2) [OF True l(1) l(2) l(3) _ 3(7)] l by (subst attrs_sat_Cons) auto
  next
    case False
    then obtain t cs ks' where t: "v = JArr t" "t \<noteq> []" "parse_conds F nested k t = Inr cs"
        "parse_entries F nested depth es = Inr (ks', os)" "ks = (k, Leaf cs) # ks'"
      using 3(6,7) by (auto split: json.splits if_splits)
    have "anyCond F cs vals present = attrs_sat F attrs (JObj [(k, v)])"
      if "vals = (case lookup attrs k of Some a \<Rightarrow> attrValues F a | None \<Rightarrow> [])" "present = (lookup attrs k \<noteq> None)"
      for vals present
      using parse_conds_says [OF t(3)] that 3(7) t(1) False by (simp add: attrs_sat.simps(1))
    then show ?thesis
      using 3(3) [OF False t(1) t(2) t(3) _ 3(7)] t by (subst attrs_sat_Cons) auto
  qed
next
  case (5 F nested depth e es)
  then show ?case by (fastforce split: json.splits if_splits)
qed auto

lemma body_sat_sorted: "body_sat F (JObj (sorted_entries m)) msg = body_sat F (JObj m) msg"
  by (simp add: body_sat.simps(1))

lemma body_sat_Cons:
  "body_sat F (JObj (e # es)) msg \<longleftrightarrow> body_sat F (JObj [e]) msg \<and> body_sat F (JObj es) msg"
  by (simp add: body_sat.simps(1))

lemma parsed_body_sat:
  "parseObject F nested depth m = Inr ob \<Longrightarrow> nested \<Longrightarrow> matchBody F ob msg = body_sat F (JObj m) msg"
  "parse_entries F nested depth es = Inr (ks, os) \<Longrightarrow> nested \<Longrightarrow>
     matchBody F (Object ks os) msg = body_sat F (JObj es) msg"
  "parse_branch F nested depth l = Inr bs \<Longrightarrow> nested \<Longrightarrow>
     (\<exists>x \<in> set bs. matchBody F x msg) = (\<exists>e \<in> set l. body_sat F e msg)"
proof (induction F nested depth m and F nested depth es and F nested depth l
    arbitrary: ob msg and ks os msg and bs msg rule: parseObject_parse_entries_parse_branch.induct)
  case (1 F nested depth m)
  then obtain ks os where d: "\<not> 16 < depth" "parse_entries F nested depth (sorted_entries m) = Inr (ks, os)"
      "ob = Object ks os"
    by (auto simp: parseObject.simps split: if_splits)
  show ?case using 1(1) [OF d(1,2) 1(3)] unfolding d(3) body_sat_sorted .
next
  case (2 F nested depth)
  then show ?case by (simp add: body_sat.simps(1))
next
  case (3 F nested depth k v es)
  show ?case
  proof (cases "k = ''$or''")
    case True
    then obtain l b os' where l: "v = JArr l" "\<not> length l < 2" "parse_branch F nested depth l = Inr b"
        "parse_entries F nested depth es = Inr (ks, os')" "os = b # os'"
      using 3(6) by (auto split: json.splits if_splits)
    have "(\<exists>x \<in> set b. matchBody F x msg) = body_sat F (JObj [(k, v)]) msg"
      using 3(1) [OF True l(1) l(2) l(3)] 3(7) l(1) True by (simp add: body_sat.simps(1))
    then show ?thesis
      using 3(2) [OF True l(1) l(2) l(3) l(4) 3(7), of msg] l by (subst body_sat_Cons) auto
  next
    case False
    then consider (leaf) t cs ks' where "v = JArr t" "t \<noteq> []" "parse_conds F nested k t = Inr cs"
        "parse_entries F nested depth es = Inr (ks', os)" "ks = (k, Leaf cs) # ks'"
      | (nest) t sub ks' where "v = JObj t" "parseObject F nested (Suc depth) t = Inr sub"
        "parse_entries F nested depth es = Inr (ks', os)" "ks = (k, Nested sub) # ks'"
      using 3(6,7) by (auto split: json.splits if_splits)
    then show ?thesis
    proof cases
      case leaf
      have "match_node F (Leaf cs) (lookup msg k) = body_sat F (JObj [(k, v)]) msg"
        using parse_conds_says [OF leaf(3)] 3(7) leaf(1) False by (simp add: body_sat.simps(1))
      then show ?thesis
        using 3(3) [OF False leaf(1) leaf(2) leaf(3) leaf(4) 3(7), of msg] leaf by (subst body_sat_Cons) auto
    next
      case nest
      have "match_node F (Nested sub) (lookup msg k) = body_sat F (JObj [(k, v)]) msg"
        using 3(4) [OF False nest(1) _ nest(2) 3(7)] 3(7) nest(1) False
        by (auto simp: body_sat.simps(1) [of F "[(k, JObj t)]"] split: option.splits json.splits)
      then show ?thesis
        using 3(5) [OF False nest(1) _ nest(2) _ 3(7)] nest 3(7) by (subst body_sat_Cons) auto
    qed
  qed
next
  case (5 F nested depth e es)
  then show ?case by (fastforce split: json.splits if_splits)
qed auto

subsection \<open>Bounds\<close>

text \<open>The number of combinations without the limit of 64 bits.\<close>

fun exact_combinations :: "object \<Rightarrow> int" and node_exact :: "node \<Rightarrow> int" where
  "exact_combinations (Object ks os) =
     prod_list (map (\<lambda>(_, v). node_exact v) ks) * prod_list (map (\<lambda>b. sum_list (map exact_combinations b)) os)"
| "node_exact (Nested sub) = exact_combinations sub"
| "node_exact (Leaf cs) = int (length cs)"

lemma foldl_wrap_mult: "foldl (\<lambda>c x. wrap64 (c * x)) (wrap64 c) (map f xs) = wrap64 (c * prod_list (map g xs))"
  if "\<And>x. x \<in> set xs \<Longrightarrow> wrap64 (f x) = wrap64 (g x)"
  using that
proof (induction xs arbitrary: c)
  case (Cons x xs)
  have "wrap64 (wrap64 c * f x) = wrap64 (c * g x)"
    using Cons.prems [of x] by (metis list.set_intros(1) wrap64_mult wrap64_wrap64)
  then show ?case using Cons.IH [of "c * g x"] Cons.prems by (simp add: mult.assoc)
qed simp

lemma foldl_wrap_add: "foldl (\<lambda>c x. wrap64 (c + x)) (wrap64 c) (map f xs) = wrap64 (c + sum_list (map g xs))"
  if "\<And>x. x \<in> set xs \<Longrightarrow> wrap64 (f x) = wrap64 (g x)"
  using that
proof (induction xs arbitrary: c)
  case (Cons x xs)
  have "wrap64 (wrap64 c + f x) = wrap64 (c + g x)"
    using Cons.prems [of x] by (metis list.set_intros(1) wrap64_add wrap64_wrap64)
  then show ?case using Cons.IH [of "c + g x"] Cons.prems by (simp add: add.assoc)
qed simp

lemma wrap64_1: "wrap64 1 = 1" and wrap64_0: "wrap64 0 = 0"
  by (simp_all add: wrap64_id)

lemma combinations_wrap:
  "wrap64 (combinations ob) = wrap64 (exact_combinations ob)"
  "wrap64 (node_combinations nd) = wrap64 (node_exact nd)"
proof (induction ob and nd rule: combinations_node_combinations.induct)
  case (1 ks os)
  have keys: "foldl (\<lambda>c x. wrap64 (c * x)) 1 (map (\<lambda>(_, v). node_combinations v) ks)
      = wrap64 (prod_list (map (\<lambda>(_, v). node_exact v) ks))"
    using foldl_wrap_mult [of ks "\<lambda>(_, v). node_combinations v" "\<lambda>(_, v). node_exact v" 1] 1(1)
    by (fastforce simp: wrap64_1)
  have branch: "foldl (\<lambda>s x. wrap64 (s + x)) 0 (map combinations b) = wrap64 (sum_list (map exact_combinations b))"
    if "b \<in> set os" for b
    using foldl_wrap_add [of b combinations exact_combinations 0] 1(2) that by (fastforce simp: wrap64_0)
  have "combinations (Object ks os) = wrap64 (exact_combinations (Object ks os))"
    using foldl_wrap_mult [of os "\<lambda>b. foldl (\<lambda>s x. wrap64 (s + x)) 0 (map combinations b)"
      "\<lambda>b. sum_list (map exact_combinations b)" "prod_list (map (\<lambda>(_, v). node_exact v) ks)"] branch
    unfolding combinations.simps keys by (simp add: foldl_map)
  then show ?case by simp
qed simp_all

lemma combinations_wraps: "combinations ob = wrap64 (exact_combinations ob)"
proof (cases ob)
  case (Object ks os)
  have "wrap64 (combinations ob) = combinations ob" unfolding Object
    by (cases os rule: rev_cases; cases ks rule: rev_cases) (simp_all add: wrap64_1)
  then show ?thesis using combinations_wrap(1) [of ob] by simp
qed

lemma exact_nonneg: "0 \<le> exact_combinations ob" "0 \<le> node_exact nd"
proof (induction ob and nd rule: exact_combinations_node_exact.induct)
  case (1 ks os)
  have "0 \<le> prod_list (map (\<lambda>(_, v). node_exact v) ks)" using 1(1) by (induction ks) fastforce+
  moreover have "0 \<le> prod_list (map (\<lambda>b. sum_list (map exact_combinations b)) os)"
    using 1(2) by (induction os) (simp, fastforce intro!: mult_nonneg_nonneg sum_list_nonneg)
  ultimately show ?case by simp
qed simp_all

lemma Parse_root:
  assumes "Parse F doc sc = Inr p"
  obtains m where "decoder F doc = Some (JObj m)" "m \<noteq> []" "parseObject F (scope p = ScopeBody) 0 m = Inr (root p)"
    "scope p = (if sc = [] then ScopeAttributes else sc)" "scope p = ScopeAttributes \<or> scope p = ScopeBody"
    "scope p = ScopeAttributes \<longrightarrow> leafKeys (root p) \<le> maxKeys" "combinations (root p) \<le> maxCombinations"
  using assms unfolding Parse_def Let_def
  by (auto split: if_splits option.splits json.splits intro!: that)

text \<open>
  C21. A filter policy decides as written. On message attributes an accepted policy passes exactly the
  messages that satisfy its JSON document, read directly as a formula: every key holds, a key holds when
  one of its conditions does on the values of the attribute, \<^verbatim>\<open>$or\<close> when one of its entries does.\<close>

theorem attribute_filter_decides_document:
  assumes "Parse F doc sc = Inr p" and "sc = [] \<or> sc = ScopeAttributes"
  shows "\<exists>m. decoder F doc = Some (JObj m) \<and> (\<forall>attrs. MatchAttributes F p attrs \<longleftrightarrow> attrs_sat F attrs (JObj m))"
proof -
  obtain m where m: "decoder F doc = Some (JObj m)" "parseObject F (scope p = ScopeBody) 0 m = Inr (root p)"
      "scope p = (if sc = [] then ScopeAttributes else sc)"
    using Parse_root [OF assms(1)] by blast
  have "scope p \<noteq> ScopeBody" using m(3) assms(2) by (auto simp: ScopeAttributes_def ScopeBody_def split: if_splits)
  then show ?thesis using m parsed_attrs_sat(1) by (fastforce simp: MatchAttributes_def)
qed

text \<open>
  On message bodies an accepted policy passes exactly the messages whose body is a JSON object that
  satisfies the document, nested keys reaching into nested objects and into the objects of an array.\<close>

theorem body_filter_decides_document:
  assumes "Parse F doc ScopeBody = Inr p"
  shows "\<exists>m. decoder F doc = Some (JObj m) \<and>
    (\<forall>body. MatchBody F p body \<longleftrightarrow> (\<exists>msg. decoder F body = Some (JObj msg) \<and> body_sat F (JObj m) msg))"
proof -
  obtain m where m: "decoder F doc = Some (JObj m)" "parseObject F (scope p = ScopeBody) 0 m = Inr (root p)"
      "scope p = (if ScopeBody = [] then ScopeAttributes else ScopeBody)"
    using Parse_root [OF assms] by blast
  have "scope p = ScopeBody" using m(3) by (simp add: ScopeBody_def)
  then have "matchBody F (root p) msg = body_sat F (JObj m) msg" for msg using m(2) parsed_body_sat(1) by fastforce
  then show ?thesis using m(1) by (auto simp: MatchBody_def split: option.splits json.splits)
qed

text \<open>
  C24. The limits of a policy. The combinations of an accepted policy, counted exactly, are at most 150 as
  long as their number fits into 64 bits, and on attributes it has at most five keys.\<close>

theorem accepted_filter_within_limits:
  assumes "Parse F doc sc = Inr p" and "exact_combinations (root p) < 2 ^ 63"
  shows "exact_combinations (root p) \<le> maxCombinations \<and> (scope p = ScopeAttributes \<longrightarrow> leafKeys (root p) \<le> maxKeys)"
proof -
  have "combinations (root p) = exact_combinations (root p)"
    using assms(2) exact_nonneg(1) [of "root p"] by (simp add: combinations_wraps wrap64_id)
  then show ?thesis using Parse_root [OF assms(1)] by metis
qed


text \<open>
  The count of 64 keys with two conditions each is \<open>2 ^ 64\<close>, which wraps to zero: the policy is accepted.
\<close>

lemma leaf_entries:
  "''$or'' \<notin> set ks \<Longrightarrow> parse_entries F True d (map (\<lambda>k. (k, JArr [JStr a, JStr b])) ks) =
     Inr (map (\<lambda>k. (k, Leaf [Eq (SStr a), Eq (SStr b)])) ks, [])"
  by (induction ks) (auto simp: parse_conds_def parseCond_def)

lemma sort_map_fst: "sort_key fst (map (\<lambda>k. (k, v)) ks) = map (\<lambda>k. (k, v)) (sort ks)"
proof (induction ks)
  case (Cons k ks)
  have "insort_key fst (x, v) (map (\<lambda>k. (k, v)) xs) = map (\<lambda>k. (k, v)) (insort x xs)" for x xs
    by (induction xs) auto
  then show ?case using Cons by simp
qed simp

theorem overflowing_filter_accepted:
  assumes "decoder F doc = Some (JObj (map (\<lambda>k. (k, JArr [JStr a, JStr b])) ks))"
    and "length ks = 64" and "''$or'' \<notin> set ks" and "length doc \<le> maxSize"
  shows "\<exists>p. Parse F doc ScopeBody = Inr p \<and> exact_combinations (root p) = 2 ^ 64"
proof -
  let ?e = "\<lambda>k. (k, JArr [JStr a, JStr b])" and ?l = "\<lambda>k. (k, Leaf [Eq (SStr a), Eq (SStr b)])"
  have sorted: "sorted_entries (map ?e ks) = map ?e (sort ks)"
    unfolding sorted_entries_def by (rule sort_map_fst)
  have parsed: "parseObject F True 0 (map ?e ks) = Inr (Object (map ?l (sort ks)) [])"
    unfolding parseObject.simps sorted using leaf_entries [of "sort ks"] assms(3) by simp
  have exact: "exact_combinations (Object (map ?l (sort ks)) []) = 2 ^ 64"
    using assms(2) by (simp add: comp_def prod_list_replicate map_replicate_const)
  then have "combinations (Object (map ?l (sort ks)) []) = 0" unfolding combinations_wraps by (simp add: wrap64_def)
  moreover have "ScopeBody \<noteq> ScopeAttributes" "ScopeBody \<noteq> []" "ks \<noteq> []"
    using assms(2) by (auto simp: ScopeBody_def ScopeAttributes_def)
  ultimately have "Parse F doc ScopeBody = Inr \<lparr>scope = ScopeBody, root = Object (map ?l (sort ks)) []\<rparr>"
    using assms(1,4) parsed by (simp add: Parse_def Let_def maxCombinations_def del: combinations.simps)
  then show ?thesis using exact by simp
qed


text \<open>A parser for the witnesses: two policies and two bodies.\<close>

definition demo_decoder :: "string \<Rightarrow> json option" where
  "demo_decoder d =
     (if d = ''policy'' then Some (JObj [(''color'', JArr [JStr ''red'', JObj [(''prefix'', JStr ''bl'')]])])
      else if d = ''wide'' then Some (JObj (map (\<lambda>k. (k, JArr [JStr ''a'', JStr ''b'']))
        (map (\<lambda>n. replicate n CHR ''k'') [0..<64])))
      else if d = ''body'' then Some (JObj [(''color'', JStr ''blue'')])
      else if d = ''other'' then Some (JObj [(''color'', JStr ''green'')])
      else None)"

definition demo :: filter_env where
  "demo = \<lparr>decoder = demo_decoder, to_float = Some, parse_num = (\<lambda>_. None), fold_eq = (=),
     prefix_ok = (\<lambda>_. False), prefix_has = (\<lambda>_ _. False)\<rparr>"

definition demo_policy :: "string \<Rightarrow> Policy" where
  "demo_policy sc = \<lparr>scope = sc, root = Object [(''color'', Leaf [Eq (SStr ''red''), HasPrefix ''bl''])] []\<rparr>"

lemma demo_parses: "sc = ScopeAttributes \<or> sc = ScopeBody \<Longrightarrow> Parse demo ''policy'' sc = Inr (demo_policy sc)"
  by (auto simp: Parse_def demo_def demo_decoder_def demo_policy_def ScopeAttributes_def ScopeBody_def maxSize_def
      maxKeys_def maxCombinations_def parseObject.simps sorted_entries_def parse_conds_def parseCond_def parseOp_def
      text_arg_def wrap64_def)

theorem attribute_filter_decides_document_witness:
  "MatchAttributes demo (demo_policy ScopeAttributes) [(''color'', \<lparr>aType = ''String'', aValue = ''blue''\<rparr>)] \<and>
   \<not> MatchAttributes demo (demo_policy ScopeAttributes) []"
  using attribute_filter_decides_document [OF demo_parses [of ScopeAttributes]]
  by (auto simp: demo_def demo_decoder_def attrs_sat.simps(1) says_def lookup_def attrValues_def string_op_def
      has_prefix_def)

theorem body_filter_decides_document_witness:
  "MatchBody demo (demo_policy ScopeBody) ''body'' \<and> \<not> MatchBody demo (demo_policy ScopeBody) ''other''"
proof -
  obtain m where m: "decoder demo ''policy'' = Some (JObj m)"
      "MatchBody demo (demo_policy ScopeBody) body \<longleftrightarrow>
         (\<exists>msg. decoder demo body = Some (JObj msg) \<and> body_sat demo (JObj m) msg)" for body
    using body_filter_decides_document [OF demo_parses [of ScopeBody]] by blast
  have "m = [(''color'', JArr [JStr ''red'', JObj [(''prefix'', JStr ''bl'')]])]"
    using m(1) by (simp add: demo_def demo_decoder_def)
  then show ?thesis unfolding m(2)
    by (simp add: demo_def demo_decoder_def body_sat.simps(1) says_def lookup_def string_op_def has_prefix_def
        is_value_def)
qed

theorem accepted_filter_within_limits_witness:
  "exact_combinations (root (demo_policy ScopeAttributes)) \<le> maxCombinations"
  using accepted_filter_within_limits [OF demo_parses [of ScopeAttributes]]
  by (simp add: demo_policy_def)

theorem overflowing_filter_accepted_witness:
  "\<exists>p. Parse demo ''wide'' ScopeBody = Inr p \<and> exact_combinations (root p) = 2 ^ 64"
  by (rule overflowing_filter_accepted [where a = "''a''" and b = "''b''"
        and ks = "map (\<lambda>n. replicate n CHR ''k'') [0..<64]"])
    (auto simp: demo_def demo_decoder_def maxSize_def Cons_replicate_eq)

text \<open>
  A Binary attribute passes no condition but \<^verbatim>\<open>{"exists": true}\<close>, and the negated conditions
  \<^verbatim>\<open>anything-but\<close> least of all.\<close>

theorem binary_attribute_only_exists:
  assumes "takeWhile (\<lambda>c. c \<noteq> CHR ''.'') (aType a) = ''Binary''"
  shows "anyCond F conds (attrValues F a) True \<longleftrightarrow> Exists True \<in> set conds"
proof -
  have "\<not> has_prefix (aType a) ''String.Array''"
  proof
    assume "has_prefix (aType a) ''String.Array''"
    then have "take 12 (aType a) = ''String.Array''" by (simp add: has_prefix_def numeral_eq_Suc)
    then obtain r where "aType a = ''String.Array'' @ r" by (metis append_take_drop_id)
    then show False using assms by simp
  qed
  then have v: "attrValues F a = [VBinary]" using assms by (simp add: attrValues_def)
  have "eq_matches x VBinary = False" for x by (cases x) auto
  then have "cond_ok F [VBinary] True c \<longleftrightarrow> c = Exists True" for c
    by (cases c) (auto simp: not_one_of_def on_string_def)
  then show ?thesis unfolding v anyCond_def list_ex_iff by auto
qed

theorem binary_attribute_only_exists_witness:
  "anyCond demo [AnythingBut [SStr ''x'']] (attrValues demo \<lparr>aType = ''Binary'', aValue = ''AA==''\<rparr>) True = False"
  using binary_attribute_only_exists [of "\<lparr>aType = ''Binary'', aValue = ''AA==''\<rparr>" demo "[AnythingBut [SStr ''x'']]"]
  by simp

end
