(* ===== verification/PolicyEngine.thy ===== *)
theory PolicyEngine
  imports Wildcards
begin

text \<open>
  The policy engine, \<^verbatim>\<open>policyengine/engine.go\<close>: statements are compiled to Cedar policies, and a
  request is decided by them.

  Cedar (\<^verbatim>\<open>cedar-go\<close>) is not part of the repository. It is the parameter \<open>C\<close>: its parsers, its
  evaluation of a policy's condition, where None is an evaluation error, and its decision on a policy
  set. What the engine relies on is the locale \<open>cedar\<close>. The text of a condition is modelled as the
  expression it denotes, which it does for attribute names that are identifiers and printable strings;
  whether Cedar accepts the whole text is asked of \<open>parses\<close>.
\<close>

subsection \<open>Statements\<close>

record IPCondition =
  ipKey :: string
  ipCIDR :: string
  ipNegate :: bool

record LikeCondition =
  lcKey :: string
  lcPattern :: string
  lcNegate :: bool

record TimeCondition =
  tcKey :: string
  tcOp :: string
  tcTarget :: string

record KeyCondition =
  kcKey :: string
  kcOp :: string
  kcValue :: string
  kcIfExists :: bool

record Statement =
  Effect :: string
  Actions :: "string list"
  NotActions :: "string list"
  Resources :: "string list"
  NotResources :: "string list"
  Condition :: "string strmap"
  IPConditions :: "IPCondition list"
  LikeConditions :: "LikeCondition list"
  TimeConditions :: "TimeCondition list"
  KeyConditions :: "KeyCondition list"

definition Allow :: string where "Allow = ''Allow''"
definition Deny :: string where "Deny = ''Deny''"
definition KeyNull :: string where "KeyNull = ''null''"

subsection \<open>Cedar\<close>

datatype cvalue =
    CStr string
  | CBool bool
  | CLong int

text \<open>The conditions the engine writes; an attribute is one of the request's context.\<close>

datatype cexpr =
    EFalse
  | EHas string
  | EEq string cvalue
  | ECmp string string cvalue
  | ELike string string
  | EInRange string string
  | ETime string string string
  | ENot cexpr
  | EAnd "cexpr list"
  | EOr "cexpr list"

record clause =
  cl_forbids :: bool
  cl_guard :: bool
  cl_when :: cexpr

record cedar_api =
  parses :: "clause list \<Rightarrow> bool"
  evaluates :: "cexpr \<Rightarrow> cvalue strmap \<Rightarrow> bool option"
  is_authorized :: "clause list \<Rightarrow> cvalue strmap \<Rightarrow> bool \<times> clause list"
  parse_ip :: "string \<Rightarrow> bool"
  parse_datetime :: "string \<Rightarrow> bool"
  in_range :: "string \<Rightarrow> string \<Rightarrow> bool"
  time_compare :: "string \<Rightarrow> string \<Rightarrow> string \<Rightarrow> bool"

definition compares :: "string \<Rightarrow> cvalue \<Rightarrow> cvalue \<Rightarrow> bool option" where
  "compares oper x y =
     (if oper = ''=='' then Some (x = y)
      else if oper = ''!='' then Some (x \<noteq> y)
      else case (x, y) of
          (CLong m, CLong n) \<Rightarrow>
            (if oper = ''<'' then Some (m < n) else if oper = ''<='' then Some (m \<le> n)
             else if oper = ''>'' then Some (m > n) else if oper = ''>='' then Some (m \<ge> n) else None)
        | _ \<Rightarrow> None)"

text \<open>
  Cedar's documented behaviour: an absent attribute, an operator on a value of another type and text
  that is no address or time are errors; conjunction and disjunction stop early; a forbid that is
  satisfied overrides the permits; a policy whose condition fails to evaluate is skipped.
\<close>

locale cedar =
  fixes C :: cedar_api
  assumes eval_false: "evaluates C EFalse c = Some False"
    and eval_has: "evaluates C (EHas k) c = Some (lookup c k \<noteq> None)"
    and eval_eq: "evaluates C (EEq k v) c = map_option (\<lambda>x. x = v) (lookup c k)"
    and eval_cmp: "evaluates C (ECmp k oper v) c = Option.bind (lookup c k) (\<lambda>x. compares oper x v)"
    and eval_like: "evaluates C (ELike k p) c =
      (case lookup c k of Some (CStr s) \<Rightarrow> Some (wmatch False p s) | _ \<Rightarrow> None)"
    and eval_in_range: "evaluates C (EInRange k r) c =
      (case lookup c k of
         Some (CStr s) \<Rightarrow> if parse_ip C s \<and> parse_ip C r then Some (in_range C s r) else None
       | _ \<Rightarrow> None)"
    and eval_time: "evaluates C (ETime k oper d) c =
      (case lookup c k of
         Some (CStr s) \<Rightarrow> if parse_datetime C s \<and> parse_datetime C d then Some (time_compare C oper s d) else None
       | _ \<Rightarrow> None)"
    and eval_not: "evaluates C (ENot e) c = map_option Not (evaluates C e c)"
    and eval_and_Nil: "evaluates C (EAnd []) c = Some True"
    and eval_and: "evaluates C (EAnd (e # es)) c =
      (case evaluates C e c of Some True \<Rightarrow> evaluates C (EAnd es) c | b \<Rightarrow> b)"
    and eval_or_Nil: "evaluates C (EOr []) c = Some False"
    and eval_or: "evaluates C (EOr (e # es)) c =
      (case evaluates C e c of Some False \<Rightarrow> evaluates C (EOr es) c | b \<Rightarrow> b)"
    and permits: "fst (is_authorized C ps c) \<longleftrightarrow>
      (\<exists>p \<in> set ps. \<not> cl_forbids p \<and> evaluates C (cl_when p) c = Some True) \<and>
      (\<forall>p \<in> set ps. cl_forbids p \<longrightarrow> evaluates C (cl_when p) c \<noteq> Some True)"
    and reasons: "\<not> fst (is_authorized C ps c) \<Longrightarrow>
      snd (is_authorized C ps c) = filter (\<lambda>p. cl_forbids p \<and> evaluates C (cl_when p) c = Some True) ps"

subsection \<open>Compiling a statement\<close>

datatype engine_error =
    BadEffect nat string
  | BothSet nat string
  | BadResource nat string
  | IPIncomplete nat
  | LikeIncomplete nat
  | TimeIncomplete nat
  | TimeOperator nat string
  | NoAttribute nat string
  | NullValue nat string
  | BoolOperator nat string
  | NotANumber nat string
  | NumericOperator nat string
  | TwoKinds nat string
  | DoesNotParse
  | BoundaryError engine_error

definition wildcard :: "string list \<Rightarrow> bool" where
  "wildcard xs \<longleftrightarrow> xs = [] \<or> xs = [''*'']"

definition match_one :: "string \<Rightarrow> string \<Rightarrow> cexpr" where
  "match_one field v = (if CHR ''*'' \<in> set v then ELike field v else EEq field (CStr v))"

definition matchAny :: "string \<Rightarrow> string list \<Rightarrow> cexpr option" where
  "matchAny field values = (if wildcard values then None else Some (EOr (map (match_one field) values)))"

definition complementClause :: "string \<Rightarrow> string list \<Rightarrow> cexpr" where
  "complementClause field exclude =
     (case matchAny field exclude of None \<Rightarrow> EFalse | Some e \<Rightarrow> ENot e)"

definition whole_bucket :: "string \<Rightarrow> bool" where
  "whole_bucket e \<longleftrightarrow> has_prefix e ''Bucket::'' \<and> drop 8 e \<noteq> [] \<and>
     CHR ''/'' \<notin> set (drop 8 e) \<and> CHR ''*'' \<notin> set (drop 8 e)"

definition withBucketObjects :: "string list \<Rightarrow> string list" where
  "withBucketObjects entries = entries @ map (\<lambda>e. e @ ''/*'') (filter whole_bucket entries)"

definition typed_resource :: "string \<Rightarrow> bool" where
  "typed_resource r \<longleftrightarrow> r = ''*'' \<or> r = [] \<or> index_of r ''::'' \<noteq> None"

definition scopeClause ::
  "string \<Rightarrow> string list \<Rightarrow> string list \<Rightarrow> nat \<Rightarrow> string \<Rightarrow> bool \<Rightarrow> (engine_error, cexpr option) result" where
  "scopeClause field positive negative idx axis typed =
     (if positive \<noteq> [] \<and> negative \<noteq> [] then Inl (BothSet idx axis)
      else case (if typed then find (\<lambda>r. \<not> typed_resource r) (positive @ negative) else None) of
          Some r \<Rightarrow> Inl (BadResource idx r)
        | None \<Rightarrow>
            let pos = (if typed then withBucketObjects positive else positive);
                neg = (if typed then withBucketObjects negative else negative)
            in if neg \<noteq> [] then Inr (Some (complementClause field neg)) else Inr (matchAny field pos))"

definition equals_term :: "string \<times> string \<Rightarrow> cexpr" where
  "equals_term = (\<lambda>(k, v). EEq k (if v = ''true'' \<or> v = ''false'' then CBool (v = ''true'') else CStr v))"

definition sorted_conditions :: "string strmap \<Rightarrow> string strmap" where
  "sorted_conditions m = sort_key fst m"

definition ip_term :: "IPCondition \<Rightarrow> cexpr" where
  "ip_term ip = (if ipNegate ip then ENot (EInRange (ipKey ip) (ipCIDR ip)) else EInRange (ipKey ip) (ipCIDR ip))"

definition like_term :: "LikeCondition \<Rightarrow> cexpr" where
  "like_term lk = (if lcNegate lk then ENot (ELike (lcKey lk) (lcPattern lk)) else ELike (lcKey lk) (lcPattern lk))"

definition time_term :: "TimeCondition \<Rightarrow> cexpr" where
  "time_term tc = ETime (tcKey tc) (tcOp tc) (tcTarget tc)"

definition kc_kind :: "KeyCondition \<Rightarrow> string" where
  "kc_kind k = (if kcOp k = KeyNull then [] else if kcValue k = ''true'' \<or> kcValue k = ''false'' then ''bool'' else ''long'')"

definition ident_char :: "char \<Rightarrow> bool" where
  "ident_char c \<longleftrightarrow> (let n = of_char c :: nat in 65 \<le> n \<and> n \<le> 90 \<or> 97 \<le> n \<and> n \<le> 122) \<or> c = CHR ''_''"

definition cedarIdent :: "string \<Rightarrow> bool" where
  "cedarIdent s = (case s of [] \<Rightarrow> False | c # cs \<Rightarrow> ident_char c \<and> list_all (\<lambda>x. ident_char x \<or> is_digit x) cs)"

text \<open>\<^verbatim>\<open>strconv.ParseInt(s, 10, 64)\<close>\<close>

definition parse_int64 :: "string \<Rightarrow> int option" where
  "parse_int64 s =
     (let (neg, ds) = (case s of [] \<Rightarrow> (False, [])
            | c # cs \<Rightarrow> if c = CHR ''-'' then (True, cs) else if c = CHR ''+'' then (False, cs) else (False, s));
          v = (if neg then - int (digits_value ds) else int (digits_value ds))
      in if ds \<noteq> [] \<and> list_all is_digit ds \<and> - (2 ^ 63) \<le> v \<and> v < 2 ^ 63 then Some v else None)"

definition key_test :: "KeyCondition \<Rightarrow> cvalue \<Rightarrow> cexpr" where
  "key_test k lit =
     (let test = ECmp (kcKey k) (kcOp k) lit
      in if kcIfExists k \<or> kcOp k = ''!='' then EOr [ENot (EHas (kcKey k)), test]
         else EAnd [EHas (kcKey k), test])"

definition cedarTerm :: "nat \<Rightarrow> KeyCondition \<Rightarrow> (engine_error, cexpr) result" where
  "cedarTerm idx k =
     (if \<not> cedarIdent (kcKey k) then Inl (NoAttribute idx (kcKey k))
      else if kcOp k = KeyNull then
        (if kcValue k = ''true'' then Inr (ENot (EHas (kcKey k)))
         else if kcValue k = ''false'' then Inr (EHas (kcKey k))
         else Inl (NullValue idx (kcValue k)))
      else if kc_kind k = ''bool'' then
        (if kcOp k \<noteq> ''=='' \<and> kcOp k \<noteq> ''!='' then Inl (BoolOperator idx (kcOp k))
         else Inr (key_test k (CBool (kcValue k = ''true''))))
      else case parse_int64 (kcValue k) of
          None \<Rightarrow> Inl (NotANumber idx (kcValue k))
        | Some n \<Rightarrow>
            if kcOp k \<in> {''=='', ''!='', ''<'', ''<='', ''>'', ''>=''} then Inr (key_test k (CLong n))
            else Inl (NumericOperator idx (kcOp k)))"

definition ip_checked :: "nat \<Rightarrow> IPCondition \<Rightarrow> (engine_error, cexpr) result" where
  "ip_checked idx ip = (if ipKey ip = [] \<or> ipCIDR ip = [] then Inl (IPIncomplete idx) else Inr (ip_term ip))"

definition like_checked :: "nat \<Rightarrow> LikeCondition \<Rightarrow> (engine_error, cexpr) result" where
  "like_checked idx lk = (if lcKey lk = [] \<or> lcPattern lk = [] then Inl (LikeIncomplete idx) else Inr (like_term lk))"

definition time_checked :: "nat \<Rightarrow> TimeCondition \<Rightarrow> (engine_error, cexpr) result" where
  "time_checked idx tc =
     (if tcKey tc = [] \<or> tcOp tc = [] \<or> tcTarget tc = [] then Inl (TimeIncomplete idx)
      else if tcOp tc \<notin> {''<'', ''<='', ''>'', ''>=''} then Inl (TimeOperator idx (tcOp tc))
      else Inr (time_term tc))"

definition read_keys :: "Statement \<Rightarrow> string list" where
  "read_keys s = map fst (sorted_conditions (Condition s)) @ map ipKey (IPConditions s) @
     map lcKey (LikeConditions s) @ map tcKey (TimeConditions s)"

definition value_term :: "bool \<Rightarrow> string list \<Rightarrow> cexpr list \<Rightarrow> cexpr list" where
  "value_term forbid keys vs =
     (if vs = [] then []
      else if forbid then [EOr [ENot (EAnd (map EHas (dedupe keys))), EAnd vs]]
      else vs)"

definition toCedar :: "nat \<Rightarrow> Statement \<Rightarrow> (engine_error, clause) result" where
  "toCedar idx s =
     (if Effect s \<noteq> Allow \<and> Effect s \<noteq> Deny then Inl (BadEffect idx (Effect s))
      else
        rbind (scopeClause ''action'' (Actions s) (NotActions s) idx ''Action'' False) (\<lambda>act.
        rbind (scopeClause ''resource'' (Resources s) (NotResources s) idx ''Resource'' True) (\<lambda>res.
        rbind (rmap (ip_checked idx) (IPConditions s)) (\<lambda>ips.
        rbind (rmap (like_checked idx) (LikeConditions s)) (\<lambda>likes.
        rbind (rmap (time_checked idx) (TimeConditions s)) (\<lambda>times.
        rbind (rmap (cedarTerm idx) (KeyConditions s)) (\<lambda>keyed.
          let vs = map equals_term (sorted_conditions (Condition s)) @ ips @ likes @ times
          in Inr \<lparr>cl_forbids = (Effect s = Deny), cl_guard = False,
               cl_when = EAnd (opt_list act @ opt_list res @ value_term (Effect s = Deny) (read_keys s) vs @ keyed)\<rparr>)))))))"

text \<open>The ceiling of a permission boundary; None is a boundary that allows everything.\<close>

fun boundary_permits :: "nat \<Rightarrow> Statement list \<Rightarrow> cexpr list \<Rightarrow> (engine_error, cexpr list option) result" where
  "boundary_permits i [] ps = Inr (Some ps)"
| "boundary_permits i (s # ss) ps =
     (if Effect s \<noteq> Allow then boundary_permits (Suc i) ss ps
      else case scopeClause ''action'' (Actions s) (NotActions s) i ''Action'' False of
          Inl e \<Rightarrow> Inl (BoundaryError e)
        | Inr act \<Rightarrow>
            (case scopeClause ''resource'' (Resources s) (NotResources s) i ''Resource'' True of
               Inl e \<Rightarrow> Inl (BoundaryError e)
             | Inr res \<Rightarrow>
                 if opt_list act @ opt_list res = [] then Inr None
                 else boundary_permits (Suc i) ss (ps @ [EAnd (opt_list act @ opt_list res)])))"

definition compileBoundary :: "Statement list \<Rightarrow> (engine_error, clause list) result" where
  "compileBoundary boundary =
     rbind (boundary_permits 0 boundary []) (\<lambda>ps.
       Inr (case ps of
          None \<Rightarrow> []
        | Some [] \<Rightarrow> [\<lparr>cl_forbids = True, cl_guard = True, cl_when = EAnd []\<rparr>]
        | Some es \<Rightarrow> [\<lparr>cl_forbids = True, cl_guard = True, cl_when = ENot (EOr es)\<rparr>]))"

subsection \<open>The engine\<close>

record Engine =
  policy_set :: "clause list"
  ipKeys :: "string set"
  timeKeys :: "string set"
  keyKinds :: "string strmap"

fun note_kinds :: "nat \<Rightarrow> KeyCondition list \<Rightarrow> string strmap \<Rightarrow> (engine_error, string strmap) result" where
  "note_kinds i [] m = Inr m"
| "note_kinds i (kc # kcs) m =
     (if kc_kind kc = [] then note_kinds i kcs m
      else case lookup m (kcKey kc) of
          Some prev \<Rightarrow> if prev \<noteq> kc_kind kc then Inl (TwoKinds i (kcKey kc)) else note_kinds i kcs (put (kcKey kc) (kc_kind kc) m)
        | None \<Rightarrow> note_kinds i kcs (put (kcKey kc) (kc_kind kc) m))"

fun compile_all :: "nat \<Rightarrow> Statement list \<Rightarrow> Engine \<Rightarrow> (engine_error, Engine) result" where
  "compile_all i [] e = Inr e"
| "compile_all i (s # ss) e =
     rbind (toCedar i s) (\<lambda>cl.
     rbind (note_kinds i (KeyConditions s) (keyKinds e)) (\<lambda>kinds.
       compile_all (Suc i) ss
         \<lparr>policy_set = policy_set e @ [cl], ipKeys = ipKeys e \<union> set (map ipKey (IPConditions s)),
          timeKeys = timeKeys e \<union> set (map tcKey (TimeConditions s)), keyKinds = kinds\<rparr>))"

definition newEngine :: "cedar_api \<Rightarrow> Statement list \<Rightarrow> clause list \<Rightarrow> (engine_error, Engine) result" where
  "newEngine C statements extra =
     rbind (compile_all 0 statements \<lparr>policy_set = [], ipKeys = {}, timeKeys = {}, keyKinds = []\<rparr>) (\<lambda>e.
       if parses C (policy_set e @ extra) then Inr (e\<lparr>policy_set := policy_set e @ extra\<rparr>) else Inl DoesNotParse)"

definition NewEngine :: "cedar_api \<Rightarrow> Statement list \<Rightarrow> (engine_error, Engine) result" where
  "NewEngine C statements = newEngine C statements []"

definition NewEngineWithBoundary :: "cedar_api \<Rightarrow> Statement list \<Rightarrow> Statement list \<Rightarrow> (engine_error, Engine) result" where
  "NewEngineWithBoundary C statements boundary = rbind (compileBoundary boundary) (newEngine C statements)"

text \<open>A request's context has values of any type; those Cedar has no type for are left out.\<close>

datatype attribute =
    Text string
  | Flag bool
  | Number int
  | Unsupported

record Request =
  rPrincipalType :: string
  rPrincipalID :: string
  rAction :: string
  rResourceType :: string
  rResourceID :: string
  rContext :: "attribute strmap"

datatype reason =
    AllowedByPolicy
  | Malformed string
  | ExplicitForbid
  | OutsideCeiling
  | DefaultDeny

record Decision =
  Allowed :: bool
  Reason :: reason
  ExplicitDeny :: bool

fun cedar_value :: "attribute \<Rightarrow> cvalue option" where
  "cedar_value (Text s) = Some (CStr s)"
| "cedar_value (Flag b) = Some (CBool b)"
| "cedar_value (Number n) = Some (CLong n)"
| "cedar_value Unsupported = None"

definition cedar_context :: "attribute strmap \<Rightarrow> cvalue strmap" where
  "cedar_context m = List.map_filter (\<lambda>(k, v). map_option (Pair k) (cedar_value v)) m"

definition has_kind :: "string \<Rightarrow> cvalue \<Rightarrow> bool" where
  "has_kind kd v =
     (if kd = ''bool'' then case v of CBool _ \<Rightarrow> True | _ \<Rightarrow> False
      else if kd = ''long'' then case v of CLong _ \<Rightarrow> True | _ \<Rightarrow> False
      else True)"

definition malformed_key :: "Engine \<Rightarrow> cvalue strmap \<Rightarrow> string option" where
  "malformed_key e c =
     map_option fst (find (\<lambda>(k, kd). case lookup c k of None \<Rightarrow> False | Some v \<Rightarrow> \<not> has_kind kd v) (keyKinds e))"

definition is_text :: "(string \<Rightarrow> bool) \<Rightarrow> cvalue \<Rightarrow> bool" where
  "is_text P v = (case v of CStr s \<Rightarrow> P s | _ \<Rightarrow> False)"

definition sanitise :: "string set \<Rightarrow> (string \<Rightarrow> bool) \<Rightarrow> cvalue strmap \<Rightarrow> cvalue strmap" where
  "sanitise keys P c = filter (\<lambda>(k, v). k \<in> keys \<longrightarrow> is_text P v) c"

definition request_context :: "cedar_api \<Rightarrow> Engine \<Rightarrow> Request \<Rightarrow> cvalue strmap" where
  "request_context C e r =
     put ''resource'' (CStr (rResourceType r @ ''::'' @ rResourceID r))
      (put ''action'' (CStr (rAction r))
        (sanitise (timeKeys e) (parse_datetime C) (sanitise (ipKeys e) (parse_ip C) (cedar_context (rContext r)))))"

definition Authorize :: "cedar_api \<Rightarrow> Engine \<Rightarrow> Request \<Rightarrow> Decision" where
  "Authorize C e r =
     (case malformed_key e (cedar_context (rContext r)) of
        Some k \<Rightarrow> \<lparr>Allowed = False, Reason = Malformed k, ExplicitDeny = False\<rparr>
      | None \<Rightarrow>
          let (allow, reasons) = is_authorized C (policy_set e) (request_context C e r)
          in if allow then \<lparr>Allowed = True, Reason = AllowedByPolicy, ExplicitDeny = False\<rparr>
             else if reasons \<noteq> [] then
               (if list_ex (\<lambda>p. \<not> cl_guard p) reasons
                then \<lparr>Allowed = False, Reason = ExplicitForbid, ExplicitDeny = True\<rparr>
                else \<lparr>Allowed = False, Reason = OutsideCeiling, ExplicitDeny = False\<rparr>)
             else \<lparr>Allowed = False, Reason = DefaultDeny, ExplicitDeny = False\<rparr>)"

subsection \<open>What the statements say\<close>

text \<open>
  AWS's reading of a statement. An entry names what it matches as a wildcard pattern, a bucket its
  objects as well. A Deny whose conditions read an attribute the request does not have applies.
\<close>

definition entry_names :: "bool \<Rightarrow> string \<Rightarrow> string \<Rightarrow> bool" where
  "entry_names typed p x \<longleftrightarrow> wmatch False p x \<or> typed \<and> whole_bucket p \<and> has_prefix x (p @ ''/'')"

definition in_scope :: "bool \<Rightarrow> string list \<Rightarrow> string list \<Rightarrow> string \<Rightarrow> bool" where
  "in_scope typed positive negative x \<longleftrightarrow>
     (if negative \<noteq> [] then \<not> (\<exists>p \<in> set negative. entry_names typed p x)
      else positive = [] \<or> (\<exists>p \<in> set positive. entry_names typed p x))"

definition equals_holds :: "cvalue strmap \<Rightarrow> string \<times> string \<Rightarrow> bool" where
  "equals_holds c = (\<lambda>(k, v). lookup c k =
     Some (if v = ''true'' then CBool True else if v = ''false'' then CBool False else CStr v))"

definition ip_holds :: "cedar_api \<Rightarrow> cvalue strmap \<Rightarrow> IPCondition \<Rightarrow> bool" where
  "ip_holds C c ip =
     (case lookup c (ipKey ip) of Some (CStr s) \<Rightarrow> in_range C s (ipCIDR ip) \<noteq> ipNegate ip | _ \<Rightarrow> False)"

definition like_holds :: "cvalue strmap \<Rightarrow> LikeCondition \<Rightarrow> bool" where
  "like_holds c lk =
     (case lookup c (lcKey lk) of Some (CStr s) \<Rightarrow> wmatch False (lcPattern lk) s \<noteq> lcNegate lk | _ \<Rightarrow> False)"

definition time_holds :: "cedar_api \<Rightarrow> cvalue strmap \<Rightarrow> TimeCondition \<Rightarrow> bool" where
  "time_holds C c tc =
     (case lookup c (tcKey tc) of Some (CStr s) \<Rightarrow> time_compare C (tcOp tc) s (tcTarget tc) | _ \<Rightarrow> False)"

definition key_literal :: "KeyCondition \<Rightarrow> cvalue" where
  "key_literal kc = (if kc_kind kc = ''bool'' then CBool (kcValue kc = ''true'')
     else CLong (case parse_int64 (kcValue kc) of Some n \<Rightarrow> n | None \<Rightarrow> 0))"

definition key_holds :: "cvalue strmap \<Rightarrow> KeyCondition \<Rightarrow> bool" where
  "key_holds c kc =
     (case lookup c (kcKey kc) of
        None \<Rightarrow> if kcOp kc = KeyNull then kcValue kc = ''true'' else kcIfExists kc \<or> kcOp kc = ''!=''
      | Some x \<Rightarrow> if kcOp kc = KeyNull then kcValue kc = ''false'' else compares (kcOp kc) x (key_literal kc) = Some True)"

definition conditions_hold :: "cedar_api \<Rightarrow> cvalue strmap \<Rightarrow> Statement \<Rightarrow> bool" where
  "conditions_hold C c s \<longleftrightarrow> (\<forall>e \<in> set (Condition s). equals_holds c e) \<and> (\<forall>ip \<in> set (IPConditions s). ip_holds C c ip) \<and>
     (\<forall>lk \<in> set (LikeConditions s). like_holds c lk) \<and> (\<forall>tc \<in> set (TimeConditions s). time_holds C c tc)"

definition st_applies :: "cedar_api \<Rightarrow> cvalue strmap \<Rightarrow> string \<Rightarrow> string \<Rightarrow> Statement \<Rightarrow> bool" where
  "st_applies C c action resource s \<longleftrightarrow>
     in_scope False (Actions s) (NotActions s) action \<and> in_scope True (Resources s) (NotResources s) resource \<and>
     (conditions_hold C c s \<or> Effect s = Deny \<and> (\<exists>k \<in> set (read_keys s). lookup c k = None)) \<and>
     (\<forall>kc \<in> set (KeyConditions s). key_holds c kc)"

definition within_ceiling :: "Statement list option \<Rightarrow> string \<Rightarrow> string \<Rightarrow> bool" where
  "within_ceiling boundary action resource =
     (case boundary of
        None \<Rightarrow> True
      | Some b \<Rightarrow> \<exists>s \<in> set b. Effect s = Allow \<and> in_scope False (Actions s) (NotActions s) action \<and>
          in_scope True (Resources s) (NotResources s) resource)"

definition reference_decision ::
  "cedar_api \<Rightarrow> cvalue strmap \<Rightarrow> string \<Rightarrow> string \<Rightarrow> Statement list \<Rightarrow> Statement list option \<Rightarrow> Decision" where
  "reference_decision C c action resource stmts boundary =
     (if \<exists>s \<in> set stmts. Effect s = Deny \<and> st_applies C c action resource s
      then \<lparr>Allowed = False, Reason = ExplicitForbid, ExplicitDeny = True\<rparr>
      else if \<not> within_ceiling boundary action resource
      then \<lparr>Allowed = False, Reason = OutsideCeiling, ExplicitDeny = False\<rparr>
      else if \<exists>s \<in> set stmts. Effect s = Allow \<and> st_applies C c action resource s
      then \<lparr>Allowed = True, Reason = AllowedByPolicy, ExplicitDeny = False\<rparr>
      else \<lparr>Allowed = False, Reason = DefaultDeny, ExplicitDeny = False\<rparr>)"

text \<open>
  What the engine takes from the statements unseen: literal addresses and times are such, and no
  condition reads the attributes the engine sets itself as one.
\<close>

definition literals_parse :: "cedar_api \<Rightarrow> Statement \<Rightarrow> bool" where
  "literals_parse C s \<longleftrightarrow>
     (\<forall>ip \<in> set (IPConditions s). parse_ip C (ipCIDR ip) \<and> ipKey ip \<notin> {''action'', ''resource''}) \<and>
     (\<forall>tc \<in> set (TimeConditions s). parse_datetime C (tcTarget tc) \<and> tcKey tc \<notin> {''action'', ''resource''})"

text \<open>A context that is clean for a statement: what it reads as address or time is one.\<close>

definition clean_for :: "cedar_api \<Rightarrow> cvalue strmap \<Rightarrow> Statement \<Rightarrow> bool" where
  "clean_for C c s \<longleftrightarrow>
     (\<forall>ip \<in> set (IPConditions s). \<forall>v. lookup c (ipKey ip) = Some v \<longrightarrow> is_text (parse_ip C) v) \<and>
     (\<forall>tc \<in> set (TimeConditions s). \<forall>v. lookup c (tcKey tc) = Some v \<longrightarrow> is_text (parse_datetime C) v)"

subsection \<open>Evaluation\<close>

lemma rmap_map: "rmap f xs = Inr ys \<Longrightarrow> (\<And>x y. f x = Inr y \<Longrightarrow> y = g x) \<Longrightarrow> ys = map g xs"
  by (induction xs arbitrary: ys) auto

lemma rmap_all: "rmap f xs = Inr ys \<Longrightarrow> (\<And>x y. f x = Inr y \<Longrightarrow> P y \<longleftrightarrow> Q x) \<Longrightarrow> (\<forall>y \<in> set ys. P y) \<longleftrightarrow> (\<forall>x \<in> set xs. Q x)"
  by (induction xs arbitrary: ys) auto

context cedar
begin

abbreviation holds :: "cvalue strmap \<Rightarrow> cexpr \<Rightarrow> bool" where
  "holds c e \<equiv> evaluates C e c = Some True"

lemma and_iff: "holds c (EAnd es) \<longleftrightarrow> (\<forall>e \<in> set es. holds c e)"
  by (induction es) (auto simp: eval_and_Nil eval_and split: option.splits bool.splits)

lemma or_defined: "(\<forall>e \<in> set es. evaluates C e c \<noteq> None) \<Longrightarrow>
    evaluates C (EOr es) c = Some (\<exists>e \<in> set es. holds c e)"
  by (induction es) (auto simp: eval_or_Nil eval_or split: option.splits bool.splits)

lemma and_defined: "(\<forall>e \<in> set es. evaluates C e c \<noteq> None) \<Longrightarrow> evaluates C (EAnd es) c \<noteq> None"
  by (induction es) (auto simp: eval_and_Nil eval_and split: option.splits bool.splits)

lemma has_all: "evaluates C (EAnd (map EHas ks)) c = Some (\<forall>k \<in> set ks. lookup c k \<noteq> None)"
  by (induction ks) (auto simp: eval_and_Nil eval_and eval_has split: option.splits bool.splits)

lemma match_one_eval: "lookup c field = Some (CStr x) \<Longrightarrow> evaluates C (match_one field v) c = Some (wmatch False v x)"
  by (auto simp: match_one_def eval_like eval_eq wmatch_starfree)

lemma match_any_eval:
  assumes "lookup c field = Some (CStr x)" "matchAny field vs = Some e"
  shows "evaluates C e c = Some (\<exists>v \<in> set vs. wmatch False v x)"
  using assms or_defined [of "map (match_one field) vs" c]
  by (auto simp: matchAny_def match_one_eval split: if_splits)

lemma matchAny_None: "matchAny field vs = None \<Longrightarrow> vs = [] \<or> (\<exists>v \<in> set vs. wmatch False v x)"
  by (auto simp: matchAny_def wildcard_def wmatch_star_iff split: if_splits)

lemma names_bucket_objects:
  "(\<exists>v \<in> set (if typed then withBucketObjects vs else vs). wmatch False v x) \<longleftrightarrow> (\<exists>v \<in> set vs. entry_names typed v x)"
proof -
  have "wmatch False (v @ ''/*'') x \<longleftrightarrow> has_prefix x (v @ ''/'')" if wb: "whole_bucket v" for v
  proof -
    obtain n where "v = ''Bucket::'' @ n" "CHR ''*'' \<notin> set n"
      using wb by (auto simp: whole_bucket_def has_prefix_iff)
    then have "CHR ''*'' \<notin> set (v @ ''/'')" by simp
    then show ?thesis using wmatch_literal [of "v @ ''/''" False "''*''" x] by (auto simp: wmatch_star_iff has_prefix_iff)
  qed
  then show ?thesis by (auto simp: withBucketObjects_def entry_names_def)
qed


lemma scope_eval:
  assumes x: "lookup c field = Some (CStr x)" and s: "scopeClause field pos neg i axis typed = Inr e"
  shows "(\<forall>q \<in> set (opt_list e). evaluates C q c \<noteq> None)"
    and "(\<forall>q \<in> set (opt_list e). holds c q) \<longleftrightarrow> in_scope typed pos neg x"
proof -
  let ?w = "\<lambda>vs. if typed then withBucketObjects vs else vs"
  have nil: "?w vs = [] \<longleftrightarrow> vs = []" for vs by (auto simp: withBucketObjects_def)
  have e: "e = (if neg \<noteq> [] then Some (complementClause field (?w neg)) else matchAny field (?w pos))"
    using s nil [of neg] by (auto simp: scopeClause_def Let_def split: if_splits option.splits)
  have "matchAny field (?w pos) = None \<Longrightarrow> pos = [] \<or> (\<exists>v \<in> set pos. entry_names typed v x)"
    using matchAny_None [of field "?w pos" x] nil [of pos] names_bucket_objects [of typed pos x] by simp
  moreover have "matchAny field (?w neg) = None \<Longrightarrow> neg \<noteq> [] \<Longrightarrow> \<exists>v \<in> set neg. entry_names typed v x"
    using matchAny_None [of field "?w neg" x] nil [of neg] names_bucket_objects [of typed neg x] by simp
  ultimately show "(\<forall>q \<in> set (opt_list e). evaluates C q c \<noteq> None)"
    "(\<forall>q \<in> set (opt_list e). holds c q) \<longleftrightarrow> in_scope typed pos neg x"
    using match_any_eval [OF x, of "?w pos"] match_any_eval [OF x, of "?w neg"]
      names_bucket_objects [of typed pos x] names_bucket_objects [of typed neg x] nil [of pos]
    by (auto simp: e in_scope_def complementClause_def eval_not eval_false matchAny_def wildcard_def
        split: option.splits if_splits)
qed

lemma equals_eval: "holds c (equals_term kv) \<longleftrightarrow> equals_holds c kv"
  by (cases kv) (auto simp: equals_term_def equals_holds_def eval_eq)

lemma ip_eval:
  assumes "parse_ip C (ipCIDR ip)" "\<And>v. lookup c (ipKey ip) = Some v \<Longrightarrow> is_text (parse_ip C) v"
  shows "holds c (ip_term ip) \<longleftrightarrow> ip_holds C c ip"
  using assms by (auto simp: ip_term_def ip_holds_def eval_not eval_in_range is_text_def split: option.splits cvalue.splits)

lemma like_eval: "holds c (like_term lk) \<longleftrightarrow> like_holds c lk"
  by (auto simp: like_term_def like_holds_def eval_not eval_like split: option.splits cvalue.splits)

lemma time_eval:
  assumes "parse_datetime C (tcTarget tc)" "\<And>v. lookup c (tcKey tc) = Some v \<Longrightarrow> is_text (parse_datetime C) v"
  shows "holds c (time_term tc) \<longleftrightarrow> time_holds C c tc"
  using assms by (auto simp: time_term_def time_holds_def eval_time is_text_def split: option.splits cvalue.splits)

lemma key_test_eval:
  "kcOp kc \<noteq> KeyNull \<Longrightarrow> lit = key_literal kc \<Longrightarrow> holds c (key_test kc lit) \<longleftrightarrow> key_holds c kc"
  by (auto simp: key_test_def Let_def key_holds_def eval_or eval_or_Nil eval_and eval_and_Nil eval_not eval_has eval_cmp
      split: option.splits bool.splits)

lemma key_eval: "cedarTerm i kc = Inr e \<Longrightarrow> holds c e \<longleftrightarrow> key_holds c kc"
  by (auto simp: cedarTerm_def key_test_eval key_literal_def split: if_splits option.splits)
    (auto simp: key_holds_def eval_not eval_has split: option.splits)

lemma conditions_eval:
  assumes "literals_parse C s" "clean_for C c s"
  shows "(\<forall>q \<in> set (value_term forbid (read_keys s) (map equals_term (sorted_conditions (Condition s)) @
      map ip_term (IPConditions s) @ map like_term (LikeConditions s) @ map time_term (TimeConditions s))). holds c q) \<longleftrightarrow>
    conditions_hold C c s \<or> forbid \<and> (\<exists>k \<in> set (read_keys s). lookup c k = None)"
proof -
  let ?vs = "map equals_term (sorted_conditions (Condition s)) @ map ip_term (IPConditions s) @
    map like_term (LikeConditions s) @ map time_term (TimeConditions s)"
  have vs: "(\<forall>q \<in> set ?vs. holds c q) \<longleftrightarrow> conditions_hold C c s"
    using assms ip_eval time_eval by (auto simp: conditions_hold_def literals_parse_def clean_for_def ball_Un sorted_conditions_def
        equals_eval like_eval)
  show ?thesis
  proof (cases "?vs = []")
    case True
    then show ?thesis using vs by (simp add: value_term_def read_keys_def sorted_conditions_def)
  next
    case False
    have "holds c (EOr [ENot (EAnd (map EHas (dedupe (read_keys s)))), EAnd ?vs]) \<longleftrightarrow>
        (\<exists>k \<in> set (read_keys s). lookup c k = None) \<or> holds c (EAnd ?vs)"
      by (auto simp: eval_or eval_or_Nil eval_not has_all split: option.splits bool.splits)
    then show ?thesis using False vs by (auto simp: value_term_def and_iff)
  qed
qed

lemma toCedar_eval:
  assumes "toCedar i s = Inr cl" "lookup c ''action'' = Some (CStr a)" "lookup c ''resource'' = Some (CStr r)"
    and "literals_parse C s" "clean_for C c s"
  shows "holds c (cl_when cl) \<longleftrightarrow> st_applies C c a r s"
    and "cl_forbids cl \<longleftrightarrow> Effect s = Deny" "\<not> cl_guard cl" "Effect s = Allow \<or> Effect s = Deny"
proof -
  obtain act res ips likes times keyed where *:
      "scopeClause ''action'' (Actions s) (NotActions s) i ''Action'' False = Inr act"
      "scopeClause ''resource'' (Resources s) (NotResources s) i ''Resource'' True = Inr res"
      "rmap (ip_checked i) (IPConditions s) = Inr ips" "rmap (like_checked i) (LikeConditions s) = Inr likes"
      "rmap (time_checked i) (TimeConditions s) = Inr times" "rmap (cedarTerm i) (KeyConditions s) = Inr keyed"
    and cl: "cl = \<lparr>cl_forbids = (Effect s = Deny), cl_guard = False,
      cl_when = EAnd (opt_list act @ opt_list res @ value_term (Effect s = Deny) (read_keys s)
        (map equals_term (sorted_conditions (Condition s)) @ ips @ likes @ times) @ keyed)\<rparr>"
    and effect: "Effect s = Allow \<or> Effect s = Deny"
    using assms(1) by (auto simp: toCedar_def Let_def split: if_splits)
  have terms: "ips = map ip_term (IPConditions s)" "likes = map like_term (LikeConditions s)"
      "times = map time_term (TimeConditions s)"
    using *(3-5) by (auto intro!: rmap_map simp: ip_checked_def like_checked_def time_checked_def split: if_splits)
  have keyed: "(\<forall>q \<in> set keyed. holds c q) \<longleftrightarrow> (\<forall>kc \<in> set (KeyConditions s). key_holds c kc)"
    by (rule rmap_all [OF *(6) key_eval])
  show "holds c (cl_when cl) \<longleftrightarrow> st_applies C c a r s"
    using scope_eval(2) [OF assms(2) *(1)] scope_eval(2) [OF assms(3) *(2)] keyed
      conditions_eval [OF assms(4,5), of "Effect s = Deny"]
    by (auto simp: cl and_iff ball_Un terms st_applies_def)
  show "cl_forbids cl \<longleftrightarrow> Effect s = Deny" "\<not> cl_guard cl" "Effect s = Allow \<or> Effect s = Deny"
    using effect by (simp_all add: cl)
qed

lemma ceiling_permits:
  assumes "boundary_permits i b es = Inr qs" "lookup c ''action'' = Some (CStr a)" "lookup c ''resource'' = Some (CStr r)"
    and "\<forall>q \<in> set es. evaluates C q c \<noteq> None"
  shows "case qs of None \<Rightarrow> within_ceiling (Some b) a r
    | Some qs' \<Rightarrow> (\<forall>q \<in> set qs'. evaluates C q c \<noteq> None) \<and>
        ((\<exists>q \<in> set qs'. holds c q) \<longleftrightarrow> (\<exists>q \<in> set es. holds c q) \<or> within_ceiling (Some b) a r)"
  using assms
proof (induction i b es rule: boundary_permits.induct)
  case (1 i es)
  then show ?case by (auto simp: within_ceiling_def)
next
  case (2 i s ss es)
  show ?case
  proof (cases "Effect s = Allow")
    case False
    then show ?thesis using 2 by (auto simp: within_ceiling_def split: option.splits)
  next
    case True
    then obtain act res where sc:
        "scopeClause ''action'' (Actions s) (NotActions s) i ''Action'' False = Inr act"
        "scopeClause ''resource'' (Resources s) (NotResources s) i ''Resource'' True = Inr res"
      using "2.prems"(1) by (auto split: sum.splits)
    let ?e = "EAnd (opt_list act @ opt_list res)"
    note scopes = scope_eval [OF "2.prems"(2) sc(1)] scope_eval [OF "2.prems"(3) sc(2)]
    have e: "evaluates C ?e c \<noteq> None" using scopes(1,3) and_defined [of "opt_list act @ opt_list res" c] by auto
    have h: "holds c ?e \<longleftrightarrow> in_scope False (Actions s) (NotActions s) a \<and> in_scope True (Resources s) (NotResources s) r"
      using scopes(2,4) by (auto simp: and_iff ball_Un)
    show ?thesis
    proof (cases "opt_list act @ opt_list res = []")
      case none: True
      then have "qs = None" using "2.prems"(1) True sc by auto
      then show ?thesis using h True none by (simp add: within_ceiling_def eval_and_Nil)
    next
      case some: False
      have "boundary_permits (Suc i) ss (es @ [?e]) = Inr qs" using "2.prems"(1) True sc some by auto
      from "2.IH"(2) [OF _ sc some this "2.prems"(2,3)] True "2.prems"(4) e
      show ?thesis using h True by (auto simp: within_ceiling_def split: option.splits)
    qed
  qed
qed

lemma guard_eval:
  assumes "compileBoundary b = Inr gs" "lookup c ''action'' = Some (CStr a)" "lookup c ''resource'' = Some (CStr r)"
  shows "(\<exists>g \<in> set gs. holds c (cl_when g)) \<longleftrightarrow> \<not> within_ceiling (Some b) a r"
    and "\<forall>g \<in> set gs. cl_guard g \<and> cl_forbids g"
proof -
  obtain qs where qs: "boundary_permits 0 b [] = Inr qs"
    and gs: "gs = (case qs of None \<Rightarrow> [] | Some [] \<Rightarrow> [\<lparr>cl_forbids = True, cl_guard = True, cl_when = EAnd []\<rparr>]
      | Some es \<Rightarrow> [\<lparr>cl_forbids = True, cl_guard = True, cl_when = ENot (EOr es)\<rparr>])"
    using assms(1) by (auto simp: compileBoundary_def)
  show "\<forall>g \<in> set gs. cl_guard g \<and> cl_forbids g"
    by (cases qs; cases "the qs") (simp_all add: gs)
  show "(\<exists>g \<in> set gs. holds c (cl_when g)) \<longleftrightarrow> \<not> within_ceiling (Some b) a r"
  proof (cases qs)
    case None
    then show ?thesis using ceiling_permits [OF qs assms(2,3)] by (simp add: gs)
  next
    case (Some es)
    then have "(\<forall>q \<in> set es. evaluates C q c \<noteq> None) \<and> ((\<exists>q \<in> set es. holds c q) \<longleftrightarrow> within_ceiling (Some b) a r)"
      using ceiling_permits [OF qs assms(2,3)] by simp
    then show ?thesis using Some or_defined [of es c] by (cases es) (auto simp: gs eval_not eval_and_Nil)
  qed
qed

end

lemma list_all2_preimage: "list_all2 R xs ys \<Longrightarrow> y \<in> set ys \<Longrightarrow> \<exists>x \<in> set xs. R x y"
  by (induction rule: list_all2_induct) auto

lemma list_all2_image: "list_all2 R xs ys \<Longrightarrow> x \<in> set xs \<Longrightarrow> \<exists>y \<in> set ys. R x y"
  by (induction rule: list_all2_induct) auto

text \<open>The clauses of an engine are those of its statements, in order, and the guard.\<close>

lemma compile_all_clauses:
  "compile_all i ss e = Inr e' \<Longrightarrow>
     \<exists>cls. policy_set e' = policy_set e @ cls \<and> list_all2 (\<lambda>s cl. \<exists>j. toCedar j s = Inr cl) ss cls"
proof (induction i ss e rule: compile_all.induct)
  case (2 i s ss e)
  then obtain cl cls where "toCedar i s = Inr cl"
      "policy_set e' = (policy_set e @ [cl]) @ cls" "list_all2 (\<lambda>s cl. \<exists>j. toCedar j s = Inr cl) ss cls"
    by fastforce
  then show ?case by (intro exI [of _ "cl # cls"]) auto
qed simp

lemma compile_all_keys:
  "compile_all i ss e = Inr e' \<Longrightarrow> ipKeys e' = ipKeys e \<union> (\<Union>s \<in> set ss. set (map ipKey (IPConditions s))) \<and>
     timeKeys e' = timeKeys e \<union> (\<Union>s \<in> set ss. set (map tcKey (TimeConditions s)))"
proof (induction i ss e rule: compile_all.induct)
  case (2 i s ss e)
  then show ?case by fastforce
qed simp

lemma lookup_sanitise: "lookup (sanitise keys P c) k = Some v \<Longrightarrow> k \<in> keys \<Longrightarrow> is_text P v"
  using lookup_in_set [of "sanitise keys P c" k v] by (auto simp: sanitise_def)

lemma lookup_sanitise_twice:
  "lookup (sanitise keys' Q (sanitise keys P c)) k = Some v \<Longrightarrow> k \<in> keys \<Longrightarrow> is_text P v"
  using lookup_in_set [of "sanitise keys' Q (sanitise keys P c)" k v] by (auto simp: sanitise_def)

lemma request_context_clean:
  assumes "compile_all i ss e0 = Inr e" "s \<in> set ss" "literals_parse C s"
  shows "clean_for C (request_context C (e\<lparr>policy_set := qs\<rparr>) r) s"
proof -
  have "ipKey ip \<in> ipKeys e" if "ip \<in> set (IPConditions s)" for ip using compile_all_keys [OF assms(1)] assms(2) that by auto
  moreover have "tcKey tc \<in> timeKeys e" if "tc \<in> set (TimeConditions s)" for tc
    using compile_all_keys [OF assms(1)] assms(2) that by auto
  ultimately show ?thesis
    using assms(3) by (auto simp: clean_for_def request_context_def literals_parse_def intro: lookup_sanitise lookup_sanitise_twice)
qed

text \<open>An engine with or without a boundary.\<close>

definition engine_for :: "cedar_api \<Rightarrow> Statement list \<Rightarrow> Statement list option \<Rightarrow> (engine_error, Engine) result" where
  "engine_for C stmts boundary =
     (case boundary of None \<Rightarrow> NewEngine C stmts | Some b \<Rightarrow> NewEngineWithBoundary C stmts b)"

lemma engine_for_parts:
  assumes "engine_for C stmts boundary = Inr e"
  obtains e0 gs where "compile_all 0 stmts \<lparr>policy_set = [], ipKeys = {}, timeKeys = {}, keyKinds = []\<rparr> = Inr e0"
    "e = e0\<lparr>policy_set := policy_set e0 @ gs\<rparr>" "case boundary of None \<Rightarrow> gs = [] | Some b \<Rightarrow> compileBoundary b = Inr gs"
  using assms by (auto simp: engine_for_def NewEngine_def NewEngineWithBoundary_def newEngine_def split: option.splits if_splits)

context cedar
begin

lemma engine_clauses:
  fixes r :: Request and e :: Engine
  defines "c \<equiv> request_context C e r" and "a \<equiv> rAction r" and "res \<equiv> rResourceType r @ ''::'' @ rResourceID r"
  assumes e: "engine_for C stmts boundary = Inr e" and ok: "\<forall>s \<in> set stmts. literals_parse C s"
  shows "(\<exists>p \<in> set (policy_set e). \<not> cl_forbids p \<and> holds c (cl_when p)) \<longleftrightarrow>
      (\<exists>s \<in> set stmts. Effect s = Allow \<and> st_applies C c a res s)"
    and "(\<exists>p \<in> set (policy_set e). cl_forbids p \<and> \<not> cl_guard p \<and> holds c (cl_when p)) \<longleftrightarrow>
      (\<exists>s \<in> set stmts. Effect s = Deny \<and> st_applies C c a res s)"
    and "(\<exists>p \<in> set (policy_set e). cl_forbids p \<and> cl_guard p \<and> holds c (cl_when p)) \<longleftrightarrow> \<not> within_ceiling boundary a res"
proof -
  obtain e0 gs where *: "compile_all 0 stmts \<lparr>policy_set = [], ipKeys = {}, timeKeys = {}, keyKinds = []\<rparr> = Inr e0"
      "e = e0\<lparr>policy_set := policy_set e0 @ gs\<rparr>" "case boundary of None \<Rightarrow> gs = [] | Some b \<Rightarrow> compileBoundary b = Inr gs"
    using engine_for_parts [OF e] by metis
  have ctx: "lookup c ''action'' = Some (CStr a)" "lookup c ''resource'' = Some (CStr res)"
    by (simp_all add: c_def a_def res_def request_context_def)
  have gs: "\<forall>g \<in> set gs. cl_guard g \<and> cl_forbids g" "(\<exists>g \<in> set gs. holds c (cl_when g)) \<longleftrightarrow> \<not> within_ceiling boundary a res"
    using *(3) guard_eval [OF _ ctx] by (auto simp: within_ceiling_def split: option.splits)
  have cls: "list_all2 (\<lambda>s cl. \<exists>j. toCedar j s = Inr cl) stmts (policy_set e0)" using compile_all_clauses [OF *(1)] by simp
  have evals: "(holds c (cl_when cl) \<longleftrightarrow> st_applies C c a res s) \<and> (cl_forbids cl \<longleftrightarrow> Effect s = Deny) \<and> \<not> cl_guard cl \<and>
      (Effect s = Allow \<or> Effect s = Deny)"
    if "toCedar j s = Inr cl" "s \<in> set stmts" for j s cl
    using toCedar_eval [OF that(1) ctx] ok request_context_clean [OF *(1) that(2)] that(2) unfolding c_def *(2) by metis
  have backward: "\<exists>s \<in> set stmts. \<exists>j. toCedar j s = Inr p" if "p \<in> set (policy_set e0)" for p
    by (rule list_all2_preimage [OF cls that])
  have forward: "\<exists>p \<in> set (policy_set e0). \<exists>j. toCedar j s = Inr p" if "s \<in> set stmts" for s
    by (rule list_all2_image [OF cls that])
  have ad: "Allow \<noteq> Deny" by (simp add: Allow_def Deny_def)
  have own: "\<forall>p \<in> set (policy_set e0). \<not> cl_guard p" using backward evals by blast
  have "(\<exists>p \<in> set (policy_set e0). \<not> cl_forbids p \<and> holds c (cl_when p)) \<longleftrightarrow>
      (\<exists>s \<in> set stmts. Effect s = Allow \<and> st_applies C c a res s)"
    using backward forward evals ad by metis
  moreover have "(\<exists>p \<in> set (policy_set e0). cl_forbids p \<and> \<not> cl_guard p \<and> holds c (cl_when p)) \<longleftrightarrow>
      (\<exists>s \<in> set stmts. Effect s = Deny \<and> st_applies C c a res s)"
    using backward forward evals by metis
  ultimately show "(\<exists>p \<in> set (policy_set e). \<not> cl_forbids p \<and> holds c (cl_when p)) \<longleftrightarrow>
      (\<exists>s \<in> set stmts. Effect s = Allow \<and> st_applies C c a res s)"
    "(\<exists>p \<in> set (policy_set e). cl_forbids p \<and> \<not> cl_guard p \<and> holds c (cl_when p)) \<longleftrightarrow>
      (\<exists>s \<in> set stmts. Effect s = Deny \<and> st_applies C c a res s)"
    "(\<exists>p \<in> set (policy_set e). cl_forbids p \<and> cl_guard p \<and> holds c (cl_when p)) \<longleftrightarrow> \<not> within_ceiling boundary a res"
    using gs own by (auto simp: *(2))
qed

lemma authorize_decides:
  assumes "engine_for C stmts boundary = Inr e" "\<forall>s \<in> set stmts. literals_parse C s"
    and "malformed_key e (cedar_context (rContext r)) = None"
  shows "Authorize C e r =
    reference_decision C (request_context C e r) (rAction r) (rResourceType r @ ''::'' @ rResourceID r) stmts boundary"
proof -
  let ?c = "request_context C e r" and ?ps = "policy_set e"
  let ?v = "is_authorized C ?ps ?c"
  have v: "fst ?v \<longleftrightarrow> (\<exists>p \<in> set ?ps. \<not> cl_forbids p \<and> holds ?c (cl_when p)) \<and> \<not> (\<exists>p \<in> set ?ps. cl_forbids p \<and> holds ?c (cl_when p))"
    using permits [of ?ps ?c] by auto
  have s: "\<not> fst ?v \<Longrightarrow> snd ?v = filter (\<lambda>p. cl_forbids p \<and> holds ?c (cl_when p)) ?ps" by (rule reasons)
  have split: "(\<exists>p \<in> set ?ps. cl_forbids p \<and> holds ?c (cl_when p)) \<longleftrightarrow>
      (\<exists>p \<in> set ?ps. cl_forbids p \<and> \<not> cl_guard p \<and> holds ?c (cl_when p)) \<or>
      (\<exists>p \<in> set ?ps. cl_forbids p \<and> cl_guard p \<and> holds ?c (cl_when p))" by auto
  have "snd ?v \<noteq> [] \<longleftrightarrow> (\<exists>p \<in> set ?ps. cl_forbids p \<and> holds ?c (cl_when p))"
      "list_ex (\<lambda>p. \<not> cl_guard p) (snd ?v) \<longleftrightarrow> (\<exists>p \<in> set ?ps. cl_forbids p \<and> \<not> cl_guard p \<and> holds ?c (cl_when p))"
    if "\<not> fst ?v" using s [OF that] by (auto simp: list_ex_iff filter_empty_conv)
  then show ?thesis
    using v split engine_clauses [OF assms(1,2), of r] assms(3)
    unfolding Authorize_def reference_decision_def by (auto simp: Let_def case_prod_beta simp del: list_ex_iff)
qed

end

text \<open>
  An evaluator that behaves as documented, given the parsers of \<open>B\<close>.
\<close>

fun all_of :: "bool option list \<Rightarrow> bool option" where
  "all_of [] = Some True"
| "all_of (b # bs) = (case b of Some True \<Rightarrow> all_of bs | _ \<Rightarrow> b)"

fun any_of :: "bool option list \<Rightarrow> bool option" where
  "any_of [] = Some False"
| "any_of (b # bs) = (case b of Some False \<Rightarrow> any_of bs | _ \<Rightarrow> b)"

fun ceval :: "cedar_api \<Rightarrow> cexpr \<Rightarrow> cvalue strmap \<Rightarrow> bool option" where
  "ceval B EFalse c = Some False"
| "ceval B (EHas k) c = Some (lookup c k \<noteq> None)"
| "ceval B (EEq k v) c = map_option (\<lambda>x. x = v) (lookup c k)"
| "ceval B (ECmp k oper v) c = Option.bind (lookup c k) (\<lambda>x. compares oper x v)"
| "ceval B (ELike k p) c = (case lookup c k of Some (CStr s) \<Rightarrow> Some (wmatch False p s) | _ \<Rightarrow> None)"
| "ceval B (EInRange k r) c =
     (case lookup c k of
        Some (CStr s) \<Rightarrow> if parse_ip B s \<and> parse_ip B r then Some (in_range B s r) else None
      | _ \<Rightarrow> None)"
| "ceval B (ETime k oper d) c =
     (case lookup c k of
        Some (CStr s) \<Rightarrow> if parse_datetime B s \<and> parse_datetime B d then Some (time_compare B oper s d) else None
      | _ \<Rightarrow> None)"
| "ceval B (ENot e) c = map_option Not (ceval B e c)"
| "ceval B (EAnd es) c = all_of (map (\<lambda>e. ceval B e c) es)"
| "ceval B (EOr es) c = any_of (map (\<lambda>e. ceval B e c) es)"

definition standard_cedar :: "cedar_api \<Rightarrow> cedar_api" where
  "standard_cedar B = B\<lparr>evaluates := ceval B,
     is_authorized := (\<lambda>ps c.
       let sat = filter (\<lambda>p. ceval B (cl_when p) c = Some True) ps
       in if list_ex (\<lambda>p. \<not> cl_forbids p) sat \<and> \<not> list_ex cl_forbids sat then (True, sat)
          else (False, filter cl_forbids sat))\<rparr>"

interpretation standard: cedar "standard_cedar B" for B
proof (unfold_locales, goal_cases)
  case (13 ps c)
  then show ?case by (auto simp: standard_cedar_def Let_def list_ex_iff)
next
  case (14 ps c)
  then show ?case by (auto simp: standard_cedar_def Let_def list_ex_iff intro: filter_cong split: if_splits)
qed (auto simp: standard_cedar_def split: option.splits cvalue.splits bool.splits)


definition empty_statement :: Statement where
  "empty_statement = \<lparr>Effect = Allow, Actions = [], NotActions = [], Resources = [], NotResources = [], Condition = [],
     IPConditions = [], LikeConditions = [], TimeConditions = [], KeyConditions = []\<rparr>"

definition sample_cedar :: cedar_api where
  "sample_cedar = standard_cedar \<lparr>parses = (\<lambda>_. True), evaluates = (\<lambda>_ _. None), is_authorized = (\<lambda>_ _. (False, [])),
     parse_ip = (\<lambda>s. s \<noteq> ''10.0.0/8''), parse_datetime = (\<lambda>_. True), in_range = has_prefix, time_compare = (\<lambda>_ _ _. True)\<rparr>"

definition read_assets :: Statement where
  "read_assets = empty_statement\<lparr>Actions := [''s3:*''], Resources := [''Bucket::assets'']\<rparr>"

definition only_from :: "string \<Rightarrow> Statement" where
  "only_from net = empty_statement\<lparr>Effect := Deny, Actions := [''*''], Resources := [''*''],
     IPConditions := [\<lparr>ipKey = ''sourceIp'', ipCIDR = net, ipNegate = True\<rparr>]\<rparr>"

definition sample_request :: "attribute strmap \<Rightarrow> Request" where
  "sample_request m = \<lparr>rPrincipalType = ''User'', rPrincipalID = ''alice'', rAction = ''s3:GetObject'',
     rResourceType = ''Bucket'', rResourceID = ''assets/a.csv'', rContext = m\<rparr>"

definition sample_engine :: "string \<Rightarrow> Engine" where
  "sample_engine net = (case engine_for sample_cedar [read_assets, only_from net] None of Inr e \<Rightarrow> e
     | Inl _ \<Rightarrow> \<lparr>policy_set = [], ipKeys = {}, timeKeys = {}, keyKinds = []\<rparr>)"


lemma sample_decisions:
  "Reason (Authorize sample_cedar (sample_engine ''10.'') (sample_request [])) = ExplicitForbid"
  "Allowed (Authorize sample_cedar (sample_engine ''10.'') (sample_request [(''sourceIp'', Text ''10.1.1.1'')]))"
  "Reason (Authorize sample_cedar (sample_engine ''10.'') (sample_request [(''sourceIp'', Text ''11.1.1.1'')])) = ExplicitForbid"
  by code_simp+

text \<open>
  A Deny limited to a network that is no valid CIDR never applies to a request with an address: the
  comparison fails to evaluate and Cedar skips the policy. Documents are checked on import, statements
  written on a Policy directly are not.\<close>

theorem malformed_network_disables_deny:
  "Allowed (Authorize sample_cedar (sample_engine ''10.0.0/8'') (sample_request [(''sourceIp'', Text ''11.1.1.1'')]))"
  by code_simp

end
