(* ===== verification/IamCompile.thy ===== *)
theory IamCompile
  imports PolicyEngine
begin

text \<open>
  The IAM compiler's decisions: \<^verbatim>\<open>console-api/internal/iamcompile/compile.go\<close> and
  \<^verbatim>\<open>match.go\<close>, on the statements of \<^verbatim>\<open>policyengine/engine.go\<close>.

  The compiler turns a principal's IAM policies into grants on Kubernetes objects. A control-plane
  request carries no condition keys, and the name of an object only for some verbs, so the compiler
  approximates; its contract is never to widen. A Go \<^verbatim>\<open>map[string]bool\<close> is the set of its keys. The
  reports of \<^verbatim>\<open>drop\<close> are one constructor per text.
\<close>

subsection \<open>Statements\<close>

definition operatorPrefix :: string where "operatorPrefix = ''openinfra-operator''"
definition resourceAccount :: string where "resourceAccount = ''resourceAccount''"

definition actionMatches :: "string list \<Rightarrow> string \<Rightarrow> bool" where
  "actionMatches patterns action = list_ex (\<lambda>p. glob (to_lower p) (to_lower action)) patterns"

definition statementActs :: "Statement \<Rightarrow> string \<Rightarrow> bool" where
  "statementActs st action =
     (if NotActions st \<noteq> [] then
        \<not> has_prefix (to_lower action) (operatorPrefix @ '':'') \<and> \<not> actionMatches (NotActions st) action
      else actionMatches (Actions st) action)"

text \<open>The loops of \<^verbatim>\<open>conditionScope\<close>; None is their early return.\<close>

fun scope_equals :: "string \<Rightarrow> string strmap \<Rightarrow> bool \<Rightarrow> bool option" where
  "scope_equals account [] conditional = Some conditional"
| "scope_equals account ((k, v) # m) conditional =
     (if k = resourceAccount then if v \<noteq> account then None else scope_equals account m conditional
      else scope_equals account m True)"

fun scope_likes :: "string \<Rightarrow> LikeCondition list \<Rightarrow> bool \<Rightarrow> bool option" where
  "scope_likes account [] conditional = Some conditional"
| "scope_likes account (lc # lcs) conditional =
     (if lcKey lc = resourceAccount then
        if glob (lcPattern lc) account = lcNegate lc then None else scope_likes account lcs conditional
      else scope_likes account lcs True)"

definition conditionScope :: "Statement \<Rightarrow> string \<Rightarrow> bool \<times> bool" where
  "conditionScope st account =
     (case scope_equals account (Condition st) False of
        None \<Rightarrow> (False, False)
      | Some c1 \<Rightarrow>
          (case scope_likes account (LikeConditions st) c1 of
             None \<Rightarrow> (False, False)
           | Some c2 \<Rightarrow> (True, if IPConditions st \<noteq> [] \<or> TimeConditions st \<noteq> [] then True else c2)))"

subsection \<open>Sets of names\<close>

record rset =
  rAll :: bool
  rNames :: "string set"
  rGlobs :: "string set"

definition no_names :: rset where
  "no_names = \<lparr>rAll = False, rNames = {}, rGlobs = {}\<rparr>"

definition addName :: "string \<Rightarrow> rset \<Rightarrow> rset" where
  "addName n s = s\<lparr>rNames := insert n (rNames s)\<rparr>"

definition addGlob :: "string \<Rightarrow> rset \<Rightarrow> rset" where
  "addGlob g s = s\<lparr>rGlobs := insert g (rGlobs s)\<rparr>"

definition rempty :: "rset \<Rightarrow> bool" where
  "rempty s \<longleftrightarrow> \<not> rAll s \<and> rNames s = {} \<and> rGlobs s = {}"

definition runion :: "rset \<Rightarrow> rset \<Rightarrow> rset" where
  "runion s t = \<lparr>rAll = (rAll s \<or> rAll t), rNames = rNames s \<union> rNames t, rGlobs = rGlobs s \<union> rGlobs t\<rparr>"

definition matchesAny :: "string set \<Rightarrow> string \<Rightarrow> bool" where
  "matchesAny globs n \<longleftrightarrow> (\<exists>g \<in> globs. glob g n)"

definition intersect :: "rset \<Rightarrow> rset \<Rightarrow> rset" where
  "intersect s t =
     (if rAll s \<and> rAll t then \<lparr>rAll = True, rNames = {}, rGlobs = {}\<rparr>
      else if rAll s then \<lparr>rAll = False, rNames = rNames t, rGlobs = rGlobs t\<rparr>
      else if rAll t then \<lparr>rAll = False, rNames = rNames s, rGlobs = rGlobs s\<rparr>
      else \<lparr>rAll = False,
            rNames = {n \<in> rNames s. n \<in> rNames t \<or> matchesAny (rGlobs t) n} \<union> {n \<in> rNames t. matchesAny (rGlobs s) n},
            rGlobs = rGlobs s \<inter> rGlobs t\<rparr>)"

subsection \<open>Kinds\<close>

record kindCtx =
  typedAll :: string
  hint :: string
  pre :: string
  suf :: string
  namesOK :: bool

definition namePlaceholder :: string where "namePlaceholder = ''oiname0placeholder''"

definition up_to_star :: "string \<Rightarrow> string" where
  "up_to_star p = takeWhile (\<lambda>c. c \<noteq> CHR ''*'') p"

text \<open>
  \<open>typed n\<close> is \<^verbatim>\<open>typedOf(e.ARNFor(scope, n, nil))\<close>: the resource a request for the object \<open>n\<close> of the
  kind is evaluated against.
\<close>

definition newKindCtx :: "string \<Rightarrow> (string \<Rightarrow> string) \<Rightarrow> kindCtx" where
  "newKindCtx nameField typed =
     (let k = \<lparr>typedAll = typed ''*'', hint = up_to_star (typed ''*''), pre = [], suf = [], namesOK = False\<rparr>;
          t = typed namePlaceholder
      in if nameField = [] then
           (case index_of t namePlaceholder of
              None \<Rightarrow> k
            | Some i \<Rightarrow>
                if CHR ''*'' \<in> set t then k
                else k\<lparr>pre := take i t, suf := drop (i + length namePlaceholder) t, namesOK := True\<rparr>)
         else k)"

definition mightTarget :: "kindCtx \<Rightarrow> string \<Rightarrow> bool" where
  "mightTarget k p \<longleftrightarrow> has_prefix (hint k) (up_to_star p) \<or> has_prefix (up_to_star p) (hint k)"

definition nameOf :: "kindCtx \<Rightarrow> string \<Rightarrow> (string \<times> bool) option" where
  "nameOf k p =
     (if \<not> namesOK k \<or> \<not> has_prefix p (pre k) \<or> \<not> has_suffix p (suf k) \<or> length p \<le> length (pre k) + length (suf k)
      then None
      else
        let n = take (length p - length (suf k) - length (pre k)) (drop (length (pre k)) p)
        in if CHR ''/'' \<in> set n \<and> CHR ''/'' \<notin> set (pre k @ suf k) then None
           else Some (n, CHR ''*'' \<in> set n))"

datatype verbMode =
    modeStar
  | modeNamed
  | modeCreate

record cover =
  cSet :: rset
  cExcept :: rset
  unmappable :: bool
  nameScoped :: bool

definition no_cover :: cover where
  "no_cover = \<lparr>cSet = no_names, cExcept = no_names, unmappable = False, nameScoped = False\<rparr>"

definition add_pattern :: "string \<Rightarrow> bool \<Rightarrow> rset \<Rightarrow> rset" where
  "add_pattern n isGlob s = (if isGlob then addGlob n s else addName n s)"

text \<open>The loop over \<^verbatim>\<open>NotResources\<close>; None is its early return of an empty cover.\<close>

fun cover_except :: "kindCtx \<Rightarrow> verbMode \<Rightarrow> string list \<Rightarrow> cover \<Rightarrow> cover option" where
  "cover_except k mode [] c = Some c"
| "cover_except k mode (p # ps) c =
     (if mode = modeStar then if glob p ''*'' then None else cover_except k mode ps c
      else if p = ''*'' \<or> glob p (typedAll k) then None
      else cover_except k mode ps
        (case nameOf k p of
           Some (n, isGlob) \<Rightarrow> c\<lparr>cExcept := add_pattern n isGlob (cExcept c)\<rparr>
         | None \<Rightarrow> if mightTarget k p then c\<lparr>unmappable := True\<rparr> else c))"

definition cover_one :: "kindCtx \<Rightarrow> verbMode \<Rightarrow> string \<Rightarrow> cover \<Rightarrow> cover" where
  "cover_one k mode p c =
     (if mode = modeStar then if glob p ''*'' then c\<lparr>cSet := (cSet c)\<lparr>rAll := True\<rparr>\<rparr> else c
      else if p = ''*'' \<or> glob p (typedAll k) then c\<lparr>cSet := (cSet c)\<lparr>rAll := True\<rparr>\<rparr>
      else case nameOf k p of
          Some (n, isGlob) \<Rightarrow>
            if mode = modeCreate then c\<lparr>nameScoped := True\<rparr>
            else c\<lparr>cSet := add_pattern n isGlob (cSet c)\<rparr>
        | None \<Rightarrow> if mightTarget k p then c\<lparr>unmappable := True\<rparr> else c)"

definition coverFor :: "kindCtx \<Rightarrow> Statement \<Rightarrow> verbMode \<Rightarrow> cover" where
  "coverFor k st mode =
     (if NotResources st \<noteq> [] then
        (case cover_except k mode (NotResources st) no_cover of
           None \<Rightarrow> no_cover
         | Some c \<Rightarrow> c\<lparr>cSet := (cSet c)\<lparr>rAll := True\<rparr>\<rparr>)
      else foldl (\<lambda>c p. cover_one k mode p c) no_cover (Resources st))"

subsection \<open>Decisions\<close>

datatype narrowing =
    ConditionalDeny
  | DenyEveryName
  | ConditionalAllow
  | UnmappableAllow
  | NameScopedAllow
  | OutsideBoundary
  | CreateException
  | ExceptionDenied
  | NotInRBAC
  | PatternInCorpusOnly

record decision =
  dAllow :: rset
  dDeny :: rset
  rbacOK :: bool

record tally =
  tAllow :: rset
  tExcept :: rset
  tDeny :: rset
  tDropped :: "narrowing list"

definition note_if :: "bool \<Rightarrow> narrowing \<Rightarrow> narrowing list" where
  "note_if b x = (if b then [x] else [])"

definition broad_deny :: "cover \<Rightarrow> bool" where
  "broad_deny c \<longleftrightarrow> unmappable c \<or> nameScoped c \<or> \<not> rempty (cExcept c)"

definition deny_names :: "cover \<Rightarrow> rset \<Rightarrow> rset" where
  "deny_names c s = (if broad_deny c then s\<lparr>rAll := True\<rparr> else runion s (cSet c))"

text \<open>One statement of the principal's policies.\<close>

definition decide_statement :: "kindCtx \<Rightarrow> string \<Rightarrow> verbMode \<Rightarrow> string \<Rightarrow> tally \<Rightarrow> Statement \<Rightarrow> tally" where
  "decide_statement k action mode account t st =
     (if \<not> statementActs st action then t
      else case conditionScope st account of
          (False, _) \<Rightarrow> t
        | (True, conditional) \<Rightarrow>
            let c = coverFor k st mode
            in if Effect st = Deny then
                 t\<lparr>tDeny := deny_names c (tDeny t),
                   tDropped := tDropped t @ note_if conditional ConditionalDeny @ note_if (broad_deny c) DenyEveryName\<rparr>
               else if conditional then
                 t\<lparr>tDropped := tDropped t @
                     note_if (\<not> rempty (cSet c) \<or> unmappable c \<or> nameScoped c) ConditionalAllow\<rparr>
               else
                 t\<lparr>tAllow := runion (tAllow t) (cSet c), tExcept := runion (tExcept t) (cExcept c),
                   tDropped := tDropped t @ note_if (unmappable c) UnmappableAllow @
                     note_if (nameScoped c) NameScopedAllow\<rparr>)"

text \<open>One statement of the permission boundary.\<close>

definition bound_statement ::
  "kindCtx \<Rightarrow> string \<Rightarrow> verbMode \<Rightarrow> string \<Rightarrow> rset \<times> rset \<Rightarrow> Statement \<Rightarrow> rset \<times> rset" where
  "bound_statement k action mode account b st =
     (if \<not> statementActs st action then b
      else case conditionScope st account of
          (False, _) \<Rightarrow> b
        | (True, conditional) \<Rightarrow>
            let c = coverFor k st mode
            in if Effect st = Deny then (fst b, deny_names c (snd b))
               else if conditional \<or> broad_deny c then b
               else (runion (fst b) (cSet c), snd b))"

definition decide ::
  "kindCtx \<Rightarrow> string \<Rightarrow> verbMode \<Rightarrow> string \<Rightarrow> Statement list \<Rightarrow> Statement list option \<Rightarrow> decision \<times> narrowing list" where
  "decide k action mode account stmts boundary =
     (let t = foldl (decide_statement k action mode account)
            \<lparr>tAllow = no_names, tExcept = no_names, tDeny = no_names, tDropped = []\<rparr> stmts;
          (allow, deny, drop1) =
            (case boundary of
               None \<Rightarrow> (tAllow t, tDeny t, [])
             | Some bstmts \<Rightarrow>
                 let (ballow, bdeny) = foldl (bound_statement k action mode account) (no_names, no_names) bstmts;
                     narrowed = intersect (tAllow t) ballow
                 in (narrowed, runion (tDeny t) bdeny,
                     note_if (\<not> rempty (tAllow t) \<and> rempty narrowed) OutsideBoundary));
          excepted = (rAll allow \<and> \<not> rempty (tExcept t));
          allow' = (if excepted \<and> mode = modeCreate then no_names else allow);
          deny' = (if excepted \<and> mode \<noteq> modeCreate then runion deny (tExcept t) else deny);
          drop2 = (if excepted then if mode = modeCreate then [CreateException] else [ExceptionDenied] else []);
          drop3 = (if \<not> rempty allow' \<and> \<not> rempty deny' then [NotInRBAC]
                   else note_if (rGlobs allow' \<noteq> {}) PatternInCorpusOnly)
      in (\<lparr>dAllow = allow', dDeny = deny', rbacOK = rempty deny'\<rparr>, tDropped t @ drop1 @ drop2 @ drop3))"

subsection \<open>What the policies say\<close>

text \<open>
  The request a control-plane operation stands for: an action on a resource in the principal's
  account, in a context of which the compiler knows nothing. \<open>other st\<close> is whether the conditions of
  \<open>st\<close> other than on the account of the resource hold in that context.
\<close>

definition account_holds :: "string \<Rightarrow> Statement \<Rightarrow> bool" where
  "account_holds account st \<longleftrightarrow>
     (\<forall>(k, v) \<in> set (Condition st). k = resourceAccount \<longrightarrow> v = account) \<and>
     (\<forall>lc \<in> set (LikeConditions st). lcKey lc = resourceAccount \<longrightarrow>
        wmatch False (lcPattern lc) account \<noteq> lcNegate lc)"

definition unconditional :: "Statement \<Rightarrow> bool" where
  "unconditional st \<longleftrightarrow> (\<forall>(k, v) \<in> set (Condition st). k = resourceAccount) \<and>
     (\<forall>lc \<in> set (LikeConditions st). lcKey lc = resourceAccount) \<and>
     IPConditions st = [] \<and> TimeConditions st = [] \<and> KeyConditions st = []"

text \<open>
  An empty list stands for everything, as in \<^verbatim>\<open>policyengine.Statement\<close>. A \<^verbatim>\<open>NotAction\<close> of an Allow does not
  reach the operator actions (\<^verbatim>\<open>reserveOperator\<close> of \<^verbatim>\<open>iamauthz\<close>); that of a Deny is left as written.
\<close>

definition operator_action :: "string \<Rightarrow> bool" where
  "operator_action action = has_prefix (to_lower action) (operatorPrefix @ '':'')"

definition acts :: "Statement \<Rightarrow> string \<Rightarrow> bool" where
  "acts st action =
     (if NotActions st \<noteq> [] then
        (Effect st = Deny \<or> \<not> operator_action action) \<and>
        \<not> (\<exists>p \<in> set (NotActions st). wmatch False (to_lower p) (to_lower action))
      else Actions st = [] \<or> (\<exists>p \<in> set (Actions st). wmatch False (to_lower p) (to_lower action)))"

definition covers :: "Statement \<Rightarrow> string \<Rightarrow> bool" where
  "covers st r =
     (if NotResources st \<noteq> [] then \<not> (\<exists>p \<in> set (NotResources st). wmatch False p r)
      else Resources st = [] \<or> (\<exists>p \<in> set (Resources st). wmatch False p r))"

definition applies :: "string \<Rightarrow> (Statement \<Rightarrow> bool) \<Rightarrow> string \<Rightarrow> string \<Rightarrow> Statement \<Rightarrow> bool" where
  "applies account other action r st \<longleftrightarrow>
     acts st action \<and> covers st r \<and> account_holds account st \<and> other st"

definition iam_allows ::
  "string \<Rightarrow> (Statement \<Rightarrow> bool) \<Rightarrow> Statement list \<Rightarrow> Statement list option \<Rightarrow> string \<Rightarrow> string \<Rightarrow> bool" where
  "iam_allows account other stmts boundary action r \<longleftrightarrow>
     (\<exists>st \<in> set stmts. Effect st \<noteq> Deny \<and> applies account other action r st) \<and>
     \<not> (\<exists>st \<in> set stmts. Effect st = Deny \<and> applies account other action r st) \<and>
     (case boundary of
        None \<Rightarrow> True
      | Some bs \<Rightarrow>
          (\<exists>st \<in> set bs. Effect st \<noteq> Deny \<and> applies account other action r st) \<and>
          \<not> (\<exists>st \<in> set bs. Effect st = Deny \<and> applies account other action r st))"

subsection \<open>Wildcards\<close>

lemma wmatch_up_to_star: "wmatch False p s \<Longrightarrow> has_prefix s (up_to_star p)"
proof -
  assume m: "wmatch False p s"
  have "p = up_to_star p @ dropWhile (\<lambda>c. c \<noteq> CHR ''*'') p" by (simp add: up_to_star_def)
  moreover have "CHR ''*'' \<notin> set (up_to_star p)" by (auto simp: up_to_star_def dest: set_takeWhileD)
  ultimately show ?thesis using m wmatch_literal [of "up_to_star p" False] by (metis has_prefix_iff)
qed

subsection \<open>Sets of names\<close>

definition in_rset :: "rset \<Rightarrow> string \<Rightarrow> bool" where
  "in_rset s n \<longleftrightarrow> rAll s \<or> n \<in> rNames s \<or> matchesAny (rGlobs s) n"

lemma in_rset_simps [simp]:
  "\<not> in_rset no_names n"
  "in_rset (runion s t) n \<longleftrightarrow> in_rset s n \<or> in_rset t n"
  "in_rset (s\<lparr>rAll := True\<rparr>) n"
  by (auto simp: in_rset_def no_names_def runion_def matchesAny_def)

lemma in_rset_add_pattern [simp]:
  "in_rset (add_pattern m isGlob s) n \<longleftrightarrow> in_rset s n \<or> (if isGlob then glob m n else n = m)"
  by (auto simp: in_rset_def add_pattern_def addName_def addGlob_def matchesAny_def)

lemma rempty_in_rset: "rempty s \<Longrightarrow> \<not> in_rset s n"
  by (auto simp: rempty_def in_rset_def matchesAny_def)

text \<open>Intersecting with a boundary never lets in more than either side does.\<close>

lemma in_rset_intersect: "in_rset (intersect s t) n \<Longrightarrow> in_rset s n \<and> in_rset t n"
  by (auto simp: in_rset_def intersect_def matchesAny_def split: if_splits)

subsection \<open>Requests\<close>

definition wf_kind :: "kindCtx \<Rightarrow> bool" where
  "wf_kind k \<longleftrightarrow> hint k = up_to_star (typedAll k) \<and>
     (namesOK k \<longrightarrow> CHR ''*'' \<notin> set (pre k) \<and> CHR ''*'' \<notin> set (suf k))"

text \<open>
  The resource \<open>r\<close> of a request for the object named \<open>n\<close>: \<^verbatim>\<open>*\<close> for a list, else an instance of the
  kind's pattern, around the name where names can be read.
\<close>

definition request_of :: "kindCtx \<Rightarrow> verbMode \<Rightarrow> string \<Rightarrow> string \<Rightarrow> bool" where
  "request_of k mode n r \<longleftrightarrow>
     (if mode = modeStar then r = ''*''
      else wmatch False (typedAll k) r \<and> (namesOK k \<longrightarrow> r = pre k @ n @ suf k))"

lemma nameOf_Some:
  assumes "nameOf k p = Some (m, isGlob)"
  shows "namesOK k" "p = pre k @ m @ suf k" "isGlob = (CHR ''*'' \<in> set m)"
proof -
  have h: "namesOK k" "has_prefix p (pre k)" "has_suffix p (suf k)" "length (pre k) + length (suf k) < length p"
      "m = take (length p - length (suf k) - length (pre k)) (drop (length (pre k)) p)"
    using assms by (auto simp: nameOf_def Let_def split: if_splits)
  show "namesOK k" by (rule h)
  show "isGlob = (CHR ''*'' \<in> set m)" using assms by (auto simp: nameOf_def Let_def split: if_splits)
  obtain y where y: "p = y @ suf k" using h(3) by (auto simp: has_suffix_iff)
  then have "take (length (pre k)) y = pre k" using h(2,4) by (simp add: has_prefix_def)
  then have "y = pre k @ drop (length (pre k)) y" by (metis append_take_drop_id)
  moreover have "m = drop (length (pre k)) y" using h(4,5) y by simp
  ultimately show "p = pre k @ m @ suf k" using y by simp
qed

lemma nameOf_matches:
  assumes "wf_kind k" "request_of k mode n r" "mode \<noteq> modeStar" "nameOf k p = Some (m, isGlob)"
  shows "wmatch False p r \<longleftrightarrow> (if isGlob then glob m n else n = m)"
  using assms nameOf_Some [OF assms(4)]
  by (auto simp: wf_kind_def request_of_def wmatch_around glob_wmatch wmatch_starfree)

lemma mightTarget_if_matches:
  assumes "wf_kind k" "request_of k mode n r" "mode \<noteq> modeStar" "wmatch False p r"
  shows "mightTarget k p"
proof -
  have "has_prefix r (hint k)" using assms by (auto simp: wf_kind_def request_of_def wmatch_up_to_star)
  moreover have "has_prefix r (up_to_star p)" using assms(4) by (rule wmatch_up_to_star)
  ultimately show ?thesis unfolding mightTarget_def has_prefix_iff by (metis append_eq_append_conv2)
qed

lemma all_names_matches:
  assumes "request_of k mode n r" "mode \<noteq> modeStar" "p = ''*'' \<or> glob p (typedAll k)"
  shows "wmatch False p r"
  using assms wmatch_trans [of p "typedAll k" r] by (auto simp: request_of_def glob_wmatch wmatch_star_iff)

subsection \<open>What a statement covers\<close>

lemma cover_one_sound:
  assumes "wf_kind k" "request_of k mode n r" "in_rset (cSet (cover_one k mode p c)) n"
  shows "in_rset (cSet c) n \<or> wmatch False p r"
proof (cases "mode = modeStar")
  case True
  then show ?thesis using assms by (auto simp: cover_one_def request_of_def glob_wmatch split: if_splits)
next
  case False
  then show ?thesis
    using assms all_names_matches [OF assms(2) False, of p] nameOf_matches [OF assms(1,2) False, of p]
    by (auto simp: cover_one_def split: if_splits option.splits)
qed

lemma cover_one_complete:
  assumes "wf_kind k" "request_of k mode n r" "wmatch False p r"
  shows "unmappable (cover_one k mode p c) \<or> nameScoped (cover_one k mode p c) \<or>
    in_rset (cSet (cover_one k mode p c)) n"
proof (cases "mode = modeStar")
  case True
  then show ?thesis using assms by (auto simp: cover_one_def request_of_def glob_wmatch)
next
  case False
  then show ?thesis
    using assms(3) mightTarget_if_matches [OF assms(1,2) False assms(3)] nameOf_matches [OF assms(1,2) False, of p]
    by (auto simp: cover_one_def split: option.splits)
qed

lemma cover_one_keeps:
  "unmappable c \<Longrightarrow> unmappable (cover_one k mode p c)"
  "nameScoped c \<Longrightarrow> nameScoped (cover_one k mode p c)"
  "in_rset (cSet c) n \<Longrightarrow> in_rset (cSet (cover_one k mode p c)) n"
  "cExcept (cover_one k mode p c) = cExcept c"
  by (auto simp: cover_one_def split: option.splits)

abbreviation cover_all :: "kindCtx \<Rightarrow> verbMode \<Rightarrow> cover \<Rightarrow> string list \<Rightarrow> cover" where
  "cover_all k mode \<equiv> foldl (\<lambda>c p. cover_one k mode p c)"

lemma cover_all_sound:
  assumes "wf_kind k" "request_of k mode n r" "in_rset (cSet (cover_all k mode c ps)) n"
  shows "in_rset (cSet c) n \<or> (\<exists>p \<in> set ps. wmatch False p r)"
  by (rule foldl_from [where P = "\<lambda>c. in_rset (cSet c) n", OF _ assms(3)]) (rule cover_one_sound [OF assms(1,2)])

lemma cover_all_complete:
  assumes "wf_kind k" "request_of k mode n r" "p \<in> set ps" "wmatch False p r"
  shows "unmappable (cover_all k mode c ps) \<or> nameScoped (cover_all k mode c ps) \<or> in_rset (cSet (cover_all k mode c ps)) n"
  by (rule foldl_reaches [where P = "\<lambda>c. unmappable c \<or> nameScoped c \<or> in_rset (cSet c) n", OF _ assms(3)])
    (use cover_one_keeps cover_one_complete [OF assms(1,2,4)] in auto)

lemma cover_except_None:
  assumes "request_of k mode n r" "cover_except k mode ps c = None"
  shows "\<exists>p \<in> set ps. wmatch False p r"
  using assms(2)
proof (induction ps arbitrary: c)
  case (Cons p ps)
  show ?case
  proof (cases "mode = modeStar")
    case True
    then show ?thesis using Cons assms(1) by (auto simp: request_of_def glob_wmatch split: if_splits)
  next
    case False
    then show ?thesis using Cons all_names_matches [OF assms(1) False, of p] by (auto split: if_splits)
  qed
qed simp

lemma cover_except_Cons:
  assumes "cover_except k mode (p # ps) c = Some c'"
  obtains c1 where "cover_except k mode ps c1 = Some c'" "unmappable c \<longrightarrow> unmappable c1"
    "\<forall>n. in_rset (cExcept c) n \<longrightarrow> in_rset (cExcept c1) n" "cSet c1 = cSet c" "nameScoped c1 = nameScoped c"
    "mode = modeStar \<longrightarrow> \<not> glob p ''*''"
    "mode \<noteq> modeStar \<longrightarrow> (case nameOf k p of
       Some (m, g) \<Rightarrow> cExcept c1 = add_pattern m g (cExcept c) | None \<Rightarrow> mightTarget k p \<longrightarrow> unmappable c1)"
  using assms by (auto split: if_splits option.splits)

lemma cover_except_keeps:
  assumes "cover_except k mode ps c = Some c'"
  shows "unmappable c \<longrightarrow> unmappable c'" "in_rset (cExcept c) n \<longrightarrow> in_rset (cExcept c') n"
    "cSet c' = cSet c" "nameScoped c' = nameScoped c"
  using assms
proof (induction ps arbitrary: c)
  case (Cons p ps)
  { case 1 show ?case using Cons(1) cover_except_Cons [OF 1] by metis next
    case 2 show ?case using Cons(2) cover_except_Cons [OF 2] by metis next
    case 3 show ?case using Cons(3) cover_except_Cons [OF 3] by metis next
    case 4 show ?case using Cons(4) cover_except_Cons [OF 4] by metis }
qed simp_all

lemma cover_except_complete:
  assumes "wf_kind k" "request_of k mode n r" "cover_except k mode ps c = Some c'" "p \<in> set ps" "wmatch False p r"
  shows "unmappable c' \<or> in_rset (cExcept c') n"
  using assms(3,4)
proof (induction ps arbitrary: c)
  case (Cons q ps)
  from cover_except_Cons [OF Cons.prems(1)] obtain c1 where c1: "cover_except k mode ps c1 = Some c'"
      "mode = modeStar \<longrightarrow> \<not> glob q ''*''"
      "mode \<noteq> modeStar \<longrightarrow> (case nameOf k q of
         Some (m, g) \<Rightarrow> cExcept c1 = add_pattern m g (cExcept c) | None \<Rightarrow> mightTarget k q \<longrightarrow> unmappable c1)"
    by metis
  show ?case
  proof (cases "p = q")
    case True
    then have mode: "mode \<noteq> modeStar" using c1(2) assms(2,5) by (auto simp: request_of_def glob_wmatch)
    have "unmappable c1 \<or> in_rset (cExcept c1) n"
      using c1(3) mode True mightTarget_if_matches [OF assms(1,2) mode assms(5)]
        nameOf_matches [OF assms(1,2) mode, of p] assms(5)
      by (auto split: option.splits)
    then show ?thesis using cover_except_keeps(1,2) [OF c1(1)] by blast
  next
    case False
    then show ?thesis using Cons.prems(2) Cons.IH [OF c1(1)] by simp
  qed
qed simp

lemma coverFor_sound:
  assumes "wf_kind k" "request_of k mode n r" "in_rset (cSet (coverFor k st mode)) n"
    and "NotResources st \<noteq> [] \<Longrightarrow> \<not> unmappable (coverFor k st mode) \<and> \<not> in_rset (cExcept (coverFor k st mode)) n"
  shows "covers st r"
proof (cases "NotResources st = []")
  case True
  then show ?thesis
    using assms(3) cover_all_sound [OF assms(1,2), of no_cover "Resources st"]
    by (auto simp: coverFor_def covers_def no_cover_def)
next
  case False
  show ?thesis
  proof (cases "cover_except k mode (NotResources st) no_cover")
    case None
    then show ?thesis using assms(3) False by (simp add: coverFor_def no_cover_def)
  next
    case (Some c)
    then show ?thesis
      using assms(4) [OF False] False cover_except_complete [OF assms(1,2) Some] by (auto simp: coverFor_def covers_def)
  qed
qed

lemma coverFor_complete:
  assumes "wf_kind k" "request_of k mode n r" "covers st r" "NotResources st = [] \<Longrightarrow> Resources st \<noteq> []"
  shows "broad_deny (coverFor k st mode) \<or> in_rset (cSet (coverFor k st mode)) n"
proof (cases "NotResources st = []")
  case True
  then obtain p where "p \<in> set (Resources st)" "wmatch False p r" using assms(3,4) by (auto simp: covers_def)
  then show ?thesis using cover_all_complete [OF assms(1,2)] True by (auto simp: coverFor_def broad_deny_def)
next
  case False
  then show ?thesis
    using cover_except_None [OF assms(2)] assms(3) by (auto simp: coverFor_def covers_def split: option.splits)
qed

subsection \<open>What a decision allows\<close>

lemma scope_equals_iff:
  "scope_equals account m c = (if \<forall>(k, v) \<in> set m. k = resourceAccount \<longrightarrow> v = account
     then Some (c \<or> (\<exists>(k, v) \<in> set m. k \<noteq> resourceAccount)) else None)"
  by (induction account m c rule: scope_equals.induct) auto

lemma scope_likes_iff:
  "scope_likes account lcs c = (if \<forall>lc \<in> set lcs. lcKey lc = resourceAccount \<longrightarrow> glob (lcPattern lc) account \<noteq> lcNegate lc
     then Some (c \<or> (\<exists>lc \<in> set lcs. lcKey lc \<noteq> resourceAccount)) else None)"
  by (induction account lcs c rule: scope_likes.induct) auto

lemma conditionScope_iff:
  "conditionScope st account =
     (account_holds account st,
      account_holds account st \<and> \<not> unconditional (st\<lparr>KeyConditions := []\<rparr>))"
  unfolding conditionScope_def scope_equals_iff scope_likes_iff account_holds_def unconditional_def
  by (auto simp: glob_wmatch split_beta)

lemma statementActs_acts:
  "Effect st \<noteq> Deny \<Longrightarrow> statementActs st action \<Longrightarrow> acts st action"
  "Effect st = Deny \<Longrightarrow> acts st action \<Longrightarrow> NotActions st \<noteq> [] \<longrightarrow> \<not> operator_action action \<Longrightarrow>
     NotActions st = [] \<longrightarrow> Actions st \<noteq> [] \<Longrightarrow> statementActs st action"
  by (auto simp: statementActs_def acts_def actionMatches_def list_ex_iff glob_wmatch operator_action_def)

text \<open>A statement the compiler counts, and how.\<close>

definition counted :: "string \<Rightarrow> string \<Rightarrow> Statement \<Rightarrow> bool" where
  "counted action account st \<longleftrightarrow> statementActs st action \<and> account_holds account st"

definition granting :: "string \<Rightarrow> string \<Rightarrow> Statement \<Rightarrow> bool" where
  "granting action account st \<longleftrightarrow> counted action account st \<and> Effect st \<noteq> Deny \<and>
     unconditional (st\<lparr>KeyConditions := []\<rparr>)"

lemma decide_statement_cases:
  "decide_statement k action mode account t st =
     (let c = coverFor k st mode; conditional = (\<not> unconditional (st\<lparr>KeyConditions := []\<rparr>))
      in if \<not> counted action account st then t
         else if Effect st = Deny then
           t\<lparr>tDeny := deny_names c (tDeny t),
             tDropped := tDropped t @ note_if conditional ConditionalDeny @ note_if (broad_deny c) DenyEveryName\<rparr>
         else if \<not> granting action account st then
           t\<lparr>tDropped := tDropped t @ note_if (\<not> rempty (cSet c) \<or> unmappable c \<or> nameScoped c) ConditionalAllow\<rparr>
         else
           t\<lparr>tAllow := runion (tAllow t) (cSet c), tExcept := runion (tExcept t) (cExcept c),
             tDropped := tDropped t @ note_if (unmappable c) UnmappableAllow @ note_if (nameScoped c) NameScopedAllow\<rparr>)"
  by (simp add: decide_statement_def conditionScope_iff counted_def granting_def Let_def)

lemma deny_names_in:
  "in_rset s n \<Longrightarrow> in_rset (deny_names c s) n"
  "broad_deny c \<or> in_rset (cSet c) n \<Longrightarrow> in_rset (deny_names c s) n"
  by (auto simp: deny_names_def)

lemma tally_allow:
  assumes "in_rset (tAllow (foldl (decide_statement k action mode account) t sts)) n"
  shows "in_rset (tAllow t) n \<or> (\<exists>st \<in> set sts. granting action account st \<and> in_rset (cSet (coverFor k st mode)) n)"
  by (rule foldl_from [where P = "\<lambda>t. in_rset (tAllow t) n", OF _ assms])
    (auto simp: decide_statement_cases Let_def split: if_splits)

lemma decide_statement_keeps:
  "in_rset (tDeny t) n \<Longrightarrow> in_rset (tDeny (decide_statement k action mode account t st)) n"
  "in_rset (tExcept t) n \<Longrightarrow> in_rset (tExcept (decide_statement k action mode account t st)) n"
  "rAll (tAllow t) \<Longrightarrow> rAll (tAllow (decide_statement k action mode account t st))"
  by (simp_all add: decide_statement_cases Let_def deny_names_in(1) runion_def [of "tAllow _"])

lemma tally_deny:
  assumes "st \<in> set sts" "counted action account st" "Effect st = Deny"
    and "broad_deny (coverFor k st mode) \<or> in_rset (cSet (coverFor k st mode)) n"
  shows "in_rset (tDeny (foldl (decide_statement k action mode account) t sts)) n"
  by (rule foldl_reaches [where P = "\<lambda>t. in_rset (tDeny t) n", OF decide_statement_keeps(1) assms(1)])
    (use assms(2,3) deny_names_in(2) [OF assms(4)] in \<open>simp_all add: decide_statement_cases Let_def\<close>)

lemma tally_except:
  assumes "st \<in> set sts" "granting action account st" "in_rset (cExcept (coverFor k st mode)) n"
  shows "in_rset (tExcept (foldl (decide_statement k action mode account) t sts)) n"
  by (rule foldl_reaches [where P = "\<lambda>t. in_rset (tExcept t) n", OF decide_statement_keeps(2) assms(1)])
    (use assms(2,3) in \<open>simp_all add: decide_statement_cases granting_def Let_def\<close>)

lemma tally_all:
  assumes "st \<in> set sts" "granting action account st" "rAll (cSet (coverFor k st mode))"
  shows "rAll (tAllow (foldl (decide_statement k action mode account) t sts))"
  by (rule foldl_reaches [where P = "\<lambda>t. rAll (tAllow t)", OF decide_statement_keeps(3) assms(1)])
    (use assms(2,3) in \<open>simp_all add: decide_statement_cases granting_def Let_def runion_def\<close>)

text \<open>The same for the permission boundary, where an exception grants nothing.\<close>

lemma bound_statement_cases:
  "bound_statement k action mode account b st =
     (let c = coverFor k st mode
      in if \<not> counted action account st then b
         else if Effect st = Deny then (fst b, deny_names c (snd b))
         else if \<not> granting action account st \<or> broad_deny c then b
         else (runion (fst b) (cSet c), snd b))"
  by (simp add: bound_statement_def conditionScope_iff counted_def granting_def Let_def)

lemma bound_allow:
  assumes "in_rset (fst (foldl (bound_statement k action mode account) b sts)) n"
  shows "in_rset (fst b) n \<or> (\<exists>st \<in> set sts. granting action account st \<and> \<not> broad_deny (coverFor k st mode) \<and>
    in_rset (cSet (coverFor k st mode)) n)"
  by (rule foldl_from [where P = "\<lambda>b. in_rset (fst b) n", OF _ assms])
    (auto simp: bound_statement_cases Let_def split: if_splits)

lemma bound_deny:
  assumes "st \<in> set sts" "counted action account st" "Effect st = Deny"
    and "broad_deny (coverFor k st mode) \<or> in_rset (cSet (coverFor k st mode)) n"
  shows "in_rset (snd (foldl (bound_statement k action mode account) b sts)) n"
  by (rule foldl_reaches [where P = "\<lambda>b. in_rset (snd b) n", OF _ assms(1)])
    (use assms(2,3) deny_names_in [of _ n] assms(4) in \<open>simp_all add: bound_statement_cases Let_def\<close>)

abbreviation tally_of :: "kindCtx \<Rightarrow> string \<Rightarrow> verbMode \<Rightarrow> string \<Rightarrow> Statement list \<Rightarrow> tally" where
  "tally_of k action mode account \<equiv> foldl (decide_statement k action mode account)
     \<lparr>tAllow = no_names, tExcept = no_names, tDeny = no_names, tDropped = []\<rparr>"

abbreviation bounds_of :: "kindCtx \<Rightarrow> string \<Rightarrow> verbMode \<Rightarrow> string \<Rightarrow> Statement list \<Rightarrow> rset \<times> rset" where
  "bounds_of k action mode account \<equiv> foldl (bound_statement k action mode account) (no_names, no_names)"

lemma decide_denies:
  assumes "decide k action mode account stmts boundary = (d, notes)"
  shows "in_rset (tDeny (tally_of k action mode account stmts)) n \<Longrightarrow> in_rset (dDeny d) n"
    and "boundary = Some bs \<Longrightarrow> in_rset (snd (bounds_of k action mode account bs)) n \<Longrightarrow> in_rset (dDeny d) n"
  using assms by (auto simp: decide_def Let_def split_beta split: option.splits if_splits)

lemma decide_allows:
  assumes "decide k action mode account stmts boundary = (d, notes)" "in_rset (dAllow d) n"
  shows "in_rset (tAllow (tally_of k action mode account stmts)) n"
    and "boundary = Some bs \<Longrightarrow> in_rset (fst (bounds_of k action mode account bs)) n"
    and "boundary = None \<Longrightarrow> rAll (tAllow (tally_of k action mode account stmts)) \<Longrightarrow>
      in_rset (tExcept (tally_of k action mode account stmts)) n \<Longrightarrow> in_rset (dDeny d) n"
proof -
  let ?t = "tally_of k action mode account stmts"
  show "in_rset (tAllow ?t) n" "boundary = Some bs \<Longrightarrow> in_rset (fst (bounds_of k action mode account bs)) n"
    using assms by (auto simp: decide_def Let_def split_beta split: option.splits if_splits dest: in_rset_intersect)
  assume "boundary = None" "rAll (tAllow ?t)" "in_rset (tExcept ?t) n"
  moreover from this(3) have "\<not> rempty (tExcept ?t)" using rempty_in_rset by blast
  ultimately show "in_rset (dDeny d) n"
    using assms by (auto simp: decide_def Let_def split: if_splits)
qed

text \<open>
  What the compiler does honour: an Allow without conditions on optional keys, whose exceptions can be
  read and meet no boundary; a Deny that names its actions and resources and is no complement that
  would reach the operator actions.
\<close>

definition honoured :: "string \<Rightarrow> Statement \<Rightarrow> bool" where
  "honoured action st \<longleftrightarrow>
     (if Effect st = Deny then
        (if NotActions st \<noteq> [] then \<not> operator_action action else Actions st \<noteq> []) \<and>
        (NotResources st \<noteq> [] \<or> Resources st \<noteq> [])
      else KeyConditions st = [])"

definition readable_exceptions :: "kindCtx \<Rightarrow> verbMode \<Rightarrow> Statement list option \<Rightarrow> Statement \<Rightarrow> bool" where
  "readable_exceptions k mode boundary st \<longleftrightarrow>
     (Effect st \<noteq> Deny \<and> NotResources st \<noteq> [] \<longrightarrow> boundary = None \<and> \<not> unmappable (coverFor k st mode))"

lemma honoured_deny:
  assumes "wf_kind k" "request_of k mode n r" "honoured action st" "Effect st = Deny"
    and "applies account other action r st"
  shows "counted action account st" "broad_deny (coverFor k st mode) \<or> in_rset (cSet (coverFor k st mode)) n"
proof -
  have a: "acts st action" "covers st r" "account_holds account st" using assms(5) by (auto simp: applies_def)
  have h: "NotActions st \<noteq> [] \<longrightarrow> \<not> operator_action action" "NotActions st = [] \<longrightarrow> Actions st \<noteq> []"
      "NotResources st = [] \<Longrightarrow> Resources st \<noteq> []"
    using assms(3,4) by (auto simp: honoured_def split: if_splits)
  show "counted action account st" using statementActs_acts(2) [OF assms(4) a(1) h(1,2)] a(3) by (simp add: counted_def)
  show "broad_deny (coverFor k st mode) \<or> in_rset (cSet (coverFor k st mode)) n"
    by (rule coverFor_complete [OF assms(1,2) a(2) h(3)])
qed

lemma granting_applies:
  assumes "granting action account st" "KeyConditions st = []" "covers st r" "\<And>st. unconditional st \<Longrightarrow> other st"
  shows "Effect st \<noteq> Deny \<and> applies account other action r st"
proof -
  have "st\<lparr>KeyConditions := []\<rparr> = st" using assms(2) by simp
  then have "other st" using assms(1,4) by (auto simp: granting_def)
  then show ?thesis
    using assms(1,3) statementActs_acts(1) [of st action] by (auto simp: granting_def counted_def applies_def)
qed

lemma coverFor_exceptions: "NotResources st \<noteq> [] \<Longrightarrow> in_rset (cSet (coverFor k st mode)) n \<Longrightarrow> rAll (cSet (coverFor k st mode))"
  by (auto simp: coverFor_def no_cover_def split: option.splits)

lemma never_widens:
  assumes "wf_kind k" "request_of k mode n r"
    and stmts: "\<forall>st \<in> set stmts. honoured action st \<and> readable_exceptions k mode boundary st"
    and bstmts: "\<forall>bs. boundary = Some bs \<longrightarrow> (\<forall>st \<in> set bs. honoured action st)"
    and other: "\<And>st. unconditional st \<Longrightarrow> other st"
    and d: "decide k action mode account stmts boundary = (d, notes)" "in_rset (dAllow d) n" "\<not> in_rset (dDeny d) n"
  shows "iam_allows account other stmts boundary action r"
proof -
  let ?t = "tally_of k action mode account stmts" and ?b = "bounds_of k action mode account"
  have allowed: "\<exists>st \<in> set stmts. Effect st \<noteq> Deny \<and> applies account other action r st"
  proof -
    obtain st where st: "st \<in> set stmts" "granting action account st" "in_rset (cSet (coverFor k st mode)) n"
      using tally_allow [OF decide_allows(1) [OF d(1,2)]] by auto
    have "covers st r"
    proof (rule coverFor_sound [OF assms(1,2) st(3)])
      assume nr: "NotResources st \<noteq> []"
      then have "boundary = None" "\<not> unmappable (coverFor k st mode)"
        using stmts st(1,2) by (auto simp: readable_exceptions_def granting_def)
      then show "\<not> unmappable (coverFor k st mode) \<and> \<not> in_rset (cExcept (coverFor k st mode)) n"
        using decide_allows(3) [OF d(1,2)] d(3) tally_all [OF st(1,2) coverFor_exceptions [OF nr st(3)]]
          tally_except [OF st(1,2)] by blast
    qed
    then show ?thesis
      using granting_applies [OF st(2)] stmts st(1,2) other by (auto simp: honoured_def granting_def)
  qed
  have denied: "\<not> (\<exists>st \<in> set stmts. Effect st = Deny \<and> applies account other action r st)"
    using honoured_deny [OF assms(1,2)] stmts tally_deny decide_denies(1) [OF d(1)] d(3) by meson
  have bound: "(\<exists>st \<in> set bs. Effect st \<noteq> Deny \<and> applies account other action r st) \<and>
      \<not> (\<exists>st \<in> set bs. Effect st = Deny \<and> applies account other action r st)" if bs: "boundary = Some bs" for bs
  proof
    obtain st where st: "st \<in> set bs" "granting action account st" "\<not> broad_deny (coverFor k st mode)"
        "in_rset (cSet (coverFor k st mode)) n"
      using bound_allow [OF decide_allows(2) [OF d(1,2) bs]] by auto
    have "covers st r" using coverFor_sound [OF assms(1,2) st(4)] st(3) rempty_in_rset by (auto simp: broad_deny_def)
    then show "\<exists>st \<in> set bs. Effect st \<noteq> Deny \<and> applies account other action r st"
      using granting_applies [OF st(2)] bstmts bs st(1,2) other by (auto simp: honoured_def granting_def)
    have "\<forall>st \<in> set bs. honoured action st" using bstmts bs by simp
    then show "\<not> (\<exists>st \<in> set bs. Effect st = Deny \<and> applies account other action r st)"
      using honoured_deny [OF assms(1,2)] bound_deny decide_denies(2) [OF d(1) bs] d(3) by meson
  qed
  show ?thesis using allowed denied bound by (auto simp: iam_allows_def split: option.splits)
qed

lemma wf_newKindCtx: "wf_kind (newKindCtx nameField typed)"
proof (cases "index_of (typed namePlaceholder) namePlaceholder")
  case (Some i)
  then show ?thesis using set_take_subset [of i "typed namePlaceholder"]
      set_drop_subset [of "i + length namePlaceholder" "typed namePlaceholder"]
    by (auto simp: wf_kind_def newKindCtx_def Let_def)
qed (simp add: wf_kind_def newKindCtx_def Let_def)

text \<open>Where the resource of an object is its name between two fixed texts, that is its request.\<close>

lemma uniform_request:
  assumes "\<And>m. typed m = u @ m @ v" "CHR ''*'' \<notin> set u" "CHR ''*'' \<notin> set v"
    and "index_of (typed namePlaceholder) namePlaceholder = Some (length u)"
  shows "request_of (newKindCtx [] typed) mode n (if mode = modeStar then ''*'' else typed n)"
  using assms by (auto simp: request_of_def newKindCtx_def Let_def namePlaceholder_def wmatch_append wmatch_starfree
      wmatch_star_iff)


text \<open>Sample policies on roles, whose requests are on \<^verbatim>\<open>Role::<name>\<close>.\<close>

definition role_typed :: "string \<Rightarrow> string" where
  "role_typed n = ''Role::'' @ n"

definition role_kind :: kindCtx where
  "role_kind = newKindCtx [] role_typed"

lemma role_kind_eq:
  "role_kind = \<lparr>typedAll = ''Role::*'', hint = ''Role::'', pre = ''Role::'', suf = [], namesOK = True\<rparr>"
  unfolding role_kind_def by code_simp

lemma role_request: "request_of (newKindCtx [] role_typed) modeNamed n (''Role::'' @ n)"
  unfolding role_kind_def [symmetric] role_kind_eq request_of_def by (simp add: wmatch_char_iff wmatch_star_iff)

lemma bare_simps [simp]:
  "Effect empty_statement = Allow" "KeyConditions empty_statement = []" "NotResources empty_statement = []" "NotActions empty_statement = []"
  "Condition empty_statement = []" "LikeConditions empty_statement = []" "IPConditions empty_statement = []" "TimeConditions empty_statement = []"
  "unconditional empty_statement"
  by (simp_all add: empty_statement_def unconditional_def)

definition get_ops :: Statement where
  "get_ops = empty_statement\<lparr>Actions := [''iam:Get*''], Resources := [''Role::ops-*'']\<rparr>"

definition deny_root :: Statement where
  "deny_root = empty_statement\<lparr>Effect := Deny, Actions := [''*''], Resources := [''Role::ops-root'']\<rparr>"

definition decided :: "string \<Rightarrow> Statement list \<Rightarrow> Statement list option \<Rightarrow> decision" where
  "decided action stmts boundary = fst (decide (newKindCtx [] role_typed) action modeNamed ''1'' stmts boundary)"

lemma sample_decision:
  "in_rset (dAllow (decided ''iam:GetRole'' [get_ops, deny_root] None)) ''ops-7''"
  "\<not> in_rset (dDeny (decided ''iam:GetRole'' [get_ops, deny_root] None)) ''ops-7''"
  by code_simp+


subsection \<open>Where it does widen\<close>

text \<open>
  The forms that are not honoured do widen, although the package promises that compiling never does.
  An Allow that requires multi-factor authentication is compiled as if it had no condition, because
  \<^verbatim>\<open>conditionScope\<close> does not look at \<^verbatim>\<open>KeyConditions\<close>.
\<close>

definition mfa_allow :: Statement where
  "mfa_allow = empty_statement\<lparr>Actions := [''*''], Resources := [''*''],
     KeyConditions := [\<lparr>kcKey = ''multiFactorAuthPresent'', kcOp = ''=='', kcValue = ''true'', kcIfExists = False\<rparr>]\<rparr>"

theorem mfa_condition_lost:
  "in_rset (dAllow (decided ''iam:DeleteRole'' [mfa_allow] None)) ''a'' \<and>
   rempty (dDeny (decided ''iam:DeleteRole'' [mfa_allow] None)) \<and>
   \<not> iam_allows ''1'' unconditional [mfa_allow] None ''iam:DeleteRole'' ''Role::a''"
  by (intro conjI) code_simp+

text \<open>
  An exception (\<^verbatim>\<open>NotResource\<close>) of an Allow becomes a Deny only while the Allow is on every name. Behind
  a permission boundary that names resources it is not, and the exception is lost.
\<close>

definition all_but_secret :: Statement where
  "all_but_secret = empty_statement\<lparr>Actions := [''iam:*''], NotResources := [''Role::secret'']\<rparr>"

definition only_secret :: Statement where
  "only_secret = empty_statement\<lparr>Actions := [''iam:*''], Resources := [''Role::secret'']\<rparr>"

theorem exception_lost_behind_boundary:
  "in_rset (dAllow (decided ''iam:DeleteRole'' [all_but_secret] (Some [only_secret]))) ''secret'' \<and>
   rempty (dDeny (decided ''iam:DeleteRole'' [all_but_secret] (Some [only_secret]))) \<and>
   \<not> iam_allows ''1'' unconditional [all_but_secret] (Some [only_secret]) ''iam:DeleteRole'' ''Role::secret''"
  by (intro conjI) code_simp+

text \<open>
  An exception that cannot be read as names is reported as \<^verbatim>\<open>an Allow ... is dropped\<close>, but the Allow on
  every name stays.
\<close>

definition all_but_pattern :: Statement where
  "all_but_pattern = empty_statement\<lparr>Actions := [''iam:*''], NotResources := [''*secret*'']\<rparr>"

theorem unreadable_exception_lost:
  "in_rset (dAllow (decided ''iam:DeleteRole'' [all_but_pattern] None)) ''secret'' \<and>
   rempty (dDeny (decided ''iam:DeleteRole'' [all_but_pattern] None)) \<and>
   \<not> iam_allows ''1'' unconditional [all_but_pattern] None ''iam:DeleteRole'' ''Role::secret''"
  by (intro conjI) code_simp+

text \<open>
  A complement never reaches the operator actions in \<^verbatim>\<open>statementActs\<close>, not even that of a Deny: who
  may do everything but is denied everything except S3 still reads the cluster's pods.
\<close>

definition everything_allowed :: Statement where
  "everything_allowed = empty_statement\<lparr>Actions := [''*''], Resources := [''*'']\<rparr>"

definition deny_but_s3 :: Statement where
  "deny_but_s3 = empty_statement\<lparr>Effect := Deny, NotActions := [''s3:*''], Resources := [''*'']\<rparr>"

theorem deny_misses_operator_actions:
  "in_rset (dAllow (fst (decide (newKindCtx [] role_typed) ''openinfra-operator:ListPods'' modeStar ''1''
      [everything_allowed, deny_but_s3] None))) [] \<and>
   rempty (dDeny (fst (decide (newKindCtx [] role_typed) ''openinfra-operator:ListPods'' modeStar ''1''
      [everything_allowed, deny_but_s3] None))) \<and>
   \<not> iam_allows ''1'' unconditional [everything_allowed, deny_but_s3] None ''openinfra-operator:ListPods'' ''*''"
  by (intro conjI) code_simp+

end
