(* ===== verification/AwsImport.thy ===== *)
theory AwsImport
  imports PolicyEngine Json
begin

text \<open>
  Importing AWS policy documents, \<^verbatim>\<open>policyengine/importaws.go\<close>: actions, resources and conditions of a
  document become statements of the engine, and what cannot be honoured is reported.

  The document is given as decoded JSON, the members of an object in the order of the text. The parsers
  of addresses and times are Cedar's. The texts of errors and reports are one constructor each.
\<close>

subsection \<open>Tables\<close>

definition SupportedServices :: "string list" where
  "SupportedServices =
     [''s3'', ''dynamodb'', ''lambda'', ''sqs'', ''sns'', ''kinesis'', ''kms'', ''ssm'', ''secretsmanager'', ''ecr'', ''ecs'',
      ''logs'', ''rds'', ''ses'', ''apigateway'', ''cloudwatch'', ''cloudfront'', ''iam'', ''states'', ''cloudformation'',
      ''appsync'', ''acm'', ''cognito-idp'', ''glue'', ''athena'', ''eks'', ''events'', ''servicequotas'', ''sts'']"

definition SupportedActions :: "string list strmap" where
  "SupportedActions =
     [(''ec2'',
        [''AllocateAddress'', ''ReleaseAddress'', ''DescribeAddresses'', ''AssociateAddress'', ''DisassociateAddress'',
         ''DescribeInstances'', ''DescribeVolumes'', ''DescribeSecurityGroups'', ''DescribeVpcs'', ''DescribeSubnets'',
         ''DescribeImages'', ''DescribeRegions'', ''DescribeAvailabilityZones'', ''DescribeKeyPairs'',
         ''ImportKeyPair'', ''CreateKeyPair'', ''DeleteKeyPair'', ''DeleteVolume'',
         ''DescribeInternetGateways'', ''DescribeRouteTables'', ''DescribeNetworkAcls'', ''DescribeVpcEndpoints'']),
      (''ec2messages'',
        [''GetMessages'', ''SendReply'', ''AcknowledgeMessage'', ''DeleteMessage'', ''FailMessage'', ''GetEndpoint''])]"

datatype condType =
    condBool
  | condIP
  | condString
  | condTime
  | condNumber

record ConditionKey =
  Attr :: string
  Type :: condType
  Aliases :: "string list"
  Optional :: bool

definition SupportedConditionKeys :: "ConditionKey list" where
  "SupportedConditionKeys =
     [\<lparr>Attr = ''authenticated'', Type = condBool, Aliases = [''authenticated''], Optional = False\<rparr>,
      \<lparr>Attr = ''sourceIp'', Type = condIP, Aliases = [''aws:SourceIp'', ''sourceIp''], Optional = False\<rparr>,
      \<lparr>Attr = ''username'', Type = condString, Aliases = [''aws:username'', ''username''], Optional = False\<rparr>,
      \<lparr>Attr = ''currentTime'', Type = condTime, Aliases = [''aws:CurrentTime'', ''currentTime''], Optional = False\<rparr>,
      \<lparr>Attr = ''multiFactorAuthPresent'', Type = condBool,
        Aliases = [''aws:MultiFactorAuthPresent'', ''multiFactorAuthPresent''], Optional = True\<rparr>,
      \<lparr>Attr = ''multiFactorAuthAge'', Type = condNumber,
        Aliases = [''aws:MultiFactorAuthAge'', ''multiFactorAuthAge''], Optional = True\<rparr>]"

definition resolveConditionKey :: "string \<Rightarrow> ConditionKey option" where
  "resolveConditionKey key = find (\<lambda>k. list_ex (\<lambda>a. to_lower a = to_lower key) (Aliases k)) SupportedConditionKeys"

definition numericOps :: "string strmap" where
  "numericOps =
     [(''NumericEquals'', ''==''), (''NumericNotEquals'', ''!=''),
      (''NumericLessThan'', ''<''), (''NumericLessThanEquals'', ''<=''),
      (''NumericGreaterThan'', ''>''), (''NumericGreaterThanEquals'', ''>='')]"

definition dateOp :: "string \<Rightarrow> string" where
  "dateOp awsOp =
     (if awsOp = ''DateGreaterThan'' then ''>''
      else if awsOp = ''DateGreaterThanEquals'' then ''>=''
      else if awsOp = ''DateLessThan'' then ''<''
      else if awsOp = ''DateLessThanEquals'' then ''<=''
      else [])"

subsection \<open>Conditions\<close>

datatype refusal =
    NonObjectBody string
  | UnknownKey string
  | MultiValued string string
  | NullNeedsBool string
  | NotBoolOperator string string
  | NotBoolValue string string
  | NotNumericOperator string string
  | NotAnInteger string string
  | NotImportableOn string string
  | BoolOnOther string
  | StringEqualsUnfaithful string
  | LikeOnOther string string
  | QuestionMark string string
  | DateOnOther string string
  | BadDatetime string string
  | IPOnOther string string
  | BadIP string string
  | NotImportable string

fun singleValue :: "json \<Rightarrow> string option" where
  "singleValue (JStr s) = Some s"
| "singleValue (JBool b) = Some (if b then ''true'' else ''false'')"
| "singleValue (JArr [v]) = singleValue v"
| "singleValue _ = None"

definition optionalKeyCondition :: "string \<Rightarrow> string \<Rightarrow> ConditionKey \<Rightarrow> string \<Rightarrow> (refusal, KeyCondition) result" where
  "optionalKeyCondition oper key ck val =
     (let v = to_lower (trim_space val); base = trim_suffix oper ''IfExists''; ifExists = has_suffix oper ''IfExists''
      in if oper = ''Null'' then
           (if v \<noteq> ''true'' \<and> v \<noteq> ''false'' then Inl (NullNeedsBool key)
            else Inr \<lparr>kcKey = Attr ck, kcOp = KeyNull, kcValue = v, kcIfExists = False\<rparr>)
         else case Type ck of
             condBool \<Rightarrow>
               (if base \<noteq> ''Bool'' then Inl (NotBoolOperator oper key)
                else if v \<noteq> ''true'' \<and> v \<noteq> ''false'' then Inl (NotBoolValue oper key)
                else Inr \<lparr>kcKey = Attr ck, kcOp = ''=='', kcValue = v, kcIfExists = ifExists\<rparr>)
           | condNumber \<Rightarrow>
               (case lookup numericOps base of
                  None \<Rightarrow> Inl (NotNumericOperator oper key)
                | Some cmp \<Rightarrow>
                    (case parse_int64 (trim_space val) of
                       None \<Rightarrow> Inl (NotAnInteger oper val)
                     | Some n \<Rightarrow> Inr \<lparr>kcKey = Attr ck, kcOp = cmp, kcValue = itoa n, kcIfExists = ifExists\<rparr>))
           | _ \<Rightarrow> Inl (NotImportableOn oper key))"

record conds =
  eqs :: "string strmap"
  ips :: "IPCondition list"
  likes :: "LikeCondition list"
  times :: "TimeCondition list"
  keyeds :: "KeyCondition list"

definition no_conds :: conds where
  "no_conds = \<lparr>eqs = [], ips = [], likes = [], times = [], keyeds = []\<rparr>"

definition plainCondition :: "cedar_api \<Rightarrow> string \<Rightarrow> string \<Rightarrow> ConditionKey \<Rightarrow> string \<Rightarrow> conds \<Rightarrow> (refusal, conds) result" where
  "plainCondition C oper key ck val cs =
     (if oper = ''Bool'' then
        (if Type ck \<noteq> condBool \<or> val \<noteq> ''true'' \<and> val \<noteq> ''false'' then Inl (BoolOnOther key)
         else Inr (cs\<lparr>eqs := put (Attr ck) val (eqs cs)\<rparr>))
      else if oper = ''StringEquals'' then
        (if Type ck = condBool \<or> Type ck = condTime then Inl (StringEqualsUnfaithful key)
         else Inr (cs\<lparr>eqs := put (Attr ck) val (eqs cs)\<rparr>))
      else if oper = ''StringLike'' \<or> oper = ''StringNotLike'' then
        (if Type ck \<noteq> condString then Inl (LikeOnOther oper key)
         else if CHR ''?'' \<in> set val then Inl (QuestionMark oper val)
         else Inr (cs\<lparr>likes := likes cs @ [\<lparr>lcKey = Attr ck, lcPattern = val, lcNegate = (oper = ''StringNotLike'')\<rparr>]\<rparr>))
      else if dateOp oper \<noteq> [] then
        (if Type ck \<noteq> condTime then Inl (DateOnOther oper key)
         else if \<not> parse_datetime C val then Inl (BadDatetime oper val)
         else Inr (cs\<lparr>times := times cs @ [\<lparr>tcKey = Attr ck, tcOp = dateOp oper, tcTarget = val\<rparr>]\<rparr>))
      else if oper = ''IpAddress'' \<or> oper = ''NotIpAddress'' then
        (if Type ck \<noteq> condIP then Inl (IPOnOther oper key)
         else if \<not> parse_ip C val then Inl (BadIP oper val)
         else Inr (cs\<lparr>ips := ips cs @ [\<lparr>ipKey = Attr ck, ipCIDR = val, ipNegate = (oper = ''NotIpAddress'')\<rparr>]\<rparr>))
      else Inl (NotImportable oper))"

definition import_one :: "cedar_api \<Rightarrow> string \<Rightarrow> conds \<Rightarrow> string \<times> json \<Rightarrow> (refusal, conds) result" where
  "import_one C oper cs kv =
     (case resolveConditionKey (fst kv) of
        None \<Rightarrow> Inl (UnknownKey (fst kv))
      | Some ck \<Rightarrow>
          (case singleValue (snd kv) of
             None \<Rightarrow> Inl (MultiValued oper (fst kv))
           | Some val \<Rightarrow>
               if Optional ck then
                 rbind (optionalKeyCondition oper (fst kv) ck val) (\<lambda>kc. Inr (cs\<lparr>keyeds := keyeds cs @ [kc]\<rparr>))
               else plainCondition C oper (fst kv) ck val cs))"

definition import_operator :: "cedar_api \<Rightarrow> conds \<Rightarrow> string \<times> json \<Rightarrow> (refusal, conds) result" where
  "import_operator C cs ob =
     (case snd ob of
        JObj m \<Rightarrow> rfold (import_one C (fst ob)) cs m
      | _ \<Rightarrow> Inl (NonObjectBody (fst ob)))"

definition importCondition :: "cedar_api \<Rightarrow> json strmap \<Rightarrow> (refusal, conds) result" where
  "importCondition C cond = rfold (import_operator C) no_conds cond"

subsection \<open>Resources\<close>

text \<open>\<^verbatim>\<open>strings.Cut\<close>, \<^verbatim>\<open>strings.CutPrefix\<close>\<close>

definition cut :: "string \<Rightarrow> string \<Rightarrow> (string \<times> string) option" where
  "cut s sep = map_option (\<lambda>i. (take i s, drop (i + length sep) s)) (index_of s sep)"

definition cut_prefix :: "string \<Rightarrow> string \<Rightarrow> string option" where
  "cut_prefix s p = (if has_prefix s p then Some (drop (length p) s) else None)"

text \<open>The first part of \<^verbatim>\<open>strings.Cut\<close>, all of the text when the separator is absent.\<close>

definition before :: "string \<Rightarrow> string \<Rightarrow> string" where
  "before s sep = (case cut s sep of None \<Rightarrow> s | Some (u, _) \<Rightarrow> u)"

definition after_last_slash :: "string \<Rightarrow> string" where
  "after_last_slash s = rev (takeWhile (\<lambda>c. c \<noteq> CHR ''/'') (rev s))"

definition is_alnum :: "char \<Rightarrow> bool" where
  "is_alnum c \<longleftrightarrow> is_digit c \<or> (let n = of_char c :: nat in 65 \<le> n \<and> n \<le> 90 \<or> 97 \<le> n \<and> n \<le> 122)"

definition strip_secret_suffix :: "string \<Rightarrow> string" where
  "strip_secret_suffix n =
     (let k = length n - 7
      in if 7 \<le> length n \<and> n ! k = CHR ''-'' \<and> list_all is_alnum (drop (Suc k) n) then take k n else n)"

definition typed :: "string \<Rightarrow> string \<Rightarrow> string option" where
  "typed typ n = (if n = [] then None else Some (typ @ ''::'' @ n))"

definition cut_typed :: "string \<Rightarrow> string \<times> string \<Rightarrow> string option" where
  "cut_typed tail = (\<lambda>(prefix, typ). Option.bind (cut_prefix tail prefix) (typed typ))"

fun first_typed :: "string \<Rightarrow> (string \<times> string) list \<Rightarrow> string option" where
  "first_typed tail [] = None"
| "first_typed tail (m # ms) = (case cut_typed tail m of None \<Rightarrow> first_typed tail ms | r \<Rightarrow> r)"

definition slashes :: "string \<Rightarrow> nat" where
  "slashes s = length (filter (\<lambda>c. c = CHR ''/'') s)"

definition unslashed :: "string option \<Rightarrow> string option" where
  "unslashed r = (case r of Some t \<Rightarrow> if CHR ''/'' \<in> set t then None else r | None \<Rightarrow> None)"

definition resource_of :: "string \<Rightarrow> string \<Rightarrow> string option" where
  "resource_of svc tail =
     (if svc = ''s3'' then (if before tail ''/'' \<noteq> [] then Some (''Bucket::'' @ tail) else None)
      else if svc = ''dynamodb'' then cut_typed tail (''table/'', ''Table'')
      else if svc = ''lambda'' then cut_typed tail (''function:'', ''Function'')
      else if svc = ''sqs'' then typed ''Queue'' tail
      else if svc = ''sns'' then typed ''Topic'' (before tail '':'')
      else if svc = ''kinesis'' then cut_typed tail (''stream/'', ''Stream'')
      else if svc = ''kms'' then first_typed tail [(''key/'', ''Key''), (''alias/'', ''Key'')]
      else if svc = ''ssm'' then first_typed tail [(''document/'', ''Document''), (''parameter/'', ''Parameter'')]
      else if svc = ''secretsmanager'' then
        (case cut_prefix tail ''secret:'' of
           Some n \<Rightarrow> if n \<noteq> [] then Some (''Secret::'' @ strip_secret_suffix n) else None
         | None \<Rightarrow> None)
      else if svc = ''ecr'' then cut_typed tail (''repository/'', ''Repository'')
      else if svc = ''ecs'' then Option.bind (cut_prefix tail ''service/'') (\<lambda>n. typed ''Service'' (after_last_slash n))
      else if svc = ''logs'' then Option.bind (cut_prefix tail ''log-group:'') (\<lambda>n. typed ''LogGroup'' (before n '':''))
      else if svc = ''rds'' then first_typed tail [(''db:'', ''DBInstance''), (''snapshot:'', ''DBSnapshot'')]
      else if svc = ''ses'' then cut_typed tail (''identity/'', ''Identity'')
      else if svc = ''cloudfront'' then
        first_typed tail
          [(''distribution/'', ''Distribution''), (''cache-policy/'', ''CachePolicy''),
           (''origin-request-policy/'', ''OriginRequestPolicy''), (''response-headers-policy/'', ''ResponseHeadersPolicy''),
           (''origin-access-control/'', ''OriginAccessControl''), (''origin-access-identity/'', ''OriginAccessIdentity'')]
      else if svc = ''ec2'' then
        first_typed tail
          [(''elastic-ip/'', ''ElasticIp''), (''instance/'', ''Instance''), (''volume/'', ''Volume''),
           (''key-pair/'', ''KeyPair''), (''security-group/'', ''SecurityGroup'')]
      else if svc = ''apigateway'' then Option.bind (cut_prefix tail ''/restapis/'') (\<lambda>n. typed ''Api'' (before n ''/''))
      else if svc = ''iam'' then
        (case cut_prefix tail ''role/'' of
           Some n \<Rightarrow> if CHR ''/'' \<in> set n then None else typed ''Role'' n
         | None \<Rightarrow>
             (case cut_prefix tail ''user/'' of
                Some n \<Rightarrow> if CHR ''/'' \<in> set n then None else typed ''User'' n
              | None \<Rightarrow>
                  Option.bind (cut_prefix tail ''policy/'') (\<lambda>n. if CHR ''/'' \<in> set n then None else typed ''Policy'' n)))
      else if svc = ''states'' then
        Option.bind (cut_prefix tail ''stateMachine:'') (\<lambda>n. if CHR '':'' \<in> set n then None else typed ''StateMachine'' n)
      else if svc = ''cloudformation'' then
        Option.bind (cut_prefix tail ''stack/'') (\<lambda>n.
          case cut n ''/'' of
            None \<Rightarrow> typed ''Stack'' n
          | Some (name, sid) \<Rightarrow> if sid = ''*'' then typed ''Stack'' name else None)
      else if svc = ''appsync'' then
        Option.bind (cut_prefix tail ''apis/'') (\<lambda>n. if CHR ''/'' \<in> set n then None else typed ''GraphQLApi'' n)
      else if svc = ''acm'' then cut_typed tail (''certificate/'', ''Certificate'')
      else if svc = ''servicequotas'' then
        Option.bind (cut tail ''/'') (\<lambda>(s, code).
          if s \<noteq> [] \<and> code \<noteq> [] \<and> CHR ''/'' \<notin> set code then Some (''Quota::'' @ s @ ''/'' @ code) else None)
      else if svc = ''cognito-idp'' then cut_typed tail (''userpool/'', ''UserPool'')
      else if svc = ''glue'' then
        (case unslashed (cut_typed tail (''database/'', ''Database'')) of
           Some r \<Rightarrow> Some r
         | None \<Rightarrow>
             Option.bind (cut_prefix tail ''table/'') (\<lambda>n.
               Option.bind (cut n ''/'') (\<lambda>(db, tbl).
                 if db \<noteq> [] \<and> tbl \<noteq> [] \<and> CHR ''/'' \<notin> set tbl then Some (''Table::'' @ db @ ''/'' @ tbl) else None)))
      else if svc = ''athena'' then cut_typed tail (''workgroup/'', ''WorkGroup'')
      else if svc = ''eks'' then unslashed (cut_typed tail (''cluster/'', ''Cluster''))
      else if svc = ''events'' then
        (case unslashed (cut_typed tail (''event-bus/'', ''EventBus'')) of
           Some r \<Rightarrow> Some r
         | None \<Rightarrow>
             Option.bind (cut_prefix tail ''rule/'') (\<lambda>n.
               if n \<noteq> [] \<and> slashes n \<le> 1 \<and> \<not> has_suffix n ''/'' \<and> \<not> has_prefix n ''/'' then Some (''Rule::'' @ n) else None))
      else None)"

definition arnToResource :: "string \<Rightarrow> string option" where
  "arnToResource arn =
     (let parts = split_n 6 (CHR '':'') arn
      in if length parts < 6 \<or> parts ! 0 \<noteq> ''arn'' then None else resource_of (parts ! 2) (parts ! 5))"

datatype narrower =
    IAMPath
  | NamesExecutions
  | NamesActivity
  | StackInstance
  | ChangeOrStackSet
  | PartOfApi
  | GlueCatalog

definition narrowerThanAuthorized :: "string \<Rightarrow> narrower option" where
  "narrowerThanAuthorized arn =
     (let parts = split_n 6 (CHR '':'') arn; svc = parts ! 2; tail = parts ! 5
      in if length parts < 6 \<or> parts ! 0 \<noteq> ''arn'' then None
         else if svc = ''iam'' then
           (if list_ex (\<lambda>p. case cut_prefix tail p of Some n \<Rightarrow> CHR ''/'' \<in> set n | None \<Rightarrow> False)
               [''role/'', ''user/'', ''policy/''] then Some IAMPath else None)
         else if svc = ''states'' then
           (if has_prefix tail ''execution:'' \<or> has_prefix tail ''express:'' then Some NamesExecutions
            else if has_prefix tail ''activity:'' then Some NamesActivity else None)
         else if svc = ''cloudformation'' then
           (if (case cut_prefix tail ''stack/'' of Some n \<Rightarrow> CHR ''/'' \<in> set n | None \<Rightarrow> False) then Some StackInstance
            else if has_prefix tail ''changeSet/'' \<or> has_prefix tail ''stackset/'' then Some ChangeOrStackSet else None)
         else if svc = ''appsync'' then
           (if (case cut_prefix tail ''apis/'' of Some n \<Rightarrow> CHR ''/'' \<in> set n | None \<Rightarrow> False) then Some PartOfApi else None)
         else if svc = ''glue'' then (if has_prefix tail ''catalog'' then Some GlueCatalog else None)
         else None)"

subsection \<open>Documents\<close>

datatype unsupported =
    ConditionNotObject nat
  | ConditionRefused nat refusal
  | NoDataPlane string
  | UnknownARN string
  | NarrowerARN string narrower
  | NotResourceUnmapped nat "unsupported list"
  | NoMappableResource nat

datatype import_error =
    NotAPolicyDocument
  | BadStatement
  | EffectMissing nat
  | ActionTwice nat
  | ResourceTwice nat

definition supported_action :: "string \<Rightarrow> bool" where
  "supported_action a =
     (case cut a '':'' of
        None \<Rightarrow> False
      | Some (svc, oper) \<Rightarrow> svc \<in> set SupportedServices \<or> oper \<in> set (slice_at SupportedActions svc))"

definition importActions :: "string list \<Rightarrow> string list \<times> unsupported list" where
  "importActions acts =
     (filter (\<lambda>a. a = ''*'' \<or> supported_action a) acts,
      map NoDataPlane (filter (\<lambda>a. a \<noteq> ''*'' \<and> \<not> supported_action a) acts))"

definition import_resource :: "string \<Rightarrow> string option" where
  "import_resource r = (if r = ''*'' then Some ''*'' else arnToResource r)"

definition unmapped :: "string \<Rightarrow> unsupported" where
  "unmapped r = (case narrowerThanAuthorized r of Some why \<Rightarrow> NarrowerARN r why | None \<Rightarrow> UnknownARN r)"

definition importResources :: "string list \<Rightarrow> string list \<times> unsupported list" where
  "importResources arns =
     (dedupe (List.map_filter import_resource arns), map unmapped (filter (\<lambda>r. import_resource r = None) arns))"

fun awsList :: "json \<Rightarrow> string list" where
  "awsList (JStr s) = [s]"
| "awsList (JArr vs) = List.map_filter (\<lambda>v. case v of JStr s \<Rightarrow> Some s | _ \<Rightarrow> None) vs"
| "awsList _ = []"

definition condition_of :: "cedar_api \<Rightarrow> nat \<Rightarrow> json strmap \<Rightarrow> (unsupported, conds) result" where
  "condition_of C i st =
     (case lookup st ''Condition'' of
        None \<Rightarrow> Inr no_conds
      | Some (JObj cm) \<Rightarrow> (case importCondition C cm of Inl why \<Rightarrow> Inl (ConditionRefused i why) | Inr cs \<Rightarrow> Inr cs)
      | Some _ \<Rightarrow> Inl (ConditionNotObject i))"

definition action_axis :: "json strmap \<Rightarrow> string list \<times> string list \<times> unsupported list" where
  "action_axis st =
     (case lookup st ''NotAction'' of
        Some v \<Rightarrow> if awsList v = [] then ([''*''], [], []) else ([], awsList v, [])
      | None \<Rightarrow> let (kept, un) = importActions (awsList (field st ''Action'')) in (kept, [], un))"

text \<open>The resource axis; on the left the statement is refused.\<close>

definition resource_axis :: "nat \<Rightarrow> json strmap \<Rightarrow> (unsupported list, string list \<times> string list \<times> unsupported list) result" where
  "resource_axis i st =
     (case lookup st ''NotResource'' of
        Some v \<Rightarrow>
          let (kept, un) = importResources (awsList v)
          in if un \<noteq> [] then Inl [NotResourceUnmapped i un]
             else if kept = [] then Inr ([''*''], [], []) else Inr ([], kept, [])
      | None \<Rightarrow>
          let (kept, un) = importResources (awsList (field st ''Resource''))
          in if kept = [] then Inl (un @ [NoMappableResource i]) else Inr (kept, [], un))"

definition import_statement :: "cedar_api \<Rightarrow> nat \<Rightarrow> json strmap \<Rightarrow> (import_error, Statement list \<times> unsupported list) result" where
  "import_statement C i st =
     (let effect = str_or_empty (field st ''Effect'')
      in if effect \<noteq> Allow \<and> effect \<noteq> Deny then Inl (EffectMissing i)
         else case condition_of C i st of
             Inl u \<Rightarrow> Inr ([], [u])
           | Inr cs \<Rightarrow>
               if lookup st ''Action'' \<noteq> None \<and> lookup st ''NotAction'' \<noteq> None then Inl (ActionTwice i)
               else if lookup st ''Resource'' \<noteq> None \<and> lookup st ''NotResource'' \<noteq> None then Inl (ResourceTwice i)
               else
                 let (acts, nacts, aUn) = action_axis st
                 in if acts = [] \<and> nacts = [] then Inr ([], aUn)
                    else case resource_axis i st of
                        Inl un \<Rightarrow> Inr ([], aUn @ un)
                      | Inr (res, nres, rUn) \<Rightarrow>
                          Inr ([\<lparr>Effect = effect, Actions = acts, NotActions = nacts, Resources = res, NotResources = nres,
                                 Condition = eqs cs, IPConditions = ips cs, LikeConditions = likes cs,
                                 TimeConditions = times cs, KeyConditions = keyeds cs\<rparr>], aUn @ rUn))"

fun import_statements ::
  "cedar_api \<Rightarrow> nat \<Rightarrow> json strmap list \<Rightarrow> (import_error, Statement list \<times> unsupported list) result" where
  "import_statements C i [] = Inr ([], [])"
| "import_statements C i (st # sts) =
     rbind (import_statement C i st) (\<lambda>(ss, us).
     rbind (import_statements C (Suc i) sts) (\<lambda>(ss', us'). Inr (ss @ ss', us @ us')))"

text \<open>
  \<^verbatim>\<open>json.Unmarshal\<close> into a struct with one field: its name is matched in any case, the last member of
  that name counts.
\<close>

fun member :: "string \<Rightarrow> json strmap \<Rightarrow> json option" where
  "member name [] = None"
| "member name ((k, v) # m) =
     (case member name m of None \<Rightarrow> if to_lower k = to_lower name then Some v else None | r \<Rightarrow> r)"

fun statement_map :: "json \<Rightarrow> json strmap option" where
  "statement_map (JObj m) = Some m"
| "statement_map JNull = Some []"
| "statement_map _ = None"

fun statement_maps :: "json \<Rightarrow> json strmap list option" where
  "statement_maps JNull = Some []"
| "statement_maps (JObj m) = Some [m]"
| "statement_maps (JArr vs) =
     (if \<forall>v \<in> set vs. statement_map v \<noteq> None then Some (List.map_filter statement_map vs) else None)"
| "statement_maps _ = None"

definition ImportAWS :: "cedar_api \<Rightarrow> json option \<Rightarrow> (import_error, Statement list \<times> unsupported list) result" where
  "ImportAWS C doc =
     (case doc of
        Some (JObj d) \<Rightarrow>
          (case Option.bind (member ''Statement'' d) statement_maps of
             None \<Rightarrow> Inl BadStatement
           | Some raw \<Rightarrow> import_statements C 0 raw)
      | Some JNull \<Rightarrow> Inl BadStatement
      | _ \<Rightarrow> Inl NotAPolicyDocument)"

subsection \<open>What a condition block says\<close>

text \<open>
  AWS's operators on an attribute of the request: \<open>IfExists\<close> and negated numeric comparison hold when
  the attribute is absent, every other operator needs it.
\<close>

definition aws_holds :: "cedar_api \<Rightarrow> cvalue strmap \<Rightarrow> string \<Rightarrow> string \<Rightarrow> string \<Rightarrow> bool" where
  "aws_holds C c oper attr val =
     (let base = trim_suffix oper ''IfExists''; yes = (to_lower (trim_space val) = ''true'')
      in if oper = ''Null'' then yes = (lookup c attr = None)
         else case lookup c attr of
             None \<Rightarrow> has_suffix oper ''IfExists'' \<or> base = ''NumericNotEquals''
           | Some x \<Rightarrow>
               if base = ''Bool'' then x = CBool yes
               else if base = ''StringEquals'' then x = CStr val
               else if base = ''StringLike'' then is_text (wmatch False val) x
               else if base = ''StringNotLike'' then is_text (\<lambda>s. \<not> wmatch False val s) x
               else if base = ''IpAddress'' then is_text (\<lambda>s. in_range C s val) x
               else if base = ''NotIpAddress'' then is_text (\<lambda>s. \<not> in_range C s val) x
               else if dateOp base \<noteq> [] then is_text (\<lambda>s. time_compare C (dateOp base) s val) x
               else case (lookup numericOps base, parse_int64 (trim_space val)) of
                   (Some cmp, Some n) \<Rightarrow> compares cmp x (CLong n) = Some True
                 | _ \<Rightarrow> False)"

definition entry_holds :: "cedar_api \<Rightarrow> cvalue strmap \<Rightarrow> string \<times> string \<times> json \<Rightarrow> bool" where
  "entry_holds C c = (\<lambda>(oper, key, v).
     case (resolveConditionKey key, singleValue v) of
       (Some ck, Some val) \<Rightarrow> aws_holds C c oper (Attr ck) val
     | _ \<Rightarrow> False)"

definition condition_entries :: "json strmap \<Rightarrow> (string \<times> string \<times> json) list" where
  "condition_entries cond = concat (map (\<lambda>(oper, b). case b of JObj m \<Rightarrow> map (Pair oper) m | _ \<Rightarrow> []) cond)"

definition conds_hold :: "cedar_api \<Rightarrow> cvalue strmap \<Rightarrow> conds \<Rightarrow> bool" where
  "conds_hold C c cs \<longleftrightarrow> (\<forall>e \<in> set (eqs cs). equals_holds c e) \<and> (\<forall>ip \<in> set (ips cs). ip_holds C c ip) \<and>
     (\<forall>lk \<in> set (likes cs). like_holds c lk) \<and> (\<forall>tc \<in> set (times cs). time_holds C c tc) \<and>
     (\<forall>kc \<in> set (keyeds cs). key_holds c kc)"

text \<open>
  The attributes an equality is imported for, and the two forms the importer gets wrong: two
  equalities on one attribute, and a text that reads as a boolean.
\<close>

definition equality_attr :: "string \<times> string \<times> json \<Rightarrow> string option" where
  "equality_attr = (\<lambda>(oper, key, v).
     if oper = ''Bool'' \<or> oper = ''StringEquals''
     then Option.bind (resolveConditionKey key) (\<lambda>ck. if Optional ck then None else Some (Attr ck)) else None)"

definition proper_entry :: "string \<times> string \<times> json \<Rightarrow> bool" where
  "proper_entry = (\<lambda>(oper, key, v). oper = ''StringEquals'' \<longrightarrow> singleValue v \<notin> {Some ''true'', Some ''false''})"

lemma importCondition_flat:
  assumes "importCondition C cond = Inr cs"
  shows "rfold (\<lambda>cs (oper, kv). import_one C oper cs kv) no_conds (condition_entries cond) = Inr cs"
proof -
  have *: "rfold f b (xs @ ys) = rbind (rfold f b xs) (\<lambda>b'. rfold f b' ys)" for f b and xs ys :: "(string \<times> string \<times> json) list"
    by (induction xs arbitrary: b) (auto simp: rbind_def split: sum.splits)
  have **: "rfold (\<lambda>cs (oper, kv). import_one C oper cs kv) b (map (Pair oper) m) = rfold (import_one C oper) b m" for b oper m
    by (induction m arbitrary: b) auto
  have "rfold (import_operator C) b cond = Inr cs \<Longrightarrow>
      rfold (\<lambda>cs (oper, kv). import_one C oper cs kv) b (condition_entries cond) = Inr cs" for b
  proof (induction cond arbitrary: b)
    case (Cons e cond)
    then show ?case
      by (cases e; cases "snd e") (auto simp: condition_entries_def import_operator_def * **)
  qed (simp add: condition_entries_def)
  then show ?thesis using assms by (simp add: importCondition_def)
qed

lemma set_put_fresh: "lookup m k = None \<Longrightarrow> set (put k v m) = insert (k, v) (set m)"
  by (induction k v m rule: put.induct) (auto split: if_splits)

lemma bool_texts: "equals_holds c (k, if b then ''true'' else ''false'') \<longleftrightarrow> lookup c k = Some (CBool b)"
  by (simp add: equals_holds_def)


lemma parse_int64_itoa:
  assumes "- (2 ^ 63) \<le> n" "n < 2 ^ 63"
  shows "parse_int64 (itoa n) = Some n"
proof (cases "n < 0")
  case True
  then show ?thesis
    using assms nat_digits_digits [of _ "nat (- n)"]
    by (auto simp: parse_int64_def itoa_def digits_value_nat_digits list_all_iff)
next
  case False
  obtain d ds where ds: "nat_digits (nat n) = d # ds" by (cases "nat_digits (nat n)") auto
  then have "is_digit d" using nat_digits_digits [of d "nat n"] by simp
  then have "d \<noteq> CHR ''-''" "d \<noteq> CHR ''+''" by (auto simp: is_digit_def)
  then show ?thesis
    using False assms nat_digits_digits [of _ "nat n"] digits_value_nat_digits [of "nat n"]
    by (auto simp: parse_int64_def itoa_def ds list_all_iff)
qed

lemma parse_int64_range: "parse_int64 s = Some n \<Longrightarrow> - (2 ^ 63) \<le> n \<and> n < 2 ^ 63"
  by (auto simp: parse_int64_def Let_def split: prod.splits if_splits)

lemma itoa_not_bool: "itoa n \<noteq> ''true''" "itoa n \<noteq> ''false''"
proof -
  have "\<not> is_digit (CHR ''t'')" "\<not> is_digit (CHR ''f'')" by (simp_all add: is_digit_def)
  then show "itoa n \<noteq> ''true''" "itoa n \<noteq> ''false''"
    using itoa_chars [of "CHR ''t''" n] itoa_chars [of "CHR ''f''" n] by auto
qed

lemma numericOps_cases:
  assumes "lookup numericOps b = Some cmp"
  shows "cmp \<in> {''=='', ''!='', ''<'', ''<='', ''>'', ''>=''}" "cmp = ''!='' \<longleftrightarrow> b = ''NumericNotEquals''"
    "b \<notin> {''Bool'', ''StringEquals'', ''StringLike'', ''StringNotLike'', ''IpAddress'', ''NotIpAddress''}" "dateOp b = []"
  using assms by (auto simp: numericOps_def dateOp_def split: if_splits)

lemma optional_holds:
  assumes "optionalKeyCondition oper key ck val = Inr kc"
  shows "key_holds c kc \<longleftrightarrow> aws_holds C c oper (Attr ck) val"
proof (cases "oper = ''Null''")
  case True
  then show ?thesis
    using assms by (auto simp: optionalKeyCondition_def Let_def aws_holds_def key_holds_def split: if_splits option.splits)
next
  case False
  let ?base = "trim_suffix oper ''IfExists''" and ?v = "to_lower (trim_space val)"
  consider (bool) "Type ck = condBool" | (num) "Type ck = condNumber"
    using assms False by (auto simp: optionalKeyCondition_def Let_def split: condType.splits)
  then show ?thesis
  proof cases
    case bool
    then have kc: "?base = ''Bool''" "?v = ''true'' \<or> ?v = ''false''"
        "kc = \<lparr>kcKey = Attr ck, kcOp = ''=='', kcValue = ?v, kcIfExists = has_suffix oper ''IfExists''\<rparr>"
      using assms False by (auto simp: optionalKeyCondition_def Let_def split: if_splits)
    then show ?thesis using False
      by (auto simp: aws_holds_def Let_def key_holds_def key_literal_def kc_kind_def KeyNull_def compares_def split: option.splits)
  next
    case num
    then obtain cmp n where kc: "lookup numericOps ?base = Some cmp" "parse_int64 (trim_space val) = Some n"
        "kc = \<lparr>kcKey = Attr ck, kcOp = cmp, kcValue = itoa n, kcIfExists = has_suffix oper ''IfExists''\<rparr>"
      using assms False by (auto simp: optionalKeyCondition_def Let_def split: if_splits option.splits)
    have lit: "cmp \<noteq> KeyNull" "key_literal kc = CLong n"
      using numericOps_cases(1) [OF kc(1)] parse_int64_itoa parse_int64_range [OF kc(2)] itoa_not_bool [of n]
      by (auto simp: kc(3) key_literal_def kc_kind_def KeyNull_def)
    show ?thesis
      using False lit numericOps_cases [OF kc(1)] kc(1,2)
      by (auto simp: aws_holds_def Let_def key_holds_def kc(3) split: option.splits)
  qed
qed

lemma plain_operators:
  "trim_suffix ''Bool'' ''IfExists'' = ''Bool''" "\<not> has_suffix ''Bool'' ''IfExists''"
  "trim_suffix ''StringEquals'' ''IfExists'' = ''StringEquals''" "\<not> has_suffix ''StringEquals'' ''IfExists''"
  "trim_suffix ''StringLike'' ''IfExists'' = ''StringLike''" "\<not> has_suffix ''StringLike'' ''IfExists''"
  "trim_suffix ''StringNotLike'' ''IfExists'' = ''StringNotLike''" "\<not> has_suffix ''StringNotLike'' ''IfExists''"
  "trim_suffix ''IpAddress'' ''IfExists'' = ''IpAddress''" "\<not> has_suffix ''IpAddress'' ''IfExists''"
  "trim_suffix ''NotIpAddress'' ''IfExists'' = ''NotIpAddress''" "\<not> has_suffix ''NotIpAddress'' ''IfExists''"
  "trim_suffix ''DateGreaterThan'' ''IfExists'' = ''DateGreaterThan''" "\<not> has_suffix ''DateGreaterThan'' ''IfExists''"
  "trim_suffix ''DateGreaterThanEquals'' ''IfExists'' = ''DateGreaterThanEquals''"
  "\<not> has_suffix ''DateGreaterThanEquals'' ''IfExists''"
  "trim_suffix ''DateLessThan'' ''IfExists'' = ''DateLessThan''" "\<not> has_suffix ''DateLessThan'' ''IfExists''"
  "trim_suffix ''DateLessThanEquals'' ''IfExists'' = ''DateLessThanEquals''" "\<not> has_suffix ''DateLessThanEquals'' ''IfExists''"
  by code_simp+

lemma truth_texts: "to_lower (trim_space ''true'') = ''true''" "to_lower (trim_space ''false'') = ''false''"
  by code_simp+

lemma dateOp_cases: "dateOp oper \<noteq> [] \<Longrightarrow>
    oper \<in> {''DateGreaterThan'', ''DateGreaterThanEquals'', ''DateLessThan'', ''DateLessThanEquals''}"
  by (auto simp: dateOp_def split: if_splits)


lemma conds_hold_add:
  "conds_hold C c (cs\<lparr>likes := likes cs @ [lk]\<rparr>) \<longleftrightarrow> conds_hold C c cs \<and> like_holds c lk"
  "conds_hold C c (cs\<lparr>ips := ips cs @ [ip]\<rparr>) \<longleftrightarrow> conds_hold C c cs \<and> ip_holds C c ip"
  "conds_hold C c (cs\<lparr>times := times cs @ [tc]\<rparr>) \<longleftrightarrow> conds_hold C c cs \<and> time_holds C c tc"
  "conds_hold C c (cs\<lparr>keyeds := keyeds cs @ [kc]\<rparr>) \<longleftrightarrow> conds_hold C c cs \<and> key_holds c kc"
  "lookup (eqs cs) k = None \<Longrightarrow>
     conds_hold C c (cs\<lparr>eqs := put k v (eqs cs)\<rparr>) \<longleftrightarrow> conds_hold C c cs \<and> equals_holds c (k, v)"
  by (auto simp: conds_hold_def set_put_fresh)

lemma aws_holds_simps:
  "aws_holds C c ''Bool'' k v \<longleftrightarrow> lookup c k = Some (CBool (to_lower (trim_space v) = ''true''))"
  "aws_holds C c ''StringEquals'' k v \<longleftrightarrow> lookup c k = Some (CStr v)"
  "aws_holds C c ''StringLike'' k v \<longleftrightarrow> like_holds c \<lparr>lcKey = k, lcPattern = v, lcNegate = False\<rparr>"
  "aws_holds C c ''StringNotLike'' k v \<longleftrightarrow> like_holds c \<lparr>lcKey = k, lcPattern = v, lcNegate = True\<rparr>"
  "aws_holds C c ''IpAddress'' k v \<longleftrightarrow> ip_holds C c \<lparr>ipKey = k, ipCIDR = v, ipNegate = False\<rparr>"
  "aws_holds C c ''NotIpAddress'' k v \<longleftrightarrow> ip_holds C c \<lparr>ipKey = k, ipCIDR = v, ipNegate = True\<rparr>"
  "aws_holds C c ''DateGreaterThan'' k v \<longleftrightarrow> time_holds C c \<lparr>tcKey = k, tcOp = ''>'', tcTarget = v\<rparr>"
  "aws_holds C c ''DateGreaterThanEquals'' k v \<longleftrightarrow> time_holds C c \<lparr>tcKey = k, tcOp = ''>='', tcTarget = v\<rparr>"
  "aws_holds C c ''DateLessThan'' k v \<longleftrightarrow> time_holds C c \<lparr>tcKey = k, tcOp = ''<'', tcTarget = v\<rparr>"
  "aws_holds C c ''DateLessThanEquals'' k v \<longleftrightarrow> time_holds C c \<lparr>tcKey = k, tcOp = ''<='', tcTarget = v\<rparr>"
  by (cases "lookup c k"; cases "the (lookup c k)";
      simp add: aws_holds_def plain_operators is_text_def dateOp_def like_holds_def ip_holds_def time_holds_def)+

lemma plain_equality:
  assumes "plainCondition C oper key ck val cs = Inr cs'" "oper = ''Bool'' \<or> oper = ''StringEquals''"
    and "oper = ''StringEquals'' \<longrightarrow> val \<noteq> ''true'' \<and> val \<noteq> ''false''"
  shows "cs' = cs\<lparr>eqs := put (Attr ck) val (eqs cs)\<rparr>" "equals_holds c (Attr ck, val) \<longleftrightarrow> aws_holds C c oper (Attr ck) val"
proof -
  show "cs' = cs\<lparr>eqs := put (Attr ck) val (eqs cs)\<rparr>" using assms by (auto simp: plainCondition_def split: if_splits)
  have "oper = ''Bool'' \<Longrightarrow> val = ''true'' \<or> val = ''false''" using assms(1) by (auto simp: plainCondition_def split: if_splits)
  then show "equals_holds c (Attr ck, val) \<longleftrightarrow> aws_holds C c oper (Attr ck) val"
    using assms(2,3) by (elim disjE; cases "val = ''true''"; cases "val = ''false''")
      (simp_all add: equals_holds_def aws_holds_simps truth_texts)
qed

lemma plain_other:
  assumes "plainCondition C oper key ck val cs = Inr cs'" "oper \<noteq> ''Bool''" "oper \<noteq> ''StringEquals''"
  shows "conds_hold C c cs' \<longleftrightarrow> conds_hold C c cs \<and> aws_holds C c oper (Attr ck) val" "eqs cs' = eqs cs"
proof -
  consider (like) "oper = ''StringLike'' \<or> oper = ''StringNotLike''"
    | (date) "dateOp oper \<noteq> []" "oper \<noteq> ''StringLike''" "oper \<noteq> ''StringNotLike''"
    | (ip) "oper = ''IpAddress'' \<or> oper = ''NotIpAddress''"
    using assms by (auto simp: plainCondition_def split: if_splits)
  then have "(conds_hold C c cs' \<longleftrightarrow> conds_hold C c cs \<and> aws_holds C c oper (Attr ck) val) \<and> eqs cs' = eqs cs"
  proof cases
    case like
    then have "cs' = cs\<lparr>likes := likes cs @ [\<lparr>lcKey = Attr ck, lcPattern = val, lcNegate = (oper = ''StringNotLike'')\<rparr>]\<rparr>"
      using assms(1) by (auto simp: plainCondition_def split: if_splits)
    then show ?thesis using like by (elim disjE) (simp_all add: conds_hold_add aws_holds_simps)
  next
    case date
    then have "cs' = cs\<lparr>times := times cs @ [\<lparr>tcKey = Attr ck, tcOp = dateOp oper, tcTarget = val\<rparr>]\<rparr>"
      using assms by (auto simp: plainCondition_def split: if_splits)
    moreover have "time_holds C c \<lparr>tcKey = Attr ck, tcOp = dateOp oper, tcTarget = val\<rparr> \<longleftrightarrow> aws_holds C c oper (Attr ck) val"
      using dateOp_cases [OF date(1)] unfolding insert_iff empty_iff by (elim disjE) (simp_all add: aws_holds_simps dateOp_def)
    ultimately show ?thesis by (simp add: conds_hold_add)
  next
    case ip
    then have "cs' = cs\<lparr>ips := ips cs @ [\<lparr>ipKey = Attr ck, ipCIDR = val, ipNegate = (oper = ''NotIpAddress'')\<rparr>]\<rparr>"
      using assms(1) by (auto simp: plainCondition_def dateOp_def split: if_splits)
    then show ?thesis using ip by (elim disjE) (simp_all add: conds_hold_add aws_holds_simps)
  qed
  then show "conds_hold C c cs' \<longleftrightarrow> conds_hold C c cs \<and> aws_holds C c oper (Attr ck) val" "eqs cs' = eqs cs" by simp_all
qed

lemma import_one_holds:
  assumes "import_one C oper cs kv = Inr cs'" "proper_entry (oper, kv)"
    and "\<And>a. equality_attr (oper, kv) = Some a \<Longrightarrow> lookup (eqs cs) a = None"
  shows "conds_hold C c cs' \<longleftrightarrow> conds_hold C c cs \<and> entry_holds C c (oper, kv)"
    and "fst ` set (eqs cs') = fst ` set (eqs cs) \<union> set_option (equality_attr (oper, kv))"
proof -
  obtain key v where kv: "kv = (key, v)" by fastforce
  obtain ck val where r: "resolveConditionKey key = Some ck" "singleValue v = Some val"
    using assms(1) by (auto simp: import_one_def kv split: option.splits)
  have "(conds_hold C c cs' \<longleftrightarrow> conds_hold C c cs \<and> aws_holds C c oper (Attr ck) val) \<and>
      fst ` set (eqs cs') = fst ` set (eqs cs) \<union> set_option (equality_attr (oper, kv))"
  proof (cases "Optional ck")
    case True
    then obtain kc where "optionalKeyCondition oper key ck val = Inr kc" "cs' = cs\<lparr>keyeds := keyeds cs @ [kc]\<rparr>"
      using assms(1) r by (auto simp: import_one_def kv)
    then show ?thesis using optional_holds True r by (auto simp: conds_hold_add equality_attr_def kv)
  next
    case False
    then have p: "plainCondition C oper key ck val cs = Inr cs'" using assms(1) r by (auto simp: import_one_def kv)
    show ?thesis
    proof (cases "oper = ''Bool'' \<or> oper = ''StringEquals''")
      case eq: True
      then have "equality_attr (oper, kv) = Some (Attr ck)" using False r by (simp add: equality_attr_def kv)
      moreover have "oper = ''StringEquals'' \<longrightarrow> val \<noteq> ''true'' \<and> val \<noteq> ''false''"
        using assms(2) r by (auto simp: proper_entry_def kv)
      ultimately show ?thesis
        using plain_equality [OF p eq] assms(3) by (auto simp: conds_hold_add keys_put)
    next
      case other: False
      then show ?thesis using plain_other [OF p] by (auto simp: equality_attr_def kv)
    qed
  qed
  then show "conds_hold C c cs' \<longleftrightarrow> conds_hold C c cs \<and> entry_holds C c (oper, kv)"
    "fst ` set (eqs cs') = fst ` set (eqs cs) \<union> set_option (equality_attr (oper, kv))"
    using r by (auto simp: entry_holds_def kv)
qed

lemma import_entries_hold:
  assumes "rfold (\<lambda>cs (oper, kv). import_one C oper cs kv) cs es = Inr cs'" "\<forall>e \<in> set es. proper_entry e"
    and "distinct (List.map_filter equality_attr es)" "\<forall>a \<in> set (List.map_filter equality_attr es). lookup (eqs cs) a = None"
  shows "conds_hold C c cs' \<longleftrightarrow> conds_hold C c cs \<and> (\<forall>e \<in> set es. entry_holds C c e)"
  using assms
proof (induction es arbitrary: cs)
  case (Cons e es)
  obtain oper kv where e: "e = (oper, kv)" by (cases e)
  obtain cs1 where cs1: "import_one C oper cs kv = Inr cs1" "rfold (\<lambda>cs (oper, kv). import_one C oper cs kv) cs1 es = Inr cs'"
    using Cons.prems(1) by (auto simp: e)
  have "lookup (eqs cs) a = None" if "equality_attr (oper, kv) = Some a" for a
    using Cons.prems(4) that by (simp add: e List.map_filter_simps)
  note one = import_one_holds [OF cs1(1) _ this]
  have "\<forall>a \<in> set (List.map_filter equality_attr es). lookup (eqs cs1) a = None"
    using Cons.prems(2-4) one(2) by (auto simp: e List.map_filter_simps lookup_None_iff split: option.splits)
  then show ?case
    using Cons.IH [OF cs1(2)] Cons.prems(2,3) one(1) [of c]
    by (auto simp: e List.map_filter_simps split: option.splits)
qed simp


subsection \<open>What a document says\<close>

definition authored_action :: "json strmap \<Rightarrow> string \<Rightarrow> bool" where
  "authored_action st a =
     (case lookup st ''NotAction'' of
        Some v \<Rightarrow> \<not> (\<exists>p \<in> set (awsList v). wmatch False p a)
      | None \<Rightarrow> \<exists>p \<in> set (awsList (field st ''Action'')). wmatch False p a)"

text \<open>An ARN names the resources its typed form names; one without a typed form names none.\<close>

definition arn_names :: "string \<Rightarrow> string \<Rightarrow> bool" where
  "arn_names arn r = (case import_resource arn of None \<Rightarrow> False | Some t \<Rightarrow> entry_names True t r)"

definition authored_resource :: "json strmap \<Rightarrow> string \<Rightarrow> bool" where
  "authored_resource st r =
     (case lookup st ''NotResource'' of
        Some v \<Rightarrow> \<not> (\<exists>p \<in> set (awsList v). arn_names p r)
      | None \<Rightarrow> \<exists>p \<in> set (awsList (field st ''Resource'')). arn_names p r)"

definition authored_conditions :: "json strmap \<Rightarrow> (string \<times> string \<times> json) list" where
  "authored_conditions st = (case lookup st ''Condition'' of Some (JObj cond) \<Rightarrow> condition_entries cond | _ \<Rightarrow> [])"

definition document_applies :: "cedar_api \<Rightarrow> cvalue strmap \<Rightarrow> string \<Rightarrow> string \<Rightarrow> json strmap \<Rightarrow> bool" where
  "document_applies C c action resource st \<longleftrightarrow> authored_action st action \<and> authored_resource st resource \<and>
     (\<forall>e \<in> set (authored_conditions st). entry_holds C c e)"

lemma importActions_scope:
  assumes "importActions acts = (kept, un)" "kept \<noteq> []"
  shows "in_scope False kept [] a \<longrightarrow> (\<exists>p \<in> set acts. wmatch False p a)"
    and "un = [] \<longrightarrow> (\<exists>p \<in> set acts. wmatch False p a) \<longrightarrow> in_scope False kept [] a"
  using assms by (auto simp: importActions_def in_scope_def entry_names_def filter_empty_conv)

lemma action_axis_scope:
  assumes "action_axis st = (acts, nacts, un)" "\<not> (acts = [] \<and> nacts = [])"
  shows "in_scope False acts nacts a \<longrightarrow> authored_action st a" "un = [] \<longrightarrow> authored_action st a \<longrightarrow> in_scope False acts nacts a"
proof -
  have "(in_scope False acts nacts a \<longrightarrow> authored_action st a) \<and> (un = [] \<longrightarrow> authored_action st a \<longrightarrow> in_scope False acts nacts a)"
  proof (cases "lookup st ''NotAction''")
    case None
    obtain kept un' where k: "importActions (awsList (field st ''Action'')) = (kept, un')" by fastforce
    then have "acts = kept" "nacts = []" "un = un'" "kept \<noteq> []" using assms None by (auto simp: action_axis_def)
    then show ?thesis using importActions_scope [OF k, of a] None by (simp add: authored_action_def)
  next
    case (Some v)
    have "wmatch False ''*'' a" by (simp add: wmatch_star_iff)
    then show ?thesis
      using assms(1) Some by (cases "awsList v = []") (auto simp: action_axis_def authored_action_def in_scope_def entry_names_def)
  qed
  then show "in_scope False acts nacts a \<longrightarrow> authored_action st a"
      "un = [] \<longrightarrow> authored_action st a \<longrightarrow> in_scope False acts nacts a" by simp_all
qed

lemma set_importResources:
  assumes "importResources arns = (kept, un)"
  shows "(\<exists>t \<in> set kept. entry_names True t r) \<longleftrightarrow> (\<exists>p \<in> set arns. arn_names p r)"
  using assms by (auto simp: importResources_def arn_names_def List.map_filter_def split: option.splits) (metis option.sel)+

lemma resource_axis_scope:
  assumes "resource_axis i st = Inr (res, nres, un)"
  shows "in_scope True res nres r \<longleftrightarrow> authored_resource st r"
proof -
  have star: "entry_names True ''*'' r" by (simp add: wmatch_star_iff entry_names_def)
  show ?thesis
  proof (cases "lookup st ''NotResource''")
    case None
    obtain kept un' where k: "importResources (awsList (field st ''Resource'')) = (kept, un')" by fastforce
    then have "res = kept" "nres = []" "kept \<noteq> []" using assms None by (auto simp: resource_axis_def split: if_splits)
    then show ?thesis using set_importResources [OF k, of r] None by (simp add: in_scope_def authored_resource_def)
  next
    case (Some v)
    obtain kept un' where k: "importResources (awsList v) = (kept, un')" by fastforce
    have "kept = [] \<Longrightarrow> res = [''*''] \<and> nres = []" "kept \<noteq> [] \<Longrightarrow> res = [] \<and> nres = kept"
      using assms Some by (auto simp: resource_axis_def k split: if_splits)
    then show ?thesis
      using set_importResources [OF k, of r] Some star by (cases "kept = []") (auto simp: in_scope_def authored_resource_def)
  qed
qed

lemma condition_of_holds:
  assumes "condition_of C i st = Inr cs" "\<forall>e \<in> set (authored_conditions st). proper_entry e"
    and "distinct (List.map_filter equality_attr (authored_conditions st))"
  shows "conds_hold C c cs \<longleftrightarrow> (\<forall>e \<in> set (authored_conditions st). entry_holds C c e)"
proof (cases "lookup st ''Condition''")
  case None
  then show ?thesis using assms(1) by (auto simp: condition_of_def authored_conditions_def conds_hold_def no_conds_def)
next
  case (Some v)
  then obtain cond where v: "v = JObj cond" "importCondition C cond = Inr cs"
    using assms(1) by (auto simp: condition_of_def split: json.splits sum.splits)
  then show ?thesis
    using import_entries_hold [OF importCondition_flat [OF v(2)], of c] assms(2,3) Some
    by (simp add: authored_conditions_def conds_hold_def no_conds_def)
qed



definition sample_document :: "json strmap" where
  "sample_document =
     [(''Effect'', JStr ''Allow''), (''Action'', JArr [JStr ''s3:GetObject'', JStr ''s3:List*'']),
      (''Resource'', JStr ''arn:aws:s3:::assets/*''),
      (''Condition'', JObj [(''StringEquals'', JObj [(''aws:UserName'', JStr ''alice'')]),
         (''Bool'', JObj [(''aws:MultiFactorAuthPresent'', JStr ''true'')])])]"

definition sample_statement :: Statement where
  "sample_statement = \<lparr>Effect = Allow, Actions = [''s3:GetObject'', ''s3:List*''], NotActions = [],
     Resources = [''Bucket::assets/*''], NotResources = [], Condition = [(''username'', ''alice'')],
     IPConditions = [], LikeConditions = [], TimeConditions = [],
     KeyConditions = [\<lparr>kcKey = ''multiFactorAuthPresent'', kcOp = ''=='', kcValue = ''true'', kcIfExists = False\<rparr>]\<rparr>"

definition alice :: "cvalue strmap" where
  "alice = [(''username'', CStr ''alice''), (''multiFactorAuthPresent'', CBool True)]"


text \<open>
  Two spellings of a key are one attribute, and the later of two equalities on it replaces the earlier:
  a statement no request should meet is imported, without a report, as one that applies.\<close>

definition two_names :: "json strmap" where
  "two_names = [(''StringEquals'', JObj [(''aws:username'', JStr ''alice''), (''username'', JStr ''bob'')])]"

theorem second_spelling_replaces_condition:
  "importCondition C two_names = Inr (no_conds\<lparr>eqs := [(''username'', ''bob'')]\<rparr>) \<and>
   conds_hold C [(''username'', CStr ''bob'')] (no_conds\<lparr>eqs := [(''username'', ''bob'')]\<rparr>) \<and>
   \<not> (\<forall>e \<in> set (condition_entries two_names). entry_holds C [(''username'', CStr ''bob'')] e)"
  by (intro conjI) code_simp+

text \<open>
  An equality with the text \<^verbatim>\<open>true\<close> is compiled as one with the boolean, so a Deny for a user of that
  name does not apply to the user.\<close>

definition deny_true :: Statement where
  "deny_true = empty_statement\<lparr>Effect := Deny, Actions := [''*''], Resources := [''*''], Condition := [(''username'', ''true'')]\<rparr>"

theorem user_named_true_escapes:
  "importCondition C [(''StringEquals'', JObj [(''aws:username'', JStr ''true'')])] =
     Inr (no_conds\<lparr>eqs := [(''username'', ''true'')]\<rparr>) \<and>
   \<not> st_applies C [(''username'', CStr ''true'')] ''s3:GetObject'' ''Bucket::a'' deny_true"
  by (intro conjI) code_simp+

end
