(* ===== verification/IamWorld.thy ===== *)
theory IamWorld
  imports AwsImport
begin

text \<open>
  The IAM policy world, \<^verbatim>\<open>console-api/internal/iamauthz\<close>: names of principals and policies
  (\<^verbatim>\<open>principal.go\<close>), which policies apply to a principal (\<^verbatim>\<open>world.go\<close>) and temporary access
  (\<^verbatim>\<open>grant.go\<close>).

  A time is a number of nanoseconds. A listed object is what the loaders read of it; the parsing of
  RFC 3339 times is a parameter.
\<close>

subsection \<open>Names\<close>

text \<open>\<^verbatim>\<open>strings.IndexByte(id, '/') > 0\<close> and the parts around the slash.\<close>

definition cut_slash :: "string \<Rightarrow> (string \<times> string) option" where
  "cut_slash s =
     (case cut s ''/'' of Some (u, v) \<Rightarrow> if u = [] then None else Some (u, v) | None \<Rightarrow> None)"

definition DefaultHomeNamespace :: string where "DefaultHomeNamespace = ''open-infra-console''"

definition QualifiedName :: "string \<Rightarrow> string \<Rightarrow> string \<Rightarrow> string" where
  "QualifiedName home ns name = (if ns = [] \<or> ns = home then name else ns @ ''/'' @ name)"

definition SplitQualified :: "string \<Rightarrow> string \<Rightarrow> string \<times> string" where
  "SplitQualified home i = (case cut_slash i of Some (ns, name) \<Rightarrow> (ns, name) | None \<Rightarrow> (home, i))"

definition StarInNamespacePrefix :: string where "StarInNamespacePrefix = ''*@''"

definition canon_entry :: "string \<Rightarrow> string \<Rightarrow> string \<Rightarrow> string option" where
  "canon_entry home policyNS e =
     (let here = (policyNS = [] \<or> policyNS = home)
      in if e = ''*'' then Some (if here then ''*'' else StarInNamespacePrefix @ policyNS)
         else case cut e ''::'' of
             None \<Rightarrow> if here then Some e else None
           | Some (typ, name) \<Rightarrow>
               if name = [] \<or> typ = ''Group'' then if here then Some e else None
               else case cut_slash name of
                   None \<Rightarrow> Some (typ @ ''::'' @ QualifiedName home policyNS name)
                 | Some (ns, plain) \<Rightarrow>
                     if \<not> here \<and> ns \<noteq> policyNS then None else Some (typ @ ''::'' @ QualifiedName home ns plain))"

definition CanonAppliesTo :: "string \<Rightarrow> string \<Rightarrow> string list \<Rightarrow> string list" where
  "CanonAppliesTo home policyNS entries = List.map_filter (canon_entry home policyNS) entries"

definition ResolvePolicyRef :: "string \<Rightarrow> string \<Rightarrow> string \<Rightarrow> (string \<Rightarrow> bool) \<Rightarrow> string" where
  "ResolvePolicyRef home principalNS ref exists =
     (case cut_slash ref of
        Some (ns, name) \<Rightarrow>
          if principalNS \<noteq> home \<and> ns \<noteq> principalNS \<and> ns \<noteq> home then [] else QualifiedName home ns name
      | None \<Rightarrow>
          if principalNS \<noteq> home \<and> exists (QualifiedName home principalNS ref)
          then QualifiedName home principalNS ref else ref)"

subsection \<open>The world\<close>

record Policy =
  pName :: string
  pARN :: string
  pStatements :: "Statement list"
  pAppliesTo :: "string list"
  pReport :: "string list"

record TemporaryAttachment =
  taGrant :: string
  taPolicies :: "string list"
  taFrom :: int
  taUntil :: int

record World =
  Docs :: "Policy list"
  Attach :: "string list strmap"
  Boundary :: "string strmap"
  Inline :: "Policy list strmap"
  Enforce :: "bool strmap"
  Temporary :: "TemporaryAttachment list strmap"

definition no_policy :: Policy where
  "no_policy = \<lparr>pName = [], pARN = [], pStatements = [], pAppliesTo = [], pReport = []\<rparr>"

definition PolicyKey :: "string \<Rightarrow> string \<Rightarrow> string" where
  "PolicyKey ptype i = ptype @ ''::'' @ i"

definition ByName :: "World \<Rightarrow> Policy strmap" where
  "ByName w = foldl (\<lambda>m d. if pName d \<noteq> [] then put (pName d) d m else m) [] (Docs w)"

definition plain_group :: "string \<Rightarrow> string" where
  "plain_group g = trim_prefix g ''openinfra:''"

definition principal_keys :: "string \<Rightarrow> string \<Rightarrow> string list \<Rightarrow> string list" where
  "principal_keys ptype pid groups = PolicyKey ptype pid # map (\<lambda>g. PolicyKey ''Group'' (plain_group g)) groups"

definition entry_applies :: "string \<Rightarrow> string \<Rightarrow> string list \<Rightarrow> string \<Rightarrow> bool" where
  "entry_applies ptype pid groups e \<longleftrightarrow>
     e = ''*'' \<or> e = ptype @ ''::'' @ pid \<or>
     (case cut_prefix e StarInNamespacePrefix of
        Some ns \<Rightarrow> has_prefix pid (ns @ ''/'')
      | None \<Rightarrow>
          (case cut e ''::'' of
             None \<Rightarrow> False
           | Some (t, name) \<Rightarrow> t = ''Group'' \<and> list_ex (\<lambda>g. plain_group g = plain_group name) groups))"

definition AppliesTo :: "string list \<Rightarrow> string \<Rightarrow> string \<Rightarrow> string list \<Rightarrow> bool" where
  "AppliesTo entries ptype pid groups = list_ex (entry_applies ptype pid groups) entries"

definition AttachedPolicyNames :: "string list strmap \<Rightarrow> string \<Rightarrow> string \<Rightarrow> string list \<Rightarrow> string list" where
  "AttachedPolicyNames attach ptype pid groups = concat (map (slice_at attach) (principal_keys ptype pid groups))"

definition ActiveAt :: "TemporaryAttachment \<Rightarrow> int \<Rightarrow> bool" where
  "ActiveAt a t \<longleftrightarrow> \<not> t < taFrom a \<and> t < taUntil a"

definition ActiveTemporary :: "World \<Rightarrow> string \<Rightarrow> string \<Rightarrow> string list \<Rightarrow> int \<Rightarrow> TemporaryAttachment list" where
  "ActiveTemporary w ptype pid groups now =
     filter (\<lambda>a. ActiveAt a now) (concat (map (slice_at (Temporary w)) (principal_keys ptype pid groups)))"

text \<open>A named policy is added once.\<close>

definition add_policy :: "Policy list \<Rightarrow> Policy \<Rightarrow> Policy list" where
  "add_policy out p = (if pName p \<noteq> [] \<and> pName p \<in> set (map pName out) then out else out @ [p])"

definition add_named :: "World \<Rightarrow> Policy list \<Rightarrow> string \<Rightarrow> Policy list" where
  "add_named w out name = (case lookup (ByName w) name of Some d \<Rightarrow> add_policy out d | None \<Rightarrow> out)"

definition inlineName :: "Policy \<Rightarrow> nat \<Rightarrow> string" where
  "inlineName p i = (if pName p \<noteq> [] then pName p else CHR ''#'' # replicate (Suc i) (CHR ''i''))"

definition inline_policies :: "World \<Rightarrow> string \<Rightarrow> Policy list" where
  "inline_policies w k =
     map (\<lambda>(i, p). p\<lparr>pName := ''inline:'' @ k @ '':'' @ inlineName p i\<rparr>)
       (List.enumerate 0 (slice_at (Inline w) k))"

definition PoliciesAt :: "World \<Rightarrow> string \<Rightarrow> string \<Rightarrow> string list \<Rightarrow> int \<Rightarrow> Policy list" where
  "PoliciesAt w ptype pid groups now =
     (let direct = foldl add_policy [] (filter (\<lambda>d. AppliesTo (pAppliesTo d) ptype pid groups) (Docs w));
          managed = foldl (add_named w) direct (AttachedPolicyNames (Attach w) ptype pid groups);
          temporary = foldl (add_named w) managed (concat (map taPolicies (ActiveTemporary w ptype pid groups now)))
      in foldl add_policy temporary (concat (map (inline_policies w) (principal_keys ptype pid groups))))"

definition BoundaryFor :: "World \<Rightarrow> string \<Rightarrow> string \<Rightarrow> Statement list option" where
  "BoundaryFor w ptype pid =
     (case lookup (Boundary w) (PolicyKey ptype pid) of
        None \<Rightarrow> None
      | Some name \<Rightarrow>
          if name = [] then None
          else Some (case lookup (ByName w) name of Some d \<Rightarrow> pStatements d | None \<Rightarrow> []))"

subsection \<open>Temporary access\<close>

record GrantSpec =
  SubjectKind :: string
  SubjectName :: string
  Policies :: "string list"
  Duration :: string
  RequestedBy :: string
  ApprovedBy :: string
  ApprovedAt :: string

definition second :: int where "second = 1000000000"

definition MaxGrantDuration :: int where "MaxGrantDuration = 24 * 3600 * second"

text \<open>
  \<^verbatim>\<open>^([0-9]+h)?([0-9]+m)?([0-9]+s)?$\<close> and \<^verbatim>\<open>time.ParseDuration\<close> on what it matches: the exact value. Where
  \<^verbatim>\<open>ParseDuration\<close> overflows, the value is far above the limit and refused as well.
\<close>

fun read_units :: "(char \<times> int) list \<Rightarrow> string \<Rightarrow> int option" where
  "read_units [] s = (if s = [] then Some 0 else None)"
| "read_units ((u, k) # us) s =
     (let ds = takeWhile is_digit s; r = dropWhile is_digit s
      in if ds \<noteq> [] \<and> r \<noteq> [] \<and> hd r = u
         then map_option (\<lambda>v. int (digits_value ds) * k + v) (read_units us (tl r))
         else read_units us s)"

definition grantDuration :: "string \<Rightarrow> int option" where
  "grantDuration = read_units [(CHR ''h'', 3600 * second), (CHR ''m'', 60 * second), (CHR ''s'', second)]"

definition ParseGrantDuration :: "string \<Rightarrow> int option" where
  "ParseGrantDuration s =
     (if s = [] then None
      else case grantDuration s of
          None \<Rightarrow> None
        | Some d \<Rightarrow> if d \<le> 0 \<or> d > MaxGrantDuration then None else Some d)"

datatype no_window =
    NoSubject
  | SubjectElsewhere
  | NoGrantPolicy
  | AwaitingApproval
  | SelfApproved
  | BadDuration
  | BadApprovalTime

definition GrantWindow :: "(string \<Rightarrow> int option) \<Rightarrow> GrantSpec \<Rightarrow> (no_window, int \<times> int) result" where
  "GrantWindow rfc3339 g =
     (if SubjectKind g \<noteq> ''User'' \<and> SubjectKind g \<noteq> ''Group'' \<or> SubjectName g = [] then Inl NoSubject
      else if CHR ''/'' \<in> set (SubjectName g) then Inl SubjectElsewhere
      else if Policies g = [] then Inl NoGrantPolicy
      else if ApprovedBy g = [] then Inl AwaitingApproval
      else if ApprovedBy g = RequestedBy g then Inl SelfApproved
      else case ParseGrantDuration (Duration g) of
          None \<Rightarrow> Inl BadDuration
        | Some d \<Rightarrow>
            (case rfc3339 (ApprovedAt g) of
               None \<Rightarrow> Inl BadApprovalTime
             | Some t \<Rightarrow> Inr (t, t + d)))"

record GrantObject =
  gNamespace :: string
  gName :: string
  gSpec :: GrantSpec

definition grant_ns :: "string \<Rightarrow> GrantObject \<Rightarrow> string" where
  "grant_ns home obj = (if gNamespace obj = [] then home else gNamespace obj)"

definition load_grant ::
  "(string \<Rightarrow> int option) \<Rightarrow> string \<Rightarrow> (string \<Rightarrow> bool) \<Rightarrow> int \<Rightarrow> World \<Rightarrow> GrantObject \<Rightarrow> World" where
  "load_grant rfc3339 home defined now w obj =
     (let g = gSpec obj; ns = grant_ns home obj;
          refs = filter (\<lambda>n. n \<noteq> []) (map (\<lambda>ref. ResolvePolicyRef home ns ref defined) (Policies g));
          key = PolicyKey (SubjectKind g) (QualifiedName home ns (SubjectName g))
      in case GrantWindow rfc3339 g of
          Inl _ \<Rightarrow> w
        | Inr (from_t, until_t) \<Rightarrow>
            if \<not> now < until_t \<or> refs = [] then w
            else w\<lparr>Temporary := put key
                (slice_at (Temporary w) key @
                 [\<lparr>taGrant = QualifiedName home ns (gName obj), taPolicies = refs, taFrom = from_t, taUntil = until_t\<rparr>])
                (Temporary w)\<rparr>)"

definition loadGrants ::
  "(string \<Rightarrow> int option) \<Rightarrow> string \<Rightarrow> (string \<Rightarrow> bool) \<Rightarrow> int \<Rightarrow> GrantObject list \<Rightarrow> World \<Rightarrow> World" where
  "loadGrants rfc3339 home defined now objs w = foldl (load_grant rfc3339 home defined now) w objs"

subsection \<open>Confinement to a namespace\<close>

lemma index_of_same_prefix:
  "index_of (u @ sep @ v) sep = Some (length u) \<Longrightarrow> index_of (u @ sep @ w) sep = Some (length u)"
proof (induction u)
  case Nil
  have "has_prefix (sep @ w) sep" by (simp add: has_prefix_def)
  then show ?case by (cases "sep @ w") simp_all
next
  case (Cons c u)
  have "has_prefix (c # u @ sep @ w) sep = has_prefix (c # u @ sep @ v) sep"
    by (simp add: has_prefix_def take_Cons')
  then show ?case using Cons by (auto split: if_splits)
qed

lemma cut_Some: "cut e sep = Some (t, n) \<Longrightarrow> e = t @ sep @ n \<and> index_of (t @ sep @ n) sep = Some (length t)"
proof -
  assume "cut e sep = Some (t, n)"
  then obtain i where i: "index_of e sep = Some i" "t = take i e" "n = drop (i + length sep) e" by (auto simp: cut_def)
  then obtain u v where u: "e = u @ sep @ v" "length u = i" using index_of_Some by blast
  then have "t = u" "n = v" using i by simp_all
  then show ?thesis using i u by simp
qed

lemma cut_same_prefix: "cut e sep = Some (t, n) \<Longrightarrow> cut (t @ sep @ w) sep = Some (t, w)"
  using cut_Some [of e sep t n] index_of_same_prefix [of t sep n w] by (simp add: cut_def)

lemma cut_slash_Some: "cut_slash s = Some (u, v) \<Longrightarrow> s = u @ ''/'' @ v \<and> u \<noteq> []"
  using cut_Some [of s "''/''" u v] by (auto simp: cut_slash_def split: option.splits if_splits)

lemma index_of_plain: "c \<notin> set u \<Longrightarrow> index_of (u @ c # v) [c] = Some (length u)"
  by (induction u) (auto simp: has_prefix_def)

lemma cut_slash_plain: "CHR ''/'' \<notin> set u \<Longrightarrow> u \<noteq> [] \<Longrightarrow> cut_slash (u @ ''/'' @ v) = Some (u, v)"
  using index_of_plain [of "CHR ''/''" u v] by (simp add: cut_slash_def cut_def)

lemma cut_slash_None: "CHR ''/'' \<notin> set s \<Longrightarrow> cut_slash s = None"
  using cut_slash_Some [of s] by (cases "cut_slash s") auto

lemma colons_split:
  assumes "t @ ''::'' @ q = p @ ''::'' @ i" "CHR '':'' \<notin> set p" "CHR '':'' \<notin> set i"
  shows "t = p" "q = i"
proof -
  let ?n = "\<lambda>s. length (filter (\<lambda>c. c = CHR '':'') s)"
  have none: "?n s = 0 \<longleftrightarrow> CHR '':'' \<notin> set s" for s by (auto simp: filter_empty_conv)
  have "?n t + ?n q = ?n p + ?n i" using arg_cong [OF assms(1), of ?n] by simp
  then have t: "CHR '':'' \<notin> set t" using assms(2,3) none by (metis add_is_0)
  have "takeWhile (\<lambda>c. c \<noteq> CHR '':'') (t @ ''::'' @ q) = t" "takeWhile (\<lambda>c. c \<noteq> CHR '':'') (p @ ''::'' @ i) = p"
    using t assms(2) by (auto simp: takeWhile_append2 takeWhile_append)
  then show "t = p" using assms(1) by simp
  then show "q = i" using assms(1) by simp
qed

lemma canon_entry_confined:
  assumes e: "canon_entry home ns e = Some e'" and ns: "ns \<noteq> []" "ns \<noteq> home" "CHR '':'' \<notin> set ns"
    and ap: "entry_applies ptype pid groups e'" and c: "CHR '':'' \<notin> set ptype" "CHR '':'' \<notin> set pid"
  shows "has_prefix pid (ns @ ''/'')"
proof (cases "e = ''*''")
  case True
  then have e': "e' = ''*@'' @ ns" using e ns by (simp add: canon_entry_def StarInNamespacePrefix_def)
  then have "CHR '':'' \<notin> set e'" using ns by simp
  then have "e' \<noteq> ptype @ ''::'' @ pid" by auto
  moreover have "cut_prefix e' StarInNamespacePrefix = Some ns" "e' \<noteq> ''*''"
    by (simp_all add: e' cut_prefix_def has_prefix_def StarInNamespacePrefix_def)
  ultimately show ?thesis using ap by (simp add: entry_applies_def)
next
  case False
  then obtain t name where tn: "cut e ''::'' = Some (t, name)" "name \<noteq> []" "t \<noteq> ''Group''"
    using e ns by (auto simp: canon_entry_def Let_def split: option.splits if_splits)
  obtain w where w: "e' = t @ ''::'' @ ns @ ''/'' @ w"
    using e ns False tn by (auto simp: canon_entry_def Let_def QualifiedName_def split: option.splits if_splits)
  have "e' \<noteq> ''*''" using w by (cases t) auto
  moreover have "cut e' ''::'' = Some (t, ns @ ''/'' @ w)" using cut_same_prefix [OF tn(1)] w by simp
  moreover have "\<not> has_prefix pid (n @ ''/'')" if "cut_prefix e' StarInNamespacePrefix = Some n" for n
  proof -
    have "e' = ''*@'' @ n" using that by (auto simp: cut_prefix_def has_prefix_iff StarInNamespacePrefix_def split: if_splits)
    then have "CHR '':'' \<in> set (''*@'' @ n)" using w by (metis Un_iff list.set_intros(1) set_append)
    then show ?thesis using c(2) by (auto simp: has_prefix_iff)
  qed
  ultimately have "e' = ptype @ ''::'' @ pid"
    using ap tn(3) by (auto simp: entry_applies_def split: option.splits)
  then have "pid = ns @ ''/'' @ w" using colons_split(2) [of t "ns @ ''/'' @ w" ptype pid] w c by simp
  then show ?thesis by (simp add: has_prefix_iff)
qed

text \<open>
  A Policy outside the home namespace governs only principals of its own namespace, whatever its
  \<^verbatim>\<open>appliesTo\<close> list says and whichever groups a principal is in.\<close>

theorem namespaced_policy_is_confined:
  assumes "ns \<noteq> []" and "ns \<noteq> home" and "CHR '':'' \<notin> set ns" and "CHR '':'' \<notin> set ptype" and "CHR '':'' \<notin> set pid"
    and "AppliesTo (CanonAppliesTo home ns entries) ptype pid groups"
  shows "has_prefix pid (ns @ ''/'')"
proof -
  obtain e e' where "canon_entry home ns e = Some e'" "entry_applies ptype pid groups e'"
    using assms(6) by (auto simp: AppliesTo_def CanonAppliesTo_def List.map_filter_def list_ex_iff)
  then show ?thesis using canon_entry_confined assms(1-5) by blast
qed

theorem namespaced_policy_is_confined_witness:
  "AppliesTo (CanonAppliesTo ''home'' ''team'' [''*'', ''Group::admins'']) ''User'' ''team/bob'' [''admins''] \<and>
   has_prefix ''team/bob'' ''team/''"
proof -
  have a: "AppliesTo (CanonAppliesTo ''home'' ''team'' [''*'', ''Group::admins'']) ''User'' ''team/bob'' [''admins'']" by code_simp
  then show ?thesis using namespaced_policy_is_confined [OF _ _ _ _ _ a] by simp
qed

text \<open>
  The canonical id of an object is read back to its namespace and name, so objects of different
  namespaces never share an id.\<close>

theorem qualified_name_roundtrip:
  assumes "ns \<noteq> []" and "CHR ''/'' \<notin> set ns" and "CHR ''/'' \<notin> set name"
  shows "SplitQualified home (QualifiedName home ns name) = (ns, name)"
  using assms by (cases "ns = home")
    (simp_all add: QualifiedName_def SplitQualified_def cut_slash_None cut_slash_plain del: append_Cons)

theorem qualified_name_roundtrip_witness:
  "SplitQualified ''home'' (QualifiedName ''home'' ''team'' ''bob'') = (''team'', ''bob'')"
  by (rule qualified_name_roundtrip) simp_all

text \<open>
  A principal outside the home namespace may only refer to policies of its own and of the home
  namespace. The check looks at the text before the first slash, so a reference through the home
  namespace reaches every other one.\<close>

theorem policy_reference_escapes:
  "ResolvePolicyRef ''home'' ''team-a'' ''team-b/admin'' exists = [] \<and>
   ResolvePolicyRef ''home'' ''team-a'' ''home/team-b/admin'' exists = QualifiedName ''home'' ''team-b'' ''admin''"
  by (intro conjI) code_simp+

subsection \<open>Temporary access is bounded\<close>

text \<open>Where an attachment comes from.\<close>

definition attached_by :: "(string \<Rightarrow> int option) \<Rightarrow> string \<Rightarrow> GrantObject list \<Rightarrow> string \<Rightarrow> TemporaryAttachment \<Rightarrow> bool" where
  "attached_by rfc3339 home objs key a \<longleftrightarrow>
     (\<exists>obj \<in> set objs. GrantWindow rfc3339 (gSpec obj) = Inr (taFrom a, taUntil a) \<and>
        key = PolicyKey (SubjectKind (gSpec obj)) (QualifiedName home (grant_ns home obj) (SubjectName (gSpec obj))))"

lemma load_grant_Temporary:
  "a \<in> set (slice_at (Temporary (load_grant rfc3339 home defined now w obj)) key) \<Longrightarrow>
     a \<in> set (slice_at (Temporary w) key) \<or> attached_by rfc3339 home [obj] key a"
  by (cases "GrantWindow rfc3339 (gSpec obj)") (auto simp: load_grant_def Let_def attached_by_def split: if_splits)

lemma loadGrants_attached:
  assumes "Temporary w = []" "a \<in> set (slice_at (Temporary (loadGrants rfc3339 home defined now objs w)) key)"
  shows "attached_by rfc3339 home objs key a"
proof -
  have "\<forall>key. \<forall>a \<in> set (slice_at (Temporary (foldl (load_grant rfc3339 home defined now) w os)) key). attached_by rfc3339 home objs key a"
    if "set os \<subseteq> set objs" "\<forall>key. \<forall>a \<in> set (slice_at (Temporary w) key). attached_by rfc3339 home objs key a" for os w
    using that
  proof (induction os arbitrary: w)
    case (Cons x os)
    have "attached_by rfc3339 home objs key a"
      if "a \<in> set (slice_at (Temporary (load_grant rfc3339 home defined now w x)) key)" for key a
      using load_grant_Temporary [OF that] Cons.prems by (auto simp: attached_by_def)
    then show ?case using Cons.IH [of "load_grant rfc3339 home defined now w x"] Cons.prems(1) by simp
  qed simp
  from this [of objs w] show ?thesis using assms by (simp add: loadGrants_def slice_at_def)
qed

lemma ParseGrantDuration_bounds: "ParseGrantDuration s = Some d \<Longrightarrow> 0 < d \<and> d \<le> MaxGrantDuration"
  by (auto simp: ParseGrantDuration_def split: if_splits option.splits)

lemma GrantWindow_approved:
  assumes "GrantWindow rfc3339 g = Inr (from_t, until_t)"
  shows "ApprovedBy g \<noteq> []" "ApprovedBy g \<noteq> RequestedBy g" "rfc3339 (ApprovedAt g) = Some from_t"
    "until_t \<le> from_t + MaxGrantDuration" "CHR ''/'' \<notin> set (SubjectName g)"
  using assms ParseGrantDuration_bounds by (auto simp: GrantWindow_def split: if_splits option.splits)


definition empty_world :: World where
  "empty_world = \<lparr>Docs = [], Attach = [], Boundary = [], Inline = [], Enforce = [], Temporary = []\<rparr>"

definition sample_grant :: GrantObject where
  "sample_grant = \<lparr>gNamespace = ''home'', gName = ''g'', gSpec =
     \<lparr>SubjectKind = ''User'', SubjectName = ''bob'', Policies = [''admin''], Duration = ''1h30m'',
      RequestedBy = ''bob'', ApprovedBy = ''carol'', ApprovedAt = ''noon''\<rparr>\<rparr>"

definition sample_clock :: "string \<Rightarrow> int option" where
  "sample_clock s = (if s = ''noon'' then Some 0 else None)"

definition sample_attachment :: TemporaryAttachment where
  "sample_attachment = \<lparr>taGrant = ''g'', taPolicies = [''admin''], taFrom = 0, taUntil = 5400 * second\<rparr>"


subsection \<open>The policies of a principal\<close>

lemma add_policy_set: "set out \<subseteq> set (add_policy out p)" "set (add_policy out p) \<subseteq> insert p (set out)"
    "pName p \<in> pName ` set (add_policy out p)"
  by (auto simp: add_policy_def)

lemma add_all_mono: "set out \<subseteq> set (foldl add_policy out ps)"
  by (induction ps arbitrary: out) (simp, use add_policy_set(1) in fastforce)

lemma add_all_set:
  shows "set (foldl add_policy out ps) \<subseteq> set out \<union> set ps"
    "pName ` set ps \<subseteq> pName ` set (foldl add_policy out ps)"
proof -
  show "set (foldl add_policy out ps) \<subseteq> set out \<union> set ps"
    by (induction ps arbitrary: out) (use add_policy_set(2) in fastforce)+
  show "pName ` set ps \<subseteq> pName ` set (foldl add_policy out ps)"
  proof (induction ps arbitrary: out)
    case (Cons p ps)
    obtain q where "q \<in> set (add_policy out p)" "pName q = pName p" using add_policy_set(3) [of p out] by (metis imageE)
    then have "pName p \<in> pName ` set (foldl add_policy (add_policy out p) ps)"
      using add_all_mono [of "add_policy out p" ps] by (metis imageI subsetD)
    then show ?case using Cons [of "add_policy out p"] by simp
  qed simp
qed

lemma add_all_unique:
  assumes "\<forall>q \<in> set ps. pName q = pName d \<longrightarrow> q = d"
  shows "d \<in> set (foldl add_policy [] ps) \<longleftrightarrow> d \<in> set ps"
proof
  assume "d \<in> set ps"
  then have "pName d \<in> pName ` set (foldl add_policy [] ps)" using add_all_set(2) [of ps "[]"] by (meson imageI subsetD)
  then obtain q where "q \<in> set (foldl add_policy [] ps)" "pName q = pName d" by (metis imageE)
  then show "d \<in> set (foldl add_policy [] ps)" using assms add_all_set(1) [of "[]" ps] by auto
qed (use add_all_set(1) [of "[]" ps] in auto)

lemma ByName_lookup:
  assumes "distinct (map pName (Docs w))" "\<forall>d \<in> set (Docs w). pName d \<noteq> []"
  shows "lookup (ByName w) n = Some d \<longleftrightarrow> d \<in> set (Docs w) \<and> pName d = n"
proof -
  have "lookup (foldl (\<lambda>m d. if pName d \<noteq> [] then put (pName d) d m else m) m ds) n = Some d \<longleftrightarrow>
      (d \<in> set ds \<and> pName d = n) \<or> (n \<notin> pName ` set ds \<and> lookup m n = Some d)"
    if "distinct (map pName ds)" "\<forall>d \<in> set ds. pName d \<noteq> []" for ds m
    using that
  proof (induction ds arbitrary: m)
    case (Cons x ds)
    then show ?case by (auto simp: image_iff)
  qed simp
  from this [OF assms, of "[]"] show ?thesis by (simp add: ByName_def)
qed

definition found :: "World \<Rightarrow> string list \<Rightarrow> Policy list" where
  "found w names = List.map_filter (lookup (ByName w)) names"

lemma set_found:
  assumes "distinct (map pName (Docs w))" "\<forall>d \<in> set (Docs w). pName d \<noteq> []"
  shows "d \<in> set (found w names) \<longleftrightarrow> d \<in> set (Docs w) \<and> pName d \<in> set names"
proof -
  have "d \<in> set (found w names) \<longleftrightarrow> (\<exists>n \<in> set names. lookup (ByName w) n = Some d)"
    by (induction names) (auto simp: found_def List.map_filter_simps split: option.splits)
  then show ?thesis using ByName_lookup [OF assms] by auto
qed

lemma add_named_all: "foldl (add_named w) out names = foldl add_policy out (found w names)"
  by (induction names arbitrary: out) (auto simp: found_def add_named_def List.map_filter_simps split: option.splits)

lemma PoliciesAt_sources:
  "PoliciesAt w ptype pid groups now = foldl add_policy []
     (filter (\<lambda>d. AppliesTo (pAppliesTo d) ptype pid groups) (Docs w) @
      found w (AttachedPolicyNames (Attach w) ptype pid groups) @
      found w (concat (map taPolicies (ActiveTemporary w ptype pid groups now))) @
      concat (map (inline_policies w) (principal_keys ptype pid groups)))"
  by (simp add: PoliciesAt_def Let_def add_named_all)

lemma add_all_once:
  "distinct (filter (\<lambda>n. n \<noteq> []) (map pName out)) \<Longrightarrow> distinct (filter (\<lambda>n. n \<noteq> []) (map pName (foldl add_policy out ps)))"
  by (induction ps arbitrary: out) (auto simp: add_policy_def)

text \<open>
  A principal holds exactly the policies its policy world gives it, each once: a Policy of the world
  counts when its \<^verbatim>\<open>appliesTo\<close> names the principal, when it is attached to the principal or one of
  its groups, or when a Grant that is open now attaches it.\<close>

theorem principal_holds_its_policies:
  assumes "distinct (map pName (Docs w))" and "\<forall>d \<in> set (Docs w). pName d \<noteq> [] \<and> \<not> has_prefix (pName d) ''inline:''"
  shows "distinct (filter (\<lambda>n. n \<noteq> []) (map pName (PoliciesAt w ptype pid groups now))) \<and>
    (\<forall>d \<in> set (Docs w). d \<in> set (PoliciesAt w ptype pid groups now) \<longleftrightarrow>
       AppliesTo (pAppliesTo d) ptype pid groups \<or>
       pName d \<in> set (AttachedPolicyNames (Attach w) ptype pid groups) \<or>
       (\<exists>a \<in> set (ActiveTemporary w ptype pid groups now). pName d \<in> set (taPolicies a)))"
proof -
  let ?inl = "concat (map (inline_policies w) (principal_keys ptype pid groups))"
  let ?ps = "filter (\<lambda>d. AppliesTo (pAppliesTo d) ptype pid groups) (Docs w) @
      found w (AttachedPolicyNames (Attach w) ptype pid groups) @
      found w (concat (map taPolicies (ActiveTemporary w ptype pid groups now))) @ ?inl"
  have "\<forall>d \<in> set (Docs w). pName d \<noteq> []" using assms(2) by blast
  note found = set_found [OF assms(1) this]
  have inl: "has_prefix (pName p) ''inline:''" if "p \<in> set ?inl" for p
    using that by (auto simp: inline_policies_def has_prefix_def)
  have own: "q = d" if "q \<in> set ?ps" "pName q = pName d" "d \<in> set (Docs w)" for q d
  proof -
    have "q \<notin> set ?inl" using inl [of q] assms(2) that(2,3) by metis
    then have "q \<in> set (Docs w)" using that(1) found unfolding set_append by auto
    then show ?thesis using that(2,3) assms(1) by (metis distinct_map inj_onD)
  qed
  have "d \<in> set (foldl add_policy [] ?ps) \<longleftrightarrow> d \<in> set ?ps" if d: "d \<in> set (Docs w)" for d
    by (rule add_all_unique) (use own d in blast)
  moreover have "d \<notin> set ?inl" if "d \<in> set (Docs w)" for d using inl assms(2) that by blast
  ultimately show ?thesis
    using add_all_once [of "[]" ?ps] found unfolding PoliciesAt_sources set_append set_filter by (auto simp del: foldl_append)
qed


definition sample_world :: World where
  "sample_world = empty_world\<lparr>Docs := [no_policy\<lparr>pName := ''a'', pAppliesTo := [''User::bob'']\<rparr>, no_policy\<lparr>pName := ''b''\<rparr>],
     Attach := [(''Group::eng'', [''b'', ''a''])]\<rparr>"

theorem principal_holds_its_policies_witness:
  "no_policy\<lparr>pName := ''b''\<rparr> \<in> set (PoliciesAt sample_world ''User'' ''bob'' [''openinfra:eng''] 0)"
proof -
  have d: "distinct (map pName (Docs sample_world))" by code_simp
  have n: "\<forall>d \<in> set (Docs sample_world). pName d \<noteq> [] \<and> \<not> has_prefix (pName d) ''inline:''" by code_simp
  have "no_policy\<lparr>pName := ''b''\<rparr> \<in> set (Docs sample_world)"
    "pName (no_policy\<lparr>pName := ''b''\<rparr>) \<in> set (AttachedPolicyNames (Attach sample_world) ''User'' ''bob'' [''openinfra:eng''])"
    by code_simp+
  then show ?thesis using principal_holds_its_policies [OF d n, of "''User''" "''bob''" "[''openinfra:eng'']" 0] by blast
qed

end
