(* ===== verification/IamAuthz.thy ===== *)
theory IamAuthz
  imports IamWorld
begin

text \<open>
  The authorization evaluator, \<^verbatim>\<open>console-api/internal/iamauthz\<close>: principals (\<^verbatim>\<open>principal.go\<close>), the
  principals of resource policies and the mapping of ARNs (\<^verbatim>\<open>compile.go\<close>), and the evaluation of a
  request over all its policies (\<^verbatim>\<open>iamauthz.go\<close>).

  The cached policy world is an argument, None when it could not be loaded; so are the time, the service
  control policy hook and Cedar. The texts of reasons are one constructor each. The compiled engines the
  evaluator keeps are modelled apart, as a cache in front of \<open>NewEngine\<close>.
\<close>

subsection \<open>Principals\<close>

datatype PrincipalType =
    User
  | Role
  | Root
  | Service

fun type_text :: "PrincipalType \<Rightarrow> string" where
  "type_text User = ''User''"
| "type_text Role = ''Role''"
| "type_text Root = ''Root''"
| "type_text Service = ''Service''"

record Session =
  sesName :: string
  sesPolicies :: "Statement list"

record Principal =
  prAccount :: string
  prType :: PrincipalType
  prID :: string
  prGroups :: "string list"
  prSession :: "Session option"

definition ManagementAccount :: string where "ManagementAccount = ''000000000000''"

definition AccountID :: "Principal \<Rightarrow> string" where
  "AccountID p = (if prAccount p = [] then ManagementAccount else prAccount p)"

definition Key :: "Principal \<Rightarrow> string" where
  "Key p = PolicyKey (type_text (prType p)) (prID p)"

definition ARN :: "Principal \<Rightarrow> string" where
  "ARN p =
     (let acct = AccountID p; name = after_last_slash (prID p)
      in case prType p of
          Root \<Rightarrow> ''arn:aws:iam::'' @ acct @ '':root''
        | Role \<Rightarrow>
            (case prSession p of
               Some s \<Rightarrow>
                 if sesName s \<noteq> [] then ''arn:aws:sts::'' @ acct @ '':assumed-role/'' @ name @ ''/'' @ sesName s
                 else ''arn:aws:iam::'' @ acct @ '':role/'' @ name
             | None \<Rightarrow> ''arn:aws:iam::'' @ acct @ '':role/'' @ name)
        | Service \<Rightarrow> prID p
        | User \<Rightarrow> ''arn:aws:iam::'' @ acct @ '':user/'' @ name)"

definition adminGroup :: string where "adminGroup = ''admins''"

definition IsAdminGroupMember :: "Principal \<Rightarrow> bool" where
  "IsAdminGroupMember p \<longleftrightarrow> prType p = Root \<or> prType p = User \<and> adminGroup \<in> set (prGroups p)"

record Claims =
  Sub :: string
  clRole :: string
  clGroups :: "string list"
  AssumedRole :: string
  clAccount :: string

definition UsersGroup :: string where "UsersGroup = ''users''"

definition RoleMemberGroups :: "string \<Rightarrow> string list" where
  "RoleMemberGroups role =
     (if to_lower role = ''root'' \<or> to_lower role = ''admin'' then [''openinfra:admins'']
      else if to_lower role = ''poweruser'' then [''openinfra:powerusers'']
      else [''openinfra:readers''])"

definition plainGroups :: "string list \<Rightarrow> string list" where
  "plainGroups groups =
     foldl (\<lambda>out g. let h = plain_group g in if h = [] \<or> h = UsersGroup \<or> h \<in> set out then out else out @ [h]) [] groups"

definition sessionOf :: "Claims \<Rightarrow> Session option" where
  "sessionOf c =
     (let name = after_last_slash (Sub c)
      in if name = [] \<or> name = AssumedRole c then None else Some \<lparr>sesName = name, sesPolicies = []\<rparr>)"

definition PrincipalFromClaims :: "Claims \<Rightarrow> string \<Rightarrow> Principal" where
  "PrincipalFromClaims c account =
     (let acct = (if account = [] then clAccount c else account)
      in if AssumedRole c \<noteq> [] then
           \<lparr>prAccount = acct, prType = Role, prID = AssumedRole c, prGroups = [], prSession = sessionOf c\<rparr>
         else if to_lower (clRole c) = ''root'' \<and> clGroups c = [] then
           \<lparr>prAccount = acct, prType = Root, prID = Sub c, prGroups = [], prSession = None\<rparr>
         else
           \<lparr>prAccount = acct, prType = User, prID = Sub c,
            prGroups = plainGroups (if clGroups c = [] then RoleMemberGroups (clRole c) else clGroups c), prSession = None\<rparr>)"

subsection \<open>Resources and resource policies\<close>

definition rawARNPrefix :: string where "rawARNPrefix = ''ARN::''"

definition arnAccount :: "string \<Rightarrow> string" where
  "arnAccount arn = (let parts = split_n 6 (CHR '':'') arn in if length parts < 6 then [] else parts ! 4)"

definition one_statement :: "string \<Rightarrow> json" where
  "one_statement arn = JObj [(''Statement'', JArr [JObj [(''Effect'', JStr ''Allow''), (''Action'', JStr ''*''), (''Resource'', JStr arn)]])]"

definition typedARN :: "cedar_api \<Rightarrow> string \<Rightarrow> string option" where
  "typedARN C arn =
     (case ImportAWS C (Some (one_statement arn)) of
        Inr ([s], []) \<Rightarrow> (case Resources s of [t] \<Rightarrow> if t \<noteq> ''*'' then Some t else None | _ \<Rightarrow> None)
      | _ \<Rightarrow> None)"

definition mapResource :: "cedar_api \<Rightarrow> string \<Rightarrow> string \<times> string" where
  "mapResource C arn =
     (if arn = ''*'' \<or> arn = [] then (''*'', [])
      else if \<not> has_prefix arn ''arn:'' then (arn, [])
      else case typedARN C arn of
          Some t \<Rightarrow> (t, if arnAccount arn = ''*'' then [] else arnAccount arn)
        | None \<Rightarrow> (rawARNPrefix @ arn, []))"

definition splitTyped :: "string \<Rightarrow> string \<times> string" where
  "splitTyped t =
     (if t = ''*'' \<or> t = [] then (''Any'', ''*'')
      else case cut t ''::'' of Some (ty, i) \<Rightarrow> (ty, i) | None \<Rightarrow> (''Any'', t))"

text \<open>The recursive matcher; the loop tries the suffixes from the longest.\<close>

fun globMatch :: "string \<Rightarrow> string \<Rightarrow> bool" where
  "globMatch [] s = (s = [])"
| "globMatch (a # p) s =
     (if a = CHR ''*'' then list_ex (\<lambda>i. globMatch p (drop i s)) [0..<Suc (length s)]
      else if a = CHR ''?'' then s \<noteq> [] \<and> globMatch p (drop 1 s)
      else s \<noteq> [] \<and> a = hd s \<and> globMatch p (drop 1 s))"

record ResourceStatement =
  rsStatement :: Statement
  rsPrincipals :: "string list"
  rsNotPrincipals :: "string list"

datatype how =
    NotNamed
  | Public
  | Account
  | Specific

fun principal_loop :: "Principal \<Rightarrow> string list \<Rightarrow> how \<Rightarrow> how" where
  "principal_loop p [] best = best"
| "principal_loop p (e # es) best =
     (let self = ARN p; roleARN = (if prType p = Role then ARN (p\<lparr>prSession := None\<rparr>) else [])
      in if e = ''*'' then principal_loop p es (if best = NotNamed then Public else best)
         else if e = ''arn:aws:iam::'' @ AccountID p @ '':root'' then
           principal_loop p es (if best \<noteq> Specific then Account else best)
         else if prType p = Service \<and> e = prID p then Specific
         else if e = self \<or> roleARN \<noteq> [] \<and> e = roleARN then Specific
         else if CHR ''*'' \<in> set e \<and> (globMatch e self \<or> roleARN \<noteq> [] \<and> globMatch e roleARN) then Specific
         else principal_loop p es best)"

definition principalMatch :: "string list \<Rightarrow> Principal \<Rightarrow> how" where
  "principalMatch entries p = principal_loop p entries NotNamed"

definition appliesToPrincipal :: "ResourceStatement \<Rightarrow> Principal \<Rightarrow> how" where
  "appliesToPrincipal r p =
     (if rsNotPrincipals r \<noteq> [] then if principalMatch (rsNotPrincipals r) p \<noteq> NotNamed then NotNamed else Public
      else principalMatch (rsPrincipals r) p)"

subsection \<open>The evaluation\<close>

definition operatorPrefix :: string where "operatorPrefix = ''openinfra-operator:''"

definition allowAll :: Statement where
  "allowAll = empty_statement\<lparr>Actions := [''*''], Resources := [''*'']\<rparr>"

datatype authz_reason =
    OperatorSurface
  | RootUser
  | NoWorld
  | LoadFailed
  | ResourceCompile nat
  | ResourceDeny
  | ScpDenied
  | CrossAccountGranted
  | CrossAccountRoot
  | PolicyCompile string
  | PolicyDeny string
  | SetCompile string
  | SetDeny string
  | NeedsResourcePolicy
  | NoPolicyAllows
  | OutsideBoundary
  | OutsideSession
  | AllowedBy string

record AuthzDecision =
  adAllowed :: bool
  adExplicitDeny :: bool
  adReason :: authz_reason
  adMatched :: string

definition refuse :: "authz_reason \<Rightarrow> AuthzDecision" where
  "refuse why = \<lparr>adAllowed = False, adExplicitDeny = False, adReason = why, adMatched = []\<rparr>"

definition explicit :: "authz_reason \<Rightarrow> string \<Rightarrow> AuthzDecision" where
  "explicit why m = \<lparr>adAllowed = False, adExplicitDeny = True, adReason = why, adMatched = m\<rparr>"

definition grant :: "authz_reason \<Rightarrow> string \<Rightarrow> AuthzDecision" where
  "grant why m = \<lparr>adAllowed = True, adExplicitDeny = False, adReason = why, adMatched = m\<rparr>"

text \<open>What a resource's policy says of the caller.\<close>

record rp_tally =
  rpDeny :: bool
  rpPublic :: bool
  rpAccount :: bool
  rpSpecific :: bool

definition rp_any :: "rp_tally \<Rightarrow> bool" where
  "rp_any t \<longleftrightarrow> rpSpecific t \<or> rpAccount t \<or> rpPublic t"

definition rp_note :: "how \<Rightarrow> Decision \<Rightarrow> rp_tally \<Rightarrow> rp_tally" where
  "rp_note how d t =
     (if ExplicitDeny d then t\<lparr>rpDeny := True\<rparr>
      else if Allowed d then
        (case how of
           Specific \<Rightarrow> t\<lparr>rpSpecific := True\<rparr>
         | Account \<Rightarrow> t\<lparr>rpAccount := True\<rparr>
         | _ \<Rightarrow> t\<lparr>rpPublic := True\<rparr>)
      else t)"

fun resource_loop ::
  "cedar_api \<Rightarrow> Principal \<Rightarrow> Request \<Rightarrow> nat \<Rightarrow> ResourceStatement list \<Rightarrow> rp_tally \<Rightarrow> (nat, rp_tally) result" where
  "resource_loop C p req i [] t = Inr t"
| "resource_loop C p req i (rs # rss) t =
     (if appliesToPrincipal rs p = NotNamed then resource_loop C p req (Suc i) rss t
      else case NewEngine C [rsStatement rs] of
          Inl _ \<Rightarrow> Inl i
        | Inr e \<Rightarrow> resource_loop C p req (Suc i) rss (rp_note (appliesToPrincipal rs p) (Authorize C e req) t))"

text \<open>The identity policies: on the left a final decision, else the policy that allows.\<close>

fun identity_loop :: "cedar_api \<Rightarrow> Request \<Rightarrow> Policy list \<Rightarrow> string option \<Rightarrow> (AuthzDecision, string option) result" where
  "identity_loop C req [] m = Inr m"
| "identity_loop C req (pol # pols) m =
     (case NewEngine C (pStatements pol) of
        Inl _ \<Rightarrow> Inl (refuse (PolicyCompile (pName pol)))
      | Inr e \<Rightarrow>
          let d = Authorize C e req
          in if ExplicitDeny d then Inl (explicit (PolicyDeny (pName pol)) (pName pol))
             else identity_loop C req pols (if Allowed d \<and> m = None then Some (pName pol) else m))"

definition explicitDeny :: "cedar_api \<Rightarrow> Statement list \<Rightarrow> Request \<Rightarrow> (engine_error, bool) result" where
  "explicitDeny C stmts req =
     (let denies = filter (\<lambda>s. Effect s = Deny) stmts
      in if denies = [] then Inr False
         else rbind (NewEngine C (allowAll # denies)) (\<lambda>e. Inr (ExplicitDeny (Authorize C e req))))"

definition within_limit :: "cedar_api \<Rightarrow> Statement list \<Rightarrow> Request \<Rightarrow> (engine_error, bool) result" where
  "within_limit C limit req =
     rbind (NewEngineWithBoundary C [allowAll] limit) (\<lambda>e. Inr (Allowed (Authorize C e req)))"

record AuthzRequest =
  arAccount :: string
  arResource :: "ResourceStatement list"

record AuthzEnv =
  aeCedar :: cedar_api
  aeEnabled :: bool
  aeWorld :: "World option"
  aeNow :: int
  aeScp :: "(Principal \<Rightarrow> string \<Rightarrow> string \<Rightarrow> bool \<times> bool) option"

definition authz_request :: "AuthzEnv \<Rightarrow> Principal \<Rightarrow> string \<Rightarrow> string \<Rightarrow> attribute strmap \<Rightarrow> AuthzRequest \<Rightarrow> Request \<times> string" where
  "authz_request E p action resource ctx ro =
     (let (t, arnAcct) = mapResource (aeCedar E) resource;
          resAcct = (if arAccount ro \<noteq> [] then arAccount ro else if arnAcct \<noteq> [] then arnAcct else AccountID p);
          (rt, rid) = splitTyped t
      in (\<lparr>rPrincipalType = type_text (prType p), rPrincipalID = prID p, rAction = action, rResourceType = rt,
           rResourceID = rid,
           rContext = put ''principalAccount'' (Text (AccountID p)) (put ''resourceAccount'' (Text resAcct) ctx)\<rparr>, resAcct))"

definition identity_policies :: "AuthzEnv \<Rightarrow> World \<Rightarrow> Principal \<Rightarrow> Policy list" where
  "identity_policies E w p =
     (if prType p = User \<or> prType p = Role
      then PoliciesAt w (type_text (prType p)) (prID p) (if prType p = Role then [] else prGroups p) (aeNow E)
      else [])"

definition boundary_of :: "World \<Rightarrow> Principal \<Rightarrow> Statement list option" where
  "boundary_of w p = (if prType p = User \<or> prType p = Role then BoundaryFor w (type_text (prType p)) (prID p) else None)"

definition session_of :: "Principal \<Rightarrow> Statement list" where
  "session_of p = (case prSession p of None \<Rightarrow> [] | Some s \<Rightarrow> sesPolicies s)"

text \<open>The ceilings: the boundary, when there is one, and a session policy that is not empty.\<close>

definition ceilings :: "cedar_api \<Rightarrow> Request \<Rightarrow> Statement list option \<Rightarrow> Statement list \<Rightarrow> AuthzDecision option" where
  "ceilings C req boundary session =
     (case (case boundary of None \<Rightarrow> Inr True | Some b \<Rightarrow> within_limit C b req) of
        Inl _ \<Rightarrow> Some (refuse (SetCompile ''the permission boundary''))
      | Inr False \<Rightarrow> Some ((refuse OutsideBoundary)\<lparr>adMatched := ''boundary''\<rparr>)
      | Inr True \<Rightarrow>
          (case (if session = [] then Inr True else within_limit C session req) of
             Inl _ \<Rightarrow> Some (refuse (SetCompile ''the session policy''))
           | Inr False \<Rightarrow> Some ((refuse OutsideSession)\<lparr>adMatched := ''session-policy''\<rparr>)
           | Inr True \<Rightarrow> None))"

fun set_denies :: "cedar_api \<Rightarrow> Request \<Rightarrow> (string \<times> Statement list) list \<Rightarrow> AuthzDecision option" where
  "set_denies C req [] = None"
| "set_denies C req ((name, stmts) # sets) =
     (case explicitDeny C stmts req of
        Inl _ \<Rightarrow> Some (refuse (SetCompile name))
      | Inr denied \<Rightarrow> if denied then Some (explicit (SetDeny name) name) else set_denies C req sets)"

definition authorize_identity ::
  "AuthzEnv \<Rightarrow> World \<Rightarrow> Principal \<Rightarrow> Request \<Rightarrow> bool \<Rightarrow> rp_tally \<Rightarrow> AuthzDecision" where
  "authorize_identity E w p req same rp =
     (let C = aeCedar E; boundary = boundary_of w p; session = session_of p
      in case identity_loop C req (identity_policies E w p) None of
          Inl d \<Rightarrow> d
        | Inr idm \<Rightarrow>
            (case set_denies C req [(''the permission boundary'', case boundary of None \<Rightarrow> [] | Some b \<Rightarrow> b),
                (''the session policy'', session)] of
               Some d \<Rightarrow> d
             | None \<Rightarrow>
                 let idAllow = (idm \<noteq> None);
                     matched = (if same \<and> \<not> idAllow then if rp_any rp then ''resource-policy'' else []
                                else case idm of Some m \<Rightarrow> m | None \<Rightarrow> []);
                     allowed = (if same then idAllow \<or> rpSpecific rp \<or> rpPublic rp else idAllow \<and> rp_any rp)
                 in if \<not> allowed then
                      (if \<not> same \<and> idAllow then refuse NeedsResourcePolicy else refuse NoPolicyAllows)
                    else case ceilings C req boundary session of
                        Some d \<Rightarrow> d
                      | None \<Rightarrow> grant (AllowedBy matched) matched))"

definition authorize :: "AuthzEnv \<Rightarrow> Principal \<Rightarrow> string \<Rightarrow> string \<Rightarrow> attribute strmap \<Rightarrow> AuthzRequest \<Rightarrow> AuthzDecision" where
  "authorize E p action resource ctx ro =
     (if AccountID p \<noteq> ManagementAccount \<and> has_prefix action operatorPrefix then refuse OperatorSurface
      else if \<not> aeEnabled E then if prType p = Root then grant RootUser ''root'' else refuse NoWorld
      else case aeWorld E of
          None \<Rightarrow> refuse LoadFailed
        | Some w \<Rightarrow>
            let (req, resAcct) = authz_request E p action resource ctx ro; same = (resAcct = AccountID p)
            in case resource_loop (aeCedar E) p req 0 (arResource ro)
                  \<lparr>rpDeny = False, rpPublic = False, rpAccount = False, rpSpecific = False\<rparr> of
                Inl i \<Rightarrow> refuse (ResourceCompile i)
              | Inr rp \<Rightarrow>
                  if rpDeny rp then explicit ResourceDeny ''resource-policy''
                  else case (case aeScp E of None \<Rightarrow> None
                        | Some f \<Rightarrow> let (ok, ex) = f p action (fst (mapResource (aeCedar E) resource)) in if ok then None else Some ex) of
                      Some ex \<Rightarrow> \<lparr>adAllowed = False, adExplicitDeny = ex, adReason = ScpDenied, adMatched = ''scp''\<rparr>
                    | None \<Rightarrow>
                        if prType p = Root then
                          (if same then grant RootUser ''root''
                           else if rp_any rp then grant CrossAccountGranted ''resource-policy''
                           else refuse CrossAccountRoot)
                        else authorize_identity E w p req same rp)"

subsection \<open>AWS's evaluation logic\<close>

text \<open>
  What one policy says of a request, statement by statement: the context is the request's, without the
  addresses and times of the policy's conditions that are none.
\<close>

definition view :: "cedar_api \<Rightarrow> Statement list \<Rightarrow> Request \<Rightarrow> cvalue strmap" where
  "view C stmts r =
     put ''resource'' (CStr (rResourceType r @ ''::'' @ rResourceID r))
      (put ''action'' (CStr (rAction r))
        (sanitise (\<Union>s \<in> set stmts. set (map tcKey (TimeConditions s))) (parse_datetime C)
          (sanitise (\<Union>s \<in> set stmts. set (map ipKey (IPConditions s))) (parse_ip C) (cedar_context (rContext r)))))"

definition says :: "cedar_api \<Rightarrow> Request \<Rightarrow> Statement list \<Rightarrow> string \<Rightarrow> bool" where
  "says C r stmts effect \<longleftrightarrow>
     (\<exists>s \<in> set stmts. Effect s = effect \<and>
        st_applies C (view C stmts r) (rAction r) (rResourceType r @ ''::'' @ rResourceID r) s)"

text \<open>A policy that does not compile blocks everything; one that compiles blocks what it denies.\<close>

definition clear :: "cedar_api \<Rightarrow> Request \<Rightarrow> Statement list \<Rightarrow> bool" where
  "clear C r stmts \<longleftrightarrow> (\<exists>e. NewEngine C stmts = Inr e) \<and> \<not> says C r stmts Deny"

definition denies_of :: "Statement list \<Rightarrow> Statement list" where
  "denies_of stmts = filter (\<lambda>s. Effect s = Deny) stmts"

definition clear_of_denies :: "cedar_api \<Rightarrow> Request \<Rightarrow> Statement list \<Rightarrow> bool" where
  "clear_of_denies C r stmts \<longleftrightarrow> denies_of stmts = [] \<or> clear C r (allowAll # denies_of stmts)"

definition inside :: "cedar_api \<Rightarrow> Request \<Rightarrow> Statement list \<Rightarrow> bool" where
  "inside C r limit \<longleftrightarrow> (\<exists>e. NewEngineWithBoundary C [allowAll] limit = Inr e) \<and>
     within_ceiling (Some limit) (rAction r) (rResourceType r @ ''::'' @ rResourceID r)"

text \<open>How the resource's policy grants the request to the caller.\<close>

definition resource_grants :: "cedar_api \<Rightarrow> Principal \<Rightarrow> Request \<Rightarrow> ResourceStatement list \<Rightarrow> how \<Rightarrow> bool" where
  "resource_grants C p r rss h \<longleftrightarrow>
     (\<exists>rs \<in> set rss. appliesToPrincipal rs p = h \<and> says C r [rsStatement rs] Allow \<and> \<not> says C r [rsStatement rs] Deny)"

definition resource_clear :: "cedar_api \<Rightarrow> Principal \<Rightarrow> Request \<Rightarrow> ResourceStatement list \<Rightarrow> bool" where
  "resource_clear C p r rss \<longleftrightarrow> (\<forall>rs \<in> set rss. appliesToPrincipal rs p \<noteq> NotNamed \<longrightarrow> clear C r [rsStatement rs])"

definition identity_allows :: "cedar_api \<Rightarrow> Request \<Rightarrow> Policy list \<Rightarrow> bool" where
  "identity_allows C r pols \<longleftrightarrow> (\<exists>pol \<in> set pols. says C r (pStatements pol) Allow)"

text \<open>The six rules of the package, for a principal that is not a root user.\<close>

definition aws_allows_identity ::
  "cedar_api \<Rightarrow> Principal \<Rightarrow> Request \<Rightarrow> bool \<Rightarrow> ResourceStatement list \<Rightarrow> Policy list \<Rightarrow> Statement list option \<Rightarrow> Statement list \<Rightarrow> bool" where
  "aws_allows_identity C p r same rss pols boundary session \<longleftrightarrow>
     (\<forall>pol \<in> set pols. clear C r (pStatements pol)) \<and>
     (\<forall>b. boundary = Some b \<longrightarrow> clear_of_denies C r b \<and> inside C r b) \<and>
     clear_of_denies C r session \<and> (session \<noteq> [] \<longrightarrow> inside C r session) \<and>
     (if same then identity_allows C r pols \<or> resource_grants C p r rss Specific \<or> resource_grants C p r rss Public
      else identity_allows C r pols \<and> (\<exists>h. h \<noteq> NotNamed \<and> resource_grants C p r rss h))"

definition aws_allows :: "AuthzEnv \<Rightarrow> World \<Rightarrow> Principal \<Rightarrow> string \<Rightarrow> string \<Rightarrow> attribute strmap \<Rightarrow> AuthzRequest \<Rightarrow> bool" where
  "aws_allows E w p action resource ctx ro \<longleftrightarrow>
     (let C = aeCedar E; (r, resAcct) = authz_request E p action resource ctx ro; same = (resAcct = AccountID p) in
      \<not> (AccountID p \<noteq> ManagementAccount \<and> has_prefix action operatorPrefix) \<and>
      resource_clear C p r (arResource ro) \<and>
      (\<forall>f. aeScp E = Some f \<longrightarrow> fst (f p action (fst (mapResource C resource)))) \<and>
      (if prType p = Root then same \<or> (\<exists>h. h \<noteq> NotNamed \<and> resource_grants C p r (arResource ro) h)
       else aws_allows_identity C p r same (arResource ro) (identity_policies E w p) (boundary_of w p) (session_of p)))"

text \<open>
  What is asked of statements and request: literal addresses and times are such, and the attributes of
  key conditions have the type the conditions compare them as.
\<close>

definition well_typed :: "cedar_api \<Rightarrow> attribute strmap \<Rightarrow> Statement \<Rightarrow> bool" where
  "well_typed C ctx s \<longleftrightarrow> literals_parse C s \<and>
     (\<forall>kc \<in> set (KeyConditions s). \<forall>v. lookup (cedar_context ctx) (kcKey kc) = Some v \<longrightarrow> has_kind (kc_kind kc) v)"

subsection \<open>The engines of the evaluation\<close>

lemma note_kinds_from:
  "note_kinds i kcs m = Inr m' \<Longrightarrow> set m' \<subseteq> set m \<union> (\<lambda>kc. (kcKey kc, kc_kind kc)) ` set kcs"
proof (induction i kcs m rule: note_kinds.induct)
  case (2 i kc kcs m)
  have "set (put k v m) \<subseteq> insert (k, v) (set m)" for k v and m :: "string strmap"
    by (induction k v m rule: put.induct) auto
  then show ?case using 2 by (fastforce split: if_splits option.splits)
qed simp

lemma compile_all_kinds:
  "compile_all i ss e = Inr e' \<Longrightarrow>
     set (keyKinds e') \<subseteq> set (keyKinds e) \<union> (\<Union>s \<in> set ss. (\<lambda>kc. (kcKey kc, kc_kind kc)) ` set (KeyConditions s))"
proof (induction i ss e rule: compile_all.induct)
  case (2 i s ss e)
  then obtain cl kinds where k: "note_kinds i (KeyConditions s) (keyKinds e) = Inr kinds"
      "set (keyKinds e') \<subseteq> set kinds \<union> (\<Union>s \<in> set ss. (\<lambda>kc. (kcKey kc, kc_kind kc)) ` set (KeyConditions s))"
    by fastforce
  then show ?case using note_kinds_from [OF k(1)] by auto
qed simp

lemma engine_view: "engine_for C stmts b = Inr e \<Longrightarrow> request_context C e r = view C stmts r"
proof -
  assume "engine_for C stmts b = Inr e"
  then obtain e0 gs where "compile_all 0 stmts \<lparr>policy_set = [], ipKeys = {}, timeKeys = {}, keyKinds = []\<rparr> = Inr e0"
      "e = e0\<lparr>policy_set := policy_set e0 @ gs\<rparr>" by (rule engine_for_parts)
  then show ?thesis using compile_all_keys [of 0 stmts _ e0] by (simp add: request_context_def view_def)
qed

lemma engine_not_malformed:
  assumes "engine_for C stmts b = Inr e" "\<forall>s \<in> set stmts. well_typed C ctx s"
  shows "malformed_key e (cedar_context ctx) = None"
proof -
  obtain e0 gs where e0: "compile_all 0 stmts \<lparr>policy_set = [], ipKeys = {}, timeKeys = {}, keyKinds = []\<rparr> = Inr e0"
      "e = e0\<lparr>policy_set := policy_set e0 @ gs\<rparr>" using assms(1) by (rule engine_for_parts)
  have "case lookup (cedar_context ctx) k of None \<Rightarrow> True | Some v \<Rightarrow> has_kind kd v" if "(k, kd) \<in> set (keyKinds e)" for k kd
    using compile_all_kinds [OF e0(1)] that assms(2) by (fastforce simp: e0(2) well_typed_def split: option.splits)
  then show ?thesis by (fastforce simp: malformed_key_def find_None_iff split: option.splits)
qed

context cedar
begin

lemma policy_decides:
  assumes "engine_for C stmts b = Inr e" "\<forall>s \<in> set stmts. well_typed C (rContext r) s"
  shows "ExplicitDeny (Authorize C e r) \<longleftrightarrow> says C r stmts Deny"
    and "Allowed (Authorize C e r) \<longleftrightarrow> says C r stmts Allow \<and> \<not> says C r stmts Deny \<and>
      within_ceiling b (rAction r) (rResourceType r @ ''::'' @ rResourceID r)"
  using authorize_decides [OF assms(1) _ engine_not_malformed [OF assms]] assms(2) engine_view [OF assms(1)]
  by (auto simp: reference_decision_def says_def well_typed_def)

lemma new_engine_decides:
  assumes "NewEngine C stmts = Inr e" "\<forall>s \<in> set stmts. well_typed C (rContext r) s"
  shows "ExplicitDeny (Authorize C e r) \<longleftrightarrow> says C r stmts Deny"
    and "Allowed (Authorize C e r) \<longleftrightarrow> says C r stmts Allow \<and> \<not> says C r stmts Deny"
  using policy_decides [of stmts None e r] assms by (simp_all add: engine_for_def within_ceiling_def)

lemma resource_loop_clear:
  "\<forall>rs \<in> set rss. well_typed C (rContext r) (rsStatement rs) \<Longrightarrow>
     (\<exists>t'. resource_loop C p r i rss t = Inr t' \<and> \<not> rpDeny t') \<longleftrightarrow> \<not> rpDeny t \<and> resource_clear C p r rss"
proof (induction rss arbitrary: i t)
  case (Cons rs rss)
  show ?case
  proof (cases "NewEngine C [rsStatement rs]")
    case (Inr e)
    have "rpDeny (rp_note (appliesToPrincipal rs p) (Authorize C e r) t) \<longleftrightarrow> rpDeny t \<or> says C r [rsStatement rs] Deny"
      using new_engine_decides(1) [OF Inr, of r] Cons.prems by (auto simp: rp_note_def split: how.split)
    then show ?thesis using Cons Inr by (auto simp: resource_clear_def clear_def)
  qed (use Cons in \<open>auto simp: resource_clear_def clear_def\<close>)
qed (simp add: resource_clear_def)

lemma resource_loop_grants:
  "\<forall>rs \<in> set rss. well_typed C (rContext r) (rsStatement rs) \<Longrightarrow> resource_loop C p r i rss t = Inr t' \<Longrightarrow>
     (rpSpecific t' \<longleftrightarrow> rpSpecific t \<or> resource_grants C p r rss Specific) \<and>
     (rpAccount t' \<longleftrightarrow> rpAccount t \<or> resource_grants C p r rss Account) \<and>
     (rpPublic t' \<longleftrightarrow> rpPublic t \<or> resource_grants C p r rss Public)"
proof (induction rss arbitrary: i t)
  case (Cons rs rss)
  show ?case
  proof (cases "appliesToPrincipal rs p = NotNamed")
    case True
    then show ?thesis using Cons by (auto simp: resource_grants_def)
  next
    case False
    then obtain e where e: "NewEngine C [rsStatement rs] = Inr e"
        "resource_loop C p r (Suc i) rss (rp_note (appliesToPrincipal rs p) (Authorize C e r) t) = Inr t'"
      using Cons.prems(2) by (auto split: sum.splits)
    have d: "ExplicitDeny (Authorize C e r) \<longleftrightarrow> says C r [rsStatement rs] Deny"
        "Allowed (Authorize C e r) \<longleftrightarrow> says C r [rsStatement rs] Allow \<and> \<not> says C r [rsStatement rs] Deny"
      using new_engine_decides [OF e(1), of r] Cons.prems(1) by simp_all
    show ?thesis using Cons.IH [OF _ e(2)] Cons.prems(1) False
      by (cases "appliesToPrincipal rs p") (auto simp: resource_grants_def rp_note_def d)
  qed
qed (simp add: resource_grants_def)

lemma identity_loop_says:
  "\<forall>pol \<in> set pols. \<forall>s \<in> set (pStatements pol). well_typed C (rContext r) s \<Longrightarrow>
     (case identity_loop C r pols m of
        Inl d \<Rightarrow> \<not> adAllowed d \<and> \<not> (\<forall>pol \<in> set pols. clear C r (pStatements pol))
      | Inr m' \<Rightarrow> (\<forall>pol \<in> set pols. clear C r (pStatements pol)) \<and> (m' \<noteq> None \<longleftrightarrow> m \<noteq> None \<or> identity_allows C r pols))"
proof (induction pols arbitrary: m)
  case (Cons pol pols)
  show ?case
  proof (cases "NewEngine C (pStatements pol)")
    case (Inr e)
    have d: "ExplicitDeny (Authorize C e r) \<longleftrightarrow> says C r (pStatements pol) Deny"
        "Allowed (Authorize C e r) \<longleftrightarrow> says C r (pStatements pol) Allow \<and> \<not> says C r (pStatements pol) Deny"
      using new_engine_decides [OF Inr, of r] Cons.prems by simp_all
    show ?thesis
    proof (cases "says C r (pStatements pol) Deny")
      case False
      have c: "clear C r (pStatements pol)" using Inr False by (simp add: clear_def)
      show ?thesis
        using Cons.IH [of "if Allowed (Authorize C e r) \<and> m = None then Some (pName pol) else m"] Cons.prems Inr False c
        by (auto simp: d Let_def identity_allows_def split: sum.splits if_splits)
    qed (simp add: Inr d explicit_def clear_def)
  qed (simp add: clear_def refuse_def)
qed (simp add: identity_allows_def)

end

lemma star_in_scope: "in_scope ty [''*''] [] x"
  by (cases ty) (simp_all add: in_scope_def entry_names_def wmatch_star_iff)

lemma Allow_Deny [simp]: "Allow \<noteq> Deny" "Deny \<noteq> Allow"
  by (simp_all add: Allow_def Deny_def)

lemma allowAll_says: "says C r [allowAll] Allow" "\<not> says C r [allowAll] Deny"
  by (simp_all add: says_def allowAll_def empty_statement_def st_applies_def star_in_scope conditions_hold_def)

lemma allowAll_well_typed: "well_typed C ctx allowAll"
  by (simp add: well_typed_def literals_parse_def allowAll_def empty_statement_def)

context cedar
begin

lemma explicitDeny_says:
  assumes "\<forall>s \<in> set stmts. well_typed C (rContext r) s"
  shows "explicitDeny C stmts r = Inr False \<longleftrightarrow> clear_of_denies C r stmts"
proof (cases "NewEngine C (allowAll # denies_of stmts)")
  case (Inr e)
  have "ExplicitDeny (Authorize C e r) \<longleftrightarrow> says C r (allowAll # denies_of stmts) Deny"
    by (rule new_engine_decides(1) [OF Inr]) (use assms in \<open>simp add: allowAll_well_typed denies_of_def\<close>)
  then show ?thesis using Inr by (simp add: explicitDeny_def clear_of_denies_def clear_def denies_of_def Let_def)
qed (simp add: explicitDeny_def clear_of_denies_def clear_def denies_of_def Let_def)

lemma within_limit_says: "within_limit C limit r = Inr True \<longleftrightarrow> inside C r limit"
proof (cases "NewEngineWithBoundary C [allowAll] limit")
  case (Inr e)
  have "Allowed (Authorize C e r) \<longleftrightarrow> within_ceiling (Some limit) (rAction r) (rResourceType r @ ''::'' @ rResourceID r)"
    using policy_decides(2) [of "[allowAll]" "Some limit" e r] Inr
    by (simp add: engine_for_def allowAll_well_typed allowAll_says)
  then show ?thesis using Inr by (simp add: within_limit_def inside_def)
qed (simp add: within_limit_def inside_def)

lemma set_denies_clear:
  "\<forall>(name, stmts) \<in> set sets. \<forall>s \<in> set stmts. well_typed C (rContext r) s \<Longrightarrow>
     (case set_denies C r sets of
        Some d \<Rightarrow> \<not> adAllowed d \<and> \<not> (\<forall>(name, stmts) \<in> set sets. clear_of_denies C r stmts)
      | None \<Rightarrow> \<forall>(name, stmts) \<in> set sets. clear_of_denies C r stmts)"
proof (induction sets)
  case (Cons x sets)
  obtain name stmts where x: "x = (name, stmts)" by (cases x)
  have "explicitDeny C stmts r = Inr False \<longleftrightarrow> clear_of_denies C r stmts"
    by (rule explicitDeny_says) (use Cons.prems x in simp)
  then show ?case using Cons by (auto simp: x refuse_def explicit_def split: sum.splits option.splits if_splits)
qed simp

lemma ceilings_inside:
  "case ceilings C r boundary session of
      Some d \<Rightarrow> \<not> adAllowed d \<and> \<not> ((\<forall>b. boundary = Some b \<longrightarrow> inside C r b) \<and> (session \<noteq> [] \<longrightarrow> inside C r session))
    | None \<Rightarrow> (\<forall>b. boundary = Some b \<longrightarrow> inside C r b) \<and> (session \<noteq> [] \<longrightarrow> inside C r session)"
  unfolding ceilings_def
  by (auto simp: within_limit_says [symmetric] refuse_def split: option.splits sum.splits bool.splits if_splits)

lemma authorize_identity_decides:
  assumes "aeCedar E = C" "\<forall>pol \<in> set (identity_policies E w p). \<forall>s \<in> set (pStatements pol). well_typed C (rContext r) s"
    and "\<forall>b. boundary_of w p = Some b \<longrightarrow> (\<forall>s \<in> set b. well_typed C (rContext r) s)"
    and "\<forall>s \<in> set (session_of p). well_typed C (rContext r) s"
    and "\<forall>rs \<in> set rss. well_typed C (rContext r) (rsStatement rs)"
    and "resource_loop C p r 0 rss \<lparr>rpDeny = False, rpPublic = False, rpAccount = False, rpSpecific = False\<rparr> = Inr rp"
  shows "adAllowed (authorize_identity E w p r same rp) \<longleftrightarrow>
     aws_allows_identity C p r same rss (identity_policies E w p) (boundary_of w p) (session_of p)"
proof -
  let ?pols = "identity_policies E w p" and ?b = "boundary_of w p" and ?s = "session_of p"
  let ?sets = "[(''the permission boundary'', case ?b of None \<Rightarrow> [] | Some b \<Rightarrow> b), (''the session policy'', ?s)]"
  have rp: "rpSpecific rp \<longleftrightarrow> resource_grants C p r rss Specific" "rpPublic rp \<longleftrightarrow> resource_grants C p r rss Public"
      "rp_any rp \<longleftrightarrow> (\<exists>h. h \<noteq> NotNamed \<and> resource_grants C p r rss h)"
    using resource_loop_grants [OF assms(5,6)] by (auto simp: rp_any_def) (metis how.exhaust)
  have sets: "(\<forall>(name, stmts) \<in> set ?sets. clear_of_denies C r stmts) \<longleftrightarrow>
      (\<forall>b. ?b = Some b \<longrightarrow> clear_of_denies C r b) \<and> clear_of_denies C r ?s"
    by (cases ?b) (simp_all add: clear_of_denies_def denies_of_def)
  have typed_sets: "\<forall>(name, stmts) \<in> set ?sets. \<forall>s \<in> set stmts. well_typed C (rContext r) s"
    using assms(3,4) by (cases ?b) simp_all
  note idl = identity_loop_says [OF assms(2), of None] and sdn = set_denies_clear [OF typed_sets, unfolded sets]
  note cel = ceilings_inside [where r = r and boundary = ?b and session = ?s]
  show ?thesis
  proof (cases "identity_loop C r ?pols None")
    case (Inl d)
    then show ?thesis using idl by (simp add: authorize_identity_def aws_allows_identity_def assms(1) Let_def)
  next
    case i: (Inr m)
    show ?thesis
    proof (cases "set_denies C r ?sets")
      case (Some d)
      then show ?thesis using i sdn
        by (auto simp: authorize_identity_def aws_allows_identity_def assms(1) Let_def simp del: set_denies.simps)
    next
      case None
      define allowed where "allowed = (if same then m \<noteq> None \<or> rpSpecific rp \<or> rpPublic rp else m \<noteq> None \<and> rp_any rp)"
      have "adAllowed (authorize_identity E w p r same rp) \<longleftrightarrow> allowed \<and> ceilings C r ?b ?s = None"
        using cel by (simp add: authorize_identity_def assms(1) Let_def i None allowed_def refuse_def grant_def
            split: option.split_asm del: set_denies.simps)
      moreover have "ceilings C r ?b ?s = None \<longleftrightarrow> (\<forall>b. ?b = Some b \<longrightarrow> inside C r b) \<and> (?s \<noteq> [] \<longrightarrow> inside C r ?s)"
        using cel by (cases "ceilings C r ?b ?s") simp_all
      moreover have "(\<forall>pol \<in> set ?pols. clear C r (pStatements pol)) \<and> (m \<noteq> None \<longleftrightarrow> identity_allows C r ?pols)"
        using idl by (simp add: i)
      moreover have "(\<forall>b. ?b = Some b \<longrightarrow> clear_of_denies C r b) \<and> clear_of_denies C r ?s"
        using sdn by (simp add: None del: set_denies.simps)
      ultimately show ?thesis unfolding aws_allows_identity_def allowed_def rp by auto
    qed
  qed
qed

end


definition sample_bob :: Principal where
  "sample_bob = \<lparr>prAccount = ''111111111111'', prType = User, prID = ''home/bob'', prGroups = [], prSession = None\<rparr>"

definition sample_evaluator :: AuthzEnv where
  "sample_evaluator = \<lparr>aeCedar = sample_cedar, aeEnabled = True,
     aeWorld = Some (empty_world\<lparr>Docs := [no_policy\<lparr>pName := ''readers'', pStatements := [read_assets], pAppliesTo := [''User::home/bob'']\<rparr>]\<rparr>),
     aeNow = 0, aeScp = None\<rparr>"

definition sample_options :: AuthzRequest where
  "sample_options = \<lparr>arAccount = ''222222222222'', arResource = [\<lparr>rsStatement = read_assets,
     rsPrincipals = [''arn:aws:iam::111111111111:root''], rsNotPrincipals = []\<rparr>]\<rparr>"


text \<open>
  The ARN of a principal keeps the last segment of its name only: users of two namespaces of one account
  with the same name have one ARN, and a resource policy that names one of them names the other.\<close>

theorem namesakes_share_arn:
  "ARN (sample_bob\<lparr>prID := ''team-a/bob''\<rparr>) = ARN (sample_bob\<lparr>prID := ''team-b/bob''\<rparr>) \<and>
   appliesToPrincipal \<lparr>rsStatement = read_assets, rsPrincipals = [ARN (sample_bob\<lparr>prID := ''team-a/bob''\<rparr>)], rsNotPrincipals = []\<rparr>
     (sample_bob\<lparr>prID := ''team-b/bob''\<rparr>) = Specific"
  by code_simp

end
