(* ===== verification/IamDocument.thy ===== *)
theory IamDocument
  imports IamAuthz
begin

text \<open>
  Policy documents of AWS as the evaluator compiles them itself, \<^verbatim>\<open>console-api/internal/iamauthz/compile.go\<close>,
  and the trust policies of roles, \<^verbatim>\<open>trust.go\<close>.

  The decoder is a parameter: a document is what \<^verbatim>\<open>json.Unmarshal\<close> makes of the text, None when it fails.
  Objects are association lists in the order an iteration visits them. Texts of errors and reports are one
  constructor each.
\<close>

subsection \<open>Documents\<close>

datatype doc_error =
    NotADocument
  | BadStatementMember
  | EffectUnknown nat
  | BothActions nat
  | BothResources nat
  | PrincipalForm nat
  | PrincipalUnknown nat string

datatype cond_refusal =
    CondNotObject
  | CondError import_error
  | CondUnsupported "unsupported list"

datatype doc_note =
    AllowDropped cond_refusal
  | DenyUnconditional cond_refusal
  | NoActionGiven
  | NoPrincipal

definition documentStatements :: "json option \<Rightarrow> (doc_error, json strmap list) result" where
  "documentStatements doc =
     (case doc of
        Some (JObj d) \<Rightarrow>
          (case member ''Statement'' d of
             None \<Rightarrow> Inr []
           | Some v \<Rightarrow> (case statement_maps v of None \<Rightarrow> Inl BadStatementMember | Some raw \<Rightarrow> Inr raw))
      | Some JNull \<Rightarrow> Inr []
      | _ \<Rightarrow> Inl NotADocument)"

definition condition_document :: "string \<Rightarrow> json \<Rightarrow> json" where
  "condition_document effect cond = JObj [(''Statement'', JArr [JObj
     [(''Effect'', JStr effect), (''Action'', JStr ''*''), (''Resource'', JStr ''*''), (''Condition'', cond)]])]"

definition import_condition :: "cedar_api \<Rightarrow> string \<Rightarrow> json \<Rightarrow> (cond_refusal, conds) result" where
  "import_condition C effect cond =
     (case cond of
        JObj _ \<Rightarrow>
          (case ImportAWS C (Some (condition_document effect cond)) of
             Inl e \<Rightarrow> Inl (CondError e)
           | Inr ([s], []) \<Rightarrow> Inr \<lparr>eqs = Condition s, ips = IPConditions s, likes = LikeConditions s,
               times = TimeConditions s, keyeds = KeyConditions s\<rparr>
           | Inr (_, us) \<Rightarrow> Inl (CondUnsupported us))
      | _ \<Rightarrow> Inl CondNotObject)"

text \<open>The condition of a statement: on the left the Allow is dropped.\<close>

definition conditions_of :: "cedar_api \<Rightarrow> string \<Rightarrow> json strmap \<Rightarrow> (doc_note, conds \<times> doc_note list) result" where
  "conditions_of C effect st =
     (case lookup st ''Condition'' of
        None \<Rightarrow> Inr (no_conds, [])
      | Some cond \<Rightarrow>
          (case import_condition C effect cond of
             Inr cs \<Rightarrow> Inr (cs, [])
           | Inl why \<Rightarrow> if effect = Allow then Inl (AllowDropped why) else Inr (no_conds, [DenyUnconditional why])))"

definition operatorActions :: string where "operatorActions = ''openinfra-operator:*''"

definition reserveOperator :: "string list \<Rightarrow> string list" where
  "reserveOperator notActions =
     (if operatorActions \<in> set notActions then notActions else notActions @ [operatorActions])"

definition actions_of :: "string \<Rightarrow> json strmap \<Rightarrow> string list \<times> string list" where
  "actions_of effect st =
     (case lookup st ''NotAction'' of
        Some v \<Rightarrow>
          if awsList v = [] then ([''*''], [])
          else ([], if effect = Allow then reserveOperator (awsList v) else awsList v)
      | None \<Rightarrow> (awsList (field st ''Action''), []))"

definition excluded_resource :: "cedar_api \<Rightarrow> string \<Rightarrow> string \<Rightarrow> string" where
  "excluded_resource C effect arn =
     (let (t, acct) = mapResource C arn in if acct \<noteq> [] \<and> effect = Deny then rawARNPrefix @ arn else t)"

definition by_account :: "cedar_api \<Rightarrow> string list \<Rightarrow> string list strmap" where
  "by_account C arns = foldl (\<lambda>m arn. let (t, acct) = mapResource C arn in put acct (slice_at m acct @ [t]) m) [] arns"

definition question_to_star :: "string \<Rightarrow> string" where
  "question_to_star = map (\<lambda>c. if c = CHR ''?'' then CHR ''*'' else c)"

definition resourceAccountKey :: string where "resourceAccountKey = ''resourceAccount''"

definition account_statement :: "Statement \<Rightarrow> string \<times> string list \<Rightarrow> Statement" where
  "account_statement b = (\<lambda>(acct, ts).
     let s = b\<lparr>Resources := if Effect b = Deny then map question_to_star ts else ts\<rparr>
     in if acct = [] then s
        else if CHR ''*'' \<in> set acct \<or> CHR ''?'' \<in> set acct then
          s\<lparr>Condition := filter (\<lambda>(k, _). k \<noteq> resourceAccountKey) (Condition s),
            LikeConditions := LikeConditions s @ [\<lparr>lcKey = resourceAccountKey, lcPattern = question_to_star acct, lcNegate = False\<rparr>]\<rparr>
        else s\<lparr>Condition := put resourceAccountKey acct (Condition s)\<rparr>)"

definition resource_arns :: "json strmap \<Rightarrow> string list" where
  "resource_arns st = (case lookup st ''Resource'' of None \<Rightarrow> [''*''] | Some v \<Rightarrow> awsList v)"

definition scoped_statements :: "cedar_api \<Rightarrow> json strmap \<Rightarrow> Statement \<Rightarrow> Statement list" where
  "scoped_statements C st b =
     (case lookup st ''NotResource'' of
        Some v \<Rightarrow>
          if awsList v = [] then [b\<lparr>Resources := [''*'']\<rparr>]
          else [b\<lparr>NotResources := map (excluded_resource C (Effect b)) (awsList v)\<rparr>]
      | None \<Rightarrow> map (account_statement b) (by_account C (resource_arns st)))"

definition compileStatement :: "cedar_api \<Rightarrow> nat \<Rightarrow> json strmap \<Rightarrow> (doc_error, Statement list \<times> doc_note list) result" where
  "compileStatement C i st =
     (let effect = str_or_empty (field st ''Effect'')
      in if effect \<noteq> Allow \<and> effect \<noteq> Deny then Inl (EffectUnknown i)
         else if lookup st ''Action'' \<noteq> None \<and> lookup st ''NotAction'' \<noteq> None then Inl (BothActions i)
         else if lookup st ''Resource'' \<noteq> None \<and> lookup st ''NotResource'' \<noteq> None then Inl (BothResources i)
         else case conditions_of C effect st of
             Inl dropped \<Rightarrow> Inr ([], [dropped])
           | Inr (cs, ns) \<Rightarrow>
               let (acts, nacts) = actions_of effect st
               in if acts = [] \<and> nacts = [] then Inr ([], ns @ [NoActionGiven])
                  else Inr (scoped_statements C st
                         \<lparr>Effect = effect, Actions = acts, NotActions = nacts, Resources = [], NotResources = [],
                          Condition = eqs cs, IPConditions = ips cs, LikeConditions = likes cs,
                          TimeConditions = times cs, KeyConditions = keyeds cs\<rparr>, ns))"

fun compile_statements ::
  "cedar_api \<Rightarrow> nat \<Rightarrow> json strmap list \<Rightarrow> (doc_error, Statement list \<times> (nat \<times> doc_note) list) result" where
  "compile_statements C i [] = Inr ([], [])"
| "compile_statements C i (st # sts) =
     rbind (compileStatement C i st) (\<lambda>(ss, ns).
     rbind (compile_statements C (Suc i) sts) (\<lambda>(ss', ns'). Inr (ss @ ss', map (Pair i) ns @ ns')))"

definition CompileDocument :: "cedar_api \<Rightarrow> json option \<Rightarrow> (doc_error, Statement list \<times> (nat \<times> doc_note) list) result" where
  "CompileDocument C doc = rbind (documentStatements doc) (compile_statements C 0)"

subsection \<open>Resource policies\<close>

definition normaliseAWSPrincipal :: "string \<Rightarrow> string" where
  "normaliseAWSPrincipal p =
     (if length p = 12 \<and> list_all is_digit p then ''arn:aws:iam::'' @ p @ '':root'' else p)"

fun principal_values :: "nat \<Rightarrow> json strmap \<Rightarrow> (doc_error, string list) result" where
  "principal_values i [] = Inr []"
| "principal_values i ((k, v) # m) =
     (if k = ''AWS'' then rbind (principal_values i m) (\<lambda>out. Inr (map normaliseAWSPrincipal (awsList v) @ out))
      else if k = ''Service'' then rbind (principal_values i m) (\<lambda>out. Inr (awsList v @ out))
      else if k = ''Federated'' \<or> k = ''CanonicalUser'' then
        rbind (principal_values i m) (\<lambda>out. Inr (map (\<lambda>p. k @ '':'' @ p) (awsList v) @ out))
      else if awsList v = [] then principal_values i m
      else Inl (PrincipalUnknown i k))"

fun principalList :: "nat \<Rightarrow> json \<Rightarrow> (doc_error, string list) result" where
  "principalList i JNull = Inr []"
| "principalList i (JStr s) = (if s \<noteq> ''*'' then Inl (PrincipalForm i) else Inr [''*''])"
| "principalList i (JObj m) = principal_values i m"
| "principalList i _ = Inl (PrincipalForm i)"

fun parse_resource_statements ::
  "cedar_api \<Rightarrow> nat \<Rightarrow> json strmap list \<Rightarrow> (doc_error, ResourceStatement list \<times> (nat \<times> doc_note) list) result" where
  "parse_resource_statements C i [] = Inr ([], [])"
| "parse_resource_statements C i (st # sts) =
     rbind (principalList i (field st ''Principal'')) (\<lambda>principals.
     rbind (principalList i (field st ''NotPrincipal'')) (\<lambda>notPrincipals.
     rbind (if principals = [] \<and> notPrincipals = [] then Inr ([], [NoPrincipal]) else compileStatement C i st) (\<lambda>(ss, ns).
     rbind (parse_resource_statements C (Suc i) sts) (\<lambda>(rss, ns').
       Inr (map (\<lambda>s. \<lparr>rsStatement = s, rsPrincipals = principals, rsNotPrincipals = notPrincipals\<rparr>) ss @ rss,
            map (Pair i) ns @ ns')))))"

definition ParseResourcePolicy ::
  "cedar_api \<Rightarrow> json option \<Rightarrow> (doc_error, ResourceStatement list \<times> (nat \<times> doc_note) list) result" where
  "ParseResourcePolicy C doc = rbind (documentStatements doc) (parse_resource_statements C 0)"

subsection \<open>Trust policies\<close>

datatype trust_answer =
    TrustAllowed
  | TrustNotParsed doc_error
  | TrustNotCompiled
  | TrustDenied
  | TrustNotAllowed

fun trust_loop :: "cedar_api \<Rightarrow> Principal \<Rightarrow> Request \<Rightarrow> ResourceStatement list \<Rightarrow> bool \<Rightarrow> trust_answer" where
  "trust_loop C p req [] allowed = (if allowed then TrustAllowed else TrustNotAllowed)"
| "trust_loop C p req (rs # rss) allowed =
     (if appliesToPrincipal rs p = NotNamed then trust_loop C p req rss allowed
      else case NewEngine C [rsStatement rs] of
          Inl _ \<Rightarrow> TrustNotCompiled
        | Inr e \<Rightarrow>
            if ExplicitDeny (Authorize C e req) then TrustDenied
            else trust_loop C p req rss (allowed \<or> Allowed (Authorize C e req)))"

definition trust_request :: "cedar_api \<Rightarrow> Principal \<Rightarrow> string \<Rightarrow> string \<Rightarrow> attribute strmap \<Rightarrow> Request" where
  "trust_request C p action roleARN ctx =
     (let (t, arnAcct) = mapResource C roleARN;
          named = (if arnAcct = [] then arnAccount roleARN else arnAcct);
          resAcct = (if named = [] \<or> named = ''*'' then AccountID p else named);
          (rt, rid) = splitTyped t
      in \<lparr>rPrincipalType = type_text (prType p), rPrincipalID = prID p, rAction = action, rResourceType = rt,
          rResourceID = rid,
          rContext = put ''principalAccount'' (Text (AccountID p)) (put resourceAccountKey (Text resAcct) ctx)\<rparr>)"

definition AuthorizeTrust ::
  "cedar_api \<Rightarrow> json option \<Rightarrow> Principal \<Rightarrow> string \<Rightarrow> string \<Rightarrow> attribute strmap \<Rightarrow> trust_answer" where
  "AuthorizeTrust C doc p action roleARN ctx =
     (case documentStatements doc of
        Inl e \<Rightarrow> TrustNotParsed e
      | Inr raw \<Rightarrow>
          if \<not> list_ex (\<lambda>st. lookup st ''Condition'' \<noteq> None) raw then TrustAllowed
          else case ParseResourcePolicy C doc of
              Inl e \<Rightarrow> TrustNotParsed e
            | Inr (stmts, _) \<Rightarrow> trust_loop C p (trust_request C p action roleARN ctx) stmts False)"

subsection \<open>What a document says\<close>

text \<open>
  AWS's reading of a statement: patterns have both wildcards, an ARN covers the resources of its typed
  form (a bucket with its objects) in the account it names.
\<close>

definition arn_covers :: "cedar_api \<Rightarrow> string \<Rightarrow> string \<Rightarrow> string \<Rightarrow> bool" where
  "arn_covers C arn x acct =
     (case mapResource C arn of
        (t, a) \<Rightarrow> (wmatch True t x \<or> whole_bucket t \<and> has_prefix x (t @ ''/'')) \<and> (a = [] \<or> wmatch True a acct))"

definition written_action :: "json strmap \<Rightarrow> string \<Rightarrow> bool" where
  "written_action st a =
     (case lookup st ''NotAction'' of
        Some v \<Rightarrow> \<not> (\<exists>p \<in> set (awsList v). wmatch True p a)
      | None \<Rightarrow> \<exists>p \<in> set (awsList (field st ''Action'')). wmatch True p a)"

definition written_resource :: "cedar_api \<Rightarrow> json strmap \<Rightarrow> string \<Rightarrow> string \<Rightarrow> bool" where
  "written_resource C st x acct =
     (case lookup st ''NotResource'' of
        Some v \<Rightarrow> \<not> (\<exists>arn \<in> set (awsList v). arn_covers C arn x acct)
      | None \<Rightarrow> \<exists>arn \<in> set (resource_arns st). arn_covers C arn x acct)"

definition written_applies :: "cedar_api \<Rightarrow> cvalue strmap \<Rightarrow> string \<Rightarrow> string \<Rightarrow> string \<Rightarrow> json strmap \<Rightarrow> bool" where
  "written_applies C c a x acct st \<longleftrightarrow> written_action st a \<and> written_resource C st x acct \<and>
     (\<forall>e \<in> set (authored_conditions st). entry_holds C c e)"

text \<open>
  Where the single-character wildcard is compiled safely. An Allow keeps it as a character, which is
  narrower where it grants and wider where it excepts; a Deny reads it as a star in resources only.
\<close>

definition no_question :: "string \<Rightarrow> bool" where
  "no_question p \<longleftrightarrow> CHR ''?'' \<notin> set p"

definition question_marks_safe :: "cedar_api \<Rightarrow> string \<Rightarrow> json strmap \<Rightarrow> bool" where
  "question_marks_safe C effect st =
     (if effect = Allow then
        list_all no_question (awsList (field st ''NotAction'')) \<and>
        list_all (\<lambda>arn. no_question (fst (mapResource C arn))) (awsList (field st ''NotResource'')) \<and>
        list_all (\<lambda>arn. no_question (snd (mapResource C arn))) (resource_arns st)
      else
        list_all no_question (awsList (field st ''Action'')) \<and>
        list_all (\<lambda>arn. whole_bucket (fst (mapResource C arn)) \<longrightarrow> no_question (fst (mapResource C arn))) (resource_arns st))"

text \<open>No exception of a Deny that names an account meets a resource kept as its ARN.\<close>

definition exceptions_typed :: "cedar_api \<Rightarrow> json strmap \<Rightarrow> string \<Rightarrow> bool" where
  "exceptions_typed C st x =
     list_all (\<lambda>arn. snd (mapResource C arn) = [] \<or> \<not> wmatch False (rawARNPrefix @ arn) x) (awsList (field st ''NotResource''))"

lemma wmatch_weaken: "wmatch False p s \<Longrightarrow> wmatch True p s"
proof (induction p arbitrary: s)
  case (Cons a p)
  then show ?case by (cases "a = CHR ''*''") (auto simp: wmatch_star_iff wmatch_char_iff)
qed simp

lemma wmatch_no_question: "no_question p \<Longrightarrow> wmatch q p s \<longleftrightarrow> wmatch False p s"
proof (induction p arbitrary: s)
  case (Cons a p)
  then show ?case by (cases "a = CHR ''*''") (auto simp: wmatch_star_iff wmatch_char_iff no_question_def)
qed simp

lemma wmatch_question_to_star: "wmatch True p s \<Longrightarrow> wmatch False (question_to_star p) s"
proof (induction p arbitrary: s)
  case (Cons a p)
  show ?case
  proof (cases "a = CHR ''*''")
    case True
    then obtain u v where "s = u @ v" "wmatch True p v" using Cons.prems by (auto simp: wmatch_star_iff)
    then show ?thesis using Cons.IH True by (auto simp: question_to_star_def wmatch_star_iff)
  next
    case False
    then obtain c cs where s: "s = c # cs" "a = c \<or> a = CHR ''?''" "wmatch True p cs" using Cons.prems by (auto simp: wmatch_char_iff)
    have "wmatch False (CHR ''*'' # question_to_star p) ([c] @ cs)"
      unfolding wmatch_star_iff using Cons.IH [OF s(3)] by blast
    then show ?thesis using False s Cons.IH [OF s(3)] by (auto simp: question_to_star_def wmatch_char_iff)
  qed
qed (simp add: question_to_star_def)

lemma question_to_star_id: "no_question p \<Longrightarrow> question_to_star p = p"
  by (induction p) (auto simp: question_to_star_def no_question_def)

lemma import_condition_of:
  assumes "import_condition C effect (JObj m) = Inr cs"
  shows "importCondition C m = Inr cs"
proof -
  let ?st = "[(''Effect'', JStr effect), (''Action'', JStr ''*''), (''Resource'', JStr ''*''), (''Condition'', JObj m)]"
  have "ImportAWS C (Some (condition_document effect (JObj m))) = import_statements C 0 [?st]"
    by (simp add: ImportAWS_def condition_document_def List.map_filter_simps)
  then obtain s where s: "import_statement C 0 ?st = Inr ([s], [])" and cs: "cs = \<lparr>eqs = Condition s, ips = IPConditions s,
      likes = LikeConditions s, times = TimeConditions s, keyeds = KeyConditions s\<rparr>"
    using assms by (auto simp: import_condition_def rbind_def split: sum.splits list.splits prod.splits)
  show ?thesis
    using s unfolding cs import_statement_def
    by (auto simp: Let_def condition_of_def lookup_def split: if_splits sum.splits prod.splits)
qed

lemma supported_attrs: "resolveConditionKey key = Some ck \<Longrightarrow> Attr ck \<noteq> resourceAccountKey"
proof -
  assume "resolveConditionKey key = Some ck"
  then have "ck \<in> set SupportedConditionKeys" unfolding resolveConditionKey_def by (metis find_Some_iff nth_mem)
  moreover have "list_all (\<lambda>k. Attr k \<noteq> resourceAccountKey) SupportedConditionKeys" by code_simp
  ultimately show ?thesis by (auto simp: list_all_iff)
qed

lemma import_one_keeps:
  assumes "import_one C oper cs kv = Inr cs'" "lookup (eqs cs) resourceAccountKey = None"
  shows "lookup (eqs cs') resourceAccountKey = None"
proof -
  obtain key v where kv: "kv = (key, v)" by fastforce
  obtain ck val where r: "resolveConditionKey key = Some ck" "singleValue v = Some val"
    using assms(1) by (auto simp: import_one_def kv split: option.splits)
  have "eqs cs' = eqs cs \<or> eqs cs' = put (Attr ck) val (eqs cs)"
  proof (cases "Optional ck")
    case True
    then show ?thesis using assms(1) r by (auto simp: import_one_def kv)
  next
    case False
    then have p: "plainCondition C oper key ck val cs = Inr cs'" using assms(1) r by (auto simp: import_one_def kv)
    show ?thesis
    proof (cases "oper = ''Bool'' \<or> oper = ''StringEquals''")
      case True
      then have "cs' = cs\<lparr>eqs := put (Attr ck) val (eqs cs)\<rparr>" using p by (auto simp: plainCondition_def split: if_splits)
      then show ?thesis by simp
    next
      case False
      then show ?thesis using plain_other(2) [OF p] by simp
    qed
  qed
  then show ?thesis using supported_attrs [OF r(1)] assms(2) by auto
qed

lemma importCondition_no_account: "importCondition C m = Inr cs \<Longrightarrow> lookup (eqs cs) resourceAccountKey = None"
proof -
  assume "importCondition C m = Inr cs"
  note importCondition_flat [OF this]
  moreover have "rfold (\<lambda>cs (oper, kv). import_one C oper cs kv) b es = Inr cs \<Longrightarrow> lookup (eqs b) resourceAccountKey = None \<Longrightarrow>
      lookup (eqs cs) resourceAccountKey = None" for b es
    by (induction es arbitrary: b) (auto split: prod.splits dest: import_one_keeps)
  ultimately show ?thesis by (simp add: no_conds_def)
qed

lemma conditions_of_holds:
  assumes "conditions_of C effect st = Inr (cs, ns)" "\<forall>e \<in> set (authored_conditions st). proper_entry e"
    and "distinct (List.map_filter equality_attr (authored_conditions st))"
  shows "lookup (eqs cs) resourceAccountKey = None"
    and "(\<forall>e \<in> set (authored_conditions st). entry_holds C c e) \<Longrightarrow> conds_hold C c cs"
    and "effect = Allow \<Longrightarrow> conds_hold C c cs \<Longrightarrow> \<forall>e \<in> set (authored_conditions st). entry_holds C c e"
proof -
  have none: "conds_hold C c no_conds" "lookup (eqs no_conds) resourceAccountKey = None"
    by (simp_all add: conds_hold_def no_conds_def)
  have "lookup (eqs cs) resourceAccountKey = None \<and>
      ((\<forall>e \<in> set (authored_conditions st). entry_holds C c e) \<longrightarrow> conds_hold C c cs) \<and>
      (effect = Allow \<longrightarrow> conds_hold C c cs \<longrightarrow> (\<forall>e \<in> set (authored_conditions st). entry_holds C c e))"
  proof (cases "lookup st ''Condition''")
    case None
    then show ?thesis using assms(1) none by (simp add: conditions_of_def authored_conditions_def)
  next
    case (Some v)
    show ?thesis
    proof (cases "import_condition C effect v")
      case (Inl why)
      then show ?thesis using assms(1) none Some by (auto simp: conditions_of_def split: if_splits)
    next
      case (Inr cs')
      then obtain m where v: "v = JObj m" "import_condition C effect (JObj m) = Inr cs'"
        by (cases v) (auto simp: import_condition_def)
      then have "cs = cs'" "importCondition C m = Inr cs'" using assms(1) Some import_condition_of by (auto simp: conditions_of_def)
      moreover from this have "condition_of C 0 st = Inr cs" using Some v(1) by (simp add: condition_of_def)
      ultimately show ?thesis
        using condition_of_holds [of C 0 st cs c, OF _ assms(2,3)] importCondition_no_account [of C m cs] by simp
    qed
  qed
  then show "lookup (eqs cs) resourceAccountKey = None"
    "(\<forall>e \<in> set (authored_conditions st). entry_holds C c e) \<Longrightarrow> conds_hold C c cs"
    "effect = Allow \<Longrightarrow> conds_hold C c cs \<Longrightarrow> \<forall>e \<in> set (authored_conditions st). entry_holds C c e" by blast+
qed

lemma set_put_entry: "(k', v') \<in> set (put k v m) \<Longrightarrow> k' = k \<and> v' = v \<or> (k', v') \<in> set m"
  by (induction k v m rule: put.induct) (auto split: if_splits)

lemma slice_at_in: "t \<in> set (slice_at m k) \<Longrightarrow> \<exists>ts. (k, ts) \<in> set m \<and> t \<in> set ts"
  by (auto simp: slice_at_def lookup_def split: option.splits dest: map_of_SomeD [OF sym])

lemma by_account_snoc:
  "by_account C (arns @ [arn]) = (case mapResource C arn of (t, a) \<Rightarrow> put a (slice_at (by_account C arns) a @ [t]) (by_account C arns))"
  by (simp add: by_account_def)

lemma by_account_sound: "(a, ts) \<in> set (by_account C arns) \<Longrightarrow> t \<in> set ts \<Longrightarrow> \<exists>arn \<in> set arns. mapResource C arn = (t, a)"
proof (induction arns arbitrary: a ts t rule: rev_induct)
  case (snoc arn arns)
  obtain t' a' where m: "mapResource C arn = (t', a')" by fastforce
  show ?case using snoc.prems(2) set_put_entry [OF snoc.prems(1) [unfolded by_account_snoc m prod.case]] slice_at_in snoc.IH m by fastforce
qed (simp add: by_account_def)

lemma by_account_nonempty: "(a, ts) \<in> set (by_account C arns) \<Longrightarrow> ts \<noteq> []"
proof (induction arns arbitrary: a ts rule: rev_induct)
  case (snoc arn arns)
  then show ?case by (auto simp: by_account_snoc split: prod.splits dest!: set_put_entry)
qed (simp add: by_account_def)

lemma by_account_complete:
  assumes "arn \<in> set arns" "mapResource C arn = (t, a)"
  shows "\<exists>ts. (a, ts) \<in> set (by_account C arns) \<and> t \<in> set ts"
proof -
  have "t \<in> set (slice_at (by_account C arns) a)"
    using assms by (induction arns rule: rev_induct) (auto simp: by_account_snoc split: prod.splits)
  then show ?thesis by (rule slice_at_in)
qed

lemma wmatch_self: "no_question a \<Longrightarrow> CHR ''*'' \<notin> set a \<Longrightarrow> wmatch True a s \<longleftrightarrow> s = a"
  by (simp add: wmatch_no_question [of a True] wmatch_starfree)

lemma question_to_star_question: "CHR ''*'' \<in> set a \<or> CHR ''?'' \<in> set a \<longleftrightarrow> \<not> (CHR ''*'' \<notin> set a \<and> no_question a)"
  by (auto simp: no_question_def)

lemma account_statement_parts:
  "Effect (account_statement b (a, ts)) = Effect b" "Actions (account_statement b (a, ts)) = Actions b"
  "NotActions (account_statement b (a, ts)) = NotActions b" "NotResources (account_statement b (a, ts)) = NotResources b"
  "Resources (account_statement b (a, ts)) = (if Effect b = Deny then map question_to_star ts else ts)"
  "KeyConditions (account_statement b (a, ts)) = KeyConditions b"
  by (simp_all add: account_statement_def Let_def)

lemma account_statement_conditions:
  assumes "lookup (Condition b) resourceAccountKey = None" "lookup c resourceAccountKey = Some (CStr acct)"
    and "acct \<noteq> ''true''" "acct \<noteq> ''false''"
  shows "conditions_hold C c (account_statement b (a, ts)) \<longleftrightarrow> conditions_hold C c b \<and> (a = [] \<or> wmatch False (question_to_star a) acct)"
proof (cases "a = [] \<or> \<not> (CHR ''*'' \<notin> set a \<and> no_question a)")
  case True
  have "k \<noteq> resourceAccountKey" if "(k, v) \<in> set (Condition b)" for k v
    using assms(1) that by (auto simp: lookup_None_iff rev_image_eqI)
  then have "filter (\<lambda>(k, _). k \<noteq> resourceAccountKey) (Condition b) = Condition b" by (auto simp: filter_id_conv)
  moreover have "like_holds c \<lparr>lcKey = resourceAccountKey, lcPattern = p, lcNegate = False\<rparr> \<longleftrightarrow> wmatch False p acct" for p
    using assms(2) by (simp add: like_holds_def is_text_def)
  ultimately show ?thesis using True unfolding account_statement_def Let_def question_to_star_question
    by (auto simp: conditions_hold_def)
next
  case False
  then have "equals_holds c (resourceAccountKey, a) \<longleftrightarrow> a = acct"
    using assms(2-4) by (auto simp: equals_holds_def)
  moreover have "wmatch False (question_to_star a) acct \<longleftrightarrow> a = acct"
    using False by (auto simp: question_to_star_id wmatch_starfree)
  ultimately show ?thesis using False set_put_fresh [OF assms(1)] unfolding account_statement_def Let_def question_to_star_question
    by (auto simp: conditions_hold_def)
qed

lemma actions_of_scope:
  assumes "actions_of effect st = (acts, nacts)" "\<not> (acts = [] \<and> nacts = [])"
  shows "effect = Allow \<Longrightarrow> list_all no_question (awsList (field st ''NotAction'')) \<Longrightarrow>
      in_scope False acts nacts a \<Longrightarrow> written_action st a"
    and "effect = Deny \<Longrightarrow> list_all no_question (awsList (field st ''Action'')) \<Longrightarrow>
      written_action st a \<Longrightarrow> in_scope False acts nacts a"
proof -
  have star: "wmatch False ''*'' a" by (simp add: wmatch_star_iff)
  have plain: "list_all no_question l \<Longrightarrow> (\<exists>p \<in> set l. wmatch True p a) \<longleftrightarrow> (\<exists>p \<in> set l. wmatch False p a)" for l
    using wmatch_no_question [of _ True a] by (auto simp: list_all_iff)
  have reserved: "set l \<subseteq> set (reserveOperator l)" "l \<noteq> [] \<Longrightarrow> reserveOperator l \<noteq> []" for l by (auto simp: reserveOperator_def)
  show "written_action st a" if h: "effect = Allow" "list_all no_question (awsList (field st ''NotAction''))" "in_scope False acts nacts a"
  proof (cases "lookup st ''NotAction''")
    case None
    then show ?thesis using assms h(3) wmatch_weaken [of _ a]
      by (auto simp: actions_of_def written_action_def in_scope_def entry_names_def)
  next
    case (Some v)
    show ?thesis
    proof (cases "awsList v = []")
      case False
      then have "nacts = reserveOperator (awsList v)" using assms(1) Some h(1) by (auto simp: actions_of_def)
      then have "\<not> (\<exists>p \<in> set (awsList v). wmatch False p a)"
        using h(3) reserved [of "awsList v"] False by (auto simp: in_scope_def entry_names_def)
      then show ?thesis using plain [of "awsList v"] h(2) Some by (simp add: written_action_def field_def)
    qed (simp add: written_action_def Some)
  qed
  show "in_scope False acts nacts a" if h: "effect = Deny" "list_all no_question (awsList (field st ''Action''))" "written_action st a"
  proof (cases "lookup st ''NotAction''")
    case None
    then show ?thesis using assms h(3) plain [OF h(2)] by (auto simp: actions_of_def written_action_def in_scope_def entry_names_def)
  next
    case (Some v)
    have "\<not> (\<exists>p \<in> set (awsList v). wmatch False p a)" using h(3) wmatch_weaken Some by (auto simp: written_action_def)
    then show ?thesis using assms(1) Some star h(1)
      by (cases "awsList v = []") (auto simp: actions_of_def in_scope_def entry_names_def Allow_def Deny_def)
  qed
qed

lemma excluded_scope:
  assumes "l \<noteq> []"
  shows "effect = Allow \<Longrightarrow> list_all (\<lambda>arn. no_question (fst (mapResource C arn))) l \<Longrightarrow>
      in_scope True [] (map (excluded_resource C effect) l) x \<Longrightarrow> \<not> (\<exists>arn \<in> set l. arn_covers C arn x acct)"
    and "effect = Deny \<Longrightarrow> list_all (\<lambda>arn. snd (mapResource C arn) = [] \<or> \<not> wmatch False (rawARNPrefix @ arn) x) l \<Longrightarrow>
      \<not> (\<exists>arn \<in> set l. arn_covers C arn x acct) \<Longrightarrow> in_scope True [] (map (excluded_resource C effect) l) x"
proof -
  have raw: "\<not> whole_bucket (rawARNPrefix @ arn)" for arn
    by (simp add: whole_bucket_def rawARNPrefix_def has_prefix_def)
  show "\<not> (\<exists>arn \<in> set l. arn_covers C arn x acct)"
    if "effect = Allow" "list_all (\<lambda>arn. no_question (fst (mapResource C arn))) l" "in_scope True [] (map (excluded_resource C effect) l) x"
    using that assms wmatch_no_question [of _ True x]
    by (auto simp: in_scope_def entry_names_def excluded_resource_def arn_covers_def list_all_iff split: prod.splits)
       (metis fst_conv)+
  show "in_scope True [] (map (excluded_resource C effect) l) x"
    if "effect = Deny" "list_all (\<lambda>arn. snd (mapResource C arn) = [] \<or> \<not> wmatch False (rawARNPrefix @ arn) x) l"
      "\<not> (\<exists>arn \<in> set l. arn_covers C arn x acct)"
    using that raw wmatch_weaken [of _ x]
    by (auto simp: in_scope_def entry_names_def excluded_resource_def arn_covers_def list_all_iff split: prod.splits if_splits)
qed

lemma scoped_narrow:
  assumes "Effect b = Allow" "Resources b = []" "NotResources b = []" "lookup (Condition b) resourceAccountKey = None"
    and "question_marks_safe C Allow st" "lookup c resourceAccountKey = Some (CStr acct)" "acct \<noteq> ''true''" "acct \<noteq> ''false''"
    and "s \<in> set (scoped_statements C st b)" "st_applies C c a x s"
  shows "in_scope False (Actions b) (NotActions b) a \<and> written_resource C st x acct \<and> conditions_hold C c b \<and>
    (\<forall>kc \<in> set (KeyConditions b). key_holds c kc)"
proof (cases "lookup st ''NotResource''")
  case (Some v)
  show ?thesis
  proof (cases "awsList v = []")
    case True
    then show ?thesis using assms(1,9,10) Some
      by (auto simp: scoped_statements_def st_applies_def written_resource_def conditions_hold_def Allow_def Deny_def)
  next
    case False
    then have s: "s = b\<lparr>NotResources := map (excluded_resource C Allow) (awsList v)\<rparr>"
      using assms(1,9) Some by (simp add: scoped_statements_def)
    then have "in_scope True [] (map (excluded_resource C Allow) (awsList v)) x"
      using assms(2,10) by (simp add: st_applies_def)
    then have "written_resource C st x acct"
      using excluded_scope(1) [OF False refl] assms(5) Some
      by (simp add: written_resource_def question_marks_safe_def field_def)
    then show ?thesis using assms(1,10) by (auto simp: s st_applies_def conditions_hold_def)
  qed
next
  case None
  then obtain a' ts where s: "s = account_statement b (a', ts)" "(a', ts) \<in> set (by_account C (resource_arns st))"
    using assms(9) by (auto simp: scoped_statements_def)
  note cond = account_statement_conditions [OF assms(4,6-8)]
  have ne: "ts \<noteq> []" using by_account_nonempty [OF s(2)] .
  then obtain t where t: "t \<in> set ts" "entry_names True t x"
    using assms(1,3,10) by (auto simp: s(1) st_applies_def account_statement_parts in_scope_def)
  obtain arn where arn: "arn \<in> set (resource_arns st)" "mapResource C arn = (t, a')" using by_account_sound [OF s(2) t(1)] by blast
  have q: "no_question a'" using assms(5) arn by (auto simp: question_marks_safe_def list_all_iff)
  have "conditions_hold C c b \<and> (a' = [] \<or> wmatch False a' acct)"
    using assms(1,10) cond by (auto simp: s(1) st_applies_def account_statement_parts question_to_star_id [OF q])
  moreover from this have "arn_covers C arn x acct"
    using t(2) arn(2) wmatch_weaken by (auto simp: arn_covers_def entry_names_def)
  ultimately show ?thesis using assms(10) arn(1) None by (auto simp: s(1) st_applies_def account_statement_parts written_resource_def)
qed

lemma scoped_wide:
  assumes "Effect b = Deny" "Resources b = []" "NotResources b = []" "lookup (Condition b) resourceAccountKey = None"
    and "question_marks_safe C Deny st" "exceptions_typed C st x"
    and "lookup c resourceAccountKey = Some (CStr acct)" "acct \<noteq> ''true''" "acct \<noteq> ''false''"
    and "in_scope False (Actions b) (NotActions b) a" "written_resource C st x acct" "conditions_hold C c b"
    and "\<forall>kc \<in> set (KeyConditions b). key_holds c kc"
  shows "\<exists>s \<in> set (scoped_statements C st b). st_applies C c a x s"
proof (cases "lookup st ''NotResource''")
  case (Some v)
  show ?thesis
  proof (cases "awsList v = []")
    case True
    then show ?thesis using assms Some by (auto simp: scoped_statements_def st_applies_def star_in_scope conditions_hold_def)
  next
    case False
    have "in_scope True [] (map (excluded_resource C Deny) (awsList v)) x"
      by (rule excluded_scope(2) [where acct = acct, OF False refl])
        (use assms(6,11) Some in \<open>simp_all add: exceptions_typed_def field_def written_resource_def\<close>)
    then show ?thesis using assms False Some by (simp add: scoped_statements_def st_applies_def conditions_hold_def)
  qed
next
  case None
  obtain arn where arn: "arn \<in> set (resource_arns st)" "arn_covers C arn x acct"
    using assms(11) None by (auto simp: written_resource_def)
  obtain t a' where t: "mapResource C arn = (t, a')" by fastforce
  obtain ts where ts: "(a', ts) \<in> set (by_account C (resource_arns st))" "t \<in> set ts"
    using by_account_complete [OF arn(1) t] by blast
  have "entry_names True (question_to_star t) x"
  proof (cases "wmatch True t x")
    case True
    then show ?thesis using wmatch_question_to_star by (simp add: entry_names_def)
  next
    case False
    then have "whole_bucket t" "has_prefix x (t @ ''/'')" using arn(2) t by (auto simp: arn_covers_def)
    moreover from this have "question_to_star t = t"
      using assms(5) arn(1) t by (auto simp: question_marks_safe_def list_all_iff question_to_star_id Allow_def Deny_def)
    ultimately show ?thesis by (simp add: entry_names_def)
  qed
  then have "in_scope True (map question_to_star ts) [] x" using ts(2) by (auto simp: in_scope_def)
  moreover have "conditions_hold C c (account_statement b (a', ts))"
    using account_statement_conditions [OF assms(4,7-9)] assms(12) arn(2) t wmatch_question_to_star by (auto simp: arn_covers_def)
  ultimately have "st_applies C c a x (account_statement b (a', ts))"
    using assms(1,3,10,13) by (simp add: st_applies_def account_statement_parts)
  then show ?thesis using ts(1) None by (auto simp: scoped_statements_def)
qed


definition deny_orders :: "json strmap" where
  "deny_orders =
     [(''Effect'', JStr ''Deny''), (''Action'', JArr [JStr ''sqs:ReceiveMessage'', JStr ''sqs:Get*'']),
      (''Resource'', JStr ''arn:aws:sqs:us-east-1:111111111111:order?'')]"

definition in_account :: "string \<Rightarrow> cvalue strmap" where
  "in_account a = [(resourceAccountKey, CStr a), (''username'', CStr ''alice'')]"

definition compiled :: "json strmap \<Rightarrow> Statement list" where
  "compiled st = (case compileStatement sample_cedar 0 st of Inr (ss, _) \<Rightarrow> ss | _ \<Rightarrow> [])"


text \<open>
  Elsewhere the wildcard widens: a Deny whose action has one denies nothing, the exception of an Allow
  that has one excepts nothing, and in the account of an Allow's ARN it admits accounts of any length.\<close>

theorem question_mark_widens:
  "written_applies sample_cedar [(resourceAccountKey, CStr ''1'')] ''s3:DeleteObject'' ''Bucket::b/k'' ''1''
      [(''Effect'', JStr ''Deny''), (''Action'', JStr ''s3:Delete?bject'')] \<and>
   \<not> list_ex (st_applies sample_cedar [(resourceAccountKey, CStr ''1'')] ''s3:DeleteObject'' ''Bucket::b/k'')
      (compiled [(''Effect'', JStr ''Deny''), (''Action'', JStr ''s3:Delete?bject'')]) \<and>
   \<not> written_applies sample_cedar [(resourceAccountKey, CStr ''1'')] ''s3:GetObject'' ''Bucket::vault1'' ''1''
      [(''Effect'', JStr ''Allow''), (''Action'', JStr ''s3:*''), (''NotResource'', JStr ''arn:aws:s3:::vault?'')] \<and>
   list_ex (st_applies sample_cedar [(resourceAccountKey, CStr ''1'')] ''s3:GetObject'' ''Bucket::vault1'')
      (compiled [(''Effect'', JStr ''Allow''), (''Action'', JStr ''s3:*''), (''NotResource'', JStr ''arn:aws:s3:::vault?'')]) \<and>
   \<not> written_applies sample_cedar [(resourceAccountKey, CStr ''123'')] ''sqs:SendMessage'' ''Queue::q'' ''123''
      [(''Effect'', JStr ''Allow''), (''Action'', JStr ''sqs:*''), (''Resource'', JStr ''arn:aws:sqs:us-east-1:1?:q'')] \<and>
   list_ex (st_applies sample_cedar [(resourceAccountKey, CStr ''123'')] ''sqs:SendMessage'' ''Queue::q'')
      (compiled [(''Effect'', JStr ''Allow''), (''Action'', JStr ''sqs:*''), (''Resource'', JStr ''arn:aws:sqs:us-east-1:1?:q'')])"
  by (intro conjI) code_simp+

subsection \<open>Trust policies are enforced\<close>

context cedar
begin

lemma trust_loop_says:
  "\<forall>rs \<in> set rss. well_typed C (rContext r) (rsStatement rs) \<Longrightarrow>
     trust_loop C p r rss allowed = TrustAllowed \<longleftrightarrow>
     resource_clear C p r rss \<and> (allowed \<or> (\<exists>h. h \<noteq> NotNamed \<and> resource_grants C p r rss h))"
proof (induction rss arbitrary: allowed)
  case (Cons rs rss)
  show ?case
  proof (cases "appliesToPrincipal rs p = NotNamed")
    case True
    then show ?thesis using Cons by (auto simp: resource_clear_def resource_grants_def)
  next
    case named: False
    show ?thesis
    proof (cases "NewEngine C [rsStatement rs]")
      case (Inr e)
      have d: "ExplicitDeny (Authorize C e r) \<longleftrightarrow> says C r [rsStatement rs] Deny"
          "Allowed (Authorize C e r) \<longleftrightarrow> says C r [rsStatement rs] Allow \<and> \<not> says C r [rsStatement rs] Deny"
        using new_engine_decides [OF Inr, of r] Cons.prems by simp_all
      have "clear C r [rsStatement rs] \<longleftrightarrow> \<not> says C r [rsStatement rs] Deny" using Inr by (simp add: clear_def)
      then show ?thesis using Cons named Inr
        by (cases "says C r [rsStatement rs] Deny") (auto simp: d resource_clear_def resource_grants_def)
    qed (use named in \<open>simp add: resource_clear_def clear_def\<close>)
  qed
qed (simp add: resource_clear_def resource_grants_def)

end

text \<open>
  C15. A role's trust policy that has a condition lets a principal assume the role exactly when a statement
  that names the principal allows it, with its conditions met, and none that names it denies it or fails to
  compile; a trust policy that does not parse lets nobody.\<close>

theorem trust_policy_decides:
  assumes "cedar C" and "documentStatements doc = Inr raw" and "\<exists>st \<in> set raw. lookup st ''Condition'' \<noteq> None"
    and "r = trust_request C p action roleARN ctx"
    and "\<And>stmts notes rs. ParseResourcePolicy C doc = Inr (stmts, notes) \<Longrightarrow> rs \<in> set stmts \<Longrightarrow>
      well_typed C (rContext r) (rsStatement rs)"
  shows "AuthorizeTrust C doc p action roleARN ctx = TrustAllowed \<longleftrightarrow>
    (case ParseResourcePolicy C doc of
       Inl _ \<Rightarrow> False
     | Inr (stmts, _) \<Rightarrow> resource_clear C p r stmts \<and> (\<exists>h. h \<noteq> NotNamed \<and> resource_grants C p r stmts h))"
proof (cases "ParseResourcePolicy C doc")
  case (Inr sn)
  obtain stmts notes' where sn: "sn = (stmts, notes')" by fastforce
  have "list_ex (\<lambda>st. lookup st ''Condition'' \<noteq> None) raw" using assms(3) by (auto simp: list_ex_iff)
  then have "AuthorizeTrust C doc p action roleARN ctx = trust_loop C p r stmts False"
    by (simp add: AuthorizeTrust_def assms(2,4) Inr sn)
  moreover have "\<forall>rs \<in> set stmts. well_typed C (rContext r) (rsStatement rs)" using assms(5) [OF Inr [unfolded sn]] by blast
  ultimately show ?thesis using cedar.trust_loop_says [OF assms(1)] Inr sn by simp
qed (use assms(3) in \<open>auto simp: AuthorizeTrust_def assms(2) list_ex_iff split: if_splits\<close>)

definition mfa :: json where
  "mfa = JObj [(''Bool'', JObj [(''aws:MultiFactorAuthPresent'', JStr ''true'')])]"

definition trust_statement :: "string \<Rightarrow> string \<Rightarrow> json strmap" where
  "trust_statement effect name = [(''Effect'', JStr effect), (''Action'', JStr ''sts:AssumeRole''),
     (''Principal'', JObj [(''AWS'', JStr name)])]"

definition sample_trust :: json where
  "sample_trust = JObj [(''Statement'', JArr [JObj (trust_statement ''Allow'' ''111111111111'' @ [(''Condition'', mfa)])])]"

definition sample_role :: string where "sample_role = ''arn:aws:iam::111111111111:role/deploy''"

definition with_mfa :: "attribute strmap" where "with_mfa = [(''multiFactorAuthPresent'', Flag True)]"

theorem trust_policy_decides_witness:
  "AuthorizeTrust sample_cedar (Some sample_trust) sample_bob ''sts:AssumeRole'' sample_role with_mfa = TrustAllowed \<and>
   (case ParseResourcePolicy sample_cedar (Some sample_trust) of
      Inl _ \<Rightarrow> False
    | Inr (stmts, _) \<Rightarrow> \<exists>h. h \<noteq> NotNamed \<and>
        resource_grants sample_cedar sample_bob (trust_request sample_cedar sample_bob ''sts:AssumeRole'' sample_role with_mfa) stmts h)"
proof -
  let ?raw = "[trust_statement ''Allow'' ''111111111111'' @ [(''Condition'', mfa)]]"
  let ?r = "trust_request sample_cedar sample_bob ''sts:AssumeRole'' sample_role with_mfa"
  have c: "cedar sample_cedar" unfolding sample_cedar_def by (rule standard.cedar_axioms)
  have raw: "documentStatements (Some sample_trust) = Inr ?raw" by code_simp
  have "list_ex (\<lambda>st. lookup st ''Condition'' \<noteq> None) ?raw" by code_simp
  then have cond: "\<exists>st \<in> set ?raw. lookup st ''Condition'' \<noteq> None" by (simp add: list_ex_iff)
  have wt: "well_typed sample_cedar (rContext ?r) (rsStatement rs)"
    if "ParseResourcePolicy sample_cedar (Some sample_trust) = Inr (stmts, ns)" "rs \<in> set stmts" for stmts ns rs
  proof -
    have p: "ParseResourcePolicy sample_cedar (Some sample_trust) = Inr ([\<lparr>rsStatement = empty_statement\<lparr>Actions := [''sts:AssumeRole''],
        Resources := [''*''], KeyConditions := [\<lparr>kcKey = ''multiFactorAuthPresent'', kcOp = ''=='', kcValue = ''true'', kcIfExists = False\<rparr>]\<rparr>,
        rsPrincipals = [''arn:aws:iam::111111111111:root''], rsNotPrincipals = []\<rparr>], [])" by code_simp
    have k: "lookup (cedar_context (rContext ?r)) ''multiFactorAuthPresent'' = Some (CBool True)" by code_simp
    show ?thesis using that p k by (auto simp: well_typed_def literals_parse_def empty_statement_def kc_kind_def has_kind_def)
  qed
  have "AuthorizeTrust sample_cedar (Some sample_trust) sample_bob ''sts:AssumeRole'' sample_role with_mfa = TrustAllowed" by code_simp
  then show ?thesis
    using trust_policy_decides [OF c raw cond refl wt] by (auto split: sum.splits)
qed

text \<open>
  A Deny of a trust policy counts only when some statement of the document has a condition; the list of
  trusted principals the front doors keep beside it holds what the Allow statements name.\<close>

theorem unconditioned_trust_deny_ignored:
  "AuthorizeTrust sample_cedar (Some (JObj [(''Statement'', JArr [JObj (trust_statement ''Allow'' ''*''),
       JObj (trust_statement ''Deny'' (ARN sample_bob))])])) sample_bob ''sts:AssumeRole'' sample_role [] = TrustAllowed \<and>
   AuthorizeTrust sample_cedar (Some (JObj [(''Statement'', JArr [JObj (trust_statement ''Allow'' ''*'' @ [(''Condition'', JObj [])]),
       JObj (trust_statement ''Deny'' (ARN sample_bob))])])) sample_bob ''sts:AssumeRole'' sample_role [] = TrustDenied"
  by (intro conjI) code_simp+

end
