(* ===== verification/IamLoader.thy ===== *)
theory IamLoader
  imports IamDocument
begin

text \<open>
  The loader of the policy world, \<^verbatim>\<open>console-api/internal/iamauthz/k8s.go\<close>: what the objects of the cluster
  (policies, roles, users, groups and grants) say, read into a \<open>World\<close>.

  The lists the API server answers, the decoder of JSON text, the text of a number
  (\<^verbatim>\<open>strconv.FormatFloat\<close>, \<^verbatim>\<open>FormatInt\<close>), the parser of times and the clock are arguments. What compiling
  a policy reports is returned beside it; no decision reads it.
\<close>

subsection \<open>Native statements\<close>

fun toSlice :: "json \<Rightarrow> json list" where
  "toSlice (JArr vs) = vs"
| "toSlice _ = []"

definition toStrings :: "json \<Rightarrow> string list" where
  "toStrings v = List.map_filter (\<lambda>it. case it of JStr s \<Rightarrow> Some s | _ \<Rightarrow> None) (toSlice v)"

fun object_or_nil :: "json \<Rightarrow> json strmap" where
  "object_or_nil (JObj m) = m"
| "object_or_nil _ = []"

fun true_flag :: "json \<Rightarrow> bool" where
  "true_flag (JBool b) = b"
| "true_flag _ = False"

definition toStringMap :: "json \<Rightarrow> string strmap" where
  "toStringMap v = List.map_filter (\<lambda>(k, x).
     case x of JStr s \<Rightarrow> Some (k, s) | JBool b \<Rightarrow> Some (k, if b then ''true'' else ''false'') | _ \<Rightarrow> None) (object_or_nil v)"

definition ToIPConditions :: "json \<Rightarrow> IPCondition list" where
  "ToIPConditions v = List.map_filter (\<lambda>it.
     case it of
       JObj m \<Rightarrow>
         let key = str_or_empty (field m ''key''); cidr = str_or_empty (field m ''cidr'')
         in if key = [] \<or> cidr = [] then None
            else Some \<lparr>ipKey = key, ipCIDR = cidr, ipNegate = true_flag (field m ''negate'')\<rparr>
     | _ \<Rightarrow> None) (toSlice v)"

definition ToLikeConditions :: "json \<Rightarrow> LikeCondition list" where
  "ToLikeConditions v = List.map_filter (\<lambda>it.
     case it of
       JObj m \<Rightarrow>
         let key = str_or_empty (field m ''key''); pat = str_or_empty (field m ''pattern'')
         in if key = [] \<or> pat = [] then None
            else Some \<lparr>lcKey = key, lcPattern = pat, lcNegate = true_flag (field m ''negate'')\<rparr>
     | _ \<Rightarrow> None) (toSlice v)"

definition ToTimeConditions :: "json \<Rightarrow> TimeCondition list" where
  "ToTimeConditions v = List.map_filter (\<lambda>it.
     case it of
       JObj m \<Rightarrow>
         let key = str_or_empty (field m ''key''); oper = str_or_empty (field m ''op''); target = str_or_empty (field m ''target'')
         in if key = [] \<or> oper = [] \<or> target = [] then None else Some \<lparr>tcKey = key, tcOp = oper, tcTarget = target\<rparr>
     | _ \<Rightarrow> None) (toSlice v)"

fun value_text :: "(rat \<Rightarrow> string) \<Rightarrow> json \<Rightarrow> string" where
  "value_text number (JStr s) = s"
| "value_text number (JBool b) = (if b then ''true'' else ''false'')"
| "value_text number (JNum x) = number x"
| "value_text number _ = []"

definition ToKeyConditions :: "(rat \<Rightarrow> string) \<Rightarrow> json \<Rightarrow> KeyCondition list" where
  "ToKeyConditions number v = map (\<lambda>it.
     case it of
       JObj m \<Rightarrow> \<lparr>kcKey = str_or_empty (field m ''key''), kcOp = str_or_empty (field m ''op''),
         kcValue = value_text number (field m ''value''), kcIfExists = true_flag (field m ''ifExists'')\<rparr>
     | _ \<Rightarrow> \<lparr>kcKey = [], kcOp = [], kcValue = [], kcIfExists = False\<rparr>) (toSlice v)"

definition native_statement :: "(rat \<Rightarrow> string) \<Rightarrow> json strmap \<Rightarrow> Statement" where
  "native_statement number sm =
     (let effect = str_or_empty (field sm ''effect''); nacts = toStrings (field sm ''notActions'')
      in \<lparr>Effect = effect, Actions = toStrings (field sm ''actions''),
          NotActions = (if nacts \<noteq> [] \<and> effect = Allow then reserveOperator nacts else nacts),
          Resources = toStrings (field sm ''resources''), NotResources = toStrings (field sm ''notResources''),
          Condition = toStringMap (field sm ''condition''), IPConditions = ToIPConditions (field sm ''ipConditions''),
          LikeConditions = ToLikeConditions (field sm ''likeConditions''),
          TimeConditions = ToTimeConditions (field sm ''timeConditions''),
          KeyConditions = ToKeyConditions number (field sm ''keyConditions'')\<rparr>)"

definition StatementsFromSpec :: "(rat \<Rightarrow> string) \<Rightarrow> json \<Rightarrow> Statement list" where
  "StatementsFromSpec number v =
     List.map_filter (\<lambda>s. case s of JObj sm \<Rightarrow> Some (native_statement number sm) | _ \<Rightarrow> None) (toSlice v)"

subsection \<open>Objects\<close>

record KObject =
  koNamespace :: string
  koName :: string
  koLabels :: "string strmap"
  koSpec :: json

record cluster =
  clDecode :: "string \<Rightarrow> json option"
  clNumber :: "rat \<Rightarrow> string"
  clRFC3339 :: "string \<Rightarrow> int option"
  clCedar :: cedar_api

text \<open>
  The document of a policy, None when there is none. An object is encoded and decoded again, which gives
  it back.
\<close>

fun documentText :: "(string \<Rightarrow> json option) \<Rightarrow> json \<Rightarrow> json option option" where
  "documentText decode (JStr s) = (if s = [] then None else Some (decode s))"
| "documentText decode (JObj m) = Some (Some (JObj m))"
| "documentText decode _ = None"

datatype load_note =
    DoesNotCompile doc_error
  | DocumentNote nat doc_note

definition load_policy :: "cluster \<Rightarrow> string \<Rightarrow> KObject \<Rightarrow> Policy \<times> load_note list" where
  "load_policy K home obj =
     (let spec = object_or_nil (koSpec obj); ns = koNamespace obj;
          (stmts, report) =
            (case documentText (clDecode K) (field spec ''document'') of
               None \<Rightarrow> ([], [])
             | Some doc \<Rightarrow>
                 (case CompileDocument (clCedar K) doc of
                    Inl e \<Rightarrow> ([], [DoesNotCompile e])
                  | Inr (ss, rep) \<Rightarrow> (ss, map (\<lambda>(i, n). DocumentNote i n) rep)));
          (applies, native) =
            (case field spec ''dataPlane'' of
               JObj dp \<Rightarrow> (CanonAppliesTo home ns (toStrings (field dp ''appliesTo'')),
                           StatementsFromSpec (clNumber K) (field dp ''statements''))
             | _ \<Rightarrow> ([], []))
      in (\<lparr>pName = QualifiedName home ns (koName obj), pARN = str_or_empty (field spec ''arn''),
           pStatements = stmts @ native, pAppliesTo = applies, pReport = []\<rparr>, report))"

definition unresolvableBoundary :: string where "unresolvableBoundary = CHR 0x00 # ''unresolvable''"

definition object_ns :: "string \<Rightarrow> KObject \<Rightarrow> string" where
  "object_ns home obj = (if koNamespace obj = [] then home else koNamespace obj)"

definition inline_of :: "cluster \<Rightarrow> json \<Rightarrow> Policy option" where
  "inline_of K it =
     (case it of
        JObj m \<Rightarrow>
          (case CompileDocument (clCedar K) (case documentText (clDecode K) (field m ''document'') of None \<Rightarrow> None | Some d \<Rightarrow> d) of
             Inr (ss, rep) \<Rightarrow> if ss = [] then None else Some (no_policy\<lparr>pName := str_or_empty (field m ''name''), pStatements := ss\<rparr>)
           | Inl e \<Rightarrow> None)
      | _ \<Rightarrow> None)"

definition principal_key :: "string \<Rightarrow> string \<Rightarrow> KObject \<Rightarrow> string" where
  "principal_key home kd obj = kd @ ''::'' @ QualifiedName home (object_ns home obj) (koName obj)"

definition CanaryLabel :: string where "CanaryLabel = ''openinfra.dev/iam-authz''"
definition CanaryEnforce :: string where "CanaryEnforce = ''enforce''"

definition attach_policies :: "string \<Rightarrow> (string \<Rightarrow> bool) \<Rightarrow> KObject \<Rightarrow> string \<Rightarrow> World \<Rightarrow> World" where
  "attach_policies home defined obj key w =
     (let refs = filter (\<lambda>n. n \<noteq> []) (map (\<lambda>ref. ResolvePolicyRef home (object_ns home obj) ref defined)
          (toStrings (field (object_or_nil (koSpec obj)) ''policies'')))
      in if refs = [] then w else w\<lparr>Attach := put key refs (Attach w)\<rparr>)"

definition set_boundary :: "string \<Rightarrow> (string \<Rightarrow> bool) \<Rightarrow> KObject \<Rightarrow> string \<Rightarrow> World \<Rightarrow> World" where
  "set_boundary home defined obj key w =
     (let pb = str_or_empty (field (object_or_nil (koSpec obj)) ''permissionBoundary'');
          n = ResolvePolicyRef home (object_ns home obj) pb defined
      in if pb = [] then w else w\<lparr>Boundary := put key (if n \<noteq> [] then n else unresolvableBoundary) (Boundary w)\<rparr>)"

definition add_inline :: "cluster \<Rightarrow> KObject \<Rightarrow> string \<Rightarrow> World \<Rightarrow> World" where
  "add_inline K obj key w =
     (let ins = List.map_filter (inline_of K) (toSlice (field (object_or_nil (koSpec obj)) ''inlinePolicies''))
      in if ins = [] then w else w\<lparr>Inline := put key (slice_at (Inline w) key @ ins) (Inline w)\<rparr>)"

definition set_canary :: "string \<Rightarrow> KObject \<Rightarrow> string \<Rightarrow> World \<Rightarrow> World" where
  "set_canary kd obj key w =
     (if kd \<noteq> ''Group'' \<and> lookup (koLabels obj) CanaryLabel = Some CanaryEnforce
      then w\<lparr>Enforce := put key True (Enforce w)\<rparr> else w)"

definition load_principal :: "cluster \<Rightarrow> string \<Rightarrow> string \<Rightarrow> (string \<Rightarrow> bool) \<Rightarrow> World \<Rightarrow> KObject \<Rightarrow> World" where
  "load_principal K home kd defined w obj =
     (let key = principal_key home kd obj
      in set_canary kd obj key (add_inline K obj key (set_boundary home defined obj key (attach_policies home defined obj key w))))"

definition loadPrincipals ::
  "cluster \<Rightarrow> string \<Rightarrow> string \<Rightarrow> (string \<Rightarrow> bool) \<Rightarrow> KObject list option \<Rightarrow> World \<Rightarrow> World option" where
  "loadPrincipals K home kd defined answer w = map_option (foldl (load_principal K home kd defined) w) answer"

definition GrantSpecOf :: "json strmap \<Rightarrow> GrantSpec" where
  "GrantSpecOf spec =
     (let subject = object_or_nil (field spec ''subject''); approval = object_or_nil (field spec ''approval'')
      in \<lparr>SubjectKind = str_or_empty (field subject ''kind''), SubjectName = str_or_empty (field subject ''name''),
          Policies = toStrings (field spec ''policies''), Duration = str_or_empty (field spec ''duration''),
          RequestedBy = str_or_empty (field spec ''requestedBy''), ApprovedBy = str_or_empty (field approval ''approvedBy''),
          ApprovedAt = str_or_empty (field approval ''approvedAt'')\<rparr>)"

definition grant_object :: "KObject \<Rightarrow> GrantObject" where
  "grant_object obj = \<lparr>gNamespace = koNamespace obj, gName = koName obj, gSpec = GrantSpecOf (object_or_nil (koSpec obj))\<rparr>"

text \<open>
  What the API server answers: None for an error; the grants' list also when the kind is not installed.
\<close>

datatype grants_answer =
    GrantsListed "KObject list"
  | GrantsNotInstalled
  | GrantsFailed

record answers =
  anPolicies :: "KObject list option"
  anRoles :: "KObject list option"
  anUsers :: "KObject list option"
  anGroups :: "KObject list option"
  anGrants :: grants_answer

definition defined_names :: "string \<Rightarrow> KObject list \<Rightarrow> string \<Rightarrow> bool" where
  "defined_names home objs n = list_ex (\<lambda>obj. QualifiedName home (koNamespace obj) (koName obj) = n) objs"

definition load_docs :: "cluster \<Rightarrow> string \<Rightarrow> KObject list \<Rightarrow> Policy list" where
  "load_docs K home objs = filter (\<lambda>d. pStatements d \<noteq> []) (map (\<lambda>obj. fst (load_policy K home obj)) objs)"

definition load_grants :: "cluster \<Rightarrow> string \<Rightarrow> (string \<Rightarrow> bool) \<Rightarrow> int \<Rightarrow> grants_answer \<Rightarrow> World \<Rightarrow> World option" where
  "load_grants K home defined now answer w =
     (case answer of
        GrantsFailed \<Rightarrow> None
      | GrantsNotInstalled \<Rightarrow> Some w
      | GrantsListed objs \<Rightarrow> Some (loadGrants (clRFC3339 K) home defined now (map grant_object objs) w))"

definition K8sLoaderIn :: "cluster \<Rightarrow> string \<Rightarrow> int \<Rightarrow> answers \<Rightarrow> World option" where
  "K8sLoaderIn K home now A =
     Option.bind (anPolicies A) (\<lambda>objs.
       let defined = defined_names home objs; w = empty_world\<lparr>Docs := load_docs K home objs\<rparr>
       in Option.bind (loadPrincipals K home ''Role'' defined (anRoles A) w) (\<lambda>w.
          Option.bind (loadPrincipals K home ''User'' defined (anUsers A) w) (\<lambda>w.
          Option.bind (loadPrincipals K home ''Group'' defined (anGroups A) w)
            (load_grants K home defined now (anGrants A)))))"

subsection \<open>Permission boundaries fail closed\<close>

lemmas load_parts = attach_policies_def set_boundary_def add_inline_def set_canary_def

lemma load_principal_docs [simp]: "Docs (load_principal K home kd defined w obj) = Docs w"
  by (simp add: load_principal_def load_parts Let_def)

lemma load_principal_boundary:
  "Boundary (load_principal K home kd defined w obj) =
     (let pb = str_or_empty (field (object_or_nil (koSpec obj)) ''permissionBoundary'');
          n = ResolvePolicyRef home (object_ns home obj) pb defined
      in if pb = [] then Boundary w
         else put (principal_key home kd obj) (if n \<noteq> [] then n else unresolvableBoundary) (Boundary w))"
  by (simp add: load_principal_def load_parts Let_def)

definition loaded :: "cluster \<Rightarrow> string \<Rightarrow> string \<Rightarrow> (string \<Rightarrow> bool) \<Rightarrow> World \<Rightarrow> KObject list \<Rightarrow> World" where
  "loaded K home kd defined w objs = foldl (load_principal K home kd defined) w objs"

lemma loaded_simps [simp]:
  "loaded K home kd defined w [] = w"
  "loaded K home kd defined w (obj # objs) = loaded K home kd defined (load_principal K home kd defined w obj) objs"
  by (simp_all add: loaded_def)

lemma loaded_docs [simp]: "Docs (loaded K home kd defined w objs) = Docs w"
  by (induction objs arbitrary: w) simp_all

lemma loaded_boundary_other:
  "key \<notin> principal_key home kd ` set objs \<Longrightarrow>
     lookup (Boundary (loaded K home kd defined w objs)) key = lookup (Boundary w) key"
  by (induction objs arbitrary: w) (auto simp: load_principal_boundary Let_def)

lemma loaded_boundary:
  assumes "obj \<in> set objs" "distinct (map (principal_key home kd) objs)"
    and "pb = str_or_empty (field (object_or_nil (koSpec obj)) ''permissionBoundary'')" "pb \<noteq> []"
  shows "lookup (Boundary (loaded K home kd defined w objs)) (principal_key home kd obj) =
    Some (let n = ResolvePolicyRef home (object_ns home obj) pb defined in if n \<noteq> [] then n else unresolvableBoundary)"
  using assms(1,2)
proof (induction objs arbitrary: w)
  case (Cons x objs)
  show ?case
  proof (cases "obj = x")
    case True
    then have "principal_key home kd obj \<notin> principal_key home kd ` set objs" using Cons.prems(2) by auto
    then show ?thesis using assms(3,4) True by (simp add: loaded_boundary_other load_principal_boundary Let_def)
  qed (use Cons in simp)
qed simp

lemma load_grant_rest: "Docs (load_grant f home defined now w obj) = Docs w" "Boundary (load_grant f home defined now w obj) = Boundary w"
    "Attach (load_grant f home defined now w obj) = Attach w" "Inline (load_grant f home defined now w obj) = Inline w"
  by (auto simp: load_grant_def Let_def split: sum.splits)

lemma loadGrants_rest: "Docs (loadGrants f home defined now objs w) = Docs w" "Boundary (loadGrants f home defined now objs w) = Boundary w"
    "Attach (loadGrants f home defined now objs w) = Attach w" "Inline (loadGrants f home defined now objs w) = Inline w"
  by (induction objs arbitrary: w) (simp_all add: loadGrants_def load_grant_rest)

lemma load_stages:
  assumes "K8sLoaderIn K home now A = Some w"
  obtains objs roles users groups where "anPolicies A = Some objs" "anRoles A = Some roles" "anUsers A = Some users"
    "anGroups A = Some groups"
    "load_grants K home (defined_names home objs) now (anGrants A)
      (loaded K home ''Group'' (defined_names home objs) (loaded K home ''User'' (defined_names home objs)
        (loaded K home ''Role'' (defined_names home objs) (empty_world\<lparr>Docs := load_docs K home objs\<rparr>) roles) users) groups) = Some w"
  using assms unfolding K8sLoaderIn_def loadPrincipals_def loaded_def Let_def bind_eq_Some_conv map_option_eq_Some by blast

lemma load_grants_rest:
  "load_grants K home defined now ans w = Some w' \<Longrightarrow> Docs w' = Docs w \<and> Boundary w' = Boundary w \<and> Attach w' = Attach w \<and> Inline w' = Inline w"
  by (auto simp: load_grants_def loadGrants_rest split: grants_answer.splits)

lemma kinds_apart: "principal_key home ''User'' obj \<noteq> principal_key home ''Group'' obj'"
    "principal_key home ''User'' obj \<noteq> principal_key home ''Role'' obj'" "principal_key home ''Role'' obj \<noteq> principal_key home ''Group'' obj'"
  by (simp_all add: principal_key_def)

lemma user_boundary:
  assumes "K8sLoaderIn K home now A = Some w" "anPolicies A = Some objs" "anUsers A = Some users" "obj \<in> set users"
    and "distinct (map (principal_key home ''User'') users)"
    and "pb = str_or_empty (field (object_or_nil (koSpec obj)) ''permissionBoundary'')" "pb \<noteq> []"
  shows "lookup (Boundary w) (principal_key home ''User'' obj) =
    Some (let n = ResolvePolicyRef home (object_ns home obj) pb (defined_names home objs) in if n \<noteq> [] then n else unresolvableBoundary)"
proof -
  obtain objs' roles users' groups where s: "anPolicies A = Some objs'" "anUsers A = Some users'"
    "load_grants K home (defined_names home objs') now (anGrants A)
      (loaded K home ''Group'' (defined_names home objs') (loaded K home ''User'' (defined_names home objs')
        (loaded K home ''Role'' (defined_names home objs') (empty_world\<lparr>Docs := load_docs K home objs'\<rparr>) roles) users') groups) = Some w"
    using load_stages [OF assms(1)] by metis
  then have eq: "objs' = objs" "users' = users" using assms(2,3) by simp_all
  have "principal_key home ''User'' obj \<notin> principal_key home ''Group'' ` set groups" using kinds_apart by blast
  then show ?thesis
    using load_grants_rest [OF s(3)] loaded_boundary [OF assms(4-7)] by (simp add: eq loaded_boundary_other)
qed

lemma identity_loop_refuses: "identity_loop C r pols m = Inl d \<Longrightarrow> \<not> adAllowed d"
  by (induction pols arbitrary: m) (auto simp: refuse_def explicit_def Let_def split: sum.splits if_splits)

lemma set_denies_refuses: "set_denies C r sets = Some d \<Longrightarrow> \<not> adAllowed d"
  by (induction C r sets rule: set_denies.induct) (auto simp: refuse_def explicit_def split: sum.splits if_splits)

lemma ByName_absent: "\<forall>d \<in> set (Docs w). pName d \<noteq> n \<Longrightarrow> lookup (ByName w) n = None"
proof -
  have "lookup (foldl (\<lambda>m d. if pName d \<noteq> [] then put (pName d) d m else m) m ds) n = lookup m n"
    if "\<forall>d \<in> set ds. pName d \<noteq> n" for ds :: "Policy list" and m using that by (induction ds arbitrary: m) auto
  then show "\<forall>d \<in> set (Docs w). pName d \<noteq> n \<Longrightarrow> lookup (ByName w) n = None" by (simp add: ByName_def)
qed

context cedar
begin

lemma outside_boundary_refused:
  assumes "aeCedar E = C" "boundary_of w p = Some b" "\<not> inside C r b"
  shows "\<not> adAllowed (authorize_identity E w p r same rp)"
proof -
  obtain d where "ceilings C r (Some b) (session_of p) = Some d" "\<not> adAllowed d"
    using ceilings_inside [where r = r and boundary = "Some b" and session = "session_of p"] assms(3)
    by (auto split: option.splits)
  then show ?thesis using identity_loop_refuses set_denies_refuses
    by (auto simp: authorize_identity_def assms(1,2) Let_def refuse_def simp del: set_denies.simps split: sum.splits option.splits)
qed

end

text \<open>
  C13. A permission boundary is never lost. A user whose boundary names a Policy that does not exist, or that
  the user may not name, or that has no statements, is allowed nothing, whatever its policies and those of
  the resources say: the loader keeps the boundary, and the evaluator reads it as one that contains nothing.\<close>

theorem boundary_fails_closed:
  assumes "K8sLoaderIn K home now A = Some w" and "anPolicies A = Some objs" and "anUsers A = Some users" and "obj \<in> set users"
    and "distinct (map (principal_key home ''User'') users)"
    and "pb = str_or_empty (field (object_or_nil (koSpec obj)) ''permissionBoundary'')" and "pb \<noteq> []"
    and "\<forall>d \<in> set (Docs w). pName d \<noteq> ResolvePolicyRef home (object_ns home obj) pb (defined_names home objs) \<and>
      pName d \<noteq> unresolvableBoundary"
    and "cedar (aeCedar E)" and "aeEnabled E" and "aeWorld E = Some w"
    and "prType p = User" and "prID p = QualifiedName home (object_ns home obj) (koName obj)"
  shows "\<not> adAllowed (authorize E p action resource ctx ro)"
proof -
  let ?n = "ResolvePolicyRef home (object_ns home obj) pb (defined_names home objs)"
  have key: "PolicyKey ''User'' (prID p) = principal_key home ''User'' obj" by (simp add: PolicyKey_def principal_key_def assms(13))
  have "unresolvableBoundary \<noteq> []" by (simp add: unresolvableBoundary_def)
  then have b: "boundary_of w p = Some []"
    using user_boundary [OF assms(1-7)] ByName_absent [of w ?n] ByName_absent [of w unresolvableBoundary] assms(8,12)
    by (auto simp: boundary_of_def BoundaryFor_def key Let_def)
  have "\<not> inside (aeCedar E) r []" for r by (simp add: inside_def within_ceiling_def)
  note refused = cedar.outside_boundary_refused [OF assms(9) refl b this]
  show ?thesis
    using refused assms(10-12) by (auto simp: authorize_def Let_def refuse_def explicit_def split: prod.splits sum.splits option.splits)
qed

definition sample_cluster :: cluster where
  "sample_cluster = \<lparr>clDecode = (\<lambda>_. None), clNumber = (\<lambda>_. []), clRFC3339 = (\<lambda>_. None), clCedar = sample_cedar\<rparr>"

definition admin_policy :: KObject where
  "admin_policy = \<lparr>koNamespace = ''home'', koName = ''admin'', koLabels = [],
     koSpec = JObj [(''dataPlane'', JObj [(''appliesTo'', JArr [JStr ''User::bob'']),
       (''statements'', JArr [JObj [(''effect'', JStr ''Allow''), (''actions'', JArr [JStr ''*'']), (''resources'', JArr [JStr ''*''])]])])]\<rparr>"

definition bounded_bob :: KObject where
  "bounded_bob = \<lparr>koNamespace = ''home'', koName = ''bob'', koLabels = [], koSpec = JObj [(''permissionBoundary'', JStr ''limitz'')]\<rparr>"

definition sample_answers :: answers where
  "sample_answers = \<lparr>anPolicies = Some [admin_policy], anRoles = Some [], anUsers = Some [bounded_bob], anGroups = Some [],
     anGrants = GrantsNotInstalled\<rparr>"

definition sample_loaded :: World where
  "sample_loaded = (case K8sLoaderIn sample_cluster ''home'' 0 sample_answers of Some w \<Rightarrow> w | None \<Rightarrow> empty_world)"

theorem boundary_fails_closed_witness:
  "map pName (PoliciesAt sample_loaded ''User'' ''bob'' [] 0) = [''admin''] \<and>
   \<not> adAllowed (authorize (sample_evaluator\<lparr>aeWorld := Some sample_loaded\<rparr>) (sample_bob\<lparr>prID := ''bob''\<rparr>) ''s3:GetObject'' ''Bucket::b'' []
      \<lparr>arAccount = [], arResource = []\<rparr>)"
proof
  show "map pName (PoliciesAt sample_loaded ''User'' ''bob'' [] 0) = [''admin'']" by code_simp
  have l: "K8sLoaderIn sample_cluster ''home'' 0 sample_answers = Some sample_loaded"
    unfolding sample_loaded_def by (cases "K8sLoaderIn sample_cluster ''home'' 0 sample_answers"; simp)
      (simp add: K8sLoaderIn_def sample_answers_def loadPrincipals_def load_grants_def Let_def)
  have d: "\<forall>d \<in> set (Docs sample_loaded). pName d \<noteq> ResolvePolicyRef ''home'' (object_ns ''home'' bounded_bob) ''limitz''
      (defined_names ''home'' [admin_policy]) \<and> pName d \<noteq> unresolvableBoundary" by code_simp
  have a: "anPolicies sample_answers = Some [admin_policy]" and u: "anUsers sample_answers = Some [bounded_bob]"
    by (simp_all add: sample_answers_def)
  have c: "cedar (aeCedar (sample_evaluator\<lparr>aeWorld := Some sample_loaded\<rparr>))"
    unfolding sample_evaluator_def sample_cedar_def by (simp add: standard.cedar_axioms)
  have pb: "''limitz'' = str_or_empty (field (object_or_nil (koSpec bounded_bob)) ''permissionBoundary'')" by code_simp
  have i: "prID (sample_bob\<lparr>prID := ''bob''\<rparr>) = QualifiedName ''home'' (object_ns ''home'' bounded_bob) (koName bounded_bob)" by code_simp
  show "\<not> adAllowed (authorize (sample_evaluator\<lparr>aeWorld := Some sample_loaded\<rparr>) (sample_bob\<lparr>prID := ''bob''\<rparr>) ''s3:GetObject'' ''Bucket::b'' []
      \<lparr>arAccount = [], arResource = []\<rparr>)"
    by (rule boundary_fails_closed [OF l a u _ _ pb _ d c _ _ _ i]) (simp_all add: sample_evaluator_def sample_bob_def)
qed

subsection \<open>Namespaces are apart\<close>

text \<open>A name of a third namespace, and a key of a principal of the namespace.\<close>

definition foreign :: "string \<Rightarrow> string \<Rightarrow> string \<Rightarrow> bool" where
  "foreign home ns n \<longleftrightarrow> (\<exists>ns' name. n = ns' @ ''/'' @ name \<and> ns' \<noteq> [] \<and> CHR ''/'' \<notin> set ns' \<and> ns' \<noteq> home \<and> ns' \<noteq> ns)"

definition key_in :: "string \<Rightarrow> string \<Rightarrow> bool" where
  "key_in ns key \<longleftrightarrow> (\<exists>kd i. key = kd @ ''::'' @ ns @ ''/'' @ i \<and> CHR '':'' \<notin> set kd \<and> CHR '':'' \<notin> set i)"

definition single_slash :: "string \<Rightarrow> bool" where
  "single_slash ref = (case cut_slash ref of None \<Rightarrow> True | Some (u, v) \<Rightarrow> CHR ''/'' \<notin> set v)"

lemma slash_split:
  assumes "u @ ''/'' @ v = u' @ ''/'' @ v'" "CHR ''/'' \<notin> set u" "CHR ''/'' \<notin> set u'"
  shows "u = u' \<and> v = v'"
proof -
  have "takeWhile (\<lambda>c. c \<noteq> CHR ''/'') (a @ ''/'' @ b) = a" if "CHR ''/'' \<notin> set a" for a b
    using that by (auto simp: takeWhile_append2 takeWhile_tail)
  then have "u = u'" using assms by metis
  then show ?thesis using assms(1) by simp
qed

lemma resolve_not_foreign:
  assumes "ns \<noteq> home" "ns \<noteq> []" "CHR ''/'' \<notin> set ns" "single_slash ref"
  shows "\<not> foreign home ns (ResolvePolicyRef home ns ref ex)"
proof
  assume "foreign home ns (ResolvePolicyRef home ns ref ex)"
  then obtain ns' name where f: "ResolvePolicyRef home ns ref ex = ns' @ ''/'' @ name" "ns' \<noteq> []" "CHR ''/'' \<notin> set ns'"
      "ns' \<noteq> home" "ns' \<noteq> ns" by (auto simp: foreign_def)
  have own: "QualifiedName home ns x \<noteq> ns' @ ''/'' @ name" for x
    using slash_split [of ns x ns' name] assms f(3,5) by (auto simp: QualifiedName_def)
  show False
  proof (cases "cut_slash ref")
    case None
    then have "ref = ns' @ ''/'' @ name" using f own by (auto simp: ResolvePolicyRef_def split: if_splits)
    then show False using None cut_slash_plain [OF f(3,2)] by simp
  next
    case (Some uv)
    obtain u v where uv: "uv = (u, v)" by fastforce
    have "CHR ''/'' \<notin> set v" using assms(4) Some uv by (simp add: single_slash_def)
    moreover have "QualifiedName home u v = ns' @ ''/'' @ name" "u = ns \<or> u = home"
      using f(1,2) Some uv assms by (auto simp: ResolvePolicyRef_def split: if_splits)
    ultimately show False using own by (auto simp: QualifiedName_def)
  qed
qed

lemma key_in_object:
  assumes "key_in ns (kd @ ''::'' @ QualifiedName home ns' name)" "ns \<noteq> home" "ns \<noteq> []" "CHR ''/'' \<notin> set ns" "CHR '':'' \<notin> set ns"
    and "CHR ''/'' \<notin> set ns'" "CHR ''/'' \<notin> set name"
  shows "ns' = ns"
proof -
  obtain kd' i where k: "kd @ ''::'' @ QualifiedName home ns' name = kd' @ ''::'' @ ns @ ''/'' @ i" "CHR '':'' \<notin> set kd'" "CHR '':'' \<notin> set i"
    using assms(1) by (auto simp: key_in_def)
  then have q: "QualifiedName home ns' name = ns @ ''/'' @ i" using colons_split(2) [OF k(1)] assms(5) by simp
  show ?thesis
  proof (cases "ns' = [] \<or> ns' = home")
    case True
    then have "name = ns @ ''/'' @ i" using q by (simp add: QualifiedName_def)
    then show ?thesis using assms(7) by simp
  next
    case False
    then have "ns' @ ''/'' @ name = ns @ ''/'' @ i" using q by (simp add: QualifiedName_def)
    then show ?thesis using slash_split assms(4,6) by blast
  qed
qed

text \<open>What a principal or grant of the namespace may attach.\<close>

definition confined :: "string \<Rightarrow> string \<Rightarrow> World \<Rightarrow> bool" where
  "confined home ns w \<longleftrightarrow> (\<forall>key. key_in ns key \<longrightarrow>
     (\<forall>n \<in> set (slice_at (Attach w) key). \<not> foreign home ns n) \<and>
     (\<forall>a \<in> set (slice_at (Temporary w) key). \<forall>n \<in> set (taPolicies a). \<not> foreign home ns n))"

definition plain_object :: "KObject \<Rightarrow> bool" where
  "plain_object obj \<longleftrightarrow> CHR ''/'' \<notin> set (koName obj) \<and> CHR ''/'' \<notin> set (koNamespace obj) \<and>
     list_all single_slash (toStrings (field (object_or_nil (koSpec obj)) ''policies''))"

lemma load_principal_confined:
  assumes "confined home ns w" "plain_object obj" "ns \<noteq> home" "ns \<noteq> []" "CHR ''/'' \<notin> set ns" "CHR '':'' \<notin> set ns" "CHR ''/'' \<notin> set home"
  shows "confined home ns (load_principal K home kd defined w obj)"
proof -
  let ?key = "principal_key home kd obj" and ?refs = "filter (\<lambda>n. n \<noteq> []) (map (\<lambda>ref. ResolvePolicyRef home (object_ns home obj) ref defined)
          (toStrings (field (object_or_nil (koSpec obj)) ''policies'')))"
  have a: "Attach (load_principal K home kd defined w obj) = (if ?refs = [] then Attach w else put ?key ?refs (Attach w))"
      "Temporary (load_principal K home kd defined w obj) = Temporary w"
    by (simp_all add: load_principal_def load_parts Let_def)
  have "\<not> foreign home ns n" if "key_in ns ?key" "n \<in> set ?refs" for n
  proof -
    have "object_ns home obj = ns"
      by (rule key_in_object [OF that(1) [unfolded principal_key_def]]) (use assms in \<open>auto simp: plain_object_def object_ns_def\<close>)
    then show ?thesis
      using that(2) assms(2-5) resolve_not_foreign [of ns home] by (auto simp: plain_object_def list_all_iff)
  qed
  then show ?thesis using assms(1) unfolding confined_def a by (simp del: set_filter set_map)
qed

lemma loaded_confined:
  assumes "confined home ns w" "\<forall>obj \<in> set objs. plain_object obj" "ns \<noteq> home" "ns \<noteq> []" "CHR ''/'' \<notin> set ns" "CHR '':'' \<notin> set ns" "CHR ''/'' \<notin> set home"
  shows "confined home ns (loaded K home kd defined w objs)"
  using assms(1,2) by (induction objs arbitrary: w) (simp_all add: load_principal_confined assms(3-))

lemma load_grant_confined:
  assumes "confined home ns w" "plain_object obj" "ns \<noteq> home" "ns \<noteq> []" "CHR ''/'' \<notin> set ns" "CHR '':'' \<notin> set ns" "CHR ''/'' \<notin> set home"
  shows "confined home ns (load_grant f home defined now w (grant_object obj))"
proof (cases "GrantWindow f (gSpec (grant_object obj))")
  case (Inl e)
  then show ?thesis using assms(1) by (simp add: load_grant_def Let_def)
next
  case (Inr win)
  let ?g = "grant_object obj"
  let ?key = "PolicyKey (SubjectKind (gSpec ?g)) (QualifiedName home (grant_ns home ?g) (SubjectName (gSpec ?g)))"
  let ?refs = "filter (\<lambda>n. n \<noteq> []) (map (\<lambda>ref. ResolvePolicyRef home (grant_ns home ?g) ref defined) (Policies (gSpec ?g)))"
  have subject: "CHR ''/'' \<notin> set (SubjectName (gSpec ?g))" using GrantWindow_approved(5) Inr by (metis prod.collapse)
  have "\<not> foreign home ns n" if "key_in ns ?key" "n \<in> set ?refs" for n
  proof -
    have "grant_ns home ?g = ns"
      by (rule key_in_object [OF that(1) [unfolded PolicyKey_def] _ _ _ _ _ subject])
        (use assms in \<open>auto simp: plain_object_def grant_ns_def grant_object_def\<close>)
    then show ?thesis using that(2) assms(2-5) resolve_not_foreign [of ns home]
      by (auto simp: plain_object_def list_all_iff grant_object_def GrantSpecOf_def Let_def)
  qed
  moreover obtain f_t u_t where win: "win = (f_t, u_t)" by fastforce
  ultimately show ?thesis using assms(1) Inr
    unfolding confined_def load_grant_def Let_def win by (auto simp del: set_filter set_map split: if_splits)
qed

definition objects_of :: "answers \<Rightarrow> KObject list" where
  "objects_of A = concat (map (\<lambda>x. case x of None \<Rightarrow> [] | Some l \<Rightarrow> l) [anRoles A, anUsers A, anGroups A]) @
     (case anGrants A of GrantsListed l \<Rightarrow> l | _ \<Rightarrow> [])"

lemma world_confined:
  assumes "K8sLoaderIn K home now A = Some w" "\<forall>obj \<in> set (objects_of A). plain_object obj"
    and ns: "ns \<noteq> home" "ns \<noteq> []" "CHR ''/'' \<notin> set ns" "CHR '':'' \<notin> set ns" "CHR ''/'' \<notin> set home"
  shows "confined home ns w"
proof -
  obtain objs roles users groups where s: "anPolicies A = Some objs" "anRoles A = Some roles" "anUsers A = Some users"
    "anGroups A = Some groups"
    "load_grants K home (defined_names home objs) now (anGrants A)
      (loaded K home ''Group'' (defined_names home objs) (loaded K home ''User'' (defined_names home objs)
        (loaded K home ''Role'' (defined_names home objs) (empty_world\<lparr>Docs := load_docs K home objs\<rparr>) roles) users) groups) = Some w"
    using load_stages [OF assms(1)] .
  let ?w = "loaded K home ''Group'' (defined_names home objs) (loaded K home ''User'' (defined_names home objs)
        (loaded K home ''Role'' (defined_names home objs) (empty_world\<lparr>Docs := load_docs K home objs\<rparr>) roles) users) groups"
  have e: "confined home ns (empty_world\<lparr>Docs := load_docs K home objs\<rparr>)" by (simp add: confined_def empty_world_def slice_at_def)
  have w: "confined home ns ?w"
    by (intro loaded_confined e ns) (use assms(2) s(2-4) in \<open>simp_all add: objects_of_def\<close>)
  have "confined home ns (loadGrants f home defined now (map grant_object l) w')"
    if "confined home ns w'" "\<forall>obj \<in> set l. plain_object obj" for f defined l w'
    using that by (induction l arbitrary: w') (simp_all add: loadGrants_def load_grant_confined ns)
  then show ?thesis using s(5) w assms(2) by (auto simp: load_grants_def objects_of_def split: grants_answer.splits)
qed

lemma ByName_sound: "lookup (ByName w) n = Some d \<Longrightarrow> d \<in> set (Docs w) \<and> pName d = n"
proof -
  have "lookup (foldl (\<lambda>m d. if pName d \<noteq> [] then put (pName d) d m else m) m ds) n = Some d \<Longrightarrow>
      lookup m n = Some d \<or> d \<in> set ds \<and> pName d = n" for ds :: "Policy list" and m
    by (induction ds arbitrary: m) (fastforce split: if_splits)+
  then show "lookup (ByName w) n = Some d \<Longrightarrow> d \<in> set (Docs w) \<and> pName d = n" by (fastforce simp: ByName_def)
qed

lemma load_policy_applies:
  "pAppliesTo (fst (load_policy K home obj)) = [] \<or>
     (\<exists>l. pAppliesTo (fst (load_policy K home obj)) = CanonAppliesTo home (koNamespace obj) l)"
    "pName (fst (load_policy K home obj)) = QualifiedName home (koNamespace obj) (koName obj)"
  by (auto simp: load_policy_def Let_def split: prod.splits json.splits)

lemma principal_keys_in:
  assumes "CHR '':'' \<notin> set ptype" "CHR '':'' \<notin> set u" "\<forall>g \<in> set groups. \<exists>i. plain_group g = ns @ ''/'' @ i \<and> CHR '':'' \<notin> set i"
    and "key \<in> set (principal_keys ptype (ns @ ''/'' @ u) groups)"
  shows "key_in ns key"
proof -
  have one: "key_in ns (PolicyKey kd (ns @ ''/'' @ i))" if "CHR '':'' \<notin> set kd" "CHR '':'' \<notin> set i" for kd i
    unfolding key_in_def PolicyKey_def using that by blast
  have "CHR '':'' \<notin> set ''Group''" by simp
  then show ?thesis using assms(3,4) one [OF assms(1,2)] one [of "''Group''"] unfolding principal_keys_def by auto
qed

lemma loaded_policies:
  assumes "K8sLoaderIn K home now A = Some w" "anPolicies A = Some objs"
  shows "Docs w = load_docs K home objs"
proof -
  obtain objs' roles users grps where "anPolicies A = Some objs'" and
    g: "load_grants K home (defined_names home objs') now (anGrants A)
      (loaded K home ''Group'' (defined_names home objs') (loaded K home ''User'' (defined_names home objs')
        (loaded K home ''Role'' (defined_names home objs') (empty_world\<lparr>Docs := load_docs K home objs'\<rparr>) roles) users) grps) = Some w"
    using load_stages [OF assms(1)] by metis
  then show ?thesis using assms(2) load_grants_rest [OF g] by simp
qed

text \<open>How a policy comes to a principal of a confined namespace.\<close>

lemma policy_sources:
  assumes "confined home ns w" "\<And>key. key \<in> set (principal_keys ptype pid groups) \<Longrightarrow> key_in ns key"
    and "q \<in> set (PoliciesAt w ptype pid groups now)"
  shows "q \<in> set (Docs w) \<and> (AppliesTo (pAppliesTo q) ptype pid groups \<or> \<not> foreign home ns (pName q)) \<or> has_prefix (pName q) ''inline:''"
proof -
  have named: "q \<in> set (Docs w) \<and> \<not> foreign home ns (pName q)" if h: "q \<in> set (found w names)" "\<forall>n \<in> set names. \<not> foreign home ns n" for names
  proof -
    obtain n where "n \<in> set names" "lookup (ByName w) n = Some q" using h(1) by (auto simp: found_def List.map_filter_def)
    then show ?thesis using ByName_sound [of w n q] h(2) by auto
  qed
  have "\<forall>n \<in> set (AttachedPolicyNames (Attach w) ptype pid groups). \<not> foreign home ns n"
    using assms(1,2) by (auto simp: AttachedPolicyNames_def confined_def)
  note attached = named [OF _ this]
  have "\<forall>n \<in> set (concat (map taPolicies (ActiveTemporary w ptype pid groups now))). \<not> foreign home ns n"
    using assms(1,2) by (auto simp: ActiveTemporary_def confined_def)
  note granted = named [OF _ this]
  have inl: "has_prefix (pName q) ''inline:''" if "q \<in> set (concat (map (inline_policies w) (principal_keys ptype pid groups)))"
    using that by (auto simp: inline_policies_def has_prefix_def)
  have "q \<in> set (filter (\<lambda>d. AppliesTo (pAppliesTo d) ptype pid groups) (Docs w) @
      found w (AttachedPolicyNames (Attach w) ptype pid groups) @
      found w (concat (map taPolicies (ActiveTemporary w ptype pid groups now))) @
      concat (map (inline_policies w) (principal_keys ptype pid groups)))"
    using subsetD [OF add_all_set(1) assms(3) [unfolded PoliciesAt_sources]] by simp
  then show ?thesis using attached granted inl unfolding set_append Un_iff by (elim disjE) auto
qed


definition team_policy :: "string \<Rightarrow> string \<Rightarrow> KObject" where
  "team_policy ns name = \<lparr>koNamespace = ns, koName = name, koLabels = [],
     koSpec = JObj [(''dataPlane'', JObj [(''appliesTo'', JArr [JStr ''*'', JStr ''User::team-a/bob'']),
       (''statements'', JArr [JObj [(''effect'', JStr ''Allow''), (''actions'', JArr [JStr ''s3:*'']), (''resources'', JArr [JStr ''*''])]])])]\<rparr>"

definition team_bob :: KObject where
  "team_bob = \<lparr>koNamespace = ''team-a'', koName = ''bob'', koLabels = [],
     koSpec = JObj [(''policies'', JArr [JStr ''home/base'', JStr ''team-b/other''])]\<rparr>"

definition team_answers :: answers where
  "team_answers = \<lparr>anPolicies = Some [team_policy ''team-a'' ''own'', team_policy ''team-b'' ''other''],
     anRoles = Some [], anUsers = Some [team_bob], anGroups = Some [], anGrants = GrantsNotInstalled\<rparr>"

definition team_world :: World where
  "team_world = (case K8sLoaderIn sample_cluster ''home'' 0 team_answers of Some w \<Rightarrow> w | None \<Rightarrow> empty_world)"


text \<open>
  Native statements lose what is not complete: an address condition without a network is skipped and the
  Allow stands without it, and an Allow whose actions are no list is one of every action.\<close>

theorem incomplete_condition_widens_allow:
  "native_statement number [(''effect'', JStr ''Allow''), (''actions'', JArr [JStr ''s3:*'']), (''resources'', JArr [JStr ''*'']),
      (''ipConditions'', JArr [JObj [(''key'', JStr ''sourceIp'')]]), (''condition'', JObj [(''username'', JArr [JStr ''alice''])])] =
     empty_statement\<lparr>Actions := [''s3:*''], Resources := [''*'']\<rparr> \<and>
   native_statement number [(''effect'', JStr ''Allow''), (''actions'', JStr ''s3:GetObject''), (''resources'', JArr [JStr ''*''])] =
     empty_statement\<lparr>Resources := [''*'']\<rparr> \<and>
   st_applies C c ''iam:CreateUser'' ''User::x'' (empty_statement\<lparr>Resources := [''*'']\<rparr>)"
  by (intro conjI) code_simp+

end
