(* ===== verification/IamEvaluator.thy ===== *)
theory IamEvaluator
  imports IamLoader
begin

text \<open>
  The evaluator around the evaluation: the cache of the policy world (\<^verbatim>\<open>iamauthz/world.go\<close>), the compiled
  engines kept per generation of it, and the modes of the rollout (\<^verbatim>\<open>iamauthz/iamauthz.go\<close>).

  Clock readings and the answer of the loader are arguments. The generation counts loads, so it never
  comes near the limit of its 64 bits.
\<close>

subsection \<open>The cache of the policy world\<close>

record WorldCache =
  wcWorld :: World
  wcFailed :: bool
  wcFetched :: int
  wcSeeded :: bool
  wcGen :: nat

definition NewCache :: WorldCache where
  "NewCache = \<lparr>wcWorld = empty_world, wcFailed = False, wcFetched = 0, wcSeeded = False, wcGen = 0\<rparr>"

text \<open>One call: the time before, what the loader would answer, the time after.\<close>

record fetch =
  feBefore :: int
  feAnswer :: "World option"
  feAfter :: int

definition Get :: "int \<Rightarrow> fetch \<Rightarrow> WorldCache \<Rightarrow> (World \<times> nat \<times> bool) \<times> WorldCache" where
  "Get ttl f c =
     (if wcSeeded c \<and> feBefore f - wcFetched c < ttl then ((wcWorld c, wcGen c, wcFailed c), c)
      else case feAnswer f of
          None \<Rightarrow>
            if wcSeeded c then ((wcWorld c, wcGen c, wcFailed c), c\<lparr>wcFetched := feAfter f\<rparr>)
            else ((empty_world, Suc (wcGen c), True),
                  \<lparr>wcWorld = empty_world, wcFailed = True, wcFetched = feAfter f, wcSeeded = True, wcGen = Suc (wcGen c)\<rparr>)
        | Some w \<Rightarrow>
            ((w, Suc (wcGen c), False),
             \<lparr>wcWorld = w, wcFailed = False, wcFetched = feAfter f, wcSeeded = True, wcGen = Suc (wcGen c)\<rparr>))"

definition world_of :: "World \<times> nat \<times> bool \<Rightarrow> World option" where
  "world_of = (\<lambda>(w, gen, failed). if failed then None else Some w)"

subsection \<open>Compiled engines\<close>

record EngineCache =
  ecGen :: nat
  ecEngines :: "Engine strmap"

definition engine_of :: "cedar_api \<Rightarrow> nat \<Rightarrow> Policy \<Rightarrow> EngineCache \<Rightarrow> (engine_error, Engine) result \<times> EngineCache" where
  "engine_of C gen pol ec =
     (if pName pol = [] then (NewEngine C (pStatements pol), ec)
      else
        let ec = (if ecGen ec \<noteq> gen then \<lparr>ecGen = gen, ecEngines = []\<rparr> else ec)
        in case lookup (ecEngines ec) (pName pol) of
            Some e \<Rightarrow> (Inr e, ec)
          | None \<Rightarrow>
              (case NewEngine C (pStatements pol) of
                 Inl err \<Rightarrow> (Inl err, ec)
               | Inr e \<Rightarrow> (Inr e, ec\<lparr>ecEngines := put (pName pol) e (ecEngines ec)\<rparr>)))"

text \<open>The identity policies as the evaluator goes through them, with its engines.\<close>

fun identity_policies_loop ::
  "cedar_api \<Rightarrow> nat \<Rightarrow> Request \<Rightarrow> Policy list \<Rightarrow> string option \<Rightarrow> EngineCache \<Rightarrow> (AuthzDecision, string option) result \<times> EngineCache" where
  "identity_policies_loop C gen req [] m ec = (Inr m, ec)"
| "identity_policies_loop C gen req (pol # pols) m ec =
     (case engine_of C gen pol ec of
        (Inl _, ec') \<Rightarrow> (Inl (refuse (PolicyCompile (pName pol))), ec')
      | (Inr e, ec') \<Rightarrow>
          let d = Authorize C e req
          in if ExplicitDeny d then (Inl (explicit (PolicyDeny (pName pol)) (pName pol)), ec')
             else identity_policies_loop C gen req pols (if Allowed d \<and> m = None then Some (pName pol) else m) ec')"

subsection \<open>Modes\<close>

datatype Mode =
    ModeLegacy
  | ModeShadow
  | ModeEnforce

definition ParseMode :: "string \<Rightarrow> Mode" where
  "ParseMode s =
     (let t = to_lower (trim_space s)
      in if t = ''shadow'' then ModeShadow else if t = ''enforce'' then ModeEnforce else ModeLegacy)"

definition ModeFor :: "Mode \<Rightarrow> World option \<Rightarrow> Principal \<Rightarrow> Mode" where
  "ModeFor m w p =
     (if m \<noteq> ModeShadow then m
      else if prType p \<noteq> User \<and> prType p \<noteq> Role then m
      else case w of
          Some w \<Rightarrow> if lookup (Enforce w) (Key p) = Some True then ModeEnforce else m
        | None \<Rightarrow> m)"

text \<open>A decision as the front door gets it, and whether a difference is logged.\<close>

record FrontDecision =
  fdAllowed :: bool
  fdMode :: Mode
  fdLogged :: bool

definition Decide ::
  "Mode \<Rightarrow> AuthzEnv \<Rightarrow> Principal \<Rightarrow> string \<Rightarrow> string \<Rightarrow> attribute strmap \<Rightarrow> bool option \<Rightarrow> AuthzRequest \<Rightarrow> FrontDecision" where
  "Decide m E p action resource ctx legacy ro =
     (let old = (case legacy of None \<Rightarrow> False | Some ok \<Rightarrow> ok); new = adAllowed (authorize E p action resource ctx ro)
      in case ModeFor m (aeWorld E) p of
          ModeEnforce \<Rightarrow> \<lparr>fdAllowed = new, fdMode = ModeEnforce, fdLogged = False\<rparr>
        | ModeShadow \<Rightarrow> \<lparr>fdAllowed = old, fdMode = ModeShadow, fdLogged = (new \<noteq> old)\<rparr>
        | ModeLegacy \<Rightarrow> \<lparr>fdAllowed = old, fdMode = ModeLegacy, fdLogged = False\<rparr>)"

subsection \<open>The cache serves the last good world\<close>

fun gets :: "int \<Rightarrow> fetch list \<Rightarrow> WorldCache \<Rightarrow> (World \<times> nat \<times> bool) list \<times> WorldCache" where
  "gets ttl [] c = ([], c)"
| "gets ttl (f # fs) c = (let (r, c') = Get ttl f c; (rs, c'') = gets ttl fs c' in (r # rs, c''))"

lemma Get_seeds: "Get ttl f c = (r, c') \<Longrightarrow> wcSeeded c' \<and> r = (wcWorld c', wcGen c', wcFailed c')"
  by (auto simp: Get_def split: if_splits option.splits)

lemma Get_generation: "Get ttl f c = (r, c') \<Longrightarrow> c' = c\<lparr>wcFetched := wcFetched c'\<rparr> \<and> wcSeeded c \<or> wcGen c' = Suc (wcGen c)"
  by (auto simp: Get_def split: if_splits option.splits)

lemma Get_good: "Get ttl f c = (r, c') \<Longrightarrow> wcSeeded c \<Longrightarrow> \<not> wcFailed c \<Longrightarrow> \<not> wcFailed c'"
  by (auto simp: Get_def split: if_splits option.splits)

lemma gets_generations:
  "gets ttl fs c = (rs, c') \<Longrightarrow> wcSeeded c \<Longrightarrow> (w, g, failed) \<in> set rs \<Longrightarrow>
     g > wcGen c \<or> g = wcGen c \<and> w = wcWorld c \<and> failed = wcFailed c"
proof (induction fs arbitrary: c rs)
  case (Cons f fs)
  obtain r c1 where r: "Get ttl f c = (r, c1)" by fastforce
  obtain rs' where rs: "gets ttl fs c1 = (rs', c')" "rs = r # rs'" using Cons.prems(1) r by (auto split: prod.splits)
  note c1 = Get_seeds [OF r]
  show ?case
  proof (cases "(w, g, failed) = r")
    case True
    then show ?thesis using c1 Get_generation [OF r] by (cases c1; cases c) auto
  next
    case False
    then have "g > wcGen c1 \<or> g = wcGen c1 \<and> w = wcWorld c1 \<and> failed = wcFailed c1"
      using Cons.IH [OF rs(1)] Cons.prems(3) c1 rs(2) by auto
    then show ?thesis using Get_generation [OF r] by (cases c1; cases c) auto
  qed
qed simp

text \<open>
  A generation of the cached policy world is one world: in any sequence of reads and reloads, with
  failing loads in between, two reads of the same generation saw the same world. It is what allows the
  evaluator to reuse compiled engines within a generation.\<close>

theorem generation_identifies_world:
  assumes "gets ttl fs NewCache = (rs, c)" and "(w1, g, failed1) \<in> set rs" and "(w2, g, failed2) \<in> set rs"
  shows "w1 = w2 \<and> failed1 = failed2"
proof -
  have "(w1, g, failed1) \<in> set rs \<Longrightarrow> (w2, g, failed2) \<in> set rs \<Longrightarrow> gets ttl fs c0 = (rs, c) \<Longrightarrow> w1 = w2 \<and> failed1 = failed2" for c0
    using assms(2)
  proof (induction fs arbitrary: c0 rs)
    case (Cons f fs)
    obtain r c1 where r: "Get ttl f c0 = (r, c1)" by fastforce
    obtain rs' where rs: "gets ttl fs c1 = (rs', c)" "rs = r # rs'" using Cons.prems(3) r by (auto split: prod.splits)
    note c1 = Get_seeds [OF r]
    show ?case using Cons.IH [OF _ _ rs(1)] Cons.prems(1,2) rs(2) c1 gets_generations [OF rs(1)] by auto
  qed simp
  then show ?thesis using assms by blast
qed

lemma Get_answer:
  "Get ttl f c = (r, c') \<Longrightarrow> \<not> wcFailed c' \<Longrightarrow> wcSeeded c \<and> \<not> wcFailed c \<and> wcWorld c' = wcWorld c \<or> feAnswer f = Some (wcWorld c')"
  by (auto simp: Get_def split: if_splits option.splits)

lemma gets_good:
  "gets ttl fs c = (rs, c') \<Longrightarrow> (wcSeeded c \<and> \<not> wcFailed c \<Longrightarrow> Some (wcWorld c) \<in> A) \<Longrightarrow>
     (wcSeeded c' \<and> \<not> wcFailed c' \<longrightarrow> Some (wcWorld c') \<in> A \<union> feAnswer ` set fs) \<and>
     ((\<exists>r \<in> set rs. \<not> snd (snd r)) \<or> wcSeeded c \<and> \<not> wcFailed c \<longrightarrow> wcSeeded c' \<and> \<not> wcFailed c')"
proof (induction fs arbitrary: c rs A)
  case (Cons f fs)
  obtain r c1 where r: "Get ttl f c = (r, c1)" by fastforce
  obtain rs' where rs: "gets ttl fs c1 = (rs', c')" "rs = r # rs'" using Cons.prems(1) r by (auto split: prod.splits)
  have "wcSeeded c1 \<and> \<not> wcFailed c1 \<Longrightarrow> Some (wcWorld c1) \<in> A \<union> {feAnswer f}" using Get_answer [OF r] Cons.prems(2) by auto
  then show ?case using Cons.IH [OF rs(1), of "A \<union> {feAnswer f}"] Get_seeds [OF r] Get_good [OF r] rs(2) by auto
qed auto

text \<open>
  The cache fails closed until a load succeeds and serves loaded worlds ever after: after any sequence of
  reads one of which succeeded, a read succeeds however the loader fails, and what a successful read gives
  is a world the loader answered.\<close>

theorem cache_keeps_good_worlds:
  assumes "gets ttl fs NewCache = (rs, c)" and "Get ttl f c = ((w, g, failed), c')"
  shows "((\<exists>r \<in> set rs. \<not> snd (snd r)) \<longrightarrow> \<not> failed) \<and> (\<not> failed \<longrightarrow> Some w \<in> feAnswer ` set (f # fs))"
  using gets_good [OF assms(1), of "{}"] Get_answer [OF assms(2)] Get_good [OF assms(2)] Get_seeds [OF assms(2)]
  by (auto simp: NewCache_def)

definition sample_reads :: "fetch list" where
  "sample_reads = [\<lparr>feBefore = 0, feAnswer = Some sample_world, feAfter = 1\<rparr>, \<lparr>feBefore = 100, feAnswer = None, feAfter = 101\<rparr>]"

theorem generation_identifies_world_witness:
  "fst (gets 10 sample_reads NewCache) = [(sample_world, 1, False), (sample_world, 1, False)] \<and>
   (\<forall>r1 \<in> set (fst (gets 10 sample_reads NewCache)). \<forall>r2 \<in> set (fst (gets 10 sample_reads NewCache)).
      fst (snd r1) = fst (snd r2) \<longrightarrow> fst r1 = fst r2)"
proof -
  obtain rs c where g: "gets 10 sample_reads NewCache = (rs, c)" by fastforce
  have "fst (gets 10 sample_reads NewCache) = [(sample_world, 1, False), (sample_world, 1, False)]"
    by (simp add: sample_reads_def NewCache_def Get_def)
  then show ?thesis using generation_identifies_world [OF g] g by fastforce
qed

theorem cache_keeps_good_worlds_witness:
  "snd (snd (fst (Get 10 \<lparr>feBefore = 200, feAnswer = None, feAfter = 201\<rparr> (snd (gets 10 sample_reads NewCache))))) = False"
proof -
  obtain rs c where g: "gets 10 sample_reads NewCache = (rs, c)" by fastforce
  obtain w gen failed c' where r: "Get 10 \<lparr>feBefore = 200, feAnswer = None, feAfter = 201\<rparr> c = ((w, gen, failed), c')"
    by (metis prod.exhaust)
  have "fst (gets 10 sample_reads NewCache) = [(sample_world, 1, False), (sample_world, 1, False)]"
    by (simp add: sample_reads_def NewCache_def Get_def)
  then show ?thesis using cache_keeps_good_worlds [OF g r] g r by simp
qed

subsection \<open>Engines belong to their policies\<close>

lemma add_all_first:
  "q \<in> set (foldl add_policy out ps) \<Longrightarrow> pName q \<noteq> [] \<Longrightarrow>
     q \<in> set out \<or> pName q \<notin> pName ` set out \<and> find (\<lambda>x. pName x = pName q) ps = Some q"
proof (induction ps arbitrary: out)
  case (Cons p ps)
  from Cons.IH [of "add_policy out p"] Cons.prems
  have "q \<in> set (add_policy out p) \<or> pName q \<notin> pName ` set (add_policy out p) \<and> find (\<lambda>x. pName x = pName q) ps = Some q" by simp
  then show ?case using Cons.prems(2) by (auto simp: add_policy_def split: if_splits)
qed simp

lemma find_concat: "find P (concat xss) = Some x \<Longrightarrow> \<exists>xs \<in> set xss. find P xs = Some x"
proof (induction xss)
  case (Cons xs xss)
  have "find P (xs @ ys) = (case find P xs of None \<Rightarrow> find P ys | r \<Rightarrow> r)" for ys by (induction xs) auto
  then show ?case using Cons by (auto split: option.splits)
qed simp

lemma find_append_None: "(\<And>x. x \<in> set xs \<Longrightarrow> \<not> P x) \<Longrightarrow> find P (xs @ ys) = find P ys"
  by (induction xs) auto

text \<open>What names principals and policies have: the names of objects hold neither colons nor the mark of inline policies.\<close>

definition plain_world :: "World \<Rightarrow> bool" where
  "plain_world w \<longleftrightarrow> distinct (map pName (Docs w)) \<and> (\<forall>d \<in> set (Docs w). pName d \<noteq> [] \<and> \<not> has_prefix (pName d) ''inline:'')"

definition plain_names :: "string \<Rightarrow> string \<Rightarrow> string list \<Rightarrow> bool" where
  "plain_names ptype pid groups \<longleftrightarrow> CHR '':'' \<notin> set ptype \<and> CHR '':'' \<notin> set pid \<and> (\<forall>g \<in> set groups. CHR '':'' \<notin> set (plain_group g))"

definition plain_key :: "string \<Rightarrow> bool" where
  "plain_key k \<longleftrightarrow> (\<exists>t i. k = t @ ''::'' @ i \<and> CHR '':'' \<notin> set t \<and> CHR '':'' \<notin> set i)"

lemma principal_keys_plain: "plain_names ptype pid groups \<Longrightarrow> k \<in> set (principal_keys ptype pid groups) \<Longrightarrow> plain_key k"
proof -
  assume *: "plain_names ptype pid groups" "k \<in> set (principal_keys ptype pid groups)"
  have one: "plain_key (PolicyKey t i)" if "CHR '':'' \<notin> set t" "CHR '':'' \<notin> set i" for t i
    unfolding plain_key_def PolicyKey_def using that by blast
  have "CHR '':'' \<notin> set ''Group''" by simp
  then show ?thesis using * one unfolding plain_names_def principal_keys_def by auto
qed

lemma plain_key_split:
  assumes "k @ '':'' @ a = k' @ '':'' @ b" "plain_key k" "plain_key k'"
  shows "k = k'"
proof -
  have cut: "takeWhile (\<lambda>c. c \<noteq> CHR '':'') (x @ '':'' @ y) = x" if "CHR '':'' \<notin> set x" for x y
    using that by (auto simp: takeWhile_append2 takeWhile_tail)
  obtain t i t' i' where k: "k = t @ ''::'' @ i" "k' = t' @ ''::'' @ i'" "CHR '':'' \<notin> set t" "CHR '':'' \<notin> set i"
      "CHR '':'' \<notin> set t'" "CHR '':'' \<notin> set i'" using assms(2,3) unfolding plain_key_def by blast
  have "t @ '':'' @ '':'' @ i @ '':'' @ a = t' @ '':'' @ '':'' @ i' @ '':'' @ b" using assms(1) k by simp
  then have "t = t'" using cut [OF k(3)] cut [OF k(5)] by metis
  then have "i @ '':'' @ a = i' @ '':'' @ b" using assms(1) k by simp
  then have "i = i'" using cut [OF k(4)] cut [OF k(6)] by metis
  then show ?thesis using k \<open>t = t'\<close> by simp
qed

lemma inline_name: "p \<in> set (inline_policies w k) \<Longrightarrow> \<exists>a. pName p = ''inline:'' @ k @ '':'' @ a"
  by (auto simp: inline_policies_def)

text \<open>A name is one policy of the world, to whomever it comes.\<close>

lemma named_policy:
  assumes "plain_world w" "plain_names ptype pid groups" "q \<in> set (PoliciesAt w ptype pid groups now)" "pName q \<noteq> []"
  shows "q \<in> set (Docs w) \<or> (\<exists>k. plain_key k \<and> find (\<lambda>x. pName x = pName q) (inline_policies w k) = Some q)"
proof -
  let ?docs = "filter (\<lambda>d. AppliesTo (pAppliesTo d) ptype pid groups) (Docs w) @
      found w (AttachedPolicyNames (Attach w) ptype pid groups) @ found w (concat (map taPolicies (ActiveTemporary w ptype pid groups now)))"
  let ?inl = "concat (map (inline_policies w) (principal_keys ptype pid groups))"
  have docs: "d \<in> set (Docs w)" if "d \<in> set ?docs" for d
    using that ByName_sound by (fastforce simp: found_def List.map_filter_def)
  have "q \<in> set (foldl add_policy [] (?docs @ ?inl))" using assms(3) unfolding PoliciesAt_sources by simp
  then have first: "find (\<lambda>x. pName x = pName q) (?docs @ ?inl) = Some q" using add_all_first [of q "[]" "?docs @ ?inl"] assms(4) by simp
  show ?thesis
  proof (cases "q \<in> set (Docs w)")
    case False
    have "q \<in> set (?docs @ ?inl)" using first unfolding find_Some_iff by (metis nth_mem)
    then have q: "q \<in> set ?inl" using False docs [of q] unfolding set_append Un_iff by blast
    then have "has_prefix (pName q) ''inline:''" by (auto simp: inline_policies_def has_prefix_def)
    then have "pName x \<noteq> pName q" if "x \<in> set ?docs" for x using docs [OF that] assms(1) by (auto simp: plain_world_def)
    then have "find (\<lambda>x. pName x = pName q) ?inl = Some q" using first find_append_None [of ?docs "\<lambda>x. pName x = pName q" ?inl] by simp
    then obtain k where "k \<in> set (principal_keys ptype pid groups)" "find (\<lambda>x. pName x = pName q) (inline_policies w k) = Some q"
      using find_concat by fastforce
    then show ?thesis using principal_keys_plain [OF assms(2)] by blast
  qed simp
qed

lemma same_name_same_policy:
  assumes "plain_world w" "plain_names t1 p1 g1" "q1 \<in> set (PoliciesAt w t1 p1 g1 n1)"
    and "plain_names t2 p2 g2" "q2 \<in> set (PoliciesAt w t2 p2 g2 n2)" and "pName q1 = pName q2" "pName q1 \<noteq> []"
  shows "q1 = q2"
proof -
  have inl: "has_prefix (pName q) ''inline:'' \<and> (\<exists>a. pName q = ''inline:'' @ k @ '':'' @ a)"
    if "find (\<lambda>x. pName x = pName q) (inline_policies w k) = Some q" for k q
    using that inline_name [of q w k] by (auto simp: find_Some_iff has_prefix_def)
  have doc: "q1 = q2" if "q1 \<in> set (Docs w)" "q2 \<in> set (Docs w)"
    using that assms(1,6) by (auto simp: plain_world_def distinct_map inj_on_def)
  have keyed: "q1 = q2" if k: "plain_key k" "find (\<lambda>x. pName x = pName q1) (inline_policies w k) = Some q1"
      "plain_key k'" "find (\<lambda>x. pName x = pName q2) (inline_policies w k') = Some q2" for k k'
  proof -
    obtain a where a: "pName q1 = ''inline:'' @ k @ '':'' @ a" using conjunct2 [OF inl [OF k(2)]] by (rule exE)
    obtain b where b: "pName q2 = ''inline:'' @ k' @ '':'' @ b" using conjunct2 [OF inl [OF k(4)]] by (rule exE)
    have "''inline:'' @ k @ '':'' @ a = ''inline:'' @ k' @ '':'' @ b" using assms(6) unfolding a b .
    then have "k @ '':'' @ a = k' @ '':'' @ b" by (simp only: same_append_eq)
    then have kk: "k = k'" using k(1,3) by (rule plain_key_split)
    have "Some q1 = Some q2" using k(2) [unfolded kk assms(6)] k(4) by (rule trans [OF sym])
    then show ?thesis by (rule option.inject [THEN iffD1])
  qed
  have apart: "\<not> has_prefix (pName q) ''inline:''" if "q \<in> set (Docs w)" for q using that assms(1) by (simp add: plain_world_def)
  have "pName q2 \<noteq> []" using assms(6,7) by simp
  note sources = named_policy [OF assms(1-3,7)] named_policy [OF assms(1,4,5) this]
  show ?thesis
  proof (cases "has_prefix (pName q2) ''inline:''")
    case True
    then have "q1 \<notin> set (Docs w)" "q2 \<notin> set (Docs w)" using apart [of q1] apart [of q2] unfolding assms(6) by blast+
    then show ?thesis using sources keyed by blast
  next
    case False
    then have "\<not> has_prefix (pName q1) ''inline:''" unfolding assms(6) .
    then show ?thesis using sources doc inl [of q1] inl [of q2] False by blast
  qed
qed

text \<open>
  The memo is valid: the engine kept for a name is that of every policy of the name in the generation's
  world.
\<close>

definition held :: "World \<Rightarrow> Policy \<Rightarrow> bool" where
  "held w pol \<longleftrightarrow> (\<exists>ptype pid groups now. plain_names ptype pid groups \<and> pol \<in> set (PoliciesAt w ptype pid groups now))"

definition valid_engines :: "cedar_api \<Rightarrow> (nat \<Rightarrow> World) \<Rightarrow> EngineCache \<Rightarrow> bool" where
  "valid_engines C W ec \<longleftrightarrow>
     (\<forall>n e. lookup (ecEngines ec) n = Some e \<longrightarrow>
        (\<forall>pol. held (W (ecGen ec)) pol \<and> pName pol = n \<longrightarrow> NewEngine C (pStatements pol) = Inr e))"

lemma engine_of_exact:
  assumes "valid_engines C W ec" "plain_world (W gen)" "held (W gen) pol"
  shows "fst (engine_of C gen pol ec) = NewEngine C (pStatements pol) \<and> valid_engines C W (snd (engine_of C gen pol ec))"
proof (cases "pName pol = []")
  case False
  define ec1 where "ec1 = (if ecGen ec \<noteq> gen then \<lparr>ecGen = gen, ecEngines = []\<rparr> else ec)"
  have ec1: "ecGen ec1 = gen" "valid_engines C W ec1" using assms(1) by (auto simp: ec1_def valid_engines_def)
  have same: "pStatements pol' = pStatements pol" if "held (W gen) pol'" "pName pol' = pName pol" for pol'
    using that assms(2,3) False same_name_same_policy unfolding held_def by metis
  show ?thesis
  proof (cases "lookup (ecEngines ec1) (pName pol)")
    case (Some e)
    then have "NewEngine C (pStatements pol) = Inr e" using ec1 assms(3) by (auto simp: valid_engines_def)
    then show ?thesis using Some False ec1(2) by (simp add: engine_of_def ec1_def [symmetric])
  next
    case None
    show ?thesis
    proof (cases "NewEngine C (pStatements pol)")
      case (Inr e)
      have "valid_engines C W (ec1\<lparr>ecEngines := put (pName pol) e (ecEngines ec1)\<rparr>)"
        using ec1 Inr same by (auto simp: valid_engines_def)
      then show ?thesis using None Inr False by (simp add: engine_of_def ec1_def [symmetric])
    qed (use None False ec1(2) in \<open>simp add: engine_of_def ec1_def [symmetric]\<close>)
  qed
qed (use assms in \<open>simp add: engine_of_def\<close>)

text \<open>
  C16. Reusing compiled engines changes no decision. Whatever generations and principals the evaluator served
  before, going through the policies a principal holds with the kept engines gives what compiling each policy
  anew gives, and the engines kept stay those of the policies they are kept for.\<close>

theorem kept_engines_are_exact:
  assumes "valid_engines C W ec" and "plain_world (W gen)" and "plain_names ptype pid groups"
  shows "fst (identity_policies_loop C gen req (PoliciesAt (W gen) ptype pid groups now) m ec) =
      identity_loop C req (PoliciesAt (W gen) ptype pid groups now) m \<and>
    valid_engines C W (snd (identity_policies_loop C gen req (PoliciesAt (W gen) ptype pid groups now) m ec))"
proof -
  have "fst (identity_policies_loop C gen req pols m ec) = identity_loop C req pols m \<and>
      valid_engines C W (snd (identity_policies_loop C gen req pols m ec))"
    if "valid_engines C W ec" "\<forall>pol \<in> set pols. held (W gen) pol" for pols
    using that
  proof (induction pols arbitrary: m ec)
    case (Cons pol pols)
    obtain r ec' where r: "engine_of C gen pol ec = (r, ec')" by fastforce
    then have "NewEngine C (pStatements pol) = r" "valid_engines C W ec'"
      using engine_of_exact [OF Cons.prems(1) assms(2), of pol] Cons.prems(2) by simp_all
    then show ?case using Cons r by (cases r) (auto simp: Let_def)
  qed simp
  moreover have "\<forall>pol \<in> set (PoliciesAt (W gen) ptype pid groups now). held (W gen) pol"
    using assms(3) unfolding held_def by blast
  ultimately show ?thesis using assms(1) by blast
qed

theorem kept_engines_are_exact_witness:
  "fst (identity_policies_loop sample_cedar 1 (sample_request []) (PoliciesAt sample_world ''User'' ''bob'' [''openinfra:eng''] 0) None
       \<lparr>ecGen = 0, ecEngines = []\<rparr>) =
     identity_loop sample_cedar (sample_request []) (PoliciesAt sample_world ''User'' ''bob'' [''openinfra:eng''] 0) None"
proof -
  have v: "valid_engines sample_cedar (\<lambda>_. sample_world) \<lparr>ecGen = 0, ecEngines = []\<rparr>" by (simp add: valid_engines_def)
  have w: "plain_world sample_world" unfolding plain_world_def by code_simp
  have n: "plain_names ''User'' ''bob'' [''openinfra:eng'']" unfolding plain_names_def by code_simp
  show ?thesis using kept_engines_are_exact [OF v w n] by blast
qed

text \<open>
  The rollout mode decides who decides: IAM policy under enforce, and for a labelled user or role under
  shadow; the old decision, or a refusal where there is none, otherwise. Under shadow a difference is logged
  exactly when there is one, and legacy overrides every label.\<close>

theorem mode_decides_who_decides:
  "fdAllowed (Decide m E p action resource ctx legacy ro) \<longleftrightarrow>
     (if m = ModeEnforce \<or> m = ModeShadow \<and> (prType p = User \<or> prType p = Role) \<and>
         (\<exists>w. aeWorld E = Some w \<and> lookup (Enforce w) (Key p) = Some True)
      then adAllowed (authorize E p action resource ctx ro) else legacy = Some True)"
  by (cases m) (auto simp: Decide_def ModeFor_def Let_def split: option.splits Mode.splits)

end
