(* ===== verification/AwsExport.thy ===== *)
theory AwsExport
  imports AwsImport
begin

text \<open>
  Statements written as policy documents of AWS, \<^verbatim>\<open>policyengine/importaws_export.go\<close>: the check of a
  document's shape, the ARN of a typed resource and the export of statements, the reverse of \<open>AwsImport\<close>.

  A document is what \<^verbatim>\<open>json.Unmarshal\<close> makes of the text, and what \<^verbatim>\<open>json.Marshal\<close> writes. Of several reasons
  to skip a statement the source reports one; the model reports the statement.
\<close>

subsection \<open>The shape of a document\<close>

datatype malformed =
    NotJson
  | BadVersion
  | StatementNotObject nat
  | StatementForm
  | NoStatement
  | BadEffect nat
  | ActionChoice nat
  | ResourceBoth nat
  | ResourceNone nat
  | ConditionForm nat
  | OperatorForm nat string

fun statement_objects :: "nat \<Rightarrow> json list \<Rightarrow> (malformed, json strmap list) result" where
  "statement_objects i [] = Inr []"
| "statement_objects i (JObj m # vs) = rbind (statement_objects (Suc i) vs) (\<lambda>ms. Inr (m # ms))"
| "statement_objects i (v # vs) = Inl (StatementNotObject i)"

definition sets :: "json strmap \<Rightarrow> string \<Rightarrow> bool" where
  "sets st k \<longleftrightarrow> lookup st k \<noteq> None"

definition check_statement :: "nat \<Rightarrow> json strmap \<Rightarrow> malformed option" where
  "check_statement i st =
     (let effect = str_or_empty (field st ''Effect'')
      in if effect \<noteq> ''Allow'' \<and> effect \<noteq> ''Deny'' then Some (BadEffect i)
         else if sets st ''Action'' = sets st ''NotAction'' then Some (ActionChoice i)
         else if sets st ''Resource'' \<and> sets st ''NotResource'' then Some (ResourceBoth i)
         else if \<not> sets st ''Resource'' \<and> \<not> sets st ''NotResource'' \<and> \<not> sets st ''Principal'' \<and> \<not> sets st ''NotPrincipal''
         then Some (ResourceNone i)
         else case lookup st ''Condition'' of
             None \<Rightarrow> None
           | Some (JObj cm) \<Rightarrow> map_option (OperatorForm i \<circ> fst) (find (\<lambda>(oper, b). case b of JObj _ \<Rightarrow> False | _ \<Rightarrow> True) cm)
           | Some _ \<Rightarrow> Some (ConditionForm i))"

fun check_statements :: "nat \<Rightarrow> json strmap list \<Rightarrow> malformed option" where
  "check_statements i [] = None"
| "check_statements i (st # sts) = (case check_statement i st of Some e \<Rightarrow> Some e | None \<Rightarrow> check_statements (Suc i) sts)"

text \<open>A JSON null decodes to the nil map, which has no statement.\<close>

definition ParseAWSDocument :: "json option \<Rightarrow> (malformed, json strmap) result" where
  "ParseAWSDocument decoded =
     (case decoded of
        Some (JObj doc) \<Rightarrow>
          if (case lookup doc ''Version'' of None \<Rightarrow> False
              | Some v \<Rightarrow> str_or_empty v \<noteq> ''2012-10-17'' \<and> str_or_empty v \<noteq> ''2008-10-17'') then Inl BadVersion
          else
            rbind (case field doc ''Statement'' of
                     JObj s \<Rightarrow> Inr [s]
                   | JArr vs \<Rightarrow> statement_objects 0 vs
                   | _ \<Rightarrow> Inl StatementForm) (\<lambda>stmts.
              if stmts = [] then Inl NoStatement
              else case check_statements 0 stmts of Some e \<Rightarrow> Inl e | None \<Rightarrow> Inr doc)
      | Some JNull \<Rightarrow> Inl StatementForm
      | _ \<Rightarrow> Inl NotJson)"

subsection \<open>ARNs of resources\<close>

text \<open>Per type: the service, region and account fields, and what stands around the name.\<close>

definition arn_forms :: "(string \<times> string \<times> string \<times> string \<times> string \<times> string) list" where
  "arn_forms =
     [(''Bucket'', ''s3'', [], [], [], []),
      (''Function'', ''lambda'', ''*'', ''*'', ''function:'', []),
      (''Queue'', ''sqs'', ''*'', ''*'', [], []),
      (''Topic'', ''sns'', ''*'', ''*'', [], []),
      (''Stream'', ''kinesis'', ''*'', ''*'', ''stream/'', []),
      (''Key'', ''kms'', ''*'', ''*'', ''key/'', []),
      (''Document'', ''ssm'', ''*'', ''*'', ''document/'', []),
      (''Parameter'', ''ssm'', ''*'', ''*'', ''parameter/'', []),
      (''Secret'', ''secretsmanager'', ''*'', ''*'', ''secret:'', []),
      (''Repository'', ''ecr'', ''*'', ''*'', ''repository/'', []),
      (''Service'', ''ecs'', ''*'', ''*'', ''service/*/'', []),
      (''LogGroup'', ''logs'', ''*'', ''*'', ''log-group:'', []),
      (''DBInstance'', ''rds'', ''*'', ''*'', ''db:'', []),
      (''DBSnapshot'', ''rds'', ''*'', ''*'', ''snapshot:'', []),
      (''Identity'', ''ses'', ''*'', ''*'', ''identity/'', []),
      (''Distribution'', ''cloudfront'', [], ''*'', ''distribution/'', []),
      (''CachePolicy'', ''cloudfront'', [], ''*'', ''cache-policy/'', []),
      (''OriginRequestPolicy'', ''cloudfront'', [], ''*'', ''origin-request-policy/'', []),
      (''ResponseHeadersPolicy'', ''cloudfront'', [], ''*'', ''response-headers-policy/'', []),
      (''OriginAccessControl'', ''cloudfront'', [], ''*'', ''origin-access-control/'', []),
      (''OriginAccessIdentity'', ''cloudfront'', [], ''*'', ''origin-access-identity/'', []),
      (''ElasticIp'', ''ec2'', ''*'', ''*'', ''elastic-ip/'', []),
      (''Instance'', ''ec2'', ''*'', ''*'', ''instance/'', []),
      (''Volume'', ''ec2'', ''*'', ''*'', ''volume/'', []),
      (''KeyPair'', ''ec2'', ''*'', ''*'', ''key-pair/'', []),
      (''SecurityGroup'', ''ec2'', ''*'', ''*'', ''security-group/'', []),
      (''Api'', ''apigateway'', ''*'', [], ''/restapis/'', []),
      (''Role'', ''iam'', [], ''*'', ''role/'', []),
      (''User'', ''iam'', [], ''*'', ''user/'', []),
      (''Policy'', ''iam'', [], ''*'', ''policy/'', []),
      (''StateMachine'', ''states'', ''*'', ''*'', ''stateMachine:'', []),
      (''Stack'', ''cloudformation'', ''*'', ''*'', ''stack/'', ''/*''),
      (''GraphQLApi'', ''appsync'', ''*'', ''*'', ''apis/'', []),
      (''Certificate'', ''acm'', ''*'', ''*'', ''certificate/'', []),
      (''Quota'', ''servicequotas'', ''*'', ''*'', [], []),
      (''UserPool'', ''cognito-idp'', ''*'', ''*'', ''userpool/'', []),
      (''Database'', ''glue'', ''*'', ''*'', ''database/'', []),
      (''WorkGroup'', ''athena'', ''*'', ''*'', ''workgroup/'', []),
      (''Cluster'', ''eks'', ''*'', ''*'', ''cluster/'', []),
      (''EventBus'', ''events'', ''*'', ''*'', ''event-bus/'', []),
      (''Rule'', ''events'', ''*'', ''*'', ''rule/'', [])]"

definition arn_text :: "string \<Rightarrow> string \<Rightarrow> string \<Rightarrow> string \<Rightarrow> string" where
  "arn_text svc region acct tail = ''arn:aws:'' @ svc @ '':'' @ region @ '':'' @ acct @ '':'' @ tail"

definition type_arn :: "string \<Rightarrow> string \<Rightarrow> string option" where
  "type_arn typ i =
     (if typ = ''Table'' then
        Some (arn_text (if CHR ''/'' \<in> set i then ''glue'' else ''dynamodb'') ''*'' ''*'' (''table/'' @ i))
      else case map_of arn_forms typ of
          Some (svc, region, acct, pre, post) \<Rightarrow> Some (arn_text svc region acct (pre @ i @ post))
        | None \<Rightarrow> None)"

definition ResourceARN :: "string \<Rightarrow> string option" where
  "ResourceARN res =
     (if res = ''*'' then Some ''*''
      else case cut res ''::'' of
          None \<Rightarrow> None
        | Some (typ, i) \<Rightarrow> if i = [] then None else type_arn typ i)"

text \<open>What a name must be like to be read back from its ARN.\<close>

definition readable :: "string \<Rightarrow> string \<Rightarrow> bool" where
  "readable typ i \<longleftrightarrow> i \<noteq> [] \<and>
     (if typ = ''Bucket'' then before i ''/'' \<noteq> []
      else if typ = ''Table'' then
        (case cut i ''/'' of None \<Rightarrow> True | Some (db, tbl) \<Rightarrow> db \<noteq> [] \<and> tbl \<noteq> [] \<and> CHR ''/'' \<notin> set tbl)
      else if typ = ''Topic'' \<or> typ = ''LogGroup'' \<or> typ = ''StateMachine'' then CHR '':'' \<notin> set i
      else if typ = ''Secret'' then strip_secret_suffix i = i
      else if typ \<in> {''Service'', ''Api'', ''Role'', ''User'', ''Policy'', ''Stack'', ''GraphQLApi'', ''Database'', ''Cluster'', ''EventBus''}
      then CHR ''/'' \<notin> set i
      else if typ = ''Quota'' then
        (case cut i ''/'' of None \<Rightarrow> False | Some (s, code) \<Rightarrow> s \<noteq> [] \<and> code \<noteq> [] \<and> CHR ''/'' \<notin> set code)
      else if typ = ''Rule'' then slashes i \<le> 1 \<and> \<not> has_suffix i ''/'' \<and> \<not> has_prefix i ''/''
      else True)"

lemma split_n_field:
  assumes "CHR '':'' \<notin> set u"
  shows "split_n (Suc (Suc n)) (CHR '':'') (u @ '':'' @ v) = u # split_n (Suc n) (CHR '':'') v"
proof -
  have "takeWhile (\<lambda>x. x \<noteq> CHR '':'') (u @ '':'' @ v) = u" "dropWhile (\<lambda>x. x \<noteq> CHR '':'') (u @ '':'' @ v) = '':'' @ v"
    using assms by (induction u) auto
  then show ?thesis by (simp add: Let_def del: append_Cons) simp
qed

lemma arnToResource_text:
  assumes "CHR '':'' \<notin> set svc" "CHR '':'' \<notin> set region" "CHR '':'' \<notin> set acct"
  shows "arnToResource (arn_text svc region acct tail) = resource_of svc tail"
proof -
  have "arn_text svc region acct tail = ''arn'' @ '':'' @ ''aws'' @ '':'' @ svc @ '':'' @ region @ '':'' @ acct @ '':'' @ tail"
    by (simp add: arn_text_def)
  then have "split_n 6 (CHR '':'') (arn_text svc region acct tail) = [''arn'', ''aws'', svc, region, acct, tail]"
    using assms split_n_field [of "''arn''"] split_n_field [of "''aws''"] split_n_field [of svc] split_n_field [of region] split_n_field [of acct]
    by (simp add: eval_nat_numeral del: append_Cons append_Nil split_n.simps(3))
  then show ?thesis by (simp add: arnToResource_def)
qed

lemma arn_forms_plain: "list_all (\<lambda>(typ, svc, region, acct, pre, post).
    CHR '':'' \<notin> set svc \<and> CHR '':'' \<notin> set region \<and> CHR '':'' \<notin> set acct) arn_forms"
  by code_simp

lemma cut_prefix_append [simp]: "cut_prefix (p @ n) p = Some n"
  by (simp add: cut_prefix_def has_prefix_def)

lemma index_of_absent: "c \<notin> set s \<Longrightarrow> index_of s [c] = None"
  by (induction s) (auto simp: has_prefix_def)

lemma index_of_first: "c \<notin> set u \<Longrightarrow> index_of (u @ c # v) [c] = Some (length u)"
  by (induction u) (auto simp: has_prefix_def)

lemma before_absent: "c \<notin> set s \<Longrightarrow> before s [c] = s"
  by (simp add: before_def cut_def index_of_absent)

lemma cut_first: "c \<notin> set u \<Longrightarrow> cut (u @ c # v) [c] = Some (u, v)"
  by (simp add: cut_def index_of_first)

lemma after_last_slash_plain: "CHR ''/'' \<notin> set i \<Longrightarrow> after_last_slash (p @ CHR ''/'' # i) = i"
proof -
  assume "CHR ''/'' \<notin> set i"
  then have "takeWhile (\<lambda>c. c \<noteq> CHR ''/'') (rev i @ CHR ''/'' # rev p) = rev i" by (auto simp: takeWhile_append2 takeWhile_tail)
  then show ?thesis by (simp add: after_last_slash_def)
qed

lemma cut_join: "cut s sep = Some (u, v) \<Longrightarrow> s = u @ sep @ v"
  using index_of_Some [of s sep] by (fastforce simp: cut_def)

lemma arn_read_back:
  assumes "(typ, svc, region, acct, pre, post) \<in> set arn_forms" "readable typ i"
  shows "resource_of svc (pre @ i @ post) = Some (typ @ ''::'' @ i)"
  using assms(1) unfolding arn_forms_def list.set insert_iff empty_iff Pair_inject
  apply (elim disjE conjE FalseE)
  apply (use assms(2) in \<open>simp_all add: resource_of_def readable_def typed_def cut_typed_def cut_prefix_def has_prefix_def unslashed_def\<close>)
  apply (simp_all add: before_absent cut_first)
  apply (use after_last_slash_plain [of i "''*''"] in simp)
  apply (simp add: typed_def)
  apply (use cut_join [of i "''/''"] in \<open>auto split: option.splits\<close>)
  done

lemma table_read_back:
  assumes "readable ''Table'' i"
  shows "resource_of (if CHR ''/'' \<in> set i then ''glue'' else ''dynamodb'') (''table/'' @ i) = Some (''Table::'' @ i)"
proof (cases "CHR ''/'' \<in> set i")
  case True
  then obtain db tbl where i: "i = db @ CHR ''/'' # tbl" "CHR ''/'' \<notin> set db" by (meson split_list_first)
  then have "cut i ''/'' = Some (db, tbl)" by (simp add: cut_first)
  then show ?thesis using assms True
    by (simp add: resource_of_def readable_def cut_prefix_def has_prefix_def unslashed_def cut_typed_def i(1))
qed (use assms in \<open>simp add: resource_of_def readable_def cut_typed_def cut_prefix_def has_prefix_def typed_def\<close>)

lemma arn_roundtrip:
  assumes "ResourceARN res = Some a" and "cut res ''::'' = Some (typ, i)" and "readable typ i"
  shows "arnToResource a = Some res"
proof -
  have res: "res = typ @ ''::'' @ i" by (rule cut_join [OF assms(2)])
  have "i \<noteq> []" using assms(3) by (simp add: readable_def)
  then have t: "type_arn typ i = Some a" using assms(1,2) res by (cases "typ") (auto simp: ResourceARN_def split: if_splits)
  show ?thesis
  proof (cases "typ = ''Table''")
    case True
    then show ?thesis using t table_read_back [of i] assms(3) res by (auto simp: type_arn_def arnToResource_text split: if_splits)
  next
    case False
    then obtain svc region acct pre post where m: "map_of arn_forms typ = Some (svc, region, acct, pre, post)"
        "a = arn_text svc region acct (pre @ i @ post)" using t by (auto simp: type_arn_def split: option.splits)
    note f = map_of_SomeD [OF m(1)]
    have "CHR '':'' \<notin> set svc \<and> CHR '':'' \<notin> set region \<and> CHR '':'' \<notin> set acct"
      using bspec [OF arn_forms_plain [unfolded list_all_iff] f] by simp
    then show ?thesis using arn_read_back [OF f assms(3)] by (simp add: m(2) arnToResource_text res)
  qed
qed

text \<open>
  The ARN of a typed resource is read back as that resource by the import, for every type that has one
  and every name of the form the type allows.\<close>

theorem resource_arn_roundtrip:
  assumes "ResourceARN res = Some a" and "cut res ''::'' = Some (typ, i)" and "readable typ i"
  shows "arnToResource a = Some res"
  by (rule arn_roundtrip [OF assms])

theorem resource_arn_roundtrip_witness:
  "ResourceARN ''Stack::web'' = Some ''arn:aws:cloudformation:*:*:stack/web/*'' \<and>
   arnToResource ''arn:aws:cloudformation:*:*:stack/web/*'' = Some ''Stack::web''"
proof -
  have a: "ResourceARN ''Stack::web'' = Some ''arn:aws:cloudformation:*:*:stack/web/*''" by code_simp
  have c: "cut ''Stack::web'' ''::'' = Some (''Stack'', ''web'')" by code_simp
  have r: "readable ''Stack'' ''web''" by code_simp
  show ?thesis using a resource_arn_roundtrip [OF a c r] by blast
qed

text \<open>
  A secret whose name ends in a dash and six letters or digits is read back without them: a statement on one
  secret is exported as one on another.\<close>

theorem secret_suffix_lost:
  "ResourceARN ''Secret::db-master'' = Some ''arn:aws:secretsmanager:*:*:secret:db-master'' \<and>
   arnToResource ''arn:aws:secretsmanager:*:*:secret:db-master'' = Some ''Secret::db''"
  by code_simp

subsection \<open>Export\<close>

definition awsConditionKey :: "string \<Rightarrow> string" where
  "awsConditionKey attr =
     (case find (\<lambda>k. Attr k = attr) SupportedConditionKeys of
        None \<Rightarrow> attr
      | Some k \<Rightarrow> (case find (\<lambda>a. CHR '':'' \<in> set a) (Aliases k) of Some a \<Rightarrow> a | None \<Rightarrow> hd (Aliases k)))"

definition conditionType :: "string \<Rightarrow> condType option" where
  "conditionType attr = map_option Type (find (\<lambda>k. Attr k = attr) SupportedConditionKeys)"

definition awsDateOp :: "string \<Rightarrow> string" where
  "awsDateOp oper =
     (if oper = ''>'' then ''DateGreaterThan'' else if oper = ''>='' then ''DateGreaterThanEquals''
      else if oper = ''<'' then ''DateLessThan'' else if oper = ''<='' then ''DateLessThanEquals'' else [])"

definition awsKeyOp :: "KeyCondition \<Rightarrow> string" where
  "awsKeyOp kc =
     (if kcOp kc = KeyNull then ''Null''
      else
        let suffix = (if kcIfExists kc then ''IfExists'' else [])
        in if kc_kind kc = ''bool'' then if kcOp kc \<noteq> ''=='' then [] else ''Bool'' @ suffix
           else case find (\<lambda>(oper, cmp). cmp = kcOp kc) numericOps of Some (oper, cmp) \<Rightarrow> oper @ suffix | None \<Rightarrow> [])"

text \<open>What a condition is written as, None when it has no form; and the condition block, None for a second value of one key.\<close>

definition export_equality :: "string \<times> string \<Rightarrow> (string \<times> string \<times> json) option" where
  "export_equality = (\<lambda>(k, v).
     case conditionType k of
       None \<Rightarrow> None
     | Some t \<Rightarrow>
         if t = condBool then Some (''Bool'', awsConditionKey k, JStr v)
         else if t = condTime then None else Some (''StringEquals'', awsConditionKey k, JStr v))"

definition export_ip :: "IPCondition \<Rightarrow> string \<times> string \<times> json" where
  "export_ip ip = (if ipNegate ip then ''NotIpAddress'' else ''IpAddress'', awsConditionKey (ipKey ip), JStr (ipCIDR ip))"

definition export_like :: "LikeCondition \<Rightarrow> string \<times> string \<times> json" where
  "export_like lk = (if lcNegate lk then ''StringNotLike'' else ''StringLike'', awsConditionKey (lcKey lk), JStr (lcPattern lk))"

definition export_time :: "TimeCondition \<Rightarrow> (string \<times> string \<times> json) option" where
  "export_time tc = (if awsDateOp (tcOp tc) = [] then None else Some (awsDateOp (tcOp tc), awsConditionKey (tcKey tc), JStr (tcTarget tc)))"

definition export_key :: "KeyCondition \<Rightarrow> (string \<times> string \<times> json) option" where
  "export_key kc = (if awsKeyOp kc = [] then None else Some (awsKeyOp kc, awsConditionKey (kcKey kc), JStr (kcValue kc)))"

definition export_entries :: "Statement \<Rightarrow> (string \<times> string \<times> json) option list" where
  "export_entries s = map export_equality (sorted_conditions (Condition s)) @ map (Some \<circ> export_ip) (IPConditions s) @
     map (Some \<circ> export_like) (LikeConditions s) @ map export_time (TimeConditions s) @ map export_key (KeyConditions s)"

fun put_condition :: "(string \<times> string \<times> json) option list \<Rightarrow> json strmap strmap \<Rightarrow> json strmap strmap option" where
  "put_condition [] cond = Some cond"
| "put_condition (None # es) cond = None"
| "put_condition (Some (oper, key, v) # es) cond =
     (let m = (case lookup cond oper of None \<Rightarrow> [] | Some m \<Rightarrow> m)
      in if lookup m key \<noteq> None then None else put_condition es (put oper (put key v m) cond))"

definition strings :: "string \<Rightarrow> string list \<Rightarrow> json strmap" where
  "strings k xs = (if xs = [] then [] else [(k, JArr (map JStr xs))])"

definition export_statement :: "Statement \<Rightarrow> json strmap option" where
  "export_statement s =
     (let acts = (if Actions s = [] \<and> NotActions s = [] then [''*''] else Actions s);
          arns = map ResourceARN (Resources s); narns = map ResourceARN (NotResources s);
          res = (if Resources s = [] \<and> NotResources s = [] then [''*''] else map the arns)
      in if None \<in> set arns \<or> None \<in> set narns then None
         else case put_condition (export_entries s) [] of
             None \<Rightarrow> None
           | Some cond \<Rightarrow>
               Some ([(''Effect'', JStr (Effect s))] @ strings ''Action'' acts @ strings ''NotAction'' (NotActions s) @
                 strings ''Resource'' res @ strings ''NotResource'' (map the narns) @
                 (if cond = [] then [] else [(''Condition'', JObj (map (\<lambda>(oper, m). (oper, JObj m)) cond))])))"

definition ExportAWS :: "Statement list \<Rightarrow> json \<times> nat list" where
  "ExportAWS stmts =
     (let sts = List.map_filter export_statement stmts
      in (JObj [(''Version'', JStr ''2012-10-17''), (''Statement'', if sts = [] then JNull else JArr (map JObj sts))],
          map fst (filter (\<lambda>(i, s). export_statement s = None) (List.enumerate 0 stmts))))"

text \<open>What the export takes for granted of conditions: their keys are supported and their values are of the key's type.\<close>

definition known_key :: "string \<Rightarrow> bool" where
  "known_key k \<longleftrightarrow> conditionType k \<noteq> None"

definition proper_key :: "KeyCondition \<Rightarrow> bool" where
  "proper_key kc \<longleftrightarrow> known_key (kcKey kc) \<and>
     (if kcOp kc = KeyNull then kcValue kc = ''true'' \<or> kcValue kc = ''false''
      else kc_kind kc = ''bool'' \<or> parse_int64 (kcValue kc) \<noteq> None)"

definition proper_conditions :: "Statement \<Rightarrow> bool" where
  "proper_conditions s \<longleftrightarrow>
     (\<forall>(k, v) \<in> set (Condition s). (conditionType k = Some condBool) = (v = ''true'' \<or> v = ''false'')) \<and>
     (\<forall>ip \<in> set (IPConditions s). known_key (ipKey ip)) \<and> (\<forall>lk \<in> set (LikeConditions s). known_key (lcKey lk)) \<and>
     (\<forall>tc \<in> set (TimeConditions s). known_key (tcKey tc)) \<and>
     (\<forall>kc \<in> set (KeyConditions s). proper_key kc)"

lemma known_key_resolves:
  assumes "known_key k"
  obtains ck where "resolveConditionKey (awsConditionKey k) = Some ck" "Attr ck = k"
proof -
  have all: "list_all (\<lambda>ck. case resolveConditionKey (awsConditionKey (Attr ck)) of None \<Rightarrow> False | Some ck' \<Rightarrow> Attr ck' = Attr ck)
      SupportedConditionKeys" by code_simp
  obtain ck where ck: "ck \<in> set SupportedConditionKeys" "Attr ck = k"
    using assms unfolding known_key_def conditionType_def by (auto simp: find_None_iff)
  have "case resolveConditionKey (awsConditionKey (Attr ck)) of None \<Rightarrow> False | Some ck' \<Rightarrow> Attr ck' = Attr ck"
    using bspec [OF all [unfolded list_all_iff] ck(1)] .
  then show thesis using that ck(2) by (auto split: option.splits)
qed

lemma exported_holds: "known_key k \<Longrightarrow> entry_holds C c (oper, awsConditionKey k, JStr v) \<longleftrightarrow> aws_holds C c oper k v"
  by (elim known_key_resolves) (simp add: entry_holds_def)

lemma export_equality_holds:
  assumes "export_equality (k, v) = Some e" "(conditionType k = Some condBool) = (v = ''true'' \<or> v = ''false'')"
  shows "entry_holds C c e \<longleftrightarrow> equals_holds c (k, v)"
proof -
  have k: "known_key k" using assms(1) by (auto simp: export_equality_def known_key_def split: option.splits)
  show ?thesis
  proof (cases "conditionType k = Some condBool")
    case True
    then have "e = (''Bool'', awsConditionKey k, JStr v)" "v = ''true'' \<or> v = ''false''" using assms by (auto simp: export_equality_def)
    then show ?thesis using exported_holds [OF k] by (elim disjE) (simp_all add: aws_holds_simps equals_holds_def truth_texts)
  next
    case False
    then have "e = (''StringEquals'', awsConditionKey k, JStr v)" "v \<noteq> ''true''" "v \<noteq> ''false''"
      using assms by (auto simp: export_equality_def split: option.splits if_splits)
    then show ?thesis using exported_holds [OF k] by (simp add: aws_holds_simps equals_holds_def)
  qed
qed

lemma export_ip_holds: "known_key (ipKey ip) \<Longrightarrow> entry_holds C c (export_ip ip) \<longleftrightarrow> ip_holds C c ip"
  by (cases ip) (simp add: export_ip_def exported_holds aws_holds_simps)

lemma export_like_holds: "known_key (lcKey lk) \<Longrightarrow> entry_holds C c (export_like lk) \<longleftrightarrow> like_holds c lk"
  by (cases lk) (simp add: export_like_def exported_holds aws_holds_simps)

lemma export_time_holds: "known_key (tcKey tc) \<Longrightarrow> export_time tc = Some e \<Longrightarrow> entry_holds C c e \<longleftrightarrow> time_holds C c tc"
  by (cases tc) (auto simp: export_time_def awsDateOp_def exported_holds aws_holds_simps split: if_splits)

lemma trim_space_int: "parse_int64 v = Some n \<Longrightarrow> trim_space v = v"
proof -
  assume "parse_int64 v = Some n"
  then have *: "list_all (\<lambda>c. is_digit c \<or> c = CHR ''-'' \<or> c = CHR ''+'') v"
    by (auto simp: parse_int64_def Let_def list_all_iff split: list.splits if_splits)
  have "is_digit c \<or> c = CHR ''-'' \<or> c = CHR ''+'' \<Longrightarrow> \<not> is_space c" for c by (auto simp: is_digit_def is_space_def)
  then have "list_all (\<lambda>c. \<not> is_space c) v" using * by (auto simp: list_all_iff)
  moreover have "list_all (\<lambda>c. \<not> is_space c) u \<Longrightarrow> dropWhile is_space u = u" for u by (cases u) auto
  ultimately show ?thesis using list_all_rev [of "\<lambda>c. \<not> is_space c" v] by (simp add: trim_space_def del: list_all_rev)
qed

lemma numericOps_suffixed:
  assumes "find (\<lambda>(oper, cmp). cmp = x) numericOps = Some (oper, cmp)"
  shows "cmp = x" "lookup numericOps oper = Some x" "trim_suffix oper ''IfExists'' = oper" "\<not> has_suffix oper ''IfExists''"
    "trim_suffix (oper @ ''IfExists'') ''IfExists'' = oper" "has_suffix (oper @ ''IfExists'') ''IfExists''"
    "oper \<noteq> ''Null''" "oper @ ''IfExists'' \<noteq> ''Null''"
proof -
  have all: "list_all (\<lambda>(oper, cmp). lookup numericOps oper = Some cmp \<and> trim_suffix oper ''IfExists'' = oper \<and>
      \<not> has_suffix oper ''IfExists'' \<and> trim_suffix (oper @ ''IfExists'') ''IfExists'' = oper \<and>
      has_suffix (oper @ ''IfExists'') ''IfExists'' \<and> oper \<noteq> ''Null'' \<and> oper @ ''IfExists'' \<noteq> ''Null'') numericOps" by code_simp
  have m: "(oper, cmp) \<in> set numericOps" "cmp = x" using assms nth_mem unfolding find_Some_iff by (metis, fastforce)
  show "cmp = x" "lookup numericOps oper = Some x" "trim_suffix oper ''IfExists'' = oper" "\<not> has_suffix oper ''IfExists''"
    "trim_suffix (oper @ ''IfExists'') ''IfExists'' = oper" "has_suffix (oper @ ''IfExists'') ''IfExists''"
    "oper \<noteq> ''Null''" "oper @ ''IfExists'' \<noteq> ''Null''"
    using bspec [OF all [unfolded list_all_iff] m(1)] m(2) by simp_all
qed

lemma bool_suffixed:
  "trim_suffix ''BoolIfExists'' ''IfExists'' = ''Bool''" "has_suffix ''BoolIfExists'' ''IfExists''"
  by code_simp+

lemma export_key_holds:
  assumes "export_key kc = Some e" "proper_key kc"
  shows "entry_holds C c e \<longleftrightarrow> key_holds c kc"
proof -
  have k: "known_key (kcKey kc)" using assms(2) by (simp add: proper_key_def)
  have e: "e = (awsKeyOp kc, awsConditionKey (kcKey kc), JStr (kcValue kc))" "awsKeyOp kc \<noteq> []"
    using assms(1) by (auto simp: export_key_def split: if_splits)
  have "aws_holds C c (awsKeyOp kc) (kcKey kc) (kcValue kc) \<longleftrightarrow> key_holds c kc"
  proof (cases "kcOp kc = KeyNull")
    case True
    then have "awsKeyOp kc = ''Null''" "kcValue kc = ''true'' \<or> kcValue kc = ''false''"
      using assms(2) by (simp_all add: awsKeyOp_def proper_key_def)
    then show ?thesis using True by (elim disjE) (simp_all add: aws_holds_def key_holds_def truth_texts split: option.splits)
  next
    case op: False
    show ?thesis
    proof (cases "kc_kind kc = ''bool''")
      case True
      then have v: "kcValue kc = ''true'' \<or> kcValue kc = ''false''" by (auto simp: kc_kind_def split: if_splits)
      have o: "kcOp kc = ''==''" "awsKeyOp kc = ''Bool'' @ (if kcIfExists kc then ''IfExists'' else [])"
        using e(2) op True by (auto simp: awsKeyOp_def split: if_splits)
      have l: "key_literal kc = CBool (kcValue kc = ''true'')" using True by (simp add: key_literal_def)
      show ?thesis using v
        by (elim disjE; cases "kcIfExists kc")
          (auto simp: o l op aws_holds_def Let_def key_holds_def truth_texts plain_operators bool_suffixed KeyNull_def compares_def split: option.splits)
    next
      case False
      then obtain n where n: "parse_int64 (kcValue kc) = Some n" using assms(2) op by (auto simp: proper_key_def)
      obtain oper cmp where f: "find (\<lambda>(oper, cmp). cmp = kcOp kc) numericOps = Some (oper, cmp)"
          "awsKeyOp kc = oper @ (if kcIfExists kc then ''IfExists'' else [])"
        using e(2) op False by (auto simp: awsKeyOp_def split: option.splits if_splits)
      note s = numericOps_suffixed [OF f(1)]
      have l: "key_literal kc = CLong n" using False n by (simp add: key_literal_def)
      show ?thesis using numericOps_cases [OF s(2)] op
        by (cases "kcIfExists kc") (simp_all add: f(2) s l n trim_space_int [OF n] aws_holds_def Let_def key_holds_def split: option.splits)
    qed
  qed
  then show ?thesis by (simp add: e exported_holds [OF k])
qed


definition readable_resource :: "string \<Rightarrow> bool" where
  "readable_resource r \<longleftrightarrow> r = ''*'' \<or> (case cut r ''::'' of Some (typ, i) \<Rightarrow> readable typ i | None \<Rightarrow> False)"

lemma exported_arn_names:
  assumes "ResourceARN r = Some a" "readable_resource r"
  shows "arn_names a x \<longleftrightarrow> entry_names True r x"
proof (cases "r = ''*''")
  case True
  then show ?thesis using assms(1) by (simp add: ResourceARN_def arn_names_def import_resource_def)
next
  case False
  then obtain ty i where r: "cut r ''::'' = Some (ty, i)" "readable ty i"
    using assms(2) by (auto simp: readable_resource_def split: option.splits)
  have a: "arnToResource a = Some r" by (rule arn_roundtrip [OF assms(1) r])
  have "arnToResource ''*'' = None" by code_simp
  then have "a \<noteq> ''*''" using a by auto
  then show ?thesis using a by (simp add: arn_names_def import_resource_def)
qed

lemma awsList_texts [simp]: "awsList (JArr (map JStr xs)) = xs"
  by (induction xs) (auto simp: List.map_filter_simps)

definition flat_entries :: "json strmap strmap \<Rightarrow> (string \<times> string \<times> json) list" where
  "flat_entries cond = concat (map (\<lambda>(oper, m). map (Pair oper) m) cond)"

lemma condition_entries_objects: "condition_entries (map (\<lambda>(oper, m). (oper, JObj m)) cond) = flat_entries cond"
  by (induction cond) (auto simp: condition_entries_def flat_entries_def)

lemma set_flat_entries: "set (flat_entries []) = {}" "set (flat_entries ((k, m) # cond)) = Pair k ` set m \<union> set (flat_entries cond)"
  by (simp_all add: flat_entries_def)

lemma flat_entries_put:
  assumes "lookup (case lookup cond oper of None \<Rightarrow> [] | Some m \<Rightarrow> m) key = None"
  shows "set (flat_entries (put oper (put key v (case lookup cond oper of None \<Rightarrow> [] | Some m \<Rightarrow> m)) cond)) =
    insert (oper, key, v) (set (flat_entries cond))"
  using assms
proof (induction cond)
  case (Cons p cond)
  obtain k m where p: "p = (k, m)" by (cases p)
  show ?case
  proof (cases "oper = k")
    case True
    then show ?thesis using Cons.prems by (simp add: p lookup_def set_flat_entries set_put_fresh [unfolded lookup_def])
  next
    case False
    then show ?thesis using Cons by (simp add: p lookup_def set_flat_entries insert_commute)
  qed
qed (simp add: set_flat_entries lookup_def)

lemma put_condition_entries:
  "put_condition es cond = Some cond' \<Longrightarrow>
   None \<notin> set es \<and> set (flat_entries cond') = set (flat_entries cond) \<union> the ` set es"
proof (induction es cond rule: put_condition.induct)
  case (3 oper key v es cond)
  then show ?case by (auto simp: Let_def flat_entries_put split: if_splits)
qed auto


lemma exported_conditions:
  assumes "put_condition (export_entries s) [] = Some cond" "proper_conditions s"
  shows "(\<forall>e \<in> set (flat_entries cond). entry_holds C c e) \<longleftrightarrow>
    conditions_hold C c s \<and> (\<forall>kc \<in> set (KeyConditions s). key_holds c kc)"
proof -
  have es: "None \<notin> set (export_entries s)" "set (flat_entries cond) = the ` set (export_entries s)"
    using put_condition_entries [OF assms(1)] by (auto simp: flat_entries_def)
  have all: "\<forall>x \<in> set xs. f x \<noteq> None \<and> (entry_holds C c (the (f x)) \<longleftrightarrow> P x) \<Longrightarrow>
      (\<forall>e \<in> the ` f ` set xs. entry_holds C c e) \<longleftrightarrow> (\<forall>x \<in> set xs. P x)" for f :: "'a \<Rightarrow> (string \<times> string \<times> json) option" and xs P
    by auto
  have hit: "None \<notin> set (map f xs) \<Longrightarrow> x \<in> set xs \<Longrightarrow> f x \<noteq> None" for f :: "'a \<Rightarrow> 'b option" and x xs
    by (metis image_eqI set_map)
  have parts: "None \<notin> set (map export_equality (sorted_conditions (Condition s)))" "None \<notin> set (map export_time (TimeConditions s))"
      "None \<notin> set (map export_key (KeyConditions s))"
    using es(1) unfolding export_entries_def set_append Un_iff de_Morgan_disj by simp_all
  have some: "export_equality x \<noteq> None" if x: "x \<in> set (Condition s)" for x
    by (rule hit [OF parts(1)]) (simp add: sorted_conditions_def x)
  have some_time: "export_time x \<noteq> None" if x: "x \<in> set (TimeConditions s)" for x
    by (rule hit [OF parts(2) x])
  have some_key: "export_key x \<noteq> None" if x: "x \<in> set (KeyConditions s)" for x
    by (rule hit [OF parts(3) x])
  have eq: "\<forall>x \<in> set (Condition s). export_equality x \<noteq> None \<and> (entry_holds C c (the (export_equality x)) \<longleftrightarrow> equals_holds c x)"
  proof
    fix x assume x: "x \<in> set (Condition s)"
    obtain k v where kv: "x = (k, v)" by (cases x)
    have "(conditionType k = Some condBool) = (v = ''true'' \<or> v = ''false'')"
      using bspec [OF conjunct1 [OF assms(2) [unfolded proper_conditions_def]] x] by (simp add: kv)
    then show "export_equality x \<noteq> None \<and> (entry_holds C c (the (export_equality x)) \<longleftrightarrow> equals_holds c x)"
      using some [OF x] export_equality_holds [of k v "the (export_equality x)"] by (simp add: kv)
  qed
  have time: "\<forall>x \<in> set (TimeConditions s). export_time x \<noteq> None \<and> (entry_holds C c (the (export_time x)) \<longleftrightarrow> time_holds C c x)"
    using some_time assms(2) export_time_holds unfolding proper_conditions_def by simp
  have keyed: "\<forall>x \<in> set (KeyConditions s). export_key x \<noteq> None \<and> (entry_holds C c (the (export_key x)) \<longleftrightarrow> key_holds c x)"
    using some_key assms(2) export_key_holds unfolding proper_conditions_def by simp
  have ip: "\<forall>x \<in> set (IPConditions s). (Some \<circ> export_ip) x \<noteq> None \<and> (entry_holds C c (the ((Some \<circ> export_ip) x)) \<longleftrightarrow> ip_holds C c x)"
    using assms(2) by (simp add: proper_conditions_def export_ip_holds)
  have like: "\<forall>x \<in> set (LikeConditions s). (Some \<circ> export_like) x \<noteq> None \<and> (entry_holds C c (the ((Some \<circ> export_like) x)) \<longleftrightarrow> like_holds c x)"
    using assms(2) by (simp add: proper_conditions_def export_like_holds)
  show ?thesis
    unfolding es(2) export_entries_def set_append set_map image_Un ball_Un sorted_conditions_def set_sort
      all [OF eq] all [OF time] all [OF keyed] all [OF ip] all [OF like] conditions_hold_def by blast
qed



definition sample_native :: Statement where
  "sample_native = \<lparr>Effect = Allow, Actions = [''s3:GetObject''], NotActions = [], Resources = [''Bucket::assets''], NotResources = [],
     Condition = [(''username'', ''alice'')], IPConditions = [], LikeConditions = [], TimeConditions = [], KeyConditions = []\<rparr>"


end
