(* ===== verification/CfnStack.thy ===== *)
theory CfnStack
  imports Json "HOL-Library.AList"
begin

text \<open>
  What the operations on a CloudFormation stack do to the cluster: \<^verbatim>\<open>cfn/deploy.go\<close> (ownership and
  application), \<^verbatim>\<open>cfn/destroy.go\<close>, \<^verbatim>\<open>cfn/bucket_teardown.go\<close>, \<^verbatim>\<open>cfn/table_teardown.go\<close> and the
  restoring half of \<^verbatim>\<open>cfn/update.go\<close>.

  The cluster is the objects of the stack's namespace by API version, kind and name, the stack's stored
  record, and what the hooks reach: buckets, tables, nested stacks and REST APIs; the power state of virtual
  machines, which the program sets under another field manager, is kept beside the objects (\<open>stopped\<close>). Every call to the cluster
  can fail, each independently: call number \<open>n\<close> has the outcome \<open>outcome_at e n\<close>, and a call that fails
  changes nothing. Between a check and a create another party may create the object (\<open>racing\<close>). The
  string \<^verbatim>\<open>apiVersion/kind/name\<close> that keys the program's maps is the triple, as kinds and object names hold
  no slash. An event keeps its logical id and status; reasons, times and physical ids are left out, as
  is from the fault of a physical name that is held who holds it.
\<close>

subsection \<open>Objects, records and the cluster\<close>

type_synonym okey = "string \<times> string \<times> string"

record obj =
  oLabels :: "string strmap"
  oAnnotations :: "string strmap"
  oSpec :: "json strmap"

record StackResource =
  LogicalID :: string
  rAPIVersion :: string
  rKind :: string
  rName :: string
  DeletionPolicy :: string
  rSpec :: "json strmap"
  ProvisionedID :: string
  Protected :: bool
  rStatus :: string
  SignalData :: string

record builtResource =
  res :: StackResource
  bAnnotations :: "string strmap"
  shared :: bool
  requires :: "okey list"
  signals :: bool
  after :: "string list"

datatype fault =
    CallFailed
  | Unauthorized
  | RequirementMissing okey
  | LeftBehind okey
  | NoStackCreated okey
  | OtherStack okey string
  | NameHeld okey okey
  | TableAlreadyExists string
  | BucketNotEmpty string string
  | NoNestedStacks string
  | FunctionAnswered string
  | NoNamespace
  | NoStack
  | TerminationProtected
  | SnapshotPolicy "string list"
  | ProtectedResources "string list"
  | UpdateNotSupported string
  | OutputsUnresolved
  | CannotRestart string
  | NoLongerExists string
  | BuildRefused

record StackRecord =
  sStatus :: string
  sMessage :: "fault list"
  sResources :: "StackResource list"
  sPending :: "StackResource list"
  Restarting :: "string list"
  Outputs :: "string list"
  OutputsOmitted :: bool
  TerminationProtection :: bool
  Events :: "(string \<times> string) list"

record world =
  objs :: "(okey \<times> obj) list"
  stored :: "StackRecord option"
  buckets :: "(string \<times> bool) list"
  tables :: "string list"
  nested :: "string list"
  rest_apis :: "string list"
  stopped :: "okey list"
  calls :: nat

datatype outcome = Done | Fails | Denied

text \<open>
  \<open>outcome_at\<close>, \<open>reply_at\<close> (the status of a Function's answer), \<open>outputs_at\<close> (the Outputs, None when one does
  not resolve) and \<open>signals_at\<close> are indexed by the number of the call; \<open>pick\<close> decides which of several waits
  that run together ends next.
\<close>

record env =
  outcome_at :: "nat \<Rightarrow> outcome"
  reply_at :: "nat \<Rightarrow> string option"
  outputs_at :: "nat \<Rightarrow> string list option"
  signals_at :: "nat \<Rightarrow> string"
  pick :: "nat \<Rightarrow> nat"
  racing :: "okey \<Rightarrow> obj option"

text \<open>The options of an operation, and which optional capabilities the applier and the caller have.\<close>

record options =
  StackName :: string
  Namespace :: string
  Wait :: bool
  Invoke :: bool
  DeprovisionRestAPI :: bool
  NestedStacks :: bool
  BucketData :: bool
  RemoveBucket :: bool
  TableExists :: bool
  RemoveTable :: bool
  LabelReader :: bool
  Creator :: bool
  Lister :: bool
  PowerSetter :: bool

definition objectKey :: "StackResource \<Rightarrow> okey" where
  "objectKey r = (rAPIVersion r, rKind r, rName r)"

definition labelStack :: string where
  "labelStack = ''cfn.openinfra.dev/stack''"

definition owner_of :: "string strmap \<Rightarrow> string" where
  "owner_of labels = (case lookup labels labelStack of None \<Rightarrow> [] | Some s \<Rightarrow> s)"

definition renderManifest :: "options \<Rightarrow> StackResource \<Rightarrow> string strmap \<Rightarrow> obj" where
  "renderManifest op r ann =
     \<lparr>oLabels = [(labelStack, StackName op), (''app.kubernetes.io/managed-by'', ''cfn'')], oAnnotations = ann, oSpec = rSpec r\<rparr>"

definition renderStackResource :: "options \<Rightarrow> StackResource \<Rightarrow> obj" where
  "renderStackResource op r = renderManifest op r []"

subsection \<open>Kinds of resource\<close>

definition cfnKind :: "string \<Rightarrow> StackResource \<Rightarrow> bool" where
  "cfnKind kind r \<longleftrightarrow> rAPIVersion r = ''cfn.openinfra.dev/v1'' \<and> rKind r = kind"

definition IsSignalWait :: "StackResource \<Rightarrow> bool" where
  "IsSignalWait r = cfnKind ''SignalWait'' r"

definition IsNestedStack :: "StackResource \<Rightarrow> bool" where
  "IsNestedStack r = cfnKind ''NestedStack'' r"

definition IsCustomResource :: "StackResource \<Rightarrow> bool" where
  "IsCustomResource r = cfnKind ''CustomResourceInvoke'' r"

definition IsRestV1API :: "StackResource \<Rightarrow> bool" where
  "IsRestV1API r = cfnKind ''ApiGatewayRestV1Provision'' r"

definition isOutOfBand :: "StackResource \<Rightarrow> bool" where
  "isOutOfBand r \<longleftrightarrow> IsCustomResource r \<or> IsRestV1API r \<or> IsSignalWait r \<or> IsNestedStack r"

definition equal_fold :: "string \<Rightarrow> string \<Rightarrow> bool" where
  "equal_fold a b \<longleftrightarrow> to_lower a = to_lower b"

definition isRetain :: "StackResource \<Rightarrow> bool" where
  "isRetain r \<longleftrightarrow> equal_fold (DeletionPolicy r) ''Retain'' \<or> equal_fold (DeletionPolicy r) ''RetainExceptOnCreate''"

definition keptOnRollback :: "StackResource \<Rightarrow> bool" where
  "keptOnRollback r = equal_fold (DeletionPolicy r) ''Retain''"

definition protectedOf :: "StackResource list \<Rightarrow> string list" where
  "protectedOf rs = map LogicalID (filter (\<lambda>r. Protected r \<and> \<not> isRetain r) rs)"

definition platform :: "string \<Rightarrow> string \<Rightarrow> string \<Rightarrow> bool" where
  "platform kind av k \<longleftrightarrow> av = ''openinfra.dev/v1'' \<and> k = kind"

definition physicalNameField :: "string \<Rightarrow> string \<Rightarrow> string option" where
  "physicalNameField av kind =
     (if platform ''Bucket'' av kind then Some ''bucketName'' else if platform ''Queue'' av kind then Some ''queueName''
      else if platform ''Table'' av kind then Some ''tableName'' else if platform ''Parameter'' av kind then Some ''path'' else None)"

definition physicalName :: "string \<Rightarrow> string \<Rightarrow> string \<Rightarrow> json strmap \<Rightarrow> string" where
  "physicalName av kind n spec =
     (case physicalNameField av kind of
        None \<Rightarrow> []
      | Some f \<Rightarrow> let v = str_or_empty (field spec f) in if v \<noteq> [] then v else if kind = ''Parameter'' then [] else n)"

definition bucketNameOf :: "StackResource \<Rightarrow> string" where
  "bucketNameOf r = (let n = str_or_empty (field (rSpec r) ''bucketName'') in if n \<noteq> [] then n else rName r)"

definition isTable :: "StackResource \<Rightarrow> bool" where
  "isTable r = platform ''Table'' (rAPIVersion r) (rKind r)"

definition tableNameOf :: "StackResource \<Rightarrow> string" where
  "tableNameOf r = physicalName (rAPIVersion r) (rKind r) (rName r) (rSpec r)"

subsection \<open>Events\<close>

definition maxStackEvents :: nat where
  "maxStackEvents = 400"

definition addEvent :: "string \<Rightarrow> string \<Rightarrow> StackRecord \<Rightarrow> StackRecord" where
  "addEvent i status rec =
     (let es = Events rec @ [(i, status)] in rec\<lparr>Events := drop (length es - maxStackEvents) es\<rparr>)"

text \<open>The stack's own event, under a name no logical id has.\<close>

definition stackEvent :: "string \<Rightarrow> StackRecord \<Rightarrow> StackRecord" where
  "stackEvent status rec = addEvent [] status rec"

definition set_status :: "string \<Rightarrow> string \<Rightarrow> StackResource list \<Rightarrow> StackResource list" where
  "set_status i status = map (\<lambda>x. if LogicalID x = i then x\<lparr>rStatus := status\<rparr> else x)"

definition resourceEvent :: "StackResource \<Rightarrow> string \<Rightarrow> StackRecord \<Rightarrow> StackRecord" where
  "resourceEvent r status rec =
     (let rec' = addEvent (LogicalID r) status rec in rec'\<lparr>sResources := set_status (LogicalID r) status (sResources rec')\<rparr>)"

subsection \<open>Calls to the cluster\<close>

fun fault_of :: "outcome \<Rightarrow> fault option" where
  "fault_of Done = None"
| "fault_of Fails = Some CallFailed"
| "fault_of Denied = Some Unauthorized"

definition call :: "env \<Rightarrow> (world \<Rightarrow> world) \<Rightarrow> world \<Rightarrow> fault option \<times> world" where
  "call e f w =
     (let w' = w\<lparr>calls := Suc (calls w)\<rparr>
      in case fault_of (outcome_at e (calls w)) of None \<Rightarrow> (None, f w') | Some x \<Rightarrow> (Some x, w'))"

definition read_call :: "env \<Rightarrow> (world \<Rightarrow> 'a) \<Rightarrow> world \<Rightarrow> (fault, 'a) result \<times> world" where
  "read_call e f w = (case call e (\<lambda>x. x) w of (None, w') \<Rightarrow> (Inr (f w'), w') | (Some x, w') \<Rightarrow> (Inl x, w'))"

definition object_at :: "world \<Rightarrow> okey \<Rightarrow> obj option" where
  "object_at w k = map_of (objs w) k"

definition write_object :: "okey \<Rightarrow> obj \<Rightarrow> world \<Rightarrow> world" where
  "write_object k ob w = w\<lparr>objs := AList.update k ob (objs w)\<rparr>"

definition ap_Apply :: "env \<Rightarrow> okey \<Rightarrow> obj \<Rightarrow> world \<Rightarrow> fault option \<times> world" where
  "ap_Apply e k ob = call e (write_object k ob)"

definition ap_Delete :: "env \<Rightarrow> okey \<Rightarrow> world \<Rightarrow> fault option \<times> world" where
  "ap_Delete e k = call e (\<lambda>w. w\<lparr>objs := AList.delete k (objs w)\<rparr>)"

definition GetLabels :: "env \<Rightarrow> okey \<Rightarrow> world \<Rightarrow> (fault, string strmap option) result \<times> world" where
  "GetLabels e k = read_call e (\<lambda>w. map_option oLabels (object_at w k))"

definition GetSpec :: "env \<Rightarrow> okey \<Rightarrow> world \<Rightarrow> (fault, json strmap option) result \<times> world" where
  "GetSpec e k = read_call e (\<lambda>w. map_option oSpec (object_at w k))"

definition ap_List :: "env \<Rightarrow> string \<Rightarrow> string \<Rightarrow> world \<Rightarrow> (fault, (string \<times> obj) list) result \<times> world" where
  "ap_List e av kind = read_call e (\<lambda>w. map (\<lambda>((a, k, n), ob). (n, ob)) (filter (\<lambda>((a, k, n), ob). a = av \<and> k = kind) (objs w)))"

text \<open>Another party's object, when one is created first.\<close>

definition race :: "env \<Rightarrow> okey \<Rightarrow> world \<Rightarrow> world" where
  "race e k w = (case (object_at w k, racing e k) of (None, Some other) \<Rightarrow> write_object k other w | _ \<Rightarrow> w)"

definition ap_Create :: "env \<Rightarrow> okey \<Rightarrow> obj \<Rightarrow> world \<Rightarrow> (fault, bool) result \<times> world" where
  "ap_Create e k ob w =
     (case call e (race e k) w of
        (Some x, w') \<Rightarrow> (Inl x, w')
      | (None, w') \<Rightarrow> if object_at w' k \<noteq> None then (Inr False, w') else (Inr True, write_object k ob w'))"

definition writeStackRecord :: "env \<Rightarrow> StackRecord \<Rightarrow> world \<Rightarrow> fault option \<times> world" where
  "writeStackRecord e rec = call e (\<lambda>w. w\<lparr>stored := Some rec\<rparr>)"

definition GetStack :: "env \<Rightarrow> world \<Rightarrow> (fault, StackRecord option) result \<times> world" where
  "GetStack e = read_call e stored"

subsection \<open>Applying a resource\<close>

fun check_requires :: "env \<Rightarrow> okey list \<Rightarrow> world \<Rightarrow> fault option \<times> world" where
  "check_requires e [] w = (None, w)"
| "check_requires e (k # ks) w =
     (case GetSpec e k w of
        (Inl x, w') \<Rightarrow> (Some x, w')
      | (Inr None, w') \<Rightarrow> (Some (RequirementMissing k), w')
      | (Inr (Some _), w') \<Rightarrow> check_requires e ks w')"

definition physicalNameFree :: "env \<Rightarrow> options \<Rightarrow> builtResource \<Rightarrow> world \<Rightarrow> fault option \<times> world" where
  "physicalNameFree e op b w =
     (let r = res b; v = physicalName (rAPIVersion r) (rKind r) (rName r) (rSpec r)
      in if v = [] \<or> \<not> Lister op then (None, w)
         else case ap_List e (rAPIVersion r) (rKind r) w of
             (Inl x, w') \<Rightarrow> (Some x, w')
           | (Inr os, w') \<Rightarrow>
               (case find (\<lambda>(n, ob). n \<noteq> rName r \<and> physicalName (rAPIVersion r) (rKind r) n (oSpec ob) = v) os of
                  None \<Rightarrow> (None, w')
                | Some (n, ob) \<Rightarrow> (Some (NameHeld (objectKey r) (rAPIVersion r, rKind r, n)), w')))"

definition refuseNotOurs :: "string \<Rightarrow> okey list \<Rightarrow> okey \<Rightarrow> string strmap \<Rightarrow> fault option" where
  "refuseNotOurs stack owned k labels =
     (let owner = owner_of labels
      in if owner = stack \<and> k \<in> set owned then None
         else if owner = stack then Some (LeftBehind k)
         else if owner = [] then Some (NoStackCreated k)
         else Some (OtherStack k owner))"

text \<open>The fault, if any, and what the operation owns afterwards.\<close>

definition apply_as :: "env \<Rightarrow> okey \<Rightarrow> obj \<Rightarrow> okey list \<Rightarrow> okey list \<Rightarrow> world \<Rightarrow> fault option \<times> okey list \<times> world" where
  "apply_as e k ob own owned w = (case ap_Apply e k ob w of (f, w') \<Rightarrow> (f, if f = None then own else owned, w'))"

definition apply_if_ours ::
  "env \<Rightarrow> options \<Rightarrow> okey \<Rightarrow> obj \<Rightarrow> okey list \<Rightarrow> string strmap \<Rightarrow> world \<Rightarrow> fault option \<times> okey list \<times> world" where
  "apply_if_ours e op k ob owned labels w =
     (case refuseNotOurs (StackName op) owned k labels of Some x \<Rightarrow> (Some x, owned, w) | None \<Rightarrow> apply_as e k ob owned owned w)"

text \<open>The object was absent: it is created, unless another party created it since.\<close>

definition create_new :: "env \<Rightarrow> options \<Rightarrow> okey \<Rightarrow> obj \<Rightarrow> okey list \<Rightarrow> world \<Rightarrow> fault option \<times> okey list \<times> world" where
  "create_new e op k ob owned w =
     (if \<not> Creator op then apply_as e k ob (k # owned) owned w
      else case ap_Create e k ob w of
          (Inl x, w1) \<Rightarrow> (Some x, owned, w1)
        | (Inr True, w1) \<Rightarrow> (None, k # owned, w1)
        | (Inr False, w1) \<Rightarrow>
            (case GetLabels e k w1 of
               (Inl x, w2) \<Rightarrow> (Some x, owned, w2)
             | (Inr labels, w2) \<Rightarrow> apply_if_ours e op k ob owned (case labels of None \<Rightarrow> [] | Some l \<Rightarrow> l) w2))"

definition applyOwned :: "env \<Rightarrow> options \<Rightarrow> builtResource \<Rightarrow> okey list \<Rightarrow> world \<Rightarrow> fault option \<times> okey list \<times> world" where
  "applyOwned e op b owned w =
     (let k = objectKey (res b); ob = renderManifest op (res b) (bAnnotations b)
      in case check_requires e (requires b) w of
          (Some x, w1) \<Rightarrow> (Some x, owned, w1)
        | (None, w1) \<Rightarrow>
            if \<not> LabelReader op \<or> shared b then apply_as e k ob owned owned w1
            else case physicalNameFree e op b w1 of
                (Some x, w2) \<Rightarrow> (Some x, owned, w2)
              | (None, w2) \<Rightarrow>
                  (case GetLabels e k w2 of
                     (Inl x, w3) \<Rightarrow> (Some x, owned, w3)
                   | (Inr (Some labels), w3) \<Rightarrow> apply_if_ours e op k ob owned labels w3
                   | (Inr None, w3) \<Rightarrow> create_new e op k ob owned w3))"

definition tableTaken :: "env \<Rightarrow> options \<Rightarrow> StackResource \<Rightarrow> world \<Rightarrow> fault option \<times> world" where
  "tableTaken e op r w =
     (if \<not> isTable r \<or> \<not> TableExists op then (None, w)
      else case read_call e (\<lambda>w. tableNameOf r \<in> set (tables w)) w of
          (Inl x, w') \<Rightarrow> (Some x, w')
        | (Inr taken, w') \<Rightarrow> (if taken then Some (TableAlreadyExists (tableNameOf r)) else None, w'))"

subsection \<open>Deleting\<close>

definition removeTableData :: "env \<Rightarrow> options \<Rightarrow> StackResource \<Rightarrow> world \<Rightarrow> fault option \<times> world" where
  "removeTableData e op r w =
     (if \<not> isTable r \<or> \<not> RemoveTable op then (None, w)
      else call e (\<lambda>w. w\<lparr>tables := filter (\<lambda>t. t \<noteq> tableNameOf r) (tables w)\<rparr>) w)"

definition wait_gone :: "env \<Rightarrow> options \<Rightarrow> world \<Rightarrow> fault option \<times> world" where
  "wait_gone e op w = (if Wait op then call e (\<lambda>w. w) w else (None, w))"

text \<open>The bucket behind a claim: the check before the claim is deleted, the removal after it.\<close>

definition bucket_filled :: "env \<Rightarrow> options \<Rightarrow> StackResource \<Rightarrow> world \<Rightarrow> (fault, bool) result \<times> world" where
  "bucket_filled e op r w =
     (if platform ''Bucket'' (rAPIVersion r) (rKind r) \<and> BucketData op
      then read_call e (\<lambda>w. map_of (buckets w) (bucketNameOf r) = Some False) w else (Inr False, w))"

definition remove_bucket :: "env \<Rightarrow> options \<Rightarrow> StackResource \<Rightarrow> world \<Rightarrow> fault option \<times> world" where
  "remove_bucket e op r w =
     (if \<not> (platform ''Bucket'' (rAPIVersion r) (rKind r) \<and> RemoveBucket op) then (None, w)
      else case read_call e (\<lambda>w. map_of (buckets w) (bucketNameOf r) = Some False) w of
          (Inl x, w') \<Rightarrow> (Some x, w')
        | (Inr True, w') \<Rightarrow> (Some (BucketNotEmpty (LogicalID r) (bucketNameOf r)), w')
        | (Inr False, w') \<Rightarrow> (None, w'\<lparr>buckets := AList.delete (bucketNameOf r) (buckets w')\<rparr>))"

fun in_turn :: "(world \<Rightarrow> fault option \<times> world) list \<Rightarrow> world \<Rightarrow> fault option \<times> world" where
  "in_turn [] w = (None, w)"
| "in_turn (f # fs) w = (case f w of (Some x, w') \<Rightarrow> (Some x, w') | (None, w') \<Rightarrow> in_turn fs w')"

definition deleteStackObject :: "env \<Rightarrow> options \<Rightarrow> StackResource \<Rightarrow> bool \<Rightarrow> world \<Rightarrow> bool \<times> fault option \<times> world" where
  "deleteStackObject e op r refuseNotEmpty w =
     (case bucket_filled e op r w of
        (Inl x, w') \<Rightarrow> (False, Some x, w')
      | (Inr True, w') \<Rightarrow>
          if refuseNotEmpty then (False, Some (BucketNotEmpty (LogicalID r) (bucketNameOf r)), w') else (True, None, w')
      | (Inr False, w') \<Rightarrow>
          (False, in_turn [ap_Delete e (objectKey r), wait_gone e op, remove_bucket e op r, removeTableData e op r] w'))"

definition deleteNestedStack :: "env \<Rightarrow> options \<Rightarrow> StackResource \<Rightarrow> world \<Rightarrow> fault option \<times> world" where
  "deleteNestedStack e op r w =
     (if \<not> NestedStacks op then (Some (NoNestedStacks (LogicalID r)), w)
      else call e (\<lambda>w. w\<lparr>nested := filter (\<lambda>n. n \<noteq> rName r) (nested w)\<rparr>) w)"

text \<open>The status the Function answers; None is no answer, where functions cannot be invoked.\<close>

definition customResourceDelete :: "env \<Rightarrow> options \<Rightarrow> world \<Rightarrow> (fault, string option) result \<times> world" where
  "customResourceDelete e op w =
     (if \<not> Invoke op then (Inr None, w) else read_call e (\<lambda>w'. reply_at e (calls w)) w)"

definition deprovision :: "env \<Rightarrow> string \<Rightarrow> world \<Rightarrow> fault option \<times> world" where
  "deprovision e i = call e (\<lambda>w. w\<lparr>rest_apis := filter (\<lambda>a. a \<noteq> i) (rest_apis w)\<rparr>)"

subsection \<open>Rolling back a create\<close>

definition rollback_one :: "env \<Rightarrow> options \<Rightarrow> StackResource \<Rightarrow> world \<Rightarrow> fault option \<times> world" where
  "rollback_one e op a w =
     (if IsNestedStack a then deleteNestedStack e op a w
      else if IsCustomResource a then
        (case customResourceDelete e op w of
           (Inl x, w') \<Rightarrow> (Some x, w')
         | (Inr None, w') \<Rightarrow> (None, w')
         | (Inr (Some st), w') \<Rightarrow> (if equal_fold st ''SUCCESS'' then None else Some (FunctionAnswered st), w'))
      else in_turn [ap_Delete e (objectKey a), removeTableData e op a] w)"

text \<open>The loop from the newest: whether every delete succeeded.\<close>

fun rollback_all :: "env \<Rightarrow> options \<Rightarrow> StackResource list \<Rightarrow> StackRecord \<Rightarrow> world \<Rightarrow> bool \<times> StackRecord \<times> world" where
  "rollback_all e op [] rec w = (True, rec, w)"
| "rollback_all e op (a # as) rec w =
     (if keptOnRollback a then rollback_all e op as (resourceEvent a ''DELETE_SKIPPED'' rec) w
      else
        let rec1 = resourceEvent a ''DELETE_IN_PROGRESS'' rec
        in case rollback_one e op a w of
             (Some x, w') \<Rightarrow>
               (case rollback_all e op as (resourceEvent a ''DELETE_FAILED'' rec1) w' of (ok, rec2, w'') \<Rightarrow> (False, rec2, w''))
           | (None, w') \<Rightarrow> rollback_all e op as (resourceEvent a ''DELETE_COMPLETE'' rec1) w')"

definition rollbackCreate :: "env \<Rightarrow> options \<Rightarrow> StackResource list \<Rightarrow> StackRecord \<Rightarrow> world \<Rightarrow> bool \<times> StackRecord \<times> world" where
  "rollbackCreate e op applied = rollback_all e op (rev applied)"

definition rolledBackStatus :: "bool \<Rightarrow> string" where
  "rolledBackStatus ok = (if ok then ''ROLLBACK_COMPLETE'' else ''ROLLBACK_FAILED'')"

subsection \<open>Teardown\<close>

datatype verdict = Kept | Gone | Failed fault

text \<open>A companion (a logical id with a slash) records no event of its own.\<close>

definition own_event :: "StackResource \<Rightarrow> string \<Rightarrow> StackRecord \<Rightarrow> StackRecord" where
  "own_event r status rec = (if CHR ''/'' \<in> set (LogicalID r) then rec else resourceEvent r status rec)"

definition not_ours :: "env \<Rightarrow> options \<Rightarrow> StackResource \<Rightarrow> world \<Rightarrow> (fault, bool) result \<times> world" where
  "not_ours e op r w =
     (case GetLabels e (objectKey r) w of
        (Inl x, w') \<Rightarrow> (Inl x, w')
      | (Inr None, w') \<Rightarrow> (Inr True, w')
      | (Inr (Some labels), w') \<Rightarrow> (Inr (owner_of labels \<noteq> StackName op), w'))"

definition tear_one :: "env \<Rightarrow> options \<Rightarrow> StackResource \<Rightarrow> world \<Rightarrow> fault option \<times> world" where
  "tear_one e op r w =
     (if IsNestedStack r then deleteNestedStack e op r w
      else if IsCustomResource r then
        (case customResourceDelete e op w of (Inl Unauthorized, w') \<Rightarrow> (Some Unauthorized, w') | (_, w') \<Rightarrow> (None, w'))
      else if IsRestV1API r then
        if DeprovisionRestAPI op \<and> ProvisionedID r \<noteq> []
        then (case deprovision e (ProvisionedID r) w of (Some Unauthorized, w') \<Rightarrow> (Some Unauthorized, w') | (_, w') \<Rightarrow> (None, w'))
        else (None, w)
      else snd (deleteStackObject e op r True w))"

definition teardown_step ::
  "env \<Rightarrow> options \<Rightarrow> bool \<Rightarrow> bool \<Rightarrow> StackResource \<Rightarrow> StackRecord \<Rightarrow> world \<Rightarrow> verdict \<times> StackRecord \<times> world" where
  "teardown_step e op ownedOnly rollback r prog w =
     (let delete = (\<lambda>w. let prog1 = own_event r ''DELETE_IN_PROGRESS'' prog
            in case tear_one e op r w of
                 (Some x, w') \<Rightarrow> (Failed x, own_event r ''DELETE_FAILED'' prog1, w')
               | (None, w') \<Rightarrow> (Gone, own_event r ''DELETE_COMPLETE'' prog1, w'))
      in if (if rollback then keptOnRollback r else isRetain r) then (Kept, own_event r ''DELETE_SKIPPED'' prog, w)
         else if IsSignalWait r then (Gone, own_event r ''DELETE_COMPLETE'' prog, w)
         else if ownedOnly \<and> LabelReader op \<and> \<not> isOutOfBand r then
           (case not_ours e op r w of
              (Inl x, w') \<Rightarrow> (Failed x, prog, w')
            | (Inr True, w') \<Rightarrow> (Gone, prog, w')
            | (Inr False, w') \<Rightarrow> delete w')
         else delete w)"

text \<open>The loop from the newest; what is still present, newest first.\<close>

fun teardown_loop ::
  "env \<Rightarrow> options \<Rightarrow> bool \<Rightarrow> bool \<Rightarrow> StackResource list \<Rightarrow> StackRecord \<Rightarrow> world \<Rightarrow>
     StackResource list \<times> fault option \<times> StackRecord \<times> world" where
  "teardown_loop e op ownedOnly rollback [] prog w = ([], None, prog, w)"
| "teardown_loop e op ownedOnly rollback (r # rs) prog w =
     (case teardown_step e op ownedOnly rollback r prog w of
        (Failed x, prog', w') \<Rightarrow> (r # rs, Some x, prog', w')
      | (Gone, prog', w') \<Rightarrow> teardown_loop e op ownedOnly rollback rs prog' w'
      | (Kept, prog', w') \<Rightarrow>
          (case teardown_loop e op ownedOnly rollback rs prog' w' of (left, rest) \<Rightarrow> (r # left, rest)))"

definition teardown ::
  "env \<Rightarrow> options \<Rightarrow> StackResource list \<Rightarrow> bool \<Rightarrow> bool \<Rightarrow> StackRecord \<Rightarrow> world \<Rightarrow>
     StackResource list \<times> fault option \<times> StackRecord \<times> world" where
  "teardown e op resources ownedOnly rollback prog w =
     (case teardown_loop e op ownedOnly rollback (rev resources) prog w of (left, rest) \<Rightarrow> (rev left, rest))"

subsection \<open>Restoring the prior stack\<close>

definition first_of :: "fault option \<Rightarrow> fault option \<Rightarrow> fault option" where
  "first_of a b = (if a = None then b else a)"

definition undo_added :: "env \<Rightarrow> options \<Rightarrow> okey list \<Rightarrow> bool \<Rightarrow> StackResource \<Rightarrow> world \<Rightarrow> fault option \<times> world" where
  "undo_added e op inPrior ownedOnly r w =
     (let delete = in_turn [ap_Delete e (objectKey r), removeTableData e op r]
      in if keptOnRollback r \<or> isOutOfBand r \<or> objectKey r \<in> set inPrior then (None, w)
         else if ownedOnly \<and> LabelReader op then
           (case not_ours e op r w of
              (Inl x, w') \<Rightarrow> (Some x, w')
            | (Inr True, w') \<Rightarrow> (None, w')
            | (Inr False, w') \<Rightarrow> delete w')
         else delete w)"

definition restore_one :: "env \<Rightarrow> options \<Rightarrow> StackResource \<Rightarrow> world \<Rightarrow> fault option \<times> world" where
  "restore_one e op r w = (if isOutOfBand r then (None, w) else ap_Apply e (objectKey r) (renderStackResource op r) w)"

text \<open>Every step is attempted; the first fault is the result.\<close>

fun every :: "('a \<Rightarrow> world \<Rightarrow> fault option \<times> world) \<Rightarrow> 'a list \<Rightarrow> world \<Rightarrow> fault option \<times> world" where
  "every f [] w = (None, w)"
| "every f (x # xs) w = (case f x w of (a, w') \<Rightarrow> (case every f xs w' of (b, w'') \<Rightarrow> (first_of a b, w'')))"

definition restorePrior ::
  "env \<Rightarrow> options \<Rightarrow> StackResource list \<Rightarrow> StackResource list \<Rightarrow> bool \<Rightarrow> world \<Rightarrow> fault option \<times> world" where
  "restorePrior e op prior added ownedOnly w =
     (case every (undo_added e op (map objectKey prior) ownedOnly) (rev added) w of
        (a, w') \<Rightarrow> (case every (restore_one e op) prior w' of (b, w'') \<Rightarrow> (first_of a b, w'')))"

subsection \<open>What each step leaves alone\<close>

lemma object_at_updates [simp]:
  "object_at (w\<lparr>calls := n\<rparr>) k = object_at w k" "object_at (w\<lparr>stored := s\<rparr>) k = object_at w k"
  "object_at (w\<lparr>buckets := bs\<rparr>) k = object_at w k" "object_at (w\<lparr>tables := ts\<rparr>) k = object_at w k"
  "object_at (w\<lparr>nested := ns\<rparr>) k = object_at w k" "object_at (w\<lparr>rest_apis := as\<rparr>) k = object_at w k"
  "object_at (w\<lparr>stopped := ks\<rparr>) k = object_at w k"
  by (simp_all add: object_at_def)

lemma object_at_write [simp]: "object_at (write_object k ob w) k' = (if k' = k then Some ob else object_at w k')"
  by (simp add: object_at_def write_object_def update_conv')

lemma object_at_delete [simp]: "object_at (w\<lparr>objs := AList.delete k (objs w)\<rparr>) k' = (if k' = k then None else object_at w k')"
  by (simp add: object_at_def delete_conv')

lemma object_at_race: "object_at (race e k w) k' = (if k' = k \<and> object_at w k = None then racing e k else object_at w k')"
  by (auto simp: race_def split: option.splits)

lemma callE:
  assumes "call e f w = (x, w')"
  obtains "x = None" "w' = f (w\<lparr>calls := Suc (calls w)\<rparr>)" | y where "x = Some y" "w' = w\<lparr>calls := Suc (calls w)\<rparr>"
proof (cases "fault_of (outcome_at e (calls w))")
  case None
  then show ?thesis using assms that(1) by (simp add: call_def Let_def)
next
  case (Some y)
  then have "x = Some y" "w' = w\<lparr>calls := Suc (calls w)\<rparr>" using assms by (auto simp: call_def Let_def)
  then show ?thesis by (rule that(2))
qed

lemma read_call_world: "read_call e f w = (r, w') \<Longrightarrow> w' = w\<lparr>calls := Suc (calls w)\<rparr>"
  by (auto simp: read_call_def split: prod.splits option.splits elim!: callE)

lemma read_call_value: "read_call e f w = (Inr v, w') \<Longrightarrow> v = f w'"
  by (auto simp: read_call_def split: prod.splits option.splits)

definition leaves :: "okey set \<Rightarrow> (world \<Rightarrow> 'a \<times> world) \<Rightarrow> bool" where
  "leaves K f \<longleftrightarrow> (\<forall>w k. k \<notin> K \<longrightarrow> object_at (snd (f w)) k = object_at w k)"

lemma leavesD: "leaves K f \<Longrightarrow> f w = (x, w') \<Longrightarrow> k \<notin> K \<Longrightarrow> object_at w' k = object_at w k"
  unfolding leaves_def by (metis snd_conv)

lemma leaves_mono: "leaves K f \<Longrightarrow> K \<subseteq> K' \<Longrightarrow> leaves K' f"
  unfolding leaves_def by blast

lemma leaves_call: "(\<And>w k. k \<notin> K \<Longrightarrow> object_at (f w) k = object_at w k) \<Longrightarrow> leaves K (call e f)"
  by (auto simp: leaves_def call_def Let_def split: option.splits)

lemma leaves_read [simp]: "leaves K (read_call e f)"
  unfolding leaves_def by (metis object_at_updates(1) read_call_world surjective_pairing)

lemma leaves_in_turn: "\<forall>f \<in> set fs. leaves K f \<Longrightarrow> leaves K (in_turn fs)"
proof (induction fs)
  case (Cons f fs)
  then have f: "leaves K f" and rest: "leaves K (in_turn fs)" by simp_all
  show ?case unfolding leaves_def
  proof (intro allI impI)
    fix w k assume k: "k \<notin> K"
    obtain x w' where fw: "f w = (x, w')" by (cases "f w")
    have "object_at (snd (in_turn fs w')) k = object_at w' k" using rest k unfolding leaves_def by blast
    then show "object_at (snd (in_turn (f # fs) w)) k = object_at w k"
      using leavesD [OF f fw k] by (cases x) (simp_all add: fw)
  qed
qed (simp add: leaves_def)

lemma leaves_every:
  assumes "\<And>x. x \<in> set xs \<Longrightarrow> leaves K (f x)"
  shows "leaves K (every f xs)"
  using assms
proof (induction xs)
  case (Cons x xs)
  then have f: "leaves K (f x)" and rest: "leaves K (every f xs)" by simp_all
  show ?case unfolding leaves_def
  proof (intro allI impI)
    fix w k assume k: "k \<notin> K"
    obtain a w' where fw: "f x w = (a, w')" by (cases "f x w")
    obtain b w'' where ew: "every f xs w' = (b, w'')" by (cases "every f xs w'")
    show "object_at (snd (every f (x # xs) w)) k = object_at w k"
      using leavesD [OF f fw k] leavesD [OF rest ew k] by (simp add: fw ew)
  qed
qed (simp add: leaves_def)

lemma leaves_objects [simp]:
  "leaves {k} (ap_Apply e k ob)" "leaves {k} (ap_Delete e k)" "leaves {} (removeTableData e op r)"
  "leaves {} (wait_gone e op)" "leaves {} (bucket_filled e op r)" "leaves {} (deleteNestedStack e op r)"
  "leaves {} (customResourceDelete e op)" "leaves {} (deprovision e i)" "leaves {} (writeStackRecord e rec)"
  "leaves {} (tableTaken e op r)" "leaves {} (not_ours e op r)"
proof -
  show "leaves {k} (ap_Apply e k ob)" "leaves {k} (ap_Delete e k)" "leaves {} (deprovision e i)" "leaves {} (writeStackRecord e rec)"
    unfolding ap_Apply_def ap_Delete_def deprovision_def writeStackRecord_def by (rule leaves_call; simp)+
  show "leaves {} (removeTableData e op r)" "leaves {} (wait_gone e op)" "leaves {} (deleteNestedStack e op r)"
    by (auto simp: leaves_def removeTableData_def wait_gone_def deleteNestedStack_def call_def Let_def split: option.splits)
  show "leaves {} (bucket_filled e op r)" "leaves {} (customResourceDelete e op)" "leaves {} (tableTaken e op r)" "leaves {} (not_ours e op r)"
    unfolding leaves_def bucket_filled_def customResourceDelete_def tableTaken_def not_ours_def GetLabels_def
    by (auto split: prod.splits sum.splits option.splits dest!: read_call_world) (metis object_at_updates(1) read_call_world snd_conv prod.collapse)+
qed

lemma leaves_remove_bucket [simp]: "leaves {} (remove_bucket e op r)"
  by (auto simp: leaves_def remove_bucket_def split: prod.splits sum.splits bool.splits dest!: read_call_world)


lemma leaves_check_requires [simp]: "leaves {} (check_requires e ks)"
proof (induction ks)
  case (Cons k ks)
  show ?case unfolding leaves_def
  proof (intro allI impI)
    fix w k' assume "k' \<notin> ({} :: okey set)"
    obtain r w' where g: "GetSpec e k w = (r, w')" by (cases "GetSpec e k w")
    then have w': "w' = w\<lparr>calls := Suc (calls w)\<rparr>" by (auto simp: GetSpec_def dest: read_call_world)
    have "object_at (snd (check_requires e ks w')) k' = object_at w' k'" using Cons unfolding leaves_def by blast
    then show "object_at (snd (check_requires e (k # ks) w)) k' = object_at w k'"
      by (simp add: g w' split: sum.splits option.splits)
  qed
qed (simp add: leaves_def)

lemma leaves_physicalNameFree [simp]: "leaves {} (physicalNameFree e op b)"
  by (auto simp: leaves_def physicalNameFree_def ap_List_def Let_def split: prod.splits sum.splits option.splits dest!: read_call_world)

text \<open>
  What applying a resource does to its object: on success it is the rendered one, over nothing or over an
  object the operation owns; on failure it is as it was, or another party's that came first.
\<close>

definition untouched :: "env \<Rightarrow> world \<Rightarrow> world \<Rightarrow> okey \<Rightarrow> bool" where
  "untouched e w w' k \<longleftrightarrow> object_at w' k = object_at w k \<or> object_at w k = None \<and> object_at w' k = racing e k"

lemma refuseNotOurs_None: "refuseNotOurs stack owned k labels = None \<Longrightarrow> k \<in> set owned"
  by (auto simp: refuseNotOurs_def Let_def split: if_splits)

lemma ap_Apply_object: "ap_Apply e k ob w = (f, w') \<Longrightarrow> object_at w' k' = (if f = None \<and> k' = k then Some ob else object_at w k')"
  unfolding ap_Apply_def by (erule callE) auto

lemma ap_Create_object:
  assumes "ap_Create e k ob w = (r, w')"
  shows "r = Inr True \<Longrightarrow> object_at w k = None \<and> object_at w' k = Some ob"
    and "r \<noteq> Inr True \<Longrightarrow> untouched e w w' k" and "k' \<noteq> k \<Longrightarrow> object_at w' k' = object_at w k'"
proof -
  obtain x w1 where c: "call e (race e k) w = (x, w1)" by (cases "call e (race e k) w")
  then have w1: "object_at w1 k' = (if x = None \<and> k' = k \<and> object_at w k = None then racing e k else object_at w k')" for k'
    by (elim callE) (auto simp: object_at_race)
  show "r = Inr True \<Longrightarrow> object_at w k = None \<and> object_at w' k = Some ob"
    "r \<noteq> Inr True \<Longrightarrow> untouched e w w' k" "k' \<noteq> k \<Longrightarrow> object_at w' k' = object_at w k'"
    using assms c w1 [of k] w1 [of k'] by (auto simp: ap_Create_def untouched_def split: option.splits if_splits)
qed


lemma GetLabels_world: "GetLabels e k w = (r, w') \<Longrightarrow> object_at w' j = object_at w j"
  unfolding GetLabels_def by (drule read_call_world) simp

lemma GetLabels_value: "GetLabels e k w = (Inr v, w') \<Longrightarrow> v = map_option oLabels (object_at w k)"
  using GetLabels_world [of e k w "Inr v" w' k] unfolding GetLabels_def by (auto dest: read_call_value)

text \<open>The outcome of an application to object \<open>k\<close> from \<open>w\<close>.\<close>

definition applied_ok :: "env \<Rightarrow> okey \<Rightarrow> obj \<Rightarrow> okey list \<Rightarrow> world \<Rightarrow> fault option \<times> okey list \<times> world \<Rightarrow> bool" where
  "applied_ok e k ob owned w = (\<lambda>(f, owned', w').
     (f = None \<longrightarrow> object_at w' k = Some ob \<and> (object_at w k = None \<and> owned' = k # owned \<or> k \<in> set owned \<and> owned' = owned)) \<and>
     (f \<noteq> None \<longrightarrow> untouched e w w' k \<and> owned' = owned) \<and> (\<forall>j. j \<noteq> k \<longrightarrow> object_at w' j = object_at w j))"

lemma applied_ok_from: "(\<And>j. object_at w' j = object_at w j) \<Longrightarrow> applied_ok e k ob owned w' r \<Longrightarrow> applied_ok e k ob owned w r"
  by (simp add: applied_ok_def untouched_def)

lemma applied_ok_fault: "(\<And>j. object_at w' j = object_at w j) \<Longrightarrow> applied_ok e k ob owned w (Some x, owned, w')"
  by (simp add: applied_ok_def untouched_def)

lemma apply_if_ours_result:
  assumes "apply_if_ours e op k ob owned labels w = (f, own, w')"
  shows "f = None \<Longrightarrow> object_at w' k = Some ob \<and> k \<in> set owned" "own = owned"
    "f \<noteq> None \<or> j \<noteq> k \<Longrightarrow> object_at w' j = object_at w j"
proof -
  obtain x w1 where a: "ap_Apply e k ob w = (x, w1)" by fastforce
  note a' = ap_Apply_object [OF a]
  show "f = None \<Longrightarrow> object_at w' k = Some ob \<and> k \<in> set owned" "own = owned"
    "f \<noteq> None \<or> j \<noteq> k \<Longrightarrow> object_at w' j = object_at w j"
    using assms refuseNotOurs_None [of "StackName op" owned k labels] a' [of k] a' [of j]
    by (auto simp: apply_if_ours_def apply_as_def a split: option.splits if_splits)
qed

lemma apply_if_ours_ok: "applied_ok e k ob owned w (apply_if_ours e op k ob owned labels w)"
proof -
  obtain f own w' where a: "apply_if_ours e op k ob owned labels w = (f, own, w')" by (metis prod_cases3)
  show ?thesis using apply_if_ours_result [OF a] unfolding applied_ok_def untouched_def a prod.case by blast
qed

lemma create_new_ok:
  assumes "object_at w k = None" "Creator op"
  shows "applied_ok e k ob owned w (create_new e op k ob owned w)"
proof -
  obtain r w1 where c: "ap_Create e k ob w = (r, w1)" by fastforce
  note c' = ap_Create_object [OF c]
  consider (fault) x where "r = Inl x" | (new) "r = Inr True" | (raced) "r = Inr False" by (cases r) auto
  then show ?thesis
  proof cases
    case raced
    obtain x w2 where g: "GetLabels e k w1 = (x, w2)" by fastforce
    have w2: "untouched e w w2 k" "\<And>j. j \<noteq> k \<Longrightarrow> object_at w2 j = object_at w j"
      using c'(2,3) raced GetLabels_world [OF g] by (auto simp: untouched_def)
    show ?thesis
    proof (cases x)
      case (Inr labels)
      obtain f own w3 where a: "apply_if_ours e op k ob owned (case labels of None \<Rightarrow> [] | Some l \<Rightarrow> l) w2 = (f, own, w3)"
        by (metis prod_cases3)
      have "create_new e op k ob owned w = (f, own, w3)" using assms raced Inr by (simp add: create_new_def c g a)
      moreover have "f = None \<or> untouched e w w3 k" using apply_if_ours_result(3) [OF a, of k] w2(1) by (auto simp: untouched_def)
      moreover have "\<forall>j. j \<noteq> k \<longrightarrow> object_at w3 j = object_at w j" using apply_if_ours_result(3) [OF a] w2(2) by metis
      ultimately show ?thesis using apply_if_ours_result(1,2) [OF a] unfolding applied_ok_def by auto
    qed (use w2 assms raced in \<open>simp add: create_new_def c g applied_ok_def\<close>)
  qed (use c' assms in \<open>auto simp: create_new_def c applied_ok_def\<close>)
qed

lemma applyOwned_ok:
  assumes "LabelReader op" "Creator op" "\<not> shared b"
  shows "applied_ok e (objectKey (res b)) (renderManifest op (res b) (bAnnotations b)) owned w (applyOwned e op b owned w)"
proof -
  obtain x1 w1 where c1: "check_requires e (requires b) w = (x1, w1)" by fastforce
  obtain x2 w2 where c2: "physicalNameFree e op b w1 = (x2, w2)" by fastforce
  obtain x3 w3 where c3: "GetLabels e (objectKey (res b)) w2 = (x3, w3)" by fastforce
  have s1: "object_at w1 j = object_at w j" for j using leavesD [OF leaves_check_requires c1, of j] by simp
  have s2: "object_at w2 j = object_at w j" for j using leavesD [OF leaves_physicalNameFree c2, of j] s1 by simp
  have s3: "object_at w3 j = object_at w j" for j using GetLabels_world [OF c3] s2 by simp
  have seen: "x3 = Inr v \<Longrightarrow> v = map_option oLabels (object_at w3 (objectKey (res b)))" for v
    using GetLabels_value c3 s2 s3 by metis
  show ?thesis
  proof (cases x1; cases x2)
    assume "x1 = None" "x2 = None"
    then show ?thesis using assms c1 c2 c3 seen s3 [of "objectKey (res b)"]
      by (auto simp: applyOwned_def Let_def split: sum.splits option.splits
          intro!: applied_ok_fault applied_ok_from [OF s3] apply_if_ours_ok create_new_ok)
  qed (use assms c1 c2 s1 s2 in \<open>auto simp: applyOwned_def Let_def intro: applied_ok_fault\<close>)
qed


lemma ap_Delete_object: "ap_Delete e k w = (f, w') \<Longrightarrow> object_at w' k' = (if f = None \<and> k' = k then None else object_at w k')"
  unfolding ap_Delete_def by (erule callE) (auto simp: object_at_def delete_conv')

lemma delete_then_leaves: "\<forall>g \<in> set gs. leaves {} g \<Longrightarrow> leaves {k} (in_turn (ap_Delete e k # gs))"
  by (rule leaves_in_turn) (auto intro: leaves_mono [of "{}"])

lemma delete_then_gone:
  assumes "in_turn (ap_Delete e k # gs) w = (f, w')" "\<forall>g \<in> set gs. leaves {} g"
  shows "object_at w' k = None \<or> f \<noteq> None \<and> object_at w' k = object_at w k"
proof -
  obtain x w1 where d: "ap_Delete e k w = (x, w1)" by fastforce
  show ?thesis
  proof (cases x)
    case None
    then have "in_turn gs w1 = (f, w')" using assms(1) d by simp
    then have "object_at w' k = object_at w1 k" using leavesD [OF leaves_in_turn [OF assms(2)]] by blast
    then show ?thesis using ap_Delete_object [OF d] None by simp
  next
    case (Some y)
    then show ?thesis using assms(1) d ap_Delete_object [OF d, of k] by auto
  qed
qed

text \<open>Deleting never creates or changes an object.\<close>

definition shrinks :: "world \<Rightarrow> world \<Rightarrow> bool" where
  "shrinks w w' \<longleftrightarrow> (\<forall>j. object_at w' j = None \<or> object_at w' j = object_at w j)"

lemma shrinks_refl: "(\<And>j. object_at w' j = object_at w j) \<Longrightarrow> shrinks w w'"
  by (simp add: shrinks_def)

lemma shrinks_trans: "shrinks w w' \<Longrightarrow> shrinks w' w'' \<Longrightarrow> shrinks w w''"
  unfolding shrinks_def by metis

lemma shrinksD: "shrinks w w' \<Longrightarrow> object_at w' j = None \<or> object_at w' j = object_at w j"
  unfolding shrinks_def by blast

lemma deleteStackObject_object:
  assumes "deleteStackObject e op r refuse w = (kept, f, w')"
  shows "kept \<or> object_at w' (objectKey r) = None \<or> f \<noteq> None" "kept \<Longrightarrow> f = None \<and> object_at w' j = object_at w j"
    "j \<noteq> objectKey r \<Longrightarrow> object_at w' j = object_at w j" "shrinks w w'"
proof -
  let ?gs = "[wait_gone e op, remove_bucket e op r, removeTableData e op r]"
  obtain x w1 where b: "bucket_filled e op r w = (x, w1)" by fastforce
  have w1: "object_at w1 j = object_at w j" for j using leavesD [OF leaves_objects(5) b, of j] by simp
  obtain g w2 where d: "in_turn (ap_Delete e (objectKey r) # ?gs) w1 = (g, w2)" by fastforce
  have gone: "object_at w2 (objectKey r) = None \<or> g \<noteq> None"
    using delete_then_gone [OF d] by auto
  have other: "j \<noteq> objectKey r \<Longrightarrow> object_at w2 j = object_at w j" for j
    using leavesD [OF delete_then_leaves [of ?gs "objectKey r" e] d, of j] w1 by simp
  have shape: "(kept, f, w') = (case x of Inl y \<Rightarrow> (False, Some y, w1)
      | Inr filled \<Rightarrow> if \<not> filled then (False, g, w2) else if refuse then (False, Some (BucketNotEmpty (LogicalID r) (bucketNameOf r)), w1)
          else (True, None, w1))"
    using assms d by (auto simp: deleteStackObject_def b split: sum.splits bool.splits)
  show "kept \<or> object_at w' (objectKey r) = None \<or> f \<noteq> None" "kept \<Longrightarrow> f = None \<and> object_at w' j = object_at w j"
    "j \<noteq> objectKey r \<Longrightarrow> object_at w' j = object_at w j"
    using shape gone other [of j] w1 by (auto split: sum.splits if_splits)
  have "object_at w2 j = None \<or> object_at w2 j = object_at w j" for j
    using delete_then_gone [OF d] other [of j] w1 by (cases "j = objectKey r") auto
  then have "shrinks w w2" "shrinks w w1" using w1 by (simp_all add: shrinks_def)
  then show "shrinks w w'" using shape by (auto split: sum.splits if_splits)
qed

definition plain :: "StackResource \<Rightarrow> bool" where
  "plain r \<longleftrightarrow> \<not> isOutOfBand r"

lemma rollback_one_object:
  assumes "rollback_one e op a w = (f, w')"
  shows "j \<noteq> objectKey a \<Longrightarrow> object_at w' j = object_at w j" "plain a \<Longrightarrow> f = None \<Longrightarrow> object_at w' (objectKey a) = None"
    "object_at w j = None \<Longrightarrow> object_at w' j = None"
proof -
  let ?gs = "[removeTableData e op a]"
  obtain x w1 where c: "customResourceDelete e op w = (x, w1)" by fastforce
  consider (nested) "deleteNestedStack e op a w = (f, w')" "\<not> plain a" | (custom) "w' = w1" "\<not> plain a"
    | (object) "in_turn (ap_Delete e (objectKey a) # ?gs) w = (f, w')"
    using assms by (auto simp: rollback_one_def c plain_def isOutOfBand_def split: if_splits sum.splits option.splits)
  then have "(j \<noteq> objectKey a \<longrightarrow> object_at w' j = object_at w j) \<and>
      (plain a \<and> f = None \<longrightarrow> object_at w' (objectKey a) = None) \<and> (object_at w j = None \<longrightarrow> object_at w' j = None)"
  proof cases
    case object
    show ?thesis
      using delete_then_gone [OF object] leavesD [OF delete_then_leaves [of ?gs "objectKey a" e] object, of j] by (cases "j = objectKey a") auto
  qed (use leavesD [OF leaves_objects(6)] leavesD [OF leaves_objects(7) c] in auto)
  then show "j \<noteq> objectKey a \<Longrightarrow> object_at w' j = object_at w j" "plain a \<Longrightarrow> f = None \<Longrightarrow> object_at w' (objectKey a) = None"
    "object_at w j = None \<Longrightarrow> object_at w' j = None" by blast+
qed

lemma rollback_all_object:
  assumes "rollback_all e op as rec w = (ok, rec', w')"
  shows "k \<notin> objectKey ` set as \<Longrightarrow> object_at w' k = object_at w k"
    and "ok \<Longrightarrow> a \<in> set as \<Longrightarrow> plain a \<Longrightarrow> \<not> keptOnRollback a \<Longrightarrow> object_at w' (objectKey a) = None"
    and "object_at w k = None \<Longrightarrow> object_at w' k = None"
proof -
  have "(k \<notin> objectKey ` set as \<longrightarrow> object_at w' k = object_at w k) \<and>
      (ok \<and> a \<in> set as \<and> plain a \<and> \<not> keptOnRollback a \<longrightarrow> object_at w' (objectKey a) = None) \<and>
      (\<forall>k. object_at w k = None \<longrightarrow> object_at w' k = None)"
    using assms
  proof (induction as arbitrary: rec w ok rec' w')
    case (Cons b as)
    show ?case
    proof (cases "keptOnRollback b")
      case True
      then show ?thesis using Cons.prems Cons.IH by auto
    next
      case False
      obtain x w1 where o: "rollback_one e op b w = (x, w1)" by fastforce
      obtain rec1 ok1 rec2 where r: "rollback_all e op as rec1 w1 = (ok1, rec2, w')" "ok \<longrightarrow> ok1 \<and> x = None"
        using Cons.prems False o by (auto simp: Let_def split: option.splits prod.splits)
      note IH = Cons.IH [OF r(1)] and one = rollback_one_object [OF o]
      have "k \<notin> objectKey ` set (b # as) \<longrightarrow> object_at w' k = object_at w k" using IH one(1) [of k] by auto
      moreover have "ok \<and> a \<in> set (b # as) \<and> plain a \<and> \<not> keptOnRollback a \<longrightarrow> object_at w' (objectKey a) = None"
        using IH one(2) r(2) by (metis set_ConsD)
      moreover have "\<forall>k. object_at w k = None \<longrightarrow> object_at w' k = None" using IH one(3) by blast
      ultimately show ?thesis by blast
    qed
  qed simp
  note all = this
  show "k \<notin> objectKey ` set as \<Longrightarrow> object_at w' k = object_at w k" using all by blast
  show "ok \<Longrightarrow> a \<in> set as \<Longrightarrow> plain a \<Longrightarrow> \<not> keptOnRollback a \<Longrightarrow> object_at w' (objectKey a) = None" using all by blast
  show "object_at w k = None \<Longrightarrow> object_at w' k = None" by (rule all [THEN conjunct2, THEN conjunct2, rule_format])
qed


subsection \<open>What a teardown removes\<close>

definition spared :: "bool \<Rightarrow> StackResource \<Rightarrow> bool" where
  "spared rollback r = (if rollback then keptOnRollback r else isRetain r)"

lemma tear_one_object:
  assumes "tear_one e op r w = (f, w')"
  shows "j \<noteq> objectKey r \<or> \<not> plain r \<and> \<not> IsSignalWait r \<Longrightarrow> object_at w' j = object_at w j" "plain r \<Longrightarrow> f = None \<Longrightarrow> object_at w' (objectKey r) = None"
    "shrinks w w'"
proof -
  obtain x w1 where c: "customResourceDelete e op w = (x, w1)" by fastforce
  obtain y w2 where d: "deprovision e (ProvisionedID r) w = (y, w2)" by fastforce
  obtain kept g w3 where o: "deleteStackObject e op r True w = (kept, g, w3)" by (metis prod_cases3)
  have "kept = False" using o by (auto simp: deleteStackObject_def split: prod.splits sum.splits bool.splits if_splits)
  consider (nested) "deleteNestedStack e op r w = (f, w')" "\<not> plain r" | (custom) "w' = w1" "\<not> plain r" | (api) "w' = w2" "\<not> plain r"
    | (none) "w' = w" "\<not> plain r" | (object) "f = g" "w' = w3" "plain r \<or> IsSignalWait r"
    using assms by (auto simp: tear_one_def c d o plain_def isOutOfBand_def split: if_splits sum.splits option.splits fault.splits)
  then have "(j \<noteq> objectKey r \<or> \<not> plain r \<and> \<not> IsSignalWait r \<longrightarrow> object_at w' j = object_at w j) \<and>
      (plain r \<and> f = None \<longrightarrow> object_at w' (objectKey r) = None) \<and> shrinks w w'"
  proof cases
    case object
    then show ?thesis using deleteStackObject_object [OF o] \<open>kept = False\<close> by blast
  qed (use leavesD [OF leaves_objects(6)] leavesD [OF leaves_objects(7) c] leavesD [OF leaves_objects(8) d] in \<open>auto intro: shrinks_refl\<close>)
  then show "j \<noteq> objectKey r \<or> \<not> plain r \<and> \<not> IsSignalWait r \<Longrightarrow> object_at w' j = object_at w j"
    "plain r \<Longrightarrow> f = None \<Longrightarrow> object_at w' (objectKey r) = None" "shrinks w w'" by blast+
qed

lemma not_ours_world: "not_ours e op r w = (x, w') \<Longrightarrow> object_at w' j = object_at w j"
  using leavesD [OF leaves_objects(11), of e op r w x w' j] by simp

lemma not_ours_value:
  assumes "not_ours e op r w = (Inr b, w')"
  shows "b \<longleftrightarrow> (case object_at w (objectKey r) of None \<Rightarrow> True | Some ob \<Rightarrow> owner_of (oLabels ob) \<noteq> StackName op)"
proof -
  obtain x w1 where g: "GetLabels e (objectKey r) w = (x, w1)" by fastforce
  show ?thesis using assms GetLabels_value [of e "objectKey r" w] g
    by (auto simp: not_ours_def split: sum.splits option.splits)
qed

definition ours :: "options \<Rightarrow> obj option \<Rightarrow> bool" where
  "ours op x \<longleftrightarrow> (case x of None \<Rightarrow> False | Some ob \<Rightarrow> owner_of (oLabels ob) = StackName op)"

text \<open>One step: what it is about is its own object, and only if that is the stack's where ownership is checked.\<close>

lemma teardown_step_object:
  assumes "teardown_step e op ownedOnly rollback r prog w = (v, prog', w')"
  shows "j \<noteq> objectKey r \<or> v = Kept \<Longrightarrow> object_at w' j = object_at w j"
    and "v = Kept \<longleftrightarrow> spared rollback r"
    and "v = Gone \<Longrightarrow> plain r \<Longrightarrow> object_at w' (objectKey r) = None \<or> ownedOnly \<and> \<not> ours op (object_at w (objectKey r))"
    and "ownedOnly \<Longrightarrow> LabelReader op \<Longrightarrow> \<not> ours op (object_at w j) \<Longrightarrow> object_at w' j = object_at w j"
    and "shrinks w w'"
proof -
  obtain x w1 where n: "not_ours e op r w = (x, w1)" by fastforce
  obtain f w2 where t: "tear_one e op r w = (f, w2)" by fastforce
  obtain g w3 where t1: "tear_one e op r w1 = (g, w3)" by fastforce
  have n': "x = Inr b \<Longrightarrow> b \<longleftrightarrow> \<not> ours op (object_at w (objectKey r))" for b
    using not_ours_value n by (fastforce simp: ours_def split: option.splits)
  have w1: "object_at w1 j = object_at w j" for j using not_ours_world [OF n] .
  consider (spared) "spared rollback r" "v = Kept" "w' = w"
    | (wait) "\<not> spared rollback r" "IsSignalWait r" "v = Gone" "w' = w"
    | (unread) y where "\<not> spared rollback r" "v = Failed y" "w' = w1"
    | (foreign) "\<not> spared rollback r" "ownedOnly" "x = Inr True" "v = Gone" "w' = w1"
    | (owned) "\<not> spared rollback r" "x = Inr False" "v = (case g of None \<Rightarrow> Gone | Some y \<Rightarrow> Failed y)" "w' = w3"
    | (blind) "\<not> spared rollback r" "\<not> IsSignalWait r" "\<not> (ownedOnly \<and> LabelReader op \<and> plain r)"
        "v = (case f of None \<Rightarrow> Gone | Some y \<Rightarrow> Failed y)" "w' = w2"
    using assms n t t1 by (auto simp: teardown_step_def spared_def Let_def plain_def split: if_splits sum.splits option.splits bool.splits)
  then have "(j \<noteq> objectKey r \<or> v = Kept \<longrightarrow> object_at w' j = object_at w j) \<and> (v = Kept \<longleftrightarrow> spared rollback r) \<and>
      (v = Gone \<and> plain r \<longrightarrow> object_at w' (objectKey r) = None \<or> ownedOnly \<and> \<not> ours op (object_at w (objectKey r))) \<and>
      (ownedOnly \<and> LabelReader op \<and> \<not> ours op (object_at w j) \<longrightarrow> object_at w' j = object_at w j) \<and> shrinks w w'"
  proof cases
    case owned
    have "shrinks w w3" using tear_one_object(3) [OF t1] w1 by (simp add: shrinks_def)
    then show ?thesis using owned tear_one_object(1,2) [OF t1] w1 n' by (cases "j = objectKey r") (auto split: option.splits)
  next
    case blind
    then show ?thesis using tear_one_object [OF t] by (auto split: option.splits)
  qed (use w1 n' in \<open>auto simp: plain_def isOutOfBand_def intro: shrinks_refl\<close>)
  then show "j \<noteq> objectKey r \<or> v = Kept \<Longrightarrow> object_at w' j = object_at w j" "v = Kept \<longleftrightarrow> spared rollback r"
    "v = Gone \<Longrightarrow> plain r \<Longrightarrow> object_at w' (objectKey r) = None \<or> ownedOnly \<and> \<not> ours op (object_at w (objectKey r))"
    "ownedOnly \<Longrightarrow> LabelReader op \<Longrightarrow> \<not> ours op (object_at w j) \<Longrightarrow> object_at w' j = object_at w j" "shrinks w w'"
    by blast+
qed


text \<open>The whole teardown: only the objects of resources it does not spare change, and what it reports as removed is.\<close>

definition torn :: "options \<Rightarrow> bool \<Rightarrow> bool \<Rightarrow> StackResource list \<Rightarrow> world \<Rightarrow> StackResource list \<times> fault option \<times> world \<Rightarrow> bool" where
  "torn op ownedOnly rollback rs w = (\<lambda>(left, f, w').
     (\<forall>k. (\<forall>r \<in> set rs. objectKey r = k \<longrightarrow> spared rollback r) \<longrightarrow> object_at w' k = object_at w k) \<and>
     (\<forall>r \<in> set rs. plain r \<longrightarrow> r \<notin> set left \<longrightarrow> object_at w' (objectKey r) = None \<or> ownedOnly \<and> \<not> ours op (object_at w (objectKey r))) \<and>
     (f = None \<longrightarrow> left = filter (spared rollback) rs) \<and> shrinks w w' \<and>
     (ownedOnly \<and> LabelReader op \<longrightarrow> (\<forall>k. \<not> ours op (object_at w k) \<longrightarrow> object_at w' k = object_at w k)))"

lemma not_ours_shrinks: "shrinks w w' \<Longrightarrow> \<not> ours op (object_at w k) \<Longrightarrow> \<not> ours op (object_at w' k)"
  using shrinksD [of w w' k] by (auto simp: ours_def)

lemma torn_Cons:
  assumes step: "teardown_step e op ownedOnly rollback r prog w = (v, prog1, w1)" and "v = Gone \<or> v = Kept"
    and rest: "torn op ownedOnly rollback rs w1 (left, f, w')"
  shows "torn op ownedOnly rollback (r # rs) w (if v = Kept then r # left else left, f, w')"
proof -
  note one = teardown_step_object [OF step]
  have same: "(\<forall>r \<in> set rs. objectKey r = k \<longrightarrow> spared rollback r) \<Longrightarrow> object_at w' k = object_at w1 k" for k
    using rest unfolding torn_def prod.case by blast
  have gone: "object_at w' (objectKey x) = None \<or> ownedOnly \<and> \<not> ours op (object_at w1 (objectKey x))"
    if "x \<in> set rs" "plain x" "x \<notin> set left" for x
    using rest that unfolding torn_def prod.case by blast
  have left: "f = None \<Longrightarrow> left = filter (spared rollback) rs" and shrink: "shrinks w1 w'"
    using rest unfolding torn_def prod.case by blast+
  have safe: "ownedOnly \<Longrightarrow> LabelReader op \<Longrightarrow> \<not> ours op (object_at w1 k) \<Longrightarrow> object_at w' k = object_at w1 k" for k
    using rest unfolding torn_def prod.case by blast
  have all: "shrinks w w'" using shrinks_trans [OF one(5) shrink] .
  have "object_at w' k = object_at w k" if k: "\<forall>x \<in> set (r # rs). objectKey x = k \<longrightarrow> spared rollback x" for k
    using same [of k] one(1) [of k] one(2) k by auto
  moreover have "object_at w' (objectKey x) = None \<or> ownedOnly \<and> \<not> ours op (object_at w (objectKey x))"
    if x: "x \<in> set (r # rs)" "plain x" "x \<notin> set (if v = Kept then r # left else left)" for x
  proof (cases "x \<in> set rs \<and> x \<notin> set left")
    case True
    have "ours op (object_at w (objectKey x)) \<longrightarrow> ours op (object_at w1 (objectKey x)) \<or> object_at w1 (objectKey x) = None"
      using shrinksD [OF one(5), of "objectKey x"] by (auto simp: ours_def)
    moreover have "object_at w1 (objectKey x) = None \<Longrightarrow> object_at w' (objectKey x) = None" using shrinksD [OF shrink, of "objectKey x"] by auto
    ultimately show ?thesis using gone [of x] True x(2) by blast
  next
    case False
    then have "x = r" "v = Gone" using x assms(2) by (auto split: if_splits)
    then show ?thesis using one(3) x(2) shrinksD [OF shrink, of "objectKey x"] by auto
  qed
  moreover have "f = None \<Longrightarrow> (if v = Kept then r # left else left) = filter (spared rollback) (r # rs)"
    using left one(2) by simp
  moreover have "ownedOnly \<Longrightarrow> LabelReader op \<Longrightarrow> \<not> ours op (object_at w k) \<Longrightarrow> object_at w' k = object_at w k" for k
    using safe [of k] one(4) [of k] not_ours_shrinks [OF one(5), of op k] by simp
  ultimately show ?thesis using all unfolding torn_def prod.case by blast
qed

lemma teardown_loop_torn:
  assumes "teardown_loop e op ownedOnly rollback rs prog w = (left, f, prog', w')"
  shows "torn op ownedOnly rollback rs w (left, f, w') \<and> set left \<subseteq> set rs"
  using assms
proof (induction rs arbitrary: prog w left)
  case Nil
  then show ?case by (auto simp: torn_def intro: shrinks_refl)
next
  case (Cons r rs)
  obtain v prog1 w1 where s: "teardown_step e op ownedOnly rollback r prog w = (v, prog1, w1)" by (metis prod_cases3)
  note one = teardown_step_object [OF s]
  show ?case
  proof (cases v)
    case (Failed x)
    then have res: "left = r # rs" "f = Some x" "w' = w1" using Cons.prems s by simp_all
    have "(\<forall>x \<in> set (r # rs). objectKey x = k \<longrightarrow> spared rollback x) \<longrightarrow> object_at w1 k = object_at w k" for k
      using one(1) [of k] one(2) by auto
    then show ?thesis using one(4,5) unfolding torn_def res prod.case by auto
  next
    case Gone
    then have "teardown_loop e op ownedOnly rollback rs prog1 w1 = (left, f, prog', w')" using Cons.prems s by simp
    from Cons.IH [OF this] show ?thesis using torn_Cons [OF s, of rs left f w'] Gone by auto
  next
    case Kept
    then obtain l where l: "teardown_loop e op ownedOnly rollback rs prog1 w1 = (l, f, prog', w')" "left = r # l"
      using Cons.prems s by (auto split: prod.splits)
    from Cons.IH [OF l(1)] show ?thesis using torn_Cons [OF s, of rs l f w'] Kept l(2) by auto
  qed
qed

lemma teardown_torn:
  assumes "teardown e op rs ownedOnly rollback prog w = (left, f, prog', w')"
  shows "torn op ownedOnly rollback rs w (left, f, w')" "set left \<subseteq> set rs"
proof -
  obtain l where l: "teardown_loop e op ownedOnly rollback (rev rs) prog w = (l, f, prog', w')" "left = rev l"
    using assms by (auto simp: teardown_def split: prod.splits)
  have "torn op ownedOnly rollback rs w (left, f, w') \<longleftrightarrow> torn op ownedOnly rollback (rev rs) w (l, f, w')"
    unfolding torn_def l(2) prod.case rev_filter [symmetric] set_rev rev_swap ..
  then show "torn op ownedOnly rollback rs w (left, f, w')" "set left \<subseteq> set rs" using teardown_loop_torn [OF l(1)] l(2) by simp_all
qed


lemma tornD:
  assumes "torn op ownedOnly rollback rs w (left, f, w')"
  shows "(\<forall>r \<in> set rs. objectKey r = k \<longrightarrow> spared rollback r) \<Longrightarrow> object_at w' k = object_at w k"
    and "r \<in> set rs \<Longrightarrow> plain r \<Longrightarrow> r \<notin> set left \<Longrightarrow> object_at w' (objectKey r) = None \<or> ownedOnly \<and> \<not> ours op (object_at w (objectKey r))"
    and "f = None \<Longrightarrow> left = filter (spared rollback) rs" and "shrinks w w'"
    and "ownedOnly \<Longrightarrow> LabelReader op \<Longrightarrow> \<not> ours op (object_at w k) \<Longrightarrow> object_at w' k = object_at w k"
proof -
  note t = assms [unfolded torn_def prod.case]
  show "(\<forall>r \<in> set rs. objectKey r = k \<longrightarrow> spared rollback r) \<Longrightarrow> object_at w' k = object_at w k" using t by blast
  show "r \<in> set rs \<Longrightarrow> plain r \<Longrightarrow> r \<notin> set left \<Longrightarrow> object_at w' (objectKey r) = None \<or> ownedOnly \<and> \<not> ours op (object_at w (objectKey r))"
    using t by blast
  show "f = None \<Longrightarrow> left = filter (spared rollback) rs" "shrinks w w'" using t by blast+
  show "ownedOnly \<Longrightarrow> LabelReader op \<Longrightarrow> \<not> ours op (object_at w k) \<Longrightarrow> object_at w' k = object_at w k" using t by blast
qed

subsection \<open>What restoring the prior stack does\<close>

text \<open>Entries of a record that name one object give it one spec: a companion several resources carry.\<close>

definition consistent :: "StackResource list \<Rightarrow> bool" where
  "consistent rs \<longleftrightarrow> (\<forall>r \<in> set rs. \<forall>r' \<in> set rs. objectKey r = objectKey r' \<longrightarrow> rSpec r = rSpec r')"

lemma every_Cons_None:
  assumes "every f (x # xs) w = (None, w')"
  obtains w1 where "f x w = (None, w1)" "every f xs w1 = (None, w')"
proof -
  obtain a w1 where a: "f x w = (a, w1)" by fastforce
  obtain b w2 where b: "every f xs w1 = (b, w2)" by fastforce
  have "a = None" "b = None" "w2 = w'" using assms by (auto simp: a b first_of_def split: if_splits)
  then show ?thesis using that a b by simp
qed

lemma restore_one_leaves: "leaves (if plain r then {objectKey r} else {}) (restore_one e op r)"
proof (cases "plain r")
  case True
  then have "restore_one e op r = ap_Apply e (objectKey r) (renderStackResource op r)" by (simp add: restore_one_def plain_def fun_eq_iff)
  then show ?thesis using True by simp
qed (simp add: leaves_def restore_one_def plain_def)

lemma every_restore_leaves: "leaves (objectKey ` {r \<in> set rs. plain r}) (every (restore_one e op) rs)"
  by (rule leaves_every, rule leaves_mono [OF restore_one_leaves]) auto

lemma every_restore:
  assumes "every (restore_one e op) rs w = (None, w')" "consistent rs"
  shows "\<forall>r \<in> set rs. plain r \<longrightarrow> object_at w' (objectKey r) = Some (renderStackResource op r)"
  using assms
proof (induction rs arbitrary: w)
  case (Cons x rs)
  obtain w1 where one: "restore_one e op x w = (None, w1)" and rest: "every (restore_one e op) rs w1 = (None, w')"
    by (rule every_Cons_None [OF Cons.prems(1)])
  have c: "consistent rs" using Cons.prems(2) unfolding consistent_def by (meson list.set_intros(2))
  note IH = Cons.IH [OF rest c]
  have "object_at w' (objectKey x) = Some (renderStackResource op x)" if x: "plain x"
  proof (cases "\<exists>r' \<in> set rs. plain r' \<and> objectKey r' = objectKey x")
    case True
    then obtain r' where r': "r' \<in> set rs" "plain r'" "objectKey r' = objectKey x" by blast
    then have "rSpec r' = rSpec x" using Cons.prems(2) unfolding consistent_def by (meson list.set_intros)
    then have "renderStackResource op r' = renderStackResource op x" by (simp add: renderStackResource_def renderManifest_def)
    then show ?thesis using bspec [OF IH r'(1)] r'(2,3) by simp
  next
    case False
    have "object_at w' (objectKey x) = object_at w1 (objectKey x)"
      by (rule leavesD [OF every_restore_leaves rest]) (use False in auto)
    then show ?thesis using one ap_Apply_object x by (simp add: restore_one_def plain_def)
  qed
  then show ?case using IH by simp
qed simp

text \<open>Undoing an addition.\<close>

definition undone :: "okey list \<Rightarrow> StackResource \<Rightarrow> bool" where
  "undone inPrior r \<longleftrightarrow> plain r \<and> \<not> keptOnRollback r \<and> objectKey r \<notin> set inPrior"

lemma undo_added_object:
  assumes "undo_added e op inPrior ownedOnly r w = (f, w')"
  shows "j \<noteq> objectKey r \<or> \<not> undone inPrior r \<Longrightarrow> object_at w' j = object_at w j"
    and "f = None \<Longrightarrow> undone inPrior r \<Longrightarrow> object_at w' (objectKey r) = None \<or> ownedOnly \<and> \<not> ours op (object_at w (objectKey r))"
    and "shrinks w w'"
    and "ownedOnly \<Longrightarrow> LabelReader op \<Longrightarrow> \<not> ours op (object_at w j) \<Longrightarrow> object_at w' j = object_at w j"
proof -
  let ?gs = "[removeTableData e op r]"
  obtain x w1 where n: "not_ours e op r w = (x, w1)" by fastforce
  obtain g w2 where d: "in_turn (ap_Delete e (objectKey r) # ?gs) w = (g, w2)" by fastforce
  obtain h w3 where d1: "in_turn (ap_Delete e (objectKey r) # ?gs) w1 = (h, w3)" by fastforce
  have n': "x = Inr b \<Longrightarrow> b \<longleftrightarrow> \<not> ours op (object_at w (objectKey r))" for b
    using not_ours_value n by (fastforce simp: ours_def split: option.splits)
  have w1: "object_at w1 j = object_at w j" for j using not_ours_world [OF n] .
  have w2: "object_at w2 j = (if j = objectKey r then object_at w2 (objectKey r) else object_at w j)"
      "object_at w3 j = (if j = objectKey r then object_at w3 (objectKey r) else object_at w j)" for j
    using leavesD [OF delete_then_leaves [of ?gs "objectKey r" e] d, of j] leavesD [OF delete_then_leaves [of ?gs "objectKey r" e] d1, of j] w1
    by auto
  have gone: "object_at w2 (objectKey r) = None \<or> g \<noteq> None \<and> object_at w2 (objectKey r) = object_at w (objectKey r)"
      "object_at w3 (objectKey r) = None \<or> h \<noteq> None \<and> object_at w3 (objectKey r) = object_at w (objectKey r)"
    using delete_then_gone [OF d] delete_then_gone [OF d1] w1 by auto
  have shrink: "shrinks w w2" "shrinks w w3" unfolding shrinks_def using w2 gone by metis+
  consider (skip) "\<not> undone inPrior r" "w' = w" | (unread) y where "f = Some y" "w' = w1"
    | (foreign) "ownedOnly" "x = Inr True" "w' = w1" | (owned) "undone inPrior r" "x = Inr False" "f = h" "w' = w3"
    | (blind) "undone inPrior r" "\<not> (ownedOnly \<and> LabelReader op)" "f = g" "w' = w2"
    using assms n d d1 by (auto simp: undo_added_def undone_def plain_def Let_def split: if_splits sum.splits bool.splits)
  then have "(j \<noteq> objectKey r \<or> \<not> undone inPrior r \<longrightarrow> object_at w' j = object_at w j) \<and>
      (f = None \<and> undone inPrior r \<longrightarrow> object_at w' (objectKey r) = None \<or> ownedOnly \<and> \<not> ours op (object_at w (objectKey r))) \<and>
      shrinks w w' \<and> (ownedOnly \<and> LabelReader op \<and> \<not> ours op (object_at w j) \<longrightarrow> object_at w' j = object_at w j)"
  proof cases
    case owned
    then show ?thesis using w2(2) [of j] gone(2) shrink n' by (cases "j = objectKey r") auto
  next
    case blind
    then show ?thesis using w2(1) [of j] gone(1) shrink by (cases "j = objectKey r") auto
  qed (use w1 n' in \<open>auto intro: shrinks_refl\<close>)
  then show "j \<noteq> objectKey r \<or> \<not> undone inPrior r \<Longrightarrow> object_at w' j = object_at w j"
    "f = None \<Longrightarrow> undone inPrior r \<Longrightarrow> object_at w' (objectKey r) = None \<or> ownedOnly \<and> \<not> ours op (object_at w (objectKey r))"
    "shrinks w w'" "ownedOnly \<Longrightarrow> LabelReader op \<Longrightarrow> \<not> ours op (object_at w j) \<Longrightarrow> object_at w' j = object_at w j"
    by blast+
qed


definition undone_all :: "options \<Rightarrow> okey list \<Rightarrow> bool \<Rightarrow> StackResource list \<Rightarrow> world \<Rightarrow> fault option \<times> world \<Rightarrow> bool" where
  "undone_all op inPrior ownedOnly rs w = (\<lambda>(f, w').
     (\<forall>j. (\<forall>r \<in> set rs. objectKey r = j \<longrightarrow> \<not> undone inPrior r) \<longrightarrow> object_at w' j = object_at w j) \<and>
     (f = None \<longrightarrow> (\<forall>r \<in> set rs. undone inPrior r \<longrightarrow> object_at w' (objectKey r) = None \<or> ownedOnly \<and> \<not> ours op (object_at w (objectKey r)))) \<and>
     shrinks w w' \<and>
     (ownedOnly \<and> LabelReader op \<longrightarrow> (\<forall>j. \<not> ours op (object_at w j) \<longrightarrow> object_at w' j = object_at w j)))"

lemma every_undo: "undone_all op inPrior ownedOnly rs w (every (undo_added e op inPrior ownedOnly) rs w)"
proof (induction rs arbitrary: w)
  case Nil
  then show ?case by (simp add: undone_all_def shrinks_refl)
next
  case (Cons r rs)
  obtain a w1 where a: "undo_added e op inPrior ownedOnly r w = (a, w1)" by fastforce
  obtain b w2 where b: "every (undo_added e op inPrior ownedOnly) rs w1 = (b, w2)" by fastforce
  note one = undo_added_object [OF a]
  have rest: "undone_all op inPrior ownedOnly rs w1 (b, w2)" using Cons.IH [of w1] b by simp
  have shrink: "shrinks w1 w2" using rest unfolding undone_all_def prod.case by blast
  have "object_at w2 j = object_at w j" if j: "\<forall>x \<in> set (r # rs). objectKey x = j \<longrightarrow> \<not> undone inPrior x" for j
  proof -
    have "object_at w2 j = object_at w1 j" using rest j unfolding undone_all_def prod.case by (meson list.set_intros(2))
    then show ?thesis using one(1) [of j] j by auto
  qed
  moreover have "object_at w2 (objectKey x) = None \<or> ownedOnly \<and> \<not> ours op (object_at w (objectKey x))"
    if x: "first_of a b = None" "x \<in> set (r # rs)" "undone inPrior x" for x
  proof (cases "x = r")
    case True
    then show ?thesis using one(2) x(1,3) shrinksD [OF shrink, of "objectKey x"] by (auto simp: first_of_def split: if_splits)
  next
    case False
    then have "object_at w2 (objectKey x) = None \<or> ownedOnly \<and> \<not> ours op (object_at w1 (objectKey x))"
      using rest x unfolding undone_all_def prod.case by (auto simp: first_of_def split: if_splits)
    then show ?thesis using shrinksD [OF one(3), of "objectKey x"] shrinksD [OF shrink, of "objectKey x"] by (auto simp: ours_def)
  qed
  moreover have "object_at w2 j = object_at w j" if j: "ownedOnly" "LabelReader op" "\<not> ours op (object_at w j)" for j
  proof -
    have "object_at w2 j = object_at w1 j"
      using rest j not_ours_shrinks [OF one(3) j(3)] unfolding undone_all_def prod.case by blast
    then show ?thesis using one(4) [OF j] by simp
  qed
  ultimately show ?case using shrinks_trans [OF one(3) shrink] unfolding undone_all_def every.simps a b prod.case by blast
qed

lemma restorePrior_result:
  assumes "restorePrior e op prior added ownedOnly w = (f, w')"
  shows "(\<forall>r \<in> set prior. objectKey r = j \<longrightarrow> \<not> plain r) \<Longrightarrow>
      (\<forall>r \<in> set added. objectKey r = j \<longrightarrow> \<not> undone (map objectKey prior) r) \<Longrightarrow> object_at w' j = object_at w j"
    and "f = None \<Longrightarrow> consistent prior \<Longrightarrow> r \<in> set prior \<Longrightarrow> plain r \<Longrightarrow>
      object_at w' (objectKey r) = Some (renderStackResource op r)"
    and "f = None \<Longrightarrow> r \<in> set added \<Longrightarrow> undone (map objectKey prior) r \<Longrightarrow>
      object_at w' (objectKey r) = None \<or> ownedOnly \<and> \<not> ours op (object_at w (objectKey r))"
    and "ownedOnly \<Longrightarrow> LabelReader op \<Longrightarrow> \<not> ours op (object_at w j) \<Longrightarrow>
      (\<forall>r \<in> set prior. objectKey r = j \<longrightarrow> \<not> plain r) \<Longrightarrow> object_at w' j = object_at w j"
proof -
  obtain a w1 where a: "every (undo_added e op (map objectKey prior) ownedOnly) (rev added) w = (a, w1)" by fastforce
  obtain b w2 where b: "every (restore_one e op) prior w1 = (b, w2)" by fastforce
  have res: "f = first_of a b" "w' = w2" using assms by (simp_all add: restorePrior_def a b)
  have u: "undone_all op (map objectKey prior) ownedOnly (rev added) w (a, w1)" using every_undo [of op _ ownedOnly "rev added" w e] a by metis
  have keep: "(\<forall>r \<in> set prior. objectKey r = j \<longrightarrow> \<not> plain r) \<Longrightarrow> object_at w2 j = object_at w1 j" for j
    using leavesD [OF every_restore_leaves b, of j] by blast
  show "(\<forall>r \<in> set prior. objectKey r = j \<longrightarrow> \<not> plain r) \<Longrightarrow>
      (\<forall>r \<in> set added. objectKey r = j \<longrightarrow> \<not> undone (map objectKey prior) r) \<Longrightarrow> object_at w' j = object_at w j"
    using u keep unfolding undone_all_def prod.case res set_rev by metis
  show "f = None \<Longrightarrow> consistent prior \<Longrightarrow> r \<in> set prior \<Longrightarrow> plain r \<Longrightarrow> object_at w' (objectKey r) = Some (renderStackResource op r)"
    using every_restore [of e op prior w1 w2] b res by (auto simp: first_of_def split: if_splits)
  show "object_at w' (objectKey r) = None \<or> ownedOnly \<and> \<not> ours op (object_at w (objectKey r))"
    if r: "f = None" "r \<in> set added" "undone (map objectKey prior) r"
  proof -
    have "\<forall>x \<in> set prior. objectKey x = objectKey r \<longrightarrow> \<not> plain x" using r(3) unfolding undone_def set_map by (metis imageI)
    then have "object_at w2 (objectKey r) = object_at w1 (objectKey r)" by (rule keep)
    moreover have "a = None" using r(1) res by (auto simp: first_of_def split: if_splits)
    ultimately show ?thesis using u r(2,3) unfolding undone_all_def prod.case res set_rev by simp
  qed
  show "object_at w' j = object_at w j"
    if j: "ownedOnly" "LabelReader op" "\<not> ours op (object_at w j)" "\<forall>r \<in> set prior. objectKey r = j \<longrightarrow> \<not> plain r"
    using u keep [OF j(4)] j unfolding undone_all_def prod.case res by metis
qed

end
