(* ===== verification/CfnCreate.thy ===== *)
theory CfnCreate
  imports CfnStack
begin

text \<open>
  Creating a stack: the plain path of \<^verbatim>\<open>Deploy\<close> in \<^verbatim>\<open>cfn/deploy.go\<close> and the waits of \<^verbatim>\<open>cfn/readiness.go\<close>.

  \<open>build\<close> stands for \<^verbatim>\<open>buildManifests\<close>, the plan and translate gates: the resources in dependency order for
  a list of names to avoid, or a refusal. Waits that run together end in any order (\<open>pick\<close>); the first failure
  ends the operation. A wait for readiness, for a running instance or for signals is one call: its outcome says
  whether what was waited for came in time.
\<close>

subsection \<open>Waits\<close>

definition baseID :: "string \<Rightarrow> string" where
  "baseID i = takeWhile (\<lambda>c. c \<noteq> CHR ''/'') i"

definition due :: "string list \<Rightarrow> builtResource list \<Rightarrow> builtResource list \<times> builtResource list" where
  "due deps pending = partition (\<lambda>p. baseID (LogicalID (res p)) \<in> set deps) pending"

definition isStackVM :: "StackResource \<Rightarrow> bool" where
  "isStackVM r \<longleftrightarrow> rKind r = ''VirtualMachine'' \<and> has_prefix (rAPIVersion r) ''openinfra.dev/''"

text \<open>The fault, if any, and the data of the signals received.\<close>

definition waitForSignals :: "env \<Rightarrow> world \<Rightarrow> fault option \<times> string \<times> world" where
  "waitForSignals e w = (case call e (\<lambda>w. w) w of (f, w') \<Rightarrow> (f, signals_at e (calls w), w'))"

definition waitInstanceRunning :: "env \<Rightarrow> StackResource \<Rightarrow> world \<Rightarrow> fault option \<times> world" where
  "waitInstanceRunning e r w =
     (if isStackVM r \<and> field (rSpec r) ''running'' \<noteq> JBool False then call e (\<lambda>w. w) w else (None, w))"

definition resourceWait :: "env \<Rightarrow> options \<Rightarrow> builtResource \<Rightarrow> world \<Rightarrow> fault option \<times> string \<times> world" where
  "resourceWait e op b w =
     (if IsSignalWait (res b) then waitForSignals e w
      else case (if Wait op then in_turn [call e (\<lambda>w. w), waitInstanceRunning e (res b)] w else (None, w)) of
          (Some x, w') \<Rightarrow> (Some x, [], w')
        | (None, w') \<Rightarrow> if signals b then waitForSignals e w' else (None, [], w'))"

text \<open>An order in which waits that run together end.\<close>

function shuffle :: "(nat \<Rightarrow> nat) \<Rightarrow> nat \<Rightarrow> 'a list \<Rightarrow> 'a list" where
  "shuffle p n [] = []"
| "shuffle p n (x # xs) =
     (let i = p n mod length (x # xs)
      in (x # xs) ! i # shuffle p (Suc n) (take i (x # xs) @ drop (Suc i) (x # xs)))"
  by pat_completeness auto
termination
  by (relation "measure (\<lambda>(p, n, xs). length xs)") (auto simp: min_def)

record progress =
  applied :: "StackResource list"
  waits :: "builtResource list"
  completed :: "string list"
  owns :: "okey list"
  rec :: StackRecord
  now :: world

definition set_signal_data :: "string \<Rightarrow> string \<Rightarrow> StackResource list \<Rightarrow> StackResource list" where
  "set_signal_data i d = map (\<lambda>x. if LogicalID x = i then x\<lparr>SignalData := d\<rparr> else x)"

definition setSignalData :: "string \<Rightarrow> string \<Rightarrow> StackRecord \<Rightarrow> StackRecord" where
  "setSignalData i d r = r\<lparr>sResources := set_signal_data i d (sResources r)\<rparr>"

definition complete :: "builtResource \<Rightarrow> string \<Rightarrow> progress \<Rightarrow> progress" where
  "complete b data st =
     (let r = (if IsSignalWait (res b) then setSignalData (LogicalID (res b)) data (rec st) else rec st)
      in st\<lparr>completed := LogicalID (res b) # completed st, rec := resourceEvent (res b) ''CREATE_COMPLETE'' r\<rparr>)"

text \<open>The waits of a list in the order they end; on the left the resource whose wait failed first.\<close>

fun settleWaits :: "env \<Rightarrow> options \<Rightarrow> builtResource list \<Rightarrow> progress \<Rightarrow> (builtResource \<times> fault \<times> progress, progress) result" where
  "settleWaits e op [] st = Inr st"
| "settleWaits e op (b # bs) st =
     (case resourceWait e op b (now st) of
        (Some x, d, w) \<Rightarrow> Inl (b, x, st\<lparr>now := w\<rparr>)
      | (None, d, w) \<Rightarrow> settleWaits e op bs (complete b d (st\<lparr>now := w\<rparr>)))"

definition settle :: "env \<Rightarrow> options \<Rightarrow> builtResource list \<Rightarrow> progress \<Rightarrow> (string \<times> fault \<times> progress, progress) result" where
  "settle e op ws st =
     (case settleWaits e op (shuffle (pick e) (calls (now st)) ws) st of
        Inr st' \<Rightarrow> Inr st'
      | Inl (fb, x, st') \<Rightarrow>
          Inl (LogicalID (res fb), x,
            st'\<lparr>waits := waits st' @ filter (\<lambda>b. LogicalID (res b) \<noteq> LogicalID (res fb) \<and> LogicalID (res b) \<notin> set (completed st')) ws\<rparr>))"

subsection \<open>Names left behind\<close>

fun leftover_scan ::
  "env \<Rightarrow> options \<Rightarrow> okey list \<Rightarrow> builtResource list \<Rightarrow> string list \<Rightarrow> string list \<Rightarrow> world \<Rightarrow> (fault, string list) result \<times> world" where
  "leftover_scan e op owned [] skip hit w = (Inr hit, w)"
| "leftover_scan e op owned (b # bs) skip hit w =
     (if shared b \<or> isOutOfBand (res b) \<or> rName (res b) \<in> set skip \<or> objectKey (res b) \<in> set owned
      then leftover_scan e op owned bs skip hit w
      else case GetLabels e (objectKey (res b)) w of
          (Inl x, w') \<Rightarrow> (Inl x, w')
        | (Inr (Some labels), w') \<Rightarrow>
            if owner_of labels = StackName op
            then leftover_scan e op owned bs (rName (res b) # skip) (hit @ [rName (res b)]) w'
            else leftover_scan e op owned bs skip hit w'
        | (Inr None, w') \<Rightarrow> leftover_scan e op owned bs skip hit w')"

definition leftoverHits ::
  "env \<Rightarrow> options \<Rightarrow> builtResource list \<Rightarrow> okey list \<Rightarrow> string list \<Rightarrow> world \<Rightarrow> (fault, string list) result \<times> world" where
  "leftoverHits e op built owned avoided w =
     (if \<not> LabelReader op then (Inr [], w) else leftover_scan e op owned built avoided [] w)"

type_synonym builder = "string list \<Rightarrow> (fault, builtResource list) result"

definition maxLeftoverPasses :: nat where
  "maxLeftoverPasses = 8"

text \<open>The first argument is the number of passes left.\<close>

fun build_around ::
  "nat \<Rightarrow> env \<Rightarrow> options \<Rightarrow> builder \<Rightarrow> okey list \<Rightarrow> string list \<Rightarrow> world \<Rightarrow> (fault, builtResource list) result \<times> world" where
  "build_around 0 e op build owned leftovers w = (build leftovers, w)"
| "build_around (Suc n) e op build owned leftovers w =
     (case build leftovers of
        Inl x \<Rightarrow> (Inl x, w)
      | Inr order \<Rightarrow>
          (case leftoverHits e op order owned leftovers w of
             (Inl x, w') \<Rightarrow> (Inl x, w')
           | (Inr hit, w') \<Rightarrow>
               if hit = [] \<or> n = 0 then (Inr order, w') else build_around n e op build owned (leftovers @ hit) w'))"

definition buildAvoidingLeftovers ::
  "env \<Rightarrow> options \<Rightarrow> builder \<Rightarrow> okey list \<Rightarrow> world \<Rightarrow> (fault, builtResource list) result \<times> world" where
  "buildAvoidingLeftovers e op build owned w = build_around maxLeftoverPasses e op build owned [] w"

subsection \<open>The create\<close>

definition setOutputs :: "env \<Rightarrow> StackRecord \<Rightarrow> world \<Rightarrow> StackRecord \<times> world" where
  "setOutputs e r w =
     (case outputs_at e (calls w) of
        None \<Rightarrow> r\<lparr>Outputs := [], OutputsOmitted := True\<rparr>
      | Some os \<Rightarrow> r\<lparr>Outputs := os, OutputsOmitted := False\<rparr>, w\<lparr>calls := Suc (calls w)\<rparr>)"

text \<open>One resource: on the left the logical id that failed, the cause and how far the create got.\<close>

definition deploy_one :: "env \<Rightarrow> options \<Rightarrow> builtResource \<Rightarrow> progress \<Rightarrow> (string \<times> fault \<times> progress, progress) result" where
  "deploy_one e op b st =
     (let (d, keep) = due (after b) (waits st)
      in rbind (settle e op d (st\<lparr>waits := keep\<rparr>)) (\<lambda>st1.
        let i = LogicalID (res b); st2 = st1\<lparr>rec := resourceEvent (res b) ''CREATE_IN_PROGRESS'' (rec st1)\<rparr>
        in if IsSignalWait (res b) then Inr (st2\<lparr>waits := waits st2 @ [b]\<rparr>)
           else case tableTaken e op (res b) (now st2) of
               (Some x, w) \<Rightarrow> Inl (i, x, st2\<lparr>now := w\<rparr>)
             | (None, w) \<Rightarrow>
                 (case applyOwned e op b (owns st2) w of
                    (Some x, own, w') \<Rightarrow> Inl (i, x, st2\<lparr>now := w'\<rparr>)
                  | (None, own, w') \<Rightarrow>
                      Inr (st2\<lparr>applied := applied st2 @ [res b], owns := own, now := w', waits := waits st2 @ [b]\<rparr>))))"

fun deploy_all :: "env \<Rightarrow> options \<Rightarrow> builtResource list \<Rightarrow> progress \<Rightarrow> (string \<times> fault \<times> progress, progress) result" where
  "deploy_all e op [] st = settle e op (waits st) (st\<lparr>waits := []\<rparr>)"
| "deploy_all e op (b # bs) st = rbind (deploy_one e op b st) (deploy_all e op bs)"

definition failed_event :: "builtResource list \<Rightarrow> string \<Rightarrow> StackRecord \<Rightarrow> StackRecord" where
  "failed_event order failed r =
     (case find (\<lambda>b. LogicalID (res b) = failed) order of None \<Rightarrow> r | Some b \<Rightarrow> resourceEvent (res b) ''CREATE_FAILED'' r)"

definition cancel :: "string \<Rightarrow> builtResource list \<Rightarrow> StackRecord \<Rightarrow> StackRecord" where
  "cancel failed ps r = foldl (\<lambda>r p. resourceEvent (res p) ''CREATE_FAILED'' r) r (filter (\<lambda>p. LogicalID (res p) \<noteq> failed) ps)"

type_synonym answer = "StackRecord option \<times> fault option \<times> world"

definition deploy_rollback :: "env \<Rightarrow> options \<Rightarrow> builtResource list \<Rightarrow> string \<Rightarrow> fault \<Rightarrow> progress \<Rightarrow> answer" where
  "deploy_rollback e op order failed cause st =
     (let r = stackEvent ''ROLLBACK_IN_PROGRESS'' (cancel failed (waits st) (failed_event order failed (rec st)));
          (ok, r1, w) = rollbackCreate e op (applied st) r (now st);
          r2 = stackEvent (rolledBackStatus ok) (r1\<lparr>sStatus := rolledBackStatus ok, sMessage := [cause]\<rparr>)
      in (Some r2, Some cause, snd (writeStackRecord e r2 w)))"

definition new_record :: "bool \<Rightarrow> builtResource list \<Rightarrow> StackRecord" where
  "new_record protection order =
     stackEvent ''CREATE_IN_PROGRESS''
       \<lparr>sStatus = ''CREATE_IN_PROGRESS'', sMessage = [], sResources = map res order, sPending = [], Restarting = [], Outputs = [],
        OutputsOmitted = False, TerminationProtection = protection, Events = []\<rparr>"

definition Deploy :: "env \<Rightarrow> options \<Rightarrow> bool \<Rightarrow> builder \<Rightarrow> world \<Rightarrow> answer" where
  "Deploy e op protection build w =
     (if Namespace op = [] then (None, Some NoNamespace, w)
      else case buildAvoidingLeftovers e op build [] w of
          (Inl x, w1) \<Rightarrow> (None, Some x, w1)
        | (Inr order, w1) \<Rightarrow>
            let r = new_record protection order
            in case writeStackRecord e r w1 of
                 (Some x, w2) \<Rightarrow> (None, Some x, w2)
               | (None, w2) \<Rightarrow>
                   (case deploy_all e op order \<lparr>applied = [], waits = [], completed = [], owns = [], rec = r, now = w2\<rparr> of
                      Inl (i, x, st) \<Rightarrow> deploy_rollback e op order i x st
                    | Inr st \<Rightarrow>
                        let (r1, w3) = setOutputs e (rec st) (now st)
                        in if OutputsOmitted r1 then deploy_rollback e op order [] OutputsUnresolved (st\<lparr>rec := r1, now := w3\<rparr>)
                           else
                             let r2 = stackEvent ''CREATE_COMPLETE'' (r1\<lparr>sStatus := ''CREATE_COMPLETE''\<rparr>);
                                 (f, w4) = writeStackRecord e r2 w3
                             in (Some r2, f, w4)))"


subsection \<open>What a create does to the cluster\<close>

lemma waitForSignals_objects: "waitForSignals e w = (f, d, w') \<Longrightarrow> object_at w' j = object_at w j"
  by (auto simp: waitForSignals_def split: prod.splits elim!: callE)

lemma resourceWait_objects:
  assumes "resourceWait e op b w = (f, d, w')"
  shows "object_at w' j = object_at w j"
proof -
  have w: "leaves {} (waitInstanceRunning e (res b))" "leaves {} (call e (\<lambda>w. w))"
    by (auto simp: leaves_def waitInstanceRunning_def call_def Let_def split: option.splits)
  obtain x w1 where t: "in_turn [call e (\<lambda>w. w), waitInstanceRunning e (res b)] w = (x, w1)" by fastforce
  have "object_at w1 j = object_at w j"
    using leavesD [OF leaves_in_turn t, of "{}" j] w by simp
  then show ?thesis using assms waitForSignals_objects [of e w f d w' j] waitForSignals_objects [of e w1 f d w' j]
    unfolding resourceWait_def t by (simp split: if_splits option.splits)
qed

text \<open>Progress with the same objects, applications and ownership.\<close>

definition same_work :: "progress \<Rightarrow> progress \<Rightarrow> bool" where
  "same_work st st' \<longleftrightarrow> applied st' = applied st \<and> owns st' = owns st \<and> (\<forall>j. object_at (now st') j = object_at (now st) j)"

lemma same_work_trans: "same_work st st' \<Longrightarrow> same_work st' st'' \<Longrightarrow> same_work st st''"
  by (simp add: same_work_def)

lemma same_work_complete: "(\<And>j. object_at w j = object_at (now st) j) \<Longrightarrow> same_work st (complete b d (st\<lparr>now := w\<rparr>))"
  by (simp add: same_work_def complete_def Let_def)

lemma settleWaits_same:
  "case settleWaits e op bs st of Inl (b, x, st') \<Rightarrow> same_work st st' | Inr st' \<Rightarrow> same_work st st'"
proof (induction bs arbitrary: st)
  case (Cons b bs)
  obtain f d w where r: "resourceWait e op b (now st) = (f, d, w)" by (metis prod_cases3)
  note w = resourceWait_objects [OF r]
  show ?case
  proof (cases f)
    case None
    then show ?thesis using Cons.IH [of "complete b d (st\<lparr>now := w\<rparr>)"] same_work_trans [OF same_work_complete [OF w]] r
      by (auto split: sum.splits)
  qed (use r w in \<open>simp add: same_work_def\<close>)
qed (simp add: same_work_def)

lemma settle_same:
  "settle e op ws st = Inr st' \<Longrightarrow> same_work st st'" "settle e op ws st = Inl (i, x, st') \<Longrightarrow> same_work st st'"
  using settleWaits_same [where e = e and op = op and bs = "shuffle (pick e) (calls (now st)) ws" and st = st]
  by (auto simp: settle_def same_work_def split: sum.splits prod.splits)

lemma untouched_refl: "object_at w' k = object_at w k \<Longrightarrow> untouched e w w' k"
  by (simp add: untouched_def)

lemma untouched_trans: "untouched e w w' k \<Longrightarrow> untouched e w' w'' k \<Longrightarrow> untouched e w w'' k"
  by (auto simp: untouched_def)

text \<open>
  What holds as a create of the resources \<open>R\<close> goes on from \<open>w0\<close>: what it owns was absent and is among what it
  applied, and every other object is as it was, but for the shared ones \<open>S\<close>.
\<close>

definition create_inv :: "env \<Rightarrow> world \<Rightarrow> okey set \<Rightarrow> StackResource set \<Rightarrow> progress \<Rightarrow> bool" where
  "create_inv e w0 S R st \<longleftrightarrow>
     (\<forall>k \<in> set (owns st). (k \<notin> S \<longrightarrow> object_at w0 k = None) \<and> k \<in> objectKey ` set (applied st)) \<and>
     (\<forall>r \<in> set (applied st). (objectKey r \<in> set (owns st) \<or> objectKey r \<in> S) \<and> r \<in> R) \<and>
     (\<forall>k. k \<notin> set (owns st) \<longrightarrow> k \<notin> S \<longrightarrow> untouched e w0 (now st) k)"

lemma create_inv_same: "create_inv e w0 S R st \<Longrightarrow> same_work st st' \<Longrightarrow> create_inv e w0 S R st'"
  unfolding create_inv_def same_work_def by (simp add: untouched_def)

lemma applyOwned_shared:
  assumes "applyOwned e op b own w = (f, own', w')" "shared b"
  shows "own' = own" "j \<noteq> objectKey (res b) \<Longrightarrow> object_at w' j = object_at w j"
proof -
  obtain x w1 where c: "check_requires e (requires b) w = (x, w1)" by fastforce
  obtain y w2 where a: "ap_Apply e (objectKey (res b)) (renderManifest op (res b) (bAnnotations b)) w1 = (y, w2)" by fastforce
  have "object_at w1 j = object_at w j" using leavesD [OF leaves_check_requires c, of j] by simp
  then show "own' = own" "j \<noteq> objectKey (res b) \<Longrightarrow> object_at w' j = object_at w j"
    using assms ap_Apply_object [OF a, of j] by (auto simp: applyOwned_def Let_def c apply_as_def a split: option.splits if_splits)
qed

lemma apply_inv:
  assumes "applyOwned e op b (owns st) w = (f, own, w')" "LabelReader op" "Creator op"
    and "shared b \<Longrightarrow> objectKey (res b) \<in> S" "create_inv e w0 S R st" "\<And>j. object_at w j = object_at (now st) j" "res b \<in> R"
  shows "f = None \<Longrightarrow> create_inv e w0 S R (st\<lparr>applied := applied st @ [res b], owns := own, now := w', waits := ws, rec := r\<rparr>)"
    and "f \<noteq> None \<Longrightarrow> create_inv e w0 S R (st\<lparr>now := w', waits := ws, rec := r\<rparr>)"
proof -
  let ?k = "objectKey (res b)"
  have old: "untouched e w0 w j" if "j \<notin> set (owns st)" "j \<notin> S" for j
    using assms(5,6) that unfolding create_inv_def untouched_def by metis
  have "(f = None \<longrightarrow> create_inv e w0 S R (st\<lparr>applied := applied st @ [res b], owns := own, now := w', waits := ws, rec := r\<rparr>)) \<and>
      (f \<noteq> None \<longrightarrow> create_inv e w0 S R (st\<lparr>now := w', waits := ws, rec := r\<rparr>))"
  proof (cases "shared b")
    case True
    note s = applyOwned_shared [OF assms(1) True]
    have "untouched e w0 w' j" if j: "j \<notin> set (owns st)" "j \<notin> S" for j
    proof -
      have "j \<noteq> ?k" using assms(4) [OF True] j by metis
      then show ?thesis using old [OF j] s(2) [of j] by (simp add: untouched_def)
    qed
    then show ?thesis using s(1) assms(4) [OF True] assms(5,7) by (auto simp: create_inv_def)
  next
    case False
    have a: "applied_ok e ?k (renderManifest op (res b) (bAnnotations b)) (owns st) w (f, own, w')"
      using applyOwned_ok [OF assms(2,3) False, of e "owns st" w] assms(1) by simp
    have others: "object_at w' j = object_at w j" if "j \<noteq> ?k" for j using a that unfolding applied_ok_def prod.case by blast
    show ?thesis
    proof (cases f)
      case None
      then have own: "object_at w ?k = None \<and> own = ?k # owns st \<or> ?k \<in> set (owns st) \<and> own = owns st"
        using a by (simp add: applied_ok_def)
      have absent: "object_at w0 ?k = None" if "?k \<notin> set (owns st)" "?k \<notin> S"
        using old [OF that] own that by (auto simp: untouched_def)
      have sub: "set own = insert ?k (set (owns st))" using own by auto
      have "untouched e w0 w' j" if j: "j \<notin> set own" "j \<notin> S" for j
        using old [of j] others [of j] j unfolding sub untouched_def by auto
      moreover have "(k \<notin> S \<longrightarrow> object_at w0 k = None) \<and> k \<in> objectKey ` set (applied st @ [res b])" if "k \<in> set own" for k
        using that absent assms(5) unfolding sub create_inv_def by (cases "k \<in> set (owns st)") auto
      moreover have "(objectKey x \<in> set own \<or> objectKey x \<in> S) \<and> x \<in> R" if "x \<in> set (applied st @ [res b])" for x
        using that assms(5,7) unfolding sub create_inv_def by auto
      ultimately show ?thesis using None unfolding create_inv_def by (simp del: set_append)
    next
      case (Some x)
      then have "untouched e w w' ?k" "own = owns st" using a by (auto simp: applied_ok_def)
      then have "untouched e w0 w' j" if j: "j \<notin> set (owns st)" "j \<notin> S" for j
        using old [OF j] untouched_trans others [of j] by (cases "j = ?k") (auto simp: untouched_def)
      then show ?thesis using Some assms(5) by (simp add: create_inv_def)
    qed
  qed
  then show "f = None \<Longrightarrow> create_inv e w0 S R (st\<lparr>applied := applied st @ [res b], owns := own, now := w', waits := ws, rec := r\<rparr>)"
    "f \<noteq> None \<Longrightarrow> create_inv e w0 S R (st\<lparr>now := w', waits := ws, rec := r\<rparr>)" by blast+
qed


lemma deploy_one_inv:
  assumes "LabelReader op" "Creator op" "shared b \<Longrightarrow> objectKey (res b) \<in> S" "create_inv e w0 S R st" "\<not> IsSignalWait (res b) \<Longrightarrow> res b \<in> R"
  shows "case deploy_one e op b st of Inl (i, x, st') \<Rightarrow> create_inv e w0 S R st' | Inr st' \<Rightarrow> create_inv e w0 S R st'"
proof -
  obtain d keep where d: "due (after b) (waits st) = (d, keep)" by fastforce
  have st: "create_inv e w0 S R (st\<lparr>waits := keep\<rparr>)" using assms(4) by (simp add: create_inv_def)
  show ?thesis
  proof (cases "settle e op d (st\<lparr>waits := keep\<rparr>)")
    case (Inl y)
    obtain i x st' where y: "y = (i, x, st')" by (metis prod_cases3)
    show ?thesis using create_inv_same [OF st settle_same(2)] Inl by (simp add: deploy_one_def d y)
  next
    case (Inr st1)
    have inv1: "create_inv e w0 S R st1" by (rule create_inv_same [OF st settle_same(1) [OF Inr]])
    let ?r = "resourceEvent (res b) ''CREATE_IN_PROGRESS'' (rec st1)"
    obtain f w where t: "tableTaken e op (res b) (now st1) = (f, w)" by fastforce
    have w: "object_at w j = object_at (now st1) j" for j using leavesD [OF leaves_objects(10) t, of j] by simp
    obtain g own w' where a: "applyOwned e op b (owns st1) w = (g, own, w')" by (metis prod_cases3)
    note inv = apply_inv [OF a assms(1,2,3) inv1 w]
    show ?thesis
    proof (cases "IsSignalWait (res b)")
      case True
      then show ?thesis using inv1 by (simp add: deploy_one_def d Inr create_inv_def)
    next
      case False
      show ?thesis
      proof (cases f)
        case None
        then show ?thesis using False assms(5) inv(1) [where ws = "waits st1 @ [b]" and r = ?r] inv(2) [where ws = "waits st1" and r = ?r]
          by (cases g) (simp_all add: deploy_one_def d Inr t a create_inv_def)
      next
        case (Some x)
        then show ?thesis using False inv1 w by (simp add: deploy_one_def d Inr t create_inv_def untouched_def)
      qed
    qed
  qed
qed

lemma deploy_all_inv:
  assumes "LabelReader op" "Creator op" "\<And>b. b \<in> set bs \<Longrightarrow> shared b \<Longrightarrow> objectKey (res b) \<in> S" "create_inv e w0 S R st"
    and "\<And>b. b \<in> set bs \<Longrightarrow> \<not> IsSignalWait (res b) \<Longrightarrow> res b \<in> R"
  shows "case deploy_all e op bs st of Inl (i, x, st') \<Rightarrow> create_inv e w0 S R st' | Inr st' \<Rightarrow> create_inv e w0 S R st'"
  using assms(3,4,5)
proof (induction bs arbitrary: st)
  case Nil
  have "create_inv e w0 S R (st\<lparr>waits := []\<rparr>)" using Nil.prems(2) by (simp add: create_inv_def)
  then show ?case using create_inv_same settle_same by (auto split: sum.splits)
next
  case (Cons b bs)
  have one: "case deploy_one e op b st of Inl (i, x, st') \<Rightarrow> create_inv e w0 S R st' | Inr st' \<Rightarrow> create_inv e w0 S R st'"
    by (rule deploy_one_inv [OF assms(1,2) _ Cons.prems(2)]) (use Cons.prems(1,3) in simp_all)
  show ?case
  proof (cases "deploy_one e op b st")
    case (Inr st1)
    then show ?thesis using Cons.IH [of st1] Cons.prems(1,3) one by simp
  qed (use one in simp)
qed

lemma leaves_leftover_scan: "leaves {} (leftover_scan e op own bs skip hit)"
proof (induction bs arbitrary: skip hit)
  case (Cons b bs)
  show ?case unfolding leaves_def
  proof (intro allI impI)
    fix w k assume "k \<notin> ({} :: okey set)"
    obtain x w1 where g: "GetLabels e (objectKey (res b)) w = (x, w1)" by fastforce
    have IH: "object_at (snd (leftover_scan e op own bs skip hit v)) k = object_at v k" for skip hit v
      using Cons unfolding leaves_def by blast
    show "object_at (snd (leftover_scan e op own (b # bs) skip hit w)) k = object_at w k"
      using GetLabels_world [OF g, of k] by (simp add: g IH split: sum.splits option.splits)
  qed
qed (simp add: leaves_def)

lemma build_around_result:
  assumes "build_around n e op build own ns w = (r, w')"
  shows "object_at w' j = object_at w j" "r = Inr bs \<Longrightarrow> \<exists>ns. build ns = Inr bs"
proof -
  have "object_at w' j = object_at w j \<and> (r = Inr bs \<longrightarrow> (\<exists>ns. build ns = Inr bs))" using assms
  proof (induction n arbitrary: ns w)
    case (Suc n)
    show ?case
    proof (cases "build ns")
      case (Inr order)
      obtain x w1 where l: "leftoverHits e op order own ns w = (x, w1)" by fastforce
      have w1: "object_at w1 j = object_at w j"
        using l leavesD [OF leaves_leftover_scan, of e op own order ns "[]" w x w1 j] by (simp add: leftoverHits_def split: if_splits)
      show ?thesis using Suc.prems Suc.IH Inr l w1 by (auto split: sum.splits if_splits)
    qed (use Suc.prems in auto)
  qed auto
  then show "object_at w' j = object_at w j" "r = Inr bs \<Longrightarrow> \<exists>ns. build ns = Inr bs" by blast+
qed

lemma setOutputs_objects: "setOutputs e r w = (r', w') \<Longrightarrow> object_at w' j = object_at w j"
  by (auto simp: setOutputs_def)

lemma write_objects: "object_at (snd (writeStackRecord e r w)) j = object_at w j"
  using leaves_objects(9) [of e r] unfolding leaves_def by blast


lemma stackEvent_fields [simp]:
  "sStatus (stackEvent s r) = sStatus r" "sResources (stackEvent s r) = sResources r" "sPending (stackEvent s r) = sPending r"
  by (simp_all add: stackEvent_def addEvent_def Let_def)

lemma deploy_rollback_objects:
  assumes "deploy_rollback e op order i x st = (r, f, w')" "create_inv e w0 S R st" "k \<notin> S"
  shows "object_at w0 k \<noteq> None \<Longrightarrow> object_at w' k = object_at w0 k"
    and "r = Some rc \<Longrightarrow> sStatus rc = ''ROLLBACK_COMPLETE'' \<Longrightarrow> (\<And>a. a \<in> R \<Longrightarrow> objectKey a = k \<Longrightarrow> plain a \<and> \<not> keptOnRollback a) \<Longrightarrow>
      untouched e w0 w' k"
proof -
  let ?r = "stackEvent ''ROLLBACK_IN_PROGRESS'' (cancel i (waits st) (failed_event order i (rec st)))"
  obtain ok r1 w1 where b: "rollback_all e op (rev (applied st)) ?r (now st) = (ok, r1, w1)" by (metis prod_cases3)
  let ?r2 = "stackEvent (rolledBackStatus ok) (r1\<lparr>sStatus := rolledBackStatus ok, sMessage := [x]\<rparr>)"
  have res: "r = Some ?r2" "w' = snd (writeStackRecord e ?r2 w1)"
    using assms(1) by (simp_all add: deploy_rollback_def rollbackCreate_def Let_def b)
  have w': "object_at w' j = object_at w1 j" for j by (simp add: res(2) write_objects)
  have status: "r = Some rc \<Longrightarrow> sStatus rc = rolledBackStatus ok" using res(1) by auto
  have k: "k \<notin> set (owns st) \<Longrightarrow> untouched e w0 (now st) k" "k \<in> set (owns st) \<Longrightarrow> object_at w0 k = None"
      "k \<in> set (owns st) \<Longrightarrow> k \<in> objectKey ` set (applied st)" "k \<in> objectKey ` set (applied st) \<Longrightarrow> k \<in> set (owns st)"
      "set (applied st) \<subseteq> R"
    using assms(2,3) unfolding create_inv_def by blast+
  have kept: "k \<notin> set (owns st) \<Longrightarrow> object_at w1 k = object_at (now st) k"
    using rollback_all_object(1) [OF b, of k] k(4) by (metis set_rev)
  show "object_at w0 k \<noteq> None \<Longrightarrow> object_at w' k = object_at w0 k"
    using k(1,2) kept w' [of k] by (cases "k \<in> set (owns st)") (auto simp: untouched_def)
  show "untouched e w0 w' k"
    if c: "r = Some rc" "sStatus rc = ''ROLLBACK_COMPLETE''" "\<And>a. a \<in> R \<Longrightarrow> objectKey a = k \<Longrightarrow> plain a \<and> \<not> keptOnRollback a"
  proof (cases "k \<in> set (owns st)")
    case True
    then obtain a where a: "a \<in> set (applied st)" "objectKey a = k" using k(3) by blast
    have ok using status c(1,2) by (auto simp: rolledBackStatus_def split: if_splits)
    then have "object_at w1 k = None" using rollback_all_object(2) [OF b] a c(3) k(5) by auto
    then show ?thesis using k(2) True w' [of k] by (simp add: untouched_def)
  next
    case False
    then show ?thesis using k(1) kept w' [of k] by (simp add: untouched_def)
  qed
qed

text \<open>The objects of a build: those several stacks share, and those it creates.\<close>

definition shares :: "builder \<Rightarrow> okey \<Rightarrow> bool" where
  "shares build k \<longleftrightarrow> (\<exists>ns bs. build ns = Inr bs \<and> (\<exists>b \<in> set bs. shared b \<and> objectKey (res b) = k))"

definition created_by :: "builder \<Rightarrow> StackResource set" where
  "created_by build = {res b | ns bs b. build ns = Inr bs \<and> b \<in> set bs \<and> \<not> IsSignalWait (res b)}"

lemma Deploy_objects:
  assumes "Deploy e op protection build w = (r, f, w')" "LabelReader op" "Creator op"
  defines "S \<equiv> {k. shares build k}"
  shows "(\<exists>st. create_inv e w S (created_by build) st \<and> (\<forall>j. object_at w' j = object_at (now st) j)) \<and>
      (\<forall>rc. r = Some rc \<longrightarrow> sStatus rc \<noteq> ''ROLLBACK_COMPLETE'') \<or>
    (\<exists>order i x st. create_inv e w S (created_by build) st \<and> deploy_rollback e op order i x st = (r, f, w'))"
proof -
  let ?start = "\<lambda>w r. \<lparr>applied = [], waits = [], completed = [], owns = [], rec = r, now = w\<rparr>"
  have start: "create_inv e w S R (?start w2 r)" if "\<And>j. object_at w2 j = object_at w j" for w2 r R
    using that by (simp add: create_inv_def untouched_def)
  obtain b w1 where b: "buildAvoidingLeftovers e op build [] w = (b, w1)" by fastforce
  have w1: "object_at w1 j = object_at w j" for j
    using build_around_result(1) b unfolding buildAvoidingLeftovers_def by blast
  consider (name) "Namespace op = []" | (refused) x where "Namespace op \<noteq> []" "b = Inl x" | (built) order where "Namespace op \<noteq> []" "b = Inr order"
    by (cases b) auto
  then show ?thesis
  proof cases
    case name
    then show ?thesis using assms(1) start [of w] by (auto simp: Deploy_def intro!: exI [of _ "?start w undefined"])
  next
    case (refused x)
    then show ?thesis using assms(1) b start [OF w1] w1 by (auto simp: Deploy_def intro!: exI [of _ "?start w1 undefined"])
  next
    case (built order)
    let ?rec = "new_record protection order"
    obtain ns where ns: "build ns = Inr order"
      using build_around_result(2) b built unfolding buildAvoidingLeftovers_def by blast
    obtain g w2 where g: "writeStackRecord e ?rec w1 = (g, w2)" by fastforce
    have w2: "object_at w2 j = object_at w j" for j using write_objects [of e ?rec w1 j] g w1 by simp
    have all: "case deploy_all e op order (?start w2 ?rec) of Inl (i, x, st') \<Rightarrow> create_inv e w S (created_by build) st'
        | Inr st' \<Rightarrow> create_inv e w S (created_by build) st'"
      by (rule deploy_all_inv [OF assms(2,3) _ start [OF w2]]) (use ns in \<open>auto simp: S_def shares_def created_by_def\<close>)
    have D: "(r, f, w') = (case g of Some x \<Rightarrow> (None, Some x, w2) | None \<Rightarrow>
        (case deploy_all e op order (?start w2 ?rec) of
           Inl (i, x, st) \<Rightarrow> deploy_rollback e op order i x st
         | Inr st \<Rightarrow>
             let (r1, w3) = setOutputs e (rec st) (now st)
             in if OutputsOmitted r1 then deploy_rollback e op order [] OutputsUnresolved (st\<lparr>rec := r1, now := w3\<rparr>)
                else let r2 = stackEvent ''CREATE_COMPLETE'' (r1\<lparr>sStatus := ''CREATE_COMPLETE''\<rparr>); (f, w4) = writeStackRecord e r2 w3
                  in (Some r2, f, w4)))"
      using assms(1) built b g by (simp add: Deploy_def Let_def split: option.splits)
    show ?thesis
    proof (cases g)
      case (Some x)
      then show ?thesis using D start [OF w2] w2 by (auto intro!: exI [of _ "?start w2 undefined"])
    next
      case None
      show ?thesis
      proof (cases "deploy_all e op order (?start w2 ?rec)")
        case (Inl y)
        obtain i x st where y: "y = (i, x, st)" by (metis prod_cases3)
        have "deploy_rollback e op order i x st = (r, f, w')" "create_inv e w S (created_by build) st" using D None all Inl y by simp_all
        then show ?thesis by blast
      next
        case (Inr st)
        then have inv: "create_inv e w S (created_by build) st" using all by simp
        obtain r1 w3 where o: "setOutputs e (rec st) (now st) = (r1, w3)" by fastforce
        have w3: "object_at w3 j = object_at (now st) j" for j by (rule setOutputs_objects [OF o])
        show ?thesis
        proof (cases "OutputsOmitted r1")
          case True
          have "create_inv e w S (created_by build) (st\<lparr>rec := r1, now := w3\<rparr>)"
            by (rule create_inv_same [OF inv]) (simp add: same_work_def w3)
          moreover have "deploy_rollback e op order [] OutputsUnresolved (st\<lparr>rec := r1, now := w3\<rparr>) = (r, f, w')" using D None Inr o True by simp
          ultimately show ?thesis by blast
        next
          case False
          let ?r2 = "stackEvent ''CREATE_COMPLETE'' (r1\<lparr>sStatus := ''CREATE_COMPLETE''\<rparr>)"
          obtain h w4 where h: "writeStackRecord e ?r2 w3 = (h, w4)" by fastforce
          have "r = Some ?r2" "w' = snd (writeStackRecord e ?r2 w3)" using D None Inr o False by (simp_all add: Let_def h)
          then have "\<forall>j. object_at w' j = object_at (now st) j" "\<forall>rc. r = Some rc \<longrightarrow> sStatus rc \<noteq> ''ROLLBACK_COMPLETE''"
            using w3 by (simp_all add: write_objects)
          then show ?thesis using inv by blast
        qed
      qed
    qed
  qed
qed

text \<open>
  C2. A create takes over nothing: whatever fails and whoever races it, every object that existed before is as
  it was afterwards, save those several stacks share on purpose.\<close>

theorem create_takes_over_nothing:
  assumes "Deploy e op protection build w = (r, f, w')" and "LabelReader op" and "Creator op"
    and "object_at w k = Some ob" and "\<not> shares build k"
  shows "object_at w' k = Some ob"
  using Deploy_objects [OF assms(1-3)]
proof (elim disjE conjE exE)
  fix st assume i: "create_inv e w {k. shares build k} (created_by build) st" and w': "\<forall>j. object_at w' j = object_at (now st) j"
  have "k \<notin> set (owns st)" using i assms(4,5) by (auto simp: create_inv_def)
  then have "untouched e w (now st) k" using i assms(5) unfolding create_inv_def by blast
  then show ?thesis using assms(4) spec [OF w', of k] by (simp add: untouched_def)
next
  fix order i x st assume "create_inv e w {k. shares build k} (created_by build) st" "deploy_rollback e op order i x st = (r, f, w')"
  then show ?thesis using deploy_rollback_objects(1) [of e op order i x st r f w' w "{k. shares build k}"] assms(4,5) by simp
qed



subsection \<open>A create into a name that is taken\<close>

text \<open>Stack \<^verbatim>\<open>web\<close> has a bucket and a queue; the queue's name is another stack's.\<close>

definition web_options :: options where
  "web_options = \<lparr>StackName = ''web'', Namespace = ''team'', Wait = False, Invoke = False, DeprovisionRestAPI = False, NestedStacks = False,
     BucketData = False, RemoveBucket = False, TableExists = False, RemoveTable = False, LabelReader = True, Creator = True,
     Lister = False, PowerSetter = False\<rparr>"

definition quiet_cluster :: env where
  "quiet_cluster = \<lparr>outcome_at = (\<lambda>_. Done), reply_at = (\<lambda>_. None), outputs_at = (\<lambda>_. Some []), signals_at = (\<lambda>_. []), pick = (\<lambda>_. 0),
     racing = (\<lambda>_. None)\<rparr>"

definition recorded :: "string \<Rightarrow> string \<Rightarrow> string \<Rightarrow> StackResource" where
  "recorded i kind n = \<lparr>LogicalID = i, rAPIVersion = ''openinfra.dev/v1'', rKind = kind, rName = n, DeletionPolicy = [], rSpec = [],
     ProvisionedID = [], Protected = False, rStatus = [], SignalData = []\<rparr>"

definition built :: "string \<Rightarrow> string \<Rightarrow> string \<Rightarrow> builtResource" where
  "built i kind n = \<lparr>res = recorded i kind n, bAnnotations = [], shared = False, requires = [], signals = False, after = []\<rparr>"

definition web_build :: builder where
  "web_build = (\<lambda>_. Inr [built ''Assets'' ''Bucket'' ''web-assets'', built ''Jobs'' ''Queue'' ''jobs''])"

definition jobs_queue :: okey where
  "jobs_queue = (''openinfra.dev/v1'', ''Queue'', ''jobs'')"

definition others_queue :: obj where
  "others_queue = \<lparr>oLabels = [(labelStack, ''billing'')], oAnnotations = [], oSpec = []\<rparr>"

definition others_world :: world where
  "others_world = \<lparr>objs = [(jobs_queue, others_queue)], stored = None, buckets = [], tables = [], nested = [], rest_apis = [], stopped = [], calls = 0\<rparr>"

definition web_answer :: answer where
  "web_answer = Deploy quiet_cluster web_options False web_build others_world"

lemma web_shares: "\<not> shares web_build k"
  by (auto simp: shares_def web_build_def built_def)

theorem create_takes_over_nothing_witness:
  "object_at others_world jobs_queue = Some others_queue \<and> fst (snd web_answer) = Some (OtherStack jobs_queue ''billing'') \<and>
   object_at (snd (snd web_answer)) jobs_queue = Some others_queue"
proof -
  obtain r f w' where d: "Deploy quiet_cluster web_options False web_build others_world = (r, f, w')" by (metis prod_cases3)
  have c: "LabelReader web_options" "Creator web_options" by (simp_all add: web_options_def)
  have o: "object_at others_world jobs_queue = Some others_queue" by code_simp
  have "fst (snd web_answer) = Some (OtherStack jobs_queue ''billing'')" by code_simp
  then show ?thesis using create_takes_over_nothing [OF d c o web_shares] o d by (simp add: web_answer_def)
qed


end
