(* ===== verification/CfnDelete.thy ===== *)
theory CfnDelete
  imports CfnCreate
begin

text \<open>Deleting a stack: \<^verbatim>\<open>Destroy\<close> in \<^verbatim>\<open>cfn/destroy.go\<close>.\<close>

subsection \<open>The delete\<close>

definition withStatuses :: "StackResource list \<Rightarrow> StackResource list \<Rightarrow> StackResource list" where
  "withStatuses rs from =
     map (\<lambda>r. case map_of (rev (map (\<lambda>f. (LogicalID f, rStatus f)) from)) (LogicalID r) of
                None \<Rightarrow> r
              | Some s \<Rightarrow> if s = [] then r else r\<lparr>rStatus := s\<rparr>) rs"

definition destroy_failed ::
  "env \<Rightarrow> StackRecord \<Rightarrow> StackRecord \<Rightarrow> StackResource list \<Rightarrow> StackResource list \<Rightarrow> fault \<Rightarrow> world \<Rightarrow> answer" where
  "destroy_failed e rc prog resources pending cause w =
     (let out = stackEvent ''DELETE_FAILED''
        (rc\<lparr>sStatus := ''DELETE_FAILED'', sMessage := [cause], sResources := withStatuses resources (sResources prog),
           sPending := pending, Events := Events prog\<rparr>)
      in (Some out, Some cause, snd (writeStackRecord e out w)))"

definition destroy_recorded :: "env \<Rightarrow> options \<Rightarrow> StackRecord \<Rightarrow> world \<Rightarrow> answer" where
  "destroy_recorded e op rc w =
     (let prog = stackEvent ''DELETE_IN_PROGRESS'' (rc\<lparr>sStatus := ''DELETE_IN_PROGRESS''\<rparr>)
      in case writeStackRecord e prog w of
           (Some x, w1) \<Rightarrow> (None, Some x, w1)
         | (None, w1) \<Rightarrow>
             (case teardown e op (sPending rc) True False prog w1 of
                (pending, Some x, prog1, w2) \<Rightarrow> destroy_failed e rc prog1 (sResources rc) pending x w2
              | (pending, None, prog1, w2) \<Rightarrow>
                  (case teardown e op (sResources rc) False False prog1 w2 of
                     (remaining, Some x, prog2, w3) \<Rightarrow> destroy_failed e rc prog2 remaining pending x w3
                   | (remaining, None, prog2, w3) \<Rightarrow>
                       (Some (stackEvent ''DELETE_COMPLETE''
                          (rc\<lparr>sStatus := ''DELETE_COMPLETE'', sResources := withStatuses (remaining @ pending) (sResources prog2),
                             sPending := [], Events := Events prog2\<rparr>)),
                        None, snd (call e (\<lambda>w. w\<lparr>stored := None\<rparr>) w3)))))"

definition Destroy :: "env \<Rightarrow> options \<Rightarrow> world \<Rightarrow> answer" where
  "Destroy e op w =
     (if Namespace op = [] then (None, Some NoNamespace, w)
      else case GetStack e w of
          (Inl x, w1) \<Rightarrow> (None, Some x, w1)
        | (Inr None, w1) \<Rightarrow> (None, Some NoStack, w1)
        | (Inr (Some rc), w1) \<Rightarrow>
            let all = sResources rc @ sPending rc;
                snapshot = map LogicalID (filter (\<lambda>r. equal_fold (DeletionPolicy r) ''Snapshot'') all)
            in if TerminationProtection rc then (Some rc, Some TerminationProtected, w1)
               else if snapshot \<noteq> [] then (Some rc, Some (SnapshotPolicy snapshot), w1)
               else if protectedOf all \<noteq> [] then (Some rc, Some (ProtectedResources (protectedOf all)), w1)
               else destroy_recorded e op rc w1)"

subsection \<open>What a delete does\<close>

lemma withStatuses_keys [simp]: "map objectKey (withStatuses rs from) = map objectKey rs"
  by (auto simp: withStatuses_def objectKey_def split: option.splits)

lemma withStatuses_keys_set [simp]: "objectKey ` set (withStatuses rs from) = objectKey ` set rs"
  by (metis set_map withStatuses_keys)

text \<open>The two teardowns of a delete, and what becomes of the record.\<close>

definition deletion :: "options \<Rightarrow> StackRecord \<Rightarrow> world \<Rightarrow> StackRecord \<Rightarrow> fault option \<Rightarrow> world \<Rightarrow> bool" where
  "deletion op rc w out f w' \<longleftrightarrow>
     (\<exists>pending g w1. torn op True False (sPending rc) w (pending, g, w1) \<and> set pending \<subseteq> set (sPending rc) \<and>
        (if g \<noteq> None then f \<noteq> None \<and> (\<forall>j. object_at w' j = object_at w1 j) \<and>
           objectKey ` set (sResources out) = objectKey ` set (sResources rc) \<and> sPending out = pending
         else \<exists>remaining w2. torn op False False (sResources rc) w1 (remaining, f, w2) \<and> set remaining \<subseteq> set (sResources rc) \<and>
           (\<forall>j. object_at w' j = object_at w2 j) \<and>
           objectKey ` set (sResources out @ sPending out) = objectKey ` set (remaining @ pending)))"

lemma object_at_call [simp]: "object_at (snd (call e (\<lambda>w. w\<lparr>stored := s\<rparr>) w)) j = object_at w j"
  by (simp add: call_def Let_def split: option.splits)

lemma destroy_recorded_deletion:
  assumes "destroy_recorded e op rc w = (Some out, f, w')"
  shows "deletion op rc w out f w'"
proof -
  let ?prog = "stackEvent ''DELETE_IN_PROGRESS'' (rc\<lparr>sStatus := ''DELETE_IN_PROGRESS''\<rparr>)"
  obtain x w1 where r: "writeStackRecord e ?prog w = (x, w1)" by fastforce
  have w1: "object_at w1 j = object_at w j" for j using write_objects [of e ?prog w j] r by simp
  have x: "x = None" using assms r by (auto simp: destroy_recorded_def Let_def split: option.splits)
  obtain pending g prog1 w2 where p: "teardown e op (sPending rc) True False ?prog w1 = (pending, g, prog1, w2)" by (metis prod_cases4)
  have t1: "torn op True False (sPending rc) w (pending, g, w2)" using teardown_torn(1) [OF p] w1 by (simp add: torn_def shrinks_def)
  note s1 = teardown_torn(2) [OF p]
  show ?thesis
  proof (cases g)
    case (Some y)
    have "out = stackEvent ''DELETE_FAILED'' (rc\<lparr>sStatus := ''DELETE_FAILED'', sMessage := [y],
        sResources := withStatuses (sResources rc) (sResources prog1), sPending := pending, Events := Events prog1\<rparr>)" "f = Some y"
        "\<forall>j. object_at w' j = object_at w2 j"
      using assms Some by (auto simp: destroy_recorded_def destroy_failed_def Let_def r x p write_objects)
    then show ?thesis using t1 s1 Some unfolding deletion_def by (intro exI [of _ pending] exI [of _ g] exI [of _ w2]) simp
  next
    case None
    obtain remaining h prog2 w3 where q: "teardown e op (sResources rc) False False prog1 w2 = (remaining, h, prog2, w3)" by (metis prod_cases4)
    have "objectKey ` set (sResources out @ sPending out) = objectKey ` set (remaining @ pending) \<and> f = h \<and> (\<forall>j. object_at w' j = object_at w3 j)"
    proof (cases h)
      case h: None
      have "out = stackEvent ''DELETE_COMPLETE'' (rc\<lparr>sStatus := ''DELETE_COMPLETE'',
            sResources := withStatuses (remaining @ pending) (sResources prog2), sPending := [], Events := Events prog2\<rparr>)"
          "f = None" "w' = snd (call e (\<lambda>w. w\<lparr>stored := None\<rparr>) w3)"
        using assms None h by (simp_all add: destroy_recorded_def Let_def r x p q)
      then show ?thesis using h withStatuses_keys_set [of "remaining @ pending" "sResources prog2"] by simp
    next
      case (Some y)
      then have "out = stackEvent ''DELETE_FAILED'' (rc\<lparr>sStatus := ''DELETE_FAILED'', sMessage := [y],
            sResources := withStatuses remaining (sResources prog2), sPending := pending, Events := Events prog2\<rparr>)" "f = Some y"
          "\<forall>j. object_at w' j = object_at w3 j"
        using assms None by (auto simp: destroy_recorded_def destroy_failed_def Let_def r x p q write_objects)
      then show ?thesis using Some by (simp add: image_Un)
    qed
    then show ?thesis using t1 s1 None teardown_torn [OF q] unfolding deletion_def
      by (intro exI [of _ pending] exI [of _ g] exI [of _ w2]) auto
  qed
qed


lemma GetStack_result: "GetStack e w = (r, w') \<Longrightarrow> object_at w' j = object_at w j \<and> stored w' = stored w \<and> (\<forall>x. r = Inr x \<longrightarrow> x = stored w)"
  unfolding GetStack_def using read_call_world [of e stored w r w'] read_call_value [of e stored w _ w'] by auto

lemma Destroy_deletion:
  assumes "Destroy e op w = (Some out, f, w')" "stored w = Some rc"
  shows "deletion op rc w out f w' \<or> f \<noteq> None \<and> out = rc \<and> (\<forall>j. object_at w' j = object_at w j)"
proof -
  obtain x w1 where g: "GetStack e w = (x, w1)" by fastforce
  have w1: "object_at w1 j = object_at w j" for j using GetStack_result [OF g] by blast
  have x: "x = Inr y \<Longrightarrow> y = Some rc" for y using GetStack_result [OF g] assms(2) by auto
  have "destroy_recorded e op rc w1 = (Some out, f, w') \<or> f \<noteq> None \<and> out = rc \<and> w' = w1"
    using assms(1) x g by (auto simp: Destroy_def Let_def split: if_splits sum.splits option.splits)
  then show ?thesis
  proof
    assume "destroy_recorded e op rc w1 = (Some out, f, w')"
    from destroy_recorded_deletion [OF this] show ?thesis
      unfolding deletion_def torn_def shrinks_def w1 by blast
  qed (use w1 in auto)
qed




subsection \<open>Deleting a stack whose create was refused\<close>

text \<open>
  \<^verbatim>\<open>Deploy\<close> records every planned resource ahead of the first apply, and keeps that list when it rolls back; the
  delete of the rolled-back stack then deletes by name, without reading labels. A create refused because a
  queue is another stack's leaves a stack whose delete removes that queue.
\<close>

theorem refused_create_then_delete_takes_others_object:
  "fst (snd web_answer) = Some (OtherStack jobs_queue ''billing'') \<and>
   object_at (snd (snd web_answer)) jobs_queue = Some others_queue \<and>
   fst (snd (Destroy quiet_cluster web_options (snd (snd web_answer)))) = None \<and>
   object_at (snd (snd (Destroy quiet_cluster web_options (snd (snd web_answer))))) jobs_queue = None"
  by code_simp

definition web_record :: StackRecord where
  "web_record = \<lparr>sStatus = ''CREATE_COMPLETE'', sMessage = [], sResources = [recorded ''Assets'' ''Bucket'' ''web-assets'',
       (recorded ''Data'' ''Volume'' ''web-data'')\<lparr>DeletionPolicy := ''Retain''\<rparr>], sPending = [], Restarting = [], Outputs = [],
     OutputsOmitted = False, TerminationProtection = False, Events = []\<rparr>"

definition web_world :: world where
  "web_world = \<lparr>objs = [((''openinfra.dev/v1'', ''Bucket'', ''web-assets''), renderManifest web_options (recorded ''Assets'' ''Bucket'' ''web-assets'') []),
       ((''openinfra.dev/v1'', ''Volume'', ''web-data''), renderManifest web_options (recorded ''Data'' ''Volume'' ''web-data'') []),
       (jobs_queue, others_queue)], stored = Some web_record, buckets = [], tables = [], nested = [], rest_apis = [], stopped = [], calls = 0\<rparr>"

definition web_deleted :: answer where
  "web_deleted = Destroy quiet_cluster web_options web_world"

lemma web_deleted_parts: "fst (snd web_deleted) = None" "fst web_deleted \<noteq> None" "stored web_world = Some web_record"
  by code_simp+



end
