(* ===== verification/CfnUpdate.thy ===== *)
theory CfnUpdate
  imports CfnDelete
begin

text \<open>
  Updating a stack: \<^verbatim>\<open>cfn/changeset.go\<close>, \<^verbatim>\<open>cfn/update.go\<close> and \<^verbatim>\<open>cfn/instance_restart.go\<close>.

  \<open>folded\<close> stands for \<^verbatim>\<open>foldedChanges\<close>, the changes of resources that provision nothing of their own, and
  \<open>custom\<close> for whether the new template has a custom resource. The comparison of a nested stack with its child
  is a call that succeeds when the child is unchanged. A wait for the power state of an instance is one call, whose
  outcome says whether the state was reached in time; \<open>PowerSetter\<close> stands for the ability to set it and to read it.
\<close>

subsection \<open>Change sets\<close>

datatype ChangeAction = Add | Modify | Remove | Unchanged

record Change =
  cID :: string
  cAction :: ChangeAction
  Folded :: bool

definition policyOrDelete :: "string \<Rightarrow> string" where
  "policyOrDelete p = (if p = [] then ''Delete'' else p)"

text \<open>\<^verbatim>\<open>json.Marshal\<close> writes the keys of a map in order.\<close>

fun canonical :: "json \<Rightarrow> json" where
  "canonical (JObj m) = JObj (sort_key fst (map (\<lambda>(k, v). (k, canonical v)) m))"
| "canonical (JArr vs) = JArr (map canonical vs)"
| "canonical v = v"

definition specEqual :: "json strmap \<Rightarrow> json strmap \<Rightarrow> bool" where
  "specEqual a b \<longleftrightarrow> a = [] \<and> b = [] \<or> canonical (JObj a) = canonical (JObj b)"

definition by_id :: "StackResource list \<Rightarrow> string \<Rightarrow> StackResource option" where
  "by_id rs = map_of (rev (map (\<lambda>r. (LogicalID r, r)) rs))"

definition change_action :: "StackResource list \<Rightarrow> StackResource \<Rightarrow> ChangeAction" where
  "change_action current r =
     (case by_id current (LogicalID r) of
        None \<Rightarrow> Add
      | Some cur \<Rightarrow>
          if \<not> specEqual (rSpec r) (rSpec cur) then Modify
          else if \<not> equal_fold (policyOrDelete (DeletionPolicy r)) (policyOrDelete (DeletionPolicy cur)) \<or> Protected r \<noteq> Protected cur
          then Modify else Unchanged)"

definition changes :: "builtResource list \<Rightarrow> StackResource list \<Rightarrow> Change list \<Rightarrow> Change list" where
  "changes desired current folded =
     map (\<lambda>b. \<lparr>cID = LogicalID (res b), cAction = change_action current (res b), Folded = False\<rparr>) desired @
     map (\<lambda>r. \<lparr>cID = LogicalID r, cAction = Remove, Folded = False\<rparr>)
       (filter (\<lambda>r. LogicalID r \<notin> LogicalID ` res ` set desired) (rev current)) @ folded"

definition hasChanges :: "Change list \<Rightarrow> bool" where
  "hasChanges cs = list_ex (\<lambda>c. cAction c \<noteq> Unchanged) cs"

fun nestedOutputsOf :: "env \<Rightarrow> options \<Rightarrow> StackResource list \<Rightarrow> world \<Rightarrow> fault option \<times> world" where
  "nestedOutputsOf e op [] w = (None, w)"
| "nestedOutputsOf e op (r # rs) w =
     (if \<not> IsNestedStack r then nestedOutputsOf e op rs w
      else if \<not> NestedStacks op then (Some (NoNestedStacks (LogicalID r)), w)
      else case read_call e (\<lambda>w. rName r \<in> set (nested w)) w of
          (Inl x, w') \<Rightarrow> (Some x, w')
        | (Inr found, w') \<Rightarrow> if found then nestedOutputsOf e op rs w' else (Some (NoLongerExists (LogicalID r)), w'))"

definition BuildChangeSet ::
  "env \<Rightarrow> options \<Rightarrow> builder \<Rightarrow> Change list \<Rightarrow> world \<Rightarrow> (fault, Change list \<times> builtResource list \<times> StackRecord option) result \<times> world" where
  "BuildChangeSet e op build folded w =
     (case GetStack e w of
        (Inl x, w1) \<Rightarrow> (Inl x, w1)
      | (Inr found, w1) \<Rightarrow>
          let current = (case found of None \<Rightarrow> [] | Some rc \<Rightarrow> sResources rc)
          in case nestedOutputsOf e op current w1 of
               (Some x, w2) \<Rightarrow> (Inl x, w2)
             | (None, w2) \<Rightarrow>
                 (case buildAvoidingLeftovers e op build (map objectKey current) w2 of
                    (Inl x, w3) \<Rightarrow> (Inl x, w3)
                  | (Inr desired, w3) \<Rightarrow> (Inr (changes desired current folded, desired, found), w3)))"

subsection \<open>Restarting an instance\<close>

definition liveVMFields :: "string list" where
  "liveVMFields = [''securityGroups'', ''expose'', ''elasticIp'', ''ports'', ''running'']"

definition restartFields :: "json strmap \<Rightarrow> json strmap \<Rightarrow> string list" where
  "restartFields prior new =
     sort (remdups (filter (\<lambda>k. k \<notin> set liveVMFields \<and> canonical (field prior k) \<noteq> canonical (field new k)) (map fst (prior @ new))))"

definition SetRunning :: "env \<Rightarrow> okey \<Rightarrow> bool \<Rightarrow> world \<Rightarrow> fault option \<times> world" where
  "SetRunning e k on = call e (\<lambda>w. w\<lparr>stopped := (if on then filter (\<lambda>j. j \<noteq> k) (stopped w) else k # stopped w)\<rparr>)"

definition waitPower :: "env \<Rightarrow> world \<Rightarrow> fault option \<times> world" where
  "waitPower e = call e (\<lambda>w. w)"

definition restartInstance :: "env \<Rightarrow> options \<Rightarrow> StackResource \<Rightarrow> world \<Rightarrow> fault option \<times> world" where
  "restartInstance e op r w =
     (let k = objectKey r
      in if \<not> PowerSetter op then (Some (CannotRestart (LogicalID r)), w)
         else case GetSpec e k w of
             (Inl x, w1) \<Rightarrow> (Some x, w1)
           | (Inr None, w1) \<Rightarrow> (Some (NoLongerExists (LogicalID r)), w1)
           | (Inr (Some live), w1) \<Rightarrow>
               if k \<in> set (stopped w1) \<or> field live ''running'' = JBool False then (None, w1)
               else case SetRunning e k False w1 of
                   (Some x, w2) \<Rightarrow> (Some x, w2)
                 | (None, w2) \<Rightarrow>
                     (case waitPower e w2 of
                        (Some x, w3) \<Rightarrow> (Some x, snd (SetRunning e k True w3))
                      | (None, w3) \<Rightarrow> in_turn [SetRunning e k True, waitPower e] w3))"

subsection \<open>The update\<close>

record uprogress =
  added :: "StackResource list"
  restarted :: "string list"
  uwaits :: "builtResource list"
  udone :: "string list"
  uowns :: "okey list"
  inProg :: StackRecord
  uData :: "string strmap"
  unow :: world

definition event :: "StackResource \<Rightarrow> string \<Rightarrow> uprogress \<Rightarrow> uprogress" where
  "event r status st = st\<lparr>inProg := addEvent (LogicalID r) status (inProg st)\<rparr>"

definition ucomplete :: "builtResource \<Rightarrow> string \<Rightarrow> uprogress \<Rightarrow> uprogress" where
  "ucomplete b d st =
     (let i = LogicalID (res b); st1 = (if IsSignalWait (res b) then st\<lparr>uData := put i d (uData st)\<rparr> else st)
      in event (res b) ''CREATE_COMPLETE'' (st1\<lparr>udone := i # udone st1\<rparr>))"

fun usettleWaits :: "env \<Rightarrow> options \<Rightarrow> builtResource list \<Rightarrow> uprogress \<Rightarrow> (builtResource \<times> fault \<times> uprogress, uprogress) result" where
  "usettleWaits e op [] st = Inr st"
| "usettleWaits e op (b # bs) st =
     (case resourceWait e op b (unow st) of
        (Some x, d, w) \<Rightarrow> Inl (b, x, st\<lparr>unow := w\<rparr>)
      | (None, d, w) \<Rightarrow> usettleWaits e op bs (ucomplete b d (st\<lparr>unow := w\<rparr>)))"

definition usettle :: "env \<Rightarrow> options \<Rightarrow> builtResource list \<Rightarrow> uprogress \<Rightarrow> (fault \<times> uprogress, uprogress) result" where
  "usettle e op ws st =
     (case usettleWaits e op (shuffle (pick e) (calls (unow st)) ws) st of
        Inr st' \<Rightarrow> Inr st'
      | Inl (fb, x, st') \<Rightarrow>
          Inl (x, event (res fb) ''CREATE_FAILED'' (st'\<lparr>uwaits := uwaits st' @
            filter (\<lambda>b. LogicalID (res b) \<noteq> LogicalID (res fb) \<and> LogicalID (res b) \<notin> set (udone st')) ws\<rparr>)))"

text \<open>An instance's change that takes effect only when it starts: it is stopped and started, the intent recorded first.\<close>

definition restart_for :: "env \<Rightarrow> options \<Rightarrow> StackResource list \<Rightarrow> builtResource \<Rightarrow> uprogress \<Rightarrow> (fault \<times> uprogress, uprogress) result" where
  "restart_for e op current b st =
     (let r = res b; prior = (case by_id current (LogicalID r) of None \<Rightarrow> [] | Some c \<Rightarrow> rSpec c)
      in if \<not> isStackVM r \<or> restartFields prior (rSpec r) = [] then Inr st
         else if \<not> Wait op then Inr (event r ''UPDATE_IN_PROGRESS'' st)
         else
           let rs = restarted st @ [LogicalID r]; st1 = st\<lparr>restarted := rs, inProg := (inProg st)\<lparr>Restarting := rs\<rparr>\<rparr>
           in case writeStackRecord e (inProg st1) (unow st1) of
                (Some x, w) \<Rightarrow> Inl (x, event r ''UPDATE_FAILED'' (st1\<lparr>unow := w\<rparr>))
              | (None, w) \<Rightarrow>
                  (case restartInstance e op r w of
                     (Some x, w') \<Rightarrow> Inl (x, event r ''UPDATE_FAILED'' (event r ''UPDATE_IN_PROGRESS'' (st1\<lparr>unow := w'\<rparr>)))
                   | (None, w') \<Rightarrow> Inr (event r ''UPDATE_IN_PROGRESS'' (st1\<lparr>unow := w'\<rparr>))))"

definition update_add :: "env \<Rightarrow> options \<Rightarrow> builtResource \<Rightarrow> uprogress \<Rightarrow> (fault \<times> uprogress, uprogress) result" where
  "update_add e op b st =
     (case tableTaken e op (res b) (unow st) of
        (Some x, w) \<Rightarrow> Inl (x, event (res b) ''CREATE_FAILED'' (st\<lparr>unow := w\<rparr>))
      | (None, w) \<Rightarrow>
          (case applyOwned e op b (uowns st) w of
             (Some x, own, w') \<Rightarrow> Inl (x, event (res b) ''CREATE_FAILED'' (st\<lparr>unow := w'\<rparr>))
           | (None, own, w') \<Rightarrow> Inr (st\<lparr>added := added st @ [res b], uowns := own, uwaits := uwaits st @ [b], unow := w'\<rparr>)))"

definition update_modify :: "env \<Rightarrow> options \<Rightarrow> StackResource list \<Rightarrow> builtResource \<Rightarrow> uprogress \<Rightarrow> (fault \<times> uprogress, uprogress) result" where
  "update_modify e op current b st =
     (case applyOwned e op b (uowns st) (unow st) of
        (Some x, own, w) \<Rightarrow> Inl (x, event (res b) ''UPDATE_FAILED'' (st\<lparr>unow := w\<rparr>))
      | (None, own, w) \<Rightarrow>
          (case (if Wait op then call e (\<lambda>w. w) w else (None, w)) of
             (Some x, w') \<Rightarrow> Inl (x, event (res b) ''UPDATE_FAILED'' (st\<lparr>uowns := own, unow := w'\<rparr>))
           | (None, w') \<Rightarrow>
               rbind (restart_for e op current b (st\<lparr>uowns := own, unow := w'\<rparr>)) (\<lambda>st1. Inr (event (res b) ''UPDATE_COMPLETE'' st1))))"

definition update_one :: "env \<Rightarrow> options \<Rightarrow> StackResource list \<Rightarrow> builtResource \<Rightarrow> uprogress \<Rightarrow> (fault \<times> uprogress, uprogress) result" where
  "update_one e op current b st =
     (let act = change_action current (res b); verb = (if act = Add then ''CREATE'' else ''UPDATE''); (d, keep) = due (after b) (uwaits st)
      in if act \<noteq> Add \<and> act \<noteq> Modify then Inr st
         else rbind (usettle e op d (st\<lparr>uwaits := keep\<rparr>)) (\<lambda>st0.
           let st1 = event (res b) (verb @ ''_IN_PROGRESS'') st0
           in if IsNestedStack (res b) then Inr (event (res b) (verb @ ''_COMPLETE'') st1)
              else if IsSignalWait (res b) then
                if act = Add then Inr (st1\<lparr>uwaits := uwaits st1 @ [b]\<rparr>) else Inr (event (res b) (verb @ ''_COMPLETE'') st1)
              else if act = Add then update_add e op b st1
              else update_modify e op current b st1))"

fun update_all :: "env \<Rightarrow> options \<Rightarrow> StackResource list \<Rightarrow> builtResource list \<Rightarrow> uprogress \<Rightarrow> (fault \<times> uprogress, uprogress) result" where
  "update_all e op current [] st = usettle e op (uwaits st) (st\<lparr>uwaits := []\<rparr>)"
| "update_all e op current (b # bs) st = rbind (update_one e op current b st) (update_all e op current bs)"

text \<open>Removals, newest first; a retained, still named or out-of-band one is skipped, a bucket with data kept.\<close>

fun update_removals :: "env \<Rightarrow> options \<Rightarrow> okey list \<Rightarrow> StackResource list \<Rightarrow> uprogress \<Rightarrow> (fault \<times> uprogress, uprogress) result" where
  "update_removals e op named [] st = Inr st"
| "update_removals e op named (r # rs) st =
     (if isRetain r \<or> objectKey r \<in> set named \<or> isOutOfBand r
      then update_removals e op named rs (if isRetain r then event r ''DELETE_SKIPPED'' st else st)
      else
        let st1 = event r ''DELETE_IN_PROGRESS'' st
        in case deleteStackObject e (op\<lparr>Wait := False\<rparr>) r False (unow st1) of
             (kept, Some x, w) \<Rightarrow> Inl (x, event r ''DELETE_FAILED'' (st1\<lparr>unow := w\<rparr>))
           | (kept, None, w) \<Rightarrow>
               update_removals e op named rs (event r (if kept then ''DELETE_FAILED'' else ''DELETE_COMPLETE'') (st1\<lparr>unow := w\<rparr>)))"

definition restart_prior :: "env \<Rightarrow> options \<Rightarrow> StackResource list \<Rightarrow> string \<Rightarrow> world \<Rightarrow> fault option \<times> world" where
  "restart_prior e op current i w = (case by_id current i of None \<Rightarrow> (None, w) | Some r \<Rightarrow> restartInstance e op r w)"

definition update_rollback :: "env \<Rightarrow> options \<Rightarrow> StackRecord \<Rightarrow> fault \<Rightarrow> uprogress \<Rightarrow> answer" where
  "update_rollback e op current cause st =
     (let prog = stackEvent ''UPDATE_ROLLBACK_IN_PROGRESS'' (foldl (\<lambda>r p. addEvent (LogicalID (res p)) ''CREATE_FAILED'' r) (inProg st) (uwaits st));
          (rerr, w) = restorePrior e op (sResources current) (added st) False (unow st);
          (ignored, w') = every (restart_prior e op (sResources current)) (restarted st) w;
          out = (case rerr of
                   None \<Rightarrow> stackEvent ''UPDATE_ROLLBACK_COMPLETE''
                     (current\<lparr>sStatus := ''UPDATE_ROLLBACK_COMPLETE'', sMessage := [cause], sPending := [], Events := Events prog\<rparr>)
                 | Some x \<Rightarrow> stackEvent ''UPDATE_ROLLBACK_FAILED''
                     (current\<lparr>sStatus := ''UPDATE_ROLLBACK_FAILED'', sMessage := [cause, x], sPending := added st, Events := Events prog\<rparr>))
      in (Some out, Some cause, snd (writeStackRecord e out w')))"

text \<open>A resource of the new record: its status, and what an unchanged one keeps.\<close>

definition recorded_as :: "StackResource list \<Rightarrow> string strmap \<Rightarrow> StackResource \<Rightarrow> StackResource" where
  "recorded_as current d r =
     (let r' = (case lookup d (LogicalID r) of None \<Rightarrow> r | Some x \<Rightarrow> r\<lparr>SignalData := x\<rparr>)
      in case change_action current r of
           Add \<Rightarrow> r'\<lparr>rStatus := ''CREATE_COMPLETE''\<rparr>
         | Modify \<Rightarrow> r'\<lparr>rStatus := ''UPDATE_COMPLETE''\<rparr>
         | _ \<Rightarrow> (case by_id current (LogicalID r) of
                   None \<Rightarrow> r'
                 | Some cur \<Rightarrow>
                     let r1 = r'\<lparr>rStatus := rStatus cur, SignalData := SignalData cur\<rparr>
                     in if IsNestedStack r then r1\<lparr>rName := rName cur, ProvisionedID := ProvisionedID cur\<rparr> else r1))"

definition folded_events :: "(ChangeAction \<Rightarrow> string option) \<Rightarrow> Change list \<Rightarrow> StackRecord \<Rightarrow> StackRecord" where
  "folded_events verb cs r =
     foldl (\<lambda>r c. case verb (cAction c) of None \<Rightarrow> r | Some v \<Rightarrow> addEvent (cID c) (v @ ''_COMPLETE'') (addEvent (cID c) (v @ ''_IN_PROGRESS'') r)) r cs"

definition update_finish :: "env \<Rightarrow> options \<Rightarrow> StackRecord \<Rightarrow> builtResource list \<Rightarrow> Change list \<Rightarrow> uprogress \<Rightarrow> answer" where
  "update_finish e op current desired folded st =
     (let removed = filter (\<lambda>r. LogicalID r \<notin> LogicalID ` res ` set desired) (rev (sResources current));
          fresh = current\<lparr>sStatus := ''UPDATE_COMPLETE'', sMessage := [], sPending := [], Restarting := [],
            sResources := map (\<lambda>b. recorded_as (sResources current) (uData st) (res b)) desired\<rparr>;
          (newRec, w) = setOutputs e fresh (unow st)
      in if OutputsOmitted newRec then update_rollback e op current OutputsUnresolved (st\<lparr>unow := w\<rparr>)
         else
           let prog = folded_events (\<lambda>a. if a = Add then Some ''CREATE'' else if a = Modify then Some ''UPDATE'' else None) folded (inProg st);
               prog1 = folded_events (\<lambda>a. if a = Remove then Some ''DELETE'' else None) folded (stackEvent ''UPDATE_COMPLETE_CLEANUP_IN_PROGRESS'' prog)
           in case update_removals e op (map (objectKey \<circ> res) desired) removed (st\<lparr>inProg := prog1, unow := w\<rparr>) of
                Inl (x, st1) \<Rightarrow> update_rollback e op current x st1
              | Inr st1 \<Rightarrow>
                  let out = stackEvent ''UPDATE_COMPLETE'' (newRec\<lparr>Events := Events (inProg st1)\<rparr>); (f, w') = writeStackRecord e out (unow st1)
                  in (Some out, f, w'))"

definition update_start :: "env \<Rightarrow> options \<Rightarrow> StackRecord \<Rightarrow> builtResource list \<Rightarrow> Change list \<Rightarrow> world \<Rightarrow> answer" where
  "update_start e op current desired folded w =
     (let cur = sResources current;
          inprog = stackEvent ''UPDATE_IN_PROGRESS'' (current\<lparr>sStatus := ''UPDATE_IN_PROGRESS'',
            sPending := map res (filter (\<lambda>b. change_action cur (res b) = Add) desired)\<rparr>)
      in case writeStackRecord e inprog w of
           (Some x, w1) \<Rightarrow> (None, Some x, w1)
         | (None, w1) \<Rightarrow>
             (case update_all e op cur desired \<lparr>added = [], restarted = [], uwaits = [], udone = [], uowns = map objectKey cur,
                  inProg = inprog, uData = [], unow = w1\<rparr> of
                Inl (x, st) \<Rightarrow> update_rollback e op current x st
              | Inr st \<Rightarrow> update_finish e op current desired folded st))"

text \<open>No resource changes: the Outputs may.\<close>

definition outputs_only :: "env \<Rightarrow> StackRecord \<Rightarrow> world \<Rightarrow> answer" where
  "outputs_only e current w =
     (let (new, w1) = setOutputs e current w
      in if OutputsOmitted new then (Some current, Some OutputsUnresolved, w1)
         else if Outputs new = Outputs current \<and> OutputsOmitted new = OutputsOmitted current then (Some current, None, w1)
         else
           let out = stackEvent ''UPDATE_COMPLETE'' (stackEvent ''UPDATE_IN_PROGRESS'' (new\<lparr>sStatus := ''UPDATE_COMPLETE'', sMessage := []\<rparr>));
               (f, w2) = writeStackRecord e out w1
           in (Some out, f, w2))"

fun nested_compare :: "env \<Rightarrow> options \<Rightarrow> StackResource list \<Rightarrow> builtResource list \<Rightarrow> world \<Rightarrow> string list \<times> world" where
  "nested_compare e op cur [] w = ([], w)"
| "nested_compare e op cur (b # bs) w =
     (let i = LogicalID (res b)
      in if \<not> IsNestedStack (res b) then nested_compare e op cur bs w
         else case by_id (filter IsNestedStack cur) i of
             None \<Rightarrow> (case nested_compare e op cur bs w of (ids, w') \<Rightarrow> (i # ids, w'))
           | Some _ \<Rightarrow>
               if \<not> NestedStacks op then (case nested_compare e op cur bs w of (ids, w') \<Rightarrow> (i # ids, w'))
               else case call e (\<lambda>w. w) w of
                   (Some x, w1) \<Rightarrow> (case nested_compare e op cur bs w1 of (ids, w') \<Rightarrow> (i # ids, w'))
                 | (None, w1) \<Rightarrow> nested_compare e op cur bs w1)"

definition nestedUpdateRefusal :: "env \<Rightarrow> options \<Rightarrow> builtResource list \<Rightarrow> StackResource list \<Rightarrow> world \<Rightarrow> fault option \<times> world" where
  "nestedUpdateRefusal e op desired cur w =
     (let (changed, w') = nested_compare e op cur desired w;
          gone = map LogicalID (filter (\<lambda>r. IsNestedStack r \<and>
            (\<forall>b \<in> set desired. IsNestedStack (res b) \<longrightarrow> LogicalID (res b) \<noteq> LogicalID r)) cur)
      in (if changed @ gone = [] then None else Some (UpdateNotSupported ''nested stacks''), w'))"

definition Update :: "env \<Rightarrow> options \<Rightarrow> bool \<Rightarrow> builder \<Rightarrow> Change list \<Rightarrow> world \<Rightarrow> answer" where
  "Update e op custom build folded w =
     (if Namespace op = [] then (None, Some NoNamespace, w)
      else if custom then (None, Some (UpdateNotSupported ''custom resource''), w)
      else case BuildChangeSet e op build folded w of
          (Inl x, w1) \<Rightarrow> (None, Some x, w1)
        | (Inr (cs, desired, None), w1) \<Rightarrow> (None, Some NoStack, w1)
        | (Inr (cs, desired, Some current), w1) \<Rightarrow>
            let cur = sResources current;
                protected = protectedOf (filter (\<lambda>r. LogicalID r \<notin> LogicalID ` res ` set desired) (rev cur))
            in case nestedUpdateRefusal e op desired cur w1 of
                 (Some x, w2) \<Rightarrow> (None, Some x, w2)
               | (None, w2) \<Rightarrow>
                   (case nestedOutputsOf e op cur w2 of
                      (Some x, w3) \<Rightarrow> (None, Some x, w3)
                    | (None, w3) \<Rightarrow>
                        if list_ex IsCustomResource cur then (None, Some (UpdateNotSupported ''custom resource''), w3)
                        else if list_ex IsRestV1API cur then (None, Some (UpdateNotSupported ''REST API''), w3)
                        else if \<not> hasChanges cs then outputs_only e current w3
                        else if protected \<noteq> [] then (None, Some (ProtectedResources protected), w3)
                        else update_start e op current desired folded w3))"

subsection \<open>What a failed update does\<close>

declare split_paired_All [simp del]

lemma event_fields [simp]:
  "added (event r s st) = added st" "uowns (event r s st) = uowns st" "unow (event r s st) = unow st"
  by (simp_all add: event_def)

lemma SetRunning_objects: "object_at (snd (SetRunning e k on w)) j = object_at w j"
  by (simp add: SetRunning_def call_def Let_def split: option.splits)

lemma leaves_power [simp]: "leaves {} (SetRunning e k on)" "leaves {} (waitPower e)"
  by (auto simp: leaves_def SetRunning_objects waitPower_def call_def Let_def split: option.splits)

lemma leaves_restartInstance: "leaves {} (restartInstance e op r)"
  unfolding leaves_def
proof (intro allI impI)
  fix w j assume "j \<notin> ({} :: okey set)"
  let ?k = "objectKey r"
  obtain x w1 where g: "GetSpec e ?k w = (x, w1)" by fastforce
  have w1: "object_at w1 j = object_at w j" using leavesD [OF leaves_read g [unfolded GetSpec_def], of j "{}"] by simp
  obtain y w2 where s: "SetRunning e ?k False w1 = (y, w2)" by fastforce
  have w2: "object_at w2 j = object_at w j" using SetRunning_objects [of e ?k False w1 j] s w1 by simp
  obtain z w3 where p: "waitPower e w2 = (z, w3)" by fastforce
  have w3: "object_at w3 j = object_at w j" using leavesD [OF leaves_power(2) p, of j] w2 by simp
  have "leaves {} (in_turn [SetRunning e ?k True, waitPower e])" by (rule leaves_in_turn) simp
  then have "object_at (snd (in_turn [SetRunning e ?k True, waitPower e] w3)) j = object_at w3 j" unfolding leaves_def by blast
  then show "object_at (snd (restartInstance e op r w)) j = object_at w j"
    using w1 w2 w3 by (simp add: restartInstance_def Let_def g s p SetRunning_objects del: in_turn.simps split: sum.splits option.splits)
qed

text \<open>Progress with the same objects, additions and ownership.\<close>

definition usame :: "uprogress \<Rightarrow> uprogress \<Rightarrow> bool" where
  "usame st st' \<longleftrightarrow> added st' = added st \<and> uowns st' = uowns st \<and> (\<forall>j. object_at (unow st') j = object_at (unow st) j)"

lemma usame_trans: "usame st st' \<Longrightarrow> usame st' st'' \<Longrightarrow> usame st st''"
  by (simp add: usame_def)

lemma usame_complete: "(\<And>j. object_at w j = object_at (unow st) j) \<Longrightarrow> usame st (ucomplete b d (st\<lparr>unow := w\<rparr>))"
  by (simp add: usame_def ucomplete_def Let_def)

lemma usettleWaits_same: "case usettleWaits e op bs st of Inl (b, x, st') \<Rightarrow> usame st st' | Inr st' \<Rightarrow> usame st st'"
proof (induction bs arbitrary: st)
  case (Cons b bs)
  obtain f d w where r: "resourceWait e op b (unow st) = (f, d, w)" by (metis prod_cases3)
  note w = resourceWait_objects [OF r]
  show ?case
  proof (cases f)
    case None
    then show ?thesis using Cons.IH [of "ucomplete b d (st\<lparr>unow := w\<rparr>)"] usame_trans [OF usame_complete [OF w]] r
      by (auto split: sum.splits)
  qed (use r w in \<open>simp add: usame_def\<close>)
qed (simp add: usame_def)

lemma usettle_same: "usettle e op ws st = Inr st' \<Longrightarrow> usame st st'" "usettle e op ws st = Inl (x, st') \<Longrightarrow> usame st st'"
  using usettleWaits_same [where e = e and op = op and bs = "shuffle (pick e) (calls (unow st)) ws" and st = st]
  by (auto simp: usettle_def usame_def split: sum.splits prod.splits)

lemma restart_for_same:
  "case restart_for e op cur b st of Inl (x, st') \<Rightarrow> usame st st' | Inr st' \<Rightarrow> usame st st'"
proof -
  let ?rs = "restarted st @ [LogicalID (res b)]"
  let ?prog = "(inProg st)\<lparr>Restarting := ?rs\<rparr>"
  obtain f w where f: "writeStackRecord e ?prog (unow st) = (f, w)" by fastforce
  obtain g w' where g: "restartInstance e op (res b) w = (g, w')" by fastforce
  have w: "object_at w j = object_at (unow st) j" for j using write_objects [of e ?prog "unow st" j] f by simp
  have w': "object_at w' j = object_at w j" for j using leavesD [OF leaves_restartInstance g, of j] by simp
  show ?thesis using w w' by (simp add: restart_for_def Let_def f g usame_def split: option.splits)
qed

text \<open>
  What holds as an update from \<open>w0\<close> goes on: whatever it added was absent or is the prior stack's (\<open>P\<close>) or
  shared (\<open>S\<close>), and every object but those is as it was.
\<close>

definition update_inv :: "env \<Rightarrow> world \<Rightarrow> okey set \<Rightarrow> okey set \<Rightarrow> StackResource set \<Rightarrow> uprogress \<Rightarrow> bool" where
  "update_inv e w0 P S R st \<longleftrightarrow>
     (\<forall>r \<in> set (added st). r \<in> R \<and> (objectKey r \<notin> P \<longrightarrow> objectKey r \<notin> S \<longrightarrow> object_at w0 (objectKey r) = None)) \<and>
     (\<forall>k \<in> set (uowns st). k \<in> P \<or> k \<in> S \<or> k \<in> objectKey ` set (added st)) \<and>
     (\<forall>k. k \<notin> P \<longrightarrow> k \<notin> S \<longrightarrow> k \<notin> objectKey ` set (added st) \<longrightarrow> untouched e w0 (unow st) k)"

lemma update_inv_same: "update_inv e w0 P S R st \<Longrightarrow> usame st st' \<Longrightarrow> update_inv e w0 P S R st'"
  unfolding update_inv_def usame_def by (simp add: untouched_def)

lemma applyOwned_elsewhere:
  assumes "applyOwned e op b own w = (f, own', w')" "LabelReader op" "Creator op" "j \<noteq> objectKey (res b)"
  shows "object_at w' j = object_at w j"
proof (cases "shared b")
  case False
  then show ?thesis using applyOwned_ok [OF assms(2,3) False, of e own w] assms(1,4) unfolding applied_ok_def by auto
qed (use applyOwned_shared [OF assms(1)] assms(4) in blast)

lemma update_add_inv:
  assumes "LabelReader op" "Creator op" "shared b \<Longrightarrow> objectKey (res b) \<in> S" "res b \<in> R" "update_inv e w0 P S R st"
  shows "case update_add e op b st of Inl (x, st') \<Rightarrow> update_inv e w0 P S R st' | Inr st' \<Rightarrow> update_inv e w0 P S R st'"
proof -
  let ?k = "objectKey (res b)"
  obtain f w where t: "tableTaken e op (res b) (unow st) = (f, w)" by fastforce
  have w: "object_at w j = object_at (unow st) j" for j using leavesD [OF leaves_objects(10) t, of j] by simp
  obtain g own w' where a: "applyOwned e op b (uowns st) w = (g, own, w')" by (metis prod_cases3)
  note other = applyOwned_elsewhere [OF a assms(1,2)]
  have old: "untouched e w0 w j" if "j \<notin> P" "j \<notin> S" "j \<notin> objectKey ` set (added st)" for j
    using assms(5) that w [of j] unfolding update_inv_def untouched_def by metis
  have ok: "\<not> shared b \<Longrightarrow> applied_ok e ?k (renderManifest op (res b) (bAnnotations b)) (uowns st) w (g, own, w')"
    using applyOwned_ok [OF assms(1,2), of b e "uowns st" w] a by simp
  have inv: "update_inv e w0 P S R (st\<lparr>unow := v\<rparr>)"
    if "\<And>j. j \<noteq> ?k \<Longrightarrow> object_at v j = object_at w j" "?k \<notin> S \<Longrightarrow> untouched e w v ?k" for v
  proof -
    have "untouched e w0 v j" if j: "j \<notin> P" "j \<notin> S" "j \<notin> objectKey ` set (added st)" for j
      using old [OF j] that untouched_trans j(2) \<open>\<And>j. j \<noteq> ?k \<Longrightarrow> object_at v j = object_at w j\<close> \<open>?k \<notin> S \<Longrightarrow> untouched e w v ?k\<close>
      by (cases "j = ?k") (auto simp: untouched_def)
    then show ?thesis using assms(5) by (simp add: update_inv_def)
  qed
  show ?thesis
  proof (cases f)
    case (Some x)
    then show ?thesis using update_inv_same [OF assms(5)] w by (simp add: update_add_def t usame_def)
  next
    case f: None
    show ?thesis
    proof (cases g)
      case (Some x)
      have "?k \<notin> S \<Longrightarrow> untouched e w w' ?k" using ok assms(3) Some unfolding applied_ok_def by auto
      from inv [OF other this] show ?thesis
        using update_inv_same [of e w0 P S R "st\<lparr>unow := w'\<rparr>" "event (res b) ''CREATE_FAILED'' (st\<lparr>unow := w'\<rparr>)"]
        by (simp add: update_add_def t f a Some usame_def)
    next
      case None
      have own: "own = ?k # uowns st \<or> own = uowns st" using ok None applyOwned_shared(1) [OF a] unfolding applied_ok_def by auto
      have absent: "object_at w0 ?k = None" if k: "?k \<notin> P" "?k \<notin> S"
      proof (cases "?k \<in> objectKey ` set (added st)")
        case True
        then show ?thesis using assms(5) k unfolding update_inv_def by force
      next
        case False
        have "?k \<notin> set (uowns st)" using assms(5) k False unfolding update_inv_def by blast
        then have "object_at w ?k = None" using ok assms(3) k(2) None unfolding applied_ok_def by auto
        then show ?thesis using old [OF k False] by (auto simp: untouched_def)
      qed
      have "untouched e w0 w' j" if j: "j \<notin> P" "j \<notin> S" "j \<notin> objectKey ` set (added st)" "j \<noteq> ?k" for j
        using old [OF j(1-3)] other [OF j(4)] by (simp add: untouched_def)
      then have "update_inv e w0 P S R (st\<lparr>added := added st @ [res b], uowns := own, uwaits := uwaits st @ [b], unow := w'\<rparr>)"
        using assms(4,5) absent own unfolding update_inv_def by auto
      then show ?thesis by (simp add: update_add_def t f a None)
    qed
  qed
qed

lemma update_modify_inv:
  assumes "LabelReader op" "Creator op" "objectKey (res b) \<in> P" "update_inv e w0 P S R st"
  shows "case update_modify e op current b st of Inl (x, st') \<Rightarrow> update_inv e w0 P S R st' | Inr st' \<Rightarrow> update_inv e w0 P S R st'"
proof -
  let ?k = "objectKey (res b)"
  obtain g own w where a: "applyOwned e op b (uowns st) (unow st) = (g, own, w)" by (metis prod_cases3)
  obtain h w' where c: "(if Wait op then call e (\<lambda>w. w) w else (None, w)) = (h, w')" by fastforce
  have w': "object_at w' j = object_at w j" for j using c by (auto split: if_splits elim!: callE)
  note other = applyOwned_elsewhere [OF a assms(1,2)]
  have own: "own = ?k # uowns st \<or> own = uowns st"
    using applyOwned_ok [OF assms(1,2), of b e "uowns st" "unow st"] applyOwned_shared(1) [OF a] a unfolding applied_ok_def by auto
  have inv: "update_inv e w0 P S R (st\<lparr>uowns := os, unow := v\<rparr>)"
    if "os = own \<or> os = uowns st" "\<And>j. object_at v j = object_at w j" for os v
  proof -
    have "untouched e w0 v j" if j: "j \<notin> P" "j \<notin> S" "j \<notin> objectKey ` set (added st)" for j
    proof -
      have "j \<noteq> ?k" using j(1) assms(3) by blast
      then have "object_at v j = object_at (unow st) j" using other \<open>\<And>j. object_at v j = object_at w j\<close> by metis
      then show ?thesis using assms(4) j unfolding update_inv_def untouched_def by metis
    qed
    then show ?thesis using assms(3,4) that(1) own unfolding update_inv_def by auto
  qed
  have start: "update_inv e w0 P S R (st\<lparr>uowns := own, unow := w'\<rparr>)" using inv w' by blast
  have failed: "update_inv e w0 P S R (event (res b) s st')" if "update_inv e w0 P S R st'" for s st'
    using update_inv_same [OF that] by (simp add: usame_def)
  show ?thesis
  proof (cases g)
    case (Some x)
    have "update_inv e w0 P S R (st\<lparr>uowns := uowns st, unow := w\<rparr>)" using inv by blast
    moreover have "st\<lparr>uowns := uowns st, unow := w\<rparr> = st\<lparr>unow := w\<rparr>" by simp
    ultimately show ?thesis using failed by (simp add: update_modify_def a Some)
  next
    case g: None
    show ?thesis
    proof (cases h)
      case None
      show ?thesis
        using restart_for_same [where e = e and op = op and cur = current and b = b and st = "st\<lparr>uowns := own, unow := w'\<rparr>"] update_inv_same [OF start] failed
        by (auto simp: update_modify_def a g c None rbind_def split: sum.splits)
    qed (use failed [OF start] in \<open>simp add: update_modify_def a g c\<close>)
  qed
qed

lemma update_one_inv:
  assumes "LabelReader op" "Creator op" "shared b \<Longrightarrow> objectKey (res b) \<in> S" "res b \<in> R \<or> IsSignalWait (res b)"
    and "change_action current (res b) = Modify \<Longrightarrow> objectKey (res b) \<in> P" "update_inv e w0 P S R st"
  shows "case update_one e op current b st of Inl (x, st') \<Rightarrow> update_inv e w0 P S R st' | Inr st' \<Rightarrow> update_inv e w0 P S R st'"
proof -
  obtain d keep where d: "due (after b) (uwaits st) = (d, keep)" by fastforce
  have st: "update_inv e w0 P S R (st\<lparr>uwaits := keep\<rparr>)" using update_inv_same [OF assms(6)] by (simp add: usame_def)
  have ev: "update_inv e w0 P S R (event r s st')" if "update_inv e w0 P S R st'" for r s st'
    using update_inv_same [OF that] by (simp add: usame_def)
  have wait: "update_inv e w0 P S R (st'\<lparr>uwaits := x\<rparr>)" if "update_inv e w0 P S R st'" for x st'
    using update_inv_same [OF that] by (simp add: usame_def)
  show ?thesis
  proof (cases "usettle e op d (st\<lparr>uwaits := keep\<rparr>)")
    case (Inl y)
    then show ?thesis using update_inv_same [OF st] usettle_same(2) assms(6)
      by (cases y) (auto simp: update_one_def Let_def d)
  next
    case (Inr st0)
    then have st0: "update_inv e w0 P S R st0" using update_inv_same [OF st] usettle_same(1) by blast
    note add = update_add_inv [OF assms(1-3)] and modify = update_modify_inv [OF assms(1,2)]
    show ?thesis using Inr assms(4-6) st0
      by (auto simp: update_one_def Let_def d intro: ev wait add modify)
  qed
qed

lemma update_all_inv:
  assumes "LabelReader op" "Creator op"
    and "\<forall>b \<in> set bs. (shared b \<longrightarrow> objectKey (res b) \<in> S) \<and> (res b \<in> R \<or> IsSignalWait (res b)) \<and>
      (change_action current (res b) = Modify \<longrightarrow> objectKey (res b) \<in> P)"
    and "update_inv e w0 P S R st"
  shows "case update_all e op current bs st of Inl (x, st') \<Rightarrow> update_inv e w0 P S R st' | Inr st' \<Rightarrow> update_inv e w0 P S R st'"
  using assms(3,4)
proof (induction bs arbitrary: st)
  case Nil
  have "update_inv e w0 P S R (st\<lparr>uwaits := []\<rparr>)" by (rule update_inv_same [OF Nil.prems(2)]) (simp add: usame_def)
  then show ?case using update_inv_same usettle_same by (auto split: sum.splits)
next
  case (Cons b bs)
  have one: "case update_one e op current b st of Inl (x, st') \<Rightarrow> update_inv e w0 P S R st' | Inr st' \<Rightarrow> update_inv e w0 P S R st'"
    by (rule update_one_inv [OF assms(1,2) _ _ _ Cons.prems(2)]) (use Cons.prems(1) in simp_all)
  show ?case
  proof (cases "update_one e op current b st")
    case (Inr st1)
    then show ?thesis using Cons.IH [of st1] Cons.prems(1) one by simp
  qed (use one in simp)
qed

lemma update_removals_inv:
  assumes "\<forall>r \<in> set rs. objectKey r \<in> P" "update_inv e w0 P S R st"
  shows "case update_removals e op names rs st of Inl (x, st') \<Rightarrow> update_inv e w0 P S R st' | Inr st' \<Rightarrow> update_inv e w0 P S R st'"
  using assms
proof (induction rs arbitrary: st)
  case (Cons r rs)
  have ev: "update_inv e w0 P S R (event x s st')" if "update_inv e w0 P S R st'" for x s st'
    using update_inv_same [OF that] by (simp add: usame_def)
  note IH = Cons.IH [OF _ ev] and IH0 = Cons.IH [OF _ Cons.prems(2)]
  let ?st = "event r ''DELETE_IN_PROGRESS'' st"
  obtain kept f w where d: "deleteStackObject e (op\<lparr>Wait := False\<rparr>) r False (unow ?st) = (kept, f, w)" by (metis prod_cases3)
  have "untouched e w0 w j" if j: "j \<notin> P" "j \<notin> S" "j \<notin> objectKey ` set (added st)" for j
  proof -
    have "j \<noteq> objectKey r" using j(1) Cons.prems(1) by auto
    then have "object_at w j = object_at (unow st) j" using deleteStackObject_object(3) [OF d] by simp
    then show ?thesis using Cons.prems(2) j unfolding update_inv_def untouched_def by metis
  qed
  then have gone: "update_inv e w0 P S R (?st\<lparr>unow := w\<rparr>)" using Cons.prems(2) by (simp add: update_inv_def)
  show ?case
    using IH [OF _ gone] IH [OF _ Cons.prems(2)] IH0 ev [OF gone] Cons.prems(1) d
    by (auto simp: Let_def split: option.splits)
qed simp

text \<open>The prior stack is back: its objects are as recorded, and every other one is as it was.\<close>

definition restored :: "env \<Rightarrow> options \<Rightarrow> builder \<Rightarrow> StackResource list \<Rightarrow> world \<Rightarrow> world \<Rightarrow> bool" where
  "restored e op build prior w w' \<longleftrightarrow>
     (\<forall>r \<in> set prior. plain r \<longrightarrow> object_at w' (objectKey r) = Some (renderStackResource op r)) \<and>
     (\<forall>k. k \<notin> objectKey ` set prior \<longrightarrow> \<not> shares build k \<longrightarrow>
        (\<forall>a \<in> created_by build. objectKey a = k \<longrightarrow> plain a \<and> \<not> keptOnRollback a) \<longrightarrow> untouched e w w' k)"

lemma leaves_restart_prior: "leaves {} (restart_prior e op cur i)"
  using leaves_restartInstance unfolding leaves_def restart_prior_def by (simp split: option.splits)

lemma update_rollback_result:
  assumes "update_rollback e op current cause st = (Some out, f, w')" "consistent (sResources current)"
    and "update_inv e w0 (objectKey ` set (sResources current)) {k. shares build k} (created_by build) st"
    and "sStatus out = ''UPDATE_ROLLBACK_COMPLETE''"
  shows "restored e op build (sResources current) w0 w'" "sResources out = sResources current"
proof -
  let ?prior = "sResources current"
  obtain rerr w1 where r: "restorePrior e op ?prior (added st) False (unow st) = (rerr, w1)" by fastforce
  obtain g w2 where v: "every (restart_prior e op ?prior) (restarted st) w1 = (g, w2)" by fastforce
  have w2: "object_at w2 j = object_at w1 j" for j
    using leavesD [OF leaves_every [where f = "restart_prior e op ?prior", OF leaves_restart_prior] v, of j] by simp
  have ok: "rerr = None" "sResources out = ?prior" "w' = snd (writeStackRecord e out w2)"
    using assms(1,4) by (auto simp: update_rollback_def Let_def r v split: option.splits)
  then show "sResources out = ?prior" by simp
  have w': "object_at w' j = object_at w1 j" for j by (simp add: ok(3) write_objects w2)
  note R = restorePrior_result [OF r]
  have "untouched e w0 w' k"
    if k: "k \<notin> objectKey ` set ?prior" "\<not> shares build k" "\<forall>a \<in> created_by build. objectKey a = k \<longrightarrow> plain a \<and> \<not> keptOnRollback a" for k
  proof (cases "k \<in> objectKey ` set (added st)")
    case True
    then obtain a where a: "a \<in> set (added st)" "objectKey a = k" by blast
    then have "a \<in> created_by build" "object_at w0 k = None" using assms(3) k(1,2) unfolding update_inv_def by auto
    moreover from this have "undone (map objectKey ?prior) a" using k(1,3) a(2) by (simp add: undone_def)
    ultimately show ?thesis using R(3) [OF ok(1) a(1)] a(2) w' [of k] by (simp add: untouched_def)
  next
    case False
    then have "untouched e w0 (unow st) k" using assms(3) k(1,2) unfolding update_inv_def by simp
    moreover have "object_at w1 k = object_at (unow st) k" by (rule R(1)) (use k(1) False in auto)
    ultimately show ?thesis using w' [of k] by (simp add: untouched_def)
  qed
  then show "restored e op build ?prior w0 w'"
    using R(2) [OF ok(1) assms(2)] w' unfolding restored_def by simp
qed

lemma setOutputs_fields: "setOutputs e r w = (r', w') \<Longrightarrow> sStatus r' = sStatus r"
  by (auto simp: setOutputs_def Let_def split: option.splits)

lemma update_finish_result:
  assumes "update_finish e op current desired folded st = (Some out, f, w')" "consistent (sResources current)"
    and "update_inv e w0 (objectKey ` set (sResources current)) {k. shares build k} (created_by build) st"
    and "sStatus out = ''UPDATE_ROLLBACK_COMPLETE''"
  shows "restored e op build (sResources current) w0 w' \<and> sResources out = sResources current"
proof -
  let ?cur = "sResources current" and ?S = "{k. shares build k}" and ?R = "created_by build"
  let ?P = "objectKey ` set ?cur"
  let ?fresh = "current\<lparr>sStatus := ''UPDATE_COMPLETE'', sMessage := [], sPending := [], Restarting := [],
            sResources := map (\<lambda>b. recorded_as ?cur (uData st) (res b)) desired\<rparr>"
  let ?removed = "filter (\<lambda>r. LogicalID r \<notin> LogicalID ` res ` set desired) (rev ?cur)"
  obtain new w where o: "setOutputs e ?fresh (unow st) = (new, w)" by fastforce
  have w: "object_at w j = object_at (unow st) j" for j by (rule setOutputs_objects [OF o])
  have new: "sStatus new = ''UPDATE_COMPLETE''" using setOutputs_fields [OF o] by simp
  have st: "update_inv e w0 ?P ?S ?R (st\<lparr>inProg := p, unow := w\<rparr>)" for p by (rule update_inv_same [OF assms(3)]) (simp add: usame_def w)
  have st0: "update_inv e w0 ?P ?S ?R (st\<lparr>unow := w\<rparr>)" by (rule update_inv_same [OF assms(3)]) (simp add: usame_def w)
  note undo = update_rollback_result [OF _ assms(2) _ assms(4)]
  show ?thesis
  proof (cases "OutputsOmitted new")
    case True
    then have "update_rollback e op current OutputsUnresolved (st\<lparr>unow := w\<rparr>) = (Some out, f, w')"
      using assms(1) by (simp add: update_finish_def Let_def o)
    then show ?thesis using undo st0 by blast
  next
    case False
    define p where "p = folded_events (\<lambda>a. if a = Remove then Some ''DELETE'' else None) folded
      (stackEvent ''UPDATE_COMPLETE_CLEANUP_IN_PROGRESS''
        (folded_events (\<lambda>a. if a = Add then Some ''CREATE'' else if a = Modify then Some ''UPDATE'' else None) folded (inProg st)))"
    have p: "(case update_removals e op (map (objectKey \<circ> res) desired) ?removed (st\<lparr>inProg := p, unow := w\<rparr>) of
                Inl (x, st1) \<Rightarrow> update_rollback e op current x st1
              | Inr st1 \<Rightarrow>
                  let out = stackEvent ''UPDATE_COMPLETE'' (new\<lparr>Events := Events (inProg st1)\<rparr>); (f, w') = writeStackRecord e out (unow st1)
                  in (Some out, f, w')) = (Some out, f, w')"
      using assms(1) False by (simp add: update_finish_def Let_def o p_def)
    have inv: "case update_removals e op (map (objectKey \<circ> res) desired) ?removed (st\<lparr>inProg := p, unow := w\<rparr>) of
        Inl (x, st') \<Rightarrow> update_inv e w0 ?P ?S ?R st' | Inr st' \<Rightarrow> update_inv e w0 ?P ?S ?R st'"
      by (rule update_removals_inv [OF _ st]) auto
    show ?thesis
    proof (cases "update_removals e op (map (objectKey \<circ> res) desired) ?removed (st\<lparr>inProg := p, unow := w\<rparr>)")
      case (Inl y)
      then show ?thesis using undo inv p by (cases y) auto
    next
      case (Inr st1)
      then have "sStatus out = ''UPDATE_COMPLETE''" using p new by (auto simp: Let_def split: prod.splits)
      then show ?thesis using assms(4) by simp
    qed
  qed
qed

lemma update_start_result:
  assumes "update_start e op current desired folded w = (Some out, f, w')" "consistent (sResources current)"
    and "LabelReader op" "Creator op" "build ns = Inr desired"
    and "\<forall>b \<in> set desired. change_action (sResources current) (res b) = Modify \<longrightarrow> objectKey (res b) \<in> objectKey ` set (sResources current)"
    and "sStatus out = ''UPDATE_ROLLBACK_COMPLETE''"
  shows "restored e op build (sResources current) w w' \<and> sResources out = sResources current"
proof -
  let ?cur = "sResources current" and ?S = "{k. shares build k}" and ?R = "created_by build"
  let ?P = "objectKey ` set ?cur"
  let ?inprog = "stackEvent ''UPDATE_IN_PROGRESS'' (current\<lparr>sStatus := ''UPDATE_IN_PROGRESS'',
            sPending := map res (filter (\<lambda>b. change_action ?cur (res b) = Add) desired)\<rparr>)"
  obtain g w1 where g: "writeStackRecord e ?inprog w = (g, w1)" by fastforce
  have w1: "object_at w1 j = object_at w j" for j using write_objects [of e ?inprog w j] g by simp
  let ?st = "\<lparr>added = [], restarted = [], uwaits = [], udone = [], uowns = map objectKey ?cur, inProg = ?inprog, uData = [], unow = w1\<rparr>"
  have "update_inv e w ?P ?S ?R ?st" using w1 by (simp add: update_inv_def untouched_def)
  then have all: "case update_all e op ?cur desired ?st of Inl (x, st') \<Rightarrow> update_inv e w ?P ?S ?R st' | Inr st' \<Rightarrow> update_inv e w ?P ?S ?R st'"
    by (intro update_all_inv assms(3,4)) (use assms(5,6) in \<open>auto simp: shares_def created_by_def\<close>)
  note undo = update_rollback_result [OF _ assms(2) _ assms(7)]
  have g0: "g = None" using assms(1) g by (simp add: update_start_def Let_def split: option.splits)
  show ?thesis
  proof (cases "update_all e op ?cur desired ?st")
    case (Inl y)
    then show ?thesis using undo all assms(1) g g0 by (cases y) (auto simp: update_start_def Let_def)
  next
    case (Inr st)
    then have inv: "update_inv e w ?P ?S ?R st" using all by simp
    have "update_finish e op current desired folded st = (Some out, f, w')" using assms(1) g g0 Inr by (simp add: update_start_def Let_def)
    then show ?thesis using update_finish_result assms(2,7) inv by blast
  qed
qed

lemma leaves_nestedOutputsOf: "leaves {} (nestedOutputsOf e op rs)"
proof (induction rs)
  case (Cons r rs)
  show ?case unfolding leaves_def
  proof (intro allI impI)
    fix w j assume "j \<notin> ({} :: okey set)"
    have IH: "object_at (snd (nestedOutputsOf e op rs v)) j = object_at v j" for v using Cons unfolding leaves_def by blast
    obtain x w1 where g: "read_call e (\<lambda>w. rName r \<in> set (nested w)) w = (x, w1)" by fastforce
    show "object_at (snd (nestedOutputsOf e op (r # rs) w)) j = object_at w j"
      using read_call_world [OF g] by (simp add: g IH split: sum.splits)
  qed
qed (simp add: leaves_def)

lemma leaves_nested_compare: "leaves {} (nested_compare e op cur bs)"
proof (induction bs)
  case (Cons b bs)
  show ?case unfolding leaves_def
  proof (intro allI impI)
    fix w j assume "j \<notin> ({} :: okey set)"
    have IH: "object_at (snd (nested_compare e op cur bs v)) j = object_at v j" for v using Cons unfolding leaves_def by blast
    have IH': "nested_compare e op cur bs v = (x, v') \<Longrightarrow> object_at v' j = object_at v j" for v x v' using IH [of v] by simp
    obtain x w1 where c: "call e (\<lambda>w. w) w = (x, w1)" by fastforce
    have w1: "object_at w1 j = object_at w j" using c by (auto elim!: callE)
    show "object_at (snd (nested_compare e op cur (b # bs) w)) j = object_at w j"
      using w1 by (auto simp: c Let_def IH dest: IH' split: option.splits prod.splits)
  qed
qed (simp add: leaves_def)

text \<open>A modified resource is the object of the resource it was: its kind and name are those of a recorded one.\<close>

definition keeps_objects :: "builder \<Rightarrow> StackResource list \<Rightarrow> bool" where
  "keeps_objects build prior \<longleftrightarrow>
     (\<forall>ns bs. build ns = Inr bs \<longrightarrow> (\<forall>b \<in> set bs. change_action prior (res b) = Modify \<longrightarrow> objectKey (res b) \<in> objectKey ` set prior))"

lemma BuildChangeSet_result:
  assumes "BuildChangeSet e op build folded w = (Inr (cs, desired, found), w')"
  shows "found = stored w" "\<exists>ns. build ns = Inr desired" "object_at w' j = object_at w j"
proof -
  obtain x w1 where g: "GetStack e w = (x, w1)" by fastforce
  have x: "x = Inr found" using assms g by (auto simp: BuildChangeSet_def Let_def split: sum.splits prod.splits option.splits)
  have w1: "w1 = w\<lparr>calls := Suc (calls w)\<rparr>" "found = stored w1"
    using read_call_world [OF g [unfolded GetStack_def]] read_call_value [of e stored w found w1] g x by (simp_all add: GetStack_def)
  then show "found = stored w" by simp
  let ?cur = "case found of None \<Rightarrow> [] | Some rc \<Rightarrow> sResources rc"
  obtain y w2 where n: "nestedOutputsOf e op ?cur w1 = (y, w2)" by fastforce
  have w2: "object_at w2 j = object_at w j" using leavesD [OF leaves_nestedOutputsOf n, of j] w1 by simp
  obtain z w3 where b: "buildAvoidingLeftovers e op build (map objectKey ?cur) w2 = (z, w3)" by fastforce
  have z: "z = Inr desired" "w' = w3" using assms g x n b by (auto simp: BuildChangeSet_def Let_def split: option.splits sum.splits)
  show "\<exists>ns. build ns = Inr desired" using build_around_result(2) b z(1) unfolding buildAvoidingLeftovers_def by blast
  show "object_at w' j = object_at w j" using build_around_result(1) b z(2) w2 unfolding buildAvoidingLeftovers_def by metis
qed


subsection \<open>Updates of a sample stack\<close>

text \<open>The new template adds a queue whose name is another stack's.\<close>

definition web_updated :: answer where
  "web_updated = Update quiet_cluster web_options False web_build [] web_world"

lemma web_updated_status: "map_option sStatus (fst web_updated) = Some ''UPDATE_ROLLBACK_COMPLETE''"
  by code_simp

lemma web_update_hyps: "consistent (sResources web_record)" "keeps_objects web_build (sResources web_record)"
proof -
  show "consistent (sResources web_record)" by code_simp
  have "list_all (\<lambda>b. change_action (sResources web_record) (res b) = Modify \<longrightarrow> objectKey (res b) \<in> objectKey ` set (sResources web_record))
    [built ''Assets'' ''Bucket'' ''web-assets'', built ''Jobs'' ''Queue'' ''jobs'']" by code_simp
  then show "keeps_objects web_build (sResources web_record)" unfolding keeps_objects_def web_build_def list_all_iff by simp
qed


text \<open>
  A change of a logical id to a resource of another kind is a modification: the new object is created, and the old one
  is neither deleted nor on record any more. A rollback in turn leaves the new object, as it counts as modified and
  not as added.
\<close>

definition retyped_build :: builder where
  "retyped_build = (\<lambda>_. Inr [(built ''Assets'' ''Queue'' ''web-assets'')
     \<lparr>res := (recorded ''Assets'' ''Queue'' ''web-assets'')\<lparr>rSpec := [(''fifo'', JBool True)]\<rparr>\<rparr>])"

definition retyped :: answer where
  "retyped = Update quiet_cluster web_options False retyped_build [] web_world"

theorem retyped_resource_is_orphaned:
  "map_option sStatus (fst retyped) = Some ''UPDATE_COMPLETE'' \<and>
   ours web_options (object_at (snd (snd retyped)) (''openinfra.dev/v1'', ''Bucket'', ''web-assets'')) \<and>
   map_option (\<lambda>r. list_ex (\<lambda>x. rKind x = ''Bucket'') (sResources r @ sPending r)) (fst retyped) = Some False"
  by code_simp

end
