(* ===== verification/CfnRecover.thy ===== *)
theory CfnRecover
  imports CfnUpdate
begin

text \<open>
  Recovering a stack whose operation was interrupted: \<^verbatim>\<open>cfn/recover.go\<close>. The reason becomes the first
  message of the record. The interrupted operation may have got anywhere, so the theorems speak of every
  cluster the recovery may find.
\<close>

subsection \<open>Recovery\<close>

definition RecoveryFailedStatus :: "string \<Rightarrow> string" where
  "RecoveryFailedStatus status =
     (if status = ''CREATE_IN_PROGRESS'' \<or> status = ''ROLLBACK_IN_PROGRESS'' then ''ROLLBACK_FAILED''
      else if status = ''UPDATE_IN_PROGRESS'' \<or> status = ''UPDATE_ROLLBACK_IN_PROGRESS'' then ''UPDATE_ROLLBACK_FAILED''
      else if status = ''DELETE_IN_PROGRESS'' then ''DELETE_FAILED'' else [])"

text \<open>What identifies a resource: its object, or its logical id when it is not one.\<close>

definition union_key :: "StackResource \<Rightarrow> okey + string" where
  "union_key r = (if isOutOfBand r then Inr (LogicalID r) else Inl (objectKey r))"

fun union_loop :: "(okey + string) list \<Rightarrow> StackResource list \<Rightarrow> StackResource list" where
  "union_loop seen [] = []"
| "union_loop seen (r # rs) =
     (if union_key r \<in> set seen then union_loop seen rs else r # union_loop (union_key r # seen) rs)"

definition unionResources :: "StackResource list \<Rightarrow> StackResource list \<Rightarrow> StackResource list" where
  "unionResources a b = union_loop [] (a @ b)"

definition recoverCreate :: "env \<Rightarrow> options \<Rightarrow> fault \<Rightarrow> StackRecord \<Rightarrow> world \<Rightarrow> answer" where
  "recoverCreate e op reason rc w =
     (let prog = rc\<lparr>sStatus := ''ROLLBACK_IN_PROGRESS'', sMessage := [reason]\<rparr>
      in case writeStackRecord e prog w of
           (Some x, w1) \<Rightarrow> (Some rc, Some x, w1)
         | (None, w1) \<Rightarrow>
             (case teardown e op (unionResources (sResources rc) (sPending rc)) True True prog w1 of
                (remaining, f, prog1, w2) \<Rightarrow>
                  let out = rc\<lparr>sPending := [], Events := Events prog1, Outputs := [], OutputsOmitted := False, sResources := remaining,
                        sStatus := (if f = None then ''ROLLBACK_COMPLETE'' else ''ROLLBACK_FAILED''),
                        sMessage := (case f of None \<Rightarrow> [reason] | Some x \<Rightarrow> [reason, x])\<rparr>;
                      (g, w3) = writeStackRecord e out w2
                  in (Some out, if f = None then g else f, w3)))"

definition restart_recorded :: "env \<Rightarrow> options \<Rightarrow> StackResource list \<Rightarrow> string \<Rightarrow> world \<Rightarrow> fault option \<times> world" where
  "restart_recorded e op rs i = every (restartInstance e op) (filter (\<lambda>r. LogicalID r = i \<and> isStackVM r) rs)"

definition recoverUpdate :: "env \<Rightarrow> options \<Rightarrow> fault \<Rightarrow> StackRecord \<Rightarrow> world \<Rightarrow> answer" where
  "recoverUpdate e op reason rc w =
     (let prog = rc\<lparr>sStatus := ''UPDATE_ROLLBACK_IN_PROGRESS'', sMessage := [reason]\<rparr>
      in case writeStackRecord e prog w of
           (Some x, w1) \<Rightarrow> (Some rc, Some x, w1)
         | (None, w1) \<Rightarrow>
             let (a, w2) = restorePrior e op (sResources rc) (sPending rc) True w1;
                 (b, w3) = every (restart_recorded e op (sResources rc)) (Restarting rc) w2;
                 rerr = first_of a b;
                 out = rc\<lparr>sPending := [], Restarting := [],
                   sStatus := (if rerr = None then ''UPDATE_ROLLBACK_COMPLETE'' else ''UPDATE_ROLLBACK_FAILED''),
                   sMessage := (case rerr of None \<Rightarrow> [reason] | Some x \<Rightarrow> [reason, x])\<rparr>;
                 (g, w4) = writeStackRecord e out w3
             in (Some out, if rerr = None then g else rerr, w4))"

definition recoverDelete :: "env \<Rightarrow> options \<Rightarrow> fault \<Rightarrow> world \<Rightarrow> answer" where
  "recoverDelete e op reason w =
     (case Destroy e op w of
        (out, None, w1) \<Rightarrow> (out, None, w1)
      | (out, Some x, w1) \<Rightarrow>
          (case GetStack e w1 of
             (Inr (Some cur), w2) \<Rightarrow>
               if sStatus cur = ''DELETE_IN_PROGRESS'' \<or> sStatus cur = ''DELETE_FAILED''
               then let cur' = cur\<lparr>sStatus := ''DELETE_FAILED'', sMessage := [reason, x]\<rparr>
                    in (Some cur', Some x, snd (writeStackRecord e cur' w2))
               else (out, Some x, w2)
           | (_, w2) \<Rightarrow> (out, Some x, w2)))"

definition RecoverInterrupted :: "env \<Rightarrow> options \<Rightarrow> fault \<Rightarrow> world \<Rightarrow> answer" where
  "RecoverInterrupted e op reason w =
     (if Namespace op = [] then (None, Some NoNamespace, w)
      else case GetStack e w of
          (Inl x, w1) \<Rightarrow> (None, Some x, w1)
        | (Inr None, w1) \<Rightarrow> (None, None, w1)
        | (Inr (Some rc), w1) \<Rightarrow>
            if sStatus rc = ''CREATE_IN_PROGRESS'' \<or> sStatus rc = ''ROLLBACK_IN_PROGRESS'' then recoverCreate e op reason rc w1
            else if sStatus rc = ''UPDATE_IN_PROGRESS'' \<or> sStatus rc = ''UPDATE_ROLLBACK_IN_PROGRESS'' then recoverUpdate e op reason rc w1
            else if sStatus rc = ''DELETE_IN_PROGRESS'' then recoverDelete e op reason w1
            else (Some rc, None, w1))"

subsection \<open>What recovery does\<close>

lemma union_loop_keys:
  "set (union_loop seen rs) \<subseteq> set rs" "r \<in> set rs \<Longrightarrow> union_key r \<notin> set seen \<Longrightarrow> union_key r \<in> union_key ` set (union_loop seen rs)"
  by (induction seen rs rule: union_loop.induct) auto

lemma unionResources_plain:
  assumes "r \<in> set (a @ b)" "plain r"
  shows "\<exists>r' \<in> set (unionResources a b). plain r' \<and> objectKey r' = objectKey r"
proof -
  obtain r' where "r' \<in> set (unionResources a b)" "union_key r' = union_key r"
    using union_loop_keys(2) [of r "a @ b" "[]"] assms(1) unfolding unionResources_def by auto
  then show ?thesis using assms(2) by (auto simp: union_key_def plain_def split: if_splits)
qed

lemma recoverCreate_result:
  assumes "recoverCreate e op reason rc w = (Some out, f, w')" "LabelReader op"
  shows "\<not> ours op (object_at w k) \<Longrightarrow> object_at w' k = object_at w k"
    and "sStatus out = ''ROLLBACK_COMPLETE'' \<Longrightarrow> sStatus rc \<noteq> ''ROLLBACK_COMPLETE'' \<Longrightarrow> r \<in> set (sResources rc @ sPending rc) \<Longrightarrow> plain r \<Longrightarrow>
      \<not> ours op (object_at w' (objectKey r)) \<or> (\<exists>x \<in> set (sResources out). objectKey x = objectKey r \<and> keptOnRollback x)"
proof -
  let ?prog = "rc\<lparr>sStatus := ''ROLLBACK_IN_PROGRESS'', sMessage := [reason]\<rparr>" and ?all = "unionResources (sResources rc) (sPending rc)"
  obtain g w1 where g: "writeStackRecord e ?prog w = (g, w1)" by fastforce
  have w1: "object_at w1 j = object_at w j" for j using write_objects [of e ?prog w j] g by simp
  obtain left h prog w2 where t: "teardown e op ?all True True ?prog w1 = (left, h, prog, w2)" by (metis prod_cases4)
  note torn = tornD [OF teardown_torn(1) [OF t]]
  have shape: "g \<noteq> None \<and> out = rc \<and> w' = w1 \<or>
      sResources out = left \<and> (sStatus out = ''ROLLBACK_COMPLETE'' \<longrightarrow> h = None) \<and> (\<forall>j. object_at w' j = object_at w2 j)"
  proof (cases g)
    case None
    let ?out = "rc\<lparr>sPending := [], Events := Events prog, Outputs := [], OutputsOmitted := False, sResources := left,
      sStatus := (if h = None then ''ROLLBACK_COMPLETE'' else ''ROLLBACK_FAILED''),
      sMessage := (case h of None \<Rightarrow> [reason] | Some x \<Rightarrow> [reason, x])\<rparr>"
    obtain y w3 where y: "writeStackRecord e ?out w2 = (y, w3)" by fastforce
    have "out = ?out" "w' = w3" using assms(1) by (simp_all add: recoverCreate_def Let_def g t None y)
    then show ?thesis using write_objects [of e ?out w2] y by simp
  qed (use assms(1) in \<open>auto simp: recoverCreate_def Let_def g\<close>)
  have same: "\<not> ours op (object_at w k) \<Longrightarrow> object_at w2 k = object_at w k" for k
    using torn(5) [of k] w1 [of k] assms(2) by simp
  show "\<not> ours op (object_at w k) \<Longrightarrow> object_at w' k = object_at w k"
    using shape same [of k] w1 [of k] by metis
  assume r: "sStatus out = ''ROLLBACK_COMPLETE''" "sStatus rc \<noteq> ''ROLLBACK_COMPLETE''" "r \<in> set (sResources rc @ sPending rc)" "plain r"
  then have out: "sResources out = left" "h = None" and w': "object_at w' (objectKey r) = object_at w2 (objectKey r)" using shape by auto
  obtain x where x: "x \<in> set ?all" "plain x" "objectKey x = objectKey r" using unionResources_plain [OF r(3,4)] by blast
  show "\<not> ours op (object_at w' (objectKey r)) \<or> (\<exists>x \<in> set (sResources out). objectKey x = objectKey r \<and> keptOnRollback x)"
  proof (cases "x \<in> set left")
    case True
    then have "keptOnRollback x" using torn(3) [OF out(2)] by (simp add: spared_def)
    then show ?thesis using True out(1) x(3) by blast
  next
    case False
    then have "object_at w2 (objectKey r) = None \<or> \<not> ours op (object_at w1 (objectKey r))" using torn(2) [OF x(1,2)] x(3) by simp
    then show ?thesis using not_ours_shrinks [OF torn(4), of op "objectKey r"] w' by (auto simp: ours_def)
  qed
qed

lemma leaves_restart_recorded: "leaves {} (restart_recorded e op rs i)"
  unfolding restart_recorded_def by (rule leaves_every) (rule leaves_restartInstance)

lemma recoverUpdate_result:
  assumes "recoverUpdate e op reason rc w = (Some out, f, w')" "LabelReader op"
  shows "\<not> ours op (object_at w k) \<Longrightarrow> k \<notin> objectKey ` set (sResources rc) \<Longrightarrow> object_at w' k = object_at w k"
    and "sStatus out = ''UPDATE_ROLLBACK_COMPLETE'' \<Longrightarrow> sStatus rc \<noteq> ''UPDATE_ROLLBACK_COMPLETE'' \<Longrightarrow> consistent (sResources rc) \<Longrightarrow>
      r \<in> set (sResources rc) \<Longrightarrow> plain r \<Longrightarrow> object_at w' (objectKey r) = Some (renderStackResource op r)"
    and "sStatus out = ''UPDATE_ROLLBACK_COMPLETE'' \<Longrightarrow> sStatus rc \<noteq> ''UPDATE_ROLLBACK_COMPLETE'' \<Longrightarrow>
      r \<in> set (sPending rc) \<Longrightarrow> undone (map objectKey (sResources rc)) r \<Longrightarrow> \<not> ours op (object_at w' (objectKey r))"
proof -
  let ?prog = "rc\<lparr>sStatus := ''UPDATE_ROLLBACK_IN_PROGRESS'', sMessage := [reason]\<rparr>" and ?prior = "sResources rc"
  obtain g w1 where g: "writeStackRecord e ?prog w = (g, w1)" by fastforce
  have w1: "object_at w1 j = object_at w j" for j using write_objects [of e ?prog w j] g by simp
  obtain a w2 where a: "restorePrior e op ?prior (sPending rc) True w1 = (a, w2)" by fastforce
  obtain b w3 where b: "every (restart_recorded e op ?prior) (Restarting rc) w2 = (b, w3)" by fastforce
  have w3: "object_at w3 j = object_at w2 j" for j
    using leavesD [OF leaves_every [where f = "restart_recorded e op ?prior", OF leaves_restart_recorded] b, of j] by simp
  have shape: "g \<noteq> None \<and> out = rc \<and> w' = w1 \<or>
      (sStatus out = ''UPDATE_ROLLBACK_COMPLETE'' \<longrightarrow> a = None) \<and> (\<forall>j. object_at w' j = object_at w2 j)"
  proof (cases g)
    case None
    let ?out = "rc\<lparr>sPending := [], Restarting := [],
      sStatus := (if first_of a b = None then ''UPDATE_ROLLBACK_COMPLETE'' else ''UPDATE_ROLLBACK_FAILED''),
      sMessage := (case first_of a b of None \<Rightarrow> [reason] | Some x \<Rightarrow> [reason, x])\<rparr>"
    obtain y w4 where y: "writeStackRecord e ?out w3 = (y, w4)" by fastforce
    have "out = ?out" "w' = w4" using assms(1) by (simp_all add: recoverUpdate_def Let_def g a b None y)
    then show ?thesis using write_objects [of e ?out w3] y w3 by (simp add: first_of_def)
  qed (use assms(1) in \<open>auto simp: recoverUpdate_def Let_def g\<close>)
  note R = restorePrior_result [OF a]
  show "\<not> ours op (object_at w k) \<Longrightarrow> k \<notin> objectKey ` set ?prior \<Longrightarrow> object_at w' k = object_at w k"
    using shape R(4) [OF TrueI assms(2), of k] w1 [of k] by (metis imageI)
  assume s: "sStatus out = ''UPDATE_ROLLBACK_COMPLETE''" "sStatus rc \<noteq> ''UPDATE_ROLLBACK_COMPLETE''"
  then have ok: "a = None" "\<forall>j. object_at w' j = object_at w2 j" using shape by auto
  show "consistent ?prior \<Longrightarrow> r \<in> set ?prior \<Longrightarrow> plain r \<Longrightarrow> object_at w' (objectKey r) = Some (renderStackResource op r)"
    using R(2) [OF ok(1)] ok(2) by metis
  show "\<not> ours op (object_at w' (objectKey r))" if u: "r \<in> set (sPending rc)" "undone (map objectKey ?prior) r"
  proof -
    have "objectKey r \<notin> objectKey ` set ?prior" using u(2) by (simp add: undone_def)
    then have "\<not> ours op (object_at w1 (objectKey r)) \<Longrightarrow> object_at w2 (objectKey r) = object_at w1 (objectKey r)"
      using R(4) [OF TrueI assms(2), of "objectKey r"] by (metis imageI)
    then show ?thesis using R(3) [OF ok(1) u] spec [OF ok(2), of "objectKey r"] by (auto simp: ours_def)
  qed
qed

lemma RecoverInterrupted_parts:
  assumes "RecoverInterrupted e op reason w = (Some out, f, w')" "stored w = Some rc"
  obtains w1 where "\<And>j. object_at w1 j = object_at w j"
    "if sStatus rc \<in> {''CREATE_IN_PROGRESS'', ''ROLLBACK_IN_PROGRESS''} then recoverCreate e op reason rc w1 = (Some out, f, w')
     else if sStatus rc \<in> {''UPDATE_IN_PROGRESS'', ''UPDATE_ROLLBACK_IN_PROGRESS''} then recoverUpdate e op reason rc w1 = (Some out, f, w')
     else if sStatus rc = ''DELETE_IN_PROGRESS'' then recoverDelete e op reason w1 = (Some out, f, w') else out = rc \<and> f = None \<and> w' = w1"
proof -
  obtain x w1 where g: "GetStack e w = (x, w1)" by fastforce
  have w1: "w1 = w\<lparr>calls := Suc (calls w)\<rparr>" using read_call_world [OF g [unfolded GetStack_def]] .
  have x: "x = Inr v \<Longrightarrow> v = Some rc" for v using read_call_value [of e stored w v w1] g assms(2) w1 by (simp add: GetStack_def)
  show ?thesis
  proof (rule that)
    show "object_at w1 j = object_at w j" for j by (simp add: w1)
  qed (use assms(1) x in \<open>cases x; auto simp: RecoverInterrupted_def g split: if_splits option.splits\<close>)
qed



subsection \<open>Recoveries of a sample stack\<close>

text \<open>An update that was to add the queue \<^verbatim>\<open>jobs\<close> stopped before the queue, which another stack then created.\<close>

definition stopped_update :: world where
  "stopped_update = web_world\<lparr>stored := Some (web_record\<lparr>sStatus := ''UPDATE_IN_PROGRESS'', sPending := [recorded ''Jobs'' ''Queue'' ''jobs'']\<rparr>)\<rparr>"

definition recovered :: answer where
  "recovered = RecoverInterrupted quiet_cluster web_options BuildRefused stopped_update"

lemma recovered_status: "map_option sStatus (fst recovered) = Some ''UPDATE_ROLLBACK_COMPLETE''"
  by code_simp

lemma recovered_is:
  obtains out where "RecoverInterrupted quiet_cluster web_options BuildRefused stopped_update = (Some out, fst (snd recovered), snd (snd recovered))"
    "sStatus out = ''UPDATE_ROLLBACK_COMPLETE''"
  using recovered_status by (cases recovered) (auto simp: recovered_def)

lemma stopped_update_record:
  "stored stopped_update = Some (web_record\<lparr>sStatus := ''UPDATE_IN_PROGRESS'', sPending := [recorded ''Jobs'' ''Queue'' ''jobs'']\<rparr>)"
  by (simp add: stopped_update_def)



text \<open>
  A failed update keeps what it added on the record when its rollback fails, so that a delete of the stack removes it. A
  recovery that fails the same way drops it: the object of the update stays, and no record names it.
\<close>

definition stopped_after_add :: world where
  "stopped_after_add = (let q = recorded ''Mail'' ''Queue'' ''mail'' in
     (write_object (objectKey q) (renderStackResource web_options q) web_world)
       \<lparr>stored := Some (web_record\<lparr>sStatus := ''UPDATE_IN_PROGRESS'', sPending := [q]\<rparr>)\<rparr>)"

definition flaky_cluster :: env where
  "flaky_cluster = quiet_cluster\<lparr>outcome_at := (\<lambda>n. if n = 3 then Fails else Done)\<rparr>"

definition half_recovered :: answer where
  "half_recovered = RecoverInterrupted flaky_cluster web_options BuildRefused stopped_after_add"

theorem failed_recovery_forgets_the_added:
  "map_option sStatus (fst half_recovered) = Some ''UPDATE_ROLLBACK_FAILED'' \<and>
   ours web_options (object_at (snd (snd half_recovered)) (objectKey (recorded ''Mail'' ''Queue'' ''mail''))) \<and>
   map_option (\<lambda>r. list_ex (\<lambda>x. rName x = ''mail'') (sResources r @ sPending r)) (fst half_recovered) = Some False"
  by code_simp

end
