(* ===== verification/Spec2Isabelle.thy ===== *)
theory Spec2Isabelle
  imports
    PolicyDecision
    ResourcePolicy
    DepGraph
    AuditChain
    Accounts
    Classify
    ConnPool
    TxMultiplex
    LanExpose
    Hpo
    ExecController
    SnsFilter
    IamCompile
    IamEvaluator
    AwsExport
    CfnRecover
begin

text \<open>
  Verification of the Go components of open-infra, a platform that offers AWS-like services on
  Kubernetes. Its parts are separate programs and packages that meet at the API server, at each
  other's objects and at HTTP: a state machine engine (\<^verbatim>\<open>statemachine/\<close>), a proxy that multiplexes
  SQL Server sessions over few connections (\<^verbatim>\<open>tds-proxy/\<close>), controllers for LAN addresses and
  hyperparameter tuning (\<^verbatim>\<open>lan-expose/\<close>, \<^verbatim>\<open>hpo/\<close>), the deployment of CloudFormation templates with
  the policies of queues and topics (\<^verbatim>\<open>cfn/\<close>), and the console API with its accounts, its audit log
  and its IAM policies (\<^verbatim>\<open>console-api/\<close>, \<^verbatim>\<open>policyengine/\<close>).

  \<^bold>\<open>Conventions.\<close> A struct is a record, a tagged value a datatype, \<^verbatim>\<open>(T, error)\<close> a sum with one
  error constructor per return statement, a map an association list in the order an iteration
  happens to visit it (theorems hold for every order), a machine integer a word or an integer with its
  wrap-around written out where it can matter. What a component gets from outside the repository (the
  network, the API server, clocks, SHA-256, JSON decoding, regular expressions of users) is a
  parameter or a record of answers, and no theorem assumes more of it than its documentation says.
  Handlers and loops are total functions by structural recursion or a measure; the one loop that may
  run forever, the address search of \<^verbatim>\<open>lan-expose\<close>, is a partial function. Concurrency is an explicit
  sequence of steps.

  \<^bold>\<open>Theories.\<close>
  \<^item> \<open>Prelude\<close>: results, strings, string maps, 64-bit integers; \<open>Json\<close>, \<open>GoFloat\<close>, \<open>Regex\<close>: documents,
    \<^verbatim>\<open>float64\<close> comparison, the regular expressions of the source by derivatives; \<open>GoHeap\<close>: Go maps
    with their aliasing.
  \<^item> \<open>Machine\<close>: the locales \<open>machine\<close> and \<open>simulation\<close>, interpreted by the directory of accounts, the
    tuning job, the proxy session and the state machine execution; \<open>PolicyDecision\<close>: the locale
    \<open>deny_overrides\<close>, interpreted by the resource policies.
  \<^item> \<open>JsonPath\<close>, \<open>Choice\<close>, \<open>Asl\<close>, \<open>Engine\<close>, \<open>TaskHttp\<close>, \<open>ExecController\<close>: the state machine service,
    from reference paths up to the controller. Shown: ResultPath is a functional update of the document
    when nothing is shared (and is not otherwise); validation accepts exactly the definitions whose
    targets resolve; retries and catchers; at most the allowed number of attempts; checkpoints come
    first; references stay valid; a Task never acts under another execution's role; an execution has
    one goroutine, and once settled it stays as it is.
  \<^item> \<open>SnsFilter\<close>: subscription filters. A filter decides exactly what its document says when it is read
    as a formula; its limits hold as long as 64 bits can count the combinations.
  \<^item> \<open>Wildcards\<close>, \<open>ResourcePolicy\<close>: both wildcard matchers decide one reference relation; an accepted
    queue or topic policy never opens the resource beyond what the source promises.
  \<^item> \<open>PolicyEngine\<close>: the engine that compiles policy statements to Cedar, with the locale \<open>cedar\<close> for what
    Cedar promises and an interpretation by an evaluator of the expressions used. Shown: it decides as the
    statements and the permission boundary say.
  \<^item> \<open>AwsImport\<close>, \<open>AwsExport\<close>: policy documents of AWS read as statements, and statements written as
    documents. Shown: an imported statement applies only where its document does, an exported document
    exactly where its statement does.
  \<^item> \<open>IamWorld\<close>, \<open>IamLoader\<close>: the policies of the platform, who holds them, and how they are read from the
    cluster. Shown: a principal of a namespace holds policies of its own and the home namespace only,
    temporary access is approved by a second person and ends, and a boundary that does not resolve allows
    nothing.
  \<^item> \<open>IamAuthz\<close>, \<open>IamDocument\<close>, \<open>IamEvaluator\<close>: the evaluation of a request over identity, resource,
    boundary and session policies, the compilation of documents, resource and trust policies, the caches
    and the rollout modes around it. Shown: a request is decided by AWS's evaluation logic, compiling a
    document never widens it, and neither the cached world nor the kept engines change a decision.
  \<^item> \<open>IamCompile\<close>: the compilation of policies to names per kind and verb. Shown: nothing is widened.
  \<^item> \<open>DepGraph\<close>: the order of a template's resources, sound and complete.
  \<^item> \<open>CfnStack\<close>, \<open>CfnCreate\<close>, \<open>CfnDelete\<close>, \<open>CfnUpdate\<close>, \<open>CfnRecover\<close>: what the operations on a stack do to the
    cluster when any call to it can fail and other parties create objects meanwhile. Shown: a create takes
    over no object of others, a create that is rolled back leaves no orphans, a delete removes exactly what
    is recorded and not retained, what it could not remove stays on record, a failed update brings the prior
    stack back, and recovery rolls an operation back that was interrupted anywhere, touching only its own.
  \<^item> \<open>AuditChain\<close>: what a verified head commits to, and that incremental verification equals the full.
  \<^item> \<open>Accounts\<close>: the directory refines the last observed labels; accounts are disjoint.
  \<^item> \<open>Tds\<close>, \<open>Classify\<close>, \<open>ConnPool\<close>, \<open>TxMultiplex\<close>: framing round trips and the absence of panics,
    the classifier of state-leaving statements, the ceiling of the pool in every interleaving, and a
    session that borrows, resets and returns backends so that a transaction stays on one of them.
  \<^item> \<open>LanAlloc\<close>, \<open>LanExpose\<close>: address allocation, route merging, the sweep with failing calls.
  \<^item> \<open>Hpo\<close>: the grid, the parallel limit and the end of a tuning job.

  \<^bold>\<open>Bounds.\<close> The limits in definitions are those of the source (16 levels of a filter, 200 events of a
  history, 1 MiB of a response). The rounding to \<^verbatim>\<open>float64\<close> in \<open>Choice\<close> doubles the unit of the last bit
  11 times, enough for 64 bits over 53. No other definition has fuel.

  \<^bold>\<open>Not modelled.\<close> The HTTP clients and servers, TLS, logging, metrics and process start-up are I/O. The
  translation of CloudFormation resource types and the request handlers of the AWS shim
  (\<^verbatim>\<open>cfn/translate*.go\<close>, \<^verbatim>\<open>console-api/cmd/aws-shim\<close>) are large, mostly field by field mappings between
  wire formats; what a template is built to is an argument of the create. Of the stack operations the interleaved
  create of templates with custom resources, REST APIs or nested stacks are left out. Of the IAM packages the table of actions per Kubernetes kind (\<^verbatim>\<open>awsaction\<close>, a
  parameter of \<open>IamCompile\<close>) and the rendering of decisions as RBAC objects are left out, and of the proxy its default relay, two goroutines that copy bytes.

  \<^bold>\<open>This theory\<close> holds what spans components: the controller, the definitions it parses, the tasks it
  sends over HTTP and the interpreter together keep an execution sound.
\<close>



end
